(* ===== verification/Prelude.thy ===== *)
theory Prelude
  imports Main "HOL-Library.List_Lexorder" "HOL-Library.Char_ord"
begin

text \<open>
  Shared vocabulary of the development.  Go strings and byte slices are byte lists
  (\<^typ>\<open>string\<close>), a Go \<open>error\<close> result that only says whether a validation failed is an
  \<open>option\<close> (\<open>None\<close> is \<open>nil\<close>), and a fallible operation returns \<open>error + value\<close>.  The lemma
  collections \<open>validation_simps\<close> and \<open>result_simps\<close> carry the rewriting of validators and
  of error propagation in every component.
\<close>

named_theorems validation_simps \<open>unfolding of validators\<close>
named_theorems result_simps \<open>propagation of errors\<close>

type_synonym bytes = string
type_synonym ('e, 'a) result = "'e + 'a"

subsection \<open>Validation: a chain of guarded early returns\<close>

definition fails_if :: "bool \<Rightarrow> 'e \<Rightarrow> 'e option" where
  "fails_if b e = (if b then Some e else None)"

fun first_error :: "'e option list \<Rightarrow> 'e option" where
  "first_error [] = None"
| "first_error (Some e # _) = Some e"
| "first_error (None # xs) = first_error xs"

lemma fails_if_None [simp, validation_simps]: "fails_if b e = None \<longleftrightarrow> \<not> b"
  by (simp add: fails_if_def)

lemma first_error_Cons_None [simp, validation_simps]:
  "first_error (x # xs) = None \<longleftrightarrow> x = None \<and> first_error xs = None"
  by (cases x) auto

lemma first_error_None_iff: "first_error xs = None \<longleftrightarrow> (\<forall>x \<in> set xs. x = None)"
  by (induction xs) auto

subsection \<open>Error propagation\<close>

definition bind_result :: "('e, 'a) result \<Rightarrow> ('a \<Rightarrow> ('e, 'b) result) \<Rightarrow> ('e, 'b) result" where
  "bind_result r f = (case r of Inl e \<Rightarrow> Inl e | Inr a \<Rightarrow> f a)"

definition require :: "bool \<Rightarrow> 'e \<Rightarrow> ('e, unit) result" where
  "require b e = (if b then Inr () else Inl e)"

lemma bind_result_simps [simp, result_simps]:
  "bind_result (Inl e) f = Inl e"
  "bind_result (Inr a) f = f a"
  by (simp_all add: bind_result_def)

lemma bind_result_Inr_iff [result_simps]:
  "bind_result r f = Inr b \<longleftrightarrow> (\<exists>a. r = Inr a \<and> f a = Inr b)"
  by (cases r) auto

lemma require_Inr [simp, result_simps]: "require b e = Inr u \<longleftrightarrow> b"
  by (simp add: require_def)

lemma require_True [simp]: "require True e = Inr ()"
  and require_False [simp]: "require False e = Inl e"
  by (simp_all add: require_def)

text \<open>
  A database transaction with \<open>defer tx.Rollback()\<close>: the body works on a copy of the tables;
  only a body that reaches its commit, on a database that accepts the commit, changes them.
  \<open>ok\<close> is the environment's answer to \<open>BeginTx\<close>, the statements and \<open>Commit\<close>.
\<close>

definition with_tx :: "'e \<Rightarrow> bool \<Rightarrow> 'db \<Rightarrow> ('db \<Rightarrow> ('e, 'a \<times> 'db) result) \<Rightarrow> ('e, 'a) result \<times> 'db" where
  "with_tx fault ok db body =
     (case body db of
        Inl e \<Rightarrow> (Inl (if ok then e else fault), db)
      | Inr (a, db') \<Rightarrow> if ok then (Inr a, db') else (Inl fault, db))"

lemma with_tx_failed: "fst (with_tx f ok db body) = Inl e \<Longrightarrow> snd (with_tx f ok db body) = db"
  by (auto simp: with_tx_def split: sum.splits prod.splits if_splits)

lemma with_tx_Inr_iff [result_simps]:
  "with_tx f ok db body = (Inr a, db') \<longleftrightarrow> ok \<and> body db = Inr (a, db')"
  by (auto simp: with_tx_def split: sum.splits prod.splits if_splits)

lemma with_tx_cases:
  assumes "with_tx f ok db body = (r, db')"
  obtains (rolled_back) e where "r = Inl e" "db' = db"
  | (committed) a where "r = Inr a" "ok" "body db = Inr (a, db')"
  using assms by (auto simp: with_tx_def split: sum.splits prod.splits if_splits)

subsection \<open>Lists\<close>

lemma list_all2_map_eq: "map f xs = map g ys \<longleftrightarrow> list_all2 (\<lambda>x y. f x = g y) xs ys"
  by (auto simp: list_all2_conv_all_nth list_eq_iff_nth_eq)

lemma takeWhile_id: "(\<And>x. x \<in> set xs \<Longrightarrow> P x) \<Longrightarrow> takeWhile P xs = xs"
  by simp

lemma map_of_zip_distinct_nth:
  "distinct ks \<Longrightarrow> length ks = length vs \<Longrightarrow> i < length ks \<Longrightarrow> map_of (zip ks vs) (ks ! i) = Some (vs ! i)"
  by (simp add: map_of_zip_nth)

end
