(* ===== verification/Go_Text.thy ===== *)
theory Go_Text
  imports Prelude
begin

text \<open>
  The parts of Go's standard library that the program applies to text: UTF-8 decoding as
  \<open>utf8.DecodeRune\<close> performs it, \<open>utf8.ValidString\<close>, \<open>utf8.AppendRune\<close>, \<open>unicode.IsControl\<close>,
  the Unicode category \<open>Cf\<close>, hexadecimal text, and \<open>filepath.Clean\<close> on absolute paths.
  Strings are byte lists; a rune is a natural number.
\<close>

abbreviation byte :: "char \<Rightarrow> nat" where
  "byte c \<equiv> of_char c"

lemma byte_less [simp]: "byte c < 256"
proof -
  have "byte c mod 256 < 256" by (rule mod_less_divisor) simp
  then show ?thesis by (simp only: of_char_mod_256)
qed

lemma byte_inject [simp]: "byte c = byte d \<longleftrightarrow> c = d"
  by simp

lemma byte_char_of [simp]: "n < 256 \<Longrightarrow> byte (char_of n) = n"
  by (simp add: of_char_of)

subsection \<open>UTF-8\<close>

definition RuneError :: nat where "RuneError = 65533"

definition cont_byte :: "nat \<Rightarrow> bool" where
  "cont_byte b \<longleftrightarrow> 128 \<le> b \<and> b \<le> 191"

text \<open>\<open>utf8.DecodeRune\<close>: the rune and the bytes consumed; \<open>(RuneError, 1)\<close> on an invalid
  sequence and \<open>(RuneError, 0)\<close> on no input.\<close>

definition DecodeRune :: "bytes \<Rightarrow> nat \<times> nat" where
  "DecodeRune s =
     (case s of
        [] \<Rightarrow> (RuneError, 0)
      | c0 # r0 \<Rightarrow>
         (let b0 = byte c0 in
          if b0 < 128 then (b0, 1)
          else if b0 < 194 then (RuneError, 1)
          else if b0 < 224 then
            (case r0 of
               c1 # _ \<Rightarrow> if cont_byte (byte c1) then ((b0 - 192) * 64 + (byte c1 - 128), 2) else (RuneError, 1)
             | _ \<Rightarrow> (RuneError, 1))
          else if b0 < 240 then
            (case r0 of
               c1 # c2 # _ \<Rightarrow>
                 if (if b0 = 224 then 160 else 128) \<le> byte c1 \<and> byte c1 \<le> (if b0 = 237 then 159 else 191)
                    \<and> cont_byte (byte c2)
                 then ((b0 - 224) * 4096 + (byte c1 - 128) * 64 + (byte c2 - 128), 3) else (RuneError, 1)
             | _ \<Rightarrow> (RuneError, 1))
          else if b0 < 245 then
            (case r0 of
               c1 # c2 # c3 # _ \<Rightarrow>
                 if (if b0 = 240 then 144 else 128) \<le> byte c1 \<and> byte c1 \<le> (if b0 = 244 then 143 else 191)
                    \<and> cont_byte (byte c2) \<and> cont_byte (byte c3)
                 then ((b0 - 240) * 262144 + (byte c1 - 128) * 4096 + (byte c2 - 128) * 64 + (byte c3 - 128), 4)
                 else (RuneError, 1)
             | _ \<Rightarrow> (RuneError, 1))
          else (RuneError, 1)))"

lemma DecodeRune_size: "s \<noteq> [] \<Longrightarrow> 0 < snd (DecodeRune s) \<and> snd (DecodeRune s) \<le> length s"
  by (auto simp: DecodeRune_def Let_def split: list.splits)

text \<open>The runes of a string, as a \<open>range\<close> loop sees them, each with its width.\<close>

function runes :: "bytes \<Rightarrow> (nat \<times> nat) list" where
  "runes s = (if s = [] then [] else DecodeRune s # runes (drop (snd (DecodeRune s)) s))"
  by pat_completeness auto
termination
  by (relation "measure length") (auto dest: DecodeRune_size)

declare runes.simps [simp del]

lemma runes_Nil [simp]: "runes [] = []"
  by (simp add: runes.simps)

lemma runes_step: "s \<noteq> [] \<Longrightarrow> runes s = DecodeRune s # runes (drop (snd (DecodeRune s)) s)"
  by (simp add: runes.simps [of s])

definition invalid_rune :: "nat \<times> nat \<Rightarrow> bool" where
  "invalid_rune p \<longleftrightarrow> p = (RuneError, 1)"

definition ValidString :: "bytes \<Rightarrow> bool" where
  "ValidString s \<longleftrightarrow> (\<forall>p \<in> set (runes s). \<not> invalid_rune p)"

text \<open>\<open>utf8.AppendRune\<close> on a rune that a decoder can return.\<close>

definition EncodeRune :: "nat \<Rightarrow> bytes" where
  "EncodeRune r =
     (if r < 128 then [char_of r]
      else if r < 2048 then [char_of (192 + r div 64), char_of (128 + r mod 64)]
      else if r < 65536 then
        [char_of (224 + r div 4096), char_of (128 + r div 64 mod 64), char_of (128 + r mod 64)]
      else [char_of (240 + r div 262144), char_of (128 + r div 4096 mod 64),
            char_of (128 + r div 64 mod 64), char_of (128 + r mod 64)])"

text \<open>ASCII text decodes byte by byte.\<close>

definition ascii :: "bytes \<Rightarrow> bool" where
  "ascii s \<longleftrightarrow> list_all (\<lambda>c. byte c < 128) s"

lemma DecodeRune_ascii: "byte c < 128 \<Longrightarrow> DecodeRune (c # s) = (byte c, 1)"
  by (simp add: DecodeRune_def Let_def)

lemma runes_ascii: "ascii s \<Longrightarrow> runes s = map (\<lambda>c. (byte c, 1)) s"
  by (induction s) (auto simp: ascii_def runes_step DecodeRune_ascii)

lemma ValidString_ascii: "ascii s \<Longrightarrow> ValidString s"
  by (auto simp: ValidString_def runes_ascii invalid_rune_def RuneError_def ascii_def list_all_iff)

subsection \<open>Control and format characters\<close>

definition IsControl :: "nat \<Rightarrow> bool" where
  "IsControl r \<longleftrightarrow> r < 32 \<or> (127 \<le> r \<and> r < 160)"

definition Cf_ranges :: "(nat \<times> nat) list" where
  "Cf_ranges =
     [(173, 173), (1536, 1541), (1564, 1564), (1757, 1757), (1807, 1807), (2192, 2193), (2274, 2274),
      (6158, 6158), (8203, 8207), (8234, 8238), (8288, 8292), (8294, 8303), (65279, 65279),
      (65529, 65531), (69821, 69821), (69837, 69837), (78896, 78911), (113824, 113827),
      (119155, 119162), (917505, 917505), (917536, 917631)]"

definition is_Cf :: "nat \<Rightarrow> bool" where
  "is_Cf r \<longleftrightarrow> (\<exists>(lo, hi) \<in> set Cf_ranges. lo \<le> r \<and> r \<le> hi)"

subsection \<open>ASCII text\<close>

definition hex_digit :: "char \<Rightarrow> bool" where
  "hex_digit c \<longleftrightarrow> (48 \<le> byte c \<and> byte c \<le> 57) \<or> (97 \<le> byte c \<and> byte c \<le> 102) \<or> (65 \<le> byte c \<and> byte c \<le> 70)"

definition upper_ascii :: "char \<Rightarrow> bool" where
  "upper_ascii c \<longleftrightarrow> 65 \<le> byte c \<and> byte c \<le> 90"

text \<open>\<open>hex.DecodeString(s)\<close> succeeds, and \<open>strings.ToLower(s) == s\<close>, for text of hexadecimal digits.\<close>

definition hex_decodes :: "bytes \<Rightarrow> bool" where
  "hex_decodes s \<longleftrightarrow> even (length s) \<and> list_all hex_digit s"

definition is_lower :: "bytes \<Rightarrow> bool" where
  "is_lower s \<longleftrightarrow> list_all (\<lambda>c. \<not> upper_ascii c) s"

definition hex_nibble :: "nat \<Rightarrow> char" where
  "hex_nibble n = (if n < 10 then char_of (48 + n) else char_of (87 + n))"

text \<open>\<open>hex.EncodeToString\<close>.\<close>

definition hex_encode :: "bytes \<Rightarrow> bytes" where
  "hex_encode raw = concat (map (\<lambda>c. [hex_nibble (byte c div 16), hex_nibble (byte c mod 16)]) raw)"

lemma length_hex_encode [simp]: "length (hex_encode raw) = 2 * length raw"
  by (induction raw) (auto simp: hex_encode_def)

lemma hex_nibble_digit: "n < 16 \<Longrightarrow> hex_digit (hex_nibble n) \<and> \<not> upper_ascii (hex_nibble n)"
  by (auto simp: hex_nibble_def hex_digit_def upper_ascii_def)

lemma hex_encode_canonical: "list_all hex_digit (hex_encode raw) \<and> is_lower (hex_encode raw)"
proof (induction raw)
  case Nil
  then show ?case by (simp add: hex_encode_def is_lower_def)
next
  case (Cons c raw)
  have "byte c div 16 < 16" "byte c mod 16 < 16"
    using byte_less [of c] by linarith+
  with hex_nibble_digit Cons show ?case
    by (simp add: hex_encode_def is_lower_def)
qed

subsection \<open>Absolute paths\<close>

text \<open>\<open>filepath.Clean\<close> on a rooted path: split at slashes, drop empty and dot elements, let a
  dot-dot element remove its predecessor (or vanish at the root).\<close>

fun split_at :: "char \<Rightarrow> bytes \<Rightarrow> bytes list" where
  "split_at sep [] = [[]]"
| "split_at sep (c # cs) =
     (if c = sep then [] # split_at sep cs
      else (case split_at sep cs of [] \<Rightarrow> [[c]] | w # ws \<Rightarrow> (c # w) # ws))"

definition slash :: char where "slash = CHR ''/''"

fun clean_elements :: "bytes list \<Rightarrow> bytes list \<Rightarrow> bytes list" where
  "clean_elements out [] = rev out"
| "clean_elements out (e # es) =
     (if e = [] \<or> e = ''.'' then clean_elements out es
      else if e = ''..'' then clean_elements (tl out) es
      else clean_elements (e # out) es)"

definition Clean_abs :: "bytes \<Rightarrow> bytes" where
  "Clean_abs p = (case clean_elements [] (split_at slash p) of
      [] \<Rightarrow> [slash]
    | es \<Rightarrow> concat (map (\<lambda>e. slash # e) es))"

definition IsAbs :: "bytes \<Rightarrow> bool" where
  "IsAbs p \<longleftrightarrow> (case p of [] \<Rightarrow> False | c # _ \<Rightarrow> c = slash)"

text \<open>\<open>filepath.Base\<close>, and \<open>filepath.Dir\<close> of a rooted path.\<close>

definition Base :: "bytes \<Rightarrow> bytes" where
  "Base p = (let s = rev (dropWhile (\<lambda>c. c = slash) (rev p))
             in if p = [] then ''.'' else if s = [] then [slash] else rev (takeWhile (\<lambda>c. c \<noteq> slash) (rev s)))"

definition Dir_abs :: "bytes \<Rightarrow> bytes" where
  "Dir_abs p = Clean_abs (rev (dropWhile (\<lambda>c. c \<noteq> slash) (rev p)))"

end
