(* ===== verification/Go_Time.thy ===== *)
theory Go_Time
  imports Go_Text
begin

text \<open>
  Go's \<open>time.Time\<close> as the program uses it.  A time is the number of nanoseconds since
  0001-01-01T00:00:00Z (Go's zero time), whether its location is \<open>time.UTC\<close>, and whether it
  carries a monotonic clock reading.  \<open>Round(0)\<close> removes the reading, so a time differs from
  its own \<open>Round(0)\<close> exactly when it carries one; \<open>UTC()\<close> removes it as well.  The persisted text is RFC 3339 with
  nanoseconds in UTC, computed from the proleptic Gregorian calendar; the main lemma is that
  parsing a formatted instant returns it.
\<close>

record gotime =
  t_ns :: int
  t_utc :: bool
  t_mono :: bool

definition utc_instant :: "int \<Rightarrow> gotime" where
  "utc_instant ns = \<lparr>t_ns = ns, t_utc = True, t_mono = False\<rparr>"

definition zero_time :: gotime where
  "zero_time = utc_instant 0"

definition IsZero :: "gotime \<Rightarrow> bool" where
  "IsZero t \<longleftrightarrow> t_ns t = 0"

definition Round0 :: "gotime \<Rightarrow> gotime" where
  "Round0 t = t\<lparr>t_mono := False\<rparr>"

definition to_UTC :: "gotime \<Rightarrow> gotime" where
  "to_UTC t = t\<lparr>t_utc := True, t_mono := False\<rparr>"

definition Before :: "gotime \<Rightarrow> gotime \<Rightarrow> bool" where
  "Before a b \<longleftrightarrow> t_ns a < t_ns b"

definition second :: int where "second = 1000000000"
definition minute :: int where "minute = 60 * second"
definition day_ns :: int where "day_ns = 86400 * second"

text \<open>The first nanosecond of year 10000: \<open>Year() > 9999\<close> from there on, \<open>Year() < 1\<close> below zero.\<close>

definition year_10000 :: int where "year_10000 = 3652059 * day_ns"

definition canonical_time :: "gotime \<Rightarrow> bool" where
  "canonical_time t \<longleftrightarrow> t_utc t \<and> t = Round0 t \<and> 0 < t_ns t \<and> t_ns t < year_10000"

lemma gotime_eq_iff: "(a :: gotime) = b \<longleftrightarrow> t_ns a = t_ns b \<and> t_utc a = t_utc b \<and> t_mono a = t_mono b"
  by (cases a; cases b) simp

lemma Round0_eq_iff: "t = Round0 t \<longleftrightarrow> \<not> t_mono t"
  by (cases t) (simp add: Round0_def)

lemma t_ns_utc_instant [simp]: "t_ns (utc_instant ns) = ns"
  by (simp add: utc_instant_def)

lemma utc_instant_inject [simp]: "utc_instant a = utc_instant b \<longleftrightarrow> a = b"
  by (simp add: utc_instant_def)

lemma canonical_utc_instant: "canonical_time t \<Longrightarrow> t = utc_instant (t_ns t)"
  by (auto simp: canonical_time_def Round0_def utc_instant_def gotime_eq_iff)

lemma canonical_iff: "canonical_time t \<longleftrightarrow> t = utc_instant (t_ns t) \<and> 0 < t_ns t \<and> t_ns t < year_10000"
  by (auto simp: canonical_time_def Round0_def utc_instant_def gotime_eq_iff)

lemma canonical_utc_instant_iff [simp]: "canonical_time (utc_instant n) \<longleftrightarrow> 0 < n \<and> n < year_10000"
  by (simp add: canonical_iff)

text \<open>\<open>service.now().UTC().Round(0)\<close> of a clock reading.\<close>

definition instant :: "gotime \<Rightarrow> gotime" where
  "instant t = Round0 (to_UTC t)"

lemma instant_eq: "instant t = utc_instant (t_ns t)"
  by (simp add: instant_def Round0_def to_UTC_def utc_instant_def gotime_eq_iff)

subsection \<open>Decimal digits\<close>

definition digit_char :: "nat \<Rightarrow> char" where
  "digit_char n = char_of (48 + n)"

definition is_digit :: "char \<Rightarrow> bool" where
  "is_digit c \<longleftrightarrow> 48 \<le> byte c \<and> byte c \<le> 57"

fun dec :: "nat \<Rightarrow> nat \<Rightarrow> bytes" where
  "dec 0 n = []"
| "dec (Suc w) n = dec w (n div 10) @ [digit_char (n mod 10)]"

definition undec :: "bytes \<Rightarrow> nat" where
  "undec s = foldl (\<lambda>a c. 10 * a + (byte c - 48)) 0 s"

lemma length_dec [simp]: "length (dec w n) = w"
  by (induction w arbitrary: n) auto

lemma dec_eq_Nil [simp]: "dec w n = [] \<longleftrightarrow> w = 0"
  using length_dec [of w n] by (metis length_0_conv)

lemma is_digit_digit_char: "n < 10 \<Longrightarrow> is_digit (digit_char n)"
  by (simp add: is_digit_def digit_char_def)

lemma digits_dec: "list_all is_digit (dec w n)"
  by (induction w arbitrary: n) (auto simp: is_digit_digit_char)

lemma undec_snoc: "undec (s @ [c]) = 10 * undec s + (byte c - 48)"
  by (simp add: undec_def)

lemma undec_dec: "n < 10 ^ w \<Longrightarrow> undec (dec w n) = n"
proof (induction w arbitrary: n)
  case 0
  then show ?case by (simp add: undec_def)
next
  case (Suc w)
  have "n div 10 < 10 ^ w" using Suc.prems by auto
  then have "undec (dec w (n div 10)) = n div 10" by (rule Suc.IH)
  then show ?case by (simp add: undec_snoc digit_char_def)
qed

subsection \<open>The Gregorian calendar\<close>

definition leap :: "nat \<Rightarrow> bool" where
  "leap y \<longleftrightarrow> (y mod 4 = 0 \<and> y mod 100 \<noteq> 0) \<or> y mod 400 = 0"

definition days_before_year :: "nat \<Rightarrow> nat" where
  "days_before_year y = (let p = y - 1 in p * 365 + p div 4 - p div 100 + p div 400)"

definition month_offset :: "nat \<Rightarrow> nat" where
  "month_offset m = [0, 0, 31, 59, 90, 120, 151, 181, 212, 243, 273, 304, 334] ! m"

definition days_before_month :: "nat \<Rightarrow> nat \<Rightarrow> nat" where
  "days_before_month y m = month_offset m + (if 2 < m \<and> leap y then 1 else 0)"

definition days_of_date :: "nat \<Rightarrow> nat \<Rightarrow> nat \<Rightarrow> nat" where
  "days_of_date y m d = days_before_year y + days_before_month y m + (d - 1)"

definition year_of_days :: "nat \<Rightarrow> nat \<times> nat" where
  "year_of_days n =
     (let n400 = n div 146097; r1 = n mod 146097;
          n100 = min 3 (r1 div 36524); r2 = r1 - n100 * 36524;
          n4 = r2 div 1461; r3 = r2 mod 1461;
          n1 = min 3 (r3 div 365); r4 = r3 - n1 * 365
      in (400 * n400 + 100 * n100 + 4 * n4 + n1 + 1, r4))"

fun month_of_yday :: "nat \<Rightarrow> nat \<Rightarrow> nat \<Rightarrow> nat" where
  "month_of_yday y yday 0 = 1"
| "month_of_yday y yday (Suc m) =
     (if days_before_month y (Suc m) \<le> yday then Suc m else month_of_yday y yday m)"

text \<open>Year, month and day of a day number (day 0 is 0001-01-01).\<close>

definition civil :: "nat \<Rightarrow> nat \<times> nat \<times> nat" where
  "civil n = (let (y, yday) = year_of_days n; m = month_of_yday y yday 12
              in (y, m, yday - days_before_month y m + 1))"

lemma days_before_year_parts:
  assumes "b \<le> 3" "c \<le> 24" "e \<le> 3"
  shows "days_before_year (400 * a + 100 * b + 4 * c + e + 1) = 146097 * a + 36524 * b + 1461 * c + 365 * e"
proof -
  define p where "p = 400 * a + 100 * b + 4 * c + e"
  have "p div 4 = 100 * a + 25 * b + c" "p div 100 = 4 * a + b" "p div 400 = a"
    using assms unfolding p_def by linarith+
  then have "p * 365 + p div 4 - p div 100 + p div 400 = 146097 * a + 36524 * b + 1461 * c + 365 * e"
    using p_def by linarith
  then show ?thesis by (simp add: days_before_year_def p_def Let_def)
qed

lemma year_of_days_correct:
  assumes "year_of_days n = (y, yday)"
  shows "days_before_year y + yday = n" and "yday \<le> 365" and "0 < y"
    and "n < 3652059 \<Longrightarrow> y \<le> 9999"
proof -
  define n400 r1 where "n400 = n div 146097" and "r1 = n mod 146097"
  define n100 where "n100 = min 3 (r1 div 36524)"
  define r2 where "r2 = r1 - n100 * 36524"
  define n4 r3 where "n4 = r2 div 1461" and "r3 = r2 mod 1461"
  define n1 where "n1 = min 3 (r3 div 365)"
  have y: "y = 400 * n400 + 100 * n100 + 4 * n4 + n1 + 1" and yd: "yday = r3 - n1 * 365"
    using assms by (simp_all add: year_of_days_def Let_def n400_def r1_def n100_def r2_def n4_def r3_def n1_def)
  have n: "n = 146097 * n400 + r1" and r1: "r1 < 146097"
    by (simp_all add: n400_def r1_def)
  have n100: "n100 \<le> 3" "n100 * 36524 \<le> r1" by (auto simp: n100_def min_def)
  have r2: "r1 = n100 * 36524 + r2" using n100 by (simp add: r2_def)
  have r2_less: "r2 \<le> 36524"
  proof (cases "3 \<le> r1 div 36524")
    case True
    then have "n100 = 3" by (simp add: n100_def)
    with r1 r2 show ?thesis by linarith
  next
    case False
    then have "n100 = r1 div 36524" by (simp add: n100_def)
    then have "r2 = r1 mod 36524" by (simp add: r2_def minus_div_mult_eq_mod)
    then show ?thesis by simp
  qed
  have r3: "r2 = 1461 * n4 + r3" "r3 < 1461" by (simp_all add: n4_def r3_def)
  have n4: "n4 \<le> 24" using r2_less r3 by linarith
  have n1: "n1 \<le> 3" "n1 * 365 \<le> r3" by (auto simp: n1_def min_def)
  have "days_before_year y = 146097 * n400 + 36524 * n100 + 1461 * n4 + 365 * n1"
    unfolding y by (rule days_before_year_parts [OF n100(1) n4 n1(1)])
  then show "days_before_year y + yday = n" using n r2 r3 n1 yd by linarith
  show "yday \<le> 365"
  proof (cases "3 \<le> r3 div 365")
    case True
    then have "n1 = 3" by (simp add: n1_def)
    with r3(2) yd show ?thesis by linarith
  next
    case False
    then have "n1 = r3 div 365" by (simp add: n1_def)
    then have "yday = r3 mod 365" by (simp add: yd minus_div_mult_eq_mod)
    then show ?thesis by (simp add: less_imp_le)
  qed
  show "0 < y" by (simp add: y)
  show "y \<le> 9999" if "n < 3652059"
  proof (rule ccontr)
    assume "\<not> y \<le> 9999"
    then have "25 \<le> n400 \<or> n400 = 24 \<and> n100 = 3 \<and> n4 = 24 \<and> n1 = 3"
      using y n100(1) n4 n1(1) by linarith
    then show False using that n r2 r3(1) n1(2) by auto
  qed
qed

lemma month_offset_1 [simp]: "days_before_month y (Suc 0) = 0"
  by (simp add: days_before_month_def month_offset_def)

lemma month_of_yday_props:
  "1 \<le> month_of_yday y yday k \<and> month_of_yday y yday k \<le> max 1 k
   \<and> days_before_month y (month_of_yday y yday k) \<le> yday"
  by (induction k) auto

lemma month_of_yday_max:
  "1 \<le> k \<Longrightarrow> month_of_yday y yday k = k \<or> yday < days_before_month y (Suc (month_of_yday y yday k))"
proof (induction k)
  case (Suc k)
  then show ?case by (cases "k = 0") auto
qed simp

lemma month_step: "1 \<le> m \<Longrightarrow> m < 12 \<Longrightarrow> days_before_month y (Suc m) \<le> days_before_month y m + 32"
proof -
  assume "1 \<le> m" "m < 12"
  then have "m \<in> {1, 2, 3, 4, 5, 6, 7, 8, 9, 10, 11}"
    by (simp only: insert_iff empty_iff) presburger
  then show ?thesis by (auto simp: days_before_month_def month_offset_def)
qed

lemma yday_small: "yday \<le> 365 \<Longrightarrow> yday - days_before_month y (month_of_yday y yday 12) < 99"
proof -
  assume y: "yday \<le> 365"
  let ?m = "month_of_yday y yday 12"
  have m: "1 \<le> ?m" "?m \<le> 12" using month_of_yday_props [of y yday 12] by auto
  show ?thesis
  proof (cases "?m = 12")
    case True
    have "334 \<le> days_before_month y 12" by (simp add: days_before_month_def month_offset_def)
    with y show ?thesis unfolding True by linarith
  next
    case False
    with month_of_yday_max [of 12 y yday] have "yday < days_before_month y (Suc ?m)" by simp
    moreover have "days_before_month y (Suc ?m) \<le> days_before_month y ?m + 32"
      using m False by (intro month_step) auto
    ultimately show ?thesis by linarith
  qed
qed

lemma civil_correct:
  assumes "civil n = (y, m, d)"
  shows "days_of_date y m d = n" and "1 \<le> m" and "m \<le> 12" and "1 \<le> d" and "0 < y"
proof -
  obtain yday where yd: "year_of_days n = (y, yday)" and m: "m = month_of_yday y yday 12"
    and d: "d = yday - days_before_month y m + 1"
    using assms by (auto simp: civil_def Let_def split: prod.splits)
  have "days_before_month y m \<le> yday" "1 \<le> m" "m \<le> 12"
    using month_of_yday_props [of y yday 12] m by auto
  then show "days_of_date y m d = n" "1 \<le> m" "m \<le> 12" "1 \<le> d" "0 < y"
    using year_of_days_correct [OF yd] d by (auto simp: days_of_date_def)
qed

lemma civil_widths:
  assumes "civil n = (y, m, d)" and "n < 3652059"
  shows "y < 10000" and "m < 100" and "d < 100"
proof -
  obtain yday where yd: "year_of_days n = (y, yday)" and m: "m = month_of_yday y yday 12"
    and d: "d = yday - days_before_month y m + 1"
    using assms(1) by (auto simp: civil_def Let_def split: prod.splits)
  from year_of_days_correct(4) [OF yd assms(2)] show "y < 10000" by simp
  from civil_correct(3) [OF assms(1)] show "m < 100" by simp
  from yday_small [OF year_of_days_correct(2) [OF yd]] m d show "d < 100" by simp
qed

subsection \<open>RFC 3339 text with nanoseconds\<close>

definition strip_zeros :: "bytes \<Rightarrow> bytes" where
  "strip_zeros s = rev (dropWhile (\<lambda>c. c = CHR ''0'') (rev s))"

text \<open>\<open>Format("2006-01-02")\<close> of a day number.\<close>

definition date_text :: "nat \<Rightarrow> bytes" where
  "date_text n = (case civil n of (y, m, d) \<Rightarrow> dec 4 y @ ''-'' @ dec 2 m @ ''-'' @ dec 2 d)"

definition fraction_text :: "nat \<Rightarrow> bytes" where
  "fraction_text f = (if f = 0 then [] else CHR ''.'' # strip_zeros (dec 9 f))"

text \<open>\<open>Format(time.RFC3339Nano)\<close> of a UTC instant.\<close>

definition rfc3339_text :: "nat \<Rightarrow> bytes" where
  "rfc3339_text ns =
     (let secs = ns div 1000000000; s = secs mod 86400
      in date_text (secs div 86400) @ ''T'' @ dec 2 (s div 3600) @ '':'' @ dec 2 (s div 60 mod 60)
         @ '':'' @ dec 2 (s mod 60) @ fraction_text (ns mod 1000000000) @ ''Z'')"

definition parse_fraction :: "bytes \<Rightarrow> nat option" where
  "parse_fraction r =
     (if r = ''Z'' then Some 0
      else if 3 \<le> length r \<and> length r \<le> 11 \<and> hd r = CHR ''.'' \<and> last r = CHR ''Z''
              \<and> list_all is_digit (butlast (tl r))
      then Some (undec (butlast (tl r) @ replicate (11 - length r) (CHR ''0'')))
      else None)"

text \<open>The instants \<open>time.Parse(time.RFC3339Nano, s)\<close> returns on text of the canonical shape.  The
  program formats the result again and compares, so only canonical text is ever accepted.\<close>

definition parse_rfc3339 :: "bytes \<Rightarrow> nat option" where
  "parse_rfc3339 s =
     (let num = (\<lambda>i n. undec (take n (drop i s)))
      in map_option
           (\<lambda>f. ((days_of_date (num 0 4) (num 5 2) (num 8 2) * 86400
                  + num 11 2 * 3600 + num 14 2 * 60 + num 17 2) * 1000000000) + f)
           (parse_fraction (drop 19 s)))"

lemma strip_zeros_pad:
  "strip_zeros s @ replicate (length s - length (strip_zeros s)) (CHR ''0'') = s"
proof -
  let ?P = "\<lambda>c. c = CHR ''0''"
  have "rev s = takeWhile ?P (rev s) @ dropWhile ?P (rev s)" by simp
  then have "s = rev (dropWhile ?P (rev s)) @ rev (takeWhile ?P (rev s))"
    by (metis rev_append rev_rev_ident)
  moreover have "rev (takeWhile ?P (rev s)) = replicate (length (takeWhile ?P (rev s))) (CHR ''0'')"
    by (rule replicate_eqI) (auto dest: set_takeWhileD)
  moreover have "length (takeWhile ?P (rev s)) = length s - length (strip_zeros s)"
    by (metis (no_types, lifting) add_diff_cancel_right' length_append length_rev strip_zeros_def
        takeWhile_dropWhile_id)
  ultimately show ?thesis by (simp add: strip_zeros_def)
qed

lemma length_strip_zeros: "length (strip_zeros s) \<le> length s"
  using length_dropWhile_le [of "\<lambda>c. c = CHR ''0''" "rev s"] by (simp add: strip_zeros_def)

lemma undec_zeros: "undec (replicate n (CHR ''0'')) = 0"
  by (induction n) (simp_all add: undec_def)

lemma strip_zeros_nonempty: "undec s \<noteq> 0 \<Longrightarrow> strip_zeros s \<noteq> []"
  using strip_zeros_pad [of s] undec_zeros [of "length s"] by auto

lemma digits_strip_zeros: "list_all is_digit s \<Longrightarrow> list_all is_digit (strip_zeros s)"
  unfolding strip_zeros_def list_all_iff using set_dropWhileD by fastforce

lemma parse_fraction_text:
  assumes "f < 1000000000"
  shows "parse_fraction (fraction_text f @ ''Z'') = Some f"
proof (cases "f = 0")
  case True
  then show ?thesis by (simp add: fraction_text_def parse_fraction_def)
next
  case False
  let ?d = "strip_zeros (dec 9 f)"
  have u: "undec (dec 9 f) = f" using assms by (intro undec_dec) simp
  with False have "?d \<noteq> []" by (intro strip_zeros_nonempty) simp
  moreover have "length ?d \<le> 9" using length_strip_zeros [of "dec 9 f"] by simp
  moreover have "list_all is_digit ?d" by (intro digits_strip_zeros digits_dec)
  moreover have "?d @ replicate (9 - length ?d) (CHR ''0'') = dec 9 f"
    using strip_zeros_pad [of "dec 9 f"] by simp
  ultimately show ?thesis
    using False u by (auto simp: fraction_text_def parse_fraction_def butlast_append Suc_le_eq)
qed

lemma parse_rfc3339_text:
  assumes "int ns < year_10000"
  shows "parse_rfc3339 (rfc3339_text ns) = Some ns"
proof -
  define secs where "secs = ns div 1000000000"
  define s where "s = secs mod 86400"
  define n where "n = secs div 86400"
  obtain y m d where c: "civil n = (y, m, d)" by (cases "civil n") auto
  have "n < 3652059" using assms by (simp add: n_def secs_def year_10000_def day_ns_def second_def)
  note w = civil_widths [OF c this] and days = civil_correct(1) [OF c]
  have s: "s < 86400" by (simp add: s_def)
  have shape: "rfc3339_text ns =
     dec 4 y @ ''-'' @ dec 2 m @ ''-'' @ dec 2 d @ ''T'' @ dec 2 (s div 3600) @ '':''
     @ dec 2 (s div 60 mod 60) @ '':'' @ dec 2 (s mod 60) @ (fraction_text (ns mod 1000000000) @ ''Z'')"
    by (simp add: rfc3339_text_def date_text_def c [unfolded n_def secs_def] secs_def s_def Let_def)
  have pick: "take 4 (rfc3339_text ns) = dec 4 y" "take 2 (drop 5 (rfc3339_text ns)) = dec 2 m"
    "take 2 (drop 8 (rfc3339_text ns)) = dec 2 d" "take 2 (drop 11 (rfc3339_text ns)) = dec 2 (s div 3600)"
    "take 2 (drop 14 (rfc3339_text ns)) = dec 2 (s div 60 mod 60)"
    "take 2 (drop 17 (rfc3339_text ns)) = dec 2 (s mod 60)"
    "drop 19 (rfc3339_text ns) = fraction_text (ns mod 1000000000) @ ''Z''"
    by (simp_all add: shape)
  have undecs: "undec (dec 4 y) = y" "undec (dec 2 m) = m" "undec (dec 2 d) = d"
    "undec (dec 2 (s div 3600)) = s div 3600" "undec (dec 2 (s div 60 mod 60)) = s div 60 mod 60"
    "undec (dec 2 (s mod 60)) = s mod 60"
    using w s by (auto intro!: undec_dec)
  have hms: "s div 3600 * 3600 + s div 60 mod 60 * 60 + s mod 60 = s"
  proof -
    have "s div 3600 = s div 60 div 60" by (simp add: div_mult2_eq [symmetric])
    then show ?thesis using div_mult_mod_eq [of "s div 60" 60] div_mult_mod_eq [of s 60] by linarith
  qed
  have ns: "(n * 86400 + s) * 1000000000 + ns mod 1000000000 = ns"
    using div_mult_mod_eq [of secs 86400] div_mult_mod_eq [of ns 1000000000]
    unfolding n_def s_def secs_def by simp
  have "parse_rfc3339 (rfc3339_text ns) =
     Some ((n * 86400 + (s div 3600 * 3600 + s div 60 mod 60 * 60 + s mod 60)) * 1000000000 + ns mod 1000000000)"
    unfolding parse_rfc3339_def Let_def
    by (simp only: pick undecs days drop_0 parse_fraction_text [OF mod_less_divisor] zero_less_numeral
        option.map add.assoc)
  with hms ns show ?thesis by simp
qed

lemma length_rfc3339_text: "20 \<le> length (rfc3339_text ns)"
  by (simp add: rfc3339_text_def date_text_def Let_def split: prod.splits)

lemma length_rfc3339_text_le: "length (rfc3339_text ns) \<le> 30"
  using length_strip_zeros [of "dec 9 (ns mod 1000000000)"]
  by (simp add: rfc3339_text_def date_text_def fraction_text_def Let_def split: prod.splits)

lemma rfc3339_text_nonempty [simp]: "rfc3339_text ns \<noteq> []"
  using length_rfc3339_text [of ns] by auto

subsection \<open>Decimal numbers without padding\<close>

text \<open>\<open>strconv.Itoa\<close> and \<open>strconv.FormatUint(n, 10)\<close>.\<close>

fun Itoa :: "nat \<Rightarrow> bytes" where
  "Itoa n = (if n < 10 then [digit_char n] else Itoa (n div 10) @ [digit_char (n mod 10)])"

declare Itoa.simps [simp del]

text \<open>\<open>strconv.ParseUint(s, 10, bits)\<close>.\<close>

definition ParseUint :: "bytes \<Rightarrow> nat \<Rightarrow> nat option" where
  "ParseUint s bits = (if s = [] \<or> \<not> list_all is_digit s \<or> undec s \<ge> 2 ^ bits then None else Some (undec s))"

lemma digit_char_digit: "n < 10 \<Longrightarrow> is_digit (digit_char n)"
  using digits_dec [of "Suc 0" n] by simp

lemma Itoa_digits: "list_all is_digit (Itoa n)"
proof (induction n rule: Itoa.induct)
  case (1 n)
  then show ?case by (subst Itoa.simps) (auto simp: digit_char_digit)
qed

lemma Itoa_nonempty [simp]: "Itoa n \<noteq> []"
  by (subst Itoa.simps) simp

lemma undec_Itoa: "undec (Itoa n) = n"
proof (induction n rule: Itoa.induct)
  case (1 n)
  show ?case
  proof (cases "n < 10")
    case True
    then show ?thesis by (subst Itoa.simps) (simp add: undec_def digit_char_def)
  next
    case False
    with 1 show ?thesis by (subst Itoa.simps) (simp add: undec_snoc digit_char_def)
  qed
qed

lemma Itoa_head: "hd (Itoa n) = CHR ''0'' \<Longrightarrow> n = 0"
proof (induction n rule: Itoa.induct)
  case (1 n)
  show ?case
  proof (cases "n < 10")
    case True
    with 1(2) have "byte (digit_char n) = byte (CHR ''0'')" by (simp add: Itoa.simps [of n])
    then show ?thesis using True by (simp add: digit_char_def del: byte_inject)
  next
    case False
    with 1 have "n div 10 = 0" by (simp add: Itoa.simps [of n])
    then show ?thesis using False by simp
  qed
qed

lemma Itoa_length: "n < 10 ^ k \<Longrightarrow> 0 < k \<Longrightarrow> length (Itoa n) \<le> k"
proof (induction k arbitrary: n)
  case (Suc k)
  show ?case
  proof (cases "n < 10")
    case True
    then show ?thesis by (subst Itoa.simps) simp
  next
    case False
    then have "0 < k" using Suc.prems by (cases k) auto
    moreover have "n div 10 < 10 ^ k" using Suc.prems by (simp add: less_mult_imp_div_less mult.commute)
    ultimately have "length (Itoa (n div 10)) \<le> k" by (intro Suc.IH) auto
    then show ?thesis using False by (subst Itoa.simps) simp
  qed
qed simp

lemma ParseUint_Itoa: "n < 2 ^ bits \<Longrightarrow> ParseUint (Itoa n) bits = Some n"
  by (simp add: ParseUint_def Itoa_digits undec_Itoa)

end
