(* ===== verification/Jobs_Types.thy ===== *)
theory Jobs_Types
  imports Go_Time
begin

text \<open>
  Data of the durable operation service (\<open>internal/jobs/types.go\<close>, \<open>errors.go\<close>) and its
  validators.  Go's string-typed enumerations become datatypes with the source's constants
  and one constructor for any other text, so that the validators keep their default
  branches.  A validator returns \<open>None\<close> for \<open>nil\<close> and \<open>Some message\<close> for an error.
\<close>

subsection \<open>Data\<close>

datatype Kind = KindManual | KindScheduled | KindOther bytes

datatype State =
    StateQueued | StateRunning | StateSucceeded | StateFailed | StatePartial | StateNotAttempted
  | StateTimedOut | StateInterrupted | StateIncompatible | StateAmbiguous | StateOther bytes

datatype Phase =
    PhaseNone | PhaseQueued | PhaseRevalidating | PhaseExecuting | PhaseRefreshingInventory
  | PhaseOther bytes

datatype InventoryState = InventoryPending | InventoryRefreshed | InventoryUnavailable | InventoryOther bytes

datatype ItemState = ItemCompleted | ItemFailed | ItemNotAttempted | ItemAmbiguous | ItemOther bytes

record RequestContext =
  RuntimeIdentity :: bytes
  RuntimeManifestID :: bytes
  ConfigurationPath :: bytes
  StoragePath :: bytes

record RequestItem =
  ri_Name :: bytes
  ri_Account :: bytes
  ri_CA :: bytes
  ri_ChallengeKind :: bytes
  ri_ChallengeMode :: bytes

record Request =
  ReviewedEvidenceSHA256 :: bytes
  req_Items :: "bytes list"
  req_Context :: RequestContext
  req_Details :: "RequestItem list"

record InventoryResult =
  inv_State :: InventoryState
  inv_Code :: bytes
  inv_CertificateCount :: "int option"

record ItemResult =
  it_Name :: bytes
  it_State :: ItemState
  it_Code :: bytes

record Result =
  res_State :: State
  res_Code :: bytes
  res_MayHaveChanged :: bool
  res_Inventory :: InventoryResult
  res_Output :: bytes
  res_OutputTruncated :: bool
  res_Items :: "ItemResult list"

record Operation =
  op_ID :: bytes
  op_Kind :: Kind
  op_State :: State
  op_Phase :: Phase
  op_RequestedAt :: gotime
  op_StartedAt :: gotime
  op_FinishedAt :: gotime
  op_UpdatedAt :: gotime
  op_Code :: bytes
  op_MayHaveChanged :: bool
  op_Inventory :: InventoryResult
  op_Output :: bytes
  op_OutputTruncated :: bool
  op_Items :: "ItemResult list"
  op_Request :: Request

datatype jobs_error =
    ErrActive | ErrNotFound | ErrNoQueued | ErrInvalid | ErrStateChanged | ErrWorkerRunning
  | ErrDatabase | ErrIdentifier

definition empty_context :: RequestContext where
  "empty_context = \<lparr>RuntimeIdentity = [], RuntimeManifestID = [], ConfigurationPath = [], StoragePath = []\<rparr>"

definition pending_inventory :: InventoryResult where
  "pending_inventory = \<lparr>inv_State = InventoryPending, inv_Code = [], inv_CertificateCount = None\<rparr>"

definition empty_request :: Request where
  "empty_request = \<lparr>ReviewedEvidenceSHA256 = [], req_Items = [], req_Context = empty_context, req_Details = []\<rparr>"

definition zero_result :: Result where
  "zero_result = \<lparr>res_State = StateOther [], res_Code = [], res_MayHaveChanged = False,
     res_Inventory = \<lparr>inv_State = InventoryOther [], inv_Code = [], inv_CertificateCount = None\<rparr>,
     res_Output = [], res_OutputTruncated = False, res_Items = []\<rparr>"

subsection \<open>Lifecycle predicates\<close>

definition active :: "State \<Rightarrow> bool" where
  "active s \<longleftrightarrow> s = StateQueued \<or> s = StateRunning"

fun terminal :: "State \<Rightarrow> bool" where
  "terminal StateSucceeded = True"
| "terminal StateFailed = True"
| "terminal StatePartial = True"
| "terminal StateNotAttempted = True"
| "terminal StateTimedOut = True"
| "terminal StateInterrupted = True"
| "terminal StateIncompatible = True"
| "terminal StateAmbiguous = True"
| "terminal _ = False"

fun validPhaseTransition :: "Phase \<Rightarrow> Phase \<Rightarrow> bool" where
  "validPhaseTransition PhaseRevalidating to \<longleftrightarrow> to = PhaseExecuting \<or> to = PhaseRefreshingInventory"
| "validPhaseTransition PhaseExecuting to \<longleftrightarrow> to = PhaseRefreshingInventory"
| "validPhaseTransition _ to \<longleftrightarrow> False"

subsection \<open>Validators\<close>

definition no_control :: "bytes \<Rightarrow> bool" where
  "no_control s \<longleftrightarrow> (\<forall>(r, _) \<in> set (runes s). \<not> IsControl r)"

definition validRequestText :: "bytes \<Rightarrow> nat \<Rightarrow> bool" where
  "validRequestText v maximum \<longleftrightarrow> v \<noteq> [] \<and> length v \<le> maximum \<and> ValidString v \<and> no_control v"

definition validRequestPath :: "bytes \<Rightarrow> bool" where
  "validRequestPath v \<longleftrightarrow> validRequestText v 4095 \<and> IsAbs v \<and> Clean_abs v = v"

definition validateItemName :: "bytes \<Rightarrow> bytes option" where
  "validateItemName v = first_error
     [fails_if (v = [] \<or> length v > 255 \<or> \<not> ValidString v) ''operation item name is invalid'',
      fails_if (\<not> no_control v) ''operation item name contains a control character'']"

fun validate_request_items :: "bytes set \<Rightarrow> bytes list \<Rightarrow> bytes option" where
  "validate_request_items seen [] = None"
| "validate_request_items seen (x # xs) = first_error
     [validateItemName x,
      fails_if (x \<in> seen) ''reviewed operation item is duplicated'',
      validate_request_items (insert x seen) xs]"

definition valid_detail :: "bytes \<Rightarrow> RequestItem \<Rightarrow> bool" where
  "valid_detail name d \<longleftrightarrow> ri_Name d = name \<and> validRequestText (ri_Account d) 64
     \<and> validRequestText (ri_CA d) 255 \<and> validRequestText (ri_ChallengeKind d) 32
     \<and> validRequestText (ri_ChallengeMode d) 64"

definition canonical_hex :: "nat \<Rightarrow> bytes \<Rightarrow> bool" where
  "canonical_hex n s \<longleftrightarrow> length s = n \<and> hex_decodes s \<and> is_lower s"

definition validateRequest :: "Request \<Rightarrow> bytes option" where
  "validateRequest r = first_error
     [fails_if (\<not> canonical_hex 64 (ReviewedEvidenceSHA256 r)) ''reviewed evidence digest is invalid'',
      fails_if (req_Items r = [] \<or> length (req_Items r) > 256) ''reviewed operation items exceed their bound'',
      validate_request_items {} (req_Items r),
      (if req_Context r = empty_context \<and> req_Details r = [] then None
       else first_error
         [fails_if (\<not> validRequestText (RuntimeIdentity (req_Context r)) 64
                    \<or> \<not> validRequestText (RuntimeManifestID (req_Context r)) 128
                    \<or> \<not> validRequestPath (ConfigurationPath (req_Context r))
                    \<or> \<not> validRequestPath (StoragePath (req_Context r))
                    \<or> length (req_Details r) \<noteq> length (req_Items r))
            ''reviewed operation context is invalid'',
          fails_if (\<not> list_all2 valid_detail (req_Items r) (req_Details r))
            ''reviewed operation integration is invalid''])]"

definition validateID :: "bytes \<Rightarrow> bytes option" where
  "validateID v = fails_if (\<not> canonical_hex 32 v) ''operation ID is not canonical lowercase hexadecimal''"

definition code_rune :: "nat \<Rightarrow> bool" where
  "code_rune r \<longleftrightarrow> (97 \<le> r \<and> r \<le> 122) \<or> (48 \<le> r \<and> r \<le> 57) \<or> r = 95"

definition validateCode :: "bytes \<Rightarrow> bool \<Rightarrow> bytes option" where
  "validateCode v required =
     (case v of
        [] \<Rightarrow> fails_if required ''stable code is required''
      | c # _ \<Rightarrow> first_error
          [fails_if (length v > 64 \<or> byte c < 97 \<or> byte c > 122) ''stable code is invalid'',
           fails_if (\<not> list_all (\<lambda>(r, _). code_rune r) (runes v)) ''stable code is invalid''])"

definition validateTime :: "gotime \<Rightarrow> bool \<Rightarrow> bytes option" where
  "validateTime t required =
     (if IsZero t then fails_if required ''timestamp is required''
      else fails_if (\<not> t_utc t \<or> t \<noteq> Round0 t \<or> t_ns t < 0 \<or> t_ns t \<ge> year_10000)
             ''timestamp is not a persistable UTC instant'')"

definition validateOutput :: "bytes \<Rightarrow> bytes option" where
  "validateOutput v = first_error
     [fails_if (length v > 262144 \<or> \<not> ValidString v) ''redacted output exceeds its text bound'',
      fails_if (\<exists>(r, _) \<in> set (runes v). r \<noteq> 10 \<and> r \<noteq> 13 \<and> r \<noteq> 9 \<and> IsControl r)
        ''redacted output contains an unsafe control character'']"

definition validateInventory :: "InventoryResult \<Rightarrow> bool \<Rightarrow> bytes option" where
  "validateInventory v allowPending =
     (case inv_State v of
        InventoryPending \<Rightarrow>
          fails_if (\<not> allowPending \<or> inv_Code v \<noteq> [] \<or> inv_CertificateCount v \<noteq> None)
            ''pending inventory result is inconsistent''
      | InventoryRefreshed \<Rightarrow> first_error
          [validateCode (inv_Code v) True,
           fails_if (case inv_CertificateCount v of None \<Rightarrow> True | Some n \<Rightarrow> n < 0 \<or> n > 10000)
             ''refreshed inventory count is invalid'']
      | InventoryUnavailable \<Rightarrow> first_error
          [validateCode (inv_Code v) True,
           fails_if (inv_CertificateCount v \<noteq> None) ''unavailable inventory cannot contain a certificate count'']
      | InventoryOther _ \<Rightarrow> Some ''inventory state is invalid'')"

definition known_item_state :: "ItemState \<Rightarrow> bool" where
  "known_item_state s \<longleftrightarrow> s = ItemCompleted \<or> s = ItemFailed \<or> s = ItemNotAttempted \<or> s = ItemAmbiguous"

fun validate_item_results :: "bytes set \<Rightarrow> ItemResult list \<Rightarrow> bytes option" where
  "validate_item_results seen [] = None"
| "validate_item_results seen (x # xs) = first_error
     [validateItemName (it_Name x),
      fails_if (it_Name x \<in> seen) ''operation item name is duplicated'',
      fails_if (\<not> known_item_state (it_State x)) ''operation item state is invalid'',
      validateCode (it_Code x) True,
      validate_item_results (insert (it_Name x) seen) xs]"

definition validateItems :: "ItemResult list \<Rightarrow> bytes option" where
  "validateItems xs = first_error
     [fails_if (length xs > 256) ''operation item results exceed their bound'',
      validate_item_results {} xs]"

definition validateExecutorResult :: "Result \<Rightarrow> bytes option" where
  "validateExecutorResult r = first_error
     [fails_if (\<not> terminal (res_State r)) ''executor result is not terminal'',
      validateCode (res_Code r) True,
      validateInventory (res_Inventory r) False,
      validateOutput (res_Output r),
      validateItems (res_Items r)]"

subsection \<open>What the validators accept\<close>

lemma validateTime_required [simp, validation_simps]: "validateTime t True = None \<longleftrightarrow> canonical_time t"
  by (auto simp: validateTime_def canonical_time_def IsZero_def)

lemma validateTime_optional [validation_simps]: "validateTime t False = None \<longleftrightarrow> IsZero t \<or> canonical_time t"
  by (auto simp: validateTime_def canonical_time_def IsZero_def)

lemma validateID_None [simp, validation_simps]: "validateID v = None \<longleftrightarrow> canonical_hex 32 v"
  by (simp add: validateID_def)

lemma validate_request_items_None [validation_simps]:
  "validate_request_items seen xs = None \<longleftrightarrow>
     (\<forall>x \<in> set xs. validateItemName x = None) \<and> distinct xs \<and> set xs \<inter> seen = {}"
  by (induction xs arbitrary: seen) auto

lemma validate_item_results_None [validation_simps]:
  "validate_item_results seen xs = None \<longleftrightarrow>
     (\<forall>x \<in> set xs. validateItemName (it_Name x) = None \<and> known_item_state (it_State x)
                  \<and> validateCode (it_Code x) True = None)
     \<and> distinct (map it_Name xs) \<and> it_Name ` set xs \<inter> seen = {}"
  by (induction xs arbitrary: seen) auto

lemma validateItems_None [validation_simps]:
  "validateItems xs = None \<longleftrightarrow>
     length xs \<le> 256 \<and> distinct (map it_Name xs) \<and>
     (\<forall>x \<in> set xs. validateItemName (it_Name x) = None \<and> known_item_state (it_State x)
                  \<and> validateCode (it_Code x) True = None)"
  by (auto simp: validateItems_def validate_item_results_None)

lemma terminal_not_active: "terminal s \<Longrightarrow> \<not> active s"
  by (cases s) (auto simp: active_def)

lemma validateCode_ascii:
  assumes "ascii v"
  shows "validateCode v True = None \<longleftrightarrow>
    v \<noteq> [] \<and> length v \<le> 64 \<and> 97 \<le> byte (hd v) \<and> byte (hd v) \<le> 122 \<and> list_all (\<lambda>c. code_rune (byte c)) v"
  using assms by (auto simp: validateCode_def runes_ascii list_all_iff not_le not_less split: list.split)

lemma codes_valid [simp]:
  "validateCode ''service_restarted'' True = None"
  "validateCode ''worker_result_invalid'' True = None"
  "validateCode ''worker_panicked'' True = None"
  "validateCode ''worker_phase_failed'' True = None"
  "validateCode ''inventory_reconciliation_failed'' True = None"
  by (simp_all add: validateCode_ascii ascii_def code_rune_def)

lemma runes_Nil_controls [simp]: "validateOutput [] = None"
  by (simp add: validateOutput_def ValidString_def)

end
