(* ===== verification/Jobs_Store.thy ===== *)
theory Jobs_Store
  imports Jobs_Types
begin

text \<open>
  The durable store of the one latest operation (\<open>internal/jobs/store.go\<close>).  The database is
  the singleton row of \<open>operation_latest\<close> with its rows of \<open>operation_requested_item\<close> and
  \<open>operation_item_result\<close> in ordinal order (both reference the row with \<open>ON DELETE CASCADE\<close>, so
  they exist only with it).  Timestamps are RFC 3339 text, Booleans are integers.  Every
  operation is the transaction of the source: validation of the arguments, the guarded
  statements, the read-back that validates the whole row, and the commit.  The argument
  \<open>ok\<close> says whether the database carries the transaction out.
\<close>

subsection \<open>Rows\<close>

record persistedOperation =
  p_id :: bytes
  p_reviewedEvidenceSHA256 :: bytes
  p_kind :: Kind
  p_state :: State
  p_phase :: Phase
  p_requestedAt :: bytes
  p_startedAt :: bytes
  p_finishedAt :: bytes
  p_updatedAt :: bytes
  p_code :: bytes
  p_mayHaveChanged :: int
  p_inventoryState :: InventoryState
  p_inventoryCode :: bytes
  p_output :: bytes
  p_outputTruncated :: int
  p_certificateCount :: "int option"
  p_items :: "ItemResult list"
  p_requested :: "RequestItem list"
  p_runtimeIdentity :: bytes
  p_runtimeManifestID :: bytes
  p_configurationPath :: bytes
  p_storagePath :: bytes

record jobs_db =
  latest :: "persistedOperation option"

definition formatTime :: "gotime \<Rightarrow> bytes" where
  "formatTime t = rfc3339_text (nat (t_ns t))"

definition parseTime :: "bytes \<Rightarrow> bool \<Rightarrow> (bytes, gotime) result" where
  "parseTime v required =
     (if v = [] \<and> \<not> required then Inr zero_time
      else case parse_rfc3339 v of
        None \<Rightarrow> Inl ''timestamp is not canonical UTC RFC 3339 text''
      | Some n \<Rightarrow>
          (let t = utc_instant (int n) in
           if formatTime t \<noteq> v then Inl ''timestamp is not canonical UTC RFC 3339 text''
           else case validateTime t True of None \<Rightarrow> Inr t | Some e \<Rightarrow> Inl e))"

definition storedBoolean :: "int \<Rightarrow> (bytes, bool) result" where
  "storedBoolean v = (if v = 0 then Inr False else if v = 1 then Inr True else Inl ''stored Boolean is invalid'')"

definition bool_int :: "bool \<Rightarrow> int" where
  "bool_int b = (if b then 1 else 0)"

subsection \<open>The schema's constraints\<close>

definition code_text :: "bytes \<Rightarrow> bool" where
  "code_text s \<longleftrightarrow> length s \<le> 64 \<and> list_all (\<lambda>c. code_rune (byte c)) s"

definition time_column :: "bytes \<Rightarrow> bool" where
  "time_column s \<longleftrightarrow> 20 \<le> length s \<and> length s \<le> 30"

definition lifecycle_check :: "persistedOperation \<Rightarrow> bool" where
  "lifecycle_check r \<longleftrightarrow>
     (p_state r = StateQueued \<and> p_phase r = PhaseQueued \<and> p_startedAt r = [] \<and> p_finishedAt r = []
        \<and> p_code r = [] \<and> p_mayHaveChanged r = 0 \<and> p_inventoryState r = InventoryPending
        \<and> p_inventoryCode r = [] \<and> p_output r = [] \<and> p_outputTruncated r = 0 \<and> p_certificateCount r = None)
   \<or> (p_state r = StateRunning \<and> p_phase r \<in> {PhaseRevalidating, PhaseExecuting, PhaseRefreshingInventory}
        \<and> p_startedAt r \<noteq> [] \<and> p_finishedAt r = [] \<and> p_code r = [] \<and> p_inventoryState r = InventoryPending
        \<and> p_inventoryCode r = [] \<and> p_output r = [] \<and> p_outputTruncated r = 0 \<and> p_certificateCount r = None)
   \<or> (p_state r \<notin> {StateQueued, StateRunning} \<and> p_phase r = PhaseNone \<and> p_startedAt r \<noteq> []
        \<and> p_finishedAt r \<noteq> [] \<and> p_code r \<noteq> []
        \<and> (p_inventoryState r = InventoryPending \<and> p_inventoryCode r = [] \<and> p_certificateCount r = None
              \<and> p_state r \<in> {StateInterrupted, StateAmbiguous}
           \<or> p_inventoryState r = InventoryRefreshed \<and> p_inventoryCode r \<noteq> [] \<and> p_certificateCount r \<noteq> None
           \<or> p_inventoryState r = InventoryUnavailable \<and> p_inventoryCode r \<noteq> [] \<and> p_certificateCount r = None))"

definition requested_row_check :: "RequestItem \<Rightarrow> bool" where
  "requested_row_check i \<longleftrightarrow> ri_Name i \<noteq> [] \<and> length (ri_Name i) \<le> 255 \<and> length (ri_Account i) \<le> 64
     \<and> length (ri_CA i) \<le> 255 \<and> length (ri_ChallengeKind i) \<le> 32 \<and> length (ri_ChallengeMode i) \<le> 64"

definition result_row_check :: "ItemResult \<Rightarrow> bool" where
  "result_row_check i \<longleftrightarrow> it_Name i \<noteq> [] \<and> length (it_Name i) \<le> 255 \<and> known_item_state (it_State i)
     \<and> it_Code i \<noteq> [] \<and> code_text (it_Code i)"

text \<open>The \<open>CHECK\<close>, \<open>UNIQUE\<close> and ordinal constraints of migrations 008, 009 and 010.\<close>

definition schema_accepts :: "persistedOperation \<Rightarrow> bool" where
  "schema_accepts r \<longleftrightarrow>
     canonical_hex 32 (p_id r) \<and> canonical_hex 64 (p_reviewedEvidenceSHA256 r)
     \<and> p_kind r \<in> {KindManual, KindScheduled} \<and> (active (p_state r) \<or> terminal (p_state r))
     \<and> time_column (p_requestedAt r) \<and> time_column (p_updatedAt r)
     \<and> (p_startedAt r = [] \<or> time_column (p_startedAt r)) \<and> (p_finishedAt r = [] \<or> time_column (p_finishedAt r))
     \<and> code_text (p_code r) \<and> p_mayHaveChanged r \<in> {0, 1} \<and> code_text (p_inventoryCode r)
     \<and> length (p_output r) \<le> 262144 \<and> p_outputTruncated r \<in> {0, 1}
     \<and> (case p_certificateCount r of None \<Rightarrow> True | Some n \<Rightarrow> 0 \<le> n \<and> n \<le> 10000)
     \<and> length (p_runtimeIdentity r) \<le> 64 \<and> length (p_runtimeManifestID r) \<le> 128
     \<and> length (p_configurationPath r) \<le> 4095 \<and> length (p_storagePath r) \<le> 4095
     \<and> lifecycle_check r
     \<and> length (p_requested r) \<le> 256 \<and> distinct (map ri_Name (p_requested r))
     \<and> list_all requested_row_check (p_requested r)
     \<and> length (p_items r) \<le> 256 \<and> distinct (map it_Name (p_items r)) \<and> list_all result_row_check (p_items r)"

text \<open>A statement that writes the row, refused when a constraint fails.\<close>

definition write_row :: "persistedOperation \<Rightarrow> jobs_db \<Rightarrow> (jobs_error, jobs_db) result" where
  "write_row r db = (if schema_accepts r then Inr (db\<lparr>latest := Some r\<rparr>) else Inl ErrDatabase)"

subsection \<open>Reading the row back\<close>

definition validateResultScope :: "bytes list \<Rightarrow> ItemResult list \<Rightarrow> bytes option" where
  "validateResultScope requested results = first_error
     [fails_if (length requested \<noteq> length results) ''operation result does not cover reviewed items'',
      fails_if (\<not> list_all2 (\<lambda>n r. it_Name r = n) requested results)
        ''operation result item differs from reviewed scope'']"

definition validate_lifecycle :: "Operation \<Rightarrow> bytes option" where
  "validate_lifecycle x =
     (if op_State x = StateQueued then
        fails_if (op_Phase x \<noteq> PhaseQueued \<or> \<not> IsZero (op_StartedAt x) \<or> \<not> IsZero (op_FinishedAt x)
                  \<or> op_Code x \<noteq> [] \<or> op_MayHaveChanged x \<or> op_Output x \<noteq> [] \<or> op_OutputTruncated x
                  \<or> op_Items x \<noteq> [] \<or> inv_State (op_Inventory x) \<noteq> InventoryPending
                  \<or> validateInventory (op_Inventory x) True \<noteq> None)
          ''queued operation is inconsistent''
      else if op_State x = StateRunning then first_error
        [fails_if (op_Phase x \<notin> {PhaseRevalidating, PhaseExecuting, PhaseRefreshingInventory})
           ''running operation phase is invalid'',
         fails_if (validateTime (op_StartedAt x) True \<noteq> None \<or> \<not> IsZero (op_FinishedAt x)
                   \<or> op_Code x \<noteq> [] \<or> op_Output x \<noteq> [] \<or> op_OutputTruncated x \<or> op_Items x \<noteq> []
                   \<or> inv_State (op_Inventory x) \<noteq> InventoryPending
                   \<or> validateInventory (op_Inventory x) True \<noteq> None)
           ''running operation is inconsistent'']
      else if terminal (op_State x) then
        (let allowPending = (op_State x = StateInterrupted \<or> op_State x = StateAmbiguous) in first_error
          [fails_if (op_Phase x \<noteq> PhaseNone \<or> validateTime (op_StartedAt x) True \<noteq> None
                     \<or> validateTime (op_FinishedAt x) True \<noteq> None \<or> validateCode (op_Code x) True \<noteq> None
                     \<or> validateOutput (op_Output x) \<noteq> None \<or> validateItems (op_Items x) \<noteq> None)
             ''terminal operation is inconsistent'',
           validateInventory (op_Inventory x) allowPending,
           fails_if (inv_State (op_Inventory x) = InventoryPending \<and> \<not> allowPending)
             ''terminal operation has invalid pending inventory'',
           validateResultScope (req_Items (op_Request x)) (op_Items x)])
      else Some ''operation state is invalid'')"

definition validateOperation :: "Operation \<Rightarrow> bytes option" where
  "validateOperation x = first_error
     [validateID (op_ID x),
      fails_if (op_Kind x \<noteq> KindManual \<and> op_Kind x \<noteq> KindScheduled) ''operation kind is invalid'',
      validateRequest (op_Request x),
      validateTime (op_RequestedAt x) True,
      validateTime (op_UpdatedAt x) True,
      fails_if (Before (op_UpdatedAt x) (op_RequestedAt x)) ''operation update precedes request'',
      validate_lifecycle x,
      fails_if (\<not> IsZero (op_StartedAt x) \<and> Before (op_StartedAt x) (op_RequestedAt x))
        ''operation start precedes request'',
      fails_if (\<not> IsZero (op_FinishedAt x) \<and> Before (op_FinishedAt x) (op_StartedAt x))
        ''operation finish precedes start'',
      fails_if (\<not> IsZero (op_FinishedAt x) \<and> Before (op_UpdatedAt x) (op_FinishedAt x))
        ''operation update precedes finish'']"

definition has_details :: "RequestItem \<Rightarrow> bool" where
  "has_details d \<longleftrightarrow> ri_Account d \<noteq> [] \<or> ri_CA d \<noteq> [] \<or> ri_ChallengeKind d \<noteq> [] \<or> ri_ChallengeMode d \<noteq> []"

definition loadRequestedItems :: "persistedOperation \<Rightarrow> bytes list \<times> RequestItem list" where
  "loadRequestedItems r =
     (map ri_Name (p_requested r), if list_ex has_details (p_requested r) then p_requested r else [])"

definition row_operation ::
  "persistedOperation \<Rightarrow> gotime \<Rightarrow> gotime \<Rightarrow> gotime \<Rightarrow> gotime \<Rightarrow> bool \<Rightarrow> bool \<Rightarrow> Operation" where
  "row_operation r requestedAt startedAt finishedAt updatedAt mayHaveChanged outputTruncated =
     \<lparr>op_ID = p_id r, op_Kind = p_kind r, op_State = p_state r, op_Phase = p_phase r,
      op_RequestedAt = requestedAt, op_StartedAt = startedAt, op_FinishedAt = finishedAt,
      op_UpdatedAt = updatedAt, op_Code = p_code r, op_MayHaveChanged = mayHaveChanged,
      op_Inventory = \<lparr>inv_State = p_inventoryState r, inv_Code = p_inventoryCode r,
                      inv_CertificateCount = p_certificateCount r\<rparr>,
      op_Output = p_output r, op_OutputTruncated = outputTruncated, op_Items = p_items r,
      op_Request = \<lparr>ReviewedEvidenceSHA256 = p_reviewedEvidenceSHA256 r,
         req_Items = fst (loadRequestedItems r),
         req_Context = \<lparr>RuntimeIdentity = p_runtimeIdentity r, RuntimeManifestID = p_runtimeManifestID r,
            ConfigurationPath = p_configurationPath r, StoragePath = p_storagePath r\<rparr>,
         req_Details = snd (loadRequestedItems r)\<rparr>\<rparr>"

definition operation_of_row :: "persistedOperation \<Rightarrow> (bytes, Operation) result" where
  "operation_of_row r =
     bind_result (parseTime (p_requestedAt r) True) (\<lambda>requestedAt.
     bind_result (parseTime (p_startedAt r) False) (\<lambda>startedAt.
     bind_result (parseTime (p_finishedAt r) False) (\<lambda>finishedAt.
     bind_result (parseTime (p_updatedAt r) True) (\<lambda>updatedAt.
     bind_result (storedBoolean (p_mayHaveChanged r)) (\<lambda>mayHaveChanged.
     bind_result (storedBoolean (p_outputTruncated r)) (\<lambda>outputTruncated.
     bind_result (require (case p_certificateCount r of None \<Rightarrow> True | Some n \<Rightarrow> 0 \<le> n \<and> n \<le> 10000)
                    ''inventory certificate count is invalid'') (\<lambda>_.
     let x = row_operation r requestedAt startedAt finishedAt updatedAt mayHaveChanged outputTruncated
     in case validateOperation x of None \<Rightarrow> Inr x | Some e \<Rightarrow> Inl e)))))))"

definition loadOperation :: "jobs_db \<Rightarrow> (jobs_error, Operation) result" where
  "loadOperation db =
     (case latest db of
        None \<Rightarrow> Inl ErrNotFound
      | Some r \<Rightarrow> (case operation_of_row r of Inl _ \<Rightarrow> Inl ErrInvalid | Inr x \<Rightarrow> Inr x))"

text \<open>The read-back at the end of a transaction.\<close>

definition load_back :: "jobs_db \<Rightarrow> (jobs_error, Operation \<times> jobs_db) result" where
  "load_back db = bind_result (loadOperation db) (\<lambda>x. Inr (x, db))"

subsection \<open>Operations\<close>

definition requested_rows :: "Request \<Rightarrow> RequestItem list" where
  "requested_rows request =
     (if req_Details request = []
      then map (\<lambda>n. \<lparr>ri_Name = n, ri_Account = [], ri_CA = [], ri_ChallengeKind = [], ri_ChallengeMode = []\<rparr>)
             (req_Items request)
      else map2 (\<lambda>n d. d\<lparr>ri_Name := n\<rparr>) (req_Items request) (req_Details request))"

definition queued_row :: "bytes \<Rightarrow> Kind \<Rightarrow> Request \<Rightarrow> gotime \<Rightarrow> persistedOperation" where
  "queued_row i kind request now =
     \<lparr>p_id = i, p_reviewedEvidenceSHA256 = ReviewedEvidenceSHA256 request, p_kind = kind,
      p_state = StateQueued, p_phase = PhaseQueued, p_requestedAt = formatTime now, p_startedAt = [],
      p_finishedAt = [], p_updatedAt = formatTime now, p_code = [], p_mayHaveChanged = 0,
      p_inventoryState = InventoryPending, p_inventoryCode = [], p_output = [], p_outputTruncated = 0,
      p_certificateCount = None, p_items = [], p_requested = requested_rows request,
      p_runtimeIdentity = RuntimeIdentity (req_Context request),
      p_runtimeManifestID = RuntimeManifestID (req_Context request),
      p_configurationPath = ConfigurationPath (req_Context request),
      p_storagePath = StoragePath (req_Context request)\<rparr>"

definition EnqueueKind ::
  "bool \<Rightarrow> bytes \<Rightarrow> Kind \<Rightarrow> Request \<Rightarrow> gotime \<Rightarrow> jobs_db \<Rightarrow> (jobs_error, Operation) result \<times> jobs_db" where
  "EnqueueKind ok i kind request now db =
     (if validateID i \<noteq> None then (Inl ErrInvalid, db)
      else if kind \<noteq> KindManual \<and> kind \<noteq> KindScheduled then (Inl ErrInvalid, db)
      else if validateRequest request \<noteq> None then (Inl ErrInvalid, db)
      else if validateTime now True \<noteq> None then (Inl ErrInvalid, db)
      else with_tx ErrDatabase ok db (\<lambda>db.
        bind_result
          (case latest db of
             None \<Rightarrow> Inr db
           | Some r \<Rightarrow> if active (p_state r) \<or> p_inventoryState r = InventoryPending then Inl ErrActive
                      else Inr (db\<lparr>latest := None\<rparr>)) (\<lambda>db.
        bind_result (write_row (queued_row i kind request now) db) load_back)))"

definition Enqueue :: "bool \<Rightarrow> bytes \<Rightarrow> Request \<Rightarrow> gotime \<Rightarrow> jobs_db \<Rightarrow> (jobs_error, Operation) result \<times> jobs_db" where
  "Enqueue ok i request now db = EnqueueKind ok i KindManual request now db"

definition Latest :: "bool \<Rightarrow> jobs_db \<Rightarrow> (jobs_error, Operation) result" where
  "Latest ok db = fst (with_tx ErrDatabase ok db load_back)"

definition Claim :: "bool \<Rightarrow> gotime \<Rightarrow> jobs_db \<Rightarrow> (jobs_error, Operation) result \<times> jobs_db" where
  "Claim ok now db =
     (if validateTime now True \<noteq> None then (Inl ErrInvalid, db)
      else with_tx ErrDatabase ok db (\<lambda>db.
        case latest db of
          None \<Rightarrow> Inl ErrNoQueued
        | Some r \<Rightarrow>
            if p_state r \<noteq> StateQueued then Inl ErrNoQueued
            else if p_phase r \<noteq> PhaseQueued then Inl ErrStateChanged
            else bind_result
              (write_row (r\<lparr>p_state := StateRunning, p_phase := PhaseRevalidating,
                            p_startedAt := formatTime now, p_updatedAt := formatTime now\<rparr>) db) load_back))"

definition UpdatePhase :: "bool \<Rightarrow> bytes \<Rightarrow> Phase \<Rightarrow> gotime \<Rightarrow> jobs_db \<Rightarrow> (jobs_error, unit) result \<times> jobs_db" where
  "UpdatePhase ok i phase now db =
     (if validateID i \<noteq> None \<or> validateTime now True \<noteq> None then (Inl ErrInvalid, db)
      else with_tx ErrDatabase ok db (\<lambda>db.
        case latest db of
          None \<Rightarrow> Inl ErrStateChanged
        | Some r \<Rightarrow>
            if p_id r \<noteq> i then Inl ErrStateChanged
            else if p_state r \<noteq> StateRunning \<or> \<not> validPhaseTransition (p_phase r) phase then Inl ErrStateChanged
            else bind_result (write_row (r\<lparr>p_phase := phase, p_updatedAt := formatTime now\<rparr>) db)
                   (\<lambda>db. Inr ((), db))))"

definition uncertain_items :: "bytes \<Rightarrow> bytes list \<Rightarrow> ItemResult list" where
  "uncertain_items code names = map (\<lambda>n. \<lparr>it_Name = n, it_State = ItemAmbiguous, it_Code = code\<rparr>) names"

text \<open>\<open>INSERT INTO operation_item_result\<close> with ordinals from 0: a primary key conflict when the
  operation already has item results.\<close>

definition insert_results :: "ItemResult list \<Rightarrow> persistedOperation \<Rightarrow> (jobs_error, persistedOperation) result" where
  "insert_results xs r = (if xs \<noteq> [] \<and> p_items r \<noteq> [] then Inl ErrDatabase else Inr (r\<lparr>p_items := p_items r @ xs\<rparr>))"

definition finish ::
  "bool \<Rightarrow> bytes \<Rightarrow> Result \<Rightarrow> gotime \<Rightarrow> bool \<Rightarrow> jobs_db \<Rightarrow> (jobs_error, Operation) result \<times> jobs_db" where
  "finish ok i res now allowPending db =
     (if validateID i \<noteq> None \<or> validateTime now True \<noteq> None then (Inl ErrInvalid, db)
      else if allowPending \<and> (\<not> terminal (res_State res) \<or> validateCode (res_Code res) True \<noteq> None
              \<or> validateInventory (res_Inventory res) True \<noteq> None \<or> validateOutput (res_Output res) \<noteq> None
              \<or> validateItems (res_Items res) \<noteq> None) then (Inl ErrInvalid, db)
      else with_tx ErrDatabase ok db (\<lambda>db.
        case latest db of
          None \<Rightarrow> Inl ErrStateChanged
        | Some r \<Rightarrow>
            if p_id r \<noteq> i \<or> p_state r \<noteq> StateRunning then Inl ErrStateChanged
            else
              (let requested = fst (loadRequestedItems r);
                   items = (if allowPending \<and> res_Items res = [] then uncertain_items (res_Code res) requested
                            else res_Items res)
               in if validateResultScope requested items \<noteq> None then Inl ErrInvalid
                  else bind_result (insert_results items
                    (r\<lparr>p_state := res_State res, p_phase := PhaseNone, p_finishedAt := formatTime now,
                       p_updatedAt := formatTime now, p_code := res_Code res,
                       p_mayHaveChanged := bool_int (res_MayHaveChanged res),
                       p_inventoryState := inv_State (res_Inventory res),
                       p_inventoryCode := inv_Code (res_Inventory res), p_output := res_Output res,
                       p_outputTruncated := bool_int (res_OutputTruncated res),
                       p_certificateCount := inv_CertificateCount (res_Inventory res)\<rparr>)) (\<lambda>r'.
                  bind_result (write_row r' db) load_back))))"

definition Finish :: "bool \<Rightarrow> bytes \<Rightarrow> Result \<Rightarrow> gotime \<Rightarrow> jobs_db \<Rightarrow> (jobs_error, Operation) result \<times> jobs_db" where
  "Finish ok i res now db =
     (if validateExecutorResult res \<noteq> None then (Inl ErrInvalid, db) else finish ok i res now False db)"

definition uncertain_result :: "State \<Rightarrow> bytes \<Rightarrow> Result" where
  "uncertain_result s code =
     \<lparr>res_State = s, res_Code = code, res_MayHaveChanged = True, res_Inventory = pending_inventory,
      res_Output = [], res_OutputTruncated = False, res_Items = []\<rparr>"

definition FinishUncertain ::
  "bool \<Rightarrow> bytes \<Rightarrow> State \<Rightarrow> bytes \<Rightarrow> gotime \<Rightarrow> jobs_db \<Rightarrow> (jobs_error, Operation) result \<times> jobs_db" where
  "FinishUncertain ok i s code now db =
     (if s \<noteq> StateInterrupted \<and> s \<noteq> StateAmbiguous then (Inl ErrInvalid, db)
      else finish ok i (uncertain_result s code) now True db)"

definition InterruptRunning ::
  "bool \<Rightarrow> gotime \<Rightarrow> jobs_db \<Rightarrow> (jobs_error, Operation option) result \<times> jobs_db" where
  "InterruptRunning ok now db =
     (if validateTime now True \<noteq> None then (Inl ErrInvalid, db)
      else with_tx ErrDatabase ok db (\<lambda>db.
        case latest db of
          None \<Rightarrow> Inr (None, db)
        | Some r \<Rightarrow>
            if p_state r \<noteq> StateRunning then Inr (None, db)
            else bind_result (insert_results (uncertain_items ''service_restarted'' (fst (loadRequestedItems r)))
                    (r\<lparr>p_state := StateInterrupted, p_phase := PhaseNone, p_finishedAt := formatTime now,
                       p_updatedAt := formatTime now, p_code := ''service_restarted'', p_mayHaveChanged := 1,
                       p_inventoryState := InventoryPending, p_inventoryCode := [], p_output := [],
                       p_outputTruncated := 0, p_certificateCount := None\<rparr>)) (\<lambda>r'.
                 bind_result (write_row r' db) (\<lambda>db.
                 bind_result (loadOperation db) (\<lambda>x. Inr (Some x, db))))))"

definition PendingReconciliation :: "bool \<Rightarrow> jobs_db \<Rightarrow> (jobs_error, Operation) result" where
  "PendingReconciliation ok db =
     bind_result (Latest ok db) (\<lambda>x.
       if inv_State (op_Inventory x) \<noteq> InventoryPending
          \<or> (op_State x \<noteq> StateInterrupted \<and> op_State x \<noteq> StateAmbiguous)
       then Inl ErrNotFound else Inr x)"

definition CompleteReconciliation ::
  "bool \<Rightarrow> bytes \<Rightarrow> InventoryResult \<Rightarrow> gotime \<Rightarrow> jobs_db \<Rightarrow> (jobs_error, Operation) result \<times> jobs_db" where
  "CompleteReconciliation ok i inventory now db =
     (if validateID i \<noteq> None \<or> validateInventory inventory False \<noteq> None \<or> validateTime now True \<noteq> None
      then (Inl ErrInvalid, db)
      else with_tx ErrDatabase ok db (\<lambda>db.
        case latest db of
          None \<Rightarrow> Inl ErrStateChanged
        | Some r \<Rightarrow>
            if p_id r \<noteq> i \<or> p_state r \<notin> {StateInterrupted, StateAmbiguous} \<or> p_inventoryState r \<noteq> InventoryPending
            then Inl ErrStateChanged
            else bind_result
              (write_row (r\<lparr>p_inventoryState := inv_State inventory, p_inventoryCode := inv_Code inventory,
                            p_certificateCount := inv_CertificateCount inventory,
                            p_updatedAt := formatTime now\<rparr>) db) load_back))"

end
