(* ===== verification/Jobs_Refine.thy ===== *)
theory Jobs_Refine
  imports Jobs_Store
begin

text \<open>
  Refinement of the operation store.  \<open>persist\<close> is the row that represents an operation, and a
  valid database is empty or holds the row of a valid operation.  Each transaction of
  \<open>Jobs_Store\<close> on such a database is an update of the operation itself, read back through
  \<open>validateOperation\<close>.
\<close>

subsection \<open>Representation\<close>

definition blank_item :: "bytes \<Rightarrow> RequestItem" where
  "blank_item n = \<lparr>ri_Name = n, ri_Account = [], ri_CA = [], ri_ChallengeKind = [], ri_ChallengeMode = []\<rparr>"

definition time_text :: "gotime \<Rightarrow> bytes" where
  "time_text t = (if IsZero t then [] else formatTime t)"

definition persist :: "Operation \<Rightarrow> persistedOperation" where
  "persist x =
     \<lparr>p_id = op_ID x, p_reviewedEvidenceSHA256 = ReviewedEvidenceSHA256 (op_Request x), p_kind = op_Kind x,
      p_state = op_State x, p_phase = op_Phase x, p_requestedAt = formatTime (op_RequestedAt x),
      p_startedAt = time_text (op_StartedAt x), p_finishedAt = time_text (op_FinishedAt x),
      p_updatedAt = formatTime (op_UpdatedAt x), p_code = op_Code x,
      p_mayHaveChanged = bool_int (op_MayHaveChanged x), p_inventoryState = inv_State (op_Inventory x),
      p_inventoryCode = inv_Code (op_Inventory x), p_output = op_Output x,
      p_outputTruncated = bool_int (op_OutputTruncated x),
      p_certificateCount = inv_CertificateCount (op_Inventory x), p_items = op_Items x,
      p_requested = (if req_Details (op_Request x) = [] then map blank_item (req_Items (op_Request x))
                     else req_Details (op_Request x)),
      p_runtimeIdentity = RuntimeIdentity (req_Context (op_Request x)),
      p_runtimeManifestID = RuntimeManifestID (req_Context (op_Request x)),
      p_configurationPath = ConfigurationPath (req_Context (op_Request x)),
      p_storagePath = StoragePath (req_Context (op_Request x))\<rparr>"

definition representable_request :: "Request \<Rightarrow> bool" where
  "representable_request q \<longleftrightarrow> req_Details q = []
     \<or> (map ri_Name (req_Details q) = req_Items q \<and> list_ex has_details (req_Details q))"

definition representable :: "Operation \<Rightarrow> bool" where
  "representable x \<longleftrightarrow>
     canonical_time (op_RequestedAt x) \<and> canonical_time (op_UpdatedAt x)
     \<and> (op_StartedAt x = zero_time \<or> canonical_time (op_StartedAt x))
     \<and> (op_FinishedAt x = zero_time \<or> canonical_time (op_FinishedAt x))
     \<and> (case inv_CertificateCount (op_Inventory x) of None \<Rightarrow> True | Some n \<Rightarrow> 0 \<le> n \<and> n \<le> 10000)
     \<and> representable_request (op_Request x)"

definition db_of :: "Operation option \<Rightarrow> jobs_db" where
  "db_of x = \<lparr>latest = map_option persist x\<rparr>"

lemma parse_formatTime [simp]: "canonical_time t \<Longrightarrow> parseTime (formatTime t) required = Inr t"
proof -
  assume c: "canonical_time t"
  let ?n = "nat (t_ns t)"
  have bounds: "0 < t_ns t" "t_ns t < year_10000" and t: "t = utc_instant (t_ns t)"
    using c by (auto simp: canonical_iff)
  have "parse_rfc3339 (rfc3339_text ?n) = Some ?n"
    using bounds by (intro parse_rfc3339_text) simp
  moreover have "utc_instant (int ?n) = t" using bounds t by simp
  moreover have "rfc3339_text ?n \<noteq> []" by simp
  moreover have "validateTime t True = None" using c by simp
  ultimately show ?thesis by (simp add: parseTime_def formatTime_def Let_def del: validateTime_required)
qed

lemma parse_time_text: "t = zero_time \<or> canonical_time t \<Longrightarrow> parseTime (time_text t) False = Inr t"
proof (cases "t = zero_time")
  case True
  then show ?thesis by (simp add: time_text_def zero_time_def IsZero_def parseTime_def)
next
  case False
  assume "t = zero_time \<or> canonical_time t"
  with False have "canonical_time t" by simp
  moreover from this have "\<not> IsZero t" by (auto simp: canonical_time_def IsZero_def)
  ultimately show ?thesis by (simp add: time_text_def)
qed

lemma stored_bool_int [simp]: "storedBoolean (bool_int b) = Inr b"
  by (simp add: storedBoolean_def bool_int_def)

lemma load_persist_request:
  assumes "representable_request (op_Request x)"
  shows "loadRequestedItems (persist x) = (req_Items (op_Request x), req_Details (op_Request x))"
proof (cases "req_Details (op_Request x) = []")
  case True
  then show ?thesis
    by (auto simp: loadRequestedItems_def persist_def blank_item_def has_details_def comp_def
        list_ex_iff)
next
  case False
  with assms show ?thesis
    by (auto simp: loadRequestedItems_def persist_def representable_request_def)
qed

lemma row_operation_persist:
  assumes "representable_request (op_Request x)"
  shows "row_operation (persist x) (op_RequestedAt x) (op_StartedAt x) (op_FinishedAt x) (op_UpdatedAt x)
           (op_MayHaveChanged x) (op_OutputTruncated x) = x"
  using load_persist_request [OF assms]
  by (intro Operation.equality Request.equality InventoryResult.equality RequestContext.equality)
     (simp_all add: row_operation_def persist_def)

lemma operation_of_persist:
  assumes "representable x"
  shows "operation_of_row (persist x) = (case validateOperation x of None \<Rightarrow> Inr x | Some e \<Rightarrow> Inl e)"
proof -
  have r: "representable_request (op_Request x)" using assms by (simp add: representable_def)
  have t: "parseTime (p_requestedAt (persist x)) True = Inr (op_RequestedAt x)"
    "parseTime (p_updatedAt (persist x)) True = Inr (op_UpdatedAt x)"
    "parseTime (p_startedAt (persist x)) False = Inr (op_StartedAt x)"
    "parseTime (p_finishedAt (persist x)) False = Inr (op_FinishedAt x)"
    using assms by (auto simp: persist_def representable_def intro!: parse_time_text)
  have b: "storedBoolean (p_mayHaveChanged (persist x)) = Inr (op_MayHaveChanged x)"
    "storedBoolean (p_outputTruncated (persist x)) = Inr (op_OutputTruncated x)"
    by (simp_all add: persist_def)
  have c: "case p_certificateCount (persist x) of None \<Rightarrow> True | Some n \<Rightarrow> 0 \<le> n \<and> n \<le> 10000"
    using assms by (simp add: representable_def persist_def)
  show ?thesis
    using c by (simp add: operation_of_row_def t b row_operation_persist [OF r] Let_def require_def
        split: option.split)
qed

lemma loadOperation_db_of:
  "representable x \<Longrightarrow>
   loadOperation (db_of (Some x)) = (if validateOperation x = None then Inr x else Inl ErrInvalid)"
  by (auto simp: loadOperation_def db_of_def operation_of_persist split: option.split)

lemma valid_request_representable: "validateRequest q = None \<Longrightarrow> representable_request q"
proof (cases "req_Details q = []")
  case True
  then show ?thesis by (simp add: representable_request_def)
next
  case False
  assume "validateRequest q = None"
  with False have l: "list_all2 valid_detail (req_Items q) (req_Details q)"
    by (simp add: validateRequest_def)
  then have "map ri_Name (req_Details q) = req_Items q"
    by (auto simp: list_all2_conv_all_nth valid_detail_def intro: nth_equalityI)
  moreover have "has_details (hd (req_Details q))"
    using l False by (cases "req_Details q") (auto simp: list_all2_Cons2 valid_detail_def validRequestText_def has_details_def)
  ultimately show ?thesis
    using False by (cases "req_Details q") (auto simp: representable_request_def)
qed

subsection \<open>Valid operations fit the schema\<close>

definition valid_op :: "Operation \<Rightarrow> bool" where
  "valid_op x \<longleftrightarrow> representable x \<and> validateOperation x = None"

lemma DecodeRune_small:
  assumes "DecodeRune (c # s) = (r, n)" and "r < 128"
  shows "byte c < 128 \<and> r = byte c \<and> n = 1"
proof (cases "byte c < 128")
  case True
  with assms show ?thesis by (simp add: DecodeRune_ascii)
next
  case False
  have "128 \<le> r"
    using assms(1) False
    by (auto simp: DecodeRune_def Let_def RuneError_def cont_byte_def split: if_splits list.splits)
  with assms(2) show ?thesis by simp
qed

lemma code_runes_bytes:
  "list_all (\<lambda>(r, _). code_rune r) (runes s) \<Longrightarrow> list_all (\<lambda>c. code_rune (byte c)) s"
proof (induction s rule: runes.induct)
  case (1 s)
  show ?case
  proof (cases s)
    case (Cons c s')
    obtain r n where d: "DecodeRune s = (r, n)" by fastforce
    with "1.prems" Cons have "code_rune r" "list_all (\<lambda>(r, _). code_rune r) (runes (drop n s))"
      by (simp_all add: runes_step)
    moreover from this(1) have "r < 128" by (auto simp: code_rune_def)
    moreover have "r = byte c \<and> n = 1" using DecodeRune_small d Cons calculation(3) by blast
    ultimately show ?thesis using "1.IH" d Cons by simp
  qed simp
qed

lemma validateCode_text: "validateCode v True = None \<Longrightarrow> v \<noteq> [] \<and> code_text v"
  by (auto simp: validateCode_def code_text_def dest: code_runes_bytes split: list.splits)

lemma code_text_Nil [simp]: "code_text []"
  by (simp add: code_text_def)

lemma formatTime_column: "time_column (formatTime t)"
  by (simp add: time_column_def formatTime_def length_rfc3339_text length_rfc3339_text_le)

lemma formatTime_nonempty [simp]: "formatTime t \<noteq> []"
  by (simp add: formatTime_def)

lemma time_text_column: "time_text t = [] \<or> time_column (time_text t)"
  by (simp add: time_text_def formatTime_column)

lemma time_text_eq_Nil [simp]: "time_text t = [] \<longleftrightarrow> IsZero t"
  by (simp add: time_text_def)

lemma canonical_not_zero [simp]: "canonical_time t \<Longrightarrow> \<not> IsZero t"
  by (auto simp: canonical_time_def IsZero_def)

lemma validateItemName_bounds: "validateItemName n = None \<Longrightarrow> n \<noteq> [] \<and> length n \<le> 255"
  by (auto simp: validateItemName_def)

lemma validRequestText_length: "validRequestText v n \<Longrightarrow> v \<noteq> [] \<and> length v \<le> n"
  by (simp add: validRequestText_def)

lemma persist_requested:
  assumes "validateRequest q = None"
  defines "rows \<equiv> (if req_Details q = [] then map blank_item (req_Items q) else req_Details q)"
  shows "length rows \<le> 256 \<and> distinct (map ri_Name rows) \<and> list_all requested_row_check rows"
proof -
  have names: "map ri_Name rows = req_Items q"
    using valid_request_representable [OF assms(1)]
    by (auto simp: rows_def representable_request_def blank_item_def comp_def)
  have items: "length (req_Items q) \<le> 256" "distinct (req_Items q)"
    "\<And>n. n \<in> set (req_Items q) \<Longrightarrow> n \<noteq> [] \<and> length n \<le> 255"
    using assms(1) by (auto simp: validateRequest_def validate_request_items_None dest: validateItemName_bounds)
  have "requested_row_check d" if d: "d \<in> set rows" for d
  proof -
    have n: "ri_Name d \<in> set (req_Items q)" using d names by (metis image_eqI image_set)
    show ?thesis
    proof (cases "req_Details q = []")
      case True
      with d items(3) [OF n] show ?thesis
        by (auto simp: rows_def blank_item_def requested_row_check_def)
    next
      case False
      with assms(1) have "list_all2 valid_detail (req_Items q) (req_Details q)" by (simp add: validateRequest_def)
      with d False obtain m where "valid_detail m d" by (auto simp: rows_def list_all2_conv_all_nth in_set_conv_nth)
      then show ?thesis
        using items(3) [OF n] by (auto simp: valid_detail_def requested_row_check_def dest: validRequestText_length)
    qed
  qed
  moreover have "length rows \<le> 256" using names items(1) by (metis length_map)
  ultimately show ?thesis using names items(2) by (simp add: list_all_iff)
qed

lemma context_lengths:
  assumes "validateRequest q = None"
  shows "length (RuntimeIdentity (req_Context q)) \<le> 64 \<and> length (RuntimeManifestID (req_Context q)) \<le> 128
       \<and> length (ConfigurationPath (req_Context q)) \<le> 4095 \<and> length (StoragePath (req_Context q)) \<le> 4095"
  using assms
  by (cases "req_Context q = empty_context \<and> req_Details q = []")
     (auto simp: validateRequest_def empty_context_def validRequestPath_def dest: validRequestText_length)

lemma inventory_columns:
  assumes "validateInventory v p = None"
  shows "inv_State v = InventoryPending \<and> inv_Code v = [] \<and> inv_CertificateCount v = None \<and> p
       \<or> inv_State v = InventoryRefreshed \<and> inv_Code v \<noteq> [] \<and> inv_CertificateCount v \<noteq> None
       \<or> inv_State v = InventoryUnavailable \<and> inv_Code v \<noteq> [] \<and> inv_CertificateCount v = None"
    and "code_text (inv_Code v)"
  using assms by (auto simp: validateInventory_def code_text_def dest: validateCode_text split: InventoryState.splits option.splits)

lemma lifecycle_columns:
  assumes "validate_lifecycle x = None"
  shows "lifecycle_check (persist x)" and "code_text (op_Code x)" and "code_text (inv_Code (op_Inventory x))"
    and "length (op_Output x) \<le> 262144" and "active (op_State x) \<or> terminal (op_State x)"
    and "length (op_Items x) \<le> 256 \<and> distinct (map it_Name (op_Items x)) \<and> list_all result_row_check (op_Items x)"
proof -
  show "lifecycle_check (persist x)"
    using assms inventory_columns(1) [of "op_Inventory x"]
    by (auto simp: validate_lifecycle_def lifecycle_check_def persist_def bool_int_def Let_def
         dest: validateCode_text split: if_splits)
  show "code_text (op_Code x)"
    using assms by (auto simp: validate_lifecycle_def code_text_def Let_def dest: validateCode_text split: if_splits)
  show "code_text (inv_Code (op_Inventory x))"
    using assms inventory_columns(2) [of "op_Inventory x"]
    by (auto simp: validate_lifecycle_def Let_def split: if_splits)
  show "length (op_Output x) \<le> 262144"
    using assms by (auto simp: validate_lifecycle_def validateOutput_def Let_def split: if_splits)
  show "active (op_State x) \<or> terminal (op_State x)"
    using assms by (auto simp: validate_lifecycle_def active_def split: if_splits)
  show "length (op_Items x) \<le> 256 \<and> distinct (map it_Name (op_Items x)) \<and> list_all result_row_check (op_Items x)"
    using assms
    by (auto simp: validate_lifecycle_def validateItems_None list_all_iff result_row_check_def Let_def
         dest: validateCode_text validateItemName_bounds split: if_splits)
qed

lemma schema_accepts_persist:
  assumes "valid_op x"
  shows "schema_accepts (persist x)"
proof -
  have v: "validateOperation x = None" and rep: "representable x" using assms by (auto simp: valid_op_def)
  have req: "validateRequest (op_Request x) = None" and life: "validate_lifecycle x = None"
    using v by (simp_all add: validateOperation_def)
  have ident: "canonical_hex 32 (op_ID x)" "op_Kind x \<in> {KindManual, KindScheduled}"
    "canonical_hex 64 (ReviewedEvidenceSHA256 (op_Request x))"
    using v req by (auto simp: validateOperation_def validateRequest_def)
  have count: "case inv_CertificateCount (op_Inventory x) of None \<Rightarrow> True | Some n \<Rightarrow> 0 \<le> n \<and> n \<le> 10000"
    using rep by (simp add: representable_def)
  show ?thesis
    unfolding schema_accepts_def
    using ident count lifecycle_columns [OF life] persist_requested [OF req] context_lengths [OF req]
      time_text_column [of "op_StartedAt x"] time_text_column [of "op_FinishedAt x"]
    by (simp add: persist_def formatTime_column bool_int_def)
qed

subsection \<open>The operation-level machine\<close>

definition queued_op :: "bytes \<Rightarrow> Kind \<Rightarrow> Request \<Rightarrow> gotime \<Rightarrow> Operation" where
  "queued_op i kind request now =
     \<lparr>op_ID = i, op_Kind = kind, op_State = StateQueued, op_Phase = PhaseQueued, op_RequestedAt = now,
      op_StartedAt = zero_time, op_FinishedAt = zero_time, op_UpdatedAt = now, op_Code = [],
      op_MayHaveChanged = False, op_Inventory = pending_inventory, op_Output = [],
      op_OutputTruncated = False, op_Items = [], op_Request = request\<rparr>"

definition claimed :: "gotime \<Rightarrow> Operation \<Rightarrow> Operation" where
  "claimed now x = x\<lparr>op_State := StateRunning, op_Phase := PhaseRevalidating, op_StartedAt := now, op_UpdatedAt := now\<rparr>"

definition phased :: "Phase \<Rightarrow> gotime \<Rightarrow> Operation \<Rightarrow> Operation" where
  "phased ph now x = x\<lparr>op_Phase := ph, op_UpdatedAt := now\<rparr>"

definition finished :: "Result \<Rightarrow> ItemResult list \<Rightarrow> gotime \<Rightarrow> Operation \<Rightarrow> Operation" where
  "finished res items now x =
     x\<lparr>op_State := res_State res, op_Phase := PhaseNone, op_FinishedAt := now, op_UpdatedAt := now,
       op_Code := res_Code res, op_MayHaveChanged := res_MayHaveChanged res, op_Inventory := res_Inventory res,
       op_Output := res_Output res, op_OutputTruncated := res_OutputTruncated res, op_Items := items\<rparr>"

definition reconciled :: "InventoryResult \<Rightarrow> gotime \<Rightarrow> Operation \<Rightarrow> Operation" where
  "reconciled inventory now x = x\<lparr>op_Inventory := inventory, op_UpdatedAt := now\<rparr>"

text \<open>What is stored: a valid operation, or a running one whose last phase was stamped by a clock
  that had stepped back (\<open>UpdatePhase\<close> has no read-back).\<close>

definition stored_op :: "Operation \<Rightarrow> bool" where
  "stored_op x \<longleftrightarrow> representable x \<and>
     (validateOperation x = None
      \<or> op_State x = StateRunning \<and> validateOperation (x\<lparr>op_UpdatedAt := op_StartedAt x\<rparr>) = None)"

definition db_ok :: "jobs_db \<Rightarrow> bool" where
  "db_ok db \<longleftrightarrow> (\<exists>x. db = db_of x \<and> (case x of None \<Rightarrow> True | Some y \<Rightarrow> stored_op y))"

lemma persist_updates:
  assumes "\<not> IsZero now"
  shows "persist (claimed now x) = (persist x)\<lparr>p_state := StateRunning, p_phase := PhaseRevalidating,
            p_startedAt := formatTime now, p_updatedAt := formatTime now\<rparr>"
    and "persist (phased ph now x) = (persist x)\<lparr>p_phase := ph, p_updatedAt := formatTime now\<rparr>"
    and "persist (reconciled v now x) = (persist x)\<lparr>p_inventoryState := inv_State v,
            p_inventoryCode := inv_Code v, p_certificateCount := inv_CertificateCount v,
            p_updatedAt := formatTime now\<rparr>"
    and "persist (finished res items now x) = (persist x)\<lparr>p_state := res_State res, p_phase := PhaseNone,
            p_finishedAt := formatTime now, p_updatedAt := formatTime now, p_code := res_Code res,
            p_mayHaveChanged := bool_int (res_MayHaveChanged res),
            p_inventoryState := inv_State (res_Inventory res), p_inventoryCode := inv_Code (res_Inventory res),
            p_output := res_Output res, p_outputTruncated := bool_int (res_OutputTruncated res),
            p_certificateCount := inv_CertificateCount (res_Inventory res), p_items := items\<rparr>"
  using assms by (simp_all add: persist_def claimed_def phased_def reconciled_def finished_def time_text_def)

lemma map2_own_names: "map2 (\<lambda>n d. d\<lparr>ri_Name := n\<rparr>) (map ri_Name ds) ds = ds"
  by (induction ds) simp_all

lemma persist_queued:
  "validateRequest q = None \<Longrightarrow> persist (queued_op i kind q now) = queued_row i kind q now"
proof -
  assume "validateRequest q = None"
  then have "representable_request q" by (rule valid_request_representable)
  then have "req_Details q \<noteq> [] \<Longrightarrow> map2 (\<lambda>n d. d\<lparr>ri_Name := n\<rparr>) (req_Items q) (req_Details q) = req_Details q"
    using map2_own_names [of "req_Details q"] by (auto simp: representable_request_def)
  then show ?thesis
    by (simp add: persist_def queued_op_def queued_row_def requested_rows_def pending_inventory_def
        bool_int_def time_text_def zero_time_def IsZero_def blank_item_def comp_def)
qed

lemmas op_updates = queued_op_def claimed_def phased_def finished_def reconciled_def

lemma persist_fields [simp]:
  "p_id (persist x) = op_ID x" "p_state (persist x) = op_State x" "p_phase (persist x) = op_Phase x"
  "p_inventoryState (persist x) = inv_State (op_Inventory x)" "p_items (persist x) = op_Items x"
  by (simp_all add: persist_def)

lemma latest_db_of [simp]: "latest (db_of (Some x)) = Some (persist x)" "latest (db_of None) = None"
  by (simp_all add: db_of_def)

lemma write_db_of: "write_row (persist x) db = (if schema_accepts (persist x) then Inr (db_of (Some x)) else Inl ErrDatabase)"
  by (simp add: write_row_def db_of_def)

text \<open>Writing a row and reading it back.\<close>

lemma commit_row:
  assumes "representable x"
  shows "bind_result (write_row (persist x) db) load_back =
     (if validateOperation x = None then Inr (x, db_of (Some x))
      else if schema_accepts (persist x) then Inl ErrInvalid else Inl ErrDatabase)"
  using assms schema_accepts_persist [of x]
  by (simp add: write_db_of load_back_def loadOperation_db_of valid_op_def)

lemma stored_op_request:
  "stored_op x \<Longrightarrow> validateRequest (op_Request x) = None \<and> representable x \<and> canonical_hex 32 (op_ID x)"
  by (auto simp: stored_op_def validateOperation_def)

lemma loadRequested_persist: "stored_op x \<Longrightarrow> fst (loadRequestedItems (persist x)) = req_Items (op_Request x)"
  by (simp add: load_persist_request stored_op_def representable_def)

subsection \<open>Each transaction on a represented database\<close>

lemma enqueue_none:
  assumes "canonical_hex 32 i" "kind = KindManual \<or> kind = KindScheduled" "validateRequest q = None"
    "canonical_time now"
    and "x = None \<or> (\<exists>y. x = Some y \<and> \<not> active (op_State y) \<and> inv_State (op_Inventory y) \<noteq> InventoryPending)"
  shows "EnqueueKind True i kind q now (db_of x) = (Inr (queued_op i kind q now), db_of (Some (queued_op i kind q now)))"
    and "valid_op (queued_op i kind q now)"
proof -
  let ?o = "queued_op i kind q now"
  show valid: "valid_op ?o"
    using assms(1-4) valid_request_representable [OF assms(3)]
    by (auto simp: valid_op_def representable_def queued_op_def validateOperation_def validate_lifecycle_def
        pending_inventory_def validateInventory_def zero_time_def IsZero_def Before_def)
  have "bind_result (write_row (persist ?o) db) load_back = Inr (?o, db_of (Some ?o))" for db
    using valid by (simp add: commit_row valid_op_def)
  then have "bind_result (write_row (queued_row i kind q now) db) load_back = Inr (?o, db_of (Some ?o))" for db
    by (simp add: persist_queued [OF assms(3)])
  with assms show "EnqueueKind True i kind q now (db_of x) = (Inr ?o, db_of (Some ?o))"
    by (auto simp: EnqueueKind_def with_tx_def)
qed

lemma enqueue_active:
  assumes "active (op_State x) \<or> inv_State (op_Inventory x) = InventoryPending"
  shows "EnqueueKind ok i kind q now (db_of (Some x)) =
     (Inl (if validateID i = None \<and> (kind = KindManual \<or> kind = KindScheduled) \<and> validateRequest q = None
              \<and> validateTime now True = None then (if ok then ErrActive else ErrDatabase) else ErrInvalid),
      db_of (Some x))"
  using assms by (auto simp: EnqueueKind_def with_tx_def)

lemma claim_not_queued:
  "(\<And>y. x = Some y \<Longrightarrow> op_State y \<noteq> StateQueued) \<Longrightarrow> canonical_time now \<Longrightarrow>
   Claim True now (db_of x) = (Inl ErrNoQueued, db_of x)"
  by (cases x) (auto simp: Claim_def with_tx_def)

lemma queued_phase: "stored_op x \<Longrightarrow> op_State x = StateQueued \<Longrightarrow> op_Phase x = PhaseQueued"
  by (auto simp: stored_op_def validateOperation_def validate_lifecycle_def)

lemma claim_queued:
  assumes "stored_op x" "op_State x = StateQueued" "canonical_time now"
  shows "Claim True now (db_of (Some x)) =
     (if Before now (op_RequestedAt x) then (Inl ErrInvalid, db_of (Some x))
      else (Inr (claimed now x), db_of (Some (claimed now x))))"
    and "\<not> Before now (op_RequestedAt x) \<Longrightarrow> valid_op (claimed now x)"
proof -
  have v: "validateOperation x = None" and rep: "representable x"
    using assms(1,2) by (auto simp: stored_op_def)
  have rep': "representable (claimed now x)"
    using rep assms(3) by (simp add: representable_def claimed_def)
  have val: "validateOperation (claimed now x) = None \<longleftrightarrow> \<not> Before now (op_RequestedAt x)"
    using v assms(2,3) by (auto simp: validateOperation_def validate_lifecycle_def claimed_def Before_def)
  then show "\<not> Before now (op_RequestedAt x) \<Longrightarrow> valid_op (claimed now x)"
    using rep' by (simp add: valid_op_def)
  have "valid_op (claimed (op_RequestedAt x) x)"
    using v rep assms(2) by (auto simp: valid_op_def representable_def validateOperation_def validate_lifecycle_def claimed_def Before_def)
  then have "schema_accepts (persist (claimed (op_RequestedAt x) x))" by (rule schema_accepts_persist)
  moreover have "\<not> IsZero (op_RequestedAt x)" "\<not> IsZero now" using v assms(3) by (simp_all add: validateOperation_def)
  ultimately have sch: "schema_accepts (persist (claimed now x))"
    by (simp add: persist_updates schema_accepts_def lifecycle_check_def formatTime_column)
  have "Claim True now (db_of (Some x)) =
     with_tx ErrDatabase True (db_of (Some x)) (\<lambda>db. bind_result (write_row (persist (claimed now x)) db) load_back)"
    using assms queued_phase [OF assms(1,2)] by (simp add: Claim_def with_tx_def persist_updates(1))
  then show "Claim True now (db_of (Some x)) =
     (if Before now (op_RequestedAt x) then (Inl ErrInvalid, db_of (Some x))
      else (Inr (claimed now x), db_of (Some (claimed now x))))"
    using val sch by (simp add: commit_row [OF rep'] with_tx_def)
qed

lemma stored_running:
  assumes "stored_op x" "op_State x = StateRunning"
  shows "validateOperation (x\<lparr>op_UpdatedAt := op_StartedAt x\<rparr>) = None"
proof (cases "validateOperation x = None")
  case True
  then show ?thesis
    using assms(2) by (auto simp: validateOperation_def validate_lifecycle_def Before_def)
qed (use assms in \<open>auto simp: stored_op_def\<close>)

lemma running_facts:
  assumes "stored_op x" "op_State x = StateRunning"
  shows "canonical_time (op_StartedAt x)" "canonical_time (op_RequestedAt x)"
    "\<not> Before (op_StartedAt x) (op_RequestedAt x)" "op_FinishedAt x = zero_time" "op_Items x = []"
    "op_Phase x \<in> {PhaseRevalidating, PhaseExecuting, PhaseRefreshingInventory}"
    "validateRequest (op_Request x) = None" "op_Inventory x = pending_inventory" "op_Code x = []"
    "op_Kind x = KindManual \<or> op_Kind x = KindScheduled"
proof -
  note v = stored_running [OF assms]
  have rep: "representable x" using assms(1) by (simp add: stored_op_def)
  show "canonical_time (op_StartedAt x)" "canonical_time (op_RequestedAt x)" "op_Items x = []"
    "op_Phase x \<in> {PhaseRevalidating, PhaseExecuting, PhaseRefreshingInventory}"
    "validateRequest (op_Request x) = None" "op_Code x = []" "op_Kind x = KindManual \<or> op_Kind x = KindScheduled"
    using v assms(2) by (auto simp: validateOperation_def validate_lifecycle_def)
  show "\<not> Before (op_StartedAt x) (op_RequestedAt x)"
    using v assms(2) by (auto simp: validateOperation_def validate_lifecycle_def Before_def)
  show "op_FinishedAt x = zero_time"
    using v assms(2) rep by (auto simp: validateOperation_def validate_lifecycle_def representable_def)
  show "op_Inventory x = pending_inventory"
    using v assms(2)
    by (intro InventoryResult.equality)
       (auto simp: validateOperation_def validate_lifecycle_def pending_inventory_def validateInventory_def)
qed

subsubsection \<open>Phases\<close>

lemma phased_stored:
  assumes "stored_op x" "op_State x = StateRunning" "canonical_time now" "validPhaseTransition (op_Phase x) ph"
  shows "stored_op (phased ph now x)" and "\<not> Before now (op_RequestedAt x) \<Longrightarrow> valid_op (phased ph now x)"
    and "schema_accepts (persist (phased ph now x))"
proof -
  have ph: "ph \<in> {PhaseExecuting, PhaseRefreshingInventory}"
    using assms(4) by (cases "op_Phase x") auto
  note v = stored_running [OF assms(1,2)]
  have rep: "representable (phased ph now x)"
    using assms(1,3) by (simp add: stored_op_def representable_def phased_def)
  have "validateOperation ((phased ph now x)\<lparr>op_UpdatedAt := op_StartedAt x\<rparr>) = None"
    using v assms(2) ph by (auto simp: validateOperation_def validate_lifecycle_def phased_def)
  then show st: "stored_op (phased ph now x)"
    using rep assms(2) by (auto simp: stored_op_def phased_def)
  show "valid_op (phased ph now x)" if "\<not> Before now (op_RequestedAt x)"
    using v rep assms(2,3) ph that
    by (auto simp: valid_op_def validateOperation_def validate_lifecycle_def phased_def)
  have "valid_op (phased ph (op_RequestedAt x) x)"
    using v rep assms(2) ph
    by (auto simp: valid_op_def validateOperation_def validate_lifecycle_def phased_def representable_def Before_def)
  then have "schema_accepts (persist (phased ph (op_RequestedAt x) x))" by (rule schema_accepts_persist)
  then show "schema_accepts (persist (phased ph now x))"
    using assms(3) running_facts(2) [OF assms(1,2)]
    by (simp add: persist_updates schema_accepts_def lifecycle_check_def formatTime_column)
qed

lemma update_phase_running:
  assumes "stored_op x" "op_State x = StateRunning" "canonical_time now" "op_ID x = i"
    "validPhaseTransition (op_Phase x) ph"
  shows "UpdatePhase True i ph now (db_of (Some x)) = (Inr (), db_of (Some (phased ph now x)))"
proof -
  have "(persist x)\<lparr>p_phase := ph, p_updatedAt := formatTime now\<rparr> = persist (phased ph now x)"
    using persist_updates(2) [of now ph x] assms(3) by simp
  with assms phased_stored(3) [OF assms(1,2,3,5)] stored_op_request [OF assms(1)] show ?thesis
    by (simp add: UpdatePhase_def with_tx_def write_db_of)
qed

lemma update_phase_refused:
  assumes "\<And>x. y = Some x \<Longrightarrow> op_ID x \<noteq> i \<or> op_State x \<noteq> StateRunning \<or> \<not> validPhaseTransition (op_Phase x) ph"
  shows "\<exists>e. UpdatePhase ok i ph now (db_of y) = (Inl e, db_of y)"
  using assms by (cases y) (auto simp: UpdatePhase_def with_tx_def)

subsubsection \<open>Completion\<close>

definition finish_ok :: "Result \<Rightarrow> ItemResult list \<Rightarrow> Operation \<Rightarrow> bool" where
  "finish_ok res items x \<longleftrightarrow> terminal (res_State res) \<and> validateCode (res_Code res) True = None
     \<and> validateOutput (res_Output res) = None \<and> validateItems items = None
     \<and> validateInventory (res_Inventory res) (res_State res = StateInterrupted \<or> res_State res = StateAmbiguous) = None
     \<and> validateResultScope (req_Items (op_Request x)) items = None"

lemma inventory_count:
  "validateInventory v p = None \<Longrightarrow> case inv_CertificateCount v of None \<Rightarrow> True | Some n \<Rightarrow> 0 \<le> n \<and> n \<le> 10000"
  by (auto simp: validateInventory_def split: InventoryState.splits option.splits)

lemma validateInventory_pending:
  "validateInventory v p = None \<Longrightarrow> inv_State v = InventoryPending \<Longrightarrow> p"
  by (auto simp: validateInventory_def)

lemma finished_valid:
  assumes "stored_op x" "op_State x = StateRunning" "canonical_time now" "finish_ok res items x"
  shows "representable (finished res items now x)"
    and "validateOperation (finished res items now x) = None \<longleftrightarrow> \<not> Before now (op_StartedAt x)"
proof -
  note f = running_facts [OF assms(1,2)]
  have i: "canonical_hex 32 (op_ID x)" and rep: "representable x" using stored_op_request [OF assms(1)] by auto
  show "representable (finished res items now x)"
    using rep assms(3,4) by (auto simp: representable_def finished_def finish_ok_def intro!: inventory_count)
  have t: "res_State res \<noteq> StateQueued" "res_State res \<noteq> StateRunning"
    using assms(4) by (auto simp: finish_ok_def)
  show "validateOperation (finished res items now x) = None \<longleftrightarrow> \<not> Before now (op_StartedAt x)"
    using f i assms(3,4) t validateInventory_pending [of "res_Inventory res"]
    by (auto simp: validateOperation_def validate_lifecycle_def finished_def finish_ok_def Let_def Before_def)
qed

lemma finish_unfold:
  assumes "stored_op x" "op_State x = StateRunning" "canonical_time now" "op_ID x = i"
    and "finish_ok res items x"
    and "items = (if allowPending \<and> res_Items res = [] then uncertain_items (res_Code res) (req_Items (op_Request x))
                  else res_Items res)"
    and "allowPending \<longrightarrow> validateItems (res_Items res) = None"
    and "allowPending \<longrightarrow> validateInventory (res_Inventory res) True = None"
  shows "finish True i res now allowPending (db_of (Some x)) =
     with_tx ErrDatabase True (db_of (Some x))
       (\<lambda>db. bind_result (write_row (persist (finished res items now x)) db) load_back)"
proof -
  note f = running_facts [OF assms(1,2)]
  let ?r = "(persist x)\<lparr>p_state := res_State res, p_phase := PhaseNone, p_finishedAt := formatTime now,
       p_updatedAt := formatTime now, p_code := res_Code res,
       p_mayHaveChanged := bool_int (res_MayHaveChanged res),
       p_inventoryState := inv_State (res_Inventory res),
       p_inventoryCode := inv_Code (res_Inventory res), p_output := res_Output res,
       p_outputTruncated := bool_int (res_OutputTruncated res),
       p_certificateCount := inv_CertificateCount (res_Inventory res)\<rparr>"
  have "persist (finished res items now x) = ?r\<lparr>p_items := items\<rparr>"
    using persist_updates(4) [of now res items x] assms(3) by simp
  then have ins: "insert_results items ?r = Inr (persist (finished res items now x))"
    using f(5) by (simp add: insert_results_def)
  have i: "validateID i = None" using assms(1,4) stored_op_request by auto
  have guard: "(allowPending \<and> (\<not> terminal (res_State res) \<or> validateCode (res_Code res) True \<noteq> None
              \<or> validateInventory (res_Inventory res) True \<noteq> None \<or> validateOutput (res_Output res) \<noteq> None
              \<or> validateItems (res_Items res) \<noteq> None)) = False"
    using assms(5,7,8) by (auto simp: finish_ok_def)
  have scope: "validateResultScope (req_Items (op_Request x)) items = None" using assms(5) by (simp add: finish_ok_def)
  show ?thesis
    unfolding finish_def guard
    by (simp add: with_tx_def Let_def loadRequested_persist [OF assms(1)] ins assms(2-4) i scope
        assms(6) [symmetric] del: validateID_None)
qed

text \<open>The read-back refuses a completion stamped before the start.\<close>

lemma finish_commit:
  assumes "stored_op x" "op_State x = StateRunning" "canonical_time now" "op_ID x = i"
    and "finish_ok res items x"
    and "items = (if allowPending \<and> res_Items res = [] then uncertain_items (res_Code res) (req_Items (op_Request x))
                  else res_Items res)"
    and "allowPending \<longrightarrow> validateItems (res_Items res) = None"
    and "allowPending \<longrightarrow> validateInventory (res_Inventory res) True = None"
  shows "\<not> Before now (op_StartedAt x) \<Longrightarrow> finish True i res now allowPending (db_of (Some x)) =
       (Inr (finished res items now x), db_of (Some (finished res items now x)))"
    and "Before now (op_StartedAt x) \<Longrightarrow> \<exists>e. finish True i res now allowPending (db_of (Some x)) = (Inl e, db_of (Some x))"
  unfolding finish_unfold [OF assms]
  using finished_valid [OF assms(1,2,3,5)] by (simp_all add: commit_row with_tx_def)

lemma uncertain_items_valid:
  assumes "validateRequest q = None" "validateCode code True = None"
  shows "validateItems (uncertain_items code (req_Items q)) = None"
    and "validateResultScope (req_Items q) (uncertain_items code (req_Items q)) = None"
proof -
  have "length (req_Items q) \<le> 256" "distinct (req_Items q)" "\<forall>n \<in> set (req_Items q). validateItemName n = None"
    using assms(1) by (auto simp: validateRequest_def validate_request_items_None)
  then show "validateItems (uncertain_items code (req_Items q)) = None"
    using assms(2) by (auto simp: validateItems_None uncertain_items_def comp_def known_item_state_def)
  show "validateResultScope (req_Items q) (uncertain_items code (req_Items q)) = None"
    by (simp add: validateResultScope_def uncertain_items_def list_all2_conv_all_nth)
qed

lemma uncertain_ok:
  assumes "stored_op x" "s = StateInterrupted \<or> s = StateAmbiguous" "validateCode code True = None"
  shows "finish_ok (uncertain_result s code) (uncertain_items code (req_Items (op_Request x))) x"
  using assms uncertain_items_valid [of "op_Request x" code] stored_op_request [OF assms(1)]
  by (auto simp: finish_ok_def uncertain_result_def pending_inventory_def validateInventory_def)

definition uncertain :: "State \<Rightarrow> bytes \<Rightarrow> gotime \<Rightarrow> Operation \<Rightarrow> Operation" where
  "uncertain s code now x =
     finished (uncertain_result s code) (uncertain_items code (req_Items (op_Request x))) now x"

lemma finish_uncertain_running:
  assumes "stored_op x" "op_State x = StateRunning" "canonical_time now" "op_ID x = i"
    and "s = StateInterrupted \<or> s = StateAmbiguous" "validateCode code True = None"
  shows "\<not> Before now (op_StartedAt x) \<Longrightarrow> FinishUncertain True i s code now (db_of (Some x)) =
       (Inr (uncertain s code now x), db_of (Some (uncertain s code now x)))"
    and "Before now (op_StartedAt x) \<Longrightarrow>
       \<exists>e. FinishUncertain True i s code now (db_of (Some x)) = (Inl e, db_of (Some x))"
proof -
  have side: "uncertain_items code (req_Items (op_Request x)) =
      (if True \<and> res_Items (uncertain_result s code) = []
       then uncertain_items (res_Code (uncertain_result s code)) (req_Items (op_Request x))
       else res_Items (uncertain_result s code))"
    "True \<longrightarrow> validateItems (res_Items (uncertain_result s code)) = None"
    "True \<longrightarrow> validateInventory (res_Inventory (uncertain_result s code)) True = None"
    by (simp_all add: uncertain_result_def validateItems_def pending_inventory_def validateInventory_def)
  have s: "\<not> (s \<noteq> StateInterrupted \<and> s \<noteq> StateAmbiguous)" using assms(5) by simp
  note c = finish_commit [OF assms(1-4) uncertain_ok [OF assms(1,5,6)] side]
  show "\<not> Before now (op_StartedAt x) \<Longrightarrow> FinishUncertain True i s code now (db_of (Some x)) =
       (Inr (uncertain s code now x), db_of (Some (uncertain s code now x)))"
    using c(1) s by (simp add: FinishUncertain_def uncertain_def)
  show "Before now (op_StartedAt x) \<Longrightarrow>
       \<exists>e. FinishUncertain True i s code now (db_of (Some x)) = (Inl e, db_of (Some x))"
    using c(2) s by (simp add: FinishUncertain_def)
qed

lemma interrupt_running:
  assumes "stored_op x" "op_State x = StateRunning" "canonical_time now"
  shows "\<not> Before now (op_StartedAt x) \<Longrightarrow> InterruptRunning True now (db_of (Some x)) =
     (Inr (Some (uncertain StateInterrupted ''service_restarted'' now x)),
      db_of (Some (uncertain StateInterrupted ''service_restarted'' now x)))"
    and "Before now (op_StartedAt x) \<Longrightarrow> \<exists>e. InterruptRunning True now (db_of (Some x)) = (Inl e, db_of (Some x))"
proof -
  let ?u = "uncertain StateInterrupted ''service_restarted'' now x"
  let ?items = "uncertain_items ''service_restarted'' (req_Items (op_Request x))"
  let ?r = "(persist x)\<lparr>p_state := StateInterrupted, p_phase := PhaseNone, p_finishedAt := formatTime now,
       p_updatedAt := formatTime now, p_code := ''service_restarted'', p_mayHaveChanged := 1,
       p_inventoryState := InventoryPending, p_inventoryCode := [], p_output := [],
       p_outputTruncated := 0, p_certificateCount := None\<rparr>"
  have ok: "finish_ok (uncertain_result StateInterrupted ''service_restarted'') ?items x"
    by (rule uncertain_ok [OF assms(1)]) simp_all
  have "persist ?u = ?r\<lparr>p_items := ?items\<rparr>"
    using persist_updates(4) [of now "uncertain_result StateInterrupted ''service_restarted''" ?items x] assms(3)
    by (simp add: uncertain_def uncertain_result_def pending_inventory_def bool_int_def)
  then have ins: "insert_results ?items ?r = Inr (persist ?u)"
    using running_facts(5) [OF assms(1,2)] by (simp add: insert_results_def)
  note val = finished_valid [OF assms(1-3) ok, folded uncertain_def]
  have body: "InterruptRunning True now (db_of (Some x)) = with_tx ErrDatabase True (db_of (Some x))
      (\<lambda>db. bind_result (write_row (persist ?u) db) (\<lambda>db. bind_result (loadOperation db) (\<lambda>x. Inr (Some x, db))))"
    using assms ins by (simp add: InterruptRunning_def with_tx_def loadRequested_persist [OF assms(1)])
  show "\<not> Before now (op_StartedAt x) \<Longrightarrow> InterruptRunning True now (db_of (Some x)) = (Inr (Some ?u), db_of (Some ?u))"
    unfolding body using val schema_accepts_persist [of ?u]
    by (simp add: with_tx_def write_db_of loadOperation_db_of valid_op_def)
  show "Before now (op_StartedAt x) \<Longrightarrow> \<exists>e. InterruptRunning True now (db_of (Some x)) = (Inl e, db_of (Some x))"
    unfolding body using val by (auto simp: with_tx_def write_db_of loadOperation_db_of)
qed

lemma interrupt_not_running:
  "(\<And>y. x = Some y \<Longrightarrow> op_State y \<noteq> StateRunning) \<Longrightarrow> canonical_time now \<Longrightarrow>
   InterruptRunning True now (db_of x) = (Inr None, db_of x)"
  by (cases x) (auto simp: InterruptRunning_def with_tx_def)

subsubsection \<open>Reconciliation\<close>

definition pending :: "Operation \<Rightarrow> bool" where
  "pending x \<longleftrightarrow> (op_State x = StateInterrupted \<or> op_State x = StateAmbiguous)
     \<and> inv_State (op_Inventory x) = InventoryPending"

lemma complete_reconciliation_pending:
  assumes "stored_op x" "pending x" "canonical_time now" "op_ID x = i" "validateInventory v False = None"
    "\<not> Before now (op_FinishedAt x)"
  shows "CompleteReconciliation True i v now (db_of (Some x)) =
     (Inr (reconciled v now x), db_of (Some (reconciled v now x)))"
    and "valid_op (reconciled v now x)"
proof -
  have val: "validateOperation x = None" and rep: "representable x" using assms(1,2) by (auto simp: stored_op_def pending_def)
  have weaken: "validateInventory v True = None"
    using assms(5) by (auto simp: validateInventory_def split: InventoryState.splits option.splits)
  show v: "valid_op (reconciled v now x)"
  proof -
    have st: "op_State x = StateInterrupted \<or> op_State x = StateAmbiguous" using assms(2) by (simp add: pending_def)
    have life: "validate_lifecycle (reconciled v now x) = None"
      using val weaken st validateInventory_pending [OF assms(5)]
      by (elim disjE) (simp_all add: validateOperation_def validate_lifecycle_def reconciled_def)
    have times: "\<not> Before (op_FinishedAt x) (op_StartedAt x)" "\<not> Before (op_StartedAt x) (op_RequestedAt x)"
      using val st by (auto simp: validateOperation_def validate_lifecycle_def)
    have "representable (reconciled v now x)"
      using rep assms(3) inventory_count [OF assms(5)] by (simp add: representable_def reconciled_def)
    moreover have "validateOperation (reconciled v now x) = None"
      using val life times assms(3,6) by (simp add: validateOperation_def reconciled_def Before_def)
    ultimately show ?thesis by (simp add: valid_op_def)
  qed
  have "(persist x)\<lparr>p_inventoryState := inv_State v, p_inventoryCode := inv_Code v,
          p_certificateCount := inv_CertificateCount v, p_updatedAt := formatTime now\<rparr> = persist (reconciled v now x)"
    using persist_updates(3) [of now v x] assms(3) by simp
  moreover have "bind_result (write_row (persist (reconciled v now x)) db) load_back =
      Inr (reconciled v now x, db_of (Some (reconciled v now x)))" for db
    using v by (simp add: commit_row valid_op_def)
  ultimately show "CompleteReconciliation True i v now (db_of (Some x)) =
     (Inr (reconciled v now x), db_of (Some (reconciled v now x)))"
    using assms stored_op_request [OF assms(1)]
    by (auto simp: CompleteReconciliation_def with_tx_def pending_def)
qed

lemma complete_reconciliation_early:
  assumes "stored_op x" "pending x" "canonical_time now" "op_ID x = i" "validateInventory v False = None"
    "Before now (op_FinishedAt x)"
  shows "\<exists>e. CompleteReconciliation True i v now (db_of (Some x)) = (Inl e, db_of (Some x))"
proof -
  have rep: "representable (reconciled v now x)"
    using assms(1,3) inventory_count [OF assms(5)] by (simp add: stored_op_def representable_def reconciled_def)
  have "\<not> IsZero (op_FinishedAt x)"
    using assms(3,6) by (auto simp: Before_def IsZero_def canonical_time_def)
  then have "validateOperation (reconciled v now x) \<noteq> None"
    using assms(6) by (simp add: validateOperation_def reconciled_def)
  then have e: "\<exists>e. bind_result (write_row (persist (reconciled v now x)) db) load_back = Inl e" for db
    by (simp add: commit_row [OF rep])
  have p: "(persist x)\<lparr>p_inventoryState := inv_State v, p_inventoryCode := inv_Code v,
          p_certificateCount := inv_CertificateCount v, p_updatedAt := formatTime now\<rparr> = persist (reconciled v now x)"
    using persist_updates(3) [of now v x] assms(3) by simp
  have "CompleteReconciliation True i v now (db_of (Some x)) = with_tx ErrDatabase True (db_of (Some x))
      (\<lambda>db. bind_result (write_row (persist (reconciled v now x)) db) load_back)"
    using assms p stored_op_request [OF assms(1)]
    by (auto simp: CompleteReconciliation_def with_tx_def pending_def)
  then show ?thesis using e [of "db_of (Some x)"] by (auto simp: with_tx_def)
qed

end
