(* ===== verification/Jobs_Lifecycle.thy ===== *)
theory Jobs_Lifecycle
  imports Jobs_Refine
begin

text \<open>
  The contract of the operation store and what follows from it for every interleaving of
  requests, the worker and restarts.  The locale \<open>operation_store\<close> states what a successful
  transaction did to the one operation; its lemmas say that the lifecycle only moves forward
  and that accepted work is neither lost nor replaced before it is settled.  The
  interpretation discharges the contract for the transactions of \<open>Jobs_Store\<close>.
\<close>

subsection \<open>Lifecycle rank\<close>

definition settled :: "Operation \<Rightarrow> bool" where
  "settled x \<longleftrightarrow> terminal (op_State x) \<and> inv_State (op_Inventory x) \<noteq> InventoryPending"

definition rank :: "Operation \<Rightarrow> nat" where
  "rank x =
     (if settled x then 5
      else if terminal (op_State x) then 4
      else if op_State x = StateRunning then
        (case op_Phase x of PhaseRefreshingInventory \<Rightarrow> 3 | PhaseExecuting \<Rightarrow> 2 | _ \<Rightarrow> 1)
      else 0)"

definition same_work :: "Operation \<Rightarrow> Operation \<Rightarrow> bool" where
  "same_work x y \<longleftrightarrow> op_ID x = op_ID y \<and> op_Kind x = op_Kind y \<and> op_Request x = op_Request y
     \<and> op_RequestedAt x = op_RequestedAt y"

lemma same_work_refl [simp]: "same_work x x"
  and same_work_trans: "same_work x y \<Longrightarrow> same_work y z \<Longrightarrow> same_work x z"
  by (simp_all add: same_work_def)

lemma rank_settled: "rank x = 5 \<longleftrightarrow> settled x"
  by (auto simp: rank_def split: Phase.splits)

lemma rank_le: "rank x \<le> 5"
  by (auto simp: rank_def split: Phase.splits)

lemma rank_claimed: "op_State x = StateQueued \<Longrightarrow> rank x < rank (claimed t x)"
  by (simp add: rank_def claimed_def settled_def)

lemma rank_phased:
  "op_State x = StateRunning \<Longrightarrow> validPhaseTransition (op_Phase x) ph \<Longrightarrow> rank x < rank (phased ph t x)"
  by (cases "op_Phase x") (auto simp: rank_def phased_def settled_def)

lemma rank_finished:
  "op_State x = StateRunning \<Longrightarrow> terminal (res_State res) \<Longrightarrow> rank x < rank (finished res items t x)"
  by (auto simp: rank_def finished_def settled_def split: Phase.splits)

lemma rank_reconciled: "pending x \<Longrightarrow> validateInventory v False = None \<Longrightarrow> rank x < rank (reconciled v t x)"
  by (auto simp: rank_def reconciled_def settled_def pending_def validateInventory_def)

subsection \<open>The interface\<close>

locale operation_store =
  fixes view :: "'db \<Rightarrow> Operation option"
    and ok :: "'db \<Rightarrow> bool"
    and enqueue :: "bool \<Rightarrow> bytes \<Rightarrow> Kind \<Rightarrow> Request \<Rightarrow> gotime \<Rightarrow> 'db \<Rightarrow> (jobs_error, Operation) result \<times> 'db"
    and claim :: "bool \<Rightarrow> gotime \<Rightarrow> 'db \<Rightarrow> (jobs_error, Operation) result \<times> 'db"
    and update_phase :: "bool \<Rightarrow> bytes \<Rightarrow> Phase \<Rightarrow> gotime \<Rightarrow> 'db \<Rightarrow> (jobs_error, unit) result \<times> 'db"
    and finish_op :: "bool \<Rightarrow> bytes \<Rightarrow> Result \<Rightarrow> gotime \<Rightarrow> 'db \<Rightarrow> (jobs_error, Operation) result \<times> 'db"
    and finish_uncertain :: "bool \<Rightarrow> bytes \<Rightarrow> State \<Rightarrow> bytes \<Rightarrow> gotime \<Rightarrow> 'db \<Rightarrow> (jobs_error, Operation) result \<times> 'db"
    and interrupt :: "bool \<Rightarrow> gotime \<Rightarrow> 'db \<Rightarrow> (jobs_error, Operation option) result \<times> 'db"
    and complete :: "bool \<Rightarrow> bytes \<Rightarrow> InventoryResult \<Rightarrow> gotime \<Rightarrow> 'db \<Rightarrow> (jobs_error, Operation) result \<times> 'db"
  assumes enqueue_law: "ok db \<Longrightarrow> enqueue b i k q t db = (r, db') \<Longrightarrow>
      (\<exists>e. r = Inl e \<and> db' = db) \<or>
      ok db' \<and> r = Inr (queued_op i k q t) \<and> view db' = Some (queued_op i k q t)
        \<and> (\<forall>x. view db = Some x \<longrightarrow> settled x)"
    and claim_law: "ok db \<Longrightarrow> claim b t db = (r, db') \<Longrightarrow>
      (\<exists>e. r = Inl e \<and> db' = db) \<or>
      (\<exists>x. ok db' \<and> view db = Some x \<and> op_State x = StateQueued \<and> r = Inr (claimed t x)
           \<and> view db' = Some (claimed t x))"
    and phase_law: "ok db \<Longrightarrow> update_phase b i ph t db = (u, db') \<Longrightarrow>
      (\<exists>e. u = Inl e \<and> db' = db) \<or>
      (\<exists>x. ok db' \<and> view db = Some x \<and> op_ID x = i \<and> op_State x = StateRunning
           \<and> validPhaseTransition (op_Phase x) ph \<and> view db' = Some (phased ph t x))"
    and finish_law: "ok db \<Longrightarrow> finish_op b i res t db = (r, db') \<Longrightarrow>
      (\<exists>e. r = Inl e \<and> db' = db) \<or>
      (\<exists>x. ok db' \<and> view db = Some x \<and> op_ID x = i \<and> op_State x = StateRunning
           \<and> validateExecutorResult res = None \<and> map it_Name (res_Items res) = req_Items (op_Request x)
           \<and> r = Inr (finished res (res_Items res) t x) \<and> view db' = Some (finished res (res_Items res) t x))"
    and uncertain_law: "ok db \<Longrightarrow> finish_uncertain b i s c t db = (r, db') \<Longrightarrow>
      (\<exists>e. r = Inl e \<and> db' = db) \<or>
      (\<exists>x. ok db' \<and> view db = Some x \<and> op_ID x = i \<and> op_State x = StateRunning
           \<and> (s = StateInterrupted \<or> s = StateAmbiguous)
           \<and> r = Inr (uncertain s c t x) \<and> view db' = Some (uncertain s c t x))"
    and interrupt_law: "ok db \<Longrightarrow> interrupt b t db = (ro, db') \<Longrightarrow>
      (\<exists>e. ro = Inl e \<and> db' = db) \<or> (ro = Inr None \<and> db' = db \<and> (\<forall>x. view db = Some x \<longrightarrow> op_State x \<noteq> StateRunning)) \<or>
      (\<exists>x. ok db' \<and> view db = Some x \<and> op_State x = StateRunning
           \<and> ro = Inr (Some (uncertain StateInterrupted ''service_restarted'' t x))
           \<and> view db' = Some (uncertain StateInterrupted ''service_restarted'' t x))"
    and complete_law: "ok db \<Longrightarrow> complete b i v t db = (r, db') \<Longrightarrow>
      (\<exists>e. r = Inl e \<and> db' = db) \<or>
      (\<exists>x. ok db' \<and> view db = Some x \<and> op_ID x = i \<and> pending x \<and> validateInventory v False = None
           \<and> r = Inr (reconciled v t x) \<and> view db' = Some (reconciled v t x))"
begin

text \<open>One transaction by anyone: the next database, or the same one.\<close>

inductive step :: "'db \<Rightarrow> 'db \<Rightarrow> bool" where
  enqueue: "step db (snd (enqueue b i k q t db))"
| claim: "step db (snd (claim b t db))"
| phase: "step db (snd (update_phase b i ph t db))"
| finish: "step db (snd (finish_op b i res t db))"
| uncertain: "step db (snd (finish_uncertain b i s c t db))"
| interrupt: "step db (snd (interrupt b t db))"
| complete: "step db (snd (complete b i v t db))"

text \<open>A transaction on unsettled work keeps it and moves it forward, or does nothing.\<close>

lemma step_forward:
  assumes "ok db" "step db db'" "view db = Some x" "\<not> settled x"
  shows "db' = db \<or> (\<exists>y. ok db' \<and> view db' = Some y \<and> same_work x y \<and> rank x < rank y)"
  using assms(2)
proof cases
  case (enqueue b i k q t)
  with enqueue_law [OF assms(1), of b i k q t "fst (enqueue b i k q t db)" db'] assms(3,4) show ?thesis by auto
next
  case (claim b t)
  with claim_law [OF assms(1), of b t "fst (claim b t db)" db'] assms(3) rank_claimed [of x t]
  show ?thesis by (auto simp: same_work_def claimed_def)
next
  case (phase b i ph t)
  with phase_law [OF assms(1), of b i ph t "fst (update_phase b i ph t db)" db'] assms(3) rank_phased [of x ph t]
  show ?thesis by (auto simp: same_work_def phased_def)
next
  case (finish b i res t)
  with finish_law [OF assms(1), of b i res t "fst (finish_op b i res t db)" db'] assms(3)
    rank_finished [of x res "res_Items res" t]
  show ?thesis by (auto simp: same_work_def finished_def validateExecutorResult_def)
next
  case (uncertain b i s c t)
  with uncertain_law [OF assms(1), of b i s c t "fst (finish_uncertain b i s c t db)" db'] assms(3)
    rank_finished [of x "uncertain_result s c" "uncertain_items c (req_Items (op_Request x))" t]
  show ?thesis by (auto simp: same_work_def finished_def Jobs_Refine.uncertain_def uncertain_result_def)
next
  case (interrupt b t)
  with interrupt_law [OF assms(1), of b t "fst (interrupt b t db)" db'] assms(3)
    rank_finished [of x "uncertain_result StateInterrupted ''service_restarted''"
      "uncertain_items ''service_restarted'' (req_Items (op_Request x))" t]
  show ?thesis by (auto simp: same_work_def finished_def Jobs_Refine.uncertain_def uncertain_result_def)
next
  case (complete b i v t)
  with complete_law [OF assms(1), of b i v t "fst (complete b i v t db)" db'] assms(3) rank_reconciled [of x v t]
  show ?thesis by (auto simp: same_work_def reconciled_def)
qed

lemma step_ok:
  assumes "ok db" "step db db'"
  shows "ok db'"
  using assms(2)
proof cases
  case (enqueue b i k q t)
  with enqueue_law [OF assms(1), of b i k q t "fst (enqueue b i k q t db)" db'] assms(1) show ?thesis by auto
next
  case (claim b t)
  with claim_law [OF assms(1), of b t "fst (claim b t db)" db'] assms(1) show ?thesis by auto
next
  case (phase b i ph t)
  with phase_law [OF assms(1), of b i ph t "fst (update_phase b i ph t db)" db'] assms(1) show ?thesis by auto
next
  case (finish b i res t)
  with finish_law [OF assms(1), of b i res t "fst (finish_op b i res t db)" db'] assms(1) show ?thesis by auto
next
  case (uncertain b i s c t)
  with uncertain_law [OF assms(1), of b i s c t "fst (finish_uncertain b i s c t db)" db'] assms(1) show ?thesis by auto
next
  case (interrupt b t)
  with interrupt_law [OF assms(1), of b t "fst (interrupt b t db)" db'] assms(1) show ?thesis by auto
next
  case (complete b i v t)
  with complete_law [OF assms(1), of b i v t "fst (complete b i v t db)" db'] assms(1) show ?thesis by auto
qed

lemma run_ok: "step\<^sup>*\<^sup>* db db' \<Longrightarrow> ok db \<Longrightarrow> ok db'"
  by (induction rule: rtranclp_induct) (auto intro: step_ok)

text \<open>Over any run, accepted work is still there and no earlier in its lifecycle, or the run
  passed a state in which it was settled.\<close>

lemma run_keeps_work:
  assumes "step\<^sup>*\<^sup>* db db'" "ok db" "view db = Some x"
  shows "(\<exists>y. view db' = Some y \<and> same_work x y \<and> rank x \<le> rank y) \<or>
         (\<exists>d y. step\<^sup>*\<^sup>* db d \<and> step\<^sup>*\<^sup>* d db' \<and> view d = Some y \<and> same_work x y \<and> settled y)"
  using assms(1)
proof (induction rule: rtranclp_induct)
  case base
  then show ?case using assms(3) by auto
next
  case (step d d')
  from step.IH show ?case
  proof (elim disjE exE conjE)
    fix y assume y: "view d = Some y" "same_work x y" "rank x \<le> rank y"
    show ?case
    proof (cases "settled y")
      case True
      with y step.hyps show ?thesis by (meson r_into_rtranclp)
    next
      case False
      with step_forward [OF run_ok [OF step.hyps(1) assms(2)] step.hyps(2) y(1)] y show ?thesis
        by (auto dest: same_work_trans)
    qed
  qed (use step.hyps in \<open>meson rtranclp.rtrancl_into_rtrancl\<close>)
qed

lemma claim_exclusive:
  assumes "ok db" "claim b t db = (Inr x, db')" "claim b' t' db' = (r, db'')"
  shows "\<exists>e. r = Inl e \<and> db'' = db'"
proof -
  from claim_law [OF assms(1,2)] obtain y where y: "ok db'" "view db' = Some (claimed t y)" by auto
  with claim_law [OF y(1) assms(3)] show ?thesis by (auto simp: claimed_def)
qed

end

subsection \<open>The store of \<open>internal/jobs\<close> keeps the contract\<close>

text \<open>The operation a row stands for, before validation.\<close>

definition time_of :: "bytes \<Rightarrow> gotime" where
  "time_of s = (case parseTime s False of Inr t \<Rightarrow> t | Inl _ \<Rightarrow> zero_time)"

definition row_view :: "persistedOperation \<Rightarrow> Operation" where
  "row_view r = row_operation r (time_of (p_requestedAt r)) (time_of (p_startedAt r)) (time_of (p_finishedAt r))
     (time_of (p_updatedAt r)) (p_mayHaveChanged r = 1) (p_outputTruncated r = 1)"

definition db_view :: "jobs_db \<Rightarrow> Operation option" where
  "db_view db = map_option row_view (latest db)"

lemma row_view_persist: "representable x \<Longrightarrow> row_view (persist x) = x"
proof -
  assume rep: "representable x"
  have "time_of (p_requestedAt (persist x)) = op_RequestedAt x" "time_of (p_updatedAt (persist x)) = op_UpdatedAt x"
    "time_of (p_startedAt (persist x)) = op_StartedAt x" "time_of (p_finishedAt (persist x)) = op_FinishedAt x"
    using rep parse_time_text by (auto simp: persist_def time_of_def representable_def)
  moreover have "(p_mayHaveChanged (persist x) = 1) = op_MayHaveChanged x" "(p_outputTruncated (persist x) = 1) = op_OutputTruncated x"
    by (simp_all add: persist_def bool_int_def)
  ultimately show ?thesis
    using row_operation_persist [of x] rep by (simp add: row_view_def representable_def)
qed

lemma db_view_of [simp]: "stored_op x \<Longrightarrow> db_view (db_of (Some x)) = Some x" "db_view (db_of None) = None"
  by (simp_all add: db_view_def row_view_persist stored_op_def)

lemma db_ok_cases:
  assumes "db_ok db"
  obtains (none) "db = db_of None" | (some) x where "db = db_of (Some x)" "stored_op x"
proof -
  from assms obtain x where x: "db = db_of x" "case x of None \<Rightarrow> True | Some y \<Rightarrow> stored_op y"
    by (auto simp: db_ok_def)
  then show thesis using that by (cases x) auto
qed

lemma db_ok_of [simp]: "db_ok (db_of None)" "stored_op x \<Longrightarrow> db_ok (db_of (Some x))"
  by (auto simp: db_ok_def)

lemma valid_stored: "valid_op x \<Longrightarrow> stored_op x"
  by (simp add: valid_op_def stored_op_def)

lemma not_carried_out:
  "\<exists>e. EnqueueKind False i k q t db = (Inl e, db)" "\<exists>e. Claim False t db = (Inl e, db)"
  "\<exists>e. UpdatePhase False i ph t db = (Inl e, db)" "\<exists>e. Finish False i res t db = (Inl e, db)"
  "\<exists>e. FinishUncertain False i s c t db = (Inl e, db)" "\<exists>e. InterruptRunning False t db = (Inl e, db)"
  "\<exists>e. CompleteReconciliation False i v t db = (Inl e, db)"
  by (simp_all add: EnqueueKind_def Claim_def UpdatePhase_def Finish_def FinishUncertain_def finish_def
      InterruptRunning_def CompleteReconciliation_def with_tx_def split: sum.split prod.split)

lemma invalid_arguments:
  "\<not> canonical_time t \<Longrightarrow> \<exists>e. EnqueueKind b i k q t db = (Inl e, db)"
  "\<not> canonical_time t \<Longrightarrow> \<exists>e. Claim b t db = (Inl e, db)"
  "\<not> canonical_time t \<Longrightarrow> \<exists>e. UpdatePhase b i ph t db = (Inl e, db)"
  "\<not> canonical_time t \<Longrightarrow> \<exists>e. Finish b i res t db = (Inl e, db)"
  "\<not> canonical_time t \<Longrightarrow> \<exists>e. FinishUncertain b i s c t db = (Inl e, db)"
  "\<not> canonical_time t \<Longrightarrow> \<exists>e. InterruptRunning b t db = (Inl e, db)"
  "\<not> canonical_time t \<Longrightarrow> \<exists>e. CompleteReconciliation b i v t db = (Inl e, db)"
  by (simp_all add: EnqueueKind_def Claim_def UpdatePhase_def Finish_def FinishUncertain_def finish_def
      InterruptRunning_def CompleteReconciliation_def)

lemma enqueue_outcome:
  assumes "db_ok db" "EnqueueKind b i k q t db = (r, db')"
  shows "(\<exists>e. r = Inl e \<and> db' = db) \<or>
      db_ok db' \<and> r = Inr (queued_op i k q t) \<and> db_view db' = Some (queued_op i k q t)
        \<and> (\<forall>x. db_view db = Some x \<longrightarrow> settled x)"
proof (cases "b \<and> canonical_hex 32 i \<and> (k = KindManual \<or> k = KindScheduled) \<and> validateRequest q = None \<and> canonical_time t")
  case False
  then have "\<exists>e. EnqueueKind b i k q t db = (Inl e, db)"
    using not_carried_out(1) [of i k q t db] by (cases b) (auto simp: EnqueueKind_def)
  with assms(2) show ?thesis by auto
next
  case True
  from assms(1) show ?thesis
  proof (cases rule: db_ok_cases)
    case none
    with True assms(2) enqueue_none [of i k q t None] show ?thesis by (auto dest: valid_stored)
  next
    case (some x)
    show ?thesis
    proof (cases "active (op_State x) \<or> inv_State (op_Inventory x) = InventoryPending")
      case True
      with some assms(2) enqueue_active [of x b i k q t] show ?thesis by auto
    next
      case False
      then have "settled x"
        using some(2) lifecycle_columns(5) [of x]
        by (auto simp: settled_def active_def stored_op_def validateOperation_def)
      with True False some assms(2) enqueue_none [of i k q t "Some x"] show ?thesis
        by (auto dest: valid_stored)
    qed
  qed
qed

lemma claim_outcome:
  assumes "db_ok db" "Claim b t db = (r, db')"
  shows "(\<exists>e. r = Inl e \<and> db' = db) \<or>
      (\<exists>x. db_ok db' \<and> db_view db = Some x \<and> op_State x = StateQueued \<and> r = Inr (claimed t x)
           \<and> db_view db' = Some (claimed t x))"
proof (cases "b \<and> canonical_time t")
  case False
  with assms(2) not_carried_out(2) [of t db] invalid_arguments(2) [of t b db] show ?thesis by (cases b) auto
next
  case True
  from assms(1) show ?thesis
  proof (cases rule: db_ok_cases)
    case none
    with True assms(2) claim_not_queued [of None t] show ?thesis by auto
  next
    case (some x)
    show ?thesis
    proof (cases "op_State x = StateQueued")
      case True
      with \<open>b \<and> canonical_time t\<close> some assms(2) claim_queued [OF some(2) True, of t] show ?thesis
        by (auto split: if_splits dest: valid_stored)
    next
      case False
      with True some assms(2) claim_not_queued [of "Some x" t] show ?thesis by auto
    qed
  qed
qed

lemma phase_outcome:
  assumes "db_ok db" "UpdatePhase b i ph t db = (u, db')"
  shows "(\<exists>e. u = Inl e \<and> db' = db) \<or>
      (\<exists>x. db_ok db' \<and> db_view db = Some x \<and> op_ID x = i \<and> op_State x = StateRunning
           \<and> validPhaseTransition (op_Phase x) ph \<and> db_view db' = Some (phased ph t x))"
proof (cases "b \<and> canonical_time t")
  case False
  with assms(2) not_carried_out(3) [of i ph t db] invalid_arguments(3) [of t b i ph db] show ?thesis by (cases b) auto
next
  case True
  from assms(1) show ?thesis
  proof (cases rule: db_ok_cases)
    case none
    with assms(2) update_phase_refused [of None i ph b t] show ?thesis by auto
  next
    case (some x)
    show ?thesis
    proof (cases "op_ID x = i \<and> op_State x = StateRunning \<and> validPhaseTransition (op_Phase x) ph")
      case c: True
      with True some assms(2) update_phase_running [OF some(2), of t i ph] phased_stored(1) [OF some(2), of t ph]
      show ?thesis by auto
    next
      case False
      with some assms(2) update_phase_refused [of "Some x" i ph b t] show ?thesis by auto
    qed
  qed
qed

lemma scope_names: "validateResultScope ns xs = None \<longleftrightarrow> map it_Name xs = ns"
  by (auto simp: validateResultScope_def list_all2_conv_all_nth list_eq_iff_nth_eq)

lemma finish_refused:
  assumes "\<And>x. y = Some x \<Longrightarrow> stored_op x"
    and "\<And>x. y = Some x \<Longrightarrow> op_ID x \<noteq> i \<or> op_State x \<noteq> StateRunning
          \<or> \<not> allowPending \<and> validateResultScope (req_Items (op_Request x)) (res_Items res) \<noteq> None"
  shows "\<exists>e. finish b i res t allowPending (db_of y) = (Inl e, db_of y)"
  using assms
  by (cases y) (auto simp: finish_def with_tx_def Let_def loadRequested_persist)

lemma finish_outcome:
  assumes "db_ok db" "Finish b i res t db = (r, db')"
  shows "(\<exists>e. r = Inl e \<and> db' = db) \<or>
      (\<exists>x. db_ok db' \<and> db_view db = Some x \<and> op_ID x = i \<and> op_State x = StateRunning
           \<and> validateExecutorResult res = None \<and> map it_Name (res_Items res) = req_Items (op_Request x)
           \<and> r = Inr (finished res (res_Items res) t x) \<and> db_view db' = Some (finished res (res_Items res) t x))"
proof (cases "b \<and> canonical_time t \<and> validateExecutorResult res = None")
  case False
  with assms(2) not_carried_out(4) [of i res t db] invalid_arguments(4) [of t b i res db] show ?thesis
    by (cases b) (auto simp: Finish_def)
next
  case True
  then have f: "Finish b i res t db = finish True i res t False db" and res: "validateExecutorResult res = None"
    by (simp_all add: Finish_def)
  from assms(1) show ?thesis
  proof (cases rule: db_ok_cases)
    case none
    with assms(2) f finish_refused [of None i False res True t] show ?thesis by auto
  next
    case (some x)
    show ?thesis
    proof (cases "op_ID x = i \<and> op_State x = StateRunning \<and> validateResultScope (req_Items (op_Request x)) (res_Items res) = None")
      case False
      with some assms(2) f finish_refused [of "Some x" i False res True t] show ?thesis by auto
    next
      case c: True
      have "validateInventory (res_Inventory res) p = None" for p
        using res by (auto simp: validateExecutorResult_def validateInventory_def split: InventoryState.splits option.splits)
      then have ok: "finish_ok res (res_Items res) x"
        using res c by (auto simp: finish_ok_def validateExecutorResult_def)
      have run: "op_State x = StateRunning" and i: "op_ID x = i" and t: "canonical_time t" using c True by auto
      note commit = finish_commit [OF some(2) run t i ok, of False] and valid = finished_valid [OF some(2) run t ok]
      show ?thesis
      proof (cases "Before t (op_StartedAt x)")
        case True
        with commit(2) assms(2) f some show ?thesis by auto
      next
        case False
        with commit(1) valid have "stored_op (finished res (res_Items res) t x)"
          by (simp add: valid_op_def valid_stored)
        with False commit(1) assms(2) f some run i res c show ?thesis by (auto simp: scope_names)
      qed
    qed
  qed
qed


lemma uncertain_outcome:
  assumes "db_ok db" "FinishUncertain b i s c t db = (r, db')"
  shows "(\<exists>e. r = Inl e \<and> db' = db) \<or>
      (\<exists>x. db_ok db' \<and> db_view db = Some x \<and> op_ID x = i \<and> op_State x = StateRunning
           \<and> (s = StateInterrupted \<or> s = StateAmbiguous)
           \<and> r = Inr (uncertain s c t x) \<and> db_view db' = Some (uncertain s c t x))"
proof (cases "b \<and> canonical_time t \<and> (s = StateInterrupted \<or> s = StateAmbiguous) \<and> validateCode c True = None")
  case False
  have "\<exists>e. FinishUncertain b i s c t db = (Inl e, db)" if "validateCode c True \<noteq> None"
    using that by (simp add: FinishUncertain_def finish_def uncertain_result_def)
  with False assms(2) not_carried_out(5) [of i s c t db] invalid_arguments(5) [of t b i s c db] show ?thesis
    by (cases b) (auto simp: FinishUncertain_def)
next
  case True
  then have f: "FinishUncertain b i s c t db = finish True i (uncertain_result s c) t True db" 
    by (auto simp: FinishUncertain_def)
  from assms(1) show ?thesis
  proof (cases rule: db_ok_cases)
    case none
    with assms(2) f finish_refused [of None i True "uncertain_result s c" True t] show ?thesis by auto
  next
    case (some x)
    show ?thesis
    proof (cases "op_ID x = i \<and> op_State x = StateRunning")
      case False
      with some assms(2) f finish_refused [of "Some x" i True "uncertain_result s c" True t] show ?thesis by auto
    next
      case c: True
      have run: "op_State x = StateRunning" and i: "op_ID x = i" and t: "canonical_time t"
        and s: "s = StateInterrupted \<or> s = StateAmbiguous" and v: "validateCode c True = None" using c True by auto
      note commit = finish_uncertain_running [OF some(2) run t i s v]
      show ?thesis
      proof (cases "Before t (op_StartedAt x)")
        case before: True
        with commit(2) assms(2) some True show ?thesis by auto
      next
        case False
        then have "stored_op (uncertain s c t x)"
          using finished_valid [OF some(2) run t uncertain_ok [OF some(2) s v]]
          by (simp add: valid_op_def valid_stored uncertain_def)
        with False commit(1) assms(2) True some run i s show ?thesis by auto
      qed
    qed
  qed
qed

lemma interrupt_outcome:
  assumes "db_ok db" "InterruptRunning b t db = (ro, db')"
  shows "(\<exists>e. ro = Inl e \<and> db' = db) \<or>
      (ro = Inr None \<and> db' = db \<and> (\<forall>x. db_view db = Some x \<longrightarrow> op_State x \<noteq> StateRunning)) \<or>
      (\<exists>x. db_ok db' \<and> db_view db = Some x \<and> op_State x = StateRunning
           \<and> ro = Inr (Some (uncertain StateInterrupted ''service_restarted'' t x))
           \<and> db_view db' = Some (uncertain StateInterrupted ''service_restarted'' t x))"
proof (cases "b \<and> canonical_time t")
  case False
  with assms(2) not_carried_out(6) [of t db] invalid_arguments(6) [of t b db] show ?thesis by (cases b) auto
next
  case True
  from assms(1) show ?thesis
  proof (cases rule: db_ok_cases)
    case none
    with True assms(2) interrupt_not_running [of None t] show ?thesis by auto
  next
    case (some x)
    show ?thesis
    proof (cases "op_State x = StateRunning")
      case False
      with True some assms(2) interrupt_not_running [of "Some x" t] show ?thesis by auto
    next
      case run: True
      have t: "canonical_time t" using True by simp
      show ?thesis
      proof (cases "Before t (op_StartedAt x)")
        case before: True
        with interrupt_running(2) [OF some(2) run t] assms(2) some True show ?thesis by auto
      next
        case False
        then have "stored_op (uncertain StateInterrupted ''service_restarted'' t x)"
          using finished_valid [OF some(2) run t uncertain_ok [OF some(2), of StateInterrupted "''service_restarted''"]]
          by (simp add: valid_op_def valid_stored uncertain_def)
        with False interrupt_running(1) [OF some(2) run t] assms(2) True some run show ?thesis by auto
      qed
    qed
  qed
qed

lemma complete_outcome:
  assumes "db_ok db" "CompleteReconciliation b i v t db = (r, db')"
  shows "(\<exists>e. r = Inl e \<and> db' = db) \<or>
      (\<exists>x. db_ok db' \<and> db_view db = Some x \<and> op_ID x = i \<and> pending x \<and> validateInventory v False = None
           \<and> r = Inr (reconciled v t x) \<and> db_view db' = Some (reconciled v t x))"
proof (cases "b \<and> canonical_time t \<and> validateInventory v False = None")
  case False
  with assms(2) not_carried_out(7) [of i v t db] invalid_arguments(7) [of t b i v db] show ?thesis
    by (cases b) (auto simp: CompleteReconciliation_def)
next
  case True
  from assms(1) show ?thesis
  proof (cases rule: db_ok_cases)
    case none
    with assms(2) show ?thesis by (auto simp: CompleteReconciliation_def with_tx_def split: if_splits)
  next
    case (some x)
    show ?thesis
    proof (cases "op_ID x = i \<and> pending x")
      case False
      with some assms(2) show ?thesis
        by (auto simp: CompleteReconciliation_def with_tx_def pending_def split: if_splits)
    next
      case c: True
      have p: "pending x" and i: "op_ID x = i" and t: "canonical_time t" and v: "validateInventory v False = None"
        using c True by auto
      show ?thesis
      proof (cases "Before t (op_FinishedAt x)")
        case before: True
        with complete_reconciliation_early [OF some(2) p t i v] assms(2) some True show ?thesis by auto
      next
        case False
        with complete_reconciliation_pending [OF some(2) p t i v] assms(2) True some p i v show ?thesis
          by (auto dest: valid_stored)
      qed
    qed
  qed
qed

interpretation os: operation_store db_view db_ok EnqueueKind Claim UpdatePhase Finish FinishUncertain
  InterruptRunning CompleteReconciliation
  by unfold_locales
    (erule (1) enqueue_outcome, erule (1) claim_outcome, erule (1) phase_outcome, erule (1) finish_outcome,
      erule (1) uncertain_outcome, erule (1) interrupt_outcome, erule (1) complete_outcome)

text \<open>A transaction of anyone (a request, the worker, start-up recovery) on the database.\<close>

inductive store_step :: "jobs_db \<Rightarrow> jobs_db \<Rightarrow> bool" where
  enqueue: "store_step db (snd (EnqueueKind b i k q t db))"
| claim: "store_step db (snd (Claim b t db))"
| phase: "store_step db (snd (UpdatePhase b i ph t db))"
| finish: "store_step db (snd (Finish b i res t db))"
| uncertain: "store_step db (snd (FinishUncertain b i s c t db))"
| interrupt: "store_step db (snd (InterruptRunning b t db))"
| complete: "store_step db (snd (CompleteReconciliation b i v t db))"

lemma store_step_is: "store_step = os.step"
proof (intro ext iffI)
  show "os.step db db'" if "store_step db db'" for db db'
    using that by cases (simp_all only: os.step.intros)
  show "store_step db db'" if "os.step db db'" for db db'
    using that by cases (simp_all only: store_step.intros)
qed

end
