(* ===== verification/Jobs_Worker.thy ===== *)
theory Jobs_Worker
  imports Jobs_Lifecycle
begin

text \<open>
  The in-process worker (\<open>internal/jobs/worker.go\<close>).  The executor the worker calls is an
  interaction tree: it reports phases, sees the reporter's answer, and returns a result or
  panics.  The clock readings, the database's readiness for the n-th transaction and the
  executor are the dependencies of the service, numbered by the transactions so far.  The
  theory shows that every state the worker passes through is reached by transactions of the
  store, that a claimed operation is settled whatever the executor does, and that recovery
  leaves nothing running or unreconciled.
\<close>

subsection \<open>Service state and dependencies\<close>

datatype executor_run =
    Returns Result
  | Panics
  | Reports Phase "jobs_error option \<Rightarrow> executor_run"

record Executor =
  d_Execute :: "nat \<Rightarrow> bytes \<Rightarrow> Request \<Rightarrow> executor_run"
  d_Reconcile :: "nat \<Rightarrow> bytes \<Rightarrow> InventoryResult option"
  d_now :: "nat \<Rightarrow> gotime"
  d_carried :: "nat \<Rightarrow> bool"

record Service =
  s_db :: jobs_db
  s_tick :: nat
  s_wake :: bool
  s_ready :: bool
  s_running :: bool
  s_interruptedOnStart :: bool

definition empty_result :: Result where
  "empty_result =
     \<lparr>res_State = StateOther [], res_Code = [], res_MayHaveChanged = False,
      res_Inventory = \<lparr>inv_State = InventoryOther [], inv_Code = [], inv_CertificateCount = None\<rparr>,
      res_Output = [], res_OutputTruncated = False, res_Items = []\<rparr>"

text \<open>One call into the store: the database's answer and \<open>service.instant()\<close> of this moment.\<close>

definition transact ::
  "Executor \<Rightarrow> (bool \<Rightarrow> gotime \<Rightarrow> jobs_db \<Rightarrow> 'a \<times> jobs_db) \<Rightarrow> Service \<Rightarrow> 'a \<times> Service" where
  "transact d f s =
     (case f (d_carried d (s_tick s)) (instant (d_now d (s_tick s))) (s_db s) of
        (a, db) \<Rightarrow> (a, s\<lparr>s_db := db, s_tick := Suc (s_tick s)\<rparr>))"

subsection \<open>Requests and projections\<close>

definition enqueue ::
  "Executor \<Rightarrow> bytes option \<Rightarrow> Kind \<Rightarrow> Request \<Rightarrow> Service \<Rightarrow> (jobs_error, Operation) result \<times> Service" where
  "enqueue d raw kind request s =
     (case raw of
        None \<Rightarrow> (Inl ErrIdentifier, s)
      | Some id16 \<Rightarrow>
          (case transact d (\<lambda>ok now. EnqueueKind ok (hex_encode id16) kind request now) s of
             (Inl e, s') \<Rightarrow> (Inl e, s')
           | (Inr x, s') \<Rightarrow> (Inr x, s'\<lparr>s_wake := True\<rparr>)))"

definition synthetic_running :: "Operation \<Rightarrow> Operation" where
  "synthetic_running x =
     \<lparr>op_ID = op_ID x, op_Kind = op_Kind x, op_State = StateRunning, op_Phase = PhaseRefreshingInventory,
      op_RequestedAt = op_RequestedAt x, op_StartedAt = op_StartedAt x, op_FinishedAt = zero_time,
      op_UpdatedAt = op_UpdatedAt x, op_Code = [], op_MayHaveChanged = False,
      op_Inventory = pending_inventory, op_Output = [], op_OutputTruncated = False, op_Items = [],
      op_Request = empty_request\<rparr>"

definition service_Status :: "bool \<Rightarrow> Service \<Rightarrow> (jobs_error, Operation) result" where
  "service_Status ok s =
     bind_result (Latest ok (s_db s)) (\<lambda>x.
       if active (op_State x) then Inr x
       else if terminal (op_State x) \<and> inv_State (op_Inventory x) = InventoryPending
       then Inr (synthetic_running x) else Inl ErrNotFound)"

definition service_Latest :: "bool \<Rightarrow> Service \<Rightarrow> (jobs_error, Operation) result" where
  "service_Latest ok s =
     bind_result (Latest ok (s_db s)) (\<lambda>x.
       if \<not> terminal (op_State x) \<or> inv_State (op_Inventory x) = InventoryPending
       then Inl ErrNotFound else Inr x)"

subsection \<open>Reconciliation\<close>

definition failed_reconciliation :: InventoryResult where
  "failed_reconciliation =
     \<lparr>inv_State = InventoryUnavailable, inv_Code = ''inventory_reconciliation_failed'', inv_CertificateCount = None\<rparr>"

definition callReconcile :: "Executor \<Rightarrow> bytes \<Rightarrow> Service \<Rightarrow> InventoryResult \<times> bool" where
  "callReconcile d i s =
     (case d_Reconcile d (s_tick s) i of
        Some v \<Rightarrow> (v, False)
      | None \<Rightarrow> (res_Inventory empty_result, True))"

definition reconcile :: "Executor \<Rightarrow> Operation \<Rightarrow> Service \<Rightarrow> jobs_error option \<times> Service" where
  "reconcile d x s =
     (let (v, panicked) = callReconcile d (op_ID x) s;
          inventory = (if panicked \<or> validateInventory v False \<noteq> None then failed_reconciliation else v)
      in case transact d (\<lambda>ok now. CompleteReconciliation ok (op_ID x) inventory now) s of
           (Inl e, s') \<Rightarrow> (Some e, s')
         | (Inr _, s') \<Rightarrow> (None, s'))"

definition recover :: "Executor \<Rightarrow> Service \<Rightarrow> (jobs_error, bool) result \<times> Service" where
  "recover d s =
     (case transact d InterruptRunning s of
        (Inl e, s1) \<Rightarrow> (Inl e, s1)
      | (Inr interrupted, s1) \<Rightarrow>
          (case transact d (\<lambda>ok _ db. (PendingReconciliation ok db, db)) s1 of
             (Inl ErrNotFound, s2) \<Rightarrow> (Inr (interrupted \<noteq> None), s2)
           | (Inl e, s2) \<Rightarrow> (Inl e, s2)
           | (Inr x, s2) \<Rightarrow>
               (case reconcile d x s2 of
                  (Some e, s3) \<Rightarrow> (Inl e, s3)
                | (None, s3) \<Rightarrow> (Inr (interrupted \<noteq> None), s3))))"

subsection \<open>Execution\<close>

text \<open>The reporter handed to the executor: the phase it has reached and its first failure.\<close>

definition reportPhase ::
  "Executor \<Rightarrow> bytes \<Rightarrow> Phase \<Rightarrow> Phase \<times> jobs_error option \<times> Service
   \<Rightarrow> jobs_error option \<times> (Phase \<times> jobs_error option \<times> Service)" where
  "reportPhase d i next st =
     (case st of (currentPhase, phaseFailure, s) \<Rightarrow>
        if phaseFailure \<noteq> None then (phaseFailure, st)
        else if \<not> validPhaseTransition currentPhase next
        then (Some ErrStateChanged, (currentPhase, Some ErrStateChanged, s))
        else
          (case transact d (\<lambda>ok now. UpdatePhase ok i next now) s of
             (Inl e, s') \<Rightarrow> (Some e, (currentPhase, Some e, s'))
           | (Inr _, s') \<Rightarrow> (None, (next, None, s'))))"

primrec callExecute ::
  "Executor \<Rightarrow> bytes \<Rightarrow> executor_run \<Rightarrow> Phase \<times> jobs_error option \<times> Service
   \<Rightarrow> (Result \<times> bool) \<times> (Phase \<times> jobs_error option \<times> Service)" where
  "callExecute d i (Returns r) st = ((r, False), st)"
| "callExecute d i Panics st = ((empty_result, True), st)"
| "callExecute d i (Reports next k) st =
     (let (answer, st') = reportPhase d i next st in callExecute d i (k answer) st')"

definition execute :: "Executor \<Rightarrow> Operation \<Rightarrow> Service \<Rightarrow> jobs_error option \<times> Service" where
  "execute d x s =
     (let ((res, panicked), (lastPhase, transitionErr, s1)) =
            callExecute d (op_ID x) (d_Execute d (s_tick s) (op_ID x) (op_Request x)) (PhaseRevalidating, None, s)
      in if panicked \<or> transitionErr \<noteq> None \<or> lastPhase \<noteq> PhaseRefreshingInventory
            \<or> validateExecutorResult res \<noteq> None
         then
           (let code = (if panicked then ''worker_panicked''
                        else if transitionErr \<noteq> None then ''worker_phase_failed''
                        else ''worker_result_invalid'')
            in case transact d (\<lambda>ok now. FinishUncertain ok (op_ID x) StateAmbiguous code now) s1 of
                 (Inl e, s2) \<Rightarrow> (Some e, s2)
               | (Inr y, s2) \<Rightarrow> reconcile d y s2)
         else
           (case transact d (\<lambda>ok now. Finish ok (op_ID x) res now) s1 of
              (Inl e, s2) \<Rightarrow> (Some e, s2)
            | (Inr _, s2) \<Rightarrow> (None, s2)))"

subsection \<open>The loop\<close>

text \<open>What happens around one iteration of \<open>Run\<close>: the requests that arrive first, whether the
  context is found cancelled, and which case of the \<open>select\<close> is taken after an idle claim.\<close>

datatype wait = WaitDone | WaitWake | WaitTimer

record round =
  r_requests :: "(bytes option \<times> Kind \<times> Request) list"
  r_cancelled :: bool
  r_cancelled_after :: bool
  r_wait :: wait

datatype run_result = RunNil | RunError jobs_error | RunWaiting

definition requests :: "Executor \<Rightarrow> (bytes option \<times> Kind \<times> Request) list \<Rightarrow> Service \<Rightarrow> Service" where
  "requests d qs s = fold (\<lambda>(raw, kind, q) s. snd (enqueue d raw kind q s)) qs s"

fun run_loop :: "Executor \<Rightarrow> round list \<Rightarrow> Service \<Rightarrow> run_result \<times> Service" where
  "run_loop d [] s = (RunWaiting, s)"
| "run_loop d (r # rs) s0 =
     (let s = requests d (r_requests r) s0
      in if r_cancelled r then (RunNil, s)
         else
           (case transact d Claim s of
              (Inr x, s1) \<Rightarrow>
                (case execute d x s1 of
                   (Some e, s2) \<Rightarrow> (RunError e, s2)
                 | (None, s2) \<Rightarrow> run_loop d rs s2)
            | (Inl ErrNoQueued, s1) \<Rightarrow>
                (case r_wait r of
                   WaitDone \<Rightarrow> (RunNil, s1)
                 | WaitWake \<Rightarrow> run_loop d rs (s1\<lparr>s_wake := False\<rparr>)
                 | WaitTimer \<Rightarrow> run_loop d rs s1)
            | (Inl e, s1) \<Rightarrow> if r_cancelled_after r then (RunNil, s1) else (RunError e, s1)))"

definition Run :: "Executor \<Rightarrow> bool \<Rightarrow> round list \<Rightarrow> Service \<Rightarrow> run_result \<times> Service" where
  "Run d cancelled rs s =
     (if s_running s then (RunError ErrWorkerRunning, s)
      else
        (let (result, s') =
          (case recover d (s\<lparr>s_running := True\<rparr>) of
             (Inl e, s1) \<Rightarrow> (if cancelled then RunNil else RunError e, s1)
           | (Inr interrupted, s1) \<Rightarrow>
               run_loop d rs (s1\<lparr>s_interruptedOnStart := interrupted, s_ready := True\<rparr>))
         in (result, if result = RunWaiting then s' else s'\<lparr>s_running := False\<rparr>)))"

subsection \<open>The worker only acts through transactions of the store\<close>

lemma s_db_transact [simp]: "s_db (snd (transact d f s)) =
    snd (f (d_carried d (s_tick s)) (instant (d_now d (s_tick s))) (s_db s))"
  by (simp add: transact_def split: prod.split)

lemma transact_eq: "transact d f s = (a, s') \<longleftrightarrow>
    f (d_carried d (s_tick s)) (instant (d_now d (s_tick s))) (s_db s) = (a, s_db s')
    \<and> s' = s\<lparr>s_db := s_db s', s_tick := Suc (s_tick s)\<rparr>"
  by (auto simp: transact_def split: prod.splits)

abbreviation store_run :: "Service \<Rightarrow> Service \<Rightarrow> bool" where
  "store_run s s' \<equiv> store_step\<^sup>*\<^sup>* (s_db s) (s_db s')"

lemma transact_step:
  assumes "transact d f s = (a, s')" "\<And>ok now db. store_step db (snd (f ok now db))"
  shows "store_run s s'"
  using assms(1) assms(2) [of "s_db s"] by (metis r_into_rtranclp s_db_transact snd_conv)

lemma reconcile_steps: "store_run s (snd (reconcile d x s))"
proof -
  obtain v p where c: "callReconcile d (op_ID x) s = (v, p)" by fastforce
  let ?v = "if p \<or> validateInventory v False \<noteq> None then failed_reconciliation else v"
  obtain r s' where t: "transact d (\<lambda>ok now. CompleteReconciliation ok (op_ID x) ?v now) s = (r, s')" by fastforce
  have "store_run s s'" by (rule transact_step [OF t]) (rule store_step.complete)
  then show ?thesis using t by (auto simp: reconcile_def c Let_def split: sum.split)
qed

lemma recover_steps: "store_run s (snd (recover d s))"
proof -
  obtain r s1 where t1: "transact d InterruptRunning s = (r, s1)" by fastforce
  obtain r2 s2 where t2: "transact d (\<lambda>ok _ db. (PendingReconciliation ok db, db)) s1 = (r2, s2)" by fastforce
  have "store_run s s1" by (rule transact_step [OF t1]) (rule store_step.interrupt)
  moreover have "s_db s2 = s_db s1" using t2 by (auto simp: transact_def)
  moreover have "store_run s2 (snd (reconcile d x s2))" for x by (rule reconcile_steps)
  ultimately show ?thesis
    using t1 t2
    by (auto simp: recover_def split: sum.splits jobs_error.splits option.splits prod.splits
        intro: rtranclp_trans) (metis rtranclp_trans snd_conv)+
qed

lemma report_steps: "reportPhase d i ph (c, f, s) = (a, c', f', s') \<Longrightarrow> store_run s s'"
  by (auto simp: reportPhase_def store_step.phase dest!: transact_step split: if_splits sum.splits prod.splits)

lemma callExecute_steps: "callExecute d i run (c, f, s) = (o', c', f', s') \<Longrightarrow> store_run s s'"
proof (induction run arbitrary: c f s)
  case (Reports ph k)
  obtain a c1 f1 s1 where r: "reportPhase d i ph (c, f, s) = (a, c1, f1, s1)" by (metis prod.exhaust)
  with Reports.prems have "callExecute d i (k a) (c1, f1, s1) = (o', c', f', s')" by simp
  with Reports.IH [of "k a"] report_steps [OF r] show ?case by (meson rangeI rtranclp_trans)
qed auto

lemma execute_steps: "store_run s (snd (execute d x s))"
proof -
  obtain res p ph f s1 where
    c: "callExecute d (op_ID x) (d_Execute d (s_tick s) (op_ID x) (op_Request x)) (PhaseRevalidating, None, s)
        = ((res, p), (ph, f, s1))" by (metis prod.exhaust)
  have run: "store_run s s1" by (rule callExecute_steps [OF c])
  let ?code = "if p then ''worker_panicked'' else if f \<noteq> None then ''worker_phase_failed'' else ''worker_result_invalid''"
  obtain r s2 where u: "transact d (\<lambda>ok now. FinishUncertain ok (op_ID x) StateAmbiguous ?code now) s1 = (r, s2)" by fastforce
  obtain r' s3 where v: "transact d (\<lambda>ok now. Finish ok (op_ID x) res now) s1 = (r', s3)" by fastforce
  have "store_run s1 s2" by (rule transact_step [OF u]) (rule store_step.uncertain)
  moreover have "store_run s1 s3" by (rule transact_step [OF v]) (rule store_step.finish)
  ultimately show ?thesis
    using run u v reconcile_steps [of s2 d]
    by (auto simp: execute_def c Let_def split: sum.split intro: rtranclp_trans)
qed

lemma enqueue_steps: "store_run s (snd (enqueue d raw k q s))"
proof (cases raw)
  case (Some r)
  obtain a s' where t: "transact d (\<lambda>ok now. EnqueueKind ok (hex_encode r) k q now) s = (a, s')" by fastforce
  have "store_run s s'" by (rule transact_step [OF t]) (rule store_step.enqueue)
  then show ?thesis using Some t by (auto simp: enqueue_def split: sum.split)
qed (simp add: enqueue_def)

lemma requests_steps: "store_run s (requests d qs s)"
proof (induction qs arbitrary: s)
  case (Cons q qs)
  obtain raw k r where q: "q = (raw, k, r)" by (metis prod.exhaust)
  from Cons [of "snd (enqueue d raw k r s)"] enqueue_steps [of s d raw k r] show ?case
    by (auto simp: requests_def q intro: rtranclp_trans)
qed (simp add: requests_def)

lemma run_loop_steps: "store_run s (snd (run_loop d rs s))"
proof (induction rs arbitrary: s)
  case (Cons r rs)
  let ?s = "requests d (r_requests r) s"
  obtain a s1 where t: "transact d Claim ?s = (a, s1)" by fastforce
  have start: "store_run s ?s" by (rule requests_steps)
  have claim: "store_run s s1"
    using transact_step [OF t] start store_step.claim by (blast intro: rtranclp_trans)
  have "store_run s (snd (execute d x s1))" for x using claim execute_steps [of s1 d x] by (rule rtranclp_trans)
  with start claim Cons t show ?case
    by (auto simp: Let_def split: sum.splits jobs_error.splits option.splits prod.splits wait.splits
        intro: rtranclp_trans) (metis Service.select_convs(1) Service.surjective Service.update_convs(3) rtranclp_trans snd_conv)+
qed simp

lemma Run_steps: "store_run s (snd (Run d c rs s))"
proof (cases "s_running s")
  case False
  let ?s = "s\<lparr>s_running := True\<rparr>"
  obtain a s1 where r: "recover d ?s = (a, s1)" by fastforce
  have "store_run ?s s1" using recover_steps [of ?s d] r by simp
  moreover have "store_run s1 (snd (run_loop d rs (s1\<lparr>s_interruptedOnStart := b, s_ready := True\<rparr>)))" for b
    using run_loop_steps [of "s1\<lparr>s_interruptedOnStart := b, s_ready := True\<rparr>" d rs] by simp
  ultimately show ?thesis
    using False r by (auto simp: Run_def Let_def split: sum.split prod.split) (metis rtranclp_trans snd_conv)+
qed (simp add: Run_def)

subsection \<open>Progress with a database that answers and a clock that does not step back\<close>

definition healthy :: "Executor \<Rightarrow> bool" where
  "healthy d \<longleftrightarrow> (\<forall>n. d_carried d n \<and> 0 < t_ns (d_now d n) \<and> t_ns (d_now d n) < year_10000
     \<and> t_ns (d_now d n) \<le> t_ns (d_now d (Suc n)))"

definition timely :: "gotime \<Rightarrow> Operation \<Rightarrow> bool" where
  "timely t x \<longleftrightarrow> \<not> Before t (op_RequestedAt x) \<and> \<not> Before t (op_StartedAt x) \<and> \<not> Before t (op_FinishedAt x)"

text \<open>The stored operation is valid and carries no time of the future.\<close>

definition holds :: "Executor \<Rightarrow> Operation option \<Rightarrow> Service \<Rightarrow> bool" where
  "holds d x s \<longleftrightarrow> s_db s = db_of x \<and>
     (case x of None \<Rightarrow> True | Some y \<Rightarrow> valid_op y \<and> timely (instant (d_now d (s_tick s))) y)"

definition sound :: "Executor \<Rightarrow> Service \<Rightarrow> bool" where
  "sound d s \<longleftrightarrow> (\<exists>x. holds d x s)"

text \<open>Every valid result of an execution answers for the names that were reviewed.\<close>

primrec covers :: "bytes list \<Rightarrow> executor_run \<Rightarrow> bool" where
  "covers names (Returns r) = (validateExecutorResult r = None \<longrightarrow> map it_Name (res_Items r) = names)"
| "covers names Panics = True"
| "covers names (Reports ph k) = (\<forall>a. covers names (k a))"

definition reviewed_scope :: "Executor \<Rightarrow> Request \<Rightarrow> bool" where
  "reviewed_scope d q \<longleftrightarrow> (\<forall>n i. covers (req_Items q) (d_Execute d n i q))"

lemma healthy_now [simp]: "healthy d \<Longrightarrow> canonical_time (instant (d_now d n))"
  by (simp add: healthy_def instant_eq)

lemma healthy_carried [simp]: "healthy d \<Longrightarrow> d_carried d n"
  by (simp add: healthy_def)

lemma healthy_later: "healthy d \<Longrightarrow> timely (instant (d_now d n)) x \<Longrightarrow> timely (instant (d_now d (Suc n))) x"
  by (auto simp: healthy_def timely_def Before_def instant_eq dest!: spec [of _ n])

lemma stamped_timely:
  "timely t x \<Longrightarrow> timely t (claimed t x)" "timely t x \<Longrightarrow> timely t (phased ph t x)"
  "timely t x \<Longrightarrow> timely t (finished res items t x)" "timely t x \<Longrightarrow> timely t (reconciled v t x)"
  "0 < t_ns t \<Longrightarrow> timely t (queued_op i k q t)"
  by (auto simp: timely_def op_updates Before_def zero_time_def)

lemma holds_Some: "holds d (Some x) s \<longleftrightarrow>
    s_db s = db_of (Some x) \<and> valid_op x \<and> timely (instant (d_now d (s_tick s))) x"
  by (simp add: holds_def)

lemma holds_flags [simp]:
  "holds d x (s\<lparr>s_wake := b\<rparr>) = holds d x s" "holds d x (s\<lparr>s_running := b\<rparr>) = holds d x s"
  "holds d x (s\<lparr>s_interruptedOnStart := b\<rparr>) = holds d x s" "holds d x (s\<lparr>s_ready := b\<rparr>) = holds d x s"
  by (cases x; simp add: holds_def)+

lemma transact_holds:
  assumes "healthy d"
    and "f True (instant (d_now d (s_tick s))) (s_db s) = (a, db_of (Some y))"
    and "valid_op y" "timely (instant (d_now d (s_tick s))) y"
  shows "\<exists>s'. transact d f s = (a, s') \<and> holds d (Some y) s' \<and> s_running s' = s_running s"
  using assms by (simp add: transact_def holds_def healthy_later)

lemma holds_transact_same:
  assumes "healthy d" "holds d x s" "f True (instant (d_now d (s_tick s))) (s_db s) = (a, s_db s)"
  shows "\<exists>s'. transact d f s = (a, s') \<and> holds d x s' \<and> s_running s' = s_running s"
  using assms by (cases x) (simp_all add: transact_def holds_def healthy_later)

subsubsection \<open>Reconciliation settles\<close>

lemma failed_reconciliation_valid: "validateInventory failed_reconciliation False = None"
  by (simp add: failed_reconciliation_def validateInventory_def)

lemma reconcile_settles:
  assumes "healthy d" "holds d (Some x) s" "pending x" "op_ID y = op_ID x"
  shows "\<exists>v s'. reconcile d y s = (None, s') \<and> holds d (Some (reconciled v (instant (d_now d (s_tick s))) x)) s'
      \<and> validateInventory v False = None \<and> s_running s' = s_running s"
proof -
  let ?t = "instant (d_now d (s_tick s))"
  obtain v p where c: "callReconcile d (op_ID y) s = (v, p)" by fastforce
  define v' where "v' = (if p \<or> validateInventory v False \<noteq> None then failed_reconciliation else v)"
  have v': "validateInventory v' False = None" by (simp add: v'_def failed_reconciliation_valid)
  have x: "s_db s = db_of (Some x)" "valid_op x" "timely ?t x" using assms(2) by (simp_all add: holds_Some)
  then have nb: "\<not> Before ?t (op_FinishedAt x)" by (simp add: timely_def)
  note fin = complete_reconciliation_pending [OF valid_stored [OF x(2)] assms(3) healthy_now [OF assms(1)]
      assms(4) [symmetric] v' nb]
  obtain s' where "transact d (\<lambda>ok now. CompleteReconciliation ok (op_ID y) v' now) s = (Inr (reconciled v' ?t x), s')"
    "holds d (Some (reconciled v' ?t x)) s'" "s_running s' = s_running s"
    using transact_holds [OF assms(1), of "\<lambda>ok now. CompleteReconciliation ok (op_ID y) v' now" s, OF _ fin(2)] fin x
    by (auto simp: stamped_timely)
  moreover have "reconcile d y s = (case transact d (\<lambda>ok now. CompleteReconciliation ok (op_ID y) v' now) s of
      (Inl e, s') \<Rightarrow> (Some e, s') | (Inr _, s') \<Rightarrow> (None, s'))"
    by (simp only: reconcile_def c Let_def prod.case v'_def)
  ultimately show ?thesis using v' by auto
qed

lemma reconciled_settled:
  "pending x \<Longrightarrow> validateInventory v False = None \<Longrightarrow> settled (reconciled v t x) \<and> same_work x (reconciled v t x)"
  by (auto simp: pending_def settled_def reconciled_def same_work_def dest: validateInventory_pending)

subsubsection \<open>Execution settles\<close>

text \<open>An orderly run reports phases the reporter accepts and returns after the last one; \<open>durable_result\<close>
  is what it returns when every report is durable.\<close>

primrec orderly :: "Phase \<Rightarrow> executor_run \<Rightarrow> bool" where
  "orderly ph (Returns r) = (ph = PhaseRefreshingInventory)"
| "orderly ph Panics = False"
| "orderly ph (Reports nxt k) = (validPhaseTransition ph nxt \<and> orderly nxt (k None))"

primrec durable_result :: "executor_run \<Rightarrow> Result" where
  "durable_result (Returns r) = r"
| "durable_result Panics = empty_result"
| "durable_result (Reports nxt k) = durable_result (k None)"

definition carries :: "Result \<Rightarrow> Operation \<Rightarrow> bool" where
  "carries r y \<longleftrightarrow> op_State y = res_State r \<and> op_Code y = res_Code r \<and> op_MayHaveChanged y = res_MayHaveChanged r
     \<and> op_Inventory y = res_Inventory r \<and> op_Output y = res_Output r \<and> op_OutputTruncated y = res_OutputTruncated r
     \<and> op_Items y = res_Items r"

definition running_at :: "Executor \<Rightarrow> Operation \<Rightarrow> Phase \<Rightarrow> Service \<Rightarrow> bool" where
  "running_at d x ph s \<longleftrightarrow> (\<exists>y. holds d (Some y) s \<and> op_State y = StateRunning \<and> op_Phase y = ph \<and> same_work x y)"

lemma report_running:
  assumes "healthy d" "running_at d x ph s" "reportPhase d (op_ID x) nxt (ph, f, s) = (a, ph', f', s')"
  shows "running_at d x ph' s' \<and> s_running s' = s_running s
    \<and> (f = None \<and> validPhaseTransition ph nxt \<longrightarrow> a = None \<and> ph' = nxt \<and> f' = None)"
proof (cases "f = None \<and> validPhaseTransition ph nxt")
  case False
  with assms(2,3) show ?thesis by (auto simp: reportPhase_def split: if_splits)
next
  case True
  let ?t = "instant (d_now d (s_tick s))"
  from assms(2) obtain y where y: "holds d (Some y) s" "op_State y = StateRunning" "op_Phase y = ph" "same_work x y"
    by (auto simp: running_at_def)
  then have st: "stored_op y" "s_db s = db_of (Some y)" "timely ?t y" "op_ID y = op_ID x" "validPhaseTransition (op_Phase y) nxt"
    using True by (auto simp: holds_Some valid_stored same_work_def)
  have valid: "valid_op (phased nxt ?t y)"
    using phased_stored(2) [OF st(1) y(2) healthy_now [OF assms(1)] st(5)] st(3) by (simp add: timely_def)
  obtain s1 where "transact d (\<lambda>ok now. UpdatePhase ok (op_ID x) nxt now) s = (Inr (), s1)"
      "holds d (Some (phased nxt ?t y)) s1" "s_running s1 = s_running s"
    using transact_holds [OF assms(1), of "\<lambda>ok now. UpdatePhase ok (op_ID x) nxt now" s, OF _ valid]
      update_phase_running [OF st(1) y(2) healthy_now [OF assms(1)] st(4,5)] st(2,3)
    by (auto simp: stamped_timely)
  moreover from this have "running_at d x nxt s1"
    using y by (auto simp: running_at_def same_work_def phased_def)
  ultimately show ?thesis using True assms(3) by (auto simp: reportPhase_def)
qed

lemma callExecute_running:
  assumes "healthy d" "running_at d x ph s"
    "callExecute d (op_ID x) run (ph, f, s) = ((res, p), (ph', f', s'))" "covers names run"
  shows "running_at d x ph' s' \<and> s_running s' = s_running s
    \<and> (p \<or> (validateExecutorResult res = None \<longrightarrow> map it_Name (res_Items res) = names))
    \<and> (f = None \<and> orderly ph run \<longrightarrow> res = durable_result run \<and> \<not> p \<and> ph' = PhaseRefreshingInventory \<and> f' = None)"
  using assms(2-4)
proof (induction run arbitrary: ph f s)
  case (Reports nxt k)
  obtain a c1 f1 s1 where r: "reportPhase d (op_ID x) nxt (ph, f, s) = (a, c1, f1, s1)" by (metis prod.exhaust)
  with Reports.prems have "callExecute d (op_ID x) (k a) (c1, f1, s1) = ((res, p), (ph', f', s'))" "covers names (k a)"
    by simp_all
  with Reports.IH [of "k a" c1 s1 f1] report_running [OF assms(1) Reports.prems(1) r] show ?case by simp
qed auto

lemma execute_settles:
  assumes "healthy d" "running_at d x PhaseRevalidating s"
    and "covers (req_Items (op_Request x)) (d_Execute d (s_tick s) (op_ID x) (op_Request x))"
  shows "\<exists>y s'. execute d x s = (None, s') \<and> holds d (Some y) s' \<and> settled y \<and> same_work x y
           \<and> s_running s' = s_running s
           \<and> (let run = d_Execute d (s_tick s) (op_ID x) (op_Request x)
              in orderly PhaseRevalidating run \<and> validateExecutorResult (durable_result run) = None \<longrightarrow> carries (durable_result run) y)"
proof -
  obtain res p ph f s1 where
    c: "callExecute d (op_ID x) (d_Execute d (s_tick s) (op_ID x) (op_Request x)) (PhaseRevalidating, None, s)
        = ((res, p), (ph, f, s1))" by (metis prod.exhaust)
  note run = callExecute_running [OF assms(1,2) c assms(3)]
  let ?t = "instant (d_now d (s_tick s1))"
  from run obtain y where y: "holds d (Some y) s1" "op_State y = StateRunning" "same_work x y"
    by (auto simp: running_at_def)
  then have st: "stored_op y" "s_db s1 = db_of (Some y)" "timely ?t y" "op_ID y = op_ID x"
    "op_Request y = op_Request x" by (auto simp: holds_Some valid_stored same_work_def)
  have nb: "\<not> Before ?t (op_StartedAt y)" using st(3) by (simp add: timely_def)
  note t = healthy_now [OF assms(1), of "s_tick s1"]
  show ?thesis
  proof (cases "p \<or> f \<noteq> None \<or> ph \<noteq> PhaseRefreshingInventory \<or> validateExecutorResult res \<noteq> None")
    case True
    define code where "code = (if p then ''worker_panicked'' else if f \<noteq> None then ''worker_phase_failed''
                     else ''worker_result_invalid'')"
    have code: "validateCode code True = None" by (simp add: code_def)
    let ?u = "uncertain StateAmbiguous code ?t y"
    have u: "FinishUncertain True (op_ID x) StateAmbiguous code ?t (db_of (Some y)) = (Inr ?u, db_of (Some ?u))"
      using finish_uncertain_running(1) [OF st(1) y(2) t st(4) _ code nb] by simp
    have "valid_op ?u"
      using finished_valid [OF st(1) y(2) t uncertain_ok [OF st(1) _ code]] nb
      by (simp add: valid_op_def uncertain_def)
    moreover have "timely ?t ?u" using st(3) by (simp add: uncertain_def stamped_timely)
    ultimately obtain s2 where s2: "transact d (\<lambda>ok now. FinishUncertain ok (op_ID x) StateAmbiguous code now) s1 = (Inr ?u, s2)"
      "holds d (Some ?u) s2" "s_running s2 = s_running s1"
      using transact_holds [OF assms(1), of "\<lambda>ok now. FinishUncertain ok (op_ID x) StateAmbiguous code now" s1 "Inr ?u" ?u] u st(2)
      by auto
    have pend: "pending ?u" by (simp add: pending_def uncertain_def finished_def uncertain_result_def pending_inventory_def)
    have same: "same_work x ?u" using y(3) by (simp add: same_work_def uncertain_def finished_def)
    obtain v s3 where "reconcile d ?u s2 = (None, s3)" "holds d (Some (reconciled v (instant (d_now d (s_tick s2))) ?u)) s3"
      "validateInventory v False = None" "s_running s3 = s_running s2"
      using reconcile_settles [OF assms(1) s2(2) pend refl] by blast
    with True s2 c run reconciled_settled [OF pend] same_work_trans [OF same] show ?thesis
      by (auto simp: execute_def code_def [symmetric] Let_def)
  next
    case False
    then have res: "validateExecutorResult res = None" "map it_Name (res_Items res) = req_Items (op_Request y)"
      using run st(5) by auto
    have "validateInventory (res_Inventory res) q = None" for q
      using res by (auto simp: validateExecutorResult_def validateInventory_def split: InventoryState.splits option.splits)
    then have ok: "finish_ok res (res_Items res) y"
      using res by (auto simp: finish_ok_def validateExecutorResult_def scope_names)
    let ?u = "finished res (res_Items res) ?t y"
    have u: "Finish True (op_ID x) res ?t (db_of (Some y)) = (Inr ?u, db_of (Some ?u))"
      using finish_commit(1) [OF st(1) y(2) t st(4) ok, of False] nb res by (simp add: Finish_def)
    have "valid_op ?u" using finished_valid [OF st(1) y(2) t ok] nb by (simp add: valid_op_def)
    moreover have "timely ?t ?u" using st(3) by (simp add: stamped_timely)
    ultimately obtain s2 where s2: "transact d (\<lambda>ok now. Finish ok (op_ID x) res now) s1 = (Inr ?u, s2)"
      "holds d (Some ?u) s2" "s_running s2 = s_running s1"
      using transact_holds [OF assms(1), of "\<lambda>ok now. Finish ok (op_ID x) res now" s1 "Inr ?u" ?u] u st(2) by auto
    moreover have "settled ?u" "same_work x ?u"
      using res y(3) by (auto simp: settled_def finished_def same_work_def validateExecutorResult_def
          dest: validateInventory_pending)
    moreover have "carries res ?u" by (simp add: carries_def finished_def)
    ultimately show ?thesis using False c run by (auto simp: execute_def Let_def)
  qed
qed

subsubsection \<open>Recovery and the loop\<close>

lemma terminal_pending: "valid_op x \<Longrightarrow> terminal (op_State x) \<Longrightarrow> \<not> pending x \<Longrightarrow> settled x"
  by (auto simp: valid_op_def validateOperation_def validate_lifecycle_def settled_def pending_def Let_def
      dest: validateInventory_pending split: if_splits)

lemma valid_states: "valid_op x \<Longrightarrow> op_State x = StateQueued \<or> op_State x = StateRunning \<or> terminal (op_State x)"
  using lifecycle_columns(5) [of x] by (auto simp: valid_op_def validateOperation_def active_def)

lemma store_Latest_valid: "valid_op x \<Longrightarrow> Latest True (db_of (Some x)) = Inr x"
  by (simp add: Latest_def load_back_def with_tx_def loadOperation_db_of valid_op_def)

lemma store_Latest_none: "Latest True (db_of None) = Inl ErrNotFound"
  by (simp add: Latest_def load_back_def with_tx_def loadOperation_def)

lemma pending_reconciliation:
  assumes "\<And>y. x = Some y \<Longrightarrow> valid_op y"
  shows "PendingReconciliation True (db_of x) =
     (case x of Some y \<Rightarrow> if pending y then Inr y else Inl ErrNotFound | None \<Rightarrow> Inl ErrNotFound)"
  using assms by (cases x) (auto simp: PendingReconciliation_def store_Latest_valid store_Latest_none pending_def)

lemma interrupt_holds:
  assumes "healthy d" "holds d x s"
  shows "\<exists>r s' x'. transact d InterruptRunning s = (Inr r, s') \<and> holds d x' s' \<and> s_running s' = s_running s \<and>
     (case x of Some y \<Rightarrow> (\<exists>z. x' = Some z \<and> same_work y z \<and>
          (if op_State y = StateRunning then r \<noteq> None \<and> pending z else r = None \<and> z = y))
      | None \<Rightarrow> r = None \<and> x' = None)"
proof (cases "\<exists>y. x = Some y \<and> op_State y = StateRunning")
  case False
  let ?t = "instant (d_now d (s_tick s))"
  have "InterruptRunning True ?t (db_of x) = (Inr None, db_of x)"
    using False assms(1) by (intro interrupt_not_running) auto
  moreover have "s_db s = db_of x" using assms(2) by (simp add: holds_def)
  ultimately obtain s' where "transact d InterruptRunning s = (Inr None, s')" "holds d x s'" "s_running s' = s_running s"
    using holds_transact_same [OF assms, of InterruptRunning] by auto
  with False show ?thesis by (auto split: option.split)
next
  case True
  then obtain y where y: "x = Some y" "op_State y = StateRunning" by blast
  let ?t = "instant (d_now d (s_tick s))" and ?u = "uncertain StateInterrupted ''service_restarted''"
  have st: "stored_op y" "timely ?t y" "s_db s = db_of (Some y)"
    using assms(2) y(1) by (auto simp: holds_Some valid_stored)
  have nb: "\<not> Before ?t (op_StartedAt y)" using st(2) by (simp add: timely_def)
  have "valid_op (?u ?t y)"
    using finished_valid [OF st(1) y(2) healthy_now [OF assms(1)] uncertain_ok [OF st(1), of StateInterrupted "''service_restarted''"]] nb
    by (simp add: valid_op_def uncertain_def)
  moreover have "timely ?t (?u ?t y)" using st(2) by (simp add: uncertain_def stamped_timely)
  ultimately obtain s' where "transact d InterruptRunning s = (Inr (Some (?u ?t y)), s')" "holds d (Some (?u ?t y)) s'"
      "s_running s' = s_running s"
    using transact_holds [OF assms(1), of InterruptRunning s "Inr (Some (?u ?t y))" "?u ?t y"]
      interrupt_running(1) [OF st(1) y(2) healthy_now [OF assms(1)] nb] st(3) by auto
  moreover have "pending (?u ?t y)" "same_work y (?u ?t y)"
    by (simp_all add: pending_def uncertain_def finished_def uncertain_result_def pending_inventory_def same_work_def)
  ultimately show ?thesis using y by auto
qed

text \<open>What recovery leaves: nothing running, nothing unreconciled, accepted work kept.\<close>

lemma recover_holds:
  assumes "healthy d" "holds d x s"
  shows "\<exists>s' x'. recover d s = (Inr (\<exists>y. x = Some y \<and> op_State y = StateRunning), s') \<and> holds d x' s'
     \<and> s_running s' = s_running s
     \<and> (case x of None \<Rightarrow> x' = None
        | Some y \<Rightarrow> (\<exists>z. x' = Some z \<and> same_work y z \<and> (if op_State y = StateQueued then z = y else settled z)))"
proof -
  obtain r s1 x1 where i: "transact d InterruptRunning s = (Inr r, s1)" "holds d x1 s1" "s_running s1 = s_running s"
     "case x of Some y \<Rightarrow> (\<exists>z. x1 = Some z \<and> same_work y z \<and>
          (if op_State y = StateRunning then r \<noteq> None \<and> pending z else r = None \<and> z = y))
      | None \<Rightarrow> r = None \<and> x1 = None"
    using interrupt_holds [OF assms] by blast
  let ?p = "\<lambda>ok _ db. (PendingReconciliation ok db, db)"
  have x1: "s_db s1 = db_of x1" "\<And>y. x1 = Some y \<Longrightarrow> valid_op y" using i(2) by (auto simp: holds_def)
  obtain s2 where p: "transact d ?p s1 = (PendingReconciliation True (db_of x1), s2)" "holds d x1 s2" "s_running s2 = s_running s1"
    using holds_transact_same [OF assms(1) i(2), of ?p] x1(1) by auto
  have flag: "r \<noteq> None \<longleftrightarrow> (\<exists>y. x = Some y \<and> op_State y = StateRunning)"
    using i(4) by (auto split: option.splits if_splits)
  show ?thesis
  proof (cases "\<exists>z. x1 = Some z \<and> pending z")
    case True
    then obtain z where z: "x1 = Some z" "pending z" by blast
    let ?t = "instant (d_now d (s_tick s2))"
    obtain v s3 where v: "reconcile d z s2 = (None, s3)" "holds d (Some (reconciled v ?t z)) s3"
      "validateInventory v False = None" "s_running s3 = s_running s2"
      using reconcile_settles [OF assms(1) _ z(2) refl] p(2) z(1) by blast
    have pr: "PendingReconciliation True (db_of x1) = Inr z" using pending_reconciliation [of x1] x1(2) z by simp
    obtain y where y: "x = Some y" "same_work y z" "op_State y \<noteq> StateQueued"
      using i(4) z by (auto simp: pending_def split: option.splits if_splits)
    have "recover d s = (Inr (\<exists>y. x = Some y \<and> op_State y = StateRunning), s3)"
      using i(1) p(1) pr v(1) flag by (simp add: recover_def)
    moreover have "settled (reconciled v ?t z)" "same_work y (reconciled v ?t z)"
      using reconciled_settled [OF z(2) v(3)] y(2) by (auto intro: same_work_trans)
    ultimately show ?thesis using v(2,4) y i(3) p(3) by auto
  next
    case False
    then have "PendingReconciliation True (db_of x1) = Inl ErrNotFound"
      using pending_reconciliation [of x1] x1(2) by (auto split: option.split)
    moreover have "settled y" if "x1 = Some y" "op_State y \<noteq> StateQueued" "op_State y \<noteq> StateRunning" for y
      using that False x1(2) terminal_pending valid_states by blast
    ultimately show ?thesis
      using i p False flag by (auto simp: recover_def split: option.splits if_splits)
  qed
qed

lemma db_ok_view:
  assumes "db_ok db" "db_view db = Some x"
  shows "db = db_of (Some x)" "stored_op x"
  using assms by (auto elim: db_ok_cases)

lemma holds_db_ok: "holds d x s \<Longrightarrow> db_ok (s_db s) \<and> db_view (s_db s) = x"
  by (cases x) (auto simp: holds_def valid_stored)

lemma enqueue_holds:
  assumes "healthy d" "holds d x s"
  shows "\<exists>x'. holds d x' (snd (enqueue d raw k q s)) \<and> s_running (snd (enqueue d raw k q s)) = s_running s
     \<and> (\<forall>y. x = Some y \<and> \<not> settled y \<longrightarrow> x' = x)"
proof (cases raw)
  case None
  with assms show ?thesis by (auto simp: enqueue_def)
next
  case (Some id16)
  let ?t = "instant (d_now d (s_tick s))" and ?f = "\<lambda>ok now. EnqueueKind ok (hex_encode id16) k q now"
  have view: "db_ok (s_db s)" "db_view (s_db s) = x" using holds_db_ok [OF assms(2)] by auto
  obtain r db' where r: "?f True ?t (s_db s) = (r, db')" by fastforce
  from enqueue_outcome [OF view(1) r] show ?thesis
  proof (elim disjE exE conjE)
    fix e assume "r = Inl e" "db' = s_db s"
    then obtain s' where "transact d ?f s = (Inl e, s')" "holds d x s'" "s_running s' = s_running s"
      using holds_transact_same [OF assms, of ?f] r by auto
    then show ?thesis by (auto simp: enqueue_def Some)
  next
    let ?o = "queued_op (hex_encode id16) k q ?t"
    assume ok: "db_ok db'" "r = Inr ?o" "db_view db' = Some ?o" and old: "\<forall>x. db_view (s_db s) = Some x \<longrightarrow> settled x"
    have "valid_op ?o" using db_ok_view(2) [OF ok(1,3)] by (auto simp: stored_op_def valid_op_def queued_op_def)
    moreover have "timely ?t ?o" using assms(1) by (simp add: stamped_timely healthy_def instant_eq)
    ultimately obtain s' where "transact d ?f s = (Inr ?o, s')" "holds d (Some ?o) s'" "s_running s' = s_running s"
      using transact_holds [OF assms(1), of ?f s "Inr ?o" ?o] r ok db_ok_view(1) [OF ok(1,3)] by auto
    then show ?thesis using old view(2) by (auto simp: enqueue_def Some)
  qed
qed

lemma requests_holds:
  assumes "healthy d" "holds d x s"
  shows "\<exists>x'. holds d x' (requests d qs s) \<and> s_running (requests d qs s) = s_running s
     \<and> (\<forall>y. x = Some y \<and> \<not> settled y \<longrightarrow> x' = x)"
  using assms(2)
proof (induction qs arbitrary: s x)
  case (Cons q qs)
  obtain raw k r where q: "q = (raw, k, r)" by (metis prod.exhaust)
  let ?s = "snd (enqueue d raw k r s)"
  have qs: "requests d (q # qs) s = requests d qs ?s" by (simp add: requests_def q)
  obtain x1 where x1: "holds d x1 ?s" "s_running ?s = s_running s" "\<forall>y. x = Some y \<and> \<not> settled y \<longrightarrow> x1 = x"
    using enqueue_holds [OF assms(1) Cons.prems, of raw k r] by blast
  obtain x2 where "holds d x2 (requests d qs ?s)" "s_running (requests d qs ?s) = s_running ?s"
    "\<forall>y. x1 = Some y \<and> \<not> settled y \<longrightarrow> x2 = x1"
    using Cons.IH [OF x1(1)] by blast
  with x1 qs show ?case by auto
qed (auto simp: requests_def)

text \<open>One claim: a queued operation is executed to its end, anything else is left alone.\<close>

lemma claim_holds:
  assumes "healthy d" "holds d (Some x) s" "op_State x = StateQueued"
  shows "\<exists>s'. transact d Claim s = (Inr (claimed (instant (d_now d (s_tick s))) x), s')
     \<and> running_at d (claimed (instant (d_now d (s_tick s))) x) PhaseRevalidating s' \<and> s_running s' = s_running s"
proof -
  let ?t = "instant (d_now d (s_tick s))"
  have st: "stored_op x" "timely ?t x" "s_db s = db_of (Some x)" using assms(2) by (auto simp: holds_Some valid_stored)
  have nb: "\<not> Before ?t (op_RequestedAt x)" using st(2) by (simp add: timely_def)
  note c = claim_queued [OF st(1) assms(3) healthy_now [OF assms(1), of "s_tick s"]]
  obtain s' where "transact d Claim s = (Inr (claimed ?t x), s')" "holds d (Some (claimed ?t x)) s'" "s_running s' = s_running s"
    using transact_holds [OF assms(1), of Claim s "Inr (claimed ?t x)" "claimed ?t x"] c nb st by (auto simp: stamped_timely)
  then show ?thesis by (auto simp: running_at_def claimed_def)
qed

lemma claim_idle:
  assumes "healthy d" "holds d x s" "\<And>y. x = Some y \<Longrightarrow> op_State y \<noteq> StateQueued"
  shows "\<exists>s'. transact d Claim s = (Inl ErrNoQueued, s') \<and> holds d x s' \<and> s_running s' = s_running s"
  using holds_transact_same [OF assms(1,2), of Claim "Inl ErrNoQueued"] claim_not_queued [of x] assms
  by (simp add: holds_def)

text \<open>The first round settles the work it finds.\<close>

lemma first_round_settles:
  assumes "healthy d" "reviewed_scope d (op_Request x)" "holds d (Some x) s0" "op_State x = StateQueued \<or> settled x"
    "\<not> r_cancelled r" "r_requests r = [] \<or> op_State x = StateQueued"
  shows "(\<exists>y. holds d (Some y) (snd (run_loop d [r] s0)) \<and> settled y \<and> same_work x y
      \<and> (op_State x = StateQueued \<longrightarrow> (\<exists>n. let run = d_Execute d n (op_ID x) (op_Request x)
           in orderly PhaseRevalidating run \<and> validateExecutorResult (durable_result run) = None \<longrightarrow> carries (durable_result run) y)))
    \<and> (\<forall>e. fst (run_loop d [r] s0) \<noteq> RunError e)"
proof -
  define s where "s = requests d (r_requests r) s0"
  have h: "holds d (Some x) s"
  proof (cases "op_State x = StateQueued")
    case True
    then have "\<not> settled x" by (simp add: settled_def)
    with requests_holds [OF assms(1,3), of "r_requests r"] show ?thesis by (auto simp: s_def)
  next
    case False
    with assms(3,6) show ?thesis by (simp add: s_def requests_def)
  qed
  show ?thesis
  proof (cases "op_State x = StateQueued")
    case True
    let ?t = "instant (d_now d (s_tick s))"
    obtain s1 where c: "transact d Claim s = (Inr (claimed ?t x), s1)" "running_at d (claimed ?t x) PhaseRevalidating s1"
      using claim_holds [OF assms(1) h True] by blast
    have same: "op_Request (claimed ?t x) = op_Request x" "op_ID (claimed ?t x) = op_ID x" by (simp_all add: claimed_def)
    then obtain z s2 where z: "execute d (claimed ?t x) s1 = (None, s2)" "holds d (Some z) s2" "settled z" "same_work (claimed ?t x) z"
        "let run = d_Execute d (s_tick s1) (op_ID x) (op_Request x)
         in orderly PhaseRevalidating run \<and> validateExecutorResult (durable_result run) = None \<longrightarrow> carries (durable_result run) z"
      using execute_settles [OF assms(1) c(2)] assms(2) by (auto simp: reviewed_scope_def)
    have "same_work x z" using z(4) by (simp add: same_work_def claimed_def)
    with c assms(5) z show ?thesis by (auto simp: s_def [symmetric])
  next
    case False
    obtain s1 where "transact d Claim s = (Inl ErrNoQueued, s1)" "holds d (Some x) s1"
      using claim_idle [OF assms(1) h] False by blast
    with False assms(4,5) show ?thesis by (cases "r_wait r") (auto simp: s_def [symmetric])
  qed
qed

end
