(* ===== verification/Jobs_Properties.thy ===== *)
theory Jobs_Properties
  imports Jobs_Worker
begin

text \<open>
  What the operation store and its worker guarantee, and the example data at which each
  guarantee is instantiated.
\<close>

subsection \<open>Example data\<close>

definition example_id :: bytes where
  "example_id = ''0123456789abcdef0123456789abcdef''"

definition example_request :: Request where
  "example_request =
     \<lparr>ReviewedEvidenceSHA256 = ''0123456789abcdef0123456789abcdef0123456789abcdef0123456789abcdef'',
      req_Items = [''example.org''], req_Context = empty_context, req_Details = []\<rparr>"

definition example_time :: gotime where
  "example_time = utc_instant 1000000000"

definition example_result :: Result where
  "example_result =
     \<lparr>res_State = StateSucceeded, res_Code = ''operation_succeeded'', res_MayHaveChanged = True,
      res_Inventory = \<lparr>inv_State = InventoryRefreshed, inv_Code = ''inventory_refreshed'', inv_CertificateCount = Some 1\<rparr>,
      res_Output = ''renewed'', res_OutputTruncated = False,
      res_Items = [\<lparr>it_Name = ''example.org'', it_State = ItemCompleted, it_Code = ''certificate_renewed''\<rparr>]\<rparr>"

definition example_queued :: Operation where
  "example_queued = queued_op example_id KindManual example_request example_time"

text \<open>An executor that reports both phases and then returns.\<close>

definition example_executor :: Executor where
  "example_executor =
     \<lparr>d_Execute = (\<lambda>_ _ q. if q = example_request
        then Reports PhaseExecuting (\<lambda>_. Reports PhaseRefreshingInventory (\<lambda>_. Returns example_result)) else Panics),
      d_Reconcile = (\<lambda>_ _. None), d_now = (\<lambda>_. example_time), d_carried = (\<lambda>_. True)\<rparr>"

definition example_service :: Service where
  "example_service =
     \<lparr>s_db = db_of (Some example_queued), s_tick = 0, s_wake = False, s_ready = False, s_running = False,
      s_interruptedOnStart = False\<rparr>"

lemma example_name_valid: "validateItemName ''example.org'' = None"
  by (simp add: validateItemName_def runes_ascii ValidString_ascii ascii_def IsControl_def no_control_def)

lemma example_request_valid: "validateRequest example_request = None"
proof -
  have "canonical_hex 64 (ReviewedEvidenceSHA256 example_request)" by code_simp
  then show ?thesis
    by (simp add: validateRequest_def validate_request_items_None example_request_def example_name_valid)
qed

lemma example_id_valid: "canonical_hex 32 example_id"
  by code_simp

lemma example_result_valid: "validateExecutorResult example_result = None"
  by (simp add: validateExecutorResult_def example_result_def validateItems_None example_name_valid
      validateCode_ascii ascii_def code_rune_def known_item_state_def validateInventory_def
      validateOutput_def ValidString_ascii runes_ascii IsControl_def)

lemma example_time_canonical: "canonical_time example_time"
  by (simp add: example_time_def year_10000_def day_ns_def second_def)

lemma example_enqueue:
  "EnqueueKind True example_id KindManual example_request example_time (db_of None) =
     (Inr example_queued, db_of (Some example_queued))"
  and example_queued_valid: "valid_op example_queued"
  using enqueue_none [of example_id KindManual example_request example_time None]
    example_request_valid example_id_valid example_time_canonical
  by (simp_all add: example_queued_def)

definition example_running :: Operation where
  "example_running = claimed example_time example_queued"

lemma example_claim:
  "Claim True example_time (db_of (Some example_queued)) = (Inr example_running, db_of (Some example_running))"
  and example_running_valid: "valid_op example_running"
proof -
  have queued: "op_State example_queued = StateQueued" "\<not> Before example_time (op_RequestedAt example_queued)"
    by (simp_all add: example_queued_def queued_op_def Before_def)
  note c = claim_queued [OF valid_stored [OF example_queued_valid] queued(1) example_time_canonical]
  show "Claim True example_time (db_of (Some example_queued)) = (Inr example_running, db_of (Some example_running))"
    "valid_op example_running" using c queued(2) by (simp_all add: example_running_def)
qed

lemma example_fields [simp]:
  "op_State example_queued = StateQueued" "op_RequestedAt example_queued = example_time"
  "op_State example_running = StateRunning" "op_ID example_running = example_id"
  "op_Request example_running = example_request" "op_StartedAt example_running = example_time"
  "op_RequestedAt example_running = example_time" "op_Phase example_running = PhaseRevalidating"
  by (simp_all add: example_running_def example_queued_def claimed_def queued_op_def)

lemma example_stored [simp]:
  "db_ok (db_of (Some example_queued))" "db_view (db_of (Some example_queued)) = Some example_queued"
  "db_ok (db_of (Some example_running))" "db_view (db_of (Some example_running)) = Some example_running"
  using example_queued_valid example_running_valid by (auto dest: valid_stored)

lemma example_finish:
  "Finish True example_id example_result example_time (db_of (Some example_running)) =
     (Inr (finished example_result (res_Items example_result) example_time example_running),
      db_of (Some (finished example_result (res_Items example_result) example_time example_running)))"
proof -
  have "map it_Name (res_Items example_result) = req_Items example_request"
    by (simp add: example_result_def example_request_def)
  moreover have "validateInventory (res_Inventory example_result) b = None" for b
    using example_result_valid
    by (auto simp: validateExecutorResult_def validateInventory_def split: InventoryState.splits option.splits)
  ultimately have ok: "finish_ok example_result (res_Items example_result) example_running"
    using example_result_valid by (auto simp: finish_ok_def validateExecutorResult_def scope_names)
  show ?thesis
    using finish_commit(1) [OF valid_stored [OF example_running_valid] _ example_time_canonical _ ok, of example_id False]
    by (simp add: Finish_def example_result_valid Before_def)
qed

lemma example_healthy: "healthy example_executor"
  by (simp add: healthy_def example_executor_def example_time_def year_10000_def day_ns_def second_def)

lemma example_scope: "reviewed_scope example_executor q"
  by (simp add: reviewed_scope_def example_executor_def example_request_def example_result_def)

subsection \<open>Reading and writing the row\<close>

lemma reachable_ok: "store_step\<^sup>*\<^sup>* db db' \<Longrightarrow> db_ok db \<Longrightarrow> db_ok db'"
  unfolding store_step_is by (rule os.run_ok)

lemma latest_of_ok:
  assumes "db_ok db" "Latest ok db = Inr x"
  shows "db = db_of (Some x)" "valid_op x" "db_view db = Some x"
proof -
  from assms(1) obtain y where y: "db = db_of (Some y)" "stored_op y"
    using assms(2) by (cases rule: db_ok_cases)
      (auto simp: Latest_def load_back_def with_tx_def loadOperation_def split: if_splits)
  moreover from this have "representable y" by (simp add: stored_op_def)
  ultimately have "x = y" "validateOperation y = None"
    using assms(2) by (auto simp: Latest_def load_back_def with_tx_def loadOperation_db_of split: if_splits)
  with y \<open>representable y\<close> show "db = db_of (Some x)" "valid_op x" "db_view db = Some x"
    by (simp_all add: valid_op_def)
qed

text \<open>C33: A valid operation survives the database: its row satisfies every \<open>CHECK\<close> of the schema
  (migrations 008 to 010), and reading the row back gives the same operation, times included.\<close>

theorem operation_row_roundtrip:
  assumes "representable x" "validateOperation x = None"
  shows "schema_accepts (persist x) \<and> operation_of_row (persist x) = Inr x"
  using assms schema_accepts_persist [of x] operation_of_persist [of x] by (simp add: valid_op_def)

theorem operation_row_roundtrip_witness:
  "schema_accepts (persist example_queued) \<and> operation_of_row (persist example_queued) = Inr example_queued"
  using operation_row_roundtrip [of example_queued] example_queued_valid by (simp add: valid_op_def)



subsection \<open>Lifecycle\<close>

text \<open>C20: Accepted work is never lost or replaced.  From the moment an operation is stored, any
  sequence of requests, worker transactions, interruptions and reconciliations leaves the same
  identifier, kind, request and request time in place at the same or a later stage of the
  lifecycle, unless the sequence passed a state in which the operation was settled (terminal,
  with its inventory reconciled).\<close>

theorem accepted_work_is_kept:
  assumes "db_ok db" "db_view db = Some x" "store_step\<^sup>*\<^sup>* db db'"
  shows "(\<exists>y. db_view db' = Some y \<and> same_work x y \<and> rank x \<le> rank y) \<or>
         (\<exists>d y. store_step\<^sup>*\<^sup>* db d \<and> store_step\<^sup>*\<^sup>* d db' \<and> db_view d = Some y \<and> same_work x y \<and> settled y)"
  using os.run_keeps_work assms unfolding store_step_is by blast

theorem accepted_work_is_kept_witness:
  "\<exists>y. db_view (snd (Claim True example_time (db_of (Some example_queued)))) = Some y \<and> same_work example_queued y
      \<and> rank example_queued \<le> rank y"
proof -
  have step: "store_step\<^sup>*\<^sup>* (db_of (Some example_queued)) (snd (Claim True example_time (db_of (Some example_queued))))"
    by (intro r_into_rtranclp store_step.claim)
  have "rank example_queued < rank example_running" "same_work example_queued example_running"
    unfolding example_running_def by (simp_all add: rank_claimed) (simp add: same_work_def claimed_def)
  with accepted_work_is_kept [OF example_stored(1,2) step] show ?thesis by (auto simp: example_claim)
qed

text \<open>C17: \<open>EnqueueKind\<close> on every branch: malformed arguments are refused, work that is active or
  awaits reconciliation is not replaced, and otherwise exactly the requested operation is stored
  as queued and returned.\<close>

theorem enqueue_outcomes:
  assumes "db_ok db"
  shows "EnqueueKind True i kind q now db =
    (if validateID i \<noteq> None \<or> (kind \<noteq> KindManual \<and> kind \<noteq> KindScheduled) \<or> validateRequest q \<noteq> None
        \<or> validateTime now True \<noteq> None then (Inl ErrInvalid, db)
     else if \<exists>x. db_view db = Some x \<and> \<not> settled x then (Inl ErrActive, db)
     else (Inr (queued_op i kind q now), db_of (Some (queued_op i kind q now))))"
proof (cases "validateID i \<noteq> None \<or> (kind \<noteq> KindManual \<and> kind \<noteq> KindScheduled) \<or> validateRequest q \<noteq> None
        \<or> validateTime now True \<noteq> None")
  case True
  then show ?thesis by (auto simp: EnqueueKind_def)
next
  case False
  then have args: "canonical_hex 32 i" "kind = KindManual \<or> kind = KindScheduled" "validateRequest q = None" "canonical_time now"
    by auto
  from assms show ?thesis
  proof (cases rule: db_ok_cases)
    case none
    with args enqueue_none(1) [OF args, of None] show ?thesis by simp
  next
    case (some x)
    have st: "settled x \<longleftrightarrow> \<not> (active (op_State x) \<or> inv_State (op_Inventory x) = InventoryPending)"
      using some(2) lifecycle_columns(5) [of x] terminal_not_active [of "op_State x"]
      by (auto simp: settled_def active_def stored_op_def validateOperation_def)
    show ?thesis
    proof (cases "settled x")
      case True
      with st args some enqueue_none(1) [OF args, of "Some x"] show ?thesis by auto
    next
      case False
      with st args some enqueue_active [of x True i kind q now] show ?thesis by auto
    qed
  qed
qed

theorem enqueue_outcomes_witness:
  "EnqueueKind True example_id KindScheduled example_request example_time (db_of (Some example_queued)) =
     (Inl ErrActive, db_of (Some example_queued))"
  using enqueue_outcomes [of "db_of (Some example_queued)" example_id KindScheduled example_request example_time]
    example_request_valid example_id_valid example_time_canonical by (simp add: settled_def)

text \<open>An operation is claimed at most once: after a successful claim every further claim, at
  any time, is refused and changes nothing.\<close>

theorem claimed_once:
  assumes "db_ok db" "Claim b t db = (Inr x, db')"
  shows "\<exists>e. Claim b' t' db' = (Inl e, db')"
  using os.claim_exclusive [OF assms, of b' t'] by (metis prod.exhaust)

theorem claimed_once_witness:
  "\<exists>x db'. Claim True example_time (db_of (Some example_queued)) = (Inr x, db') \<and>
     (\<exists>e. Claim True example_time db' = (Inl e, db'))"
  using claimed_once [OF example_stored(1) example_claim] example_claim by blast

text \<open>C18: A completed operation answers for exactly what was reviewed: when \<open>Finish\<close> succeeds, the
  stored operation is the running one with the executor's result, it is settled, valid, and its
  item results carry the requested names in the requested order.\<close>

theorem finish_answers_request:
  assumes "db_ok db" "Finish b i res t db = (Inr y, db')"
  shows "settled y \<and> map it_Name (op_Items y) = req_Items (op_Request y) \<and> Latest True db' = Inr y \<and>
    (\<exists>x. db_view db = Some x \<and> op_ID x = i \<and> op_State x = StateRunning \<and> y = finished res (res_Items res) t x)"
proof -
  from finish_outcome [OF assms] obtain x where x: "db_ok db'" "db_view db = Some x" "op_ID x = i"
    "op_State x = StateRunning" "validateExecutorResult res = None"
    "map it_Name (res_Items res) = req_Items (op_Request x)" "y = finished res (res_Items res) t x" "db_view db' = Some y"
    by auto
  have "terminal (op_State y)" "inv_State (op_Inventory y) \<noteq> InventoryPending"
    using x(5,7) by (auto simp: finished_def validateExecutorResult_def dest: validateInventory_pending)
  moreover have "valid_op y"
    using db_ok_view(2) [OF x(1,8)] \<open>terminal (op_State y)\<close> by (auto simp: stored_op_def valid_op_def)
  ultimately show ?thesis
    using x db_ok_view(1) [OF x(1,8)] by (auto simp: settled_def store_Latest_valid finished_def)
qed

theorem finish_answers_request_witness:
  "\<exists>y. fst (Finish True example_id example_result example_time (db_of (Some example_running))) = Inr y \<and> settled y
      \<and> map it_Name (op_Items y) = [''example.org'']"
  using finish_answers_request [OF example_stored(3) example_finish]
  by (simp add: example_finish) (simp add: finished_def example_request_def)

text \<open>When \<open>UpdatePhase\<close> is stamped by a clock that has stepped back behind the request, it
  succeeds but leaves a row that \<open>Latest\<close> refuses as invalid; nothing else of the operation is
  affected.\<close>

theorem phase_after_clock_step_back:
  assumes "db_ok db" "db_view db = Some x" "op_State x = StateRunning" "validPhaseTransition (op_Phase x) ph"
    and "canonical_time now" "Before now (op_RequestedAt x)"
  shows "UpdatePhase True (op_ID x) ph now db = (Inr (), db_of (Some (phased ph now x)))
     \<and> Latest True (db_of (Some (phased ph now x))) = Inl ErrInvalid"
proof -
  note x = db_ok_view [OF assms(1,2)]
  have rep: "representable (phased ph now x)"
    using x(2) assms(5) by (simp add: stored_op_def representable_def phased_def)
  have "validateOperation (phased ph now x) \<noteq> None"
    using assms(6) by (simp add: validateOperation_def phased_def)
  with rep x(1) update_phase_running [OF x(2) assms(3,5) refl assms(4)] show ?thesis
    by (simp add: Latest_def load_back_def with_tx_def loadOperation_db_of)
qed

theorem phase_after_clock_step_back_witness:
  "Latest True (snd (UpdatePhase True example_id PhaseExecuting (utc_instant 1) (db_of (Some example_running)))) = Inl ErrInvalid"
  using phase_after_clock_step_back [OF example_stored(3,4), of PhaseExecuting "utc_instant 1"]
  by (simp add: example_time_def Before_def year_10000_def day_ns_def second_def)

subsection \<open>The worker\<close>

text \<open>One lifetime with one round, and whose result a queued operation ends with.\<close>

lemma run_settles:
  assumes "healthy d" "reviewed_scope d (op_Request x)" "db_ok (s_db s)" "Latest True (s_db s) = Inr x"
    and "timely (instant (d_now d (s_tick s))) x" "\<not> s_running s" "\<not> r_cancelled r"
    and "r_requests r = [] \<or> op_State x = StateQueued"
  shows "(\<forall>e. fst (Run d cancelled [r] s) \<noteq> RunError e) \<and>
    (\<exists>y. Latest True (s_db (snd (Run d cancelled [r] s))) = Inr y \<and> settled y \<and> same_work x y
      \<and> (op_State x = StateQueued \<longrightarrow> (\<exists>n. let run = d_Execute d n (op_ID x) (op_Request x)
           in orderly PhaseRevalidating run \<and> validateExecutorResult (durable_result run) = None \<longrightarrow> carries (durable_result run) y)))"
proof -
  note x = latest_of_ok [OF assms(3,4)]
  let ?s = "s\<lparr>s_running := True\<rparr>"
  have "holds d (Some x) ?s" using x assms(5) by (simp add: holds_Some)
  from recover_holds [OF assms(1) this] obtain b s1 z where
    r: "recover d ?s = (Inr b, s1)" "holds d (Some z) s1" "same_work x z" "op_State z = StateQueued \<or> settled z"
       "op_State x = StateQueued \<Longrightarrow> z = x"
    by (auto split: if_splits)
  let ?s1 = "s1\<lparr>s_interruptedOnStart := b, s_ready := True\<rparr>"
  let ?answer = "\<lambda>x y. \<exists>n. let run = d_Execute d n (op_ID x) (op_Request x)
    in orderly PhaseRevalidating run \<and> validateExecutorResult (durable_result run) = None \<longrightarrow> carries (durable_result run) y"
  have h: "holds d (Some z) ?s1" using r(2) by simp
  have "reviewed_scope d (op_Request z)" using assms(2) r(3) by (simp add: same_work_def)
  then obtain y where y: "holds d (Some y) (snd (run_loop d [r] ?s1))" "settled y" "same_work z y"
      "op_State z = StateQueued \<longrightarrow> ?answer z y"
    and ne: "\<forall>e. fst (run_loop d [r] ?s1) \<noteq> RunError e"
    using first_round_settles [OF assms(1) _ h r(4) assms(7)] assms(8) r(5) by blast
  have latest: "Latest True (s_db (snd (run_loop d [r] ?s1))) = Inr y"
    using y(1) by (simp add: holds_Some store_Latest_valid)
  have Run: "s_db (snd (Run d cancelled [r] s)) = s_db (snd (run_loop d [r] ?s1))" "fst (Run d cancelled [r] s) = fst (run_loop d [r] ?s1)"
    using r(1) assms(6) by (auto simp: Run_def Let_def split: prod.split simp del: run_loop.simps)
  have "op_State x = StateQueued \<longrightarrow> ?answer x y" using y(4) r(5) by blast
  then show ?thesis unfolding Run using latest ne y(2) same_work_trans [OF r(3) y(3)] by blast
qed

text \<open>C5: A service lifetime settles the work it finds.  With a database that answers, a clock that
  does not step back, and an executor whose valid results answer for the reviewed names (it may
  panic, report phases out of order or return anything invalid), starting \<open>Run\<close> on a stored
  operation in any state and letting it pass one round (with further requests arriving while the
  operation is still queued, which are refused) ends with that operation terminal, its
  inventory reconciled, readable, and \<open>Run\<close> has not failed.\<close>

theorem lifetime_settles:
  assumes "healthy d" "reviewed_scope d (op_Request x)" "db_ok (s_db s)" "Latest True (s_db s) = Inr x"
    and "timely (instant (d_now d (s_tick s))) x" "\<not> s_running s" "\<not> r_cancelled r"
    and "r_requests r = [] \<or> op_State x = StateQueued"
  shows "(\<forall>e. fst (Run d cancelled [r] s) \<noteq> RunError e) \<and>
    (\<exists>y. Latest True (s_db (snd (Run d cancelled [r] s))) = Inr y \<and> settled y \<and> same_work x y)"
  using run_settles [OF assms] by blast

theorem lifetime_settles_witness:
  "\<exists>y. Latest True (s_db (snd (Run example_executor False
      [\<lparr>r_requests = [], r_cancelled = False, r_cancelled_after = False, r_wait = WaitTimer\<rparr>] example_service))) = Inr y
      \<and> settled y \<and> same_work example_queued y"
proof -
  have "Latest True (s_db example_service) = Inr example_queued"
    by (simp add: example_service_def store_Latest_valid example_queued_valid)
  moreover have "db_ok (s_db example_service)" "\<not> s_running example_service" by (simp_all add: example_service_def)
  moreover have "timely (instant (d_now example_executor (s_tick example_service))) example_queued"
    by (simp add: example_queued_def example_executor_def stamped_timely instant_eq example_time_def utc_instant_def)
  ultimately show ?thesis
    using lifetime_settles [OF example_healthy example_scope, of example_service example_queued
      "\<lparr>r_requests = [], r_cancelled = False, r_cancelled_after = False, r_wait = WaitTimer\<rparr>"] by simp
qed

text \<open>Start-up recovery.  Under the same conditions \<open>recover\<close> succeeds, reports an interruption
  exactly when an operation was running, leaves a queued operation untouched, and otherwise
  leaves the operation settled: nothing is running and nothing awaits reconciliation.\<close>

theorem recovery_settles:
  assumes "healthy d" "db_ok (s_db s)" "Latest True (s_db s) = Inr x" "timely (instant (d_now d (s_tick s))) x"
  shows "\<exists>s' y. recover d s = (Inr (op_State x = StateRunning), s') \<and> Latest True (s_db s') = Inr y
     \<and> same_work x y \<and> (if op_State x = StateQueued then y = x else settled y)"
proof -
  note x = latest_of_ok [OF assms(2,3)]
  have "holds d (Some x) s" using x assms(4) by (simp add: holds_Some)
  from recover_holds [OF assms(1) this] obtain s' z where
    r: "recover d s = (Inr (op_State x = StateRunning), s')" "holds d (Some z) s'" "same_work x z"
       "if op_State x = StateQueued then z = x else settled z" by auto
  moreover have "Latest True (s_db s') = Inr z" using r(2) by (simp add: holds_Some store_Latest_valid)
  ultimately show ?thesis by blast
qed

theorem recovery_settles_witness:
  "\<exists>s' y. recover example_executor (example_service\<lparr>s_db := db_of (Some example_running)\<rparr>) = (Inr True, s')
     \<and> Latest True (s_db s') = Inr y \<and> same_work example_running y \<and> settled y"
proof -
  let ?s = "example_service\<lparr>s_db := db_of (Some example_running)\<rparr>"
  have "Latest True (s_db ?s) = Inr example_running" by (simp add: store_Latest_valid example_running_valid)
  moreover have "timely (instant (d_now example_executor (s_tick ?s))) example_running"
    by (simp add: timely_def example_executor_def instant_eq example_time_def Before_def)
       (simp add: example_running_def example_queued_def op_updates zero_time_def)
  moreover have "db_ok (s_db ?s)" by simp
  ultimately show ?thesis
    using recovery_settles [OF example_healthy, of ?s example_running] by simp
qed

text \<open>Service lifetimes: each is a fresh process on the database its predecessor left.\<close>

definition fresh_process :: "Service \<Rightarrow> Service" where
  "fresh_process s = s\<lparr>s_wake := False, s_ready := False, s_running := False, s_interruptedOnStart := False\<rparr>"

definition lifetimes :: "(Executor \<times> bool \<times> round list) list \<Rightarrow> Service \<Rightarrow> Service" where
  "lifetimes ls s = fold (\<lambda>(d, cancelled, rs) s. snd (Run d cancelled rs (fresh_process s))) ls s"

lemma lifetimes_steps: "store_run s (lifetimes ls s)"
proof (induction ls arbitrary: s)
  case (Cons l ls)
  obtain d c rs where l: "l = (d, c, rs)" by (metis prod.exhaust)
  let ?s = "snd (Run d c rs (fresh_process s))"
  have "store_run (fresh_process s) ?s" by (rule Run_steps)
  moreover have "s_db (fresh_process s) = s_db s" by (simp add: fresh_process_def)
  ultimately have "store_run s ?s" by simp
  with Cons [of ?s] show ?case by (simp add: lifetimes_def l)
qed (simp add: lifetimes_def)

text \<open>C6: Restarts and faults lose nothing.  Over any number of service lifetimes, with failing
  transactions, arbitrary clocks, executors and concurrent requests, the database stays valid and
  an accepted operation is still stored, no earlier in its lifecycle, unless it was settled on
  the way.\<close>

theorem restarts_keep_accepted_work:
  assumes "db_ok (s_db s)" "db_view (s_db s) = Some x"
  shows "db_ok (s_db (lifetimes ls s)) \<and>
    ((\<exists>y. db_view (s_db (lifetimes ls s)) = Some y \<and> same_work x y \<and> rank x \<le> rank y) \<or>
     (\<exists>d y. store_step\<^sup>*\<^sup>* (s_db s) d \<and> store_step\<^sup>*\<^sup>* d (s_db (lifetimes ls s))
        \<and> db_view d = Some y \<and> same_work x y \<and> settled y))"
  using reachable_ok [OF lifetimes_steps assms(1)]
    os.run_keeps_work [OF lifetimes_steps [unfolded store_step_is] assms]
  unfolding store_step_is by blast

theorem restarts_keep_accepted_work_witness:
  "db_ok (s_db (lifetimes [(example_executor\<lparr>d_carried := \<lambda>_. False\<rparr>, False, []), (example_executor, False, [])] example_service))"
  using restarts_keep_accepted_work [of example_service example_queued] by (simp add: example_service_def)

text \<open>The two projections of a readable operation are complementary.  While it is unsettled
  \<open>Status\<close> shows it as active work, without any terminal field of a row that awaits
  reconciliation, and \<open>Latest\<close> hides it; once settled \<open>Latest\<close> returns it and \<open>Status\<close> nothing.\<close>

theorem projections_complementary:
  assumes "db_ok (s_db s)" "Latest True (s_db s) = Inr x"
  shows "if settled x then service_Status True s = Inl ErrNotFound \<and> service_Latest True s = Inr x
    else service_Latest True s = Inl ErrNotFound \<and>
      (\<exists>y. service_Status True s = Inr y \<and> active (op_State y) \<and> op_ID y = op_ID x \<and> op_Output y = []
         \<and> op_Code y = [] \<and> op_Items y = [] \<and> op_Inventory y = pending_inventory \<and> IsZero (op_FinishedAt y))"
proof -
  note x = latest_of_ok [OF assms]
  have inv: "active (op_State x) \<Longrightarrow> op_Inventory x = pending_inventory"
    using x(2) by (intro InventoryResult.equality) (auto simp: active_def valid_op_def validateOperation_def
       validate_lifecycle_def pending_inventory_def validateInventory_def)
  have fields: "active (op_State x) \<Longrightarrow> op_Output x = [] \<and> op_Code x = [] \<and> op_Items x = [] \<and> IsZero (op_FinishedAt x)"
    using x(2) by (auto simp: active_def valid_op_def validateOperation_def validate_lifecycle_def)
  show ?thesis
    using inv fields assms(2) valid_states [OF x(2)] terminal_not_active [of "op_State x"]
    by (auto simp: service_Status_def service_Latest_def settled_def active_def synthetic_running_def zero_time_def IsZero_def)
qed

theorem projections_complementary_witness:
  "service_Latest True example_service = Inl ErrNotFound \<and> (\<exists>y. service_Status True example_service = Inr y \<and> op_ID y = example_id)"
proof -
  have "Latest True (s_db example_service) = Inr example_queued" "db_ok (s_db example_service)"
    by (simp_all add: example_service_def store_Latest_valid example_queued_valid)
  from projections_complementary [OF this(2,1)] show ?thesis
    by (auto simp: settled_def) (auto simp: example_queued_def queued_op_def)
qed

text \<open>C38: A clock that has stepped back behind the request time of queued work stops the worker:
  the claim fails its read-back with \<open>ErrInvalid\<close>, is rolled back, and the loop returns the error.\<close>

theorem worker_stops_on_clock_step_back:
  assumes "db_ok (s_db s)" "db_view (s_db s) = Some x" "op_State x = StateQueued" "d_carried d (s_tick s)"
    and "canonical_time (instant (d_now d (s_tick s)))" "Before (instant (d_now d (s_tick s))) (op_RequestedAt x)"
    and "r_requests r = []" "\<not> r_cancelled r" "\<not> r_cancelled_after r"
  shows "fst (run_loop d (r # rs) s) = RunError ErrInvalid \<and> s_db (snd (run_loop d (r # rs) s)) = s_db s"
  using db_ok_view [OF assms(1,2)] claim_queued(1) [OF _ assms(3,5)] assms(3-9)
  by (simp add: requests_def transact_def)

theorem worker_stops_on_clock_step_back_witness:
  "fst (run_loop (example_executor\<lparr>d_now := \<lambda>_. utc_instant 1\<rparr>)
      [\<lparr>r_requests = [], r_cancelled = False, r_cancelled_after = False, r_wait = WaitTimer\<rparr>] example_service) = RunError ErrInvalid"
proof -
  let ?d = "example_executor\<lparr>d_now := \<lambda>_. utc_instant 1\<rparr>"
  have a: "db_ok (s_db example_service)" "db_view (s_db example_service) = Some example_queued"
    by (simp_all add: example_service_def)
  have "d_carried ?d (s_tick example_service)" by (simp add: example_executor_def)
  moreover have "canonical_time (instant (d_now ?d (s_tick example_service)))"
    "Before (instant (d_now ?d (s_tick example_service))) (op_RequestedAt example_queued)"
    by (simp_all add: instant_eq example_time_def Before_def year_10000_def day_ns_def second_def)
  ultimately show ?thesis
    using worker_stops_on_clock_step_back [OF a, of ?d
      "\<lparr>r_requests = [], r_cancelled = False, r_cancelled_after = False, r_wait = WaitTimer\<rparr>" "[]"]
    by (simp del: run_loop.simps)
qed

end
