(* ===== verification/Jobs_Spec.thy ===== *)
theory Jobs_Spec
  imports Jobs_Properties
begin

text \<open>
  The lifecycle the operation store promises, as a machine on at most one operation, and the refinement
  of it by every transaction of the store, and so by every lifetime of the worker.
\<close>

inductive lifecycle :: "Operation option \<Rightarrow> Operation option \<Rightarrow> bool" where
  accept: "(\<And>y. x = Some y \<Longrightarrow> settled y) \<Longrightarrow> lifecycle x (Some (queued_op i k q t))"
| start: "op_State x = StateQueued \<Longrightarrow> lifecycle (Some x) (Some (claimed t x))"
| advance: "op_State x = StateRunning \<Longrightarrow> validPhaseTransition (op_Phase x) ph \<Longrightarrow> lifecycle (Some x) (Some (phased ph t x))"
| finish: "op_State x = StateRunning \<Longrightarrow> validateExecutorResult res = None \<Longrightarrow> map it_Name (res_Items res) = req_Items (op_Request x) \<Longrightarrow>
    lifecycle (Some x) (Some (finished res (res_Items res) t x))"
| interrupt: "op_State x = StateRunning \<Longrightarrow> s = StateInterrupted \<or> s = StateAmbiguous \<Longrightarrow> lifecycle (Some x) (Some (uncertain s c t x))"
| reconcile: "pending x \<Longrightarrow> validateInventory v False = None \<Longrightarrow> lifecycle (Some x) (Some (reconciled v t x))"

context operation_store
begin

lemma step_refines:
  assumes "ok db" "step db db'"
  shows "ok db' \<and> (view db' = view db \<or> lifecycle (view db) (view db'))"
  using assms(2)
proof cases
  case (enqueue b i k q t)
  with enqueue_law [OF assms(1), of b i k q t "fst (enqueue b i k q t db)" db'] assms(1)
  show ?thesis by (auto intro!: lifecycle.accept)
next
  case (claim b t)
  with claim_law [OF assms(1), of b t "fst (claim b t db)" db'] assms(1) show ?thesis by (auto intro!: lifecycle.start)
next
  case (phase b i ph t)
  with phase_law [OF assms(1), of b i ph t "fst (update_phase b i ph t db)" db'] assms(1) show ?thesis
    by (auto intro!: lifecycle.advance)
next
  case (finish b i res t)
  with finish_law [OF assms(1), of b i res t "fst (finish_op b i res t db)" db'] assms(1) show ?thesis
    by (auto intro!: lifecycle.finish)
next
  case (uncertain b i s c t)
  with uncertain_law [OF assms(1), of b i s c t "fst (finish_uncertain b i s c t db)" db'] assms(1) show ?thesis
    by (auto intro!: lifecycle.interrupt)
next
  case (interrupt b t)
  with interrupt_law [OF assms(1), of b t "fst (interrupt b t db)" db'] assms(1) show ?thesis
    by (auto intro!: lifecycle.interrupt)
next
  case (complete b i v t)
  with complete_law [OF assms(1), of b i v t "fst (complete b i v t db)" db'] assms(1) show ?thesis
    by (auto intro!: lifecycle.reconcile)
qed

lemma steps_refine: "step\<^sup>*\<^sup>* db db' \<Longrightarrow> ok db \<Longrightarrow> ok db' \<and> lifecycle\<^sup>*\<^sup>* (view db) (view db')"
proof (induction rule: rtranclp_induct)
  case (step y z)
  then show ?case using step_refines [of y z] by (auto intro: rtranclp.rtrancl_into_rtrancl)
qed simp

end

text \<open>C13: The worker refines the lifecycle.  Whatever the executor, the clock, the database and the
  requests of other threads do, a lifetime of the worker, recovery included, takes the stored
  operation only along the promised lifecycle: nothing is accepted over unsettled work, work starts
  once, phases go forward, and a result is final only for exactly the reviewed items.\<close>

theorem worker_refines_lifecycle:
  assumes "db_ok (s_db s)"
  shows "db_ok (s_db (snd (Run d cancelled rounds s)))
    \<and> lifecycle\<^sup>*\<^sup>* (db_view (s_db s)) (db_view (s_db (snd (Run d cancelled rounds s))))"
  using os.steps_refine [OF Run_steps [unfolded store_step_is] assms] .

theorem worker_refines_lifecycle_witness:
  "lifecycle\<^sup>*\<^sup>* (Some example_queued) (db_view (s_db (snd (Run example_executor False
      [\<lparr>r_requests = [], r_cancelled = False, r_cancelled_after = False, r_wait = WaitTimer\<rparr>] example_service))))"
  using worker_refines_lifecycle [of example_service example_executor False
      "[\<lparr>r_requests = [], r_cancelled = False, r_cancelled_after = False, r_wait = WaitTimer\<rparr>]"]
  by (simp add: example_service_def)

end
