(* ===== verification/Sched_Calc.thy ===== *)
theory Sched_Calc
  imports Go_Time
begin

text \<open>
  Daily occurrences of a schedule (\<open>internal/scheduler/calculate.go\<close> and \<open>types.go\<close>).  A
  \<open>time.Location\<close> is the function from instants to the offset (in seconds east of UTC) that the
  zone database gives; a civil date is its day number, which the calendar of \<open>Go_Time\<close> maps one
  to one to year, month and day.  The theory characterises both searches: an occurrence is the
  first whole minute of its local date at or after the chosen time, and the next occurrence is
  strictly in the future and skips no date.
\<close>

type_synonym Location = "int \<Rightarrow> int"

definition minutesPerDay :: int where "minutesPerDay = 1440"

definition canonicalInstant :: "gotime \<Rightarrow> bool \<Rightarrow> bytes option" where
  "canonicalInstant value required =
     (if IsZero value then fails_if required ''UTC instant is required''
      else fails_if (\<not> t_utc value \<or> value \<noteq> Round0 value \<or> t_ns value < 0 \<or> t_ns value \<ge> year_10000)
             ''instant is not canonical UTC'')"

lemma canonicalInstant_required [simp]: "canonicalInstant t True = None \<longleftrightarrow> canonical_time t"
  by (auto simp: canonicalInstant_def canonical_time_def IsZero_def)

subsection \<open>Local civil time\<close>

definition local_ns :: "Location \<Rightarrow> int \<Rightarrow> int" where
  "local_ns loc t = t + loc t * second"

definition local_day :: "Location \<Rightarrow> int \<Rightarrow> int" where
  "local_day loc t = local_ns loc t div day_ns"

definition local_second :: "Location \<Rightarrow> int \<Rightarrow> int" where
  "local_second loc t = local_ns loc t mod day_ns div second mod 60"

definition local_minute :: "Location \<Rightarrow> int \<Rightarrow> int" where
  "local_minute loc t = local_ns loc t mod day_ns div minute"

text \<open>\<open>Format("2006-01-02")\<close> of a local date: four year digits from year 0 to 9999, five from 10000.\<close>

definition day_text :: "int \<Rightarrow> bytes" where
  "day_text d =
     (if d < 0 then ''0000'' @ drop 4 (date_text (nat (d + 146097)))
      else if 3652059 \<le> d then CHR ''1'' # date_text (nat d)
      else date_text (nat d))"

definition occurrenceLocalDate :: "gotime \<Rightarrow> Location \<Rightarrow> bytes" where
  "occurrenceLocalDate occurrence loc = day_text (local_day loc (t_ns occurrence))"

definition localTimeText :: "nat \<Rightarrow> bytes" where
  "localTimeText m = dec 2 (m div 60) @ '':'' @ dec 2 (m mod 60)"

subsection \<open>The searches\<close>

function occurrence_scan :: "Location \<Rightarrow> int \<Rightarrow> int \<Rightarrow> int \<Rightarrow> int \<Rightarrow> int option" where
  "occurrence_scan loc day localMinute end t =
     (if \<not> t < end then None
      else if local_day loc t \<noteq> day \<or> local_second loc t \<noteq> 0
      then occurrence_scan loc day localMinute end (t + minute)
      else if localMinute \<le> local_minute loc t then Some t
      else occurrence_scan loc day localMinute end (t + minute))"
  by pat_completeness auto
termination
  by (relation "measure (\<lambda>(_, _, _, end, t). nat (end - t))") (auto simp: minute_def second_def)

declare occurrence_scan.simps [simp del]

definition occurrenceOnDate :: "int \<Rightarrow> Location \<Rightarrow> int \<Rightarrow> (bytes, gotime) result" where
  "occurrenceOnDate day loc localMinute =
     (let start = day * day_ns - day_ns; end = start + 3 * day_ns
      in case occurrence_scan loc day localMinute end start of
           Some t \<Rightarrow> Inr (utc_instant t)
         | None \<Rightarrow> Inl ''IANA time zone has no valid instant'')"

fun next_search :: "gotime \<Rightarrow> Location \<Rightarrow> int \<Rightarrow> int \<Rightarrow> nat \<Rightarrow> (bytes, gotime) result" where
  "next_search after loc localMinute date 0 = Inl ''daily schedule has no bounded next occurrence''"
| "next_search after loc localMinute date (Suc n) =
     (case occurrenceOnDate date loc localMinute of
        Inl e \<Rightarrow> Inl e
      | Inr candidate \<Rightarrow>
          if Before after candidate then Inr candidate
          else next_search after loc localMinute (date + 1) n)"

definition nextOccurrence :: "gotime \<Rightarrow> Location \<Rightarrow> int \<Rightarrow> (bytes, gotime) result" where
  "nextOccurrence after loc localMinute =
     (if canonicalInstant after True \<noteq> None \<or> localMinute < 0 \<or> localMinute \<ge> minutesPerDay
      then Inl ''daily schedule calculation is invalid''
      else next_search after loc localMinute (local_day loc (t_ns after)) 370)"

subsection \<open>What the scan finds\<close>

text \<open>A whole local minute of the date, at or after the chosen time.\<close>

definition on_schedule :: "Location \<Rightarrow> int \<Rightarrow> int \<Rightarrow> int \<Rightarrow> bool" where
  "on_schedule loc day localMinute t \<longleftrightarrow>
     local_day loc t = day \<and> local_second loc t = 0 \<and> localMinute \<le> local_minute loc t"

lemma minute_pos [simp]: "0 < minute"
  by (simp add: minute_def second_def)

lemma occurrence_scan_step:
  "occurrence_scan loc day m fin t =
     (if \<not> t < fin then None else if on_schedule loc day m t then Some t
      else occurrence_scan loc day m fin (t + minute))"
  by (simp add: occurrence_scan.simps [of loc day m fin t] on_schedule_def)

lemma minute_shift: "(v - (t + minute)) mod minute = (v - t) mod minute"
proof -
  have "(v - (t + minute)) mod minute = (v - t - minute) mod minute" by (simp add: algebra_simps)
  then show ?thesis by (simp only: minus_mod_self2)
qed

lemma minute_next: "t \<le> v \<Longrightarrow> (v - t) mod minute = 0 \<Longrightarrow> v = t \<or> t + minute \<le> v"
  using zdvd_imp_le [of minute "v - t"] by (auto simp: dvd_eq_mod_eq_0)

lemma scan_closer: "t < fin \<Longrightarrow> nat (fin - (t + minute)) < nat (fin - t)"
  by (simp add: minute_def second_def)

lemma occurrence_scan_Some:
  "occurrence_scan loc day m fin t = Some u \<Longrightarrow>
     on_schedule loc day m u \<and> t \<le> u \<and> u < fin \<and> (u - t) mod minute = 0
     \<and> (\<forall>v. t \<le> v \<and> v < u \<and> (v - t) mod minute = 0 \<longrightarrow> \<not> on_schedule loc day m v)"
proof (induction "nat (fin - t)" arbitrary: t rule: less_induct)
  case less
  show ?case
  proof (cases "t < fin \<and> on_schedule loc day m t")
    case True
    with less.prems show ?thesis by (auto simp: occurrence_scan_step [of loc day m fin t])
  next
    case False
    with less.prems have rec: "occurrence_scan loc day m fin (t + minute) = Some u" "t < fin" "\<not> on_schedule loc day m t"
      by (auto simp: occurrence_scan_step [of loc day m fin t] split: if_splits)
    note ih = less.hyps [OF scan_closer [OF rec(2)] rec(1), unfolded minute_shift]
    then have "t \<le> u" using minute_pos by linarith
    with ih rec(3) minute_next [of t] show ?thesis by metis
  qed
qed

lemma occurrence_scan_None:
  "occurrence_scan loc day m fin t = None \<Longrightarrow> t \<le> v \<Longrightarrow> v < fin \<Longrightarrow> (v - t) mod minute = 0
   \<Longrightarrow> \<not> on_schedule loc day m v"
proof (induction "nat (fin - t)" arbitrary: t rule: less_induct)
  case less
  then have rec: "occurrence_scan loc day m fin (t + minute) = None" "t < fin" "\<not> on_schedule loc day m t"
    by (auto simp: occurrence_scan_step [of loc day m fin t] split: if_splits)
  with less.hyps [OF scan_closer [OF rec(2)] rec(1)] less.prems(2-4) minute_next [of t v] show ?case
    by (auto simp: minute_shift)
qed

lemma occurrence_scan_finds:
  assumes "on_schedule loc day m v" "t \<le> v" "v < fin" "(v - t) mod minute = 0"
  shows "\<exists>u. occurrence_scan loc day m fin t = Some u \<and> u \<le> v"
proof (cases "occurrence_scan loc day m fin t")
  case None
  with occurrence_scan_None [OF None assms(2-4)] assms(1) show ?thesis by simp
next
  case (Some u)
  with occurrence_scan_Some [OF Some] assms show ?thesis by (meson not_less)
qed

text \<open>The UTC window of a date.\<close>

definition in_window :: "int \<Rightarrow> int \<Rightarrow> bool" where
  "in_window day t \<longleftrightarrow> day * day_ns - day_ns \<le> t \<and> t < day * day_ns + 2 * day_ns \<and> t mod minute = 0"

lemma window_minutes: "(t - (day * day_ns - day_ns)) mod minute = t mod minute"
proof -
  have "t - (day * day_ns - day_ns) = t + minute * (1440 - day * 1440)" by (simp add: day_ns_def minute_def algebra_simps)
  then show ?thesis by (simp only: mod_mult_self2)
qed

lemma window_end: "day * day_ns - day_ns + 3 * day_ns = day * day_ns + 2 * day_ns"
  by simp

lemma occurrenceOnDate_Inr:
  assumes "occurrenceOnDate day loc m = Inr c"
  shows "on_schedule loc day m (t_ns c)" "in_window day (t_ns c)" "c = utc_instant (t_ns c)"
    "\<And>v. in_window day v \<Longrightarrow> on_schedule loc day m v \<Longrightarrow> t_ns c \<le> v"
proof -
  obtain u where u: "occurrence_scan loc day m (day * day_ns - day_ns + 3 * day_ns) (day * day_ns - day_ns) = Some u"
    "c = utc_instant u"
    using assms by (auto simp: occurrenceOnDate_def Let_def split: option.splits)
  note s = occurrence_scan_Some [OF u(1), unfolded window_minutes window_end]
  show "on_schedule loc day m (t_ns c)" "in_window day (t_ns c)" "c = utc_instant (t_ns c)"
    using s u(2) by (simp_all add: in_window_def)
  show "t_ns c \<le> v" if "in_window day v" "on_schedule loc day m v" for v
    using s u(2) that by (auto simp: in_window_def not_less [symmetric])
qed

lemma occurrenceOnDate_finds:
  "in_window day v \<Longrightarrow> on_schedule loc day m v \<Longrightarrow> \<exists>c. occurrenceOnDate day loc m = Inr c \<and> t_ns c \<le> v"
  using occurrence_scan_finds [of loc day m v "day * day_ns - day_ns" "day * day_ns - day_ns + 3 * day_ns"]
  by (auto simp: in_window_def window_minutes occurrenceOnDate_def Let_def)

lemma occurrenceOnDate_Inl:
  "occurrenceOnDate day loc m = Inl e \<longleftrightarrow>
     e = ''IANA time zone has no valid instant'' \<and> (\<forall>v. in_window day v \<longrightarrow> \<not> on_schedule loc day m v)"
proof (cases "occurrenceOnDate day loc m")
  case (Inl e')
  then have e': "e' = ''IANA time zone has no valid instant''"
    by (auto simp: occurrenceOnDate_def Let_def split: option.splits)
  with Inl occurrenceOnDate_finds [of day _ loc m] show ?thesis by fastforce
next
  case (Inr c)
  with occurrenceOnDate_Inr(1,2) [OF Inr] show ?thesis by auto
qed

subsection \<open>What the search over dates finds\<close>

lemma next_search_Inr:
  "next_search after loc m date n = Inr c \<Longrightarrow>
     Before after c \<and> (\<exists>k. k < n \<and> occurrenceOnDate (date + int k) loc m = Inr c
       \<and> (\<forall>j < k. \<exists>b. occurrenceOnDate (date + int j) loc m = Inr b \<and> \<not> Before after b))"
proof (induction n arbitrary: date)
  case (Suc n)
  then obtain b where b: "occurrenceOnDate date loc m = Inr b" by (auto split: sum.splits)
  show ?case
  proof (cases "Before after b")
    case True
    with Suc.prems b show ?thesis by (auto intro!: exI [of _ 0])
  next
    case False
    with Suc.prems b have "next_search after loc m (date + 1) n = Inr c" by simp
    from Suc.IH [OF this] obtain k where k: "Before after c" "k < n" "occurrenceOnDate (date + 1 + int k) loc m = Inr c"
      "\<forall>j < k. \<exists>b. occurrenceOnDate (date + 1 + int j) loc m = Inr b \<and> \<not> Before after b" by blast
    have "\<exists>b. occurrenceOnDate (date + int j) loc m = Inr b \<and> \<not> Before after b" if "j < Suc k" for j
      using that False b k(4) by (cases j) (auto simp: algebra_simps)
    with k show ?thesis by (intro conjI exI [of _ "Suc k"]) (auto simp: algebra_simps)
  qed
qed simp

lemma next_search_finds:
  assumes "\<And>j. j < n \<Longrightarrow> \<exists>b. occurrenceOnDate (date + int j) loc m = Inr b"
    and "k < n" "occurrenceOnDate (date + int k) loc m = Inr c" "Before after c"
  shows "\<exists>c'. next_search after loc m date n = Inr c'"
  using assms
proof (induction n arbitrary: date k)
  case (Suc n)
  obtain b where b: "occurrenceOnDate date loc m = Inr b" using Suc.prems(1) [of 0] by auto
  show ?case
  proof (cases "Before after b")
    case False
    then have "k \<noteq> 0" using Suc.prems(3,4) b by (auto intro: ccontr)
    then obtain k' where "k = Suc k'" by (cases k) auto
    with Suc.prems have "k' < n" "occurrenceOnDate (date + 1 + int k') loc m = Inr c"
      "\<And>j. j < n \<Longrightarrow> \<exists>b. occurrenceOnDate (date + 1 + int j) loc m = Inr b"
      by (auto simp: algebra_simps) (metis Suc_less_eq add.commute add.left_commute of_nat_Suc)
    from Suc.IH [OF this(3,1,2) Suc.prems(4)] False b show ?thesis by simp
  qed (use b in simp)
qed simp

subsection \<open>Zones\<close>

text \<open>Offsets of the zone database stay within a day of UTC.\<close>

definition bounded_zone :: "Location \<Rightarrow> bool" where
  "bounded_zone loc \<longleftrightarrow> (\<forall>t. - 86400 < loc t \<and> loc t < 86400)"

lemma day_ns_pos [simp]: "0 < day_ns"
  by (simp add: day_ns_def second_def)

lemma minute_nonzero [simp]: "minute \<noteq> 0"
  using minute_pos by linarith

lemma local_day_bounds: "local_day loc t * day_ns \<le> local_ns loc t \<and> local_ns loc t < local_day loc t * day_ns + day_ns"
proof -
  have "0 \<le> local_ns loc t mod day_ns" "local_ns loc t mod day_ns < day_ns" by simp_all
  with div_mult_mod_eq [of "local_ns loc t" day_ns] show ?thesis unfolding local_day_def by linarith
qed

lemma offset_bounds: "bounded_zone loc \<Longrightarrow> - day_ns < loc t * second \<and> loc t * second < day_ns"
  by (simp add: bounded_zone_def day_ns_def second_def)

text \<open>The comment at \<open>occurrenceOnDate\<close>: every civil day is contained in the window.\<close>

lemma day_in_window:
  assumes "bounded_zone loc" "local_day loc t = day" "t mod minute = 0"
  shows "in_window day t"
  using local_day_bounds [of loc t] offset_bounds [OF assms(1), of t] assms(2,3)
  by (auto simp: in_window_def local_ns_def)

text \<open>A zone in which every date has an instant at or after the chosen time.\<close>

definition full_dates :: "Location \<Rightarrow> int \<Rightarrow> bool" where
  "full_dates loc m \<longleftrightarrow> (\<forall>day. \<exists>t. t mod minute = 0 \<and> on_schedule loc day m t)"

lemma full_dates_occurrence:
  assumes "bounded_zone loc" "full_dates loc m"
  shows "\<exists>b. occurrenceOnDate day loc m = Inr b"
proof -
  obtain t where t: "t mod minute = 0" "on_schedule loc day m t" using spec [OF assms(2) [unfolded full_dates_def], of day] by (elim exE conjE) (rule that)
  then have "in_window day t" by (intro day_in_window [OF assms(1)]) (simp_all add: on_schedule_def)
  with occurrenceOnDate_finds t(2) show ?thesis by blast
qed

lemma third_date_is_later:
  assumes "bounded_zone loc" "occurrenceOnDate (local_day loc (t_ns after) + 3) loc m = Inr c"
  shows "Before after c"
  using local_day_bounds [of loc "t_ns after"] offset_bounds [OF assms(1), of "t_ns after"]
    occurrenceOnDate_Inr(2) [OF assms(2)]
  by (simp add: in_window_def Before_def local_ns_def algebra_simps)

lemma next_within:
  assumes "next_search after loc m date n = Inr c" "3 < n" "occurrenceOnDate (date + 3) loc m = Inr b" "Before after b"
  shows "\<exists>k \<le> 3. occurrenceOnDate (date + int k) loc m = Inr c"
proof -
  obtain k where k: "occurrenceOnDate (date + int k) loc m = Inr c"
    "\<forall>j < k. \<exists>b. occurrenceOnDate (date + int j) loc m = Inr b \<and> \<not> Before after b"
    using next_search_Inr [OF assms(1)] by blast
  have "k \<le> 3"
  proof (rule ccontr)
    assume "\<not> k \<le> 3"
    then have "\<exists>b. occurrenceOnDate (date + int 3) loc m = Inr b \<and> \<not> Before after b" using k(2) by (meson not_le)
    with assms(3,4) show False by simp
  qed
  with k show ?thesis by blast
qed

text \<open>A fixed offset in whole minutes.\<close>

definition fixed_zone :: "int \<Rightarrow> Location" where
  "fixed_zone minutes = (\<lambda>_. minutes * 60)"

lemma fixed_zone_local: "local_ns (fixed_zone k) t = t + k * minute"
  by (simp add: local_ns_def fixed_zone_def minute_def)

lemma whole_minute_second: "local_ns loc t mod minute = 0 \<Longrightarrow> local_second loc t = 0"
proof -
  assume a: "local_ns loc t mod minute = 0"
  have "minute dvd day_ns" by (simp add: minute_def day_ns_def)
  then have "minute dvd local_ns loc t mod day_ns" using a by (simp add: dvd_eq_mod_eq_0 mod_mod_cancel)
  then obtain q where "local_ns loc t mod day_ns = minute * q" by blast
  then show ?thesis by (simp add: local_second_def minute_def second_def)
qed

lemma fixed_zone_schedule:
  assumes "0 \<le> m" "m < minutesPerDay"
  shows "on_schedule (fixed_zone k) day m (day * day_ns + (m - k) * minute)"
proof -
  let ?t = "day * day_ns + (m - k) * minute"
  have l: "local_ns (fixed_zone k) ?t = m * minute + day * day_ns" by (simp add: fixed_zone_local algebra_simps)
  have m: "0 \<le> m * minute" "m * minute < day_ns" using assms by (simp_all add: minutesPerDay_def minute_def day_ns_def second_def)
  then have d: "local_ns (fixed_zone k) ?t div day_ns = day" "local_ns (fixed_zone k) ?t mod day_ns = m * minute"
    unfolding l by simp_all
  have "local_ns (fixed_zone k) ?t mod minute = 0" unfolding l by (simp add: day_ns_def minute_def)
  from whole_minute_second [OF this] d show ?thesis
    by (simp add: on_schedule_def local_day_def local_minute_def)
qed

lemma fixed_zone_good:
  assumes "\<bar>k\<bar> < 1440" "0 \<le> m" "m < minutesPerDay"
  shows "bounded_zone (fixed_zone k)" "full_dates (fixed_zone k) m"
proof -
  show "bounded_zone (fixed_zone k)" using assms(1) by (auto simp: bounded_zone_def fixed_zone_def)
  have "(day * day_ns + (m - k) * minute) mod minute = 0" for day
  proof -
    have "day * day_ns + (m - k) * minute = minute * (day * 1440 + (m - k))" by (simp add: day_ns_def minute_def algebra_simps)
    then show ?thesis by simp
  qed
  then show "full_dates (fixed_zone k) m" using fixed_zone_schedule [OF assms(2,3), of k] unfolding full_dates_def by blast
qed

text \<open>A zone that moves its clocks forward once, from one whole-hour offset to another.\<close>

definition step_zone :: "int \<Rightarrow> int \<Rightarrow> int \<Rightarrow> Location" where
  "step_zone transition before_hours after_hours = (\<lambda>t. if t < transition then before_hours * 3600 else after_hours * 3600)"

end
