(* ===== verification/Sched_Store.thy ===== *)
theory Sched_Store
  imports Sched_Calc
begin

text \<open>
  The durable schedule (\<open>internal/scheduler/store.go\<close>, with the table of migration 009) and the
  evaluation loop (\<open>service.go\<close>).  The zone database (\<open>time.LoadLocation\<close>) is a parameter.
  Rows hold the texts the program writes; \<open>schema_ok\<close> is the table's \<open>CHECK\<close>s.
\<close>

subsection \<open>Data\<close>

datatype sched_state = StateDisabled | StateScheduled | StateDue | StateDeferred | StateBlocked

datatype sched_error = ErrScheduleInvalid | ErrNotDue | ErrScheduleChanged | ErrCalculation | ErrScheduleDatabase

record Schedule =
  Configured :: bool
  Enabled :: bool
  TimeZone :: bytes
  LocalMinute :: int
  NextEvaluation :: gotime
  LastTriggeredAt :: gotime
  LastTriggerDate :: bytes
  ReasonCode :: bytes
  UpdatedAt :: gotime
  sch_State :: sched_state
  Claiming :: bool
  ClaimedOccurrence :: gotime

record Update =
  upd_Enabled :: bool
  upd_TimeZone :: bytes
  upd_LocalMinute :: int

record schedule_row =
  enabled :: int
  time_zone :: bytes
  row_local_minute :: int
  next_evaluation_utc :: bytes
  last_triggered_at_utc :: bytes
  last_trigger_local_date :: bytes
  trigger_state :: bytes
  claimed_occurrence_utc :: bytes
  reason_code :: bytes
  updated_at_utc :: bytes

type_synonym zones = "bytes \<Rightarrow> Location option"

subsection \<open>Validation and text\<close>

definition letter :: "char \<Rightarrow> bool" where
  "letter c \<longleftrightarrow> (65 \<le> byte c \<and> byte c \<le> 90) \<or> (97 \<le> byte c \<and> byte c \<le> 122)"

definition zone_rest :: "char \<Rightarrow> bool" where
  "zone_rest c \<longleftrightarrow> letter c \<or> is_digit c \<or> c \<in> {CHR ''.'', CHR ''_'', CHR ''+'', CHR ''-''}"

definition zone_segment :: "(char \<Rightarrow> bool) \<Rightarrow> bytes \<Rightarrow> bool" where
  "zone_segment first s = (case s of [] \<Rightarrow> False | c # cs \<Rightarrow> first c \<and> list_all zone_rest cs)"

text \<open>\<open>zoneName\<close>: \<open>UTC\<close>, or at least two segments separated by slashes.\<close>

definition zoneName :: "bytes \<Rightarrow> bool" where
  "zoneName s \<longleftrightarrow> s = ''UTC'' \<or>
     (case split_at slash s of
        [] \<Rightarrow> False
      | x # xs \<Rightarrow> zone_segment letter x \<and> xs \<noteq> [] \<and> list_all (zone_segment (\<lambda>c. letter c \<or> is_digit c)) xs)"

definition validateUpdate :: "zones \<Rightarrow> Update \<Rightarrow> (sched_error, Location) result" where
  "validateUpdate zones u =
     (if upd_TimeZone u = [] \<or> length (upd_TimeZone u) > 128 \<or> \<not> zoneName (upd_TimeZone u) then Inl ErrScheduleInvalid
      else case zones (upd_TimeZone u) of
        None \<Rightarrow> Inl ErrScheduleInvalid
      | Some loc \<Rightarrow>
          if upd_LocalMinute u < 0 \<or> upd_LocalMinute u \<ge> minutesPerDay then Inl ErrScheduleInvalid else Inr loc)"

text \<open>Five year digits from year 10000, which a calculated occurrence can reach.\<close>

definition formatInstant :: "gotime \<Rightarrow> bytes" where
  "formatInstant t = (if t_ns t < year_10000 then rfc3339_text (nat (t_ns t)) else CHR ''1'' # rfc3339_text (nat (t_ns t)))"

definition parseInstant :: "bytes \<Rightarrow> bool \<Rightarrow> (sched_error, gotime) result" where
  "parseInstant v required =
     (if v = [] \<and> \<not> required then Inr zero_time
      else case parse_rfc3339 v of
        None \<Rightarrow> Inl ErrScheduleInvalid
      | Some n \<Rightarrow>
          (let t = utc_instant (int n) in
           if formatInstant t \<noteq> v then Inl ErrScheduleInvalid
           else case canonicalInstant t True of None \<Rightarrow> Inr t | Some _ \<Rightarrow> Inl ErrScheduleInvalid))"

definition reason_char :: "char \<Rightarrow> bool" where
  "reason_char c \<longleftrightarrow> (97 \<le> byte c \<and> byte c \<le> 122) \<or> is_digit c \<or> c = CHR ''_''"

definition reason_rune :: "nat \<Rightarrow> bool" where
  "reason_rune r \<longleftrightarrow> (97 \<le> r \<and> r \<le> 122) \<or> (48 \<le> r \<and> r \<le> 57) \<or> r = 95"

definition validReason :: "bytes \<Rightarrow> bool" where
  "validReason v = (case v of [] \<Rightarrow> False
     | c # _ \<Rightarrow> length v \<le> 64 \<and> 97 \<le> byte c \<and> byte c \<le> 122 \<and> list_all (\<lambda>(r, _). reason_rune r) (runes v))"

definition boolInteger :: "bool \<Rightarrow> int" where
  "boolInteger b = (if b then 1 else 0)"

subsection \<open>The table\<close>

definition instant_column :: "bytes \<Rightarrow> bool" where
  "instant_column s \<longleftrightarrow> length s = 0 \<or> (20 \<le> length s \<and> length s \<le> 30)"

definition schema_ok :: "schedule_row \<Rightarrow> bool" where
  "schema_ok r \<longleftrightarrow>
     enabled r \<in> {0, 1} \<and> 1 \<le> length (time_zone r) \<and> length (time_zone r) \<le> 128
     \<and> 0 \<le> row_local_minute r \<and> row_local_minute r \<le> 1439
     \<and> instant_column (next_evaluation_utc r) \<and> instant_column (last_triggered_at_utc r)
     \<and> length (last_trigger_local_date r) \<in> {0, 10}
     \<and> list_all (\<lambda>c. is_digit c \<or> c = CHR ''-'') (last_trigger_local_date r)
     \<and> trigger_state r \<in> {''idle'', ''claiming''} \<and> instant_column (claimed_occurrence_utc r)
     \<and> 1 \<le> length (reason_code r) \<and> length (reason_code r) \<le> 64 \<and> list_all reason_char (reason_code r)
     \<and> 20 \<le> length (updated_at_utc r) \<and> length (updated_at_utc r) \<le> 30
     \<and> (enabled r = 0 \<and> next_evaluation_utc r = [] \<and> trigger_state r = ''idle'' \<and> claimed_occurrence_utc r = []
        \<or> enabled r = 1 \<and> next_evaluation_utc r \<noteq> []
          \<and> (trigger_state r = ''idle'' \<and> claimed_occurrence_utc r = []
             \<or> trigger_state r = ''claiming'' \<and> claimed_occurrence_utc r \<noteq> []))"

type_synonym sched_db = "schedule_row option"

definition write_schedule :: "schedule_row \<Rightarrow> (sched_error, sched_db) result" where
  "write_schedule r = (if schema_ok r then Inr (Some r) else Inl ErrScheduleDatabase)"

subsection \<open>Reading\<close>

definition deriveState :: "Schedule \<Rightarrow> gotime \<Rightarrow> sched_state" where
  "deriveState s now =
     (if \<not> Configured s \<or> \<not> Enabled s then StateDisabled
      else if Claiming s \<or> \<not> Before now (NextEvaluation s) then
        (if ReasonCode s = ''operation_active'' \<or> ReasonCode s = ''workspace_busy'' then StateDeferred else StateDue)
      else if ReasonCode s \<in> {''configuration_invalid'', ''workspace_invalid'', ''recovery_required'', ''operation_unavailable''}
      then StateBlocked else StateScheduled)"

definition not_configured :: Schedule where
  "not_configured =
     \<lparr>Configured = False, Enabled = False, TimeZone = [], LocalMinute = 0, NextEvaluation = zero_time,
      LastTriggeredAt = zero_time, LastTriggerDate = [], ReasonCode = ''not_configured'', UpdatedAt = zero_time,
      sch_State = StateDisabled, Claiming = False, ClaimedOccurrence = zero_time\<rparr>"

definition loadSchedule :: "zones \<Rightarrow> sched_db \<Rightarrow> gotime \<Rightarrow> (sched_error, Schedule) result" where
  "loadSchedule zones db now =
     (case db of
        None \<Rightarrow> Inr not_configured
      | Some r \<Rightarrow>
          (let enabled = (enabled r = 1) in
           bind_result (parseInstant (next_evaluation_utc r) enabled) (\<lambda>next.
           bind_result (parseInstant (last_triggered_at_utc r) False) (\<lambda>last.
           bind_result (parseInstant (claimed_occurrence_utc r) False) (\<lambda>claimed.
           bind_result (parseInstant (updated_at_utc r) True) (\<lambda>updated.
           bind_result (validateUpdate zones \<lparr>upd_Enabled = enabled, upd_TimeZone = time_zone r,
                          upd_LocalMinute = row_local_minute r\<rparr>) (\<lambda>_.
           let s = \<lparr>Configured = True, Enabled = enabled, TimeZone = time_zone r, LocalMinute = row_local_minute r,
                    NextEvaluation = next, LastTriggeredAt = last, LastTriggerDate = last_trigger_local_date r,
                    ReasonCode = reason_code r, UpdatedAt = updated, sch_State = StateDisabled,
                    Claiming = (trigger_state r = ''claiming''), ClaimedOccurrence = claimed\<rparr>
           in Inr (s\<lparr>sch_State := deriveState s now\<rparr>))))))))"

definition ready :: "gotime \<Rightarrow> sched_error option" where
  "ready now = (case canonicalInstant now True of None \<Rightarrow> None | Some _ \<Rightarrow> Some ErrScheduleInvalid)"

definition calculated :: "(bytes, gotime) result \<Rightarrow> (sched_error, gotime) result" where
  "calculated r = (case r of Inr t \<Rightarrow> Inr t | Inl _ \<Rightarrow> Inl ErrCalculation)"

definition Get :: "zones \<Rightarrow> bool \<Rightarrow> gotime \<Rightarrow> sched_db \<Rightarrow> (sched_error, Schedule) result" where
  "Get zones ok now db =
     (case ready now of Some e \<Rightarrow> Inl e
      | None \<Rightarrow> fst (with_tx ErrScheduleDatabase ok db (\<lambda>db. bind_result (loadSchedule zones db now) (\<lambda>s. Inr (s, db)))))"

subsection \<open>Transactions\<close>

text \<open>The row after \<open>INSERT ... ON CONFLICT DO UPDATE\<close>: the columns of the last trigger keep their values.\<close>

definition saved_row :: "Update \<Rightarrow> bytes \<Rightarrow> gotime \<Rightarrow> schedule_row option \<Rightarrow> schedule_row" where
  "saved_row u nxt now old =
     \<lparr>enabled = boolInteger (upd_Enabled u), time_zone = upd_TimeZone u, row_local_minute = upd_LocalMinute u,
      next_evaluation_utc = nxt,
      last_triggered_at_utc = (case old of None \<Rightarrow> [] | Some r \<Rightarrow> last_triggered_at_utc r),
      last_trigger_local_date = (case old of None \<Rightarrow> [] | Some r \<Rightarrow> last_trigger_local_date r),
      trigger_state = ''idle'', claimed_occurrence_utc = [],
      reason_code = (if upd_Enabled u then ''schedule_saved'' else ''schedule_disabled''), updated_at_utc = formatInstant now\<rparr>"

definition Save :: "zones \<Rightarrow> bool \<Rightarrow> Update \<Rightarrow> gotime \<Rightarrow> sched_db \<Rightarrow> (sched_error, Schedule) result \<times> sched_db" where
  "Save zones ok u now db =
     (case ready now of Some e \<Rightarrow> (Inl e, db) | None \<Rightarrow>
      (case validateUpdate zones u of Inl e \<Rightarrow> (Inl e, db) | Inr loc \<Rightarrow>
       (case (if upd_Enabled u then map_sum (\<lambda>_. ErrScheduleInvalid) formatInstant (nextOccurrence now loc (upd_LocalMinute u))
              else Inr []) of
          Inl e \<Rightarrow> (Inl e, db)
        | Inr next \<Rightarrow>
            with_tx ErrScheduleDatabase ok db (\<lambda>old.
              bind_result (write_schedule (saved_row u next now old)) (\<lambda>db.
              bind_result (loadSchedule zones db now) (\<lambda>s. Inr (s, db)))))))"

text \<open>The \<open>UPDATE\<close> statements of the other transactions.\<close>

definition coalesced_row :: "gotime \<Rightarrow> gotime \<Rightarrow> schedule_row \<Rightarrow> schedule_row" where
  "coalesced_row next now r = r\<lparr>next_evaluation_utc := formatInstant next,
     reason_code := ''clock_rollback_coalesced'', updated_at_utc := formatInstant now\<rparr>"

definition claimed_row :: "gotime \<Rightarrow> gotime \<Rightarrow> gotime \<Rightarrow> schedule_row \<Rightarrow> schedule_row" where
  "claimed_row next occurrence now r = r\<lparr>next_evaluation_utc := formatInstant next, trigger_state := ''claiming'',
     claimed_occurrence_utc := formatInstant occurrence, reason_code := ''trigger_claimed'',
     updated_at_utc := formatInstant now\<rparr>"

definition triggered_row :: "bytes \<Rightarrow> gotime \<Rightarrow> schedule_row \<Rightarrow> schedule_row" where
  "triggered_row date now r = r\<lparr>last_triggered_at_utc := formatInstant now, last_trigger_local_date := date,
     trigger_state := ''idle'', claimed_occurrence_utc := [], reason_code := ''triggered'', updated_at_utc := formatInstant now\<rparr>"

definition idle_row :: "bytes \<Rightarrow> bytes \<Rightarrow> gotime \<Rightarrow> schedule_row \<Rightarrow> schedule_row" where
  "idle_row next reason now r = r\<lparr>next_evaluation_utc := next, trigger_state := ''idle'',
     claimed_occurrence_utc := [], reason_code := reason, updated_at_utc := formatInstant now\<rparr>"

text \<open>A transaction that commits and still answers \<open>ErrNotDue\<close> returns it as a value.\<close>

definition claim_tx :: "zones \<Rightarrow> gotime \<Rightarrow> sched_db \<Rightarrow> (sched_error, (sched_error, gotime) result \<times> sched_db) result" where
  "claim_tx zones now db =
     bind_result (loadSchedule zones db now) (\<lambda>s.
     if \<not> Configured s \<or> \<not> Enabled s \<or> Claiming s \<or> Before now (NextEvaluation s) then Inl ErrNotDue
     else (case zones (TimeZone s) of
       None \<Rightarrow> Inl ErrScheduleInvalid
     | Some loc \<Rightarrow>
         (let occurrenceDate = occurrenceLocalDate (NextEvaluation s) loc in
          case db of
            None \<Rightarrow> Inl ErrScheduleChanged
          | Some r \<Rightarrow>
              if LastTriggerDate s \<noteq> [] \<and> occurrenceDate \<le> LastTriggerDate s then
                bind_result (calculated (nextOccurrence now loc (LocalMinute s))) (\<lambda>next.
                bind_result (write_schedule (coalesced_row next now r)) (\<lambda>db.
                Inr (Inl ErrNotDue, db)))
              else
                bind_result (calculated (nextOccurrence now loc (LocalMinute s))) (\<lambda>next.
                if enabled r = 1 \<and> trigger_state r = ''idle'' \<and> next_evaluation_utc r = formatInstant (NextEvaluation s)
                then bind_result (write_schedule (claimed_row next (NextEvaluation s) now r)) (\<lambda>db.
                     Inr (Inr (NextEvaluation s), db))
                else Inl ErrScheduleChanged))))"

definition ClaimDue :: "zones \<Rightarrow> bool \<Rightarrow> gotime \<Rightarrow> sched_db \<Rightarrow> (sched_error, gotime) result \<times> sched_db" where
  "ClaimDue zones ok now db =
     (case ready now of Some e \<Rightarrow> (Inl e, db) | None \<Rightarrow>
      (case with_tx ErrScheduleDatabase ok db (claim_tx zones now) of
         (Inl e, db') \<Rightarrow> (Inl e, db')
       | (Inr r, db') \<Rightarrow> (r, db')))"

definition CompleteClaim :: "zones \<Rightarrow> bool \<Rightarrow> gotime \<Rightarrow> gotime \<Rightarrow> sched_db \<Rightarrow> (sched_error, unit) result \<times> sched_db" where
  "CompleteClaim zones ok occurrence now db =
     (case ready now of Some e \<Rightarrow> (Inl e, db) | None \<Rightarrow>
      if canonicalInstant occurrence True \<noteq> None then (Inl ErrScheduleInvalid, db)
      else with_tx ErrScheduleDatabase ok db (\<lambda>db.
        case db of
          None \<Rightarrow> Inl ErrScheduleDatabase
        | Some r \<Rightarrow>
            (case zones (time_zone r) of
               None \<Rightarrow> Inl ErrScheduleInvalid
             | Some loc \<Rightarrow>
                 if trigger_state r = ''claiming'' \<and> claimed_occurrence_utc r = formatInstant occurrence
                 then bind_result (write_schedule (triggered_row (occurrenceLocalDate occurrence loc) now r))
                        (\<lambda>db. Inr ((), db))
                 else Inl ErrScheduleChanged)))"

definition ReleaseClaim ::
  "bool \<Rightarrow> gotime \<Rightarrow> bytes \<Rightarrow> bool \<Rightarrow> gotime \<Rightarrow> sched_db \<Rightarrow> (sched_error, unit) result \<times> sched_db" where
  "ReleaseClaim ok occurrence reason deferred now db =
     (case ready now of Some e \<Rightarrow> (Inl e, db) | None \<Rightarrow>
      if canonicalInstant occurrence True \<noteq> None \<or> \<not> validReason reason then (Inl ErrScheduleInvalid, db)
      else with_tx ErrScheduleDatabase ok db (\<lambda>db.
        case db of
          None \<Rightarrow> Inl ErrScheduleChanged
        | Some r \<Rightarrow>
            if trigger_state r = ''claiming'' \<and> claimed_occurrence_utc r = formatInstant occurrence
            then bind_result (write_schedule (idle_row (if deferred then formatInstant occurrence else next_evaluation_utc r) reason now r)) (\<lambda>db. Inr ((), db))
            else Inl ErrScheduleChanged))"

definition Recover :: "zones \<Rightarrow> bool \<Rightarrow> gotime \<Rightarrow> bool \<Rightarrow> sched_db \<Rightarrow> (sched_error, unit) result \<times> sched_db" where
  "Recover zones ok now interruptedOperation db =
     (case ready now of Some e \<Rightarrow> (Inl e, db) | None \<Rightarrow>
      with_tx ErrScheduleDatabase ok db (\<lambda>db.
        bind_result (loadSchedule zones db now) (\<lambda>s.
        if \<not> Configured s \<or> \<not> Enabled s \<or> (\<not> Claiming s \<and> \<not> interruptedOperation) then Inr ((), db)
        else (case zones (TimeZone s) of
          None \<Rightarrow> Inl ErrScheduleInvalid
        | Some loc \<Rightarrow>
            bind_result (calculated (nextOccurrence now loc (LocalMinute s))) (\<lambda>next.
            case db of
              None \<Rightarrow> Inr ((), db)
            | Some r \<Rightarrow>
                bind_result (write_schedule (idle_row (formatInstant next)
                    (if interruptedOperation then ''operation_interrupted'' else ''trigger_recovered'') now r)) (\<lambda>db. Inr ((), db)))))))"

subsection \<open>The evaluation loop\<close>

datatype enqueue_answer = Accepted | OpActive | OpBusy | OpRecovery | OpWorkspace | OpChanged | OpConfiguration | OpOther

text \<open>\<open>evaluate\<close>: the readings of the clock before the claim and after the request, and the answers
  of the database and of \<open>EnqueueScheduled\<close>.\<close>

definition evaluate ::
  "zones \<Rightarrow> bool \<Rightarrow> bool \<Rightarrow> enqueue_answer \<Rightarrow> gotime \<Rightarrow> gotime \<Rightarrow> sched_db \<Rightarrow> sched_error option \<times> sched_db" where
  "evaluate zones ok1 ok2 answer t1 t2 db =
     (case ClaimDue zones ok1 (instant t1) db of
        (Inl ErrNotDue, db1) \<Rightarrow> (None, db1)
      | (Inl e, db1) \<Rightarrow> (Some e, db1)
      | (Inr claim, db1) \<Rightarrow>
          (let now = instant t2;
               release = (\<lambda>reason deferred. ReleaseClaim ok2 claim reason deferred now db1);
               (r, db2) = (case answer of
                   Accepted \<Rightarrow> CompleteClaim zones ok2 claim now db1
                 | OpActive \<Rightarrow> release ''operation_active'' True
                 | OpBusy \<Rightarrow> release ''workspace_busy'' True
                 | OpRecovery \<Rightarrow> release ''recovery_required'' False
                 | OpWorkspace \<Rightarrow> release ''workspace_invalid'' False
                 | OpChanged \<Rightarrow> release ''workspace_invalid'' False
                 | OpConfiguration \<Rightarrow> release ''configuration_invalid'' False
                 | OpOther \<Rightarrow> release ''operation_unavailable'' False)
           in (case r of Inl e \<Rightarrow> Some e | Inr _ \<Rightarrow> None, db2)))"

definition defaultWakeInterval :: int where "defaultWakeInterval = minute"
definition deferredRetry :: int where "deferredRetry = second"

definition delay :: "zones \<Rightarrow> bool \<Rightarrow> gotime \<Rightarrow> gotime \<Rightarrow> sched_db \<Rightarrow> (sched_error, int) result" where
  "delay zones ok t1 t2 db =
     bind_result (Get zones ok (instant t1) db) (\<lambda>s.
       if \<not> Enabled s then Inr defaultWakeInterval
       else if sch_State s = StateDue \<or> sch_State s = StateDeferred then Inr deferredRetry
       else (let d = t_ns (NextEvaluation s) - t_ns (instant t2)
             in if d \<le> 0 then Inr deferredRetry
                else if d > defaultWakeInterval then Inr defaultWakeInterval
                else Inr d))"

subsection \<open>What each transaction does\<close>

lemma ready_None: "ready now = None \<longleftrightarrow> canonical_time now"
  by (auto simp: ready_def split: option.splits) (metis canonicalInstant_required option.distinct(1))

lemma ready_Some: "ready now = Some e \<Longrightarrow> \<not> canonical_time now"
  using ready_None [of now] by auto

lemma write_schedule_Inr [simp]: "write_schedule r = Inr db \<longleftrightarrow> schema_ok r \<and> db = Some r"
  by (auto simp: write_schedule_def)

lemma calculated_Inr [simp]: "calculated r = Inr t \<longleftrightarrow> r = Inr t"
  by (cases r) (auto simp: calculated_def)

lemma next_canonical:
  assumes "nextOccurrence now loc m = Inr t"
  shows "canonical_time now" "Before now t" "t = utc_instant (t_ns t)" "0 \<le> m" "m < minutesPerDay"
proof -
  have c: "canonical_time now \<and> 0 \<le> m \<and> m < minutesPerDay"
    using assms by (auto simp: nextOccurrence_def split: if_splits)
  then have "next_search now loc m (local_day loc (t_ns now)) 370 = Inr t"
    using assms by (auto simp: nextOccurrence_def split: if_splits)
  from next_search_Inr [OF this] c occurrenceOnDate_Inr(3) show
    "canonical_time now" "Before now t" "t = utc_instant (t_ns t)" "0 \<le> m" "m < minutesPerDay" by blast+
qed

lemma parse_formatInstant:
  "canonical_time t \<Longrightarrow> parseInstant (formatInstant t) b = Inr t"
proof -
  assume c: "canonical_time t"
  then have t: "0 < t_ns t" "t_ns t < year_10000" "t = utc_instant (t_ns t)" by (auto simp: canonical_iff)
  then have "parse_rfc3339 (rfc3339_text (nat (t_ns t))) = Some (nat (t_ns t))"
    by (intro parse_rfc3339_text) simp
  moreover have "utc_instant (int (nat (t_ns t))) = t" using t by simp
  moreover have "canonicalInstant t True = None" using c by simp
  ultimately show ?thesis using t by (simp add: parseInstant_def formatInstant_def Let_def del: canonicalInstant_required)
qed

lemma parseInstant_Inr:
  assumes "parseInstant v b = Inr t"
  shows "v = [] \<and> \<not> b \<and> t = zero_time \<or> v = formatInstant t \<and> canonical_time t"
  using assms
  by (auto simp: parseInstant_def Let_def split: if_splits option.splits)

lemma parseInstant_inject:
  assumes "parseInstant v b = Inr t" "parseInstant v b' = Inr t'"
  shows "t = t'"
proof -
  have "formatInstant x \<noteq> []" for x by (simp add: formatInstant_def)
  with assms show ?thesis by (auto simp: parseInstant_def Let_def split: if_splits option.splits)
qed

lemma deriveState_upd [simp]: "deriveState (s\<lparr>sch_State := x\<rparr>) now = deriveState s now"
  by (simp add: deriveState_def)

lemma loadSchedule_Inr:
  assumes "loadSchedule z (Some r) now = Inr s"
  shows "\<exists>loc. z (time_zone r) = Some loc \<and> Configured s \<and> Enabled s = (enabled r = 1) \<and> TimeZone s = time_zone r
     \<and> LocalMinute s = row_local_minute r \<and> parseInstant (next_evaluation_utc r) (enabled r = 1) = Inr (NextEvaluation s)
     \<and> LastTriggerDate s = last_trigger_local_date r \<and> ReasonCode s = reason_code r
     \<and> Claiming s = (trigger_state r = ''claiming'')
     \<and> parseInstant (claimed_occurrence_utc r) False = Inr (ClaimedOccurrence s)"
  using assms
  by (auto simp: loadSchedule_def Let_def bind_result_Inr_iff validateUpdate_def
      split: if_splits option.splits)

lemma loadSchedule_state:
  assumes "loadSchedule z db now = Inr s"
  shows "sch_State s = deriveState s now"
proof (cases db)
  case None
  with assms show ?thesis by (auto simp: loadSchedule_def not_configured_def deriveState_def)
next
  case (Some r)
  with assms obtain s0 where "s = s0\<lparr>sch_State := deriveState s0 now\<rparr>"
    by (auto simp: loadSchedule_def Let_def bind_result_Inr_iff simp del: Schedule.update_convs)
  then show ?thesis by simp
qed

text \<open>The three outcomes of a claim.\<close>

lemma ClaimDue_cases:
  assumes "ClaimDue z ok now db = (a, db')"
  obtains (unchanged) e where "a = Inl e" "db' = db"
  | (coalesced) r s loc nxt where "db = Some r" "loadSchedule z db now = Inr s" "z (time_zone r) = Some loc"
      "nextOccurrence now loc (row_local_minute r) = Inr nxt" "a = Inl ErrNotDue"
      "last_trigger_local_date r \<noteq> []" "occurrenceLocalDate (NextEvaluation s) loc \<le> last_trigger_local_date r"
      "schema_ok (coalesced_row nxt now r)" "db' = Some (coalesced_row nxt now r)"
      "enabled r = 1" "trigger_state r \<noteq> ''claiming''"
  | (claimed) r s loc nxt where "db = Some r" "loadSchedule z db now = Inr s" "z (time_zone r) = Some loc"
      "nextOccurrence now loc (row_local_minute r) = Inr nxt" "a = Inr (NextEvaluation s)"
      "last_trigger_local_date r = [] \<or> last_trigger_local_date r < occurrenceLocalDate (NextEvaluation s) loc"
      "\<not> Before now (NextEvaluation s)" "enabled r = 1" "trigger_state r = ''idle''" "canonical_time (NextEvaluation s)"
      "schema_ok (claimed_row nxt (NextEvaluation s) now r)" "db' = Some (claimed_row nxt (NextEvaluation s) now r)"
proof (cases "ready now")
  case (Some e)
  with assms that(1) show ?thesis by (auto simp: ClaimDue_def)
next
  case None
  obtain x d where tx: "with_tx ErrScheduleDatabase ok db (claim_tx z now) = (x, d)" by fastforce
  have a: "(a, db') = (case x of Inl e \<Rightarrow> (Inl e, d) | Inr r \<Rightarrow> (r, d))"
    using assms None tx by (auto simp: ClaimDue_def split: sum.splits)
  from tx show ?thesis
  proof (cases rule: with_tx_cases)
    case (rolled_back e)
    with a that(1) show ?thesis by simp
  next
    case (committed y)
    then obtain s where s: "loadSchedule z db now = Inr s" by (auto simp: claim_tx_def bind_result_Inr_iff)
    have db: "\<exists>r. db = Some r"
      using committed(3) s by (cases db) (auto simp: claim_tx_def loadSchedule_def not_configured_def split: if_splits)
    then obtain r where r: "db = Some r" by blast
    obtain loc where l: "z (time_zone r) = Some loc" "Enabled s = (enabled r = 1)" "TimeZone s = time_zone r"
      "LocalMinute s = row_local_minute r" "parseInstant (next_evaluation_utc r) (enabled r = 1) = Inr (NextEvaluation s)"
      "LastTriggerDate s = last_trigger_local_date r" "Claiming s = (trigger_state r = ''claiming'')"
      using loadSchedule_Inr s r by blast
    have can: "enabled r = 1 \<Longrightarrow> canonical_time (NextEvaluation s)"
      using parseInstant_Inr [OF l(5)] by auto
    from committed(3) s r l a committed(1) can show ?thesis
      by (auto simp: claim_tx_def bind_result_Inr_iff Let_def not_le split: if_splits
          intro: that(2,3))
  qed
qed

lemma CompleteClaim_cases:
  assumes "CompleteClaim z ok occ now db = (a, db')"
  obtains (unchanged) e where "a = Inl e" "db' = db"
  | (triggered) r loc where "db = Some r" "z (time_zone r) = Some loc" "trigger_state r = ''claiming''"
      "claimed_occurrence_utc r = formatInstant occ" "a = Inr ()" "canonical_time now" "canonical_time occ"
      "schema_ok (triggered_row (occurrenceLocalDate occ loc) now r)"
      "db' = Some (triggered_row (occurrenceLocalDate occ loc) now r)"
proof (cases "canonical_time now \<and> canonical_time occ")
  case False
  with assms that(1) show ?thesis
    by (cases "ready now") (auto simp: CompleteClaim_def ready_None dest: ready_Some split: if_splits)
next
  case True
  then have "ready now = None" "canonicalInstant occ True = None" by (simp_all add: ready_None)
  with assms True that show ?thesis
    by (auto simp: CompleteClaim_def bind_result_Inr_iff elim!: with_tx_cases
        split: option.splits if_splits simp del: canonicalInstant_required)
qed

lemma ReleaseClaim_cases:
  assumes "ReleaseClaim ok occ reason deferred now db = (a, db')"
  obtains (unchanged) e where "a = Inl e" "db' = db"
  | (released) r where "db = Some r" "trigger_state r = ''claiming''" "claimed_occurrence_utc r = formatInstant occ"
      "a = Inr ()" "canonical_time now" "canonical_time occ"
      "schema_ok (idle_row (if deferred then formatInstant occ else next_evaluation_utc r) reason now r)"
      "db' = Some (idle_row (if deferred then formatInstant occ else next_evaluation_utc r) reason now r)"
proof (cases "canonical_time now \<and> canonical_time occ \<and> validReason reason")
  case False
  with assms that(1) show ?thesis
    by (cases "ready now") (auto simp: ReleaseClaim_def ready_None dest: ready_Some split: if_splits)
next
  case True
  then have c: "ready now = None" "canonicalInstant occ True = None" "validReason reason" by (simp_all add: ready_None)
  with assms True that show ?thesis
    by (auto simp: ReleaseClaim_def bind_result_Inr_iff elim!: with_tx_cases
        split: option.splits if_splits simp del: canonicalInstant_required)
qed

lemma Recover_cases:
  assumes "Recover z ok now interrupted db = (a, db')"
  obtains (failed) e where "a = Inl e" "db' = db"
  | (kept) s where "a = Inr ()" "db' = db" "loadSchedule z db now = Inr s"
      "\<not> Configured s \<or> \<not> Enabled s \<or> \<not> Claiming s \<and> \<not> interrupted"
  | (recovered) r s loc nxt where "db = Some r" "loadSchedule z db now = Inr s" "z (time_zone r) = Some loc" "enabled r = 1"
      "trigger_state r = ''claiming'' \<or> interrupted" "nextOccurrence now loc (row_local_minute r) = Inr nxt" "a = Inr ()"
      "schema_ok (idle_row (formatInstant nxt) (if interrupted then ''operation_interrupted'' else ''trigger_recovered'') now r)"
      "db' = Some (idle_row (formatInstant nxt) (if interrupted then ''operation_interrupted'' else ''trigger_recovered'') now r)"
proof (cases "ready now")
  case (Some e)
  with assms that(1) show ?thesis by (auto simp: Recover_def)
next
  case None
  show ?thesis
  proof (cases "loadSchedule z db now")
    case (Inl e)
    with assms None that(1) show ?thesis by (auto simp: Recover_def with_tx_def)
  next
    case (Inr s)
    show ?thesis
    proof (cases "\<not> Configured s \<or> \<not> Enabled s \<or> (\<not> Claiming s \<and> \<not> interrupted)")
      case True
      with assms None Inr that(1,2) show ?thesis by (auto simp: Recover_def with_tx_def split: if_splits)
    next
      case False
      have "db \<noteq> None" using Inr False by (cases db) (auto simp: loadSchedule_def not_configured_def)
      then obtain r where r: "db = Some r" by blast
      obtain loc where l: "z (time_zone r) = Some loc" "Enabled s = (enabled r = 1)" "TimeZone s = time_zone r"
        "LocalMinute s = row_local_minute r" "Claiming s = (trigger_state r = ''claiming'')"
        using loadSchedule_Inr Inr r by blast
      have en: "enabled r = 1" "trigger_state r = ''claiming'' \<or> interrupted" using False l by auto
      from assms [unfolded Recover_def None option.case] show ?thesis
      proof (cases rule: with_tx_cases)
        case (committed u)
        then show ?thesis
          using Inr False r l that(3) [of r s loc] en by (auto simp: bind_result_Inr_iff split: if_splits)
      qed (use that(1) in blast)
    qed
  qed
qed

lemma Save_cases:
  assumes "Save z ok u now db = (a, db')"
  obtains (unchanged) e where "a = Inl e" "db' = db"
  | (saved) loc nxt s where "canonical_time now" "validateUpdate z u = Inr loc" "a = Inr s"
      "if upd_Enabled u then \<exists>t. nextOccurrence now loc (upd_LocalMinute u) = Inr t \<and> nxt = formatInstant t else nxt = []"
      "schema_ok (saved_row u nxt now db)" "db' = Some (saved_row u nxt now db)" "loadSchedule z db' now = Inr s"
proof (cases "canonical_time now")
  case False
  with assms that(1) show ?thesis by (cases "ready now") (auto simp: Save_def ready_None dest: ready_Some)
next
  case True
  then have ready: "ready now = None" by (simp add: ready_None)
  show ?thesis
  proof (cases "validateUpdate z u")
    case (Inl e)
    with ready assms that(1) show ?thesis by (auto simp: Save_def)
  next
    case (Inr loc)
    show ?thesis
    proof (cases "if upd_Enabled u then map_sum (\<lambda>_. ErrScheduleInvalid) formatInstant (nextOccurrence now loc (upd_LocalMinute u))
              else Inr []")
      case e: (Inl e)
      with ready Inr assms that(1) show ?thesis by (auto simp: Save_def split: if_splits)
    next
      case n: (Inr nxt)
      have nxt: "if upd_Enabled u then \<exists>t. nextOccurrence now loc (upd_LocalMinute u) = Inr t \<and> nxt = formatInstant t else nxt = []"
        using n by (cases "nextOccurrence now loc (upd_LocalMinute u)") (auto split: if_splits)
      have "with_tx ErrScheduleDatabase ok db (\<lambda>old. bind_result (write_schedule (saved_row u nxt now old)) (\<lambda>db.
               bind_result (loadSchedule z db now) (\<lambda>s. Inr (s, db)))) = (a, db')"
        using ready Inr n assms by (simp add: Save_def)
      then show ?thesis
      proof (cases rule: with_tx_cases)
        case (committed s)
        with True Inr nxt that(2) show ?thesis by (auto simp: bind_result_Inr_iff)
      qed (use that(1) in blast)
    qed
  qed
qed

subsection \<open>Runs: at most one trigger per local date\<close>

text \<open>A held claim is for a local date after every date that has triggered.\<close>

definition claim_fresh :: "zones \<Rightarrow> sched_db \<Rightarrow> bool" where
  "claim_fresh z db \<longleftrightarrow>
     (case db of None \<Rightarrow> True
      | Some r \<Rightarrow> trigger_state r = ''claiming'' \<longrightarrow>
          (\<exists>t loc. canonical_time t \<and> claimed_occurrence_utc r = formatInstant t \<and> z (time_zone r) = Some loc
             \<and> last_trigger_local_date r < occurrenceLocalDate t loc))"

definition last_date :: "sched_db \<Rightarrow> bytes" where
  "last_date db = (case db of None \<Rightarrow> [] | Some r \<Rightarrow> last_trigger_local_date r)"

text \<open>A transaction of the administrator, the evaluation loop or start-up that triggers nothing.\<close>

inductive quiet_step :: "zones \<Rightarrow> sched_db \<Rightarrow> sched_db \<Rightarrow> bool" for z where
  save: "quiet_step z db (snd (Save z ok u now db))"
| claim: "quiet_step z db (snd (ClaimDue z ok now db))"
| release: "quiet_step z db (snd (ReleaseClaim ok occ reason deferred now db))"
| recover: "quiet_step z db (snd (Recover z ok now interrupted db))"
| refused: "CompleteClaim z ok occ now db = (Inl e, db') \<Longrightarrow> quiet_step z db db'"

text \<open>A run, with the local dates recorded by its completed triggers.\<close>

inductive sched_run :: "zones \<Rightarrow> sched_db \<Rightarrow> bytes list \<Rightarrow> sched_db \<Rightarrow> bool" for z where
  start: "sched_run z db [] db"
| quiet: "sched_run z db dates d \<Longrightarrow> quiet_step z d d' \<Longrightarrow> sched_run z db dates d'"
| trigger: "sched_run z db dates d \<Longrightarrow> CompleteClaim z ok occ now d = (Inr (), d')
    \<Longrightarrow> sched_run z db (dates @ [last_date d']) d'"

inductive_cases quiet_stepE: "quiet_step z db db'"

lemma day_text_nonempty: "day_text d \<noteq> []"
  by (simp add: day_text_def date_text_def split: prod.split)

lemma date_after_Nil [simp]: "[] < occurrenceLocalDate t loc"
  using day_text_nonempty [of "local_day loc (t_ns t)"]
  by (cases "occurrenceLocalDate t loc") (auto simp: occurrenceLocalDate_def)

lemma quiet_step_fresh:
  assumes "quiet_step z db db'" "claim_fresh z db"
  shows "claim_fresh z db' \<and> last_date db' = last_date db"
  using assms(1)
proof cases
  case (save ok u now)
  obtain a d where c: "Save z ok u now db = (a, d)" by fastforce
  then show ?thesis
    by (cases rule: Save_cases)
      (use save c assms(2) in \<open>auto simp: claim_fresh_def saved_row_def last_date_def split: option.splits\<close>)
next
  case (claim ok now)
  obtain a d where c: "ClaimDue z ok now db = (a, d)" by fastforce
  then show ?thesis
  proof (cases rule: ClaimDue_cases)
    case (claimed r s loc nxt)
    then show ?thesis using claim c
      by (auto simp: claim_fresh_def claimed_row_def last_date_def intro!: exI [of _ "NextEvaluation s"])
  qed (use claim c assms(2) in \<open>auto simp: claim_fresh_def coalesced_row_def last_date_def\<close>)
next
  case (release ok occ reason deferred now)
  obtain a d where c: "ReleaseClaim ok occ reason deferred now db = (a, d)" by fastforce
  then show ?thesis
    by (cases rule: ReleaseClaim_cases) (use release c assms(2) in \<open>auto simp: claim_fresh_def idle_row_def last_date_def\<close>)
next
  case (recover ok now interrupted)
  obtain a d where c: "Recover z ok now interrupted db = (a, d)" by fastforce
  then show ?thesis
    by (cases rule: Recover_cases) (use recover c assms(2) in \<open>auto simp: claim_fresh_def idle_row_def last_date_def\<close>)
next
  case (refused ok occ now e)
  from refused show ?thesis by (cases rule: CompleteClaim_cases) (use assms(2) in auto)
qed

lemma formatInstant_inject: "canonical_time a \<Longrightarrow> canonical_time b \<Longrightarrow> formatInstant a = formatInstant b \<Longrightarrow> a = b"
  using parse_formatInstant by (metis Inr_inject)

lemma trigger_fresh:
  assumes "CompleteClaim z ok occ now db = (Inr (), db')" "claim_fresh z db"
  shows "claim_fresh z db' \<and> last_date db < last_date db'"
  using assms(1)
proof (cases rule: CompleteClaim_cases)
  case (triggered r loc)
  with assms(2) have "last_trigger_local_date r < occurrenceLocalDate occ loc"
    by (auto simp: claim_fresh_def dest: formatInstant_inject)
  with triggered show ?thesis by (simp add: claim_fresh_def triggered_row_def last_date_def)
qed simp

lemma sched_run_sorted:
  assumes "sched_run z db dates d" "claim_fresh z db"
  shows "claim_fresh z d \<and> sorted_wrt (<) dates \<and> (\<forall>x \<in> set dates. last_date db < x \<and> x \<le> last_date d)
     \<and> last_date db \<le> last_date d"
  using assms
proof (induction rule: sched_run.induct)
  case (quiet db dates d d')
  with quiet_step_fresh [OF quiet.hyps(2)] show ?case by simp
next
  case (trigger db dates d ok occ now d')
  then have ih: "claim_fresh z d" "sorted_wrt (<) dates" "\<forall>x \<in> set dates. last_date db < x \<and> x \<le> last_date d"
    "last_date db \<le> last_date d" by auto
  have "last_date d < last_date d'" "claim_fresh z d'" using trigger_fresh [OF trigger.hyps(2) ih(1)] by auto
  with ih show ?case by (auto simp: sorted_wrt_append)
qed simp

end
