(* ===== verification/Sched_Properties.thy ===== *)
theory Sched_Properties
  imports Sched_Store
begin

text \<open>
  What the schedule guarantees: the meaning of the next occurrence, one trigger per local date
  over every run, the outcome of every evaluation, and the bounds of the wake-up delay.
\<close>

subsection \<open>Occurrences\<close>

lemma nextOccurrence_search:
  assumes "nextOccurrence now loc m = Inr t"
  obtains k where "k < 370" "occurrenceOnDate (local_day loc (t_ns now) + int k) loc m = Inr t" "Before now t"
    "\<And>j. j < k \<Longrightarrow> \<exists>b. occurrenceOnDate (local_day loc (t_ns now) + int j) loc m = Inr b \<and> \<not> Before now b"
proof -
  have "next_search now loc m (local_day loc (t_ns now)) 370 = Inr t"
    using assms by (auto simp: nextOccurrence_def split: if_splits)
  from next_search_Inr [OF this] show thesis using that by blast
qed

text \<open>C21: The next occurrence is strictly after the given instant, lies on a local date not before
  that instant's date, is a whole local minute at or after the chosen time, is the earliest such
  minute of its date (a gap advances to the first valid minute, a repetition takes the earlier
  instant), and no date is skipped: on every date in between the first such minute is already past.\<close>

theorem next_occurrence_correct:
  assumes "nextOccurrence now loc m = Inr t" "bounded_zone loc"
  shows "t_ns now < t_ns t \<and> local_day loc (t_ns now) \<le> local_day loc (t_ns t)
    \<and> on_schedule loc (local_day loc (t_ns t)) m (t_ns t)
    \<and> (\<forall>v. v mod minute = 0 \<and> on_schedule loc (local_day loc (t_ns t)) m v \<longrightarrow> t_ns t \<le> v)
    \<and> (\<forall>d. local_day loc (t_ns now) \<le> d \<and> d < local_day loc (t_ns t) \<longrightarrow> (\<exists>v \<le> t_ns now. on_schedule loc d m v))"
  using assms(1)
proof (cases rule: nextOccurrence_search)
  case (1 k)
  let ?d = "local_day loc (t_ns now)"
  note c = occurrenceOnDate_Inr [OF 1(2)]
  have day: "local_day loc (t_ns t) = ?d + int k" using c(1) by (simp add: on_schedule_def)
  have "\<exists>v \<le> t_ns now. on_schedule loc d m v" if d: "?d \<le> d" "d < ?d + int k" for d
  proof -
    have "nat (d - ?d) < k" "?d + int (nat (d - ?d)) = d" using d by simp_all
    with 1(4) obtain b where "occurrenceOnDate d loc m = Inr b" "\<not> Before now b" by metis
    then show ?thesis using occurrenceOnDate_Inr(1) [of d loc m b] by (auto simp: Before_def not_less)
  qed
  moreover have "t_ns t \<le> v" if "v mod minute = 0" "on_schedule loc (?d + int k) m v" for v
    using c(4) [of v] that day_in_window [OF assms(2), of v "?d + int k"] by (simp add: on_schedule_def)
  ultimately show ?thesis using 1(3) c(1) day by (simp add: Before_def)
qed


text \<open>Clocks that go from 23:00 to 00:00 at the end of a local date.\<close>

definition midnight_gap :: "int \<Rightarrow> Location" where
  "midnight_gap day = step_zone ((day + 1) * day_ns + 3600 * second) (-2) (-1)"

lemma midnight_gap_empty:
  assumes "1380 \<le> m"
  shows "\<not> on_schedule (midnight_gap day) day m t"
proof
  assume "on_schedule (midnight_gap day) day m t"
  then have d: "local_ns (midnight_gap day) t div day_ns = day" and
    m: "m \<le> local_ns (midnight_gap day) t mod day_ns div minute"
    by (simp_all add: on_schedule_def local_day_def local_minute_def)
  have "1380 * minute \<le> local_ns (midnight_gap day) t mod day_ns"
    using m assms by (simp add: minute_def second_def)
  moreover have "local_ns (midnight_gap day) t = day * day_ns + local_ns (midnight_gap day) t mod day_ns"
    using div_mult_mod_eq [of "local_ns (midnight_gap day) t" day_ns] d by simp
  moreover have "local_ns (midnight_gap day) t mod day_ns < day_ns" by simp
  ultimately show False
    by (auto simp: midnight_gap_def step_zone_def local_ns_def minute_def day_ns_def second_def algebra_simps split: if_splits)
qed

text \<open>C39: When a local date ends in a gap (clocks go from 23:00 to 00:00 of the following day, as
  in America/Nuuk since 2024) and the chosen time lies in that gap, the calculation fails for
  every instant of that date instead of using the first valid time after the gap.\<close>

theorem gap_at_midnight_fails:
  assumes "canonical_time now" "local_day (midnight_gap day) (t_ns now) = day" "1380 \<le> m" "m < minutesPerDay"
  shows "nextOccurrence now (midnight_gap day) m = Inl ''IANA time zone has no valid instant''"
proof -
  have "occurrenceOnDate day (midnight_gap day) m = Inl ''IANA time zone has no valid instant''"
    using midnight_gap_empty [OF assms(3)] by (simp add: occurrenceOnDate_Inl)
  with assms show ?thesis by (simp add: nextOccurrence_def numeral_eq_Suc)
qed

theorem next_occurrence_correct_witness:
  "\<exists>t. nextOccurrence (utc_instant 1000) (fixed_zone 60) 90 = Inr t \<and> 1000 < t_ns t
     \<and> on_schedule (fixed_zone 60) (local_day (fixed_zone 60) (t_ns t)) 90 (t_ns t)"
proof -
  have g: "bounded_zone (fixed_zone 60)" "full_dates (fixed_zone 60) 90"
    using fixed_zone_good [of 60 90] by (simp_all add: minutesPerDay_def)
  have n: "canonical_time (utc_instant 1000)" by (simp add: year_10000_def day_ns_def second_def)
  have d: "local_day (fixed_zone 60) 1000 = 0"
    by (simp add: local_day_def fixed_zone_local minute_def day_ns_def second_def)
  obtain b where b: "occurrenceOnDate 3 (fixed_zone 60) 90 = Inr b" using full_dates_occurrence [OF g] by blast
  have later: "Before (utc_instant 1000) b" using third_date_is_later [OF g(1), of "utc_instant 1000" 90 b] b d by simp
  obtain t where "next_search (utc_instant 1000) (fixed_zone 60) 90 0 370 = Inr t"
    using next_search_finds [of 370 0 "fixed_zone 60" 90 3 b "utc_instant 1000"] full_dates_occurrence [OF g] b later by auto
  then have t: "nextOccurrence (utc_instant 1000) (fixed_zone 60) 90 = Inr t"
    using n d by (simp add: nextOccurrence_def minutesPerDay_def)
  with next_occurrence_correct [OF t g(1)] show ?thesis by auto
qed


theorem gap_at_midnight_fails_witness:
  "nextOccurrence (utc_instant (738974 * day_ns + 43200 * second)) (midnight_gap 738974) 1410 =
     Inl ''IANA time zone has no valid instant''"
proof -
  let ?t = "738974 * day_ns + 43200 * second"
  have "local_day (midnight_gap 738974) ?t = 738974"
    by (simp add: local_day_def local_ns_def midnight_gap_def step_zone_def day_ns_def second_def)
  then show ?thesis
    using gap_at_midnight_fails [of "utc_instant ?t" 738974 1410]
    by (simp add: minutesPerDay_def year_10000_def day_ns_def second_def)
qed

subsection \<open>Triggers\<close>

text \<open>C8: At most one trigger per local date.  Starting from an unconfigured schedule, whatever the
  administrator saves (zone changes included), however the clock jumps, and whichever
  transactions fail or are lost in restarts, the local dates recorded by completed triggers
  strictly increase (as the texts the program compares).\<close>

theorem one_trigger_per_local_date:
  assumes "sched_run z None dates db"
  shows "sorted_wrt (<) dates"
  using sched_run_sorted [OF assms] by (simp add: claim_fresh_def)

text \<open>A claim takes the occurrence that was due and moves the schedule strictly past the
  current instant, however many occurrences were missed; while it is held every further claim,
  at any time, is refused and changes nothing.\<close>

theorem claim_coalesces_missed_occurrences:
  assumes "ClaimDue z ok now db = (Inr occ, db')"
  shows "t_ns occ \<le> t_ns now \<and> (\<exists>r nxt. db = Some r \<and> db' = Some (claimed_row nxt occ now r) \<and> Before now nxt)
    \<and> (\<exists>e. ClaimDue z ok' now' db' = (Inl e, db'))"
  using assms
proof (cases rule: ClaimDue_cases)
  case (claimed r s loc nxt)
  then have "Before now nxt" using next_canonical(2) by blast
  moreover have "\<exists>e. ClaimDue z ok' now' db' = (Inl e, db')"
  proof -
    obtain a d where c: "ClaimDue z ok' now' db' = (a, d)" by fastforce
    then show ?thesis
      by (cases rule: ClaimDue_cases) (use claimed c in \<open>auto simp: claimed_row_def\<close>)
  qed
  ultimately show ?thesis using claimed by (auto simp: Before_def not_less)
qed simp_all

text \<open>What the row holds after an evaluation that claimed \<open>occ\<close>, for each answer of the operation service.\<close>

definition evaluated_row :: "enqueue_answer \<Rightarrow> Location \<Rightarrow> gotime \<Rightarrow> gotime \<Rightarrow> schedule_row \<Rightarrow> schedule_row" where
  "evaluated_row answer loc occ now r =
     (case answer of
        Accepted \<Rightarrow> triggered_row (occurrenceLocalDate occ loc) now r
      | OpActive \<Rightarrow> idle_row (formatInstant occ) ''operation_active'' now r
      | OpBusy \<Rightarrow> idle_row (formatInstant occ) ''workspace_busy'' now r
      | OpRecovery \<Rightarrow> idle_row (next_evaluation_utc r) ''recovery_required'' now r
      | OpWorkspace \<Rightarrow> idle_row (next_evaluation_utc r) ''workspace_invalid'' now r
      | OpChanged \<Rightarrow> idle_row (next_evaluation_utc r) ''workspace_invalid'' now r
      | OpConfiguration \<Rightarrow> idle_row (next_evaluation_utc r) ''configuration_invalid'' now r
      | OpOther \<Rightarrow> idle_row (next_evaluation_utc r) ''operation_unavailable'' now r)"

lemma reasons_valid:
  "validReason ''operation_active''" "validReason ''workspace_busy''" "validReason ''recovery_required''"
  "validReason ''workspace_invalid''" "validReason ''configuration_invalid''" "validReason ''operation_unavailable''"
  by (simp_all add: validReason_def runes_ascii ascii_def reason_rune_def)

lemma instant_text_column:
  assumes "canonical_time t"
  shows "instant_column (formatInstant t)" "20 \<le> length (formatInstant t)" "length (formatInstant t) \<le> 30" "formatInstant t \<noteq> []"
  using assms length_rfc3339_text [of "nat (t_ns t)"] length_rfc3339_text_le [of "nat (t_ns t)"]
  by (auto simp: instant_column_def formatInstant_def canonical_iff)

lemma day_text_column:
  assumes "0 \<le> d" "d < 3652059"
  shows "length (day_text d) = 10" "list_all (\<lambda>c. is_digit c \<or> c = CHR ''-'') (day_text d)"
proof -
  obtain y m k where c: "civil (nat d) = (y, m, k)" by (metis prod.exhaust)
  have "list_all (\<lambda>c. is_digit c \<or> c = CHR ''-'') (dec w n)" for w n
    using digits_dec [of w n] by (auto simp: list_all_iff)
  then show "list_all (\<lambda>c. is_digit c \<or> c = CHR ''-'') (day_text d)"
    using assms by (simp add: day_text_def date_text_def c)
  show "length (day_text d) = 10" using assms by (simp add: day_text_def date_text_def c)
qed

lemma evaluated_schema:
  assumes "schema_ok (claimed_row nxt occ now1 r)" "enabled r = 1" "canonical_time occ" "canonical_time now"
    and "0 \<le> local_day loc (t_ns occ)" "local_day loc (t_ns occ) < 3652059"
  shows "schema_ok (evaluated_row answer loc occ now (claimed_row nxt occ now1 r))"
  using assms(1,2) instant_text_column [OF assms(3)] instant_text_column [OF assms(4)] day_text_column [OF assms(5,6)]
  by (cases answer)
     (auto simp: evaluated_row_def schema_ok_def idle_row_def triggered_row_def claimed_row_def
       occurrenceLocalDate_def reason_char_def is_digit_def instant_column_def)


text \<open>The wake-up delay is positive and at most a minute, and a schedule that is neither due nor
  deferred is not overslept.\<close>

theorem delay_bounds:
  assumes "delay z ok t1 t2 db = Inr d"
  shows "0 < d \<and> d \<le> minute
    \<and> (\<forall>s. Get z ok (instant t1) db = Inr s \<and> Enabled s \<and> t_ns t2 < t_ns (NextEvaluation s) \<and> sch_State s \<notin> {StateDue, StateDeferred}
         \<longrightarrow> d \<le> t_ns (NextEvaluation s) - t_ns t2)"
  using assms
  by (auto simp: delay_def bind_result_Inr_iff Let_def defaultWakeInterval_def deferredRetry_def minute_def second_def
      instant_eq split: if_splits)

text \<open>Start-up recovery clears a claim that a crash left behind, and after an interrupted
  operation or a cleared claim the schedule waits for an occurrence strictly in the future
  instead of retrying at once; the last trigger is not touched.\<close>

theorem recovery_waits_for_future:
  assumes "Recover z ok now interrupted (Some r) = (Inr (), Some r')" "enabled r = 1"
  shows "trigger_state r' \<noteq> ''claiming'' \<and> last_trigger_local_date r' = last_trigger_local_date r
    \<and> ((trigger_state r = ''claiming'' \<or> interrupted) \<longrightarrow> (\<exists>t. next_evaluation_utc r' = formatInstant t \<and> Before now t))"
  using assms(1)
proof (cases rule: Recover_cases)
  case (kept s)
  then show ?thesis using loadSchedule_Inr [of z r now s] assms(2) by auto
next
  case (recovered r0 s loc nxt)
  then show ?thesis using next_canonical(2) [of now loc _ nxt] by (auto simp: idle_row_def)
qed simp

lemma year_chars: "is_digit (rfc3339_text n ! 3)" "rfc3339_text n ! 4 = CHR ''-''"
proof -
  obtain y rest where r: "rfc3339_text n = dec 4 y @ ''-'' @ rest"
    by (cases "civil (n div 1000000000 div 86400)") (auto simp: rfc3339_text_def date_text_def Let_def)
  have "is_digit (dec 4 y ! 3)" using digits_dec [of 4 y] by (simp add: list_all_length)
  then show "is_digit (rfc3339_text n ! 3)" "rfc3339_text n ! 4 = CHR ''-''" by (simp_all add: r nth_append)
qed

text \<open>A saved schedule reads back as saved: it carries the administrator's settings, keeps the
  last trigger, drops a held claim, and, when enabled, is due next at the next occurrence, which
  is in the future.\<close>

theorem save_reads_back:
  assumes "Save z ok u now db = (Inr s, db')"
  shows "Get z True now db' = Inr s \<and> Enabled s = upd_Enabled u \<and> TimeZone s = upd_TimeZone u
    \<and> LocalMinute s = upd_LocalMinute u \<and> \<not> Claiming s \<and> LastTriggerDate s = last_date db
    \<and> (if upd_Enabled u then sch_State s = StateScheduled \<and> (\<exists>loc. z (upd_TimeZone u) = Some loc
            \<and> nextOccurrence now loc (upd_LocalMinute u) = Inr (NextEvaluation s) \<and> Before now (NextEvaluation s))
       else sch_State s = StateDisabled)"
  using assms
proof (cases rule: Save_cases)
  case (saved loc nxt s')
  let ?r = "saved_row u nxt now db"
  have s: "loadSchedule z (Some ?r) now = Inr s" using saved by simp
  obtain loc' where l: "Configured s" "Enabled s = (enabled ?r = 1)" "TimeZone s = time_zone ?r"
    "LocalMinute s = row_local_minute ?r" "parseInstant (next_evaluation_utc ?r) (enabled ?r = 1) = Inr (NextEvaluation s)"
    "LastTriggerDate s = last_trigger_local_date ?r" "ReasonCode s = reason_code ?r" "Claiming s = (trigger_state ?r = ''claiming'')"
    using loadSchedule_Inr [OF s] by blast
  have zone: "z (upd_TimeZone u) = Some loc"
    using saved(2) by (auto simp: validateUpdate_def split: if_splits option.splits)
  have get: "Get z True now db' = Inr s"
    using saved(1,6) s ready_None [of now] by (simp add: Get_def with_tx_def)
  have nx: "upd_Enabled u \<Longrightarrow> nextOccurrence now loc (upd_LocalMinute u) = Inr (NextEvaluation s)"
  proof -
    assume u: "upd_Enabled u"
    then obtain t where t: "nextOccurrence now loc (upd_LocalMinute u) = Inr t" "nxt = formatInstant t" using saved(4) by auto
    have p: "parseInstant (formatInstant t) True = Inr (NextEvaluation s)"
      using l(5) u t(2) by (simp add: saved_row_def boolInteger_def)
    then have c: "formatInstant t = formatInstant (NextEvaluation s)" "canonical_time (NextEvaluation s)"
      using parseInstant_Inr by auto
    note nc = next_canonical [OF t(1)]
    have "t = NextEvaluation s"
    proof (cases "t_ns t < year_10000")
      case True
      then have "canonical_time t" using nc by (simp add: canonical_iff Before_def)
      with c show ?thesis by (metis formatInstant_inject)
    next
      case False
      then have "is_digit (formatInstant t ! 4)" using year_chars(1) [of "nat (t_ns t)"] by (simp add: formatInstant_def numeral_eq_Suc)
      moreover have "formatInstant (NextEvaluation s) ! 4 = CHR ''-''"
        using c(2) by (simp add: formatInstant_def canonical_iff year_chars)
      ultimately show ?thesis using c(1) by (simp add: is_digit_def)
    qed
    with t show ?thesis by simp
  qed
  show ?thesis
    using get l zone nx next_canonical(2) [of now loc "upd_LocalMinute u"] loadSchedule_state [OF s]
    by (auto simp: saved_row_def last_date_def boolInteger_def deriveState_def split: option.split)
qed simp

subsection \<open>Examples\<close>

lemma fixed_zone_occurrence:
  assumes "0 \<le> m" "m < minutesPerDay" "\<bar>k\<bar> < 1440"
  shows "occurrenceOnDate day (fixed_zone k) m = Inr (utc_instant (day * day_ns + (m - k) * minute))"
proof -
  let ?t = "day * day_ns + (m - k) * minute"
  have "?t = minute * (day * 1440 + (m - k))" by (simp add: day_ns_def minute_def algebra_simps)
  then have "?t mod minute = 0" by simp
  moreover have on: "on_schedule (fixed_zone k) day m ?t" by (rule fixed_zone_schedule [OF assms(1,2)])
  ultimately have w: "in_window day ?t"
    using fixed_zone_good(1) [OF assms(3,1,2)] by (intro day_in_window) (auto simp only: on_schedule_def)
  obtain c where c: "occurrenceOnDate day (fixed_zone k) m = Inr c" "t_ns c \<le> ?t"
    using occurrenceOnDate_finds [OF w on] by blast
  note i = occurrenceOnDate_Inr [OF c(1)]
  have "m * minute \<le> local_ns (fixed_zone k) (t_ns c) mod day_ns"
  proof -
    have "m \<le> local_ns (fixed_zone k) (t_ns c) mod day_ns div minute"
      using i(1) by (simp add: on_schedule_def local_minute_def)
    then show ?thesis by (simp add: minute_def second_def)
  qed
  moreover have "local_ns (fixed_zone k) (t_ns c) = day * day_ns + local_ns (fixed_zone k) (t_ns c) mod day_ns"
    using i(1) div_mult_mod_eq [of "local_ns (fixed_zone k) (t_ns c)" day_ns] by (simp add: on_schedule_def local_day_def)
  ultimately have "?t \<le> t_ns c" unfolding fixed_zone_local by (simp add: algebra_simps)
  with c i(3) show ?thesis by auto
qed

definition example_zones :: zones where
  "example_zones n = (if n = ''UTC'' then Some (fixed_zone 0) else None)"

definition example_update :: Update where
  "example_update = \<lparr>upd_Enabled = True, upd_TimeZone = ''UTC'', upd_LocalMinute = 0\<rparr>"

definition days :: "int \<Rightarrow> gotime" where
  "days n = utc_instant (n * day_ns)"

definition half_past :: "int \<Rightarrow> gotime" where
  "half_past n = utc_instant (n * day_ns + 1800 * second)"

lemma example_instants [simp]:
  "0 < n \<Longrightarrow> n < 1000 \<Longrightarrow> canonical_time (days n)" "0 \<le> n \<Longrightarrow> n < 1000 \<Longrightarrow> canonical_time (half_past n)"
  "instant (half_past n) = half_past n"
  by (simp_all add: days_def half_past_def instant_eq year_10000_def day_ns_def second_def)

lemma example_next:
  assumes "0 \<le> n" "n < 1000"
  shows "nextOccurrence (half_past n) (fixed_zone 0) 0 = Inr (days (n + 1))"
proof -
  have d: "local_day (fixed_zone 0) (t_ns (half_past n)) = n"
    by (simp add: local_day_def fixed_zone_local half_past_def day_ns_def second_def)
  have "\<not> Before (half_past n) (utc_instant (n * day_ns))" "Before (half_past n) (utc_instant ((n + 1) * day_ns))"
    by (simp_all add: Before_def half_past_def day_ns_def second_def)
  then show ?thesis
    using assms d by (simp add: nextOccurrence_def minutesPerDay_def numeral_eq_Suc fixed_zone_occurrence days_def)
qed

definition example_row :: "int \<Rightarrow> schedule_row" where
  "example_row n = saved_row example_update (formatInstant (days (n + 1))) (half_past n) None"

lemma example_columns:
  assumes "0 \<le> n" "n < 900"
  shows "schema_ok (example_row n)"
  using assms instant_text_column [of "days (n + 1)"] instant_text_column [of "half_past n"]
  by (simp add: schema_ok_def example_row_def saved_row_def example_update_def boolInteger_def reason_char_def
      is_digit_def instant_column_def)

lemma example_validate: "validateUpdate example_zones \<lparr>upd_Enabled = True, upd_TimeZone = ''UTC'', upd_LocalMinute = 0\<rparr> = Inr (fixed_zone 0)"
  by (simp add: validateUpdate_def zoneName_def example_zones_def minutesPerDay_def)

lemma example_load:
  assumes "0 \<le> n" "n < 900"
  shows "\<exists>s. loadSchedule example_zones (Some (example_row n)) now = Inr s \<and> Configured s \<and> Enabled s \<and> \<not> Claiming s
     \<and> TimeZone s = ''UTC'' \<and> LocalMinute s = 0 \<and> NextEvaluation s = days (n + 1) \<and> LastTriggerDate s = []"
  using assms
  by (simp add: loadSchedule_def example_row_def saved_row_def example_update_def boolInteger_def parse_formatInstant
      example_validate Let_def) (simp add: parseInstant_def)

lemma example_save:
  "\<exists>s. Save example_zones True example_update (half_past 0) None = (Inr s, Some (example_row 0))"
proof -
  have "nextOccurrence (half_past 0) (fixed_zone 0) 0 = Inr (days 1)" using example_next [of 0] by simp
  moreover have "ready (half_past 0) = None" by (simp add: ready_None)
  moreover have "validateUpdate example_zones example_update = Inr (fixed_zone 0)"
    unfolding example_update_def by (rule example_validate)
  moreover have "saved_row example_update (formatInstant (days 1)) (half_past 0) None = example_row 0" by (simp add: example_row_def)
  ultimately show ?thesis
    using example_load [of 0 "half_past 0"] example_columns [of 0]
    by (auto simp: Save_def example_update_def with_tx_def write_schedule_def)
qed

definition example_claimed :: schedule_row where
  "example_claimed = claimed_row (days 4) (days 1) (half_past 3) (example_row 0)"

text \<open>Three days later: two occurrences were missed.\<close>

lemma example_due_claim:
  "ClaimDue example_zones True (half_past 3) (Some (example_row 0)) = (Inr (days 1), Some example_claimed)"
proof -
  obtain s where s: "loadSchedule example_zones (Some (example_row 0)) (half_past 3) = Inr s" "Configured s" "Enabled s" "\<not> Claiming s"
     "TimeZone s = ''UTC''" "LocalMinute s = 0" "NextEvaluation s = days 1" "LastTriggerDate s = []"
    using example_load [of 0 "half_past 3"] by auto
  have n: "nextOccurrence (half_past 3) (fixed_zone 0) 0 = Inr (days 4)" using example_next [of 3] by simp
  have "schema_ok example_claimed"
    using example_columns [of 0] instant_text_column [of "days 4"] instant_text_column [of "days 1"] instant_text_column [of "half_past 3"]
    by (simp add: example_claimed_def claimed_row_def schema_ok_def reason_char_def is_digit_def example_row_def
        saved_row_def example_update_def boolInteger_def)
  moreover have "\<not> Before (half_past 3) (days 1)" by (simp add: Before_def half_past_def days_def day_ns_def second_def)
  moreover have "ready (half_past 3) = None" by (simp add: ready_None)
  moreover have "enabled (example_row 0) = 1" "trigger_state (example_row 0) = ''idle''"
    "next_evaluation_utc (example_row 0) = formatInstant (days 1)"
    by (simp_all add: example_row_def saved_row_def example_update_def boolInteger_def)
  ultimately show ?thesis
    using s n by (simp add: ClaimDue_def claim_tx_def with_tx_def example_zones_def write_schedule_def example_claimed_def calculated_def)
qed

lemma example_day: "local_day (fixed_zone 0) (t_ns (days 1)) = 1"
  by (simp add: local_day_def fixed_zone_local days_def day_ns_def second_def)

lemma example_zone: "example_zones (time_zone (example_row 0)) = Some (fixed_zone 0)"
  by (simp add: example_zones_def example_row_def saved_row_def example_update_def)

lemma example_complete:
  "\<exists>r. CompleteClaim example_zones True (days 1) (half_past 3) (Some example_claimed) = (Inr (), Some r)"
proof -
  have "schema_ok (evaluated_row Accepted (fixed_zone 0) (days 1) (half_past 3) example_claimed)"
    unfolding example_claimed_def
  proof (rule evaluated_schema)
    from example_due_claim show "schema_ok (claimed_row (days 4) (days 1) (half_past 3) (example_row 0))"
      by (cases rule: ClaimDue_cases) (auto simp: example_claimed_def)
  qed (simp_all add: example_day example_row_def saved_row_def example_update_def boolInteger_def)
  then show ?thesis
    using example_zone
    by (simp add: CompleteClaim_def ready_None with_tx_def write_schedule_def evaluated_row_def example_claimed_def claimed_row_def
        del: option.case split: option.split)
qed

theorem one_trigger_per_local_date_witness:
  "\<exists>r. sched_run example_zones None [last_date (Some r)] (Some r) \<and> sorted_wrt (<) [last_date (Some r)]"
proof -
  have "sched_run example_zones None [] (snd (Save example_zones True example_update (half_past 0) None))"
    by (rule sched_run.quiet [OF sched_run.start quiet_step.save])
  then have "sched_run example_zones None [] (Some (example_row 0))" using example_save by auto
  from sched_run.quiet [OF this quiet_step.claim [of _ _ True "half_past 3"]]
  have "sched_run example_zones None [] (Some example_claimed)" by (simp add: example_due_claim)
  with example_complete obtain r where "sched_run example_zones None ([] @ [last_date (Some r)]) (Some r)"
    using sched_run.trigger by metis
  then have run: "sched_run example_zones None [last_date (Some r)] (Some r)" by simp
  with one_trigger_per_local_date [OF run] show ?thesis by blast
qed

theorem claim_coalesces_missed_occurrences_witness:
  "\<exists>e. ClaimDue example_zones True (half_past 5) (Some example_claimed) = (Inl e, Some example_claimed)"
  using claim_coalesces_missed_occurrences [OF example_due_claim, of True "half_past 5"] by blast


theorem delay_bounds_witness:
  "\<exists>d. delay example_zones True (half_past 0) (half_past 0) (Some (example_row 0)) = Inr d \<and> 0 < d \<and> d \<le> minute"
proof -
  obtain s where "loadSchedule example_zones (Some (example_row 0)) (half_past 0) = Inr s"
    using example_load [of 0 "half_past 0"] by auto
  then have "Get example_zones True (half_past 0) (Some (example_row 0)) = Inr s"
    using ready_None [of "half_past 0"] by (simp add: Get_def with_tx_def)
  then obtain d where "delay example_zones True (half_past 0) (half_past 0) (Some (example_row 0)) = Inr d"
    by (simp add: delay_def Let_def) metis
  with delay_bounds [OF this] show ?thesis by blast
qed

theorem recovery_waits_for_future_witness:
  "\<exists>r t. Recover example_zones True (half_past 3) True (Some (example_row 0)) = (Inr (), Some r)
     \<and> next_evaluation_utc r = formatInstant t \<and> Before (half_past 3) t"
proof -
  obtain s where s: "loadSchedule example_zones (Some (example_row 0)) (half_past 3) = Inr s" "Configured s" "Enabled s"
     "TimeZone s = ''UTC''" "LocalMinute s = 0"
    using example_load [of 0 "half_past 3"] by auto
  have n: "nextOccurrence (half_past 3) (fixed_zone 0) 0 = Inr (days 4)" using example_next [of 3] by simp
  let ?r = "idle_row (formatInstant (days 4)) ''operation_interrupted'' (half_past 3) (example_row 0)"
  have "schema_ok ?r"
    using example_columns [of 0] instant_text_column [of "days 4"] instant_text_column [of "half_past 3"]
    by (simp add: idle_row_def schema_ok_def reason_char_def is_digit_def example_row_def
        saved_row_def example_update_def boolInteger_def)
  moreover have "ready (half_past 3) = None" by (simp add: ready_None)
  ultimately have "Recover example_zones True (half_past 3) True (Some (example_row 0)) = (Inr (), Some ?r)"
    using s n by (simp add: Recover_def with_tx_def example_zones_def write_schedule_def calculated_def)
  with recovery_waits_for_future [OF this] show ?thesis
    by (auto simp: example_row_def saved_row_def example_update_def boolInteger_def)
qed

theorem save_reads_back_witness:
  "\<exists>s. Save example_zones True example_update (half_past 0) None = (Inr s, Some (example_row 0))
     \<and> Get example_zones True (half_past 0) (Some (example_row 0)) = Inr s"
  using example_save save_reads_back by blast

end
