(* ===== verification/Redaction_Automaton.thy ===== *)
theory Redaction_Automaton
  imports Prelude "HOL-Library.Sublist"
begin

text \<open>
  The multi-pattern matcher of \<open>internal/redaction/redaction.go\<close>: the array trie with sibling
  lists, its breadth-first failure links, and the scan that deletes matches.  The interface
  \<open>matcher\<close> says what the scan relies on (the match length after any input is that of the longest
  pattern ending there); the interpretation discharges it for \<open>buildAutomaton\<close>.
\<close>

subsection \<open>The arrays\<close>

record automatonNode =
  firstEdge :: int
  failure :: int
  matchLen :: int

record automatonEdge =
  edge_next :: int
  sibling :: int
  edge_value :: char

record Filter =
  nodes :: "automatonNode list"
  edges :: "automatonEdge list"
  root :: "char \<Rightarrow> int"
  replacement :: bytes

definition maximumAutomatonStates :: nat where
  "maximumAutomatonStates = 2 * 1024 * 1024"

definition new_node :: automatonNode where
  "new_node = \<lparr>firstEdge = -1, failure = 0, matchLen = 0\<rparr>"

definition empty_filter :: Filter where
  "empty_filter = \<lparr>nodes = [new_node], edges = [], root = (\<lambda>_. -1), replacement = []\<rparr>"

text \<open>The loop over a sibling list; no list is longer than the edge array.\<close>

fun siblings :: "nat \<Rightarrow> automatonEdge list \<Rightarrow> int \<Rightarrow> automatonEdge list" where
  "siblings 0 es e = []"
| "siblings (Suc n) es e = (if e < 0 then [] else es ! nat e # siblings n es (sibling (es ! nat e)))"

definition edges_of :: "Filter \<Rightarrow> int \<Rightarrow> automatonEdge list" where
  "edges_of f s = siblings (length (edges f)) (edges f) (firstEdge (nodes f ! nat s))"

definition transition :: "Filter \<Rightarrow> int \<Rightarrow> char \<Rightarrow> int" where
  "transition f s v =
     (if s = 0 then root f v
      else case find (\<lambda>e. edge_value e = v) (edges_of f s) of Some e \<Rightarrow> edge_next e | None \<Rightarrow> -1)"

definition update_node :: "int \<Rightarrow> (automatonNode \<Rightarrow> automatonNode) \<Rightarrow> Filter \<Rightarrow> Filter" where
  "update_node s g f = f\<lparr>nodes := (nodes f)[nat s := g (nodes f ! nat s)]\<rparr>"

subsection \<open>Insertion\<close>

definition add_state :: "int \<Rightarrow> char \<Rightarrow> Filter \<Rightarrow> int \<times> Filter" where
  "add_state s v f =
     (let next = int (length (nodes f));
          edge = \<lparr>edge_next = next, sibling = firstEdge (nodes f ! nat s), edge_value = v\<rparr>;
          f1 = f\<lparr>nodes := nodes f @ [new_node], edges := edges f @ [edge]\<rparr>;
          f2 = update_node s (\<lambda>n. n\<lparr>firstEdge := int (length (edges f1)) - 1\<rparr>) f1
      in (next, if s = 0 then f2\<lparr>root := (root f2)(v := next)\<rparr> else f2))"

fun insert_bytes :: "int \<Rightarrow> bytes \<Rightarrow> Filter \<Rightarrow> (bytes, int \<times> Filter) result" where
  "insert_bytes s [] f = Inr (s, f)"
| "insert_bytes s (v # vs) f =
     (let next = transition f s v
      in if next < 0 then
           if length (nodes f) \<ge> maximumAutomatonStates \<or> length (edges f) \<ge> maximumAutomatonStates
           then Inl ''redaction automaton is too large''
           else (let (s', f') = add_state s v f in insert_bytes s' vs f')
         else insert_bytes next vs f)"

definition mark_match :: "int \<Rightarrow> int \<Rightarrow> Filter \<Rightarrow> Filter" where
  "mark_match s len f =
     (if len > matchLen (nodes f ! nat s) then update_node s (\<lambda>n. n\<lparr>matchLen := len\<rparr>) f else f)"

fun insert_patterns :: "bytes list \<Rightarrow> Filter \<Rightarrow> (bytes, Filter) result" where
  "insert_patterns [] f = Inr f"
| "insert_patterns (p # ps) f =
     bind_result (insert_bytes 0 p f) (\<lambda>(s, f'). insert_patterns ps (mark_match s (int (length p)) f'))"

subsection \<open>Failure links\<close>

text \<open>The loops along failure links; a link leads to a shorter string, so the node count bounds them.\<close>

fun fall :: "nat \<Rightarrow> Filter \<Rightarrow> char \<Rightarrow> int \<Rightarrow> int" where
  "fall 0 f v s = s"
| "fall (Suc n) f v s = (if s \<noteq> 0 \<and> transition f s v < 0 then fall n f v (failure (nodes f ! nat s)) else s)"

definition link_child :: "int \<Rightarrow> automatonEdge \<Rightarrow> Filter \<Rightarrow> Filter" where
  "link_child parent edge f =
     (let child = edge_next edge;
          fl = fall (length (nodes f)) f (edge_value edge) (failure (nodes f ! nat parent));
          fallback = transition f fl (edge_value edge);
          f1 = (if fallback \<ge> 0 \<and> fallback \<noteq> child then update_node child (\<lambda>n. n\<lparr>failure := fallback\<rparr>) f else f);
          inherited = matchLen (nodes f1 ! nat (failure (nodes f1 ! nat child)))
      in if inherited > matchLen (nodes f1 ! nat child)
         then update_node child (\<lambda>n. n\<lparr>matchLen := inherited\<rparr>) f1 else f1)"

text \<open>The queue; every state but the root enters it once.\<close>

fun link_queue :: "nat \<Rightarrow> int list \<Rightarrow> Filter \<Rightarrow> Filter" where
  "link_queue 0 queue f = f"
| "link_queue (Suc n) [] f = f"
| "link_queue (Suc n) (parent # queue) f =
     (let es = edges_of f parent
      in link_queue n (queue @ map edge_next es) (fold (link_child parent) es f))"

definition buildAutomaton :: "bytes list \<Rightarrow> (bytes, Filter) result" where
  "buildAutomaton patterns =
     bind_result (insert_patterns patterns empty_filter) (\<lambda>f.
       let es = edges_of f 0;
           f1 = fold (\<lambda>e. update_node (edge_next e) (\<lambda>n. n\<lparr>failure := 0\<rparr>)) es f
       in Inr (link_queue (length (nodes f1)) (map edge_next es) f1))"

subsection \<open>The scan\<close>

fun advance_loop :: "nat \<Rightarrow> Filter \<Rightarrow> int \<Rightarrow> char \<Rightarrow> int" where
  "advance_loop 0 f s v = 0"
| "advance_loop (Suc n) f s v =
     (let next = transition f s v
      in if next \<ge> 0 then next else if s = 0 then 0 else advance_loop n f (failure (nodes f ! nat s)) v)"

definition advance :: "Filter \<Rightarrow> int \<Rightarrow> char \<Rightarrow> int" where
  "advance f s v = advance_loop (Suc (length (nodes f))) f s v"

definition match_at :: "Filter \<Rightarrow> int \<Rightarrow> nat" where
  "match_at f s = nat (matchLen (nodes f ! nat s))"

definition bytes_step :: "Filter \<Rightarrow> char \<Rightarrow> bytes \<times> int list \<times> int \<Rightarrow> bytes \<times> int list \<times> int" where
  "bytes_step f v st =
     (case st of (result, states, state) \<Rightarrow>
        let state' = advance f state v; result' = result @ [v]; states' = states @ [state'];
            matched = match_at f state'
        in if matched = 0 then (result', states', state')
           else (let states'' = take (length states' - matched) states'
                 in (take (length result' - matched) result', states'', if states'' = [] then 0 else last states'')))"

definition Bytes :: "Filter \<Rightarrow> bytes \<Rightarrow> bytes" where
  "Bytes f input = (if nodes f = [] then input else fst (fold (bytes_step f) input ([], [], 0)))"

subsection \<open>The interface: match lengths along any input\<close>

text \<open>The length of the longest pattern that ends a text.\<close>

fun longest :: "bytes set \<Rightarrow> bytes \<Rightarrow> nat" where
  "longest P [] = 0"
| "longest P (c # w) = (if c # w \<in> P then Suc (length w) else longest P w)"

lemma sublist_snoc: "sublist p (w @ [v]) \<longleftrightarrow> sublist p w \<or> suffix p (w @ [v])"
  by (auto simp: sublist_altdef)

lemma longest_le: "longest P w \<le> length w"
  by (induction w) auto

lemma longest_pos: "[] \<notin> P \<Longrightarrow> 0 < longest P w \<longleftrightarrow> (\<exists>p \<in> P. suffix p w)"
  by (induction w) (auto simp: suffix_Cons)

lemma longest_match: "0 < longest P w \<Longrightarrow> drop (length w - longest P w) w \<in> P"
proof (induction w)
  case (Cons c w)
  show ?case
  proof (cases "c # w \<in> P")
    case False
    with Cons longest_le [of P w] show ?thesis by (simp add: Suc_diff_le)
  qed simp
qed simp

locale matcher =
  fixes built :: "'f \<Rightarrow> bytes set \<Rightarrow> bool"
    and step :: "'f \<Rightarrow> 's \<Rightarrow> char \<Rightarrow> 's"
    and start :: 's
    and matched :: "'f \<Rightarrow> 's \<Rightarrow> nat"
  assumes run_law: "built f P \<Longrightarrow> matched f (foldl (step f) start w) = longest P w"
    and patterns_law: "built f P \<Longrightarrow> [] \<notin> P"
begin

definition scan_step :: "'f \<Rightarrow> char \<Rightarrow> bytes \<times> 's list \<times> 's \<Rightarrow> bytes \<times> 's list \<times> 's" where
  "scan_step f v st =
     (case st of (result, states, state) \<Rightarrow>
        let state' = step f state v; result' = result @ [v]; states' = states @ [state'];
            m = matched f state'
        in if m = 0 then (result', states', state')
           else (let states'' = take (length states' - m) states'
                 in (take (length result' - m) result', states'', if states'' = [] then start else last states'')))"

text \<open>The stacked states are those of the text kept so far, and that text holds no pattern.\<close>

definition scan_inv :: "'f \<Rightarrow> bytes set \<Rightarrow> bytes \<times> 's list \<times> 's \<Rightarrow> bool" where
  "scan_inv f P st \<longleftrightarrow>
     (case st of (result, states, state) \<Rightarrow>
        states = map (\<lambda>i. foldl (step f) start (take (Suc i) result)) [0..<length result]
        \<and> state = foldl (step f) start result \<and> (\<forall>p \<in> P. \<not> sublist p result))"

lemma scan_inv_take:
  assumes "states = map (\<lambda>i. foldl (step f) start (take (Suc i) result)) [0..<length result]" "k \<le> length result"
    and "\<forall>p \<in> P. \<not> sublist p (take k result)"
  shows "scan_inv f P (take k result, take k states, if take k states = [] then start else last (take k states))"
proof (cases k)
  case 0
  with assms show ?thesis by (simp add: scan_inv_def)
next
  case (Suc j)
  have st: "take k states = map (\<lambda>i. foldl (step f) start (take (Suc i) result)) [0..<k]"
    using assms(1,2) by (simp add: take_map)
  then have "last (take k states) = foldl (step f) start (take k result)" "take k states \<noteq> []" using Suc by simp_all
  then have "(if take k states = [] then start else last (take k states)) = foldl (step f) start (take k result)" by simp
  moreover have "take k states = map (\<lambda>i. foldl (step f) start (take (Suc i) (take k result))) [0..<length (take k result)]"
    using st assms(2) by (auto simp: min_def)
  ultimately show ?thesis using assms(3) unfolding scan_inv_def prod.case by blast
qed

lemma scan_inv_step:
  assumes "built f P" "scan_inv f P st"
  shows "scan_inv f P (scan_step f v st)"
proof -
  obtain result states state where st: "st = (result, states, state)" by (metis prod.exhaust)
  let ?r = "result @ [v]" and ?s = "states @ [step f state v]"
  let ?m = "matched f (step f state v)"
  have inv: "states = map (\<lambda>i. foldl (step f) start (take (Suc i) result)) [0..<length result]"
    "state = foldl (step f) start result" "\<forall>p \<in> P. \<not> sublist p result"
    using assms(2) by (simp_all add: scan_inv_def st)
  have state: "step f state v = foldl (step f) start ?r" using inv(2) by simp
  then have m: "?m = longest P ?r" using run_law [OF assms(1)] by metis
  have states: "?s = map (\<lambda>i. foldl (step f) start (take (Suc i) ?r)) [0..<length ?r]"
    using inv(1) state by simp
  show ?thesis
  proof (cases "?m = 0")
    case True
    then have "\<forall>p \<in> P. \<not> suffix p ?r" using longest_pos [OF patterns_law [OF assms(1)], of ?r] m by simp
    with inv(3) have "\<forall>p \<in> P. \<not> sublist p ?r" by (simp add: sublist_snoc)
    with True state states show ?thesis by (simp add: scan_inv_def scan_step_def st Let_def)
  next
    case False
    let ?k = "length ?r - ?m"
    have k: "?k \<le> length result" "length ?s = length ?r" using False inv(1) by (auto split: nat_diff_split)
    then have "take ?k ?r = take ?k result" by simp
    then have "\<forall>p \<in> P. \<not> sublist p (take ?k ?r)"
      using inv(3) sublist_order.order_trans [OF _ sublist_take] by metis
    from scan_inv_take [OF states _ this]
    have "scan_inv f P (take ?k ?r, take ?k ?s, if take ?k ?s = [] then start else last (take ?k ?s))" by simp
    moreover have "scan_step f v st = (take ?k ?r, take ?k ?s, if take ?k ?s = [] then start else last (take ?k ?s))"
      using False k(2) unfolding scan_step_def st prod.case Let_def by (simp only: if_False)
    ultimately show ?thesis by (simp only:)
  qed
qed

definition scan :: "'f \<Rightarrow> bytes \<Rightarrow> bytes" where
  "scan f input = fst (fold (scan_step f) input ([], [], start))"

lemma scan_inv_fold: "built f P \<Longrightarrow> scan_inv f P st \<Longrightarrow> scan_inv f P (fold (scan_step f) input st)"
proof (induction input arbitrary: st)
  case (Cons v input)
  from Cons.IH [OF Cons.prems(1) scan_inv_step [OF Cons.prems]] show ?case by simp
qed simp

theorem scan_clean:
  assumes "built f P" "p \<in> P"
  shows "\<not> sublist p (scan f input)"
proof -
  have "\<forall>p \<in> P. \<not> sublist p []" using patterns_law [OF assms(1)] by auto
  then have "scan_inv f P ([], [], start)" by (simp add: scan_inv_def)
  from scan_inv_fold [OF assms(1) this, of input] assms(2) show ?thesis
    by (auto simp: scan_def scan_inv_def split: prod.splits)
qed

lemma scan_untouched_fold:
  assumes "built f P" "scan_inv f P (result, states, state)" "\<forall>p \<in> P. \<not> sublist p (result @ input)"
  shows "fst (fold (scan_step f) input (result, states, state)) = result @ input"
  using assms(2,3)
proof (induction input arbitrary: result states state)
  case (Cons v input)
  have no: "\<forall>p \<in> P. \<not> suffix p (result @ [v])"
  proof
    fix p assume "p \<in> P"
    then have "\<not> sublist p (result @ v # input)" using Cons.prems(2) by blast
    moreover have "sublist (result @ [v]) (result @ v # input)" by (rule prefix_imp_sublist) simp
    ultimately show "\<not> suffix p (result @ [v])" using sublist_order.order_trans suffix_imp_sublist by blast
  qed
  have "step f state v = foldl (step f) start (result @ [v])" using Cons.prems(1) by (simp add: scan_inv_def)
  moreover have "longest P (result @ [v]) = 0"
    using longest_pos [OF patterns_law [OF assms(1)], of "result @ [v]"] no by blast
  ultimately have "matched f (step f state v) = 0" using run_law [OF assms(1), of "result @ [v]"] by metis
  then have "scan_step f v (result, states, state) = (result @ [v], states @ [step f state v], step f state v)"
    by (simp add: scan_step_def Let_def)
  with Cons.IH [of "result @ [v]"] scan_inv_step [OF assms(1) Cons.prems(1), of v] Cons.prems(2) show ?case by simp
qed simp

theorem scan_untouched:
  assumes "built f P" "\<forall>p \<in> P. \<not> sublist p input"
  shows "scan f input = input"
proof -
  have "scan_inv f P ([], [], start)" using patterns_law [OF assms(1)] by (auto simp: scan_inv_def)
  from scan_untouched_fold [OF assms(1) this] assms(2) show ?thesis by (simp add: scan_def)
qed

lemma scan_subseq_fold: "subseq (fst (fold (scan_step f) input st)) (fst st @ input)"
proof (induction input arbitrary: st)
  case (Cons v input)
  have "subseq (fst (scan_step f v st)) (fst st @ [v])"
    by (auto simp: scan_step_def Let_def subseq_append_le_same_iff split: prod.split)
  then have "subseq (fst (scan_step f v st) @ input) (fst st @ [v] @ input)" by (metis append_assoc list_emb_append_mono subseq_order.order_refl)
  with Cons [of "scan_step f v st"] show ?case using subseq_order.order_trans by fastforce
qed simp

theorem scan_subseq: "subseq (scan f input) input"
  using scan_subseq_fold [of f input "([], [], start)"] by (simp add: scan_def)

text \<open>Whatever survives cutting out a pattern survives the scan.\<close>

lemma scan_step_cut:
  assumes "built f P" "scan_inv f P st"
  shows "fst st @ [v] = fst (scan_step f v st) \<or> (\<exists>x \<in> P. fst st @ [v] = fst (scan_step f v st) @ x)"
proof -
  obtain result states state where st: "st = (result, states, state)" by (metis prod.exhaust)
  let ?r = "result @ [v]"
  have "state = foldl (step f) start result" using assms(2) by (simp add: scan_inv_def st)
  then have m: "matched f (step f state v) = longest P ?r" using run_law [OF assms(1), of ?r] by simp
  show ?thesis
  proof (cases "longest P ?r = 0")
    case True
    then show ?thesis by (simp add: scan_step_def st Let_def m)
  next
    case False
    let ?k = "length ?r - longest P ?r"
    have "fst (scan_step f v st) = take ?k ?r" using False by (simp add: scan_step_def st Let_def m)
    moreover have "drop ?k ?r \<in> P" using longest_match [of P ?r] False by simp
    ultimately show ?thesis by (metis append_take_drop_id fst_conv st)
  qed
qed

lemma scan_cut_fold:
  assumes "built f P" "scan_inv f P st" "I (fst st @ input)" "\<And>a x b. x \<in> P \<Longrightarrow> I (a @ x @ b) \<Longrightarrow> I (a @ b)"
  shows "I (fst (fold (scan_step f) input st))"
  using assms(2,3)
proof (induction input arbitrary: st)
  case (Cons v input)
  from scan_step_cut [OF assms(1) Cons.prems(1), of v] have "I (fst (scan_step f v st) @ input)"
  proof
    assume "fst st @ [v] = fst (scan_step f v st)"
    then show ?thesis using Cons.prems(2) by (metis append_Cons append_Nil append_assoc)
  next
    assume "\<exists>x \<in> P. fst st @ [v] = fst (scan_step f v st) @ x"
    then obtain x where "x \<in> P" "fst st @ [v] = fst (scan_step f v st) @ x" by blast
    then show ?thesis using Cons.prems(2) assms(4) [of x "fst (scan_step f v st)" input]
      by (metis append_Cons append_Nil append_assoc)
  qed
  with Cons.IH [OF scan_inv_step [OF assms(1) Cons.prems(1)]] show ?case by simp
qed simp

theorem scan_cut:
  assumes "built f P" "I input" "\<And>a x b. x \<in> P \<Longrightarrow> I (a @ x @ b) \<Longrightarrow> I (a @ b)"
  shows "I (scan f input)"
proof -
  have "scan_inv f P ([], [], start)" using patterns_law [OF assms(1)] by (auto simp: scan_inv_def)
  from scan_cut_fold [OF assms(1) this, of I input] assms(2,3) show ?thesis by (simp add: scan_def)
qed

end

end
