(* ===== verification/Redaction_Trie.thy ===== *)
theory Redaction_Trie
  imports Redaction_Automaton
begin

text \<open>
  Correctness of \<open>buildAutomaton\<close>.  Each state stands for a string (\<open>ps\<close> lists them by state);
  insertion keeps the sibling lists, the root table and the strings in step, the breadth-first
  pass gives every state the longest proper suffix that is a state and the length of the longest
  pattern that ends its string, and \<open>advance\<close> therefore follows the longest suffix of the input.
\<close>

subsection \<open>Longest suffixes\<close>

fun lsuf :: "bytes set \<Rightarrow> bytes \<Rightarrow> bytes" where
  "lsuf S [] = []"
| "lsuf S (c # w) = (if c # w \<in> S then c # w else lsuf S w)"

definition prefix_closed :: "bytes set \<Rightarrow> bool" where
  "prefix_closed S \<longleftrightarrow> [] \<in> S \<and> (\<forall>w v. w @ [v] \<in> S \<longrightarrow> w \<in> S)"

lemma lsuf_in: "prefix_closed S \<Longrightarrow> lsuf S w \<in> S"
  by (induction w) (auto simp: prefix_closed_def)

lemma length_lsuf: "length (lsuf S w) \<le> length w"
  by (induction w) auto

lemma lsuf_snoc:
  assumes "prefix_closed S"
  shows "lsuf S (w @ [v]) = lsuf S (lsuf S w @ [v])"
proof (induction w)
  case (Cons c w)
  show ?case
  proof (cases "c # w \<in> S")
    case False
    then have "c # w @ [v] \<notin> S" using assms unfolding prefix_closed_def by (metis append_Cons)
    with False Cons show ?thesis by simp
  qed simp
qed simp

lemma longest_lsuf: "Q \<subseteq> S \<Longrightarrow> longest Q (lsuf S w) = longest Q w"
  by (induction w) auto

lemma lsuf_self: "w \<in> S \<Longrightarrow> lsuf S w = w"
  by (cases w) auto

lemma lsuf_drop: "u @ [v] \<notin> S \<Longrightarrow> u \<noteq> [] \<Longrightarrow> lsuf S (u @ [v]) = lsuf S (tl u @ [v])"
  by (cases u) auto

lemma prefix_closed_prefix: "prefix_closed S \<Longrightarrow> w @ u \<in> S \<Longrightarrow> w \<in> S"
proof (induction u rule: rev_induct)
  case (snoc v u)
  then show ?case unfolding prefix_closed_def by (metis append_assoc)
qed simp

subsection \<open>Sibling lists\<close>

definition decreasing :: "automatonEdge list \<Rightarrow> bool" where
  "decreasing es \<longleftrightarrow> (\<forall>i < length es. sibling (es ! i) < int i)"

lemma decreasing_sibling:
  assumes "decreasing es" "\<not> e < 0" "e < int (length es)"
  shows "sibling (es ! nat e) < e"
proof -
  have "nat e < length es" using assms(2,3) by simp
  with assms(1) have "sibling (es ! nat e) < int (nat e)" unfolding decreasing_def by blast
  with assms(2) show ?thesis by simp
qed

lemma siblings_negative [simp]: "e < 0 \<Longrightarrow> siblings n es e = []"
  by (cases n) simp_all

lemma siblings_fuel:
  assumes "decreasing es" "e < int (length es)" "e < int n" "e < int m"
  shows "siblings n es e = siblings m es e"
  using assms(2-)
proof (induction n arbitrary: e m)
  case (Suc n)
  show ?case
  proof (cases "e < 0")
    case False
    then obtain m' where m: "m = Suc m'" using Suc.prems(3) by (cases m) auto
    have d: "sibling (es ! nat e) < e" by (rule decreasing_sibling [OF assms(1) False Suc.prems(1)])
    have "siblings n es (sibling (es ! nat e)) = siblings m' es (sibling (es ! nat e))"
      using d Suc.prems m by (intro Suc.IH) auto
    with False m show ?thesis by simp
  qed simp
qed simp

lemma siblings_append:
  assumes "decreasing es" "e < int (length es)"
  shows "siblings n (es @ [x]) e = siblings n es e"
  using assms(2)
proof (induction n arbitrary: e)
  case (Suc n)
  show ?case
  proof (cases "e < 0")
    case False
    then have "nat e < length es" using Suc.prems by simp
    moreover have "sibling (es ! nat e) < int (length es)"
      using decreasing_sibling [OF assms(1) False Suc.prems] Suc.prems by simp
    ultimately show ?thesis using False Suc.IH by (simp add: nth_append)
  qed simp
qed simp

subsection \<open>The trie\<close>

text \<open>The children of a state, as its sibling list gives them.\<close>

definition children :: "Filter \<Rightarrow> nat \<Rightarrow> (char \<times> int) list" where
  "children f s = map (\<lambda>e. (edge_value e, edge_next e)) (edges_of f (int s))"

definition child_set :: "bytes list \<Rightarrow> nat \<Rightarrow> (char \<times> int) set" where
  "child_set ps s = {(v, int t) | v t. t < length ps \<and> ps ! t = ps ! s @ [v]}"

definition trie :: "Filter \<Rightarrow> bytes list \<Rightarrow> bool" where
  "trie f ps \<longleftrightarrow>
     length ps = length (nodes f) \<and> distinct ps \<and> ps \<noteq> [] \<and> ps ! 0 = [] \<and> prefix_closed (set ps)
     \<and> decreasing (edges f)
     \<and> (\<forall>s < length ps. firstEdge (nodes f ! s) < int (length (edges f)))
     \<and> (\<forall>s < length ps. set (children f s) = child_set ps s \<and> distinct (map fst (children f s)))
     \<and> (\<forall>v. root f v = -1 \<and> [v] \<notin> set ps \<or> (\<exists>t < length ps. root f v = int t \<and> ps ! t = [v]))"

lemma trieD:
  assumes "trie f ps"
  shows "length ps = length (nodes f)" "distinct ps" "ps \<noteq> []" "ps ! 0 = []" "prefix_closed (set ps)"
    "decreasing (edges f)" "s < length ps \<Longrightarrow> firstEdge (nodes f ! s) < int (length (edges f))"
    "s < length ps \<Longrightarrow> set (children f s) = child_set ps s"
    "s < length ps \<Longrightarrow> distinct (map fst (children f s))"
    "root f v = -1 \<and> [v] \<notin> set ps \<or> (\<exists>t < length ps. root f v = int t \<and> ps ! t = [v])"
  using assms unfolding trie_def by blast+

lemma state_unique: "trie f ps \<Longrightarrow> s < length ps \<Longrightarrow> t < length ps \<Longrightarrow> ps ! s = ps ! t \<Longrightarrow> s = t"
  using trieD(2) nth_eq_iff_index_eq by blast

lemma transition_spec:
  assumes "trie f ps" "s < length ps"
  shows "ps ! s @ [v] \<in> set ps \<Longrightarrow> \<exists>t < length ps. transition f (int s) v = int t \<and> ps ! t = ps ! s @ [v]"
    and "ps ! s @ [v] \<notin> set ps \<Longrightarrow> transition f (int s) v = -1"
proof -
  have "(ps ! s @ [v] \<in> set ps \<longrightarrow> (\<exists>t < length ps. transition f (int s) v = int t \<and> ps ! t = ps ! s @ [v]))
      \<and> (ps ! s @ [v] \<notin> set ps \<longrightarrow> transition f (int s) v = -1)"
  proof (cases "s = 0")
    case True
    have z: "ps ! 0 = []" by (rule trieD(4) [OF assms(1)])
    from trieD(10) [OF assms(1), of v] show ?thesis using True z by (auto simp: transition_def) (metis nth_mem)
  next
    case False
    let ?es = "edges_of f (int s)"
    have ch: "set (children f s) = child_set ps s" by (rule trieD(8) [OF assms])
    show ?thesis
    proof (cases "find (\<lambda>e. edge_value e = v) ?es")
      case None
      have "ps ! s @ [v] \<notin> set ps"
      proof
        assume "ps ! s @ [v] \<in> set ps"
        then obtain t where "t < length ps" "ps ! t = ps ! s @ [v]" by (auto simp: in_set_conv_nth)
        then have "(v, int t) \<in> set (children f s)" by (auto simp: ch child_set_def)
        with None show False by (auto simp: children_def find_None_iff)
      qed
      with False None show ?thesis by (simp add: transition_def)
    next
      case (Some e)
      then have e: "e \<in> set ?es" "edge_value e = v" by (auto simp: find_Some_iff)
      then have "(v, edge_next e) \<in> set (children f s)" by (auto simp: children_def)
      then obtain t where t: "t < length ps" "edge_next e = int t" "ps ! t = ps ! s @ [v]" by (auto simp: ch child_set_def)
      then have "ps ! s @ [v] \<in> set ps" by (metis nth_mem)
      with False Some t show ?thesis by (auto simp: transition_def)
    qed
  qed
  then show "ps ! s @ [v] \<in> set ps \<Longrightarrow> \<exists>t < length ps. transition f (int s) v = int t \<and> ps ! t = ps ! s @ [v]"
    "ps ! s @ [v] \<notin> set ps \<Longrightarrow> transition f (int s) v = -1" by auto
qed

lemma empty_trie: "trie empty_filter [[]]"
  by (auto simp: trie_def empty_filter_def new_node_def prefix_closed_def decreasing_def children_def child_set_def edges_of_def)

text \<open>Failure links and match lengths are not part of the trie.\<close>

definition same_shape :: "Filter \<Rightarrow> Filter \<Rightarrow> bool" where
  "same_shape f g \<longleftrightarrow> edges g = edges f \<and> root g = root f \<and> map firstEdge (nodes g) = map firstEdge (nodes f)"

lemma same_shape_edges:
  assumes "same_shape f g" "s < length (nodes f)"
  shows "edges_of g (int s) = edges_of f (int s)" "transition g (int s) v = transition f (int s) v"
proof -
  have "length (nodes g) = length (nodes f)" using assms(1) by (metis length_map same_shape_def)
  then have "firstEdge (nodes g ! s) = firstEdge (nodes f ! s)"
    using assms nth_map [of s "nodes g" firstEdge] nth_map [of s "nodes f" firstEdge] by (simp add: same_shape_def)
  with assms(1) show e: "edges_of g (int s) = edges_of f (int s)" by (simp add: edges_of_def same_shape_def)
  with assms(1) show "transition g (int s) v = transition f (int s) v" by (simp add: transition_def same_shape_def)
qed

lemma same_shape_trie:
  assumes "trie f ps" "same_shape f g"
  shows "trie g ps"
proof -
  note t = trieD [OF assms(1)]
  have len: "length (nodes g) = length (nodes f)" using assms(2) by (metis length_map same_shape_def)
  then have "firstEdge (nodes g ! s) = firstEdge (nodes f ! s)" if "s < length ps" for s
    using assms(2) t(1) that nth_map [of s "nodes g" firstEdge] nth_map [of s "nodes f" firstEdge] by (simp add: same_shape_def)
  then have "\<forall>s < length ps. firstEdge (nodes g ! s) < int (length (edges g))"
    using t(7) assms(2) by (simp add: same_shape_def)
  moreover have "children g s = children f s" if "s < length ps" for s
    using same_shape_edges(1) [OF assms(2)] that t(1) by (simp add: children_def)
  then have "\<forall>s < length ps. set (children g s) = child_set ps s \<and> distinct (map fst (children g s))" using t(8,9) by simp
  moreover have "\<forall>v. root g v = -1 \<and> [v] \<notin> set ps \<or> (\<exists>t < length ps. root g v = int t \<and> ps ! t = [v])"
    using t(10) assms(2) by (simp add: same_shape_def)
  moreover have "length ps = length (nodes g)" "decreasing (edges g)" using t(1,6) len assms(2) by (simp_all add: same_shape_def)
  ultimately show ?thesis using t(2-5) unfolding trie_def by blast
qed

lemma same_shape_refl [simp]: "same_shape f f"
  and same_shape_trans: "same_shape f g \<Longrightarrow> same_shape g h \<Longrightarrow> same_shape f h"
  by (simp_all add: same_shape_def)

lemma same_shape_update:
  "(\<And>n. firstEdge (h n) = firstEdge n) \<Longrightarrow> same_shape f (update_node s h f)"
proof -
  assume h: "\<And>n. firstEdge (h n) = firstEdge n"
  have "map firstEdge ((nodes f)[i := h (nodes f ! i)]) = map firstEdge (nodes f)" for i
  proof (rule nth_equalityI)
    fix j assume "j < length (map firstEdge ((nodes f)[i := h (nodes f ! i)]))"
    then show "map firstEdge ((nodes f)[i := h (nodes f ! i)]) ! j = map firstEdge (nodes f) ! j"
      by (cases "i = j") (simp_all add: h)
  qed simp
  then show ?thesis by (simp add: same_shape_def update_node_def)
qed

text \<open>Adding a state.\<close>

lemma add_state_shape:
  assumes "trie f ps" "s < length ps"
  shows "fst (add_state (int s) v f) = int (length ps)"
    and "edges (snd (add_state (int s) v f)) =
           edges f @ [\<lparr>edge_next = int (length ps), sibling = firstEdge (nodes f ! s), edge_value = v\<rparr>]"
    and "nodes (snd (add_state (int s) v f)) =
           (nodes f)[s := (nodes f ! s)\<lparr>firstEdge := int (length (edges f))\<rparr>] @ [new_node]"
    and "root (snd (add_state (int s) v f)) = (if s = 0 then (root f)(v := int (length ps)) else root f)"
  using trieD(1) [OF assms(1)] assms(2)
  by (auto simp: add_state_def Let_def update_node_def nth_append list_update_append)

lemma add_state_children:
  assumes "trie f ps" "s < length ps"
    and f'_def: "f' = snd (add_state (int s) v f)"
  shows "children f' s = (v, int (length ps)) # children f s"
    and "u < length ps \<Longrightarrow> u \<noteq> s \<Longrightarrow> children f' u = children f u"
    and "children f' (length ps) = []"
proof -
  note sh = add_state_shape [OF assms(1,2), of v, folded f'_def]
  have len: "length (nodes f) = length ps" by (simp add: trieD(1) [OF assms(1)])
  have dec: "decreasing (edges f)" and fe: "\<And>u. u < length ps \<Longrightarrow> firstEdge (nodes f ! u) < int (length (edges f))"
    using trieD(6,7) [OF assms(1)] by auto
  let ?n = "length (edges f)"
  have old: "siblings n (edges f') (firstEdge (nodes f ! u)) = siblings ?n (edges f) (firstEdge (nodes f ! u))"
    if "u < length ps" "?n \<le> n" for u n
    using that fe [of u] siblings_append [OF dec, of "firstEdge (nodes f ! u)" n]
      siblings_fuel [OF dec fe [OF that(1)], of n ?n] sh(2) by simp
  have "edges f' ! ?n = \<lparr>edge_next = int (length ps), sibling = firstEdge (nodes f ! s), edge_value = v\<rparr>"
    using sh(2) by simp
  moreover have "siblings (Suc ?n) (edges f') (int ?n) = edges f' ! ?n # siblings ?n (edges f') (sibling (edges f' ! ?n))" by simp
  ultimately show "children f' s = (v, int (length ps)) # children f s"
    using assms(2) len sh(2,3) old [of s ?n] by (simp add: children_def edges_of_def nth_append del: siblings.simps)
  show "children f' u = children f u" if "u < length ps" "u \<noteq> s"
    using that len sh(2,3) old [of u "Suc ?n"] by (simp add: children_def edges_of_def nth_append)
  show "children f' (length ps) = []"
    using len sh(2,3) by (simp add: children_def edges_of_def nth_append new_node_def)
qed

lemma child_set_iff: "(c, i) \<in> child_set ps u \<longleftrightarrow> (\<exists>t < length ps. i = int t \<and> ps ! t = ps ! u @ [c])"
  by (auto simp: child_set_def)

lemma child_set_snoc:
  assumes "u < length ps"
  shows "child_set (ps @ [w]) u = child_set ps u \<union> {(c, int (length ps)) | c. w = ps ! u @ [c]}"
proof (rule set_eqI)
  fix x :: "char \<times> int"
  obtain c i where x: "x = (c, i)" by fastforce
  have u: "(ps @ [w]) ! u = ps ! u" using assms by (simp add: nth_append)
  have "(\<exists>t < length ps. i = int t \<and> (ps @ [w]) ! t = z) \<longleftrightarrow> (\<exists>t < length ps. i = int t \<and> ps ! t = z)" for z
    by (metis nth_append)
  then have "x \<in> child_set (ps @ [w]) u \<longleftrightarrow> (i = int (length ps) \<and> w = ps ! u @ [c]) \<or> x \<in> child_set ps u"
    unfolding x child_set_iff u length_append list.size add_0 add_Suc_right add_0_right Ex_less_Suc by simp
  then show "x \<in> child_set (ps @ [w]) u \<longleftrightarrow> x \<in> child_set ps u \<union> {(c, int (length ps)) | c. w = ps ! u @ [c]}"
    unfolding x by blast
qed

lemma add_state_trie:
  assumes "trie f ps" "s < length ps" "ps ! s @ [v] \<notin> set ps"
  shows "trie (snd (add_state (int s) v f)) (ps @ [ps ! s @ [v]])"
proof -
  let ?f = "snd (add_state (int s) v f)" and ?w = "ps ! s @ [v]"
  let ?ps = "ps @ [?w]"
  note sh = add_state_shape [OF assms(1,2), of v] and ch = add_state_children [OF assms(1,2) refl [of "snd (add_state (int s) v f)"]]
  note t = trieD [OF assms(1)]
  have closed: "prefix_closed (set ?ps)"
    using t(5) assms(2) nth_mem [OF assms(2)] unfolding prefix_closed_def by auto
  have dec: "decreasing (edges ?f)"
    using t(6) t(7) [OF assms(2)] unfolding sh(2) decreasing_def by (auto simp: nth_append less_Suc_eq)
  have first: "firstEdge (nodes ?f ! u) < int (length (edges ?f))" if "u < length ?ps" for u
    using that t(1) t(7) [of u] unfolding sh(2,3)
    by (cases "s = u") (auto simp: nth_append new_node_def less_Suc_eq)
  have up: "u < length ?ps \<Longrightarrow> u < length ps \<or> u = length ps" for u by auto
  have sets: "child_set ?ps u = (if u = s then insert (v, int (length ps)) (child_set ps u) else child_set ps u)"
    if "u < length ps" for u
    using state_unique [OF assms(1,2) that] by (auto simp: child_set_snoc [OF that])
  have leaf: "child_set ?ps (length ps) = {}"
  proof -
    have "?w @ [c] \<notin> set ps" for c using prefix_closed_prefix [OF t(5)] assms(3) by blast
    then show ?thesis using nth_mem by (fastforce simp: child_set_def nth_append less_Suc_eq)
  qed
  have fresh: "v \<notin> fst ` set (children f s)"
  proof
    assume "v \<in> fst ` set (children f s)"
    then obtain c where "(v, c) \<in> child_set ps s" using t(8) [OF assms(2)] by force
    then have "?w \<in> set ps" by (auto simp: child_set_def) (metis nth_mem)
    with assms(3) show False by simp
  qed
  have kids: "set (children ?f u) = child_set ?ps u \<and> distinct (map fst (children ?f u))" if "u < length ?ps" for u
    using up [OF that]
  proof
    assume u: "u < length ps"
    show ?thesis
    proof (cases "u = s")
      case True
      with u sets [OF u] t(8,9) [OF u] fresh show ?thesis by (simp add: ch(1))
    next
      case False
      with u sets [OF u] t(8,9) [OF u] show ?thesis by (simp add: ch(2))
    qed
  qed (simp add: leaf ch(3))
  have root: "root ?f c = -1 \<and> [c] \<notin> set ?ps \<or> (\<exists>t < length ?ps. root ?f c = int t \<and> ?ps ! t = [c])" for c
  proof (cases "s = 0 \<and> c = v")
    case True
    then have "root ?f c = int (length ps)" "?ps ! length ps = [c]" using sh(4) t(4) by (simp_all add: nth_append)
    then show ?thesis by auto
  next
    case False
    then have r: "root ?f c = root f c" using sh(4) by auto
    have "[c] \<noteq> ?w"
    proof
      assume "[c] = ?w"
      then have "ps ! s = []" "c = v" by auto
      then have "s = 0" using state_unique [OF assms(1,2), of 0] t(3,4) by auto
      with \<open>c = v\<close> False show False by simp
    qed
    with t(10) [of c] r show ?thesis by (auto simp: nth_append)
  qed
  have "length ?ps = length (nodes ?f)" using t(1) by (simp add: sh(3))
  moreover have "distinct ?ps" "?ps \<noteq> []" "?ps ! 0 = []" using t(2-4) assms(3) by (simp_all add: nth_append)
  ultimately show ?thesis using closed dec first kids root unfolding trie_def by blast
qed

text \<open>The tables before the failure links: no failures, and the length of each pattern at its state.\<close>

definition fresh_node :: "Filter \<Rightarrow> bytes list \<Rightarrow> bytes set \<Rightarrow> nat \<Rightarrow> bool" where
  "fresh_node f ps Q s \<longleftrightarrow> failure (nodes f ! s) = 0
     \<and> matchLen (nodes f ! s) = (if ps ! s \<in> Q then int (length (ps ! s)) else 0)"

definition inserted :: "Filter \<Rightarrow> bytes list \<Rightarrow> bytes set \<Rightarrow> bool" where
  "inserted f ps Q \<longleftrightarrow> trie f ps \<and> Q \<subseteq> set ps \<and> (\<forall>s < length ps. fresh_node f ps Q s)"

lemma empty_inserted: "inserted empty_filter [[]] {}"
  using empty_trie by (simp add: inserted_def fresh_node_def empty_filter_def new_node_def)

lemma add_state_inserted:
  assumes "inserted f ps Q" "s < length ps" "ps ! s @ [v] \<notin> set ps"
  shows "inserted (snd (add_state (int s) v f)) (ps @ [ps ! s @ [v]]) Q"
proof -
  let ?f = "snd (add_state (int s) v f)"
  have tr: "trie f ps" using assms(1) by (simp add: inserted_def)
  have w: "ps ! s @ [v] \<notin> Q" using assms(1,3) by (auto simp: inserted_def)
  have "fresh_node ?f (ps @ [ps ! s @ [v]]) Q u" if "u < Suc (length ps)" for u
  proof (cases "u = length ps")
    case True
    then show ?thesis
      using w trieD(1) [OF tr] by (simp add: fresh_node_def add_state_shape(3) [OF tr assms(2)] nth_append new_node_def)
  next
    case False
    then have u: "u < length ps" using that by simp
    then have "fresh_node f ps Q u" using assms(1) by (simp add: inserted_def)
    then show ?thesis
      using u trieD(1) [OF tr] assms(2)
      by (simp add: fresh_node_def add_state_shape(3) [OF tr assms(2)] nth_append nth_list_update)
  qed
  with assms(1) add_state_trie [OF tr assms(2,3)] show ?thesis by (auto simp: inserted_def)
qed

lemma insert_bytes_inserted:
  assumes "inserted f ps Q" "s < length ps" "insert_bytes (int s) vs f = Inr (r, f')"
  shows "\<exists>t ps'. r = int t \<and> t < length ps' \<and> inserted f' ps' Q \<and> ps' ! t = ps ! s @ vs"
  using assms
proof (induction vs arbitrary: f ps s)
  case Nil
  then show ?case by auto
next
  case (Cons v vs)
  have tr: "trie f ps" using Cons.prems(1) by (simp add: inserted_def)
  show ?case
  proof (cases "ps ! s @ [v] \<in> set ps")
    case True
    then obtain t where t: "t < length ps" "transition f (int s) v = int t" "ps ! t = ps ! s @ [v]"
      using transition_spec(1) [OF tr Cons.prems(2)] by blast
    with Cons.prems(3) have "insert_bytes (int t) vs f = Inr (r, f')" by simp
    from Cons.IH [OF Cons.prems(1) t(1) this] t(3) show ?thesis by simp
  next
    case False
    let ?ps = "ps @ [ps ! s @ [v]]" and ?f = "snd (add_state (int s) v f)"
    have "transition f (int s) v = -1" by (rule transition_spec(2) [OF tr Cons.prems(2) False])
    with Cons.prems(3) have "insert_bytes (int (length ps)) vs ?f = Inr (r, f')"
      using add_state_shape(1) [OF tr Cons.prems(2), of v] by (auto simp: Let_def split: if_splits prod.splits)
    from Cons.IH [OF add_state_inserted [OF Cons.prems(1,2) False] _ this] show ?thesis by simp
  qed
qed

lemma mark_match_inserted:
  assumes "inserted f ps Q" "t < length ps" "ps ! t \<noteq> []"
  shows "inserted (mark_match (int t) (int (length (ps ! t))) f) ps (insert (ps ! t) Q)"
proof -
  let ?f = "mark_match (int t) (int (length (ps ! t))) f"
  have tr: "trie f ps" and len: "length ps = length (nodes f)" using assms(1) trieD(1) by (auto simp: inserted_def)
  have "same_shape f ?f" by (simp add: mark_match_def same_shape_update)
  then have "trie ?f ps" by (rule same_shape_trie [OF tr])
  moreover have "fresh_node ?f ps (insert (ps ! t) Q) u" if "u < length ps" for u
  proof (cases "u = t")
    case True
    have "fresh_node f ps Q t" using assms(1,2) by (simp add: inserted_def)
    with True assms(2,3) len show ?thesis by (auto simp: fresh_node_def mark_match_def update_node_def)
  next
    case False
    then have "ps ! u \<noteq> ps ! t" using state_unique [OF tr that assms(2)] by auto
    moreover have "fresh_node f ps Q u" using assms(1) that by (simp add: inserted_def)
    ultimately show ?thesis using False len that by (auto simp: fresh_node_def mark_match_def update_node_def)
  qed
  ultimately show ?thesis using assms(1,2) by (auto simp: inserted_def)
qed

lemma insert_patterns_inserted:
  assumes "inserted f ps Q" "insert_patterns pats f = Inr f'" "[] \<notin> set pats"
  shows "\<exists>ps'. inserted f' ps' (Q \<union> set pats)"
  using assms
proof (induction pats arbitrary: f ps Q)
  case Nil
  then show ?case by auto
next
  case (Cons p pats)
  obtain r g where g: "insert_bytes 0 p f = Inr (r, g)" "insert_patterns pats (mark_match r (int (length p)) g) = Inr f'"
    using Cons.prems(2) by (auto simp: bind_result_Inr_iff)
  have ps: "0 < length ps" "ps ! 0 = []" using Cons.prems(1) trieD(3,4) by (auto simp: inserted_def)
  obtain t ps' where t: "r = int t" "t < length ps'" "inserted g ps' Q" "ps' ! t = p"
    using insert_bytes_inserted [OF Cons.prems(1) ps(1)] g(1) ps(2) by force
  have "inserted (mark_match (int t) (int (length p)) g) ps' (insert p Q)"
    using mark_match_inserted [OF t(3,2)] t(4) Cons.prems(3) by auto
  from Cons.IH [OF this] g(2) t(1) Cons.prems(3) show ?case by auto
qed

end
