(* ===== verification/Redaction_Links.thy ===== *)
theory Redaction_Links
  imports Redaction_Trie
begin

text \<open>
  The breadth-first pass and the interpretation of the interface \<open>matcher\<close>.
\<close>

subsection \<open>Following failure links\<close>

definition linked :: "Filter \<Rightarrow> bytes list \<Rightarrow> bytes set \<Rightarrow> nat \<Rightarrow> bool" where
  "linked f ps Q s \<longleftrightarrow>
     (\<exists>t < length ps. failure (nodes f ! s) = int t \<and> ps ! t = lsuf (set ps) (tl (ps ! s)))
     \<and> matchLen (nodes f ! s) = int (longest Q (ps ! s))"

abbreviation depth :: "bytes list \<Rightarrow> nat \<Rightarrow> nat" where
  "depth ps s \<equiv> length (ps ! s)"

lemma depth_less:
  assumes "trie f ps" "s < length ps"
  shows "depth ps s < length ps"
proof -
  let ?w = "ps ! s"
  have "take i ?w \<in> set ps" for i
    using prefix_closed_prefix [OF trieD(5) [OF assms(1)], of "take i ?w" "drop i ?w"] nth_mem [OF assms(2)] by simp
  then have "(\<lambda>i. take i ?w) ` {..length ?w} \<subseteq> set ps" by auto
  moreover have "inj_on (\<lambda>i. take i ?w) {..length ?w}"
    by (auto simp: inj_on_def min_def dest!: arg_cong [of _ _ length] split: if_splits)
  ultimately have "card {..length ?w} \<le> card (set ps)" by (metis List.finite_set card_image card_mono)
  also have "card (set ps) = length ps" using trieD(2) [OF assms(1)] by (rule distinct_card)
  finally show ?thesis by simp
qed

lemma lsuf_link:
  assumes "trie f ps" "linked f ps Q s" "ps ! s \<noteq> []" "ps ! s @ [v] \<notin> set ps"
    "failure (nodes f ! s) = int t" "t < length ps" "ps ! t = lsuf (set ps) (tl (ps ! s))"
  shows "lsuf (set ps) (ps ! s @ [v]) = lsuf (set ps) (ps ! t @ [v])"
  using lsuf_drop [OF assms(4,3)] lsuf_snoc [OF trieD(5) [OF assms(1)], of "tl (ps ! s)" v] assms(7) by simp

lemma root_state: "trie f ps \<Longrightarrow> s < length ps \<Longrightarrow> ps ! s = [] \<Longrightarrow> s = 0"
  using state_unique [of f ps s 0] trieD(3,4) [of f ps] by auto

lemma fall_spec:
  assumes "trie f ps" "s < length ps" "depth ps s < n" "\<And>u. u < length ps \<Longrightarrow> depth ps u \<le> depth ps s \<Longrightarrow> linked f ps Q u"
  shows "\<exists>t < length ps. fall n f v (int s) = int t \<and> depth ps t \<le> depth ps s
     \<and> lsuf (set ps) (ps ! s @ [v]) = (if ps ! t @ [v] \<in> set ps then ps ! t @ [v] else [])
     \<and> (ps ! t @ [v] \<notin> set ps \<longrightarrow> t = 0)"
  using assms(2-)
proof (induction n arbitrary: s)
  case (Suc n)
  show ?case
  proof (cases "s \<noteq> 0 \<and> ps ! s @ [v] \<notin> set ps")
    case False
    then have stop: "\<not> (s \<noteq> 0 \<and> transition f (int s) v < 0)"
      using transition_spec(1) [OF assms(1) Suc.prems(1), of v] by auto
    moreover have "lsuf (set ps) (ps ! s @ [v]) = (if ps ! s @ [v] \<in> set ps then ps ! s @ [v] else [])"
      using False trieD(4) [OF assms(1)] lsuf_self [of "ps ! s @ [v]" "set ps"] by auto
    ultimately show ?thesis using False Suc.prems(1) by (intro exI [of _ s]) auto
  next
    case True
    then have ne: "ps ! s \<noteq> []" using root_state [OF assms(1) Suc.prems(1)] by blast
    have lk: "linked f ps Q s" using Suc.prems by blast
    then obtain t where t: "t < length ps" "failure (nodes f ! s) = int t" "ps ! t = lsuf (set ps) (tl (ps ! s))"
      by (auto simp: linked_def)
    have d: "depth ps t < depth ps s" using t(3) ne length_lsuf [of "set ps" "tl (ps ! s)"] by (cases "ps ! s") auto
    have "depth ps t < n" using d Suc.prems(2) by simp
    moreover have "linked f ps Q u" if "u < length ps" "depth ps u \<le> depth ps t" for u
      using that d Suc.prems(3) by simp
    ultimately obtain t' where t': "t' < length ps" "fall n f v (int t) = int t'" "depth ps t' \<le> depth ps t"
       "lsuf (set ps) (ps ! t @ [v]) = (if ps ! t' @ [v] \<in> set ps then ps ! t' @ [v] else [])"
       "ps ! t' @ [v] \<notin> set ps \<longrightarrow> t' = 0"
      using Suc.IH [OF t(1)] by blast
    have "fall (Suc n) f v (int s) = fall n f v (int t)"
      using True t(2) transition_spec(2) [OF assms(1) Suc.prems(1), of v] by simp
    moreover have "lsuf (set ps) (ps ! s @ [v]) = lsuf (set ps) (ps ! t @ [v])"
      using lsuf_link [OF assms(1) lk ne _ t(2,1,3)] True by blast
    ultimately show ?thesis using t' d by (intro exI [of _ t']) auto
  qed
qed simp

text \<open>The state of \<open>advance\<close> is the longest suffix of the text read that is a state.\<close>

lemma advance_loop_spec:
  assumes "trie f ps" "\<forall>u < length ps. linked f ps Q u" "s < length ps" "depth ps s < n"
  shows "\<exists>t < length ps. advance_loop n f (int s) v = int t \<and> ps ! t = lsuf (set ps) (ps ! s @ [v])"
  using assms(3,4)
proof (induction n arbitrary: s)
  case (Suc n)
  show ?case
  proof (cases "ps ! s @ [v] \<in> set ps")
    case True
    then show ?thesis
      using transition_spec(1) [OF assms(1) Suc.prems(1) True] lsuf_self [OF True] by auto
  next
    case False
    then have tr: "transition f (int s) v = -1" by (rule transition_spec(2) [OF assms(1) Suc.prems(1)])
    show ?thesis
    proof (cases "s = 0")
      case True
      then show ?thesis using tr False trieD(3,4) [OF assms(1)] by (intro exI [of _ 0]) auto
    next
      case s: False
      then have ne: "ps ! s \<noteq> []" using root_state [OF assms(1) Suc.prems(1)] by blast
      have lk: "linked f ps Q s" using assms(2) Suc.prems by blast
      then obtain t where t: "t < length ps" "failure (nodes f ! s) = int t" "ps ! t = lsuf (set ps) (tl (ps ! s))"
        by (auto simp: linked_def)
      have "depth ps t < depth ps s" using t(3) ne length_lsuf [of "set ps" "tl (ps ! s)"] by (cases "ps ! s") auto
      with Suc.IH [OF t(1)] Suc.prems(2) lsuf_link [OF assms(1) lk ne False t(2,1,3)] s tr t(2) show ?thesis by simp
    qed
  qed
qed simp

lemma advance_run:
  assumes "trie f ps" "\<forall>u < length ps. linked f ps Q u"
  shows "\<exists>t < length ps. foldl (advance f) 0 w = int t \<and> ps ! t = lsuf (set ps) w"
proof (induction w rule: rev_induct)
  case Nil
  then show ?case using trieD(3,4) [OF assms(1)] by (intro exI [of _ 0]) auto
next
  case (snoc v w)
  then obtain s where s: "s < length ps" "foldl (advance f) 0 w = int s" "ps ! s = lsuf (set ps) w" by blast
  have "depth ps s < Suc (length (nodes f))" using depth_less [OF assms(1) s(1)] trieD(1) [OF assms(1)] by simp
  from advance_loop_spec [OF assms s(1) this, of v]
  have "\<exists>t < length ps. advance f (int s) v = int t \<and> ps ! t = lsuf (set ps) (ps ! s @ [v])"
    unfolding advance_def .
  with s(2,3) lsuf_snoc [OF trieD(5) [OF assms(1)], of w v] show ?case by simp
qed

subsection \<open>Linking a child\<close>

lemma link_child_shape: "same_shape f (link_child p e f)"
proof -
  have two: "same_shape f (if b then update_node s h g else g)"
    if "same_shape f g" "\<And>n. firstEdge (h n) = firstEdge n" for b s h g
    using that same_shape_update [of h g s] same_shape_trans by auto
  show ?thesis unfolding link_child_def Let_def by (intro two) auto
qed

lemma link_child_other:
  "nat (edge_next e) \<noteq> u \<Longrightarrow> nodes (link_child p e f) ! u = nodes f ! u"
  by (simp add: link_child_def Let_def update_node_def)

text \<open>A state not yet linked still carries what insertion left.\<close>

definition pending_node :: "Filter \<Rightarrow> bytes list \<Rightarrow> bytes set \<Rightarrow> nat \<Rightarrow> bool" where
  "pending_node f ps Q s \<longleftrightarrow> fresh_node f ps Q s \<or> linked f ps Q s"

lemma link_child_links:
  assumes "trie f ps" "Q \<subseteq> set ps" "p < length ps" "p \<noteq> 0" "t < length ps" "ps ! t = ps ! p @ [edge_value e]"
    "edge_next e = int t" "pending_node f ps Q t"
    and low: "\<And>u. u < length ps \<Longrightarrow> depth ps u \<le> depth ps p \<Longrightarrow> linked f ps Q u"
  shows "linked (link_child (int p) e f) ps Q t"
proof -
  let ?S = "set ps" and ?v = "edge_value e"
  have len: "length (nodes f) = length ps" using trieD(1) [OF assms(1)] by simp
  have ne: "ps ! p \<noteq> []" using root_state [OF assms(1,3)] assms(4) by blast
  obtain fp where fp: "fp < length ps" "failure (nodes f ! p) = int fp" "ps ! fp = lsuf ?S (tl (ps ! p))"
    using low [OF assms(3)] by (auto simp: linked_def)
  have dfp: "depth ps fp < depth ps p" using fp(3) ne length_lsuf [of ?S "tl (ps ! p)"] by (cases "ps ! p") auto
  have "depth ps fp < length (nodes f)" using depth_less [OF assms(1) fp(1)] len by simp
  moreover have "linked f ps Q u" if "u < length ps" "depth ps u \<le> depth ps fp" for u
    using that dfp by (intro low) auto
  ultimately obtain g where
    g: "g < length ps" "fall (length (nodes f)) f ?v (int fp) = int g" "depth ps g \<le> depth ps fp"
      "lsuf ?S (ps ! fp @ [?v]) = (if ps ! g @ [?v] \<in> ?S then ps ! g @ [?v] else [])" "ps ! g @ [?v] \<notin> ?S \<longrightarrow> g = 0"
    using fall_spec [OF assms(1) fp(1), of "length (nodes f)" Q ?v] by blast
  have target: "lsuf ?S (tl (ps ! t)) = lsuf ?S (ps ! fp @ [?v])"
    using assms(6) ne lsuf_snoc [OF trieD(5) [OF assms(1)], of "tl (ps ! p)" ?v] fp(3) by (cases "ps ! p") simp_all
  obtain h where h: "h < length ps" "ps ! h = lsuf ?S (tl (ps ! t))"
    using lsuf_in [OF trieD(5) [OF assms(1)], of "tl (ps ! t)"] by (metis in_set_conv_nth)
  have dh: "depth ps h \<le> depth ps p"
    using h(2) length_lsuf [of ?S "tl (ps ! t)"] assms(6) by simp
  then have th: "t \<noteq> h" using assms(6) by auto
  define fallback where "fallback = transition f (int g) ?v"
  define f1 where "f1 = (if fallback \<ge> 0 \<and> fallback \<noteq> int t then update_node (int t) (\<lambda>n. n\<lparr>failure := fallback\<rparr>) f else f)"
  have fb: "ps ! g @ [?v] \<in> ?S \<Longrightarrow> fallback = int h" "ps ! g @ [?v] \<notin> ?S \<Longrightarrow> fallback = -1"
  proof -
    assume a: "ps ! g @ [?v] \<in> ?S"
    then obtain x where "x < length ps" "fallback = int x" "ps ! x = ps ! g @ [?v]"
      using transition_spec(1) [OF assms(1) g(1) a] by (auto simp: fallback_def)
    moreover have "ps ! h = ps ! g @ [?v]" using h(2) target g(4) a by simp
    ultimately show "fallback = int h" using state_unique [OF assms(1) _ h(1)] by simp
  qed (use transition_spec(2) [OF assms(1) g(1)] in \<open>simp add: fallback_def\<close>)
  have f1: "failure (nodes f1 ! t) = int h" "matchLen (nodes f1 ! t) = matchLen (nodes f ! t)" "nodes f1 ! h = nodes f ! h"
  proof -
    show "matchLen (nodes f1 ! t) = matchLen (nodes f ! t)" "nodes f1 ! h = nodes f ! h"
      using th assms(5) len by (auto simp: f1_def update_node_def)
    show "failure (nodes f1 ! t) = int h"
    proof (cases "ps ! g @ [?v] \<in> ?S")
      case True
      with fb(1) th assms(5) len show ?thesis by (auto simp: f1_def update_node_def)
    next
      case False
      then have "ps ! h = []" using h(2) target g(4) by simp
      then have h0: "h = 0" by (rule root_state [OF assms(1) h(1)])
      have "failure (nodes f ! t) = 0"
      proof (cases "fresh_node f ps Q t")
        case False
        then obtain k where "k < length ps" "failure (nodes f ! t) = int k" "ps ! k = ps ! h"
          using assms(8) h(2) by (auto simp: pending_node_def linked_def)
        then show ?thesis using state_unique [OF assms(1) _ h(1), of k] h0 by simp
      qed (simp add: fresh_node_def)
      with fb(2) False h0 show ?thesis by (simp add: f1_def)
    qed
  qed
  have inherited: "matchLen (nodes f1 ! nat (failure (nodes f1 ! t))) = int (longest Q (tl (ps ! t)))"
    using low [OF h(1) dh] f1 h(2) longest_lsuf [OF assms(2), of "tl (ps ! t)"] by (simp add: linked_def)
  have cons: "ps ! t \<noteq> []" using assms(6) by simp
  have own: "max (matchLen (nodes f ! t)) (int (longest Q (tl (ps ! t)))) = int (longest Q (ps ! t))"
  proof -
    have "longest Q (ps ! t) = (if ps ! t \<in> Q then depth ps t else longest Q (tl (ps ! t)))"
      using cons by (cases "ps ! t") auto
    moreover have "longest Q (tl (ps ! t)) \<le> depth ps t" using longest_le [of Q "tl (ps ! t)"] by simp
    moreover have "matchLen (nodes f ! t) = (if ps ! t \<in> Q then int (depth ps t) else 0)
        \<or> matchLen (nodes f ! t) = int (longest Q (ps ! t))"
      using assms(8) by (auto simp: pending_node_def fresh_node_def linked_def)
    ultimately show ?thesis by auto
  qed
  have len1: "length (nodes f1) = length ps" using len by (simp add: f1_def update_node_def)
  let ?i = "int (longest Q (tl (ps ! t)))"
  have "link_child (int p) e f = (if ?i > matchLen (nodes f1 ! t) then update_node (int t) (\<lambda>n. n\<lparr>matchLen := ?i\<rparr>) f1 else f1)"
    unfolding link_child_def Let_def assms(7) nat_int fp(2) g(2) fallback_def [symmetric] f1_def [symmetric] inherited
    by (rule refl)
  then have "failure (nodes (link_child (int p) e f) ! t) = int h"
    "matchLen (nodes (link_child (int p) e f) ! t) = max (matchLen (nodes f1 ! t)) ?i"
    using f1(1) len1 assms(5) by (auto simp: update_node_def)
  with h own f1(2) show ?thesis by (auto simp: linked_def)
qed

subsection \<open>Linking all children of a state\<close>

lemma linked_cong: "nodes g ! u = nodes f ! u \<Longrightarrow> linked g ps Q u = linked f ps Q u"
  by (simp add: linked_def)

lemma pending_cong: "nodes g ! u = nodes f ! u \<Longrightarrow> pending_node g ps Q u = pending_node f ps Q u"
  by (simp add: pending_node_def fresh_node_def linked_def)

definition edges_to :: "bytes list \<Rightarrow> nat \<Rightarrow> automatonEdge list \<Rightarrow> bool" where
  "edges_to ps p es \<longleftrightarrow> (\<forall>e \<in> set es. \<exists>t < length ps. edge_next e = int t \<and> ps ! t = ps ! p @ [edge_value e])"

lemma link_children:
  assumes "trie f ps" "Q \<subseteq> set ps" "p < length ps" "p \<noteq> 0" "edges_to ps p es"
    and "\<And>u. u < length ps \<Longrightarrow> depth ps u \<le> depth ps p \<Longrightarrow> linked f ps Q u"
    and "\<And>u. u < length ps \<Longrightarrow> pending_node f ps Q u"
  shows "same_shape f (fold (link_child (int p)) es f)"
    and "\<And>u. u < length ps \<Longrightarrow> pending_node (fold (link_child (int p)) es f) ps Q u"
    and "\<And>u. u < length ps \<Longrightarrow> linked f ps Q u \<Longrightarrow> linked (fold (link_child (int p)) es f) ps Q u"
    and "\<And>e. e \<in> set es \<Longrightarrow> linked (fold (link_child (int p)) es f) ps Q (nat (edge_next e))"
  using assms
proof (atomize (full), induction es arbitrary: f)
  case (Cons e es)
  then have pre: "trie f ps" "Q \<subseteq> set ps" "p < length ps" "p \<noteq> 0" "edges_to ps p (e # es)"
    "\<And>u. u < length ps \<Longrightarrow> depth ps u \<le> depth ps p \<Longrightarrow> linked f ps Q u"
    "\<And>u. u < length ps \<Longrightarrow> pending_node f ps Q u" by blast+
  let ?g = "link_child (int p) e f"
  obtain t where t: "t < length ps" "edge_next e = int t" "ps ! t = ps ! p @ [edge_value e]"
    using pre(5) by (auto simp: edges_to_def)
  have lt: "linked ?g ps Q t" by (rule link_child_links [OF pre(1-4) t(1,3,2) pre(7) [OF t(1)] pre(6)])
  have same: "u \<noteq> t \<Longrightarrow> nodes ?g ! u = nodes f ! u" for u using link_child_other [of e u] t(2) by simp
  have shape: "same_shape f ?g" by (rule link_child_shape)
  have g12: "trie ?g ps" "edges_to ps p es"
    using same_shape_trie [OF pre(1) shape] pre(5) by (auto simp: edges_to_def)
  have g3: "linked ?g ps Q u" if "linked f ps Q u" for u
    using that lt linked_cong [OF same, of u ps Q] by (cases "u = t") auto
  have g4: "pending_node ?g ps Q u" if "u < length ps" for u
    using that lt pending_cong [OF same, of u ps Q] pre(7) by (cases "u = t") (auto simp: pending_node_def)
  note g = g12 g3 g4
  have low: "\<And>u. u < length ps \<Longrightarrow> depth ps u \<le> depth ps p \<Longrightarrow> linked ?g ps Q u" using g(3) pre(6) by blast
  note ih = Cons.IH [of ?g]
  have "same_shape ?g (fold (link_child (int p)) es ?g)"
    "\<And>u. u < length ps \<Longrightarrow> pending_node (fold (link_child (int p)) es ?g) ps Q u"
    "\<And>u. u < length ps \<Longrightarrow> linked ?g ps Q u \<Longrightarrow> linked (fold (link_child (int p)) es ?g) ps Q u"
    "\<And>e. e \<in> set es \<Longrightarrow> linked (fold (link_child (int p)) es ?g) ps Q (nat (edge_next e))"
    using ih g12 g4 low pre(2-4) by blast+
  then show ?case using same_shape_trans [OF shape] g(3) lt t by auto
qed auto

lemma trie_edges_to: "trie f ps \<Longrightarrow> p < length ps \<Longrightarrow> edges_to ps p (edges_of f (int p))"
proof (unfold edges_to_def, intro ballI)
  fix e assume a: "trie f ps" "p < length ps" "e \<in> set (edges_of f (int p))"
  then have "(edge_value e, edge_next e) \<in> child_set ps p"
    using trieD(8) [OF a(1,2)] by (auto simp: children_def)
  then show "\<exists>t < length ps. edge_next e = int t \<and> ps ! t = ps ! p @ [edge_value e]" by (simp add: child_set_iff)
qed

text \<open>The children of a state, as state numbers.\<close>

definition kids :: "Filter \<Rightarrow> nat \<Rightarrow> nat list" where
  "kids f p = map (\<lambda>e. nat (edge_next e)) (edges_of f (int p))"

lemma kids_edges: "trie f ps \<Longrightarrow> p < length ps \<Longrightarrow> map edge_next (edges_of f (int p)) = map int (kids f p)"
  using trie_edges_to [of f ps p] by (auto simp: kids_def edges_to_def)

lemma kids_iff:
  assumes "trie f ps" "p < length ps"
  shows "k \<in> set (kids f p) \<longleftrightarrow> k < length ps \<and> (\<exists>v. ps ! k = ps ! p @ [v])"
proof -
  have "k \<in> set (kids f p) \<longleftrightarrow> (\<exists>v. (v, int k) \<in> set (children f p))"
    using trie_edges_to [OF assms] by (force simp: kids_def children_def edges_to_def)
  then show ?thesis using trieD(8) [OF assms] by (auto simp: child_set_iff)
qed

lemma kids_distinct:
  assumes "trie f ps" "p < length ps"
  shows "distinct (kids f p)"
proof -
  have d: "distinct (map edge_value (edges_of f (int p)))"
    using trieD(9) [OF assms] by (simp add: children_def comp_def)
  have "inj_on (\<lambda>e. nat (edge_next e)) (set (edges_of f (int p)))"
  proof (rule inj_onI)
    fix e e' assume e: "e \<in> set (edges_of f (int p))" "e' \<in> set (edges_of f (int p))" "nat (edge_next e) = nat (edge_next e')"
    obtain t t' where "edge_next e = int t" "ps ! t = ps ! p @ [edge_value e]" "edge_next e' = int t'"
      "ps ! t' = ps ! p @ [edge_value e']" using trie_edges_to [OF assms] e(1,2) unfolding edges_to_def by blast
    then have "edge_value e = edge_value e'" using e(3) by auto
    with d e show "e = e'" by (metis distinct_map inj_onD)
  qed
  with d show ?thesis by (simp add: kids_def distinct_map)
qed

subsection \<open>The queue\<close>

definition weight :: "bytes list \<Rightarrow> nat \<Rightarrow> nat" where
  "weight ps q = card {u. u < length ps \<and> prefix (ps ! q) (ps ! u)}"

lemma weight_kids:
  assumes "trie f ps" "p < length ps"
  shows "Suc (sum_list (map (weight ps) (kids f p))) \<le> weight ps p"
proof -
  let ?D = "\<lambda>q. {u. u < length ps \<and> prefix (ps ! q) (ps ! u)}"
  have fin: "finite (?D q)" for q by simp
  have disj: "?D k \<inter> ?D k' = {}" if kk: "k \<in> set (kids f p)" "k' \<in> set (kids f p)" "k \<noteq> k'" for k k'
  proof -
    obtain v v' where v: "k < length ps" "ps ! k = ps ! p @ [v]" "k' < length ps" "ps ! k' = ps ! p @ [v']"
      using kk by (auto simp: kids_iff [OF assms])
    then have "v \<noteq> v'" using kk(3) state_unique [OF assms(1) v(1,3)] by auto
    then show ?thesis using v by (auto simp: prefix_def)
  qed
  have "sum_list (map (weight ps) (kids f p)) = (\<Sum>k \<in> set (kids f p). card (?D k))"
    using kids_distinct [OF assms] by (simp add: sum_list_distinct_conv_sum_set weight_def)
  also have "\<dots> = card (\<Union>k \<in> set (kids f p). ?D k)"
    by (rule card_UN_disjoint [symmetric]) (use disj in auto)
  also have "Suc \<dots> = card (insert p (\<Union>k \<in> set (kids f p). ?D k))"
  proof (rule card_insert_disjoint [symmetric])
    show "p \<notin> (\<Union>k \<in> set (kids f p). ?D k)" by (auto simp: kids_iff [OF assms] prefix_def)
  qed auto
  also have "\<dots> \<le> card (?D p)"
    using assms(2) by (intro card_mono fin) (auto simp: kids_iff [OF assms] prefix_def)
  finally show ?thesis by (simp add: weight_def)
qed

definition bfs :: "Filter \<Rightarrow> bytes list \<Rightarrow> bytes set \<Rightarrow> nat list \<Rightarrow> bool" where
  "bfs f ps Q qs \<longleftrightarrow> trie f ps \<and> Q \<subseteq> set ps \<and> (\<forall>q \<in> set qs. q < length ps \<and> q \<noteq> 0)
     \<and> sorted (map (depth ps) qs) \<and> (\<forall>q \<in> set qs. depth ps q \<le> Suc (depth ps (hd qs)))
     \<and> (\<forall>u < length ps. pending_node f ps Q u)
     \<and> (\<forall>u < length ps. linked f ps Q u \<or> (\<exists>q \<in> set qs. strict_prefix (ps ! q) (ps ! u)))"

lemma bfs_low:
  assumes "bfs f ps Q (p # qs)" "u < length ps" "depth ps u \<le> depth ps p"
  shows "linked f ps Q u"
proof (rule ccontr)
  assume "\<not> linked f ps Q u"
  with assms(1,2) obtain q where q: "q \<in> set (p # qs)" "strict_prefix (ps ! q) (ps ! u)"
    unfolding bfs_def by blast
  then have "depth ps p \<le> depth ps q" using assms(1) by (auto simp: bfs_def)
  moreover have "depth ps q < depth ps u" using q(2) by (rule prefix_length_less)
  ultimately show False using assms(3) by simp
qed

lemma bfs_step:
  assumes "bfs f ps Q (p # qs)"
  shows "bfs (fold (link_child (int p)) (edges_of f (int p)) f) ps Q (qs @ kids f p)"
proof -
  let ?g = "fold (link_child (int p)) (edges_of f (int p)) f"
  have b: "trie f ps" "Q \<subseteq> set ps" "p < length ps" "p \<noteq> 0" "\<forall>q \<in> set qs. q < length ps \<and> q \<noteq> 0"
    "sorted (map (depth ps) qs)" "\<forall>q \<in> set qs. depth ps p \<le> depth ps q \<and> depth ps q \<le> Suc (depth ps p)"
    "\<And>u. u < length ps \<Longrightarrow> pending_node f ps Q u"
    "\<And>u. u < length ps \<Longrightarrow> linked f ps Q u \<or> (\<exists>q \<in> set (p # qs). strict_prefix (ps ! q) (ps ! u))"
    using assms by (auto simp: bfs_def)
  note lc = link_children [OF b(1-4) trie_edges_to [OF b(1,3)] bfs_low [OF assms] b(8)]
  have kd: "depth ps k = Suc (depth ps p)" "k < length ps" "k \<noteq> 0" "linked ?g ps Q k" if "k \<in> set (kids f p)" for k
  proof -
    show "depth ps k = Suc (depth ps p)" "k < length ps" using that by (auto simp: kids_iff [OF b(1,3)])
    then show "k \<noteq> 0" using trieD(4) [OF b(1)] by (auto intro: ccontr)
    show "linked ?g ps Q k" using that lc(4) by (auto simp: kids_def)
  qed
  have "linked ?g ps Q u \<or> (\<exists>q \<in> set (qs @ kids f p). strict_prefix (ps ! q) (ps ! u))" if u: "u < length ps" for u
  proof (cases "linked f ps Q u \<or> (\<exists>q \<in> set qs. strict_prefix (ps ! q) (ps ! u))")
    case True
    then show ?thesis using lc(3) u by auto
  next
    case False
    then have "strict_prefix (ps ! p) (ps ! u)" using b(9) [OF u] by auto
    then obtain v rest where w: "ps ! u = ps ! p @ v # rest" by (auto simp: strict_prefix_def prefix_def neq_Nil_conv)
    then have "ps ! p @ [v] \<in> set ps"
      using prefix_closed_prefix [OF trieD(5) [OF b(1)], of "ps ! p @ [v]" rest] nth_mem [OF u] by simp
    then obtain k where k: "k < length ps" "ps ! k = ps ! p @ [v]" by (auto simp: in_set_conv_nth)
    then have kk: "k \<in> set (kids f p)" by (auto simp: kids_iff [OF b(1,3)])
    show ?thesis
    proof (cases "rest = []")
      case True
      then have "u = k" using w k state_unique [OF b(1) u k(1)] by simp
      with kd(4) [OF kk] show ?thesis by simp
    next
      case False
      then have "strict_prefix (ps ! k) (ps ! u)" using w k(2) by (auto simp: strict_prefix_def prefix_def)
      with kk show ?thesis by auto
    qed
  qed
  moreover have "sorted (map (depth ps) (qs @ kids f p))"
  proof -
    have "sorted (map (depth ps) (kids f p))" unfolding sorted_iff_nth_mono using kd(1) nth_mem by auto
    with b(6,7) kd(1) show ?thesis by (auto simp: sorted_append)
  qed
  moreover have "\<forall>q \<in> set (qs @ kids f p). depth ps q \<le> Suc (depth ps (hd (qs @ kids f p)))"
  proof (cases qs)
    case Nil
    show ?thesis
    proof
      fix q assume q: "q \<in> set (qs @ kids f p)"
      then have "hd (kids f p) \<in> set (kids f p)" using Nil by (cases "kids f p") auto
      with q Nil kd(1) show "depth ps q \<le> Suc (depth ps (hd (qs @ kids f p)))" by simp
    qed
  next
    case (Cons q0 qs')
    with b(7) kd(1) show ?thesis by fastforce
  qed
  moreover have "\<forall>q \<in> set (qs @ kids f p). q < length ps \<and> q \<noteq> 0" using b(5) kd(2,3) by auto
  ultimately show ?thesis
    using same_shape_trie [OF b(1) lc(1)] b(2) lc(2) unfolding bfs_def by blast
qed

lemma link_queue_links:
  assumes "bfs f ps Q qs" "sum_list (map (weight ps) qs) \<le> n"
  shows "same_shape f (link_queue n (map int qs) f) \<and> (\<forall>u < length ps. linked (link_queue n (map int qs) f) ps Q u)"
  using assms
proof (induction n arbitrary: f qs)
  case 0
  have "qs = []"
  proof (rule ccontr)
    assume "qs \<noteq> []"
    then obtain q qs' where q: "qs = q # qs'" by (cases qs) auto
    then have "q < length ps" using 0 by (simp add: bfs_def)
    then have "0 < weight ps q" by (auto simp: weight_def card_gt_0_iff intro: exI [of _ q])
    with 0 q show False by simp
  qed
  with 0 show ?case by (simp add: bfs_def)
next
  case (Suc n)
  show ?case
  proof (cases qs)
    case Nil
    with Suc.prems show ?thesis by (simp add: bfs_def)
  next
    case (Cons p qs')
    have b: "trie f ps" "p < length ps" "p \<noteq> 0" using Suc.prems(1) Cons by (auto simp: bfs_def)
    let ?g = "fold (link_child (int p)) (edges_of f (int p)) f"
    have sh: "same_shape f ?g"
      using link_children(1) [OF b(1) _ b(2,3) trie_edges_to [OF b(1,2)] bfs_low [OF Suc.prems(1) [unfolded Cons]]] Suc.prems(1)
      by (auto simp: bfs_def)
    have "sum_list (map (weight ps) (qs' @ kids f p)) \<le> n"
      using weight_kids [OF b(1,2)] Suc.prems(2) Cons by simp
    from Suc.IH [OF bfs_step [OF Suc.prems(1) [unfolded Cons]] this] same_shape_trans [OF sh] show ?thesis
      by (simp add: Cons Let_def kids_edges [OF b(1,2)])
  qed
qed

subsection \<open>The automaton\<close>

lemma weight_root: "trie f ps \<Longrightarrow> weight ps 0 = length ps"
  using trieD(4) [of f ps] by (simp add: weight_def)

lemma fold_same: "(\<And>x. x \<in> set xs \<Longrightarrow> g x a = a) \<Longrightarrow> fold g xs a = a"
  by (induction xs) auto

lemma clear_failures:
  assumes "inserted f ps Q"
  shows "fold (\<lambda>e. update_node (edge_next e) (\<lambda>n. n\<lparr>failure := 0\<rparr>)) (edges_of f 0) f = f"
proof (rule fold_same)
  fix e assume "e \<in> set (edges_of f 0)"
  moreover have "trie f ps" "0 < length ps" using assms trieD(3) by (auto simp: inserted_def)
  ultimately obtain t where t: "t < length ps" "edge_next e = int t"
    using trie_edges_to [of f ps 0] by (auto simp: edges_to_def)
  then have "failure (nodes f ! t) = 0" using assms by (simp add: inserted_def fresh_node_def)
  then have "(nodes f ! t)\<lparr>failure := 0\<rparr> = nodes f ! t" by (cases "nodes f ! t") simp
  then show "update_node (edge_next e) (\<lambda>n. n\<lparr>failure := 0\<rparr>) f = f" by (simp add: update_node_def t(2))
qed

lemma inserted_bfs:
  assumes "inserted f ps Q" "[] \<notin> Q"
  shows "bfs f ps Q (kids f 0)"
proof -
  have t: "trie f ps" "Q \<subseteq> set ps" "0 < length ps" "ps ! 0 = []" and fresh: "\<And>u. u < length ps \<Longrightarrow> fresh_node f ps Q u"
    using assms(1) trieD(3,4) by (auto simp: inserted_def)
  have kd: "k < length ps \<and> k \<noteq> 0 \<and> depth ps k = 1" if "k \<in> set (kids f 0)" for k
    using that t(4) by (auto simp: kids_iff [OF t(1,3)] intro: ccontr)
  have "linked f ps Q u \<or> (\<exists>q \<in> set (kids f 0). strict_prefix (ps ! q) (ps ! u))" if u: "u < length ps" for u
  proof (cases "depth ps u \<le> 1")
    case True
    then have "tl (ps ! u) = []" by (cases "ps ! u") auto
    moreover have "longest Q (ps ! u) = (if ps ! u \<in> Q then depth ps u else 0)"
      using True assms(2) by (cases "ps ! u") auto
    ultimately show ?thesis using fresh [OF u] t(3,4) by (auto simp: linked_def fresh_node_def)
  next
    case False
    then obtain v c rest where w: "ps ! u = v # c # rest" by (cases "ps ! u"; cases "tl (ps ! u)") auto
    then have "[v] \<in> set ps"
      using prefix_closed_prefix [OF trieD(5) [OF t(1)], of "[v]" "c # rest"] nth_mem [OF u] by simp
    then obtain k where k: "k < length ps" "ps ! k = [v]" by (auto simp: in_set_conv_nth)
    then have "k \<in> set (kids f 0)" "strict_prefix (ps ! k) (ps ! u)"
      using w t(4) by (auto simp: kids_iff [OF t(1,3)] strict_prefix_def prefix_def)
    then show ?thesis by blast
  qed
  moreover have "sorted (map (depth ps) (kids f 0))" unfolding sorted_iff_nth_mono using kd nth_mem by auto
  moreover have "\<forall>q \<in> set (kids f 0). depth ps q \<le> Suc (depth ps (hd (kids f 0)))" using kd by fastforce
  ultimately show ?thesis using t(1,2) kd fresh by (auto simp: bfs_def pending_node_def)
qed

theorem buildAutomaton_links:
  assumes "buildAutomaton pats = Inr f" "[] \<notin> set pats"
  shows "\<exists>ps. trie f ps \<and> set pats \<subseteq> set ps \<and> (\<forall>u < length ps. linked f ps (set pats) u)"
proof -
  obtain f0 where f0: "insert_patterns pats empty_filter = Inr f0"
    using assms(1) by (auto simp: buildAutomaton_def bind_result_Inr_iff)
  obtain ps where ins: "inserted f0 ps (set pats)"
    using insert_patterns_inserted [OF empty_inserted f0 assms(2)] by auto
  have t: "trie f0 ps" "0 < length ps" using ins trieD(3) by (auto simp: inserted_def)
  have "map edge_next (edges_of f0 0) = map int (kids f0 0)" using kids_edges [OF t] by simp
  then have f: "f = link_queue (length (nodes f0)) (map int (kids f0 0)) f0"
    using assms(1) f0 clear_failures [OF ins] by (simp add: buildAutomaton_def Let_def)
  have "sum_list (map (weight ps) (kids f0 0)) \<le> length (nodes f0)"
    using weight_kids [OF t] weight_root [OF t(1)] trieD(1) [OF t(1)] by simp
  from link_queue_links [OF inserted_bfs [OF ins assms(2)] this] f same_shape_trie [OF t(1)] ins show ?thesis
    by (auto simp: inserted_def)
qed

theorem match_after_input:
  assumes "buildAutomaton pats = Inr f" "[] \<notin> set pats"
  shows "match_at f (foldl (advance f) 0 w) = longest (set pats) w"
proof -
  obtain ps where ps: "trie f ps" "set pats \<subseteq> set ps" "\<forall>u < length ps. linked f ps (set pats) u"
    using buildAutomaton_links [OF assms] by blast
  obtain t where "t < length ps" "foldl (advance f) 0 w = int t" "ps ! t = lsuf (set ps) w"
    using advance_run [OF ps(1,3)] by blast
  with ps(3) longest_lsuf [OF ps(2), of w] show ?thesis by (simp add: match_at_def linked_def)
qed

definition automaton_for :: "Filter \<Rightarrow> bytes set \<Rightarrow> bool" where
  "automaton_for f P \<longleftrightarrow> (\<exists>pats. buildAutomaton pats = Inr f \<and> P = set pats \<and> [] \<notin> P)"

interpretation ac: matcher automaton_for advance 0 match_at
  by unfold_locales (auto simp: automaton_for_def match_after_input)

lemma Bytes_scan: "automaton_for f P \<Longrightarrow> Bytes f input = ac.scan f input"
proof -
  assume "automaton_for f P"
  then obtain ps where "trie f ps" using buildAutomaton_links by (force simp: automaton_for_def)
  then have "nodes f \<noteq> []" using trieD(1,3) [of f ps] by auto
  moreover have "bytes_step f = ac.scan_step f" by (intro ext) (simp add: bytes_step_def ac.scan_step_def)
  ultimately show ?thesis by (simp add: Bytes_def ac.scan_def)
qed

end
