(* ===== verification/Redaction.thy ===== *)
theory Redaction
  imports Redaction_Links Go_Text "HOL-Library.Product_Lexorder" "HOL-Library.Multiset"
begin

text \<open>
  The secret filter (\<open>internal/redaction/redaction.go\<close>): the encodings under which a credential
  may appear, the bounded collection of variants, and what the filter guarantees for its output.
\<close>

subsection \<open>Encodings of the standard library\<close>

definition alnum :: "char \<Rightarrow> bool" where
  "alnum c \<longleftrightarrow> (48 \<le> byte c \<and> byte c \<le> 57) \<or> (65 \<le> byte c \<and> byte c \<le> 90) \<or> (97 \<le> byte c \<and> byte c \<le> 122)"

definition unreserved :: "char \<Rightarrow> bool" where
  "unreserved c \<longleftrightarrow> alnum c \<or> c \<in> set ''-_.~''"

definition upper_nibble :: "nat \<Rightarrow> char" where
  "upper_nibble n = char_of (if n < 10 then 48 + n else 55 + n)"

definition percent :: "char \<Rightarrow> bytes" where
  "percent c = [CHR ''%'', upper_nibble (byte c div 16), upper_nibble (byte c mod 16)]"

definition QueryEscape :: "bytes \<Rightarrow> bytes" where
  "QueryEscape s = concat (map (\<lambda>c. if unreserved c then [c] else if c = CHR '' '' then ''+'' else percent c) s)"

definition PathEscape :: "bytes \<Rightarrow> bytes" where
  "PathEscape s = concat (map (\<lambda>c. if unreserved c \<or> c \<in> set ''$&+=:@'' then [c] else percent c) s)"

text \<open>\<open>encoding/base64\<close> over an alphabet, with or without padding.\<close>

definition StdAlphabet :: bytes where
  "StdAlphabet = ''ABCDEFGHIJKLMNOPQRSTUVWXYZabcdefghijklmnopqrstuvwxyz0123456789+/''"

definition URLAlphabet :: bytes where
  "URLAlphabet = ''ABCDEFGHIJKLMNOPQRSTUVWXYZabcdefghijklmnopqrstuvwxyz0123456789-_''"

fun base64 :: "bytes \<Rightarrow> bool \<Rightarrow> bytes \<Rightarrow> bytes" where
  "base64 alphabet pad (a # b # c # rest) =
     (let n = byte a * 65536 + byte b * 256 + byte c
      in [alphabet ! (n div 262144 mod 64), alphabet ! (n div 4096 mod 64), alphabet ! (n div 64 mod 64), alphabet ! (n mod 64)]
         @ base64 alphabet pad rest)"
| "base64 alphabet pad [a, b] =
     (let n = byte a * 65536 + byte b * 256
      in [alphabet ! (n div 262144 mod 64), alphabet ! (n div 4096 mod 64), alphabet ! (n div 64 mod 64)]
         @ (if pad then ''='' else []))"
| "base64 alphabet pad [a] =
     (let n = byte a * 65536
      in [alphabet ! (n div 262144 mod 64), alphabet ! (n div 4096 mod 64)] @ (if pad then ''=='' else []))"
| "base64 alphabet pad [] = []"

definition backslash :: char where
  "backslash = CHR 0x5C"

text \<open>The inside of \<open>json.Marshal\<close> of a string: HTML-safe escapes, and the escape of U+FFFD for invalid UTF-8.\<close>

definition json_rune :: "nat \<Rightarrow> nat \<Rightarrow> bytes \<Rightarrow> bytes" where
  "json_rune r n src =
     (if r < 128 then
        (let c = char_of r in
         if c = backslash \<or> r = 34 then [backslash, c]
         else if r = 8 then [backslash, CHR ''b'']
         else if r = 12 then [backslash, CHR ''f'']
         else if r = 10 then [backslash, CHR ''n'']
         else if r = 13 then [backslash, CHR ''r'']
         else if r = 9 then [backslash, CHR ''t'']
         else if r < 32 \<or> c \<in> set ''<>&'' then [backslash, CHR ''u'', CHR ''0'', CHR ''0'', hex_nibble (r div 16), hex_nibble (r mod 16)]
         else [c])
      else if r = RuneError \<and> n = 1 then backslash # ''ufffd''
      else if r = 8232 then backslash # ''u2028''
      else if r = 8233 then backslash # ''u2029''
      else take n src)"

fun json_runes :: "(nat \<times> nat) list \<Rightarrow> bytes \<Rightarrow> bytes" where
  "json_runes [] src = []"
| "json_runes ((r, n) # rs) src = json_rune r n src @ json_runes rs (drop n src)"

definition json_text :: "bytes \<Rightarrow> bytes" where
  "json_text s = json_runes (runes s) s"

definition replace_char :: "char \<Rightarrow> bytes \<Rightarrow> bytes \<Rightarrow> bytes" where
  "replace_char c new s = concat (map (\<lambda>x. if x = c then new else [x]) s)"

definition encodedVariants :: "bytes \<Rightarrow> bytes list" where
  "encodedVariants value =
     [value, QueryEscape value, PathEscape value, base64 StdAlphabet True value, base64 StdAlphabet False value,
      base64 URLAlphabet True value, base64 URLAlphabet False value, json_text value]
     @ (if slash \<in> set (json_text value) then [replace_char slash [backslash, slash] (json_text value)] else [])
     @ [replace_char (CHR ''+'') ''%20'' (QueryEscape value)]"

subsection \<open>Collecting the variants\<close>

record Policy =
  MaximumValues :: int
  MaximumValueBytes :: int
  MaximumAggregateBytes :: int

definition DefaultPolicy :: Policy where
  "DefaultPolicy = \<lparr>MaximumValues = 128, MaximumValueBytes = 65536, MaximumAggregateBytes = 1048576\<rparr>"

fun add_variants :: "Policy \<Rightarrow> bytes list \<Rightarrow> bytes list \<times> int \<Rightarrow> (bytes, bytes list \<times> int) result" where
  "add_variants policy [] acc = Inr acc"
| "add_variants policy (variant # rest) (variants, aggregate) =
     (if variant = [] \<or> variant \<in> set variants then add_variants policy rest (variants, aggregate)
      else if aggregate + int (length variant) > MaximumAggregateBytes policy then Inl ''redaction variants are too large''
      else add_variants policy rest (variants @ [variant], aggregate + int (length variant)))"

fun add_values :: "Policy \<Rightarrow> bytes list \<Rightarrow> bytes list \<times> int \<Rightarrow> (bytes, bytes list \<times> int) result" where
  "add_values policy [] acc = Inr acc"
| "add_values policy (value # rest) acc =
     (if value = [] then add_values policy rest acc
      else if int (length value) > MaximumValueBytes policy then Inl ''redaction value is too large''
      else bind_result (add_variants policy (encodedVariants value) acc) (add_values policy rest))"

definition New :: "bytes list \<Rightarrow> Policy \<Rightarrow> (bytes, Filter) result" where
  "New values policy =
     (if MaximumValues policy \<le> 0 \<or> MaximumValues policy > 1024
         \<or> MaximumValueBytes policy \<le> 0 \<or> MaximumValueBytes policy > 1048576
         \<or> MaximumAggregateBytes policy \<le> 0 \<or> MaximumAggregateBytes policy > 4194304
      then Inl ''redaction policy is invalid''
      else if int (length values) > MaximumValues policy then Inl ''too many redaction values''
      else bind_result (add_values policy values ([], 0)) (\<lambda>(variants, _).
           bind_result (buildAutomaton (sort_key (\<lambda>v. (- int (length v), v)) variants)) (\<lambda>f.
           Inr (f\<lparr>replacement := ''[REDACTED]''\<rparr>))))"

definition Fields :: "Filter \<Rightarrow> (bytes \<times> bytes) list \<Rightarrow> bytes list \<Rightarrow> (bytes \<times> bytes) list" where
  "Fields f input sensitiveKeys =
     map (\<lambda>(key, value). (key, if key \<in> set sensitiveKeys then Bytes f (replacement f) else Bytes f value)) input"

definition Clear :: "Filter \<Rightarrow> Filter" where
  "Clear f = f\<lparr>nodes := [], edges := [], root := (\<lambda>_. 0), replacement := []\<rparr>"

subsection \<open>What is collected\<close>

lemma add_variants_Inr:
  assumes "add_variants policy vs (variants, n) = Inr (variants', n')"
  shows "set variants' = set variants \<union> {v \<in> set vs. v \<noteq> []}"
    and "n = int (length (concat variants)) \<Longrightarrow> n' = int (length (concat variants'))"
    and "n \<le> MaximumAggregateBytes policy \<Longrightarrow> n' \<le> MaximumAggregateBytes policy"
  using assms
proof (atomize (full), induction vs arbitrary: variants n)
  case (Cons v vs)
  show ?case
  proof (cases "v = [] \<or> v \<in> set variants")
    case True
    with Cons show ?thesis by auto
  next
    case False
    with Cons.prems have le: "n + int (length v) \<le> MaximumAggregateBytes policy"
      and rec: "add_variants policy vs (variants @ [v], n + int (length v)) = Inr (variants', n')"
      by (auto split: if_splits)
    from Cons.IH [of "variants @ [v]" "n + int (length v)"] rec le False show ?thesis by auto
  qed
qed auto

lemma add_values_Inr:
  assumes "add_values policy values (variants, n) = Inr (variants', n')" "[] \<notin> set variants"
  shows "set variants' = set variants \<union> {x. x \<noteq> [] \<and> (\<exists>v \<in> set values. v \<noteq> [] \<and> x \<in> set (encodedVariants v))}"
    and "n = int (length (concat variants)) \<Longrightarrow> n' = int (length (concat variants'))"
    and "n \<le> MaximumAggregateBytes policy \<Longrightarrow> n' \<le> MaximumAggregateBytes policy"
  using assms
proof (atomize (full), induction "values" arbitrary: variants n)
  case (Cons v vals)
  show ?case
  proof (cases "v = []")
    case True
    with Cons show ?thesis by auto
  next
    case False
    with Cons.prems obtain mid m where a: "add_variants policy (encodedVariants v) (variants, n) = Inr (mid, m)"
      "add_values policy vals (mid, m) = Inr (variants', n')"
      by (auto simp: bind_result_Inr_iff split: if_splits)
    note av = add_variants_Inr [OF a(1)]
    have "[] \<notin> set mid" using av(1) Cons.prems by auto
    with Cons.IH [of mid m] a(2) av False show ?thesis by auto
  qed
qed auto

text \<open>The texts a filter removes.\<close>

definition secret_texts :: "bytes list \<Rightarrow> bytes set" where
  "secret_texts values = {x. x \<noteq> [] \<and> (\<exists>v \<in> set values. v \<noteq> [] \<and> x \<in> set (encodedVariants v))}"

lemma Bytes_replacement: "Bytes (f\<lparr>replacement := r\<rparr>) input = Bytes f input"
proof -
  have t: "transition (f\<lparr>replacement := r\<rparr>) s v = transition f s v" for s v by (simp add: transition_def edges_of_def)
  have "advance_loop n (f\<lparr>replacement := r\<rparr>) s v = advance_loop n f s v" for n s v
    by (induction n arbitrary: s) (simp_all add: t Let_def)
  then have "bytes_step (f\<lparr>replacement := r\<rparr>) = bytes_step f"
    by (intro ext) (simp add: bytes_step_def advance_def match_at_def del: advance_loop.simps)
  then show ?thesis by (simp add: Bytes_def)
qed

lemma New_Inr:
  assumes "New values policy = Inr f"
  shows "\<exists>g. f = g\<lparr>replacement := ''[REDACTED]''\<rparr> \<and> automaton_for g (secret_texts values)"
proof -
  obtain variants n g where v: "add_values policy values ([], 0) = Inr (variants, n)"
    "buildAutomaton (sort_key (\<lambda>v. (- int (length v), v)) variants) = Inr g" "f = g\<lparr>replacement := ''[REDACTED]''\<rparr>"
    using assms by (auto simp: New_def bind_result_Inr_iff split: if_splits)
  have "set variants = secret_texts values" using add_values_Inr(1) [OF v(1)] by (simp add: secret_texts_def)
  then have "automaton_for g (secret_texts values)"
    using v(2) unfolding automaton_for_def
    by (intro exI [of _ "sort_key (\<lambda>v. (- int (length v), v)) variants"]) (auto simp: secret_texts_def)
  with v(3) show ?thesis by blast
qed

subsection \<open>Guarantees\<close>

text \<open>C7: The filtered text contains no observed secret.  For every value given to \<open>New\<close> and every
  encoding of it (verbatim, query- and path-escaped, the four base64 forms, JSON with either
  slash, percent-encoded spaces), no occurrence is left in the output of \<open>Bytes\<close>, not even one
  that only arises by deleting others.\<close>

theorem redacted_output_has_no_secret:
  assumes "New values policy = Inr f" "v \<in> set values" "v \<noteq> []" "x \<in> set (encodedVariants v)" "x \<noteq> []"
  shows "\<not> sublist x (Bytes f input)"
proof -
  obtain g where g: "f = g\<lparr>replacement := ''[REDACTED]''\<rparr>" "automaton_for g (secret_texts values)"
    using New_Inr [OF assms(1)] by blast
  have "x \<in> secret_texts values" using assms(2-5) by (auto simp: secret_texts_def)
  from ac.scan_clean [OF g(2) this, of input] g show ?thesis
    by (simp add: Bytes_replacement Bytes_scan [OF g(2)])
qed

text \<open>The filter only deletes.  Its output is a subsequence of its input, and a text that contains
  no secret under any encoding is returned unchanged.\<close>

theorem redaction_only_deletes:
  assumes "New values policy = Inr f"
  shows "subseq (Bytes f input) input \<and> ((\<forall>x \<in> secret_texts values. \<not> sublist x input) \<longrightarrow> Bytes f input = input)"
proof -
  obtain g where g: "f = g\<lparr>replacement := ''[REDACTED]''\<rparr>" "automaton_for g (secret_texts values)"
    using New_Inr [OF assms] by blast
  with ac.scan_subseq [of g input] ac.scan_untouched [OF g(2), of input] show ?thesis
    by (simp add: Bytes_replacement Bytes_scan [OF g(2)])
qed

text \<open>C32: The automaton is exact: after any input the match length of the reached state is the length
  of the longest pattern that ends the input (0 when none does), so the array trie with its
  failure links implements the naive suffix search.\<close>

theorem automaton_matches_longest_suffix:
  assumes "buildAutomaton patterns = Inr f" "[] \<notin> set patterns"
  shows "match_at f (foldl (advance f) 0 w) = longest (set patterns) w"
  using ac.run_law [of f "set patterns" w] assms by (auto simp: automaton_for_def)

text \<open>A structured record is filtered field by field: its keys are kept in place, no value holds
  a secret under any encoding, and the value of a sensitive key does not depend on what it was.\<close>

theorem fields_are_redacted:
  assumes "New values policy = Inr f"
  shows "map fst (Fields f input keys) = map fst input
    \<and> (\<forall>kv \<in> set (Fields f input keys). \<forall>x \<in> secret_texts values. \<not> sublist x (snd kv))
    \<and> (\<forall>kv \<in> set (Fields f input keys). fst kv \<in> set keys \<longrightarrow> snd kv = Bytes f ''[REDACTED]'')"
proof -
  obtain g where g: "f = g\<lparr>replacement := ''[REDACTED]''\<rparr>" "automaton_for g (secret_texts values)"
    using New_Inr [OF assms] by blast
  have "\<not> sublist x (Bytes f y)" if "x \<in> secret_texts values" for x y
    using ac.scan_clean [OF g(2) that, of y] g by (simp add: Bytes_replacement Bytes_scan [OF g(2)])
  moreover have "replacement f = ''[REDACTED]''" using g(1) by simp
  ultimately show ?thesis by (auto simp: Fields_def split: if_splits)
qed

subsection \<open>When a filter can be built\<close>

lemma length_add_state:
  "length (nodes (snd (add_state s v f))) = Suc (length (nodes f))" "length (edges (snd (add_state s v f))) = Suc (length (edges f))"
  by (simp_all add: add_state_def Let_def update_node_def)

lemma insert_bytes_total:
  assumes "length (nodes f) + length vs \<le> maximumAutomatonStates" "length (edges f) + length vs \<le> maximumAutomatonStates"
  shows "\<exists>s' f'. insert_bytes s vs f = Inr (s', f') \<and> length (nodes f') \<le> length (nodes f) + length vs
     \<and> length (edges f') \<le> length (edges f) + length vs"
  using assms
proof (induction vs arbitrary: s f)
  case (Cons v vs)
  show ?case
  proof (cases "transition f s v < 0")
    case True
    obtain s1 f1 where a: "add_state s v f = (s1, f1)" by fastforce
    with length_add_state [of s v f] Cons.prems Cons.IH [of f1 s1] obtain s' f' where
      "insert_bytes s1 vs f1 = Inr (s', f')" "length (nodes f') \<le> length (nodes f) + length (v # vs)"
      "length (edges f') \<le> length (edges f) + length (v # vs)" by auto
    with True a Cons.prems show ?thesis by auto
  next
    case False
    with Cons.IH [of f "transition f s v"] Cons.prems show ?thesis by fastforce
  qed
qed auto

lemma insert_patterns_total:
  assumes "length (nodes f) + length (concat ps) \<le> maximumAutomatonStates" "length (edges f) + length (concat ps) \<le> maximumAutomatonStates"
  shows "\<exists>f'. insert_patterns ps f = Inr f'"
  using assms
proof (induction ps arbitrary: f)
  case (Cons p ps)
  have "length (nodes f) + length p \<le> maximumAutomatonStates" "length (edges f) + length p \<le> maximumAutomatonStates"
    using Cons.prems by simp_all
  from insert_bytes_total [OF this, of 0] obtain s' f' where f': "insert_bytes 0 p f = Inr (s', f')"
    "length (nodes f') \<le> length (nodes f) + length p" "length (edges f') \<le> length (edges f) + length p" by blast
  let ?g = "mark_match s' (int (length p)) f'"
  have "length (nodes ?g) = length (nodes f')" "edges ?g = edges f'" by (simp_all add: mark_match_def update_node_def)
  with Cons.IH [of ?g] f' Cons.prems show ?case by simp
qed simp

lemma buildAutomaton_total: "length (concat ps) < maximumAutomatonStates \<Longrightarrow> \<exists>f. buildAutomaton ps = Inr f"
  using insert_patterns_total [of empty_filter ps] by (auto simp: buildAutomaton_def empty_filter_def Let_def)

definition variant_bytes :: "bytes list \<Rightarrow> int" where
  "variant_bytes values = int (length (concat (concat (map encodedVariants values))))"

lemma add_variants_total:
  "n + int (length (concat vs)) \<le> MaximumAggregateBytes policy \<Longrightarrow>
   \<exists>variants' n'. add_variants policy vs (variants, n) = Inr (variants', n') \<and> n' \<le> n + int (length (concat vs))"
proof (induction vs arbitrary: variants n)
  case (Cons v vs)
  show ?case
  proof (cases "v = [] \<or> v \<in> set variants")
    case True
    with Cons.IH [of n variants] Cons.prems show ?thesis by fastforce
  next
    case False
    with Cons.IH [of "n + int (length v)" "variants @ [v]"] Cons.prems show ?thesis by (auto simp: add.assoc)
  qed
qed auto

lemma add_values_total:
  assumes "n + variant_bytes values \<le> MaximumAggregateBytes policy" "\<forall>v \<in> set values. int (length v) \<le> MaximumValueBytes policy"
  shows "\<exists>variants' n'. add_values policy values (variants, n) = Inr (variants', n') \<and> n' \<le> n + variant_bytes values"
  using assms
proof (induction "values" arbitrary: variants n)
  case (Cons v vals)
  have split: "variant_bytes (v # vals) = int (length (concat (encodedVariants v))) + variant_bytes vals"
    by (simp add: variant_bytes_def)
  have nonneg: "0 \<le> variant_bytes vals" by (simp add: variant_bytes_def)
  show ?case
  proof (cases "v = []")
    case True
    with Cons.IH [of n variants] Cons.prems split show ?thesis by fastforce
  next
    case False
    obtain mid m where "add_variants policy (encodedVariants v) (variants, n) = Inr (mid, m)"
      "m \<le> n + int (length (concat (encodedVariants v)))"
      using add_variants_total [of n "encodedVariants v" policy variants] Cons.prems(1) split nonneg by auto
    with Cons.IH [of m mid] Cons.prems split False show ?thesis by fastforce
  qed
qed (auto simp: variant_bytes_def)

lemma length_concat_sort: "length (concat (sort_key k xs)) = length (concat xs)"
proof -
  have "mset (map length (sort_key k xs)) = mset (map length xs)" by simp
  then have "sum_list (map length (sort_key k xs)) = sum_list (map length xs)" by (metis sum_mset_sum_list)
  then show ?thesis by (simp add: length_concat)
qed

text \<open>\<open>New\<close> returns a filter whenever the policy is in range, the values respect its bounds and
  their encodings together fit both the aggregate bound and the automaton; under the default
  policy the automaton is never the reason to refuse.\<close>

theorem new_succeeds_within_bounds:
  assumes "0 < MaximumValues policy" "MaximumValues policy \<le> 1024" "0 < MaximumValueBytes policy"
    "MaximumValueBytes policy \<le> 1048576" "0 < MaximumAggregateBytes policy" "MaximumAggregateBytes policy \<le> 4194304"
    and "int (length values) \<le> MaximumValues policy" "\<forall>v \<in> set values. int (length v) \<le> MaximumValueBytes policy"
    and "variant_bytes values \<le> MaximumAggregateBytes policy" "variant_bytes values < 2097152"
  shows "\<exists>f. New values policy = Inr f"
proof -
  obtain variants n where v: "add_values policy values ([], 0) = Inr (variants, n)" "n \<le> variant_bytes values"
    using add_values_total [of 0 "values" policy "[]"] assms(8,9) by auto
  have "n = int (length (concat variants))" using add_values_Inr(2) [OF v(1)] by simp
  then have "length (concat (sort_key (\<lambda>v. (- int (length v), v)) variants)) < maximumAutomatonStates"
    using v(2) assms(10) by (simp add: length_concat_sort maximumAutomatonStates_def)
  then obtain g where "buildAutomaton (sort_key (\<lambda>v. (- int (length v), v)) variants) = Inr g"
    using buildAutomaton_total by blast
  with v(1) assms(1-7) show ?thesis by (auto simp: New_def)
qed

subsection \<open>Examples\<close>

definition example_secret :: bytes where
  "example_secret = ''a/b c''"

lemma example_variants:
  "encodedVariants example_secret =
     [''a/b c'', ''a%2Fb+c'', ''a%2Fb%20c'', ''YS9iIGM='', ''YS9iIGM'', ''YS9iIGM='', ''YS9iIGM'', ''a/b c'',
      [CHR ''a'', backslash, CHR ''/'', CHR ''b'', CHR '' '', CHR ''c''], ''a%2Fb%20c'']"
proof -
  have c: "char_of (97::nat) = CHR ''a''" "char_of (47::nat) = CHR ''/''" "char_of (98::nat) = CHR ''b''"
    "char_of (32::nat) = CHR '' ''" "char_of (99::nat) = CHR ''c''"
    by code_simp+
  have j: "json_text ''a/b c'' = ''a/b c''"
    using c by (simp add: json_text_def runes_ascii ascii_def json_rune_def backslash_def Let_def)
  have q: "QueryEscape ''a/b c'' = ''a%2Fb+c''" "PathEscape ''a/b c'' = ''a%2Fb%20c''" by code_simp+
  have b: "base64 StdAlphabet p ''a/b c'' = (if p then ''YS9iIGM='' else ''YS9iIGM'')"
    "base64 URLAlphabet p ''a/b c'' = (if p then ''YS9iIGM='' else ''YS9iIGM'')" for p
    by (simp_all add: StdAlphabet_def URLAlphabet_def Let_def)
  show ?thesis
    unfolding encodedVariants_def example_secret_def j q b
    by (simp add: replace_char_def slash_def)
qed

lemma example_filter: "\<exists>f. New [example_secret] DefaultPolicy = Inr f"
proof -
  have b: "variant_bytes [example_secret] = 71"
    unfolding variant_bytes_def by (simp add: example_variants)
  have l: "length example_secret = 5" by (simp add: example_secret_def)
  obtain variants n where v: "add_values DefaultPolicy [example_secret] ([], 0) = Inr (variants, n)" "n \<le> 71"
    using add_values_total [of 0 "[example_secret]" DefaultPolicy "[]"] b l by (auto simp: DefaultPolicy_def)
  have "n = int (length (concat variants))" using add_values_Inr(2) [OF v(1)] by simp
  then have "length (concat (sort_key (\<lambda>v. (- int (length v), v)) variants)) < maximumAutomatonStates"
    using v(2) by (simp add: length_concat_sort maximumAutomatonStates_def)
  then obtain g where "buildAutomaton (sort_key (\<lambda>v. (- int (length v), v)) variants) = Inr g"
    using buildAutomaton_total by blast
  with v(1) show ?thesis by (auto simp: New_def DefaultPolicy_def)
qed

theorem redacted_output_has_no_secret_witness:
  "\<exists>f. New [example_secret] DefaultPolicy = Inr f \<and> \<not> sublist ''YS9iIGM='' (Bytes f ''token YS9iIGM= seen'')"
proof -
  obtain f where f: "New [example_secret] DefaultPolicy = Inr f" using example_filter by blast
  have "\<not> sublist ''YS9iIGM='' (Bytes f ''token YS9iIGM= seen'')"
    by (rule redacted_output_has_no_secret [OF f, of example_secret])
       (simp_all only: example_variants, simp_all add: example_secret_def)
  with f show ?thesis by blast
qed

theorem redaction_only_deletes_witness:
  "\<exists>f. New [example_secret] DefaultPolicy = Inr f \<and> subseq (Bytes f ''token a/b c'') ''token a/b c''"
  using example_filter redaction_only_deletes by blast

theorem automaton_matches_longest_suffix_witness:
  "\<exists>f. buildAutomaton [''ab'', ''b''] = Inr f \<and> match_at f (foldl (advance f) 0 ''xab'') = 2"
proof -
  obtain f where f: "buildAutomaton [''ab'', ''b''] = Inr f"
    using buildAutomaton_total [of "[''ab'', ''b'']"] by (auto simp: maximumAutomatonStates_def)
  from automaton_matches_longest_suffix [OF f, of "''xab''"] f show ?thesis by auto
qed

theorem fields_are_redacted_witness:
  "\<exists>f. New [example_secret] DefaultPolicy = Inr f \<and>
     map fst (Fields f [(''TOKEN'', ''a/b c''), (''MODE'', ''dns'')] [''TOKEN'']) = [''TOKEN'', ''MODE'']"
proof -
  obtain f where f: "New [example_secret] DefaultPolicy = Inr f" using example_filter by blast
  from fields_are_redacted [OF f, of "[(''TOKEN'', ''a/b c''), (''MODE'', ''dns'')]" "[''TOKEN'']"] f show ?thesis by auto
qed

theorem new_succeeds_within_bounds_witness: "\<exists>f. New [example_secret] DefaultPolicy = Inr f"
proof -
  have "variant_bytes [example_secret] = 71" unfolding variant_bytes_def by (simp add: example_variants)
  then show ?thesis
    by (intro new_succeeds_within_bounds) (simp_all add: DefaultPolicy_def example_secret_def)
qed

end
