(* ===== verification/Go_UTF8.thy ===== *)
theory Go_UTF8
  imports Go_Text
begin

text \<open>
  UTF-8 as the program relies on it: valid text is a sequence of encoded scalar values, decoding
  is the inverse of encoding, and text that occurs inside other text occurs at rune boundaries,
  so that cutting it out leaves valid text.
\<close>

definition scalar :: "nat \<Rightarrow> bool" where
  "scalar r \<longleftrightarrow> r < 55296 \<or> (57343 < r \<and> r < 1114112)"

definition encode :: "nat list \<Rightarrow> bytes" where
  "encode rs = concat (map EncodeRune rs)"

lemma encode_simps [simp]:
  "encode [] = []" "encode (r # rs) = EncodeRune r @ encode rs" "encode (rs @ qs) = encode rs @ encode qs"
  by (simp_all add: encode_def)

lemma EncodeRune_nonempty [simp]: "EncodeRune r \<noteq> []"
  by (simp add: EncodeRune_def)

lemma EncodeRune_length: "0 < length (EncodeRune r) \<and> length (EncodeRune r) \<le> 4"
  by (simp add: EncodeRune_def)

lemma Decode_Encode:
  assumes "scalar r"
  shows "DecodeRune (EncodeRune r @ s) = (r, length (EncodeRune r))"
proof -
  consider (one) "r < 128" | (two) "128 \<le> r" "r < 2048" | (three) "2048 \<le> r" "r < 65536" | (four) "65536 \<le> r" "r < 1114112"
    using assms by (fastforce simp: scalar_def)
  then show ?thesis
  proof cases
    case one
    then show ?thesis by (simp add: EncodeRune_def DecodeRune_ascii)
  next
    case two
    define a b where ab: "a = r div 64" "b = r mod 64"
    have b: "2 \<le> a" "a < 32" "b < 64" and eq: "r = 64 * a + b" using two ab by auto
    have "EncodeRune r = [char_of (192 + a), char_of (128 + b)]" using two by (simp add: EncodeRune_def ab)
    with b show ?thesis by (simp add: DecodeRune_def Let_def cont_byte_def eq)
  next
    case three
    define a b c where abc: "a = r div 4096" "b = r div 64 mod 64" "c = r mod 64"
    have b: "a < 16" "b < 64" "c < 64" using three abc by auto
    have eq: "r = 4096 * a + 64 * b + c"
    proof -
      have "r = 64 * (r div 64) + c" "r div 64 = 64 * (r div 64 div 64) + b" "a = r div 64 div 64"
        by (simp_all add: abc div_mult2_eq [of r 64 64, simplified])
      then show ?thesis by linarith
    qed
    have "32 \<le> b" if "a = 0" using that three eq b by linarith
    moreover have "b < 32" if "a = 13" using that assms eq b by (simp add: scalar_def)
    moreover have "EncodeRune r = [char_of (224 + a), char_of (128 + b), char_of (128 + c)]"
      using three by (simp add: EncodeRune_def abc)
    ultimately show ?thesis using b
      by (cases "a = 0"; cases "a = 13") (simp_all add: DecodeRune_def Let_def cont_byte_def eq)
  next
    case four
    define a b c d where abc: "a = r div 262144" "b = r div 4096 mod 64" "c = r div 64 mod 64" "d = r mod 64"
    have b: "a < 5" "b < 64" "c < 64" "d < 64" using four abc by auto
    have eq: "r = 262144 * a + 4096 * b + 64 * c + d"
    proof -
      have "r = 64 * (r div 64) + d" "r div 64 = 64 * (r div 4096) + c" "r div 4096 = 64 * a + b"
        using div_mult2_eq [of r 64 64] div_mult2_eq [of r 4096 64] mult_div_mod_eq [of 64 "r div 64"]
          mult_div_mod_eq [of 64 "r div 4096"] by (simp_all only: abc mult_div_mod_eq, simp_all)
      then show ?thesis by linarith
    qed
    have "16 \<le> b" if "a = 0" using that four eq b by linarith
    moreover have "b < 16" if "a = 4" using that four eq b by linarith
    moreover have "EncodeRune r = [char_of (240 + a), char_of (128 + b), char_of (128 + c), char_of (128 + d)]"
      using four by (simp add: EncodeRune_def abc)
    ultimately show ?thesis using b
      by (cases "a = 0"; cases "a = 4") (simp_all add: DecodeRune_def Let_def cont_byte_def eq)
  qed
qed

text \<open>Conversely, what the decoder accepts is the encoding of a scalar value.\<close>

lemma char_of_sum: "byte c = k + a \<Longrightarrow> char_of (k + a) = c"
  by (metis char_of_char)

lemma digits64:
  fixes n :: nat
  assumes "c < 64"
  shows "(64 * n + c) div 64 = n" "(64 * n + c) mod 64 = c"
    "b < 64 \<Longrightarrow> (64 * (64 * n + b) + c) div 4096 = n"
    "b < 64 \<Longrightarrow> a < 64 \<Longrightarrow> (64 * (64 * (64 * n + a) + b) + c) div 262144 = n"
proof -
  show "(64 * n + c) div 64 = n" "(64 * n + c) mod 64 = c" using assms by simp_all
  show "(64 * (64 * n + b) + c) div 4096 = n" if "b < 64" using assms that by (intro div_nat_eqI) simp_all
  show "(64 * (64 * (64 * n + a) + b) + c) div 262144 = n" if "b < 64" "a < 64"
    using assms that by (intro div_nat_eqI) simp_all
qed

lemma Encode_Decode:
  assumes "s \<noteq> []" "\<not> invalid_rune (DecodeRune s)"
  shows "\<exists>r rest. scalar r \<and> s = EncodeRune r @ rest"
proof -
  obtain c0 r0 where s: "s = c0 # r0" using assms(1) by (cases s) auto
  let ?b = "byte c0"
  consider (one) "?b < 128" | (bad) "128 \<le> ?b" "?b < 194 \<or> 245 \<le> ?b" | (two) "194 \<le> ?b" "?b < 224"
    | (three) "224 \<le> ?b" "?b < 240" | (four) "240 \<le> ?b" "?b < 245" by linarith
  then show ?thesis
  proof cases
    case one
    then have "scalar ?b" "s = EncodeRune ?b @ r0" by (simp_all add: scalar_def EncodeRune_def s)
    then show ?thesis by blast
  next
    case bad
    then show ?thesis using assms(2) by (auto simp: s DecodeRune_def Let_def invalid_rune_def)
  next
    case two
    obtain c1 t where t: "r0 = c1 # t" "cont_byte (byte c1)"
      using assms(2) two by (auto simp: s DecodeRune_def Let_def invalid_rune_def split: list.splits if_splits)
    define a b where ab: "a = ?b - 192" "b = byte c1 - 128"
    have b: "?b = 192 + a" "byte c1 = 128 + b" "2 \<le> a" "a < 32" "b < 64" using two t(2) by (auto simp: ab cont_byte_def)
    have "EncodeRune (64 * a + b) = [c0, c1]"
      using b by (simp add: EncodeRune_def div_add1_eq char_of_sum)
    moreover have "scalar (64 * a + b)" using b by (simp add: scalar_def)
    ultimately show ?thesis by (metis s t(1) append_Cons append_Nil)
  next
    case three
    obtain c1 c2 t where t: "r0 = c1 # c2 # t" "(if ?b = 224 then 160 else 128) \<le> byte c1"
        "byte c1 \<le> (if ?b = 237 then 159 else 191)" "cont_byte (byte c2)"
      using assms(2) three by (auto simp: s DecodeRune_def Let_def invalid_rune_def split: list.splits if_splits)
    define a b c where ab: "a = ?b - 224" "b = byte c1 - 128" "c = byte c2 - 128"
    have b: "?b = 224 + a" "byte c1 = 128 + b" "byte c2 = 128 + c" "a < 16" "b < 64" "c < 64" "a = 0 \<longrightarrow> 32 \<le> b" "a = 13 \<longrightarrow> b < 32"
      using three t by (auto simp: ab cont_byte_def split: if_splits)
    let ?r = "64 * (64 * a + b) + c"
    have d: "?r div 64 = 64 * a + b" "?r mod 64 = c" "?r div 4096 = a" "(64 * a + b) mod 64 = b" by (rule digits64; rule b)+
    have big: "2048 \<le> ?r" "?r < 65536" using b by (cases "a = 0"; simp)+
    have "scalar ?r"
    proof (cases "a < 14")
      case True
      then have "?r < 55296" using b by (cases "a = 13") simp_all
      then show ?thesis by (simp add: scalar_def)
    qed (use big(2) in \<open>simp add: scalar_def\<close>)
    note big = big this
    have "EncodeRune ?r = [c0, c1, c2]"
      using big(1,2) unfolding EncodeRune_def d by (simp add: b char_of_sum)
    then show ?thesis using big(3) by (metis s t(1) append_Cons append_Nil)
  next
    case four
    obtain c1 c2 c3 t where t: "r0 = c1 # c2 # c3 # t" "(if ?b = 240 then 144 else 128) \<le> byte c1"
        "byte c1 \<le> (if ?b = 244 then 143 else 191)" "cont_byte (byte c2)" "cont_byte (byte c3)"
      using assms(2) four by (auto simp: s DecodeRune_def Let_def invalid_rune_def split: list.splits if_splits)
    define a b c d where ab: "a = ?b - 240" "b = byte c1 - 128" "c = byte c2 - 128" "d = byte c3 - 128"
    have b: "?b = 240 + a" "byte c1 = 128 + b" "byte c2 = 128 + c" "byte c3 = 128 + d" "a < 5" "b < 64" "c < 64" "d < 64"
        "a = 0 \<longrightarrow> 16 \<le> b" "a = 4 \<longrightarrow> b < 16"
      using four t by (auto simp: ab cont_byte_def split: if_splits)
    let ?r = "64 * (64 * (64 * a + b) + c) + d"
    have e: "?r div 64 = 64 * (64 * a + b) + c" "?r mod 64 = d" "?r div 4096 = 64 * a + b" "?r div 262144 = a"
      "(64 * (64 * a + b) + c) mod 64 = c" "(64 * a + b) mod 64 = b" by (rule digits64; rule b)+
    have big: "65536 \<le> ?r" using b by (cases "a = 0"; simp)
    have "?r < 1114112" using b by (cases "a = 4") simp_all
    then have "scalar ?r" using big by (simp add: scalar_def)
    note big = big this
    have "EncodeRune ?r = [c0, c1, c2, c3]"
      using big(1) unfolding EncodeRune_def e by (simp add: b char_of_sum)
    then show ?thesis using big(2) by (metis s t(1) append_Cons append_Nil)
  qed
qed

subsection \<open>Valid text\<close>

lemma runes_encode: "list_all scalar rs \<Longrightarrow> runes (encode rs) = map (\<lambda>r. (r, length (EncodeRune r))) rs"
  by (induction rs) (simp_all add: runes_step Decode_Encode)

lemma scalar_width: "scalar r \<Longrightarrow> \<not> invalid_rune (r, length (EncodeRune r))"
  by (auto simp: invalid_rune_def RuneError_def EncodeRune_def)

lemma ValidString_encode [simp]: "list_all scalar rs \<Longrightarrow> ValidString (encode rs)"
  by (auto simp: ValidString_def runes_encode list_all_iff scalar_width)

lemma ValidString_cases:
  assumes "ValidString s"
  obtains rs where "list_all scalar rs" "s = encode rs"
proof -
  have "\<exists>rs. list_all scalar rs \<and> s = encode rs"
    using assms
  proof (induction s rule: length_induct)
    case (1 s)
    show ?case
    proof (cases "s = []")
      case True
      then show ?thesis by (intro exI [of _ "[]"]) simp
    next
      case False
      have "\<not> invalid_rune (DecodeRune s)" using "1.prems" False by (simp add: ValidString_def runes_step)
      then obtain r t where r: "scalar r" "s = EncodeRune r @ t" using Encode_Decode [OF False] by blast
      have "ValidString t" using "1.prems" r by (simp add: ValidString_def runes_step Decode_Encode)
      moreover have "length t < length s" using r(2) by (simp add: EncodeRune_def)
      ultimately obtain rs where "list_all scalar rs" "t = encode rs" using "1.IH" by blast
      with r show ?thesis by (intro exI [of _ "r # rs"]) simp
    qed
  qed
  with that show ?thesis by blast
qed

text \<open>Only the first byte of a rune is not a continuation byte, so boundaries are recognisable.\<close>

lemma EncodeRune_lead: "scalar r \<Longrightarrow> \<not> cont_byte (byte (hd (EncodeRune r)))"
  by (auto simp: EncodeRune_def cont_byte_def scalar_def)

lemma EncodeRune_rest: "scalar r \<Longrightarrow> c \<in> set (tl (EncodeRune r)) \<Longrightarrow> cont_byte (byte c)"
  by (auto simp: EncodeRune_def cont_byte_def scalar_def split: if_splits)

lemma encode_lead: "list_all scalar rs \<Longrightarrow> rs \<noteq> [] \<Longrightarrow> encode rs \<noteq> [] \<and> \<not> cont_byte (byte (hd (encode rs)))"
  by (cases rs) (auto simp: EncodeRune_lead)

lemma encode_boundary:
  assumes "encode rs = a @ b" "list_all scalar rs" "b = [] \<or> \<not> cont_byte (byte (hd b))"
  shows "\<exists>ps qs. rs = ps @ qs \<and> a = encode ps \<and> b = encode qs"
  using assms
proof (induction rs arbitrary: a)
  case Nil
  then show ?case by simp
next
  case (Cons r rs)
  show ?case
  proof (cases "a = []")
    case True
    with Cons.prems show ?thesis by (intro exI [of _ "[]"] exI [of _ "r # rs"]) simp
  next
    case False
    from Cons.prems(1) have "EncodeRune r @ encode rs = a @ b" by simp
    then consider us where "a = EncodeRune r @ us" "encode rs = us @ b"
      | us where "EncodeRune r = a @ us" "b = us @ encode rs"
      by (auto simp: append_eq_append_conv2)
    then show ?thesis
    proof cases
      case (1 us)
      then obtain ps qs where "rs = ps @ qs" "us = encode ps" "b = encode qs"
        using Cons.IH [of us] Cons.prems(2,3) by auto
      with 1 show ?thesis by (intro exI [of _ "r # ps"] exI [of _ qs]) simp
    next
      case (2 us)
      have "us = []"
      proof (rule ccontr)
        assume "us \<noteq> []"
        then have "hd b \<in> set (tl (EncodeRune r))" "b \<noteq> []" using 2 False by (cases a; cases us; auto)+
        then show False using EncodeRune_rest Cons.prems(2,3) by auto
      qed
      with 2 show ?thesis by (intro exI [of _ "[r]"] exI [of _ rs]) simp
    qed
  qed
qed

lemma encode_prefix:
  assumes "encode rs = encode xs @ b" "list_all scalar rs" "list_all scalar xs"
  shows "\<exists>qs. rs = xs @ qs \<and> b = encode qs"
  using assms
proof (induction xs arbitrary: rs)
  case (Cons x xs)
  then obtain r qs where rs: "rs = r # qs" by (cases rs) auto
  have "DecodeRune (encode rs) = (r, length (EncodeRune r))" using Cons.prems(2) by (simp add: rs Decode_Encode)
  moreover have "DecodeRune (encode rs) = (x, length (EncodeRune x))" using Cons.prems(1,3) by (simp add: Decode_Encode)
  ultimately have "r = x" by simp
  with Cons rs show ?case by auto
qed simp

lemma encode_inject: "list_all scalar rs \<Longrightarrow> list_all scalar xs \<Longrightarrow> encode rs = encode xs \<longleftrightarrow> rs = xs"
  using encode_prefix [of rs xs "[]"] by (auto simp: encode_def)

lemma encode_cut:
  assumes "encode rs = a @ encode xs @ b" "list_all scalar rs" "list_all scalar xs" "xs \<noteq> []"
  obtains ps qs where "rs = ps @ xs @ qs" "a = encode ps" "b = encode qs"
proof -
  have "encode xs @ b = [] \<or> \<not> cont_byte (byte (hd (encode xs @ b)))"
    using encode_lead [OF assms(3,4)] by simp
  then obtain ps ys where ps: "rs = ps @ ys" "a = encode ps" "encode ys = encode xs @ b"
    using encode_boundary [OF assms(1,2)] by metis
  then obtain qs where "ys = xs @ qs" "b = encode qs"
    using encode_prefix [of ys xs b] assms(2,3) by auto
  with ps that show ?thesis by blast
qed

lemma ValidString_append: "ValidString a \<Longrightarrow> ValidString b \<Longrightarrow> ValidString (a @ b)"
  by (elim ValidString_cases) (metis ValidString_encode encode_simps(3) list_all_append)

lemma runes_append: "ValidString a \<Longrightarrow> ValidString b \<Longrightarrow> runes (a @ b) = runes a @ runes b"
proof -
  assume "ValidString a" "ValidString b"
  then obtain rs qs where "list_all scalar rs" "a = encode rs" "list_all scalar qs" "b = encode qs"
    by (elim ValidString_cases)
  then show ?thesis using runes_encode [of "rs @ qs"] by (simp add: runes_encode)
qed

text \<open>Cutting valid text out of valid text leaves valid text, and no rune that was not there.\<close>

lemma cut_valid:
  assumes "ValidString (a @ x @ b)" "ValidString x"
  shows "ValidString (a @ b) \<and> set (runes (a @ b)) \<subseteq> set (runes (a @ x @ b))"
proof (cases "x = []")
  case False
  obtain rs xs where rs: "list_all scalar rs" "a @ x @ b = encode rs" "list_all scalar xs" "x = encode xs"
    using assms by (auto elim!: ValidString_cases)
  with False have "xs \<noteq> []" by auto
  then obtain ps qs where "rs = ps @ xs @ qs" "a = encode ps" "b = encode qs"
    using encode_cut [of rs a xs b] rs by metis
  then show ?thesis using rs runes_encode [of "ps @ qs"] runes_encode [of "ps @ xs @ qs"]
    ValidString_encode [of "ps @ qs"] by auto
qed (use assms in simp)

end
