(* ===== verification/Broker.thy ===== *)
theory Broker
  imports Redaction Go_UTF8 Go_Time
begin

text \<open>
  The process broker (\<open>internal/broker\<close>): the bounded collector of child output
  (\<open>output.go\<close>), the display sanitizer, and the runner (\<open>runner_linux.go\<close>) that validates a
  request, selects the environment and the values to redact, and turns what the process did into
  a result.  What the operating system answers (process start, child output, exit, cancellation,
  clean-up) is a record of the world that \<open>Run\<close> consults.
\<close>

subsection \<open>Bounded output collection\<close>

datatype outputStream = streamStdout | streamStderr

record outputCollector =
  oc_stdout :: bytes
  oc_stderr :: bytes
  oc_stdoutLimit :: int
  oc_stderrLimit :: int
  oc_aggregateLimit :: int
  oc_overflowed :: bool
  oc_cancels :: nat

definition newOutputCollector :: "int \<Rightarrow> int \<Rightarrow> int \<Rightarrow> outputCollector" where
  "newOutputCollector so se ag =
     \<lparr>oc_stdout = [], oc_stderr = [], oc_stdoutLimit = so, oc_stderrLimit = se, oc_aggregateLimit = ag,
      oc_overflowed = False, oc_cancels = 0\<rparr>"

text \<open>\<open>Write\<close> reports the whole length; \<open>oc_cancels\<close> counts the calls of \<open>onOverflow\<close>.\<close>

definition Write :: "outputStream \<Rightarrow> bytes \<Rightarrow> outputCollector \<Rightarrow> nat \<times> outputCollector" where
  "Write stream v c =
     (let buffer = (case stream of streamStdout \<Rightarrow> oc_stdout c | streamStderr \<Rightarrow> oc_stderr c);
          limit = (case stream of streamStdout \<Rightarrow> oc_stdoutLimit c | streamStderr \<Rightarrow> oc_stderrLimit c);
          remainingStream = max (limit - int (length buffer)) 0;
          remainingAggregate = max (oc_aggregateLimit c - int (length (oc_stdout c)) - int (length (oc_stderr c))) 0;
          accepted = nat (min (int (length v)) (min remainingStream remainingAggregate));
          buffer' = buffer @ take accepted v;
          c1 = (case stream of streamStdout \<Rightarrow> c\<lparr>oc_stdout := buffer'\<rparr> | streamStderr \<Rightarrow> c\<lparr>oc_stderr := buffer'\<rparr>)
      in (length v,
          if accepted \<noteq> length v
          then c1\<lparr>oc_overflowed := True, oc_cancels := (if oc_overflowed c then oc_cancels c else Suc (oc_cancels c))\<rparr>
          else c1))"

definition take_output :: "outputCollector \<Rightarrow> (bytes \<times> bytes \<times> bool) \<times> outputCollector" where
  "take_output c =
     ((if oc_overflowed c then ([], [], True) else (oc_stdout c, oc_stderr c, False)),
      c\<lparr>oc_stdout := [], oc_stderr := []\<rparr>)"

definition collect :: "(outputStream \<times> bytes) list \<Rightarrow> outputCollector \<Rightarrow> outputCollector" where
  "collect ws c = fold (\<lambda>(stream, v) c. snd (Write stream v c)) ws c"

definition written :: "outputStream \<Rightarrow> (outputStream \<times> bytes) list \<Rightarrow> bytes" where
  "written stream ws = concat (map snd (filter (\<lambda>w. fst w = stream) ws))"

subsection \<open>Display sanitization\<close>

lemma decoded_shorter: "s \<noteq> [] \<Longrightarrow> (r, n) = DecodeRune s \<Longrightarrow> length s - n < length s"
  using DecodeRune_size [of s] by (metis diff_less length_greater_0_conv snd_conv)

function sanitizeOutput :: "bytes \<Rightarrow> bytes" where
  "sanitizeOutput s =
     (if s = [] then []
      else let (r, size) = DecodeRune s in
        if r = RuneError \<and> size = 1 then CHR ''?'' # sanitizeOutput (drop 1 s)
        else if r \<noteq> 10 \<and> r \<noteq> 9 \<and> (IsControl r \<or> is_Cf r) then CHR ''?'' # sanitizeOutput (drop size s)
        else EncodeRune r @ sanitizeOutput (drop size s))"
  by pat_completeness auto
termination
  by (relation "measure length") (auto intro: decoded_shorter)

declare sanitizeOutput.simps [simp del]

subsection \<open>Policy and request\<close>

datatype broker_code =
    CodeInvalidPolicy | CodeInvalidRequest | CodeInvalidPath | CodeInvalidEnvironment | CodeRedactionFailed
  | CodeProcessBoundary | CodeStartFailed | CodePreparedCloseFailed

fun broker_code_text :: "broker_code \<Rightarrow> bytes" where
  "broker_code_text CodeInvalidPolicy = ''invalid_policy''"
| "broker_code_text CodeInvalidRequest = ''invalid_request''"
| "broker_code_text CodeInvalidPath = ''invalid_path''"
| "broker_code_text CodeInvalidEnvironment = ''invalid_environment''"
| "broker_code_text CodeRedactionFailed = ''redaction_failed''"
| "broker_code_text CodeProcessBoundary = ''process_boundary_unavailable''"
| "broker_code_text CodeStartFailed = ''start_failed''"
| "broker_code_text CodePreparedCloseFailed = ''prepared_close_failed''"

record RunnerPolicy =
  rp_Timeout :: int
  rp_TerminationGrace :: int
  StdoutLimit :: int
  StderrLimit :: int
  AggregateLimit :: int
  MaximumEnvironment :: int
  MaximumEnvironmentBytes :: int
  MaximumEnvironmentTotal :: int
  MaximumSecrets :: int
  MaximumSecretBytes :: int
  MaximumSecretTotal :: int

definition DefaultRunnerPolicy :: RunnerPolicy where
  "DefaultRunnerPolicy =
     \<lparr>rp_Timeout = 30 * minute, rp_TerminationGrace = 5 * second, StdoutLimit = 196608, StderrLimit = 65536,
      AggregateLimit = 262144, MaximumEnvironment = 128, MaximumEnvironmentBytes = 65536,
      MaximumEnvironmentTotal = 1048576, MaximumSecrets = 128, MaximumSecretBytes = 65536,
      MaximumSecretTotal = 1048576\<rparr>"

text \<open>\<open>subreaper\<close> is the kernel's answer to \<open>ensureChildSubreaper\<close>.\<close>

definition NewRunner :: "bool \<Rightarrow> RunnerPolicy \<Rightarrow> (broker_code, RunnerPolicy) result" where
  "NewRunner subreaper p =
     (if rp_Timeout p \<le> 0 \<or> rp_Timeout p > 60 * minute then Inl CodeInvalidPolicy
      else if rp_TerminationGrace p \<le> 0 \<or> rp_TerminationGrace p > 30 * second then Inl CodeInvalidPolicy
      else if StdoutLimit p \<le> 0 \<or> StdoutLimit p > 1048576 \<or> StderrLimit p \<le> 0 \<or> StderrLimit p > 1048576
              \<or> AggregateLimit p \<le> 0 \<or> AggregateLimit p > 2097152
              \<or> AggregateLimit p < StdoutLimit p \<or> AggregateLimit p < StderrLimit p
              \<or> AggregateLimit p > StdoutLimit p + StderrLimit p then Inl CodeInvalidPolicy
      else if MaximumEnvironment p \<le> 0 \<or> MaximumEnvironment p > 512
              \<or> MaximumEnvironmentBytes p \<le> 0 \<or> MaximumEnvironmentBytes p > 1048576
              \<or> MaximumEnvironmentTotal p \<le> 0 \<or> MaximumEnvironmentTotal p > 4194304 then Inl CodeInvalidPolicy
      else if MaximumSecrets p \<le> 0 \<or> MaximumSecrets p > 1024
              \<or> MaximumSecretBytes p \<le> 0 \<or> MaximumSecretBytes p > 1048576
              \<or> MaximumSecretTotal p \<le> 0 \<or> MaximumSecretTotal p > 4194304 then Inl CodeInvalidPolicy
      else if \<not> subreaper then Inl CodeProcessBoundary
      else Inr p)"

record Variable =
  var_Name :: bytes
  var_Value :: bytes
  var_Sensitive :: bool

text \<open>\<open>rq_Prepared\<close> says whether the one-shot executable handle is not nil.\<close>

record BrokerRequest =
  rq_Prepared :: bool
  rq_WorkingDirectory :: bytes
  rq_ConfigurationPath :: bytes
  rq_Environment :: "Variable list"
  rq_ObservedSecrets :: "bytes list"

definition validateCanonicalPath :: "bytes \<Rightarrow> bool \<Rightarrow> broker_code option" where
  "validateCanonicalPath v directory = first_error
     [fails_if (v = [] \<or> length v > 4095 \<or> \<not> ValidString v) CodeInvalidPath,
      fails_if (\<exists>(r, _) \<in> set (runes v). r < 32 \<or> r = 127) CodeInvalidPath,
      fails_if (\<not> IsAbs v \<or> Clean_abs v \<noteq> v) CodeInvalidPath,
      fails_if (\<not> directory \<and> Base v = [slash]) CodeInvalidPath]"

definition environment_name :: "bytes \<Rightarrow> bool" where
  "environment_name s \<longleftrightarrow>
     (case s of [] \<Rightarrow> False
      | c # cs \<Rightarrow> upper_ascii c \<and> length cs \<le> 127
          \<and> list_all (\<lambda>d. upper_ascii d \<or> (48 \<le> byte d \<and> byte d \<le> 57) \<or> d = CHR ''_'') cs)"

definition fixedEnvironment :: "bytes list" where
  "fixedEnvironment = [''LANG=C'', ''LC_ALL=C'', ''TZ=UTC'']"

subsection \<open>Environment and values to redact\<close>

fun check_environment :: "RunnerPolicy \<Rightarrow> bytes set \<Rightarrow> int \<Rightarrow> Variable list \<Rightarrow> broker_code option" where
  "check_environment p owned used [] = None"
| "check_environment p owned used (v # vs) =
     (let used' = used + int (length (var_Name v)) + 1 + int (length (var_Value v)) in first_error
       [fails_if (\<not> environment_name (var_Name v) \<or> var_Name v \<in> {''LANG'', ''LC_ALL'', ''TZ''}) CodeInvalidEnvironment,
        fails_if (var_Name v \<in> owned) CodeInvalidEnvironment,
        fails_if (int (length (var_Value v)) > MaximumEnvironmentBytes p \<or> CHR 0x00 \<in> set (var_Value v)
                  \<or> \<not> ValidString (var_Value v)) CodeInvalidEnvironment,
        fails_if (used' > MaximumEnvironmentTotal p) CodeInvalidEnvironment,
        check_environment p (insert (var_Name v) owned) used' vs])"

fun observed_secrets :: "RunnerPolicy \<Rightarrow> bytes list \<Rightarrow> bytes list \<times> int \<Rightarrow> (broker_code, bytes list \<times> int) result" where
  "observed_secrets p [] acc = Inr acc"
| "observed_secrets p (v # vs) (secrets, used) =
     (if v = [] then observed_secrets p vs (secrets, used)
      else if int (length v) > MaximumSecretBytes p then Inl CodeRedactionFailed
      else if used + int (length v) > MaximumSecretTotal p then Inl CodeRedactionFailed
      else observed_secrets p vs (secrets @ [v], used + int (length v)))"

fun sensitive_values :: "RunnerPolicy \<Rightarrow> Variable list \<Rightarrow> bytes list \<times> int \<Rightarrow> (broker_code, bytes list) result" where
  "sensitive_values p [] (secrets, used) = Inr secrets"
| "sensitive_values p (v # vs) (secrets, used) =
     (if var_Sensitive v \<and> var_Value v \<noteq> [] then
        (if int (length secrets) \<ge> MaximumSecrets p \<or> int (length (var_Value v)) > MaximumSecretBytes p
            \<or> used + int (length (var_Value v)) > MaximumSecretTotal p then Inl CodeRedactionFailed
         else sensitive_values p vs (secrets @ [var_Value v], used + int (length (var_Value v))))
      else sensitive_values p vs (secrets, used))"

definition prepareEnvironmentAndSecrets ::
  "RunnerPolicy \<Rightarrow> BrokerRequest \<Rightarrow> (broker_code, bytes list \<times> bytes list) result" where
  "prepareEnvironmentAndSecrets p q =
     (if int (length (rq_Environment q)) > MaximumEnvironment p then Inl CodeInvalidEnvironment
      else if int (length (rq_ObservedSecrets q)) > MaximumSecrets p then Inl CodeRedactionFailed
      else case check_environment p {} 0 (rq_Environment q) of
             Some e \<Rightarrow> Inl e
           | None \<Rightarrow>
               bind_result (observed_secrets p (rq_ObservedSecrets q) ([], 0)) (\<lambda>acc.
               bind_result (sensitive_values p (sort_key var_Name (rq_Environment q)) acc) (\<lambda>secrets.
               Inr (fixedEnvironment @ map (\<lambda>v. var_Name v @ ''='' @ var_Value v) (sort_key var_Name (rq_Environment q)),
                    secrets))))"

subsection \<open>Running\<close>

datatype Outcome =
  OutcomeNone | OutcomeSucceeded | OutcomeFailed | OutcomeTimedOut | OutcomeInterrupted | OutcomeOutputLimit | OutcomeAmbiguous

datatype Termination = TerminationNone | TerminationGraceful | TerminationForced

record BrokerResult =
  br_Outcome :: Outcome
  br_Started :: bool
  br_StartedAt :: gotime
  br_FinishedAt :: gotime
  br_ExitCode :: int
  br_ExitCodeKnown :: bool
  br_TermSignal :: bytes
  br_Termination :: "Termination option"
  br_Stdout :: bytes
  br_Stderr :: bytes
  br_OutputDiscarded :: bool
  br_MayHaveChanged :: bool

datatype process_state = NoState | NoWaitStatus int | Exited int | Signaled nat | OtherStatus

datatype wait_error = WaitOK | WaitDelay | WaitFailed

datatype run_cause = NoCause | HardTimeout | OutputLimitReached | OtherCause

text \<open>What the operating system answers to one run, in the order the runner asks.\<close>

record process_world =
  pw_guard :: "bytes option"
  pw_cancelled :: bool
  pw_controller :: bool
  pw_startAttemptedAt :: gotime
  pw_starts :: bool
  pw_writes :: "bytes list \<Rightarrow> bytes \<Rightarrow> bytes list \<Rightarrow> (outputStream \<times> bytes) list"
  pw_wait :: wait_error
  pw_cause :: run_cause
  pw_cleanupUncertain :: bool
  pw_finishedAt :: gotime
  pw_termination :: Termination
  pw_state :: process_state
  pw_cancelRequested :: bool
  pw_closes :: bool

definition zero_broker_result :: BrokerResult where
  "zero_broker_result =
     \<lparr>br_Outcome = OutcomeNone, br_Started = False, br_StartedAt = zero_time, br_FinishedAt = zero_time,
      br_ExitCode = 0, br_ExitCodeKnown = False, br_TermSignal = [], br_Termination = None,
      br_Stdout = [], br_Stderr = [], br_OutputDiscarded = False, br_MayHaveChanged = False\<rparr>"

fun decimal :: "nat \<Rightarrow> bytes" where
  "decimal n = (if n < 10 then [char_of (48 + n)] else decimal (n div 10) @ [char_of (48 + n mod 10)])"

declare decimal.simps [simp del]

definition signalName :: "nat \<Rightarrow> bytes" where
  "signalName n =
     (if n = 15 then ''SIGTERM'' else if n = 9 then ''SIGKILL'' else if n = 2 then ''SIGINT''
      else if n = 1 then ''SIGHUP'' else if n = 3 then ''SIGQUIT'' else ''SIG'' @ decimal n)"

fun processExit :: "process_state \<Rightarrow> int \<times> bool \<times> bytes" where
  "processExit NoState = (0, False, [])"
| "processExit (NoWaitStatus code) = (if code \<ge> 0 then (code, True, []) else (0, False, []))"
| "processExit (Exited code) = (code, True, [])"
| "processExit (Signaled sig) = (0, False, signalName sig)"
| "processExit OtherStatus = (0, False, [])"

definition run_outcome :: "process_world \<Rightarrow> bool \<Rightarrow> Outcome" where
  "run_outcome w overflowed =
     (if pw_cleanupUncertain w then OutcomeAmbiguous
      else if pw_wait w = WaitDelay then OutcomeAmbiguous
      else if overflowed \<or> pw_cause w = OutputLimitReached then OutcomeOutputLimit
      else if pw_cancelRequested w \<and> pw_cause w = HardTimeout then OutcomeTimedOut
      else if pw_cancelRequested w \<and> pw_cause w \<noteq> NoCause then OutcomeInterrupted
      else if pw_wait w = WaitOK \<and> pw_state w \<in> {Exited 0, NoWaitStatus 0} then OutcomeSucceeded
      else OutcomeFailed)"

text \<open>What is released of one stream: redacted, sanitized, and redacted again.\<close>

definition released :: "Filter \<Rightarrow> bytes \<Rightarrow> bytes" where
  "released f raw = Bytes f (sanitizeOutput (Bytes f raw))"

definition run_process :: "RunnerPolicy \<Rightarrow> process_world \<Rightarrow> BrokerRequest \<Rightarrow> bytes list \<Rightarrow> Filter \<Rightarrow> BrokerResult \<times> broker_code option" where
  "run_process p w q environment redactor =
     (if \<not> pw_starts w then
        (zero_broker_result\<lparr>br_Outcome := OutcomeAmbiguous, br_Started := True, br_StartedAt := pw_startAttemptedAt w,
           br_FinishedAt := pw_finishedAt w, br_Termination := Some (pw_termination w),
           br_OutputDiscarded := True, br_MayHaveChanged := True\<rparr>, Some CodeStartFailed)
      else
        (let writes = pw_writes w environment (rq_WorkingDirectory q) [''--config'', rq_ConfigurationPath q];
             ((out, err, overflowed), _) =
               take_output (collect writes (newOutputCollector (StdoutLimit p) (StderrLimit p) (AggregateLimit p)));
             (code, known, signal) = processExit (pw_state w)
         in (zero_broker_result\<lparr>br_Outcome := run_outcome w overflowed, br_Started := True,
               br_StartedAt := pw_startAttemptedAt w, br_FinishedAt := pw_finishedAt w,
               br_ExitCode := code, br_ExitCodeKnown := known, br_TermSignal := signal,
               br_Termination := Some (pw_termination w),
               br_Stdout := (if overflowed then [] else released redactor out),
               br_Stderr := (if overflowed then [] else released redactor err),
               br_OutputDiscarded := overflowed, br_MayHaveChanged := True\<rparr>, None)))"

definition run_body :: "RunnerPolicy \<Rightarrow> process_world \<Rightarrow> BrokerRequest \<Rightarrow> BrokerResult \<times> broker_code option" where
  "run_body p w q =
     (case first_error [validateCanonicalPath (rq_WorkingDirectory q) True, validateCanonicalPath (rq_ConfigurationPath q) False] of
        Some e \<Rightarrow> (zero_broker_result, Some e)
      | None \<Rightarrow>
      (case prepareEnvironmentAndSecrets p q of
         Inl e \<Rightarrow> (zero_broker_result, Some e)
       | Inr (environment, secrets) \<Rightarrow>
      (case pw_guard w of
         None \<Rightarrow> (zero_broker_result, Some CodeProcessBoundary)
       | Some guard \<Rightarrow>
      (case New secrets \<lparr>MaximumValues = MaximumSecrets p, MaximumValueBytes = MaximumSecretBytes p,
                         MaximumAggregateBytes = MaximumSecretTotal p\<rparr> of
         Inl _ \<Rightarrow> (zero_broker_result, Some CodeRedactionFailed)
       | Inr redactor \<Rightarrow>
           if pw_cancelled w then (zero_broker_result, Some CodeStartFailed)
           else if \<not> pw_controller w then (zero_broker_result, Some CodeProcessBoundary)
           else run_process p w q (environment @ [guard]) redactor))))"

definition Run_broker :: "RunnerPolicy \<Rightarrow> process_world \<Rightarrow> BrokerRequest \<Rightarrow> BrokerResult \<times> broker_code option" where
  "Run_broker p w q =
     (if \<not> rq_Prepared q then (zero_broker_result, Some CodeInvalidRequest)
      else case run_body p w q of
             (r, Some e) \<Rightarrow> (r, Some e)
           | (r, None) \<Rightarrow> (r, if pw_closes w then None else Some CodePreparedCloseFailed))"

subsection \<open>What the collector keeps\<close>

definition fits :: "int \<Rightarrow> int \<Rightarrow> int \<Rightarrow> (outputStream \<times> bytes) list \<Rightarrow> bool" where
  "fits so se ag ws \<longleftrightarrow> int (length (written streamStdout ws)) \<le> so \<and> int (length (written streamStderr ws)) \<le> se
     \<and> int (length (written streamStdout ws)) + int (length (written streamStderr ws)) \<le> ag"

definition collected :: "int \<Rightarrow> int \<Rightarrow> int \<Rightarrow> (outputStream \<times> bytes) list \<Rightarrow> outputCollector \<Rightarrow> bool" where
  "collected so se ag ws c \<longleftrightarrow>
     oc_stdoutLimit c = so \<and> oc_stderrLimit c = se \<and> oc_aggregateLimit c = ag
     \<and> int (length (oc_stdout c)) \<le> so \<and> int (length (oc_stderr c)) \<le> se
     \<and> int (length (oc_stdout c)) + int (length (oc_stderr c)) \<le> ag
     \<and> oc_overflowed c = (\<not> fits so se ag ws) \<and> oc_cancels c = (if oc_overflowed c then 1 else 0)
     \<and> (\<not> oc_overflowed c \<longrightarrow> oc_stdout c = written streamStdout ws \<and> oc_stderr c = written streamStderr ws)"

lemma written_snoc [simp]: "written s (ws @ [(t, v)]) = written s ws @ (if t = s then v else [])"
  by (simp add: written_def)

lemma fits_snoc: "\<not> fits so se ag ws \<Longrightarrow> \<not> fits so se ag (ws @ [(t, v)])"
  by (auto simp: fits_def split: if_splits)

lemma collected_Write:
  assumes "collected so se ag ws c"
  shows "collected so se ag (ws @ [(t, v)]) (snd (Write t v c))"
proof (cases "oc_overflowed c")
  case True
  then have "\<not> fits so se ag (ws @ [(t, v)])" using assms fits_snoc by (simp add: collected_def)
  with True assms show ?thesis by (cases t) (auto simp: collected_def Write_def Let_def)
next
  case False
  with assms show ?thesis
    by (cases t) (auto simp: collected_def Write_def Let_def fits_def min_def max_def split: if_splits)
qed

lemma collected_collect:
  assumes "0 \<le> so" "0 \<le> se" "0 \<le> ag"
  shows "collected so se ag ws (collect ws (newOutputCollector so se ag))"
proof (induction ws rule: rev_induct)
  case Nil
  then show ?case using assms by (simp add: collected_def collect_def newOutputCollector_def fits_def written_def)
next
  case (snoc w ws)
  then show ?case using collected_Write [of so se ag ws _ "fst w" "snd w"] by (simp add: collect_def case_prod_beta)
qed

subsection \<open>What the sanitizer produces\<close>

definition displayable :: "nat \<Rightarrow> bool" where
  "displayable r \<longleftrightarrow> r = 10 \<or> r = 9 \<or> (\<not> IsControl r \<and> \<not> is_Cf r)"

definition safe_text :: "bytes \<Rightarrow> bool" where
  "safe_text s \<longleftrightarrow> ValidString s \<and> (\<forall>(r, _) \<in> set (runes s). displayable r)"

definition sanitize_rune :: "nat \<times> nat \<Rightarrow> nat" where
  "sanitize_rune p = (if invalid_rune p \<or> \<not> displayable (fst p) then 63 else fst p)"

lemma DecodeRune_scalar:
  assumes "s \<noteq> []" "\<not> invalid_rune (DecodeRune s)"
  shows "scalar (fst (DecodeRune s))" "snd (DecodeRune s) = length (EncodeRune (fst (DecodeRune s)))"
  using Encode_Decode [OF assms] by (auto simp: Decode_Encode)

lemma sanitize_encode: "sanitizeOutput s = encode (map sanitize_rune (runes s))"
proof (induction s rule: sanitizeOutput.induct)
  case (1 s)
  have q: "EncodeRune 63 = ''?''" by code_simp
  show ?case
  proof (cases "s = []")
    case True
    then show ?thesis by (simp add: sanitizeOutput.simps)
  next
    case False
    obtain r n where d: "DecodeRune s = (r, n)" by fastforce
    have "sanitizeOutput s = EncodeRune (sanitize_rune (r, n)) @ sanitizeOutput (drop n s)"
      using False by (auto simp: sanitizeOutput.simps [of s] d sanitize_rune_def invalid_rune_def displayable_def q)
    moreover have "sanitizeOutput (drop n s) = encode (map sanitize_rune (runes (drop n s)))"
      using 1(1) [OF False d [symmetric] refl] 1(2) [OF False d [symmetric] refl] 1(3) [OF False d [symmetric] refl] by fastforce
    ultimately show ?thesis using False by (simp add: runes_step d)
  qed
qed

lemma sanitize_scalar: "list_all scalar (map sanitize_rune (runes s))"
proof (induction s rule: runes.induct)
  case (1 s)
  then show ?case
    by (cases "s = []") (auto simp: runes_step sanitize_rune_def scalar_def [of 63] DecodeRune_scalar)
qed

lemma displayable_question: "displayable 63"
  by (simp add: displayable_def IsControl_def is_Cf_def Cf_ranges_def)

lemma sanitize_safe: "safe_text (sanitizeOutput s)"
  using sanitize_scalar [of s] displayable_question
  by (auto simp: safe_text_def sanitize_encode runes_encode sanitize_rune_def)

lemma sanitize_length: "length (sanitizeOutput s) \<le> length s"
proof (induction s rule: runes.induct)
  case (1 s)
  show ?case
  proof (cases "s = []")
    case False
    let ?n = "snd (DecodeRune s)"
    have n: "0 < ?n" "?n \<le> length s" using DecodeRune_size [OF False] by auto
    have "length (EncodeRune (sanitize_rune (DecodeRune s))) \<le> ?n"
      using n(1) DecodeRune_scalar(2) [OF False] by (auto simp: sanitize_rune_def EncodeRune_def)
    moreover have "length (sanitizeOutput (drop ?n s)) \<le> length s - ?n" using 1 [OF False] by simp
    ultimately show ?thesis using n by (simp add: sanitize_encode runes_step False)
  qed (simp add: sanitizeOutput.simps)
qed

subsection \<open>Encodings of valid text are valid text\<close>

lemma ascii_append [simp]: "ascii (a @ b) \<longleftrightarrow> ascii a \<and> ascii b"
  and ascii_Cons [simp]: "ascii (c # a) \<longleftrightarrow> byte c < 128 \<and> ascii a"
  and ascii_Nil [simp]: "ascii []"
  by (simp_all add: ascii_def)

lemma ascii_concat_map: "(\<And>c. c \<in> set s \<Longrightarrow> ascii (f c)) \<Longrightarrow> ascii (concat (map f s))"
  by (induction s) auto

lemma unreserved_ascii: "unreserved c \<Longrightarrow> byte c < 128"
  by (auto simp: unreserved_def alnum_def)

lemma upper_nibble_ascii: "n < 16 \<Longrightarrow> byte (upper_nibble n) < 128"
  by (auto simp: upper_nibble_def)

lemma percent_ascii: "ascii (percent c)"
proof -
  have "byte c div 16 < 16" "byte c mod 16 < 16" using byte_less [of c] by linarith+
  note this [THEN upper_nibble_ascii]
  then show ?thesis by (simp add: percent_def)
qed

lemma escapes_ascii: "ascii (QueryEscape s)" "ascii (PathEscape s)"
  unfolding QueryEscape_def PathEscape_def
  by (rule ascii_concat_map, auto simp: percent_ascii unreserved_ascii)+

lemma alphabet_ascii:
  assumes "i < 64"
  shows "byte (StdAlphabet ! i) < 128" "byte (URLAlphabet ! i) < 128"
proof -
  have "ascii StdAlphabet" "ascii URLAlphabet" "length StdAlphabet = 64" "length URLAlphabet = 64"
    by (simp_all add: StdAlphabet_def URLAlphabet_def)
  with assms show "byte (StdAlphabet ! i) < 128" "byte (URLAlphabet ! i) < 128"
    by (simp_all add: ascii_def list_all_length)
qed

lemma base64_ascii: "(\<And>i. i < 64 \<Longrightarrow> byte (alphabet ! i) < 128) \<Longrightarrow> ascii (base64 alphabet pad s)"
  by (induction alphabet pad s rule: base64.induct) (auto simp: Let_def)

lemma hex_nibble_ascii: "n < 16 \<Longrightarrow> byte (hex_nibble n) < 128"
  by (auto simp: hex_nibble_def)

lemma json_rune_valid:
  assumes "scalar r"
  shows "ValidString (json_rune r (length (EncodeRune r)) (EncodeRune r @ s))"
proof (cases "r < 128")
  case True
  have "r div 16 < 16" "r mod 16 < 16" using True by linarith+
  with True have "ascii (json_rune r (length (EncodeRune r)) (EncodeRune r @ s))"
    by (auto simp: json_rune_def Let_def backslash_def hex_nibble_ascii)
  then show ?thesis by (rule ValidString_ascii)
next
  case False
  have "ValidString (encode [r])" using assms by (intro ValidString_encode) simp
  moreover have "ascii (backslash # ''ufffd'')" "ascii (backslash # ''u2028'')" "ascii (backslash # ''u2029'')"
    by (simp_all add: backslash_def)
  ultimately show ?thesis using False ValidString_ascii by (auto simp: json_rune_def)
qed

lemma json_text_valid: "ValidString v \<Longrightarrow> ValidString (json_text v)"
proof (elim ValidString_cases)
  fix rs assume rs: "list_all scalar rs" "v = encode rs"
  have "ValidString (json_runes (map (\<lambda>r. (r, length (EncodeRune r))) rs) (encode rs))"
    using rs(1)
  proof (induction rs)
    case (Cons r rs)
    then show ?case by (simp add: ValidString_append json_rune_valid)
  qed (simp add: ValidString_def)
  then show ?thesis using rs by (simp add: json_text_def runes_encode)
qed

lemma replace_char_append: "replace_char c new (a @ b) = replace_char c new a @ replace_char c new b"
  by (simp add: replace_char_def)

lemma replace_char_absent: "c \<notin> set s \<Longrightarrow> replace_char c new s = s"
  by (induction s) (auto simp: replace_char_def)

lemma EncodeRune_high: "scalar r \<Longrightarrow> 128 \<le> r \<Longrightarrow> c \<in> set (EncodeRune r) \<Longrightarrow> 128 \<le> byte c"
  by (auto simp: EncodeRune_def scalar_def split: if_splits)

lemma replace_char_valid:
  assumes "ValidString s" "byte c < 128" "ascii new"
  shows "ValidString (replace_char c new s)"
  using assms(1)
proof (elim ValidString_cases)
  fix rs assume rs: "list_all scalar rs" "s = encode rs"
  have one: "ValidString (replace_char c new (EncodeRune r))" if "scalar r" for r
  proof (cases "r < 128")
    case True
    then have "ascii (replace_char c new (EncodeRune r))" using assms(3) by (simp add: replace_char_def EncodeRune_def)
    then show ?thesis by (rule ValidString_ascii)
  next
    case False
    then have "c \<notin> set (EncodeRune r)" using EncodeRune_high [OF that] assms(2) by fastforce
    then have "replace_char c new (EncodeRune r) = encode [r]" by (simp add: replace_char_absent)
    moreover have "ValidString (encode [r])" using that by (intro ValidString_encode) simp
    ultimately show ?thesis by (simp only:)
  qed
  have "ValidString (replace_char c new (encode rs))"
    using rs(1) by (induction rs) (simp_all add: replace_char_append ValidString_append one, simp add: replace_char_def ValidString_def)
  with rs(2) show ?thesis by simp
qed

lemma secret_texts_valid:
  assumes "list_all ValidString vals" "x \<in> secret_texts vals"
  shows "ValidString x"
proof -
  obtain v where v: "ValidString v" "x \<in> set (encodedVariants v)"
    using assms by (auto simp: secret_texts_def list_all_iff)
  have "ascii (replace_char (CHR ''+'') ''%20'' (QueryEscape v))"
    using escapes_ascii(1) [of v] unfolding replace_char_def
    by (intro ascii_concat_map) (auto simp: ascii_def list_all_iff)
  moreover have "ascii (base64 StdAlphabet p v)" "ascii (base64 URLAlphabet p v)" for p
    by (auto intro!: base64_ascii alphabet_ascii)
  moreover have "ValidString (replace_char slash [backslash, slash] (json_text v))"
    by (rule replace_char_valid [OF json_text_valid [OF v(1)]]) (simp_all add: slash_def backslash_def)
  ultimately show ?thesis
    using v json_text_valid [OF v(1)] escapes_ascii [of v]
    by (auto simp: encodedVariants_def intro: ValidString_ascii split: if_splits)
qed

subsection \<open>What is released\<close>

lemma Bytes_safe:
  assumes "New vals policy = Inr f" "list_all ValidString vals" "safe_text s"
  shows "safe_text (Bytes f s)"
proof -
  obtain g where g: "f = g\<lparr>replacement := ''[REDACTED]''\<rparr>" "automaton_for g (secret_texts vals)"
    using New_Inr [OF assms(1)] by blast
  have "safe_text (a @ b)" if "x \<in> secret_texts vals" "safe_text (a @ x @ b)" for a x b
    using that(2) cut_valid [of a x b] secret_texts_valid [OF assms(2) that(1)] by (auto simp: safe_text_def)
  from ac.scan_cut [of g "secret_texts vals" safe_text s] g(2) assms(3) this show ?thesis
    by (simp add: g(1) Bytes_replacement Bytes_scan [OF g(2)])
qed

lemma Bytes_shorter: "New vals policy = Inr f \<Longrightarrow> length (Bytes f s) \<le> length s"
proof -
  assume "New vals policy = Inr f"
  then obtain g where g: "f = g\<lparr>replacement := ''[REDACTED]''\<rparr>" "automaton_for g (secret_texts vals)"
    using New_Inr by blast
  show ?thesis using list_emb_length [OF ac.scan_subseq [of g s]] by (simp add: g(1) Bytes_replacement Bytes_scan [OF g(2)])
qed

lemma Bytes_clean: "New vals policy = Inr f \<Longrightarrow> x \<in> secret_texts vals \<Longrightarrow> \<not> sublist x (Bytes f s)"
  using New_Inr [of vals policy f] ac.scan_clean by (fastforce simp: Bytes_replacement Bytes_scan)

lemma released_contract:
  assumes "New vals policy = Inr f"
  shows "length (released f raw) \<le> length raw" "x \<in> secret_texts vals \<Longrightarrow> \<not> sublist x (released f raw)"
    "list_all ValidString vals \<Longrightarrow> safe_text (released f raw)"
  using Bytes_shorter [OF assms, of raw] Bytes_shorter [OF assms, of "sanitizeOutput (Bytes f raw)"] sanitize_length [of "Bytes f raw"]
    Bytes_clean [OF assms] Bytes_safe [OF assms _ sanitize_safe]
  by (auto simp: released_def)

end
