(* ===== verification/Broker_Properties.thy ===== *)
theory Broker_Properties
  imports Broker
begin

text \<open>
  What the broker guarantees: collection is all or nothing within its bounds, the environment of
  the child is exactly the selected one, and whatever the process did, the released text holds no
  secret, is bounded and safe to display, and the result is consistent.
\<close>

subsection \<open>Selected environment and secrets\<close>

lemma check_environment_None:
  "check_environment p owned used vs = None \<Longrightarrow>
     distinct (map var_Name vs) \<and> var_Name ` set vs \<inter> owned = {} \<and>
     (\<forall>v \<in> set vs. environment_name (var_Name v) \<and> var_Name v \<notin> {''LANG'', ''LC_ALL'', ''TZ''}
        \<and> ValidString (var_Value v) \<and> CHR 0x00 \<notin> set (var_Value v))"
  by (induction p owned used vs rule: check_environment.induct) (auto simp: Let_def)

lemma observed_secrets_Inr:
  "observed_secrets p vs (s, n) = Inr (s', n') \<Longrightarrow> s' = s @ filter (\<lambda>v. v \<noteq> []) vs"
  by (induction vs arbitrary: s n) (auto split: if_splits, fastforce)

lemma sensitive_values_Inr:
  "sensitive_values p vs (s, n) = Inr s' \<Longrightarrow>
     s' = s @ map var_Value (filter (\<lambda>v. var_Sensitive v \<and> var_Value v \<noteq> []) vs)"
  by (induction vs arbitrary: s n) (auto split: if_splits, fastforce)

text \<open>The values a request wants to keep out of every result.\<close>

definition confidential :: "BrokerRequest \<Rightarrow> bytes set" where
  "confidential q = set (rq_ObservedSecrets q) \<union> var_Value ` {v \<in> set (rq_Environment q). var_Sensitive v}"

lemma prepare_Inr:
  assumes "prepareEnvironmentAndSecrets p q = Inr (environment, secrets)"
  shows "environment = fixedEnvironment @ map (\<lambda>v. var_Name v @ ''='' @ var_Value v) (sort_key var_Name (rq_Environment q))"
    and "set secrets = confidential q - {[]}" and "check_environment p {} 0 (rq_Environment q) = None"
proof -
  obtain s n where o: "observed_secrets p (rq_ObservedSecrets q) ([], 0) = Inr (s, n)"
    "sensitive_values p (sort_key var_Name (rq_Environment q)) (s, n) = Inr secrets"
    and e: "check_environment p {} 0 (rq_Environment q) = None"
    "environment = fixedEnvironment @ map (\<lambda>v. var_Name v @ ''='' @ var_Value v) (sort_key var_Name (rq_Environment q))"
    using assms by (auto simp: prepareEnvironmentAndSecrets_def bind_result_Inr_iff split: if_splits option.splits)
  show "environment = fixedEnvironment @ map (\<lambda>v. var_Name v @ ''='' @ var_Value v) (sort_key var_Name (rq_Environment q))"
    "check_environment p {} 0 (rq_Environment q) = None" by (fact e)+
  show "set secrets = confidential q - {[]}"
    using observed_secrets_Inr [OF o(1)] sensitive_values_Inr [OF o(2)] by (auto simp: confidential_def)
qed

lemma name_no_equals: "environment_name s \<Longrightarrow> CHR ''='' \<notin> set s"
  by (auto simp: environment_name_def upper_ascii_def list_all_iff split: list.splits)

subsection \<open>One run\<close>

lemma run_process_cases:
  assumes "run_process p w q env f = (r, e)"
  obtains (unstarted) "\<not> pw_starts w" "e = Some CodeStartFailed" "br_Outcome r = OutcomeAmbiguous" "br_Started r"
      "br_MayHaveChanged r" "br_OutputDiscarded r" "br_Stdout r = []" "br_Stderr r = []"
  | (finished) ws out err overflowed c where "pw_starts w" "e = None" "br_Started r" "br_MayHaveChanged r"
      "take_output (collect ws (newOutputCollector (StdoutLimit p) (StderrLimit p) (AggregateLimit p))) = ((out, err, overflowed), c)"
      "br_Outcome r = run_outcome w overflowed" "br_OutputDiscarded r = overflowed"
      "br_ExitCode r = fst (processExit (pw_state w))" "br_ExitCodeKnown r = fst (snd (processExit (pw_state w)))"
      "br_Stdout r = (if overflowed then [] else released f out)" "br_Stderr r = (if overflowed then [] else released f err)"
proof (cases "pw_starts w")
  case False
  then show ?thesis using assms by (intro unstarted) (auto simp: run_process_def zero_broker_result_def)
next
  case True
  let ?ws = "pw_writes w env (rq_WorkingDirectory q) [''--config'', rq_ConfigurationPath q]"
  obtain out err overflowed c where t:
    "take_output (collect ?ws (newOutputCollector (StdoutLimit p) (StderrLimit p) (AggregateLimit p))) = ((out, err, overflowed), c)"
    by (metis prod.exhaust)
  obtain code known signal where x: "processExit (pw_state w) = (code, known, signal)" by (metis prod.exhaust)
  show ?thesis using assms True t x
    by (intro finished [OF _ _ _ _ t]) (auto simp: run_process_def zero_broker_result_def)
qed

lemma run_body_cases:
  assumes "run_body p w q = (r, e)"
  obtains (refused) c where "r = zero_broker_result" "e = Some c"
  | (ran) env secrets guard f where "prepareEnvironmentAndSecrets p q = Inr (env, secrets)"
      "New secrets \<lparr>MaximumValues = MaximumSecrets p, MaximumValueBytes = MaximumSecretBytes p,
          MaximumAggregateBytes = MaximumSecretTotal p\<rparr> = Inr f"
      "run_process p w q (env @ [guard]) f = (r, e)"
proof (cases "first_error [validateCanonicalPath (rq_WorkingDirectory q) True, validateCanonicalPath (rq_ConfigurationPath q) False]")
  case (Some c)
  then have "run_body p w q = (zero_broker_result, Some c)" unfolding run_body_def by (simp del: first_error.simps)
  with assms show ?thesis by (intro refused [of c]) simp_all
next
  case None
  with assms show ?thesis
    unfolding run_body_def by (auto intro: refused ran split: option.splits sum.splits prod.splits if_splits)
qed

lemma Run_broker_cases:
  assumes "Run_broker p w q = (r, e)"
  obtains (refused) c where "r = zero_broker_result" "e = Some c"
  | (ran) env secrets guard f e' where "prepareEnvironmentAndSecrets p q = Inr (env, secrets)"
      "New secrets \<lparr>MaximumValues = MaximumSecrets p, MaximumValueBytes = MaximumSecretBytes p,
          MaximumAggregateBytes = MaximumSecretTotal p\<rparr> = Inr f"
      "run_process p w q (env @ [guard]) f = (r, e')" "e = None \<Longrightarrow> e' = None"
proof (cases "rq_Prepared q")
  case False
  then show ?thesis using assms refused by (auto simp: Run_broker_def)
next
  case True
  obtain e' where b: "run_body p w q = (r, e')" "e = None \<longrightarrow> e' = None" "e' \<noteq> None \<longrightarrow> e = e'"
    using assms True by (auto simp: Run_broker_def split: prod.splits option.splits if_splits)
  show ?thesis using b(1)
  proof (cases rule: run_body_cases)
    case (refused c)
    with b show ?thesis using that(1) [of c] by auto
  next
    case (ran env secrets guard f)
    with b that(2) show ?thesis by blast
  qed
qed

lemma runner_limits:
  "NewRunner b p0 = Inr p \<Longrightarrow> 0 \<le> StdoutLimit p \<and> 0 \<le> StderrLimit p \<and> 0 \<le> AggregateLimit p"
  by (auto simp: NewRunner_def split: if_splits)

lemma taken:
  assumes "0 \<le> so" "0 \<le> se" "0 \<le> ag"
    and "take_output (collect ws (newOutputCollector so se ag)) = ((out, err, overflowed), c)"
  shows "int (length out) \<le> so \<and> int (length err) \<le> se \<and> int (length out) + int (length err) \<le> ag"
    "overflowed = (\<not> fits so se ag ws)" "\<not> overflowed \<Longrightarrow> out = written streamStdout ws \<and> err = written streamStderr ws"
  using collected_collect [OF assms(1-3), of ws] assms by (auto simp: collected_def take_output_def split: if_splits)

text \<open>The streams of a result are empty, or released by a filter for the confidential values from what
  the collector kept.\<close>

lemma released_streams:
  assumes "NewRunner b p0 = Inr p" "Run_broker p w q = (r, e)"
  obtains (silent) "br_Stdout r = []" "br_Stderr r = []"
  | (streams) f secrets policy out err where "New secrets policy = Inr f" "set secrets = confidential q - {[]}"
      "list_all ValidString (rq_ObservedSecrets q) \<Longrightarrow> list_all ValidString secrets"
      "br_Stdout r = released f out" "br_Stderr r = released f err"
      "int (length out) \<le> StdoutLimit p" "int (length err) \<le> StderrLimit p" "int (length out) + int (length err) \<le> AggregateLimit p"
  using assms(2)
proof (cases rule: Run_broker_cases)
  case (refused c)
  then show ?thesis by (intro silent) (simp_all add: zero_broker_result_def)
next
  case (ran env secrets guard f e')
  note e = prepare_Inr [OF ran(1)] and lim = runner_limits [OF assms(1)]
  have valid: "list_all ValidString secrets" if "list_all ValidString (rq_ObservedSecrets q)"
    using that e(2) check_environment_None [OF e(3)] by (auto simp: list_all_iff confidential_def)
  from ran(3) show ?thesis
  proof (cases rule: run_process_cases)
    case (finished ws out err overflowed c)
    show ?thesis
    proof (cases overflowed)
      case False
      then show ?thesis using finished(10,11) taken(1) [OF _ _ _ finished(5)] lim
        by (intro streams [OF ran(2) e(2) valid]) auto
    qed (use finished silent in simp)
  qed (use silent in simp)
qed

lemma safe_text_Nil [simp]: "safe_text []"
  by (simp add: safe_text_def ValidString_def)

lemma broker_text_safe:
  assumes "NewRunner b p0 = Inr p" "Run_broker p w q = (r, e)" "list_all ValidString (rq_ObservedSecrets q)"
  shows "safe_text (br_Stdout r) \<and> safe_text (br_Stderr r)"
  using assms(1,2)
proof (cases rule: released_streams)
  case (streams f secrets policy out err)
  then show ?thesis using released_contract(3) [OF streams(1)] assms(3) by simp
qed simp

lemma broker_started: "Run_broker p w q = (r, e) \<Longrightarrow> br_MayHaveChanged r \<longleftrightarrow> br_Started r"
  by (erule Run_broker_cases, simp add: zero_broker_result_def, erule run_process_cases) simp_all

subsection \<open>Guarantees\<close>

text \<open>Output collection is all or nothing.  After any interleaving of writes to both streams, the
  buffers never exceed the stream limits or the aggregate limit; when everything fits, exactly what
  was written is released, and otherwise nothing is, and the run is cancelled exactly once.\<close>

theorem collection_all_or_nothing:
  assumes "0 \<le> so" "0 \<le> se" "0 \<le> ag" "c = collect ws (newOutputCollector so se ag)"
  shows "int (length (oc_stdout c)) \<le> so \<and> int (length (oc_stderr c)) \<le> se
    \<and> int (length (oc_stdout c)) + int (length (oc_stderr c)) \<le> ag
    \<and> fst (take_output c) = (if fits so se ag ws then (written streamStdout ws, written streamStderr ws, False) else ([], [], True))
    \<and> oc_cancels c = (if fits so se ag ws then 0 else 1)"
  using collected_collect [OF assms(1-3), of ws] assms(4) by (auto simp: collected_def take_output_def)

text \<open>C36: The sanitizer makes any bytes safe to display: its output is valid UTF-8 without control or
  format characters other than newline and tab, is not longer than the input, and text that
  already is safe is returned unchanged.\<close>

theorem sanitizer_safe:
  "safe_text (sanitizeOutput s) \<and> length (sanitizeOutput s) \<le> length s \<and> (safe_text s \<longrightarrow> sanitizeOutput s = s)"
proof -
  have "sanitizeOutput s = s" if "safe_text s"
  proof -
    have "ValidString s" using that by (simp add: safe_text_def)
    then obtain rs where rs: "list_all scalar rs" "s = encode rs" by (rule ValidString_cases)
    then have "map sanitize_rune (runes s) = rs"
      using that by (auto simp: safe_text_def runes_encode sanitize_rune_def scalar_width list_all_iff intro!: map_idI)
    with rs show ?thesis by (simp add: sanitize_encode)
  qed
  then show ?thesis using sanitize_safe sanitize_length by blast
qed

text \<open>The child's environment is exactly the selected one: the three fixed entries followed by the
  requested variables in name order, each name once, none of them reserved, and every sensitive
  value and observed secret is among the values to redact.\<close>

theorem environment_is_exact:
  assumes "prepareEnvironmentAndSecrets p q = Inr (environment, secrets)"
  shows "environment = fixedEnvironment @ map (\<lambda>v. var_Name v @ ''='' @ var_Value v) (sort_key var_Name (rq_Environment q))
    \<and> distinct (map (takeWhile (\<lambda>c. c \<noteq> CHR ''='')) environment)
    \<and> set secrets = confidential q - {[]}"
proof -
  note e = prepare_Inr [OF assms]
  note c = check_environment_None [OF e(3)]
  let ?vs = "sort_key var_Name (rq_Environment q)" and ?name = "takeWhile (\<lambda>c. c \<noteq> CHR ''='')"
  have name: "?name (var_Name v @ ''='' @ var_Value v) = var_Name v" if "v \<in> set ?vs" for v
  proof -
    have "\<forall>c \<in> set (var_Name v). c \<noteq> CHR ''=''" using that c name_no_equals [of "var_Name v"] by auto
    then show ?thesis by (simp add: takeWhile_append2 [of "var_Name v"])
  qed
  then have "map ?name (map (\<lambda>v. var_Name v @ ''='' @ var_Value v) ?vs) = map var_Name ?vs" by simp
  moreover have "distinct (map var_Name ?vs)"
    using c by (simp add: distinct_map inj_on_def)
  moreover have "map ?name fixedEnvironment = [''LANG'', ''LC_ALL'', ''TZ'']" by (simp add: fixedEnvironment_def)
  ultimately show ?thesis using e(1,2) c by (auto simp: simp del: map_map)
qed

text \<open>C34: What the broker releases.  Whatever the child wrote and however it ended, the result's
  output streams hold no observed secret and no sensitive variable under any of the covered
  encodings, stay within the limits of the policy, and are safe to display (valid UTF-8 without
  control or format characters) when the observed secrets are text.\<close>

theorem broker_output_contract:
  assumes "NewRunner b p0 = Inr p" "Run_broker p w q = (r, e)"
  shows "(\<forall>v \<in> confidential q. \<forall>x \<in> set (encodedVariants v). v \<noteq> [] \<and> x \<noteq> [] \<longrightarrow>
            \<not> sublist x (br_Stdout r) \<and> \<not> sublist x (br_Stderr r))
    \<and> int (length (br_Stdout r)) \<le> StdoutLimit p \<and> int (length (br_Stderr r)) \<le> StderrLimit p
    \<and> int (length (br_Stdout r)) + int (length (br_Stderr r)) \<le> AggregateLimit p
    \<and> (list_all ValidString (rq_ObservedSecrets q) \<longrightarrow> safe_text (br_Stdout r) \<and> safe_text (br_Stderr r))"
  using assms
proof (cases rule: released_streams)
  case silent
  then show ?thesis using runner_limits [OF assms(1)] by simp
next
  case (streams f secrets policy out err)
  have sec: "x \<in> secret_texts secrets" if "v \<in> confidential q" "v \<noteq> []" "x \<in> set (encodedVariants v)" "x \<noteq> []" for v x
    using that streams(2) by (auto simp: secret_texts_def)
  have "length (released f out) \<le> length out" "length (released f err) \<le> length err"
    by (rule released_contract(1) [OF streams(1)])+
  with streams(6-8) have "int (length (released f out)) \<le> StdoutLimit p" "int (length (released f err)) \<le> StderrLimit p"
    "int (length (released f out)) + int (length (released f err)) \<le> AggregateLimit p" by linarith+
  then show ?thesis
    using released_contract(2,3) [OF streams(1)] sec streams(3) unfolding streams(4,5) by blast
qed

text \<open>Results are consistent.  A run without error has started; a result that was not started is
  empty; whatever started may have changed native or external state; discarded output is empty;
  and success is reported only for a process that exited with status 0, was cleaned up with
  certainty and whose output was kept.\<close>

theorem broker_result_consistent:
  assumes "Run_broker p w q = (r, e)"
  shows "(e = None \<longrightarrow> br_Started r) \<and> (\<not> br_Started r \<longrightarrow> r = zero_broker_result) \<and> (br_MayHaveChanged r \<longleftrightarrow> br_Started r)
    \<and> (br_OutputDiscarded r \<longrightarrow> br_Stdout r = [] \<and> br_Stderr r = [])
    \<and> (br_Outcome r = OutcomeSucceeded \<longrightarrow> br_ExitCode r = 0 \<and> br_ExitCodeKnown r \<and> \<not> br_OutputDiscarded r
          \<and> \<not> pw_cleanupUncertain w \<and> pw_wait w = WaitOK)"
  using assms
proof (cases rule: Run_broker_cases)
  case (refused c)
  then show ?thesis by (simp add: zero_broker_result_def)
next
  case (ran env secrets guard f e')
  from ran(3) show ?thesis
  proof (cases rule: run_process_cases)
    case (finished ws out err overflowed c)
    then show ?thesis by (auto simp: run_outcome_def split: if_splits)
  qed simp
qed

subsection \<open>Examples\<close>

definition example_world :: process_world where
  "example_world =
     \<lparr>pw_guard = Some ''ACMEMUX_GUARD=1'', pw_cancelled = False, pw_controller = True,
      pw_startAttemptedAt = utc_instant 1, pw_starts = True,
      pw_writes = (\<lambda>_ _ _. [(streamStdout, ''token a/b c''), (streamStderr, ''done'')]),
      pw_wait = WaitOK, pw_cause = NoCause, pw_cleanupUncertain = False, pw_finishedAt = utc_instant 2,
      pw_termination = TerminationNone, pw_state = Exited 0, pw_cancelRequested = False, pw_closes = True\<rparr>"

definition example_request :: BrokerRequest where
  "example_request =
     \<lparr>rq_Prepared = True, rq_WorkingDirectory = ''/w'', rq_ConfigurationPath = ''/w/c'',
      rq_Environment = [\<lparr>var_Name = ''TOKEN'', var_Value = example_secret, var_Sensitive = True\<rparr>],
      rq_ObservedSecrets = []\<rparr>"

lemma example_prepared:
  "prepareEnvironmentAndSecrets DefaultRunnerPolicy example_request =
     Inr (fixedEnvironment @ [''TOKEN='' @ example_secret], [example_secret])"
proof -
  have "ValidString example_secret" by (rule ValidString_ascii) (simp add: example_secret_def)
  then have c: "check_environment DefaultRunnerPolicy {} 0 (rq_Environment example_request) = None"
    by (simp add: example_request_def DefaultRunnerPolicy_def environment_name_def upper_ascii_def example_secret_def Let_def)
  have s: "observed_secrets DefaultRunnerPolicy (rq_ObservedSecrets example_request) ([], 0) = Inr ([], 0)"
    "sensitive_values DefaultRunnerPolicy (sort_key var_Name (rq_Environment example_request)) ([], 0) = Inr [example_secret]"
    by (simp_all add: example_request_def DefaultRunnerPolicy_def example_secret_def)
  show ?thesis
    unfolding prepareEnvironmentAndSecrets_def c by (simp add: s) (simp add: example_request_def DefaultRunnerPolicy_def)
qed

lemma example_paths:
  "validateCanonicalPath ''/w'' True = None" "validateCanonicalPath ''/w/c'' False = None"
proof -
  have "Clean_abs ''/w'' = ''/w''" "Clean_abs ''/w/c'' = ''/w/c''" "Base ''/w/c'' \<noteq> [slash]" by code_simp+
  then show "validateCanonicalPath ''/w'' True = None" "validateCanonicalPath ''/w/c'' False = None"
    by (simp_all add: validateCanonicalPath_def ValidString_ascii runes_ascii IsAbs_def slash_def)
qed

lemma example_run:
  "\<exists>r. Run_broker DefaultRunnerPolicy example_world example_request = (r, None) \<and> br_Outcome r = OutcomeSucceeded"
proof -
  obtain f where "New [example_secret] DefaultPolicy = Inr f" using example_filter by blast
  then have f: "New [example_secret] \<lparr>MaximumValues = 128, MaximumValueBytes = 65536, MaximumAggregateBytes = 1048576\<rparr> = Inr f"
    by (simp add: DefaultPolicy_def)
  obtain r where r: "run_process DefaultRunnerPolicy example_world example_request
      (fixedEnvironment @ [''TOKEN='' @ example_secret] @ [''ACMEMUX_GUARD=1'']) f = (r, None)" "br_Outcome r = OutcomeSucceeded"
    by (simp add: run_process_def example_world_def Let_def take_output_def collect_def newOutputCollector_def
        Write_def DefaultRunnerPolicy_def run_outcome_def)
  have "run_body DefaultRunnerPolicy example_world example_request = (r, None)"
    unfolding run_body_def example_prepared
    using f r(1) by (simp add: example_paths example_request_def example_world_def DefaultRunnerPolicy_def)
  with r(2) show ?thesis by (simp add: Run_broker_def example_request_def example_world_def)
qed

lemma example_runner: "NewRunner True DefaultRunnerPolicy = Inr DefaultRunnerPolicy"
  by (simp add: NewRunner_def DefaultRunnerPolicy_def minute_def second_def)

theorem collection_all_or_nothing_witness:
  "fst (take_output (collect [(streamStdout, ''ab''), (streamStderr, ''c''), (streamStdout, ''d'')] (newOutputCollector 4 2 5)))
     = (''abd'', ''c'', False)
   \<and> fst (take_output (collect [(streamStdout, ''ab''), (streamStdout, ''cde'')] (newOutputCollector 4 2 5))) = ([], [], True)"
  using collection_all_or_nothing [of 4 2 5 _ "[(streamStdout, ''ab''), (streamStderr, ''c''), (streamStdout, ''d'')]", OF _ _ _ refl]
    collection_all_or_nothing [of 4 2 5 _ "[(streamStdout, ''ab''), (streamStdout, ''cde'')]", OF _ _ _ refl]
  by (simp add: fits_def written_def)

theorem sanitizer_safe_witness: "sanitizeOutput ''plain'' = ''plain''"
proof -
  have "safe_text ''plain''"
    by (simp add: safe_text_def ValidString_ascii runes_ascii displayable_def IsControl_def is_Cf_def Cf_ranges_def)
  with sanitizer_safe [of "''plain''"] show ?thesis by blast
qed

theorem environment_is_exact_witness:
  "distinct (map (takeWhile (\<lambda>c. c \<noteq> CHR ''='')) (fixedEnvironment @ [''TOKEN='' @ example_secret]))"
  using environment_is_exact [OF example_prepared] by blast

theorem broker_output_contract_witness:
  "\<exists>r. Run_broker DefaultRunnerPolicy example_world example_request = (r, None)
     \<and> \<not> sublist example_secret (br_Stdout r) \<and> safe_text (br_Stdout r) \<and> int (length (br_Stdout r)) \<le> 196608"
proof -
  obtain r where r: "Run_broker DefaultRunnerPolicy example_world example_request = (r, None)" using example_run by blast
  have "example_secret \<in> confidential example_request" "example_secret \<in> set (encodedVariants example_secret)" "example_secret \<noteq> []"
    by (auto simp: confidential_def example_request_def encodedVariants_def example_secret_def image_iff)
  moreover have "StdoutLimit DefaultRunnerPolicy = 196608" "rq_ObservedSecrets example_request = []"
    by (simp_all add: DefaultRunnerPolicy_def example_request_def)
  ultimately show ?thesis using r broker_output_contract [OF example_runner r] by fastforce
qed

theorem broker_result_consistent_witness:
  "\<exists>r. Run_broker DefaultRunnerPolicy example_world example_request = (r, None) \<and> br_Started r \<and> br_MayHaveChanged r \<and> br_ExitCode r = 0"
proof -
  obtain r where "Run_broker DefaultRunnerPolicy example_world example_request = (r, None)" "br_Outcome r = OutcomeSucceeded"
    using example_run by blast
  with broker_result_consistent show ?thesis by metis
qed

end
