(* ===== verification/Go_Base64.thy ===== *)
theory Go_Base64
  imports Redaction
begin

text \<open>
  Decoding of \<open>encoding/base64\<close> as AcmeMux uses it: the unpadded standard and URL-safe alphabets, lenient
  and strict, with the round trips that make tokens and password verifiers unambiguous.
\<close>

subsection \<open>Decoding\<close>

definition sextet :: "bytes \<Rightarrow> char \<Rightarrow> nat option" where
  "sextet alphabet c = (let n = length (takeWhile (\<lambda>d. d \<noteq> c) alphabet) in if n < length alphabet then Some n else None)"

text \<open>A strict decoder refuses bits that the last digit carries beyond the last byte.\<close>

fun decode_sextets :: "bool \<Rightarrow> nat list \<Rightarrow> bytes option" where
  "decode_sextets strict [] = Some []"
| "decode_sextets strict [a] = None"
| "decode_sextets strict [a, b] = (if strict \<and> b mod 16 \<noteq> 0 then None else Some [char_of (a * 4 + b div 16)])"
| "decode_sextets strict [a, b, c] =
     (if strict \<and> c mod 4 \<noteq> 0 then None else Some [char_of (a * 4 + b div 16), char_of (b mod 16 * 16 + c div 4)])"
| "decode_sextets strict (a # b # c # d # rest) =
     map_option (\<lambda>t. [char_of (a * 4 + b div 16), char_of (b mod 16 * 16 + c div 4), char_of (c mod 4 * 64 + d)] @ t)
       (decode_sextets strict rest)"

text \<open>Line ends are skipped, every other byte has to be a digit.\<close>

definition DecodeString :: "bytes \<Rightarrow> bool \<Rightarrow> bytes \<Rightarrow> bytes option" where
  "DecodeString alphabet strict v =
     (let digits = map (sextet alphabet) (filter (\<lambda>c. c \<noteq> CHR 0x0A \<and> c \<noteq> CHR 0x0D) v)
      in if None \<in> set digits then None else decode_sextets strict (map the digits))"

abbreviation RawURLDecode :: "bytes \<Rightarrow> bytes option" where
  "RawURLDecode \<equiv> DecodeString URLAlphabet False"

definition RawURLEncode :: "bytes \<Rightarrow> bytes" where
  "RawURLEncode v = base64 URLAlphabet False v"

definition RawStdEncode :: "bytes \<Rightarrow> bytes" where
  "RawStdEncode v = base64 StdAlphabet False v"

subsection \<open>Encoding, digit by digit\<close>

fun sextets_of :: "bytes \<Rightarrow> nat list" where
  "sextets_of (a # b # c # rest) =
     [byte a div 4, byte a mod 4 * 16 + byte b div 16, byte b mod 16 * 4 + byte c div 64, byte c mod 64] @ sextets_of rest"
| "sextets_of [a, b] = [byte a div 4, byte a mod 4 * 16 + byte b div 16, byte b mod 16 * 4]"
| "sextets_of [a] = [byte a div 4, byte a mod 4 * 16]"
| "sextets_of [] = []"

lemma sextet_bounds:
  fixes a b :: nat
  assumes "a < 256" "b < 256"
  shows "a div 4 < 64" "a mod 4 * 16 + b div 16 < 64" "a mod 16 * 4 + b div 64 < 64" "a mod 4 * 16 < 64" "a mod 16 * 4 < 64"
proof -
  have d: "b div 16 < 16" "b div 64 < 4" "a div 4 < 64" using assms by (auto intro!: less_mult_imp_div_less)
  have m: "a mod 4 < 4" "a mod 16 < 16" by simp_all
  show "a div 4 < 64" by (rule d)
  show "a mod 4 * 16 + b div 16 < 64" "a mod 16 * 4 + b div 64 < 64" "a mod 4 * 16 < 64" "a mod 16 * 4 < 64"
    using d m by linarith+
qed

lemma sextets_small: "list_all (\<lambda>n. n < 64) (sextets_of v)"
  by (induction v rule: sextets_of.induct) (simp_all add: sextet_bounds sextet_bounds(1) [OF _ byte_less])

lemma split_24:
  fixes a b c :: nat
  assumes "a < 256" "b < 256" "c < 256"
  shows "(a * 65536 + b * 256 + c) div 262144 mod 64 = a div 4"
    "(a * 65536 + b * 256 + c) div 4096 mod 64 = a mod 4 * 16 + b div 16"
    "(a * 65536 + b * 256 + c) div 64 mod 64 = b mod 16 * 4 + c div 64"
    "(a * 65536 + b * 256 + c) mod 64 = c mod 64"
proof -
  define p q u v x y where d: "p = a div 4" "q = a mod 4" "u = b div 16" "v = b mod 16" "x = c div 64" "y = c mod 64"
  have eq: "a = 4 * p + q" "b = 16 * u + v" "c = 64 * x + y" by (simp_all add: d)
  have lt: "p < 64" "q < 4" "u < 16" "v < 16" "x < 4" "y < 64" using assms by (auto simp: d intro: less_mult_imp_div_less)
  let ?n = "a * 65536 + b * 256 + c"
  have "?n div 262144 = p" "?n div 4096 = p * 64 + (q * 16 + u)" "?n div 64 = (p * 64 + (q * 16 + u)) * 64 + (v * 4 + x)"
    using lt unfolding eq by (auto intro!: div_nat_eqI)
  moreover have "?n = (a * 1024 + b * 4 + x) * 64 + y" using eq(3) by simp
  moreover have low: "(k * 64 + r) mod 64 = r" if "r < 64" for k r :: nat using that by simp
  moreover have "q * 16 + u < 64" "v * 4 + x < 64" using lt by linarith+
  ultimately show "?n div 262144 mod 64 = a div 4" "?n div 4096 mod 64 = a mod 4 * 16 + b div 16"
    "?n div 64 mod 64 = b mod 16 * 4 + c div 64" "?n mod 64 = c mod 64"
    using lt(1,6) unfolding d [symmetric] by (metis mod_less low)+
qed

lemma split_16:
  fixes a b :: nat
  assumes "a < 256" "b < 256"
  shows "(a * 65536 + b * 256) div 262144 mod 64 = a div 4"
    "(a * 65536 + b * 256) div 4096 mod 64 = a mod 4 * 16 + b div 16" "(a * 65536 + b * 256) div 64 mod 64 = b mod 16 * 4"
  using split_24 [OF assms, of 0] by simp_all

lemma split_8:
  fixes a :: nat
  assumes "a < 256"
  shows "(a * 65536) div 262144 mod 64 = a div 4" "(a * 65536) div 4096 mod 64 = a mod 4 * 16"
  using split_16 [OF assms, of 0] by simp_all

lemma base64_sextets: "base64 alphabet False v = map (\<lambda>n. alphabet ! n) (sextets_of v)"
proof (induction v rule: sextets_of.induct)
  case (1 a b c rest)
  then show ?case
    by (simp only: base64.simps sextets_of.simps Let_def split_24 [OF byte_less byte_less byte_less] append.simps list.map)
next
  case (2 a b)
  then show ?case
    by (simp only: base64.simps sextets_of.simps Let_def split_16 [OF byte_less byte_less] append.simps list.map if_False)
next
  case (3 a)
  then show ?case
    by (simp only: base64.simps sextets_of.simps Let_def split_8 [OF byte_less] append.simps list.map if_False)
qed simp

lemma join_24:
  fixes a b c :: nat
  assumes "b < 256" "c < 256"
  shows "a div 4 * 4 + (a mod 4 * 16 + b div 16) div 16 = a"
    "(a mod 4 * 16 + b div 16) mod 16 * 16 + (b mod 16 * 4 + c div 64) div 4 = b"
    "(b mod 16 * 4 + c div 64) mod 4 * 64 + c mod 64 = c"
proof -
  have d: "b div 16 < 16" "c div 64 < 4" using assms by (auto intro: less_mult_imp_div_less)
  then have "(a mod 4 * 16 + b div 16) div 16 = a mod 4" "(a mod 4 * 16 + b div 16) mod 16 = b div 16"
    "(b mod 16 * 4 + c div 64) div 4 = b mod 16" "(b mod 16 * 4 + c div 64) mod 4 = c div 64" by simp_all
  then show "a div 4 * 4 + (a mod 4 * 16 + b div 16) div 16 = a"
    "(a mod 4 * 16 + b div 16) mod 16 * 16 + (b mod 16 * 4 + c div 64) div 4 = b"
    "(b mod 16 * 4 + c div 64) mod 4 * 64 + c mod 64 = c" by simp_all
qed

lemma char_of_byte [simp]: "char_of (byte c) = c"
  by (metis byte_char_of byte_inject byte_less)

lemma decode_sextets_of: "decode_sextets strict (sextets_of v) = Some v"
proof (induction v rule: sextets_of.induct)
  case (1 a b c rest)
  then show ?case
    by (simp only: sextets_of.simps append.simps decode_sextets.simps join_24 [OF byte_less byte_less] char_of_byte option.map)
next
  case (2 a b)
  then show ?case using join_24(2) [of "byte b" 0 "byte a"] by (simp add: join_24(1) mod_mult_right_eq)
next
  case (3 a)
  then show ?case using join_24(1) [of 0 0 "byte a"] by simp
qed simp

subsection \<open>Round trips\<close>

definition good_alphabet :: "bytes \<Rightarrow> bool" where
  "good_alphabet alphabet \<longleftrightarrow> length alphabet = 64 \<and> distinct alphabet \<and> CHR 0x0A \<notin> set alphabet \<and> CHR 0x0D \<notin> set alphabet"

lemma good_alphabets [simp]: "good_alphabet URLAlphabet" "good_alphabet StdAlphabet"
  by code_simp+

lemma takeWhile_nth: "distinct xs \<Longrightarrow> n < length xs \<Longrightarrow> length (takeWhile (\<lambda>d. d \<noteq> xs ! n) xs) = n"
  by (subst takeWhile_eq_take_P_nth [of n]) (auto simp: nth_eq_iff_index_eq)

lemma sextet_nth: "good_alphabet alphabet \<Longrightarrow> n < 64 \<Longrightarrow> sextet alphabet (alphabet ! n) = Some n"
  by (simp add: sextet_def good_alphabet_def takeWhile_nth Let_def)

lemma sextet_Some: "good_alphabet alphabet \<Longrightarrow> sextet alphabet c = Some n \<Longrightarrow> n < 64 \<and> alphabet ! n = c"
  using nth_length_takeWhile [of "\<lambda>d. d \<noteq> c" alphabet] by (auto simp: sextet_def good_alphabet_def Let_def split: if_splits)

lemma encoded_digits:
  assumes "good_alphabet alphabet"
  shows "filter (\<lambda>c. c \<noteq> CHR 0x0A \<and> c \<noteq> CHR 0x0D) (base64 alphabet False v) = base64 alphabet False v"
    "map (sextet alphabet) (base64 alphabet False v) = map Some (sextets_of v)"
proof -
  have all: "n < 64" if "n \<in> set (sextets_of v)" for n using sextets_small [of v] that by (simp add: list_all_iff)
  have "alphabet ! n \<noteq> CHR 0x0A \<and> alphabet ! n \<noteq> CHR 0x0D" if "n < 64" for n
    using assms that by (metis good_alphabet_def nth_mem)
  then show "filter (\<lambda>c. c \<noteq> CHR 0x0A \<and> c \<noteq> CHR 0x0D) (base64 alphabet False v) = base64 alphabet False v"
    unfolding base64_sextets using all by (intro filter_True) auto
  show "map (sextet alphabet) (base64 alphabet False v) = map Some (sextets_of v)"
    unfolding base64_sextets using all sextet_nth [OF assms] by simp
qed

lemma base64_roundtrip: "good_alphabet alphabet \<Longrightarrow> DecodeString alphabet strict (base64 alphabet False v) = Some v"
proof -
  assume a: "good_alphabet alphabet"
  have "None \<notin> set (map Some (sextets_of v))" "map the (map Some (sextets_of v)) = sextets_of v" by (auto simp: comp_def)
  then show ?thesis unfolding DecodeString_def encoded_digits [OF a] Let_def by (simp add: decode_sextets_of del: map_map)
qed

lemma RawURL_roundtrip [simp]: "DecodeString URLAlphabet strict (RawURLEncode v) = Some v"
  and RawStd_roundtrip [simp]: "DecodeString StdAlphabet strict (RawStdEncode v) = Some v"
  by (simp_all add: RawURLEncode_def RawStdEncode_def base64_roundtrip)

lemma RawURLEncode_inject [simp]: "RawURLEncode a = RawURLEncode b \<longleftrightarrow> a = b"
  by (metis RawURL_roundtrip option.inject)

lemma sextets_length: "length (sextets_of v) = (4 * length v + 2) div 3"
  by (induction v rule: sextets_of.induct) auto

lemma RawURLEncode_length: "length (RawURLEncode v) = (4 * length v + 2) div 3"
  and RawStdEncode_length: "length (RawStdEncode v) = (4 * length v + 2) div 3"
  by (simp_all add: RawURLEncode_def RawStdEncode_def base64_sextets sextets_length)

lemma RawURLEncode_32: "length v = 32 \<Longrightarrow> length (RawURLEncode v) = 43"
  by (simp add: RawURLEncode_length)

text \<open>A strict decoder accepts one text for each value, line ends apart.\<close>

lemma group_24:
  fixes a b c d :: nat
  assumes "b < 64" "c < 64" "d < 64"
  shows "(a * 4 + b div 16) div 4 = a" "(a * 4 + b div 16) mod 4 = b div 16"
    "(b mod 16 * 16 + c div 4) div 16 = b mod 16" "(b mod 16 * 16 + c div 4) mod 16 = c div 4"
    "(c mod 4 * 64 + d) div 64 = c mod 4" "(c mod 4 * 64 + d) mod 64 = d"
proof -
  have "b div 16 < 4" "c div 4 < 16" using assms by (auto intro: less_mult_imp_div_less)
  then show "(a * 4 + b div 16) div 4 = a" "(a * 4 + b div 16) mod 4 = b div 16"
    "(b mod 16 * 16 + c div 4) div 16 = b mod 16" "(b mod 16 * 16 + c div 4) mod 16 = c div 4"
    "(c mod 4 * 64 + d) div 64 = c mod 4" "(c mod 4 * 64 + d) mod 64 = d" using assms(3) by simp_all
qed

lemma group_bytes:
  fixes a b c d :: nat
  assumes "a < 64" "b < 64" "c < 64" "d < 64"
  shows "byte (char_of (a * 4 + b div 16)) = a * 4 + b div 16" "byte (char_of (b mod 16 * 16 + c div 4)) = b mod 16 * 16 + c div 4"
    "byte (char_of (c mod 4 * 64 + d)) = c mod 4 * 64 + d"
proof -
  have "b div 16 < 4" "c div 4 < 16" "b mod 16 < 16" "c mod 4 < 4" using assms by (auto intro: less_mult_imp_div_less)
  then have "a * 4 + b div 16 < 256" "b mod 16 * 16 + c div 4 < 256" "c mod 4 * 64 + d < 256" using assms by linarith+
  then show "byte (char_of (a * 4 + b div 16)) = a * 4 + b div 16" "byte (char_of (b mod 16 * 16 + c div 4)) = b mod 16 * 16 + c div 4"
    "byte (char_of (c mod 4 * 64 + d)) = c mod 4 * 64 + d" by simp_all
qed

lemma strict_sextets:
  "decode_sextets strict ds = Some v \<Longrightarrow> strict \<Longrightarrow> list_all (\<lambda>n. n < 64) ds \<Longrightarrow> sextets_of v = ds"
proof (induction strict ds arbitrary: v rule: decode_sextets.induct)
  case (3 strict a b)
  then have v: "v = [char_of (a * 4 + b div 16)]" "b mod 16 = 0" "a < 64" "b < 64" by (auto split: if_splits)
  then show ?case using group_24(1,2) [of b 0 0 a] group_bytes(1) [of a b 0 0] mult_div_mod_eq [of 16 b]
    by (simp del: mult_div_mod_eq)
next
  case (4 strict a b c)
  then have v: "v = [char_of (a * 4 + b div 16), char_of (b mod 16 * 16 + c div 4)]" "c mod 4 = 0" "a < 64" "b < 64" "c < 64"
    by (auto split: if_splits)
  then show ?case
    using group_24(1,2) [of b c 0 a] group_24(3,4) [of b c 0] group_bytes(1,2) [of a b c 0] mult_div_mod_eq [of 16 b] mult_div_mod_eq [of 4 c]
    by (simp del: mult_div_mod_eq)
next
  case (5 strict a b c d rest)
  then obtain t where t: "decode_sextets strict rest = Some t"
    "v = [char_of (a * 4 + b div 16), char_of (b mod 16 * 16 + c div 4), char_of (c mod 4 * 64 + d)] @ t"
    and lt: "a < 64" "b < 64" "c < 64" "d < 64" by auto
  have "sextets_of t = rest" using 5 t(1) by simp
  then show ?case
    unfolding t(2) using group_24(1,2) [of b c d a] group_24(3-6) [of b c d] group_bytes [of a b c d] lt mult_div_mod_eq [of 16 b] mult_div_mod_eq [of 4 c]
    by (simp del: mult_div_mod_eq)
qed auto

lemma strict_canonical:
  assumes "good_alphabet alphabet" "DecodeString alphabet True v = Some w" "CHR 0x0A \<notin> set v" "CHR 0x0D \<notin> set v"
  shows "base64 alphabet False w = v"
proof -
  let ?ds = "map the (map (sextet alphabet) v)"
  have f: "filter (\<lambda>c. c \<noteq> CHR 0x0A \<and> c \<noteq> CHR 0x0D) v = v" using assms(3,4) by (auto simp: filter_id_conv)
  then have some: "None \<notin> set (map (sextet alphabet) v)" "decode_sextets True ?ds = Some w"
    using assms(2) by (auto simp: DecodeString_def Let_def split: if_splits)
  have digit: "the (sextet alphabet c) < 64 \<and> alphabet ! the (sextet alphabet c) = c" if "c \<in> set v" for c
    using some(1) that sextet_Some [OF assms(1)] by (cases "sextet alphabet c") (auto simp: image_iff)
  then have "sextets_of w = ?ds" using strict_sextets [OF some(2)] by (auto simp: list_all_iff)
  then show ?thesis using digit by (simp add: base64_sextets map_idI)
qed

end
