(* ===== verification/Token_Encoding.thy ===== *)
theory Token_Encoding
  imports Go_Base64
begin

text \<open>
  Review tokens: the length-prefixed encoding that the operation service
  (\<open>internal/operation/service.go\<close>) and the configuration service (\<open>internal/configuration/token.go\<close>)
  feed to a keyed hash.  The hash
  (\<open>hmac.New(sha256.New, key)\<close>) is an argument \<open>mac key message\<close> of every definition that uses it.
\<close>

subsection \<open>Writing\<close>

definition PutUint64 :: "nat \<Rightarrow> bytes" where
  "PutUint64 n = map (\<lambda>i. char_of (n div 256 ^ (7 - i) mod 256)) [0..<8]"

definition writeTokenBytes :: "bytes \<Rightarrow> bytes" where
  "writeTokenBytes v = PutUint64 (length v) @ v"

definition writeTokenText :: "bytes \<Rightarrow> bytes" where
  "writeTokenText v = writeTokenBytes v"

definition writeTokenInteger :: "nat \<Rightarrow> bytes" where
  "writeTokenInteger n = writeTokenBytes (PutUint64 n)"

text \<open>A list is written as its length and its elements.\<close>

definition write_list :: "('a \<Rightarrow> bytes) \<Rightarrow> 'a list \<Rightarrow> bytes" where
  "write_list f xs = writeTokenInteger (length xs) @ concat (map f xs)"

definition uint64 :: "nat \<Rightarrow> bool" where
  "uint64 n \<longleftrightarrow> n < 18446744073709551616"

subsection \<open>Self-delimiting codes\<close>

text \<open>A writer whose output determines what it wrote and where it ends: of two encodings with any
  continuation, \<open>seen\<close> is what equal texts agree on.\<close>

locale token_code =
  fixes write_one :: "'a \<Rightarrow> bytes" and sized :: "'a \<Rightarrow> bool" and seen :: "'a \<Rightarrow> 'b"
  assumes unique: "sized x \<Longrightarrow> sized y \<Longrightarrow> write_one x @ r = write_one y @ s \<Longrightarrow> seen x = seen y \<and> r = s"
begin

lemma elements_unique:
  "list_all sized xs \<Longrightarrow> list_all sized ys \<Longrightarrow> length xs = length ys \<Longrightarrow>
   concat (map write_one xs) @ r = concat (map write_one ys) @ s \<Longrightarrow> map seen xs = map seen ys \<and> r = s"
proof (induction xs arbitrary: ys)
  case (Cons x xs)
  then obtain y ys' where ys: "ys = y # ys'" by (cases ys) auto
  with Cons.prems have "sized x" "sized y"
    "write_one x @ (concat (map write_one xs) @ r) = write_one y @ (concat (map write_one ys') @ s)" by simp_all
  from unique [OF this] Cons.IH [of ys'] Cons.prems ys show ?case by simp
qed simp

end

lemma digits256:
  fixes m n :: nat
  assumes "\<And>i. i < k \<Longrightarrow> m div 256 ^ i mod 256 = n div 256 ^ i mod 256"
  shows "m mod 256 ^ k = n mod 256 ^ k"
  using assms
proof (induction k)
  case (Suc k)
  have "x mod 256 ^ Suc k = 256 ^ k * (x div 256 ^ k mod 256) + x mod 256 ^ k" for x :: nat
    by (simp add: mod_mult2_eq mult.commute [of 256])
  moreover have "m mod 256 ^ k = n mod 256 ^ k" "m div 256 ^ k mod 256 = n div 256 ^ k mod 256" using Suc by simp_all
  ultimately show ?case by simp
qed simp

lemma PutUint64_length [simp]: "length (PutUint64 n) = 8"
  by (simp add: PutUint64_def)

lemma PutUint64_nth: "i < 8 \<Longrightarrow> PutUint64 n ! (7 - i) = char_of (n div 256 ^ i mod 256)"
  unfolding PutUint64_def by (subst nth_map) (auto simp: nth_upt diff_diff_cancel simp del: upt_Suc)

lemma PutUint64_inject:
  assumes "uint64 m" "uint64 n" "PutUint64 m = PutUint64 n"
  shows "m = n"
proof -
  have "m div 256 ^ i mod 256 = n div 256 ^ i mod 256" if "i < 8" for i
  proof -
    have "PutUint64 m ! (7 - i) = PutUint64 n ! (7 - i)" using assms(3) by simp
    then have "byte (char_of (m div 256 ^ i mod 256)) = byte (char_of (n div 256 ^ i mod 256))"
      using that by (simp add: PutUint64_nth [OF that])
    then show ?thesis by (simp add: byte_char_of del: byte_inject)
  qed
  then have "m mod 256 ^ 8 = n mod 256 ^ 8" by (rule digits256)
  then show ?thesis using assms(1,2) by (simp add: uint64_def)
qed

interpretation token_bytes: token_code writeTokenBytes "\<lambda>v. uint64 (length v)" "\<lambda>v. v"
proof
  fix x y r s assume "uint64 (length x)" "uint64 (length y)" and e: "writeTokenBytes x @ r = writeTokenBytes y @ s"
  then have p: "PutUint64 (length x) = PutUint64 (length y)" "x @ r = y @ s" by (simp_all add: writeTokenBytes_def)
  then have "length x = length y" using PutUint64_inject \<open>uint64 (length x)\<close> \<open>uint64 (length y)\<close> by blast
  with p(2) show "x = y \<and> r = s" by simp
qed

lemma uint64_8 [simp]: "uint64 8"
  by (simp add: uint64_def)

interpretation token_text: token_code writeTokenText "\<lambda>v. uint64 (length v)" "\<lambda>v. v"
  by unfold_locales (metis token_bytes.unique writeTokenText_def)

interpretation token_integer: token_code writeTokenInteger uint64 "\<lambda>n. n"
proof
  fix x y r s assume "uint64 x" "uint64 y" "writeTokenInteger x @ r = writeTokenInteger y @ s"
  then show "x = y \<and> r = s"
    using token_bytes.unique [of "PutUint64 x" "PutUint64 y" r s] PutUint64_inject by (auto simp: writeTokenInteger_def)
qed

context token_code
begin

lemma list_unique:
  assumes "uint64 (length xs)" "uint64 (length ys)" "list_all sized xs" "list_all sized ys"
    and "write_list write_one xs @ r = write_list write_one ys @ s"
  shows "map seen xs = map seen ys \<and> r = s"
proof -
  from assms(5) have "writeTokenInteger (length xs) @ (concat (map write_one xs) @ r)
      = writeTokenInteger (length ys) @ (concat (map write_one ys) @ s)" by (simp add: write_list_def)
  from token_integer.unique [OF assms(1,2) this] elements_unique [OF assms(3,4)] show ?thesis by blast
qed

end

text \<open>Lists of texts, in the form the components use.\<close>

definition sized_texts :: "bytes list \<Rightarrow> bool" where
  "sized_texts xs \<longleftrightarrow> uint64 (length xs) \<and> list_all (\<lambda>v. uint64 (length v)) xs"

interpretation token_texts: token_code "write_list writeTokenText" sized_texts "\<lambda>xs. xs"
  by unfold_locales (use token_text.list_unique in \<open>auto simp: sized_texts_def\<close>)

text \<open>The same as rewrite rules: equal messages are compared field by field.\<close>

lemma token_fields:
  "uint64 (length a) \<Longrightarrow> uint64 (length b) \<Longrightarrow> writeTokenText a @ u = writeTokenText b @ v \<longleftrightarrow> a = b \<and> u = v"
  "uint64 (length a) \<Longrightarrow> uint64 (length b) \<Longrightarrow> writeTokenBytes a @ u = writeTokenBytes b @ v \<longleftrightarrow> a = b \<and> u = v"
  "uint64 m \<Longrightarrow> uint64 n \<Longrightarrow> writeTokenInteger m @ u = writeTokenInteger n @ v \<longleftrightarrow> m = n \<and> u = v"
  "sized_texts xs \<Longrightarrow> sized_texts ys \<Longrightarrow> write_list writeTokenText xs @ u = write_list writeTokenText ys @ v \<longleftrightarrow> xs = ys \<and> u = v"
  using token_text.unique [of a b u v] token_bytes.unique [of a b u v] token_integer.unique [of m n u v] token_texts.unique [of xs ys u v]
  by blast+

end
