(* ===== verification/Operation_Text.thy ===== *)
theory Operation_Text
  imports Go_UTF8 Go_Time
begin

text \<open>
  What the operation executor uses of Go's text and time packages when it reads the upstream log:
  \<open>strings.Fields\<close>, \<open>strings.HasPrefix\<close>, the acceptance of \<open>time.Parse(time.RFC3339Nano, _)\<close> and of
  \<open>time.ParseDuration\<close>.
\<close>

definition IsSpace :: "nat \<Rightarrow> bool" where
  "IsSpace r \<longleftrightarrow> r \<in> {9, 10, 11, 12, 13, 32, 133, 160, 5760, 8232, 8233, 8239, 8287, 12288} \<or> (8192 \<le> r \<and> r \<le> 8202)"

fun fields_of :: "(nat \<times> nat) list \<Rightarrow> bytes \<Rightarrow> bytes \<Rightarrow> bytes list" where
  "fields_of [] src current = (if current = [] then [] else [current])"
| "fields_of ((r, n) # rs) src current =
     (if IsSpace r then (if current = [] then [] else [current]) @ fields_of rs (drop n src) []
      else fields_of rs (drop n src) (current @ take n src))"

definition text_Fields :: "bytes \<Rightarrow> bytes list" where
  "text_Fields s = fields_of (runes s) s []"

text \<open>\<open>strings.TrimSpace\<close> on valid UTF-8: the runes with their bytes, less the spaces at both ends.\<close>

fun rune_chunks :: "(nat \<times> nat) list \<Rightarrow> bytes \<Rightarrow> (nat \<times> bytes) list" where
  "rune_chunks [] src = []"
| "rune_chunks ((r, n) # rs) src = (r, take n src) # rune_chunks rs (drop n src)"

definition TrimSpace :: "bytes \<Rightarrow> bytes" where
  "TrimSpace s =
     concat (map snd (rev (dropWhile (IsSpace \<circ> fst) (rev (dropWhile (IsSpace \<circ> fst) (rune_chunks (runes s) s))))))"

definition HasPrefix :: "bytes \<Rightarrow> bytes \<Rightarrow> bool" where
  "HasPrefix s p \<longleftrightarrow> take (length p) s = p"

definition TrimPrefix :: "bytes \<Rightarrow> bytes \<Rightarrow> bytes" where
  "TrimPrefix s p = (if HasPrefix s p then drop (length p) s else s)"

definition HasSuffix :: "bytes \<Rightarrow> bytes \<Rightarrow> bool" where
  "HasSuffix s p \<longleftrightarrow> length p \<le> length s \<and> drop (length s - length p) s = p"

subsection \<open>Timestamps\<close>

text \<open>\<open>getnum\<close>: one or two digits, exactly two when \<open>fixed\<close>.\<close>

definition getnum :: "bool \<Rightarrow> bytes \<Rightarrow> (nat \<times> bytes) option" where
  "getnum fixed s =
     (case s of
        [] \<Rightarrow> None
      | a # rest \<Rightarrow>
          if \<not> is_digit a then None
          else (case rest of
                  b # rest' \<Rightarrow> if is_digit b then Some ((byte a - 48) * 10 + (byte b - 48), rest')
                              else if fixed then None else Some (byte a - 48, rest)
                | [] \<Rightarrow> if fixed then None else Some (byte a - 48, rest)))"

definition literal :: "char \<Rightarrow> bytes \<Rightarrow> bytes option" where
  "literal c s = (case s of x # rest \<Rightarrow> if x = c then Some rest else None | [] \<Rightarrow> None)"

definition days_in :: "nat \<Rightarrow> nat \<Rightarrow> nat" where
  "days_in month year =
     (if month = 2 then (if year mod 4 = 0 \<and> (year mod 100 \<noteq> 0 \<or> year mod 400 = 0) then 29 else 28)
      else if month \<in> {4, 6, 9, 11} then 30 else 31)"

definition skip_fraction :: "bytes \<Rightarrow> bytes" where
  "skip_fraction s =
     (case s of
        p # d # rest \<Rightarrow> if (p = CHR ''.'' \<or> p = CHR '','') \<and> is_digit d then dropWhile is_digit (tl s) else s
      | _ \<Rightarrow> s)"

definition zone_accepts :: "bytes \<Rightarrow> bool" where
  "zone_accepts s =
     (case s of
        [] \<Rightarrow> False
      | c # rest \<Rightarrow>
          if c = CHR ''Z'' then rest = []
          else length s = 6 \<and> s ! 3 = CHR '':'' \<and> (c = CHR ''+'' \<or> c = CHR ''-'')
               \<and> (case (getnum True (take 2 rest), getnum True (drop 3 rest)) of
                    (Some (h, _), Some (m, _)) \<Rightarrow> h \<le> 24 \<and> m \<le> 60
                  | _ \<Rightarrow> False))"

definition time_of_day_accepts :: "bytes \<Rightarrow> bool" where
  "time_of_day_accepts s =
     (case getnum False s of None \<Rightarrow> False | Some (h, s1) \<Rightarrow>
     (case literal (CHR '':'') s1 of None \<Rightarrow> False | Some s2 \<Rightarrow>
     (case getnum True s2 of None \<Rightarrow> False | Some (m, s3) \<Rightarrow>
     (case literal (CHR '':'') s3 of None \<Rightarrow> False | Some s4 \<Rightarrow>
     (case getnum True s4 of None \<Rightarrow> False | Some (sec, s5) \<Rightarrow>
        h < 24 \<and> m < 60 \<and> sec < 60 \<and> zone_accepts (skip_fraction s5))))))"

definition rfc3339nano_accepts :: "bytes \<Rightarrow> bool" where
  "rfc3339nano_accepts s \<longleftrightarrow>
     length s \<ge> 4 \<and> list_all is_digit (take 4 s) \<and>
     (case literal (CHR ''-'') (drop 4 s) of None \<Rightarrow> False | Some s1 \<Rightarrow>
     (case getnum True s1 of None \<Rightarrow> False | Some (month, s2) \<Rightarrow>
     (case literal (CHR ''-'') s2 of None \<Rightarrow> False | Some s3 \<Rightarrow>
     (case getnum True s3 of None \<Rightarrow> False | Some (day, s4) \<Rightarrow>
     (case literal (CHR ''T'') s4 of None \<Rightarrow> False | Some s5 \<Rightarrow>
        1 \<le> month \<and> month \<le> 12 \<and> 1 \<le> day
        \<and> day \<le> days_in month (foldl (\<lambda>n c. 10 * n + (byte c - 48)) 0 (take 4 s))
        \<and> time_of_day_accepts s5)))))"

subsection \<open>Durations\<close>

text \<open>\<open>leadingInt\<close>, whose value must stay within \<open>1 << 63\<close>, and \<open>leadingFraction\<close>, which stops counting
  at that bound.  The fraction's contribution is computed exactly.\<close>

fun leadingInt :: "nat \<Rightarrow> bytes \<Rightarrow> (nat \<times> bytes) option" where
  "leadingInt x [] = Some (x, [])"
| "leadingInt x (c # s) =
     (if \<not> is_digit c then Some (x, c # s)
      else if x > 922337203685477580 then None
      else let y = 10 * x + (byte c - 48) in if y > 9223372036854775808 then None else leadingInt y s)"

fun leadingFraction :: "nat \<Rightarrow> nat \<Rightarrow> bool \<Rightarrow> bytes \<Rightarrow> nat \<times> nat \<times> bytes" where
  "leadingFraction x scale over [] = (x, scale, [])"
| "leadingFraction x scale over (c # s) =
     (if \<not> is_digit c then (x, scale, c # s)
      else if over \<or> x > 922337203685477580 then leadingFraction x scale True s
      else let y = 10 * x + (byte c - 48)
           in if y > 9223372036854775808 then leadingFraction x scale True s
              else leadingFraction y (10 * scale) False s)"

definition unit_ns :: "bytes \<Rightarrow> nat option" where
  "unit_ns u =
     (if u = ''ns'' then Some 1
      else if u = ''us'' \<or> u = EncodeRune 181 @ ''s'' \<or> u = EncodeRune 956 @ ''s'' then Some 1000
      else if u = ''ms'' then Some 1000000
      else if u = ''s'' then Some 1000000000
      else if u = ''m'' then Some 60000000000
      else if u = ''h'' then Some 3600000000000
      else None)"

definition number_char :: "char \<Rightarrow> bool" where
  "number_char c \<longleftrightarrow> c = CHR ''.'' \<or> is_digit c"

text \<open>One number with its unit: its nanoseconds and the rest of the text.\<close>

definition duration_element :: "bytes \<Rightarrow> (nat \<times> bytes) option" where
  "duration_element s =
     (if s = [] \<or> \<not> number_char (hd s) then None
      else (case leadingInt 0 s of None \<Rightarrow> None | Some (v, s1) \<Rightarrow>
        let pre = (length s1 \<noteq> length s);
            dotted = (s1 \<noteq> [] \<and> hd s1 = CHR ''.'');
            (f, scale, s2) = (if dotted then leadingFraction 0 1 False (tl s1) else (0, 1, s1));
            post = (dotted \<and> length s2 \<noteq> length (tl s1));
            u = takeWhile (\<lambda>c. \<not> number_char c) s2
        in if \<not> pre \<and> \<not> post then None
           else if u = [] then None
           else (case unit_ns u of None \<Rightarrow> None | Some unit \<Rightarrow>
                   if v > 9223372036854775808 div unit then None
                   else let total = v * unit + f * unit div scale
                        in if total > 9223372036854775808 then None else Some (total, drop (length u) s2))))"

fun duration_elements :: "nat \<Rightarrow> nat \<Rightarrow> bytes \<Rightarrow> nat option" where
  "duration_elements 0 d s = None"
| "duration_elements (Suc k) d s =
     (if s = [] then Some d
      else (case duration_element s of
              None \<Rightarrow> None
            | Some (v, rest) \<Rightarrow> if d + v > 9223372036854775808 then None else duration_elements k (d + v) rest))"

definition ParseDuration_accepts :: "bytes \<Rightarrow> bool" where
  "ParseDuration_accepts s =
     (let neg = (s \<noteq> [] \<and> hd s = CHR ''-'');
          t = (if s \<noteq> [] \<and> (hd s = CHR ''-'' \<or> hd s = CHR ''+'') then tl s else s)
      in if t = ''0'' then True
         else if t = [] then False
         else (case duration_elements (Suc (length t)) 0 t of
                 None \<Rightarrow> False
               | Some d \<Rightarrow> neg \<or> d \<le> 9223372036854775807))"

text \<open>Every element consumes at least one byte, so the fuel suffices.\<close>

lemma leadingInt_length: "leadingInt x s = Some (v, rest) \<Longrightarrow> length rest \<le> length s"
  by (induction x s rule: leadingInt.induct) (auto simp: Let_def split: if_splits)

lemma leadingFraction_length: "leadingFraction x sc ov s = (f, sc', rest) \<Longrightarrow> length rest \<le> length s"
proof (induction s arbitrary: x sc ov)
  case (Cons c s)
  show ?case
    using Cons.prems Cons.IH [of x sc True] Cons.IH [of "10 * x + (byte c - 48)" "10 * sc" False]
    by (auto simp: Let_def split: if_splits)
qed simp

lemma duration_element_length:
  assumes "duration_element s = Some (v, rest)"
  shows "length rest < length s"
proof -
  obtain n s1 where i: "leadingInt 0 s = Some (n, s1)"
    using assms by (auto simp: duration_element_def split: if_splits option.splits)
  define dotted where "dotted = (s1 \<noteq> [] \<and> hd s1 = CHR ''.'')"
  obtain f sc s2 where f: "(if dotted then leadingFraction 0 1 False (tl s1) else (0, 1, s1)) = (f, sc, s2)"
    by (metis prod.exhaust)
  let ?u = "takeWhile (\<lambda>c. \<not> number_char c) s2"
  have "?u \<noteq> []" "rest = drop (length ?u) s2"
    using assms i f unfolding duration_element_def dotted_def
    by (auto simp: Let_def split: if_splits option.splits prod.splits)
  moreover have "length ?u \<le> length s2" by (rule length_takeWhile_le)
  ultimately have "length rest < length s2" by (metis diff_less length_0_conv length_drop neq0_conv not_less_iff_gr_or_eq order_less_le_trans)
  moreover have "length s2 \<le> length s1"
    using f leadingFraction_length [of 0 1 False "tl s1" f sc s2] by (auto split: if_splits)
  ultimately show ?thesis using leadingInt_length [OF i] by simp
qed

lemma duration_fuel: "length s < k \<Longrightarrow> duration_elements (k + j) d s = duration_elements k d s"
proof (induction k arbitrary: d s)
  case (Suc k)
  show ?case
  proof (cases "duration_element s")
    case (Some p)
    obtain v rest where p: "p = (v, rest)" by fastforce
    then have "length rest < k" using duration_element_length Some Suc.prems by fastforce
    then show ?thesis using Some p Suc.IH by simp
  qed simp
qed simp

end
