(* ===== verification/Operation_Executor.thy ===== *)
theory Operation_Executor
  imports Operation_Text Broker Jobs_Worker
begin

text \<open>
  The native operation executor (\<open>internal/operation/executor.go\<close>): it takes the workspace lease,
  re-derives the reviewed plan, checks the inventory before and after, runs the broker at most
  once, and classifies the evidence into a job result.  The interfaces the executor is built on
  (coordinator, configuration, workspace selection and inspection, runtime preparation, broker,
  inventory reader) answer through a record indexed by the moment of the call; an error is the set
  of sentinels \<open>errors.Is\<close> finds in it.  The run is a tree over the answers to the phase reports whose
  leaves carry the result and the resources acquired and released on the way.
\<close>

subsection \<open>Data\<close>

datatype sentinel =
    WorkspaceErrWorkspaceBusy | WorkspaceErrRecoveryRequired | WorkspaceErrNoSelection | WorkspaceErrSourceChanged
  | ConfigurationErrRuntimeChanged | ConfigurationErrChanged | ConfigurationErrInvalid | ConfigurationErrBusy

record FileMetadata =
  fm_Device :: nat
  fm_Inode :: nat
  fm_Mode :: nat
  fm_UID :: nat
  fm_GID :: nat
  fm_LinkCount :: nat
  fm_Size :: int
  fm_ModifiedAt :: gotime
  fm_ChangedAt :: gotime

record Certificate =
  crt_Name :: bytes
  crt_DNSNames :: "bytes list"
  crt_Issuer :: bytes
  crt_ExpiresAt :: gotime
  crt_NativePath :: bytes
  crt_Artifact :: FileMetadata

record ExecutionCertificate =
  ec_Name :: bytes
  ec_Domains :: "bytes list"
  ec_Account :: bytes
  ec_CA :: bytes
  ec_ChallengeName :: bytes
  ec_ChallengeKind :: bytes
  ec_ChallengeMode :: bytes

record ExecutionCloudAccess =
  ca_ChallengeName :: bytes
  ca_Provider :: bytes
  ca_AuthMode :: bytes
  ca_Files :: "bytes list"
  ca_Helper :: bytes
  ca_Metadata :: bytes

record ExecutionIntent =
  in_WorkingDirectory :: bytes
  in_ConfigurationPath :: bytes
  in_StoragePath :: bytes
  in_RuntimeIdentity :: bytes
  in_RuntimeManifestID :: bytes
  in_Certificates :: "ExecutionCertificate list"
  in_CloudAccess :: "ExecutionCloudAccess list"

record ExecutionPlan =
  pl_Intent :: ExecutionIntent
  pl_Revision :: bytes
  pl_ReviewedEvidenceSHA256 :: bytes
  pl_ObservedSecrets :: "bytes list"
  pl_Environment :: "Variable list"

text \<open>Of a workspace review the executor reads the storage path; the other evidence stays opaque.\<close>

record Review =
  rv_StoragePath :: bytes
  rv_Evidence :: bytes

record execution_world =
  ew_TryAcquire :: "nat \<Rightarrow> sentinel set option"
  ew_Acquire :: "nat \<Rightarrow> sentinel set option"
  ew_PrepareExecution :: "nat \<Rightarrow> (sentinel set, ExecutionPlan) result"
  ew_Load :: "nat \<Rightarrow> Review option"
  ew_Verify :: "nat \<Rightarrow> Review \<Rightarrow> Review option"
  ew_prepareRuntime :: "nat \<Rightarrow> bool"
  ew_Run :: "nat \<Rightarrow> BrokerRequest \<Rightarrow> BrokerResult \<times> bytes option"
  ew_Read :: "nat \<Rightarrow> bytes \<Rightarrow> (bytes, Certificate list) result"

datatype resource_event =
    LeaseAcquired | LeaseReleased | PlanOpened nat | PlanClosed nat
  | RuntimePrepared nat | RuntimeClosed nat | RuntimeRead nat | RuntimeRun nat

datatype execution_tree =
    EDone Result "resource_event list"
  | EReport Phase "jobs_error option \<Rightarrow> execution_tree"

subsection \<open>Inventory\<close>

definition unavailableInventory :: "bytes \<Rightarrow> InventoryResult" where
  "unavailableInventory code = \<lparr>inv_State = InventoryUnavailable, inv_Code = code, inv_CertificateCount = None\<rparr>"

definition inventory_failure_code :: "bytes \<Rightarrow> bytes" where
  "inventory_failure_code code =
     (if code = [] \<or> length code > 54 then ''inventory_unavailable'' else ''inventory_'' @ code)"

text \<open>\<open>refreshInventory\<close> at moment \<open>m\<close>; the runtime handle it prepares is consumed by the reader.\<close>

definition refreshInventory ::
  "execution_world \<Rightarrow> nat \<Rightarrow> bytes \<Rightarrow> Certificate list \<times> InventoryResult \<times> resource_event list" where
  "refreshInventory w m storagePath =
     (case ew_Load w m of
        None \<Rightarrow> ([], unavailableInventory ''workspace_selection_unavailable'', [])
      | Some selection \<Rightarrow>
     (case ew_Verify w (m + 1) selection of
        None \<Rightarrow> ([], unavailableInventory ''workspace_changed'', [])
      | Some current \<Rightarrow>
        if storagePath \<noteq> [] \<and> rv_StoragePath current \<noteq> storagePath
        then ([], unavailableInventory ''workspace_changed'', [])
        else if \<not> ew_prepareRuntime w (m + 2) then ([], unavailableInventory ''runtime_incompatible'', [])
        else
     (case ew_Read w (m + 3) (if storagePath = [] then rv_StoragePath current else storagePath) of
        Inl code \<Rightarrow> ([], unavailableInventory (inventory_failure_code code), [RuntimePrepared (m + 2), RuntimeRead (m + 2)])
      | Inr certificates \<Rightarrow>
          if ew_Verify w (m + 4) current = None
          then ([], unavailableInventory ''workspace_changed'', [RuntimePrepared (m + 2), RuntimeRead (m + 2)])
          else (certificates, \<lparr>inv_State = InventoryRefreshed, inv_Code = ''inventory_refreshed'',
                               inv_CertificateCount = Some (int (length certificates))\<rparr>,
                [RuntimePrepared (m + 2), RuntimeRead (m + 2)]))))"

subsection \<open>Codes and items\<close>

definition executionPreparationCode :: "sentinel set \<Rightarrow> bytes" where
  "executionPreparationCode err =
     (if ConfigurationErrRuntimeChanged \<in> err then ''runtime_incompatible''
      else if WorkspaceErrRecoveryRequired \<in> err then ''recovery_required''
      else if WorkspaceErrNoSelection \<in> err then ''workspace_unselected''
      else if WorkspaceErrSourceChanged \<in> err \<or> ConfigurationErrChanged \<in> err then ''workspace_changed''
      else if ConfigurationErrInvalid \<in> err then ''configuration_incompatible''
      else ''preflight_unavailable'')"

definition acquire_code :: "sentinel set \<Rightarrow> bytes" where
  "acquire_code err = (if WorkspaceErrWorkspaceBusy \<in> err then ''workspace_busy'' else ''workspace_unavailable'')"

definition requestedCertificates :: "Request \<Rightarrow> ExecutionCertificate list" where
  "requestedCertificates q =
     map (\<lambda>name. \<lparr>ec_Name = name, ec_Domains = [], ec_Account = [], ec_CA = [], ec_ChallengeName = [],
                 ec_ChallengeKind = [], ec_ChallengeMode = []\<rparr>) (req_Items q)"

definition itemResults :: "ExecutionCertificate list \<Rightarrow> ItemState \<Rightarrow> bytes \<Rightarrow> ItemResult list" where
  "itemResults certificates state code = map (\<lambda>c. \<lparr>it_Name = ec_Name c, it_State = state, it_Code = code\<rparr>) certificates"

definition brokerFailureCode :: "bytes \<Rightarrow> bytes" where
  "brokerFailureCode code = (if code = [] then ''broker_unavailable'' else ''broker_'' @ code)"

definition sameCertificate :: "Certificate \<Rightarrow> Certificate \<Rightarrow> bool" where
  "sameCertificate l r \<longleftrightarrow> crt_Name l = crt_Name r \<and> crt_DNSNames l = crt_DNSNames r \<and> crt_Issuer l = crt_Issuer r
     \<and> t_ns (crt_ExpiresAt l) = t_ns (crt_ExpiresAt r) \<and> crt_NativePath l = crt_NativePath r
     \<and> crt_Artifact l = crt_Artifact r"

definition changedCertificateNames :: "Certificate list \<Rightarrow> Certificate list \<Rightarrow> bytes set" where
  "changedCertificateNames before after =
     (let previous = map_of (rev (map (\<lambda>c. (crt_Name c, c)) before))
      in crt_Name ` {c \<in> set after. case previous (crt_Name c) of None \<Rightarrow> True | Some prior \<Rightarrow> \<not> sameCertificate prior c})"

subsection \<open>Output and log evidence\<close>

fun trim_valid :: "nat \<Rightarrow> bytes \<Rightarrow> bytes" where
  "trim_valid 0 v = v"
| "trim_valid (Suc k) v = (if ValidString v then v else trim_valid k (butlast v))"

definition maximumPersistedOutput :: nat where
  "maximumPersistedOutput = 262144"

definition joined_output :: "BrokerResult \<Rightarrow> bytes" where
  "joined_output r =
     (let out = (if br_Stdout r \<noteq> [] then ''[stdout]'' @ [CHR 0x0A] @ br_Stdout r else []);
          sep = (if out \<noteq> [] \<and> \<not> HasSuffix out [CHR 0x0A] then [CHR 0x0A] else [])
      in if br_Stderr r \<noteq> [] then out @ sep @ ''[stderr]'' @ [CHR 0x0A] @ br_Stderr r else out)"

definition operationOutput :: "BrokerResult \<Rightarrow> bytes \<times> bool" where
  "operationOutput r =
     (if br_OutputDiscarded r then ([], True)
      else (let v = joined_output r
            in if length v \<le> maximumPersistedOutput then (v, False)
               else (trim_valid maximumPersistedOutput (take maximumPersistedOutput v), True)))"

definition parseRenewalAttempt :: "bytes \<Rightarrow> bytes option" where
  "parseRenewalAttempt line =
     (case text_Fields line of
        [f0, f1, f2, f3, f4, f5] \<Rightarrow>
          if f1 = ''INF'' \<and> f2 = ''Trying'' \<and> f3 = ''renewal.'' \<and> HasPrefix f4 ''cert-name='' \<and> HasPrefix f5 ''time-remaining=''
             \<and> rfc3339nano_accepts f0 \<and> ParseDuration_accepts (TrimPrefix f5 ''time-remaining='')
             \<and> TrimPrefix f4 ''cert-name='' \<noteq> []
          then Some (TrimPrefix f4 ''cert-name='') else None
      | _ \<Rightarrow> None)"

definition failedRenewalCertificate ::
  "BrokerResult \<Rightarrow> ExecutionCertificate list \<Rightarrow> bytes set \<Rightarrow> InventoryResult \<Rightarrow> bytes" where
  "failedRenewalCertificate r certificates changed inventory =
     (if br_Outcome r \<noteq> OutcomeFailed \<or> br_OutputDiscarded r \<or> inv_State inventory \<noteq> InventoryRefreshed then []
      else (let known = set (map ec_Name certificates) - changed
            in fold (\<lambda>line failed. case parseRenewalAttempt line of
                        Some name \<Rightarrow> if name \<in> known then name else failed
                      | None \<Rightarrow> failed)
                 (split_at (CHR 0x0A) (br_Stdout r @ [CHR 0x0A] @ br_Stderr r)) []))"

subsection \<open>Classification\<close>

definition mark_unfinished :: "bytes \<Rightarrow> ItemResult list \<Rightarrow> ItemResult list" where
  "mark_unfinished code items =
     map (\<lambda>i. if it_State i \<noteq> ItemCompleted then i\<lparr>it_State := ItemAmbiguous, it_Code := code\<rparr> else i) items"

definition classify_item :: "BrokerResult \<Rightarrow> bytes set \<Rightarrow> bytes \<Rightarrow> ExecutionCertificate \<Rightarrow> ItemResult" where
  "classify_item r changed failedRenewal c =
     (if br_Outcome r = OutcomeSucceeded then \<lparr>it_Name = ec_Name c, it_State = ItemCompleted, it_Code = ''evaluated''\<rparr>
      else if ec_Name c \<in> changed then \<lparr>it_Name = ec_Name c, it_State = ItemCompleted, it_Code = ''native_artifact_changed''\<rparr>
      else if ec_Name c = failedRenewal then \<lparr>it_Name = ec_Name c, it_State = ItemFailed, it_Code = ''upstream_renewal_failed''\<rparr>
      else \<lparr>it_Name = ec_Name c, it_State = ItemAmbiguous, it_Code = ''execution_outcome_ambiguous''\<rparr>)"

definition outcome_state :: "Outcome \<Rightarrow> nat \<Rightarrow> nat \<Rightarrow> State \<times> bytes" where
  "outcome_state outcome completed items =
     (case outcome of
        OutcomeSucceeded \<Rightarrow> (StateSucceeded, ''execution_succeeded'')
      | OutcomeFailed \<Rightarrow> if completed > 0 \<and> completed < items then (StatePartial, ''execution_partial'')
                         else (StateFailed, ''execution_failed'')
      | OutcomeTimedOut \<Rightarrow> (StateTimedOut, ''execution_timed_out'')
      | OutcomeInterrupted \<Rightarrow> (StateInterrupted, ''execution_interrupted'')
      | OutcomeOutputLimit \<Rightarrow> (StateAmbiguous, ''execution_output_limit'')
      | OutcomeAmbiguous \<Rightarrow> (StateAmbiguous, ''execution_ambiguous'')
      | OutcomeNone \<Rightarrow> (StateFailed, ''execution_failed''))"

definition classifyExecution ::
  "BrokerResult \<Rightarrow> bytes option \<Rightarrow> ExecutionCertificate list \<Rightarrow> Certificate list \<Rightarrow> Certificate list
   \<Rightarrow> InventoryResult \<Rightarrow> bytes \<Rightarrow> Result" where
  "classifyExecution r runErr certificates before after inventory postChangeCode =
     (let (output, truncated) = operationOutput r;
          changed = changedCertificateNames before after
      in case runErr of
           Some code \<Rightarrow>
             (let mayHaveChanged = (br_Started r \<or> br_MayHaveChanged r);
                  failure = brokerFailureCode code;
                  items = itemResults certificates (if mayHaveChanged then ItemAmbiguous else ItemNotAttempted) failure
              in \<lparr>res_State = (if mayHaveChanged then StateAmbiguous else StateNotAttempted), res_Code = failure,
                  res_MayHaveChanged = mayHaveChanged, res_Inventory = inventory, res_Output = output,
                  res_OutputTruncated = truncated,
                  res_Items = (if mayHaveChanged \<and> inv_State inventory = InventoryRefreshed
                               then map (\<lambda>i. if it_Name i \<in> changed
                                             then i\<lparr>it_State := ItemCompleted, it_Code := ''native_artifact_changed''\<rparr> else i) items
                               else items)\<rparr>)
         | None \<Rightarrow>
             (let failedRenewal = failedRenewalCertificate r certificates changed inventory;
                  items = map (classify_item r changed failedRenewal) certificates;
                  completed = length (filter (\<lambda>i. it_State i = ItemCompleted) items);
                  (state, code) = outcome_state (br_Outcome r) completed (length items)
              in \<lparr>res_State = (if postChangeCode \<noteq> [] then StateAmbiguous else state),
                  res_Code = (if postChangeCode \<noteq> [] then postChangeCode else code),
                  res_MayHaveChanged = br_MayHaveChanged r, res_Inventory = inventory, res_Output = output,
                  res_OutputTruncated = truncated,
                  res_Items = (if postChangeCode \<noteq> [] then mark_unfinished postChangeCode items else items)\<rparr>))"

subsection \<open>Execution\<close>

definition unstarted_result :: "State \<Rightarrow> bytes \<Rightarrow> InventoryResult \<Rightarrow> ExecutionCertificate list \<Rightarrow> Result" where
  "unstarted_result state code inventory certificates =
     \<lparr>res_State = state, res_Code = code, res_MayHaveChanged = False, res_Inventory = inventory,
      res_Output = [], res_OutputTruncated = False, res_Items = itemResults certificates ItemNotAttempted code\<rparr>"

text \<open>\<open>finishWithoutRun\<close>; \<open>log\<close> is what was acquired before, \<open>deferred\<close> what the deferred calls release.\<close>

definition finishWithoutRun ::
  "execution_world \<Rightarrow> nat \<Rightarrow> resource_event list \<Rightarrow> resource_event list \<Rightarrow> bytes \<Rightarrow> ExecutionCertificate list \<Rightarrow> bytes \<Rightarrow> execution_tree" where
  "finishWithoutRun w m log deferred storagePath certificates code =
     EReport PhaseRefreshingInventory (\<lambda>answer.
       let code' = (if answer \<noteq> None then ''phase_persistence_failed'' else code);
           (_, inventory, events) = refreshInventory w m storagePath;
           state = (if code' = ''runtime_incompatible'' \<or> code' = ''configuration_incompatible''
                    then StateIncompatible else StateNotAttempted)
       in EDone (unstarted_result state code' inventory certificates) (log @ events @ deferred))"

definition post_change_code :: "Request \<Rightarrow> (sentinel set, ExecutionPlan) result \<Rightarrow> bytes" where
  "post_change_code q post =
     (case post of
        Inl err \<Rightarrow> if ConfigurationErrRuntimeChanged \<in> err then ''runtime_changed_after_run''
                   else if ConfigurationErrInvalid \<in> err then ''configuration_changed_after_run''
                   else ''workspace_changed_after_run''
      | Inr plan \<Rightarrow> if pl_ReviewedEvidenceSHA256 plan \<noteq> ReviewedEvidenceSHA256 q then ''workspace_changed_after_run'' else [])"

definition phase_failed :: "BrokerResult \<Rightarrow> Result \<Rightarrow> Result" where
  "phase_failed r res =
     res\<lparr>res_State := StateAmbiguous, res_Code := ''phase_persistence_failed'',
         res_MayHaveChanged := (br_Started r \<or> br_MayHaveChanged r),
         res_Items := mark_unfinished ''phase_persistence_failed'' (res_Items res)\<rparr>"

definition broker_request :: "ExecutionPlan \<Rightarrow> BrokerRequest" where
  "broker_request plan =
     \<lparr>rq_Prepared = True, rq_WorkingDirectory = in_WorkingDirectory (pl_Intent plan),
      rq_ConfigurationPath = in_ConfigurationPath (pl_Intent plan), rq_Environment = pl_Environment plan,
      rq_ObservedSecrets = pl_ObservedSecrets plan\<rparr>"

text \<open>From the successful report of the executing phase on.\<close>

definition run_and_classify ::
  "execution_world \<Rightarrow> Request \<Rightarrow> ExecutionPlan \<Rightarrow> ExecutionCertificate list \<Rightarrow> bytes \<Rightarrow> Certificate list
   \<Rightarrow> resource_event list \<Rightarrow> execution_tree" where
  "run_and_classify w q plan certificates storagePath before log =
     (let (r, runErr) = ew_Run w 9 (broker_request plan)
      in EReport PhaseRefreshingInventory (\<lambda>answer.
           let (after, inventory, events) = refreshInventory w 10 storagePath;
               post = ew_PrepareExecution w 15;
               classified = classifyExecution r runErr certificates before after inventory (post_change_code q post);
               closing = (case post of Inl _ \<Rightarrow> [] | Inr _ \<Rightarrow> [PlanOpened 3, PlanClosed 3])
           in EDone (if answer \<noteq> None then phase_failed r classified else classified)
                (log @ [RuntimeRun 8, PlanClosed 2] @ events @ closing @ [PlanClosed 2, LeaseReleased])))"

definition execute_confirmed ::
  "execution_world \<Rightarrow> Request \<Rightarrow> ExecutionPlan \<Rightarrow> ExecutionCertificate list \<Rightarrow> bytes \<Rightarrow> Certificate list
   \<Rightarrow> resource_event list \<Rightarrow> execution_tree" where
  "execute_confirmed w q plan certificates storagePath before log =
     (if \<not> ew_prepareRuntime w 8 then
        finishWithoutRun w 20 (log @ [PlanClosed 2]) [PlanClosed 2, LeaseReleased] storagePath certificates ''runtime_incompatible''
      else
        EReport PhaseExecuting (\<lambda>answer.
          if answer \<noteq> None then
            EDone \<lparr>res_State = StateAmbiguous, res_Code = ''phase_persistence_failed'', res_MayHaveChanged = False,
                   res_Inventory = unavailableInventory ''phase_persistence_failed'',
                   res_Output = [], res_OutputTruncated = False,
                   res_Items = itemResults certificates ItemNotAttempted ''phase_persistence_failed''\<rparr>
              (log @ [RuntimePrepared 8, PlanClosed 2, RuntimeClosed 8, PlanClosed 2, LeaseReleased])
          else run_and_classify w q plan certificates storagePath before (log @ [RuntimePrepared 8])))"

definition execute_planned :: "execution_world \<Rightarrow> Request \<Rightarrow> ExecutionPlan \<Rightarrow> execution_tree" where
  "execute_planned w q plan =
     (let certificates = in_Certificates (pl_Intent plan);
          storagePath = in_StoragePath (pl_Intent plan);
          opened = [LeaseAcquired, PlanOpened 1]
      in if ReviewedEvidenceSHA256 q \<noteq> pl_ReviewedEvidenceSHA256 plan then
           finishWithoutRun w 20 (opened @ [PlanClosed 1]) [PlanClosed 1, LeaseReleased] storagePath
             (requestedCertificates q) ''reviewed_source_changed''
         else
           (let (before, beforeResult, events) = refreshInventory w 2 storagePath;
                log = opened @ events
            in if inv_State beforeResult \<noteq> InventoryRefreshed then
                 finishWithoutRun w 20 (log @ [PlanClosed 1]) [PlanClosed 1, LeaseReleased] storagePath certificates
                   (if inv_Code beforeResult = [] then ''inventory_preflight_failed'' else inv_Code beforeResult)
               else
                 (case ew_PrepareExecution w 7 of
                    Inl err \<Rightarrow>
                      finishWithoutRun w 20 (log @ [PlanClosed 1]) [PlanClosed 1, LeaseReleased] storagePath certificates
                        (executionPreparationCode err)
                  | Inr confirmation \<Rightarrow>
                      if pl_ReviewedEvidenceSHA256 confirmation \<noteq> pl_ReviewedEvidenceSHA256 plan then
                        finishWithoutRun w 20 (log @ [PlanOpened 2, PlanClosed 2, PlanClosed 1]) [PlanClosed 1, LeaseReleased]
                          storagePath certificates ''reviewed_source_changed''
                      else execute_confirmed w q confirmation certificates storagePath before (log @ [PlanOpened 2, PlanClosed 1]))))"

definition execute_tree :: "execution_world \<Rightarrow> Request \<Rightarrow> execution_tree" where
  "execute_tree w q =
     (case ew_TryAcquire w 0 of
        Some err \<Rightarrow>
          EReport PhaseRefreshingInventory (\<lambda>_.
            EDone (unstarted_result StateNotAttempted (acquire_code err) (unavailableInventory (acquire_code err))
                     (requestedCertificates q)) [])
      | None \<Rightarrow>
          (case ew_PrepareExecution w 1 of
             Inl err \<Rightarrow>
               finishWithoutRun w 20 [LeaseAcquired] [LeaseReleased] [] (requestedCertificates q) (executionPreparationCode err)
           | Inr plan \<Rightarrow> execute_planned w q plan))"

primrec executor_run_of :: "execution_tree \<Rightarrow> executor_run" where
  "executor_run_of (EDone r _) = Returns r"
| "executor_run_of (EReport ph k) = Reports ph (\<lambda>a. executor_run_of (k a))"

definition Execute :: "execution_world \<Rightarrow> Request \<Rightarrow> executor_run" where
  "Execute w q = executor_run_of (execute_tree w q)"

definition Reconcile :: "execution_world \<Rightarrow> InventoryResult" where
  "Reconcile w =
     (case ew_Acquire w 0 of
        Some err \<Rightarrow> unavailableInventory (acquire_code err)
      | None \<Rightarrow> fst (snd (refreshInventory w 1 [])))"

end
