(* ===== verification/Operation_Evidence.thy ===== *)
theory Operation_Evidence
  imports Operation_Executor Jobs_Refine
begin

text \<open>
  The library of the operation executor: the paths of an execution and the rule that reduces a
  statement about all of them to four cases, the validity of everything the executor puts into a
  result, and the evidence behind each item.
\<close>

subsection \<open>Paths of an execution\<close>

primrec all_paths ::
  "((Phase \<times> jobs_error option) list \<Rightarrow> Result \<Rightarrow> resource_event list \<Rightarrow> bool)
   \<Rightarrow> (Phase \<times> jobs_error option) list \<Rightarrow> execution_tree \<Rightarrow> bool" where
  "all_paths P done (EDone r log) = P done r log"
| "all_paths P done (EReport ph k) = (\<forall>a. all_paths P (done @ [(ph, a)]) (k a))"

lemma all_paths_mono:
  "all_paths P path t \<Longrightarrow> (\<And>p r l. P p r l \<Longrightarrow> Q p r l) \<Longrightarrow> all_paths Q path t"
  by (induction t arbitrary: path) auto

definition refusal_state :: "bytes \<Rightarrow> State" where
  "refusal_state code = (if code = ''runtime_incompatible'' \<or> code = ''configuration_incompatible'' then StateIncompatible else StateNotAttempted)"

definition reported_code :: "jobs_error option \<Rightarrow> bytes \<Rightarrow> bytes" where
  "reported_code answer code = (if answer \<noteq> None then ''phase_persistence_failed'' else code)"

lemma finishWithoutRun_paths:
  "all_paths P path (finishWithoutRun w m log deferred storagePath certificates code) \<longleftrightarrow>
     (\<forall>a. P (path @ [(PhaseRefreshingInventory, a)])
        (unstarted_result (refusal_state (reported_code a code)) (reported_code a code)
           (fst (snd (refreshInventory w m storagePath))) certificates)
        (log @ snd (snd (refreshInventory w m storagePath)) @ deferred))"
  by (simp add: finishWithoutRun_def Let_def refusal_state_def reported_code_def case_prod_beta)

definition no_run :: "resource_event list \<Rightarrow> bool" where
  "no_run log \<longleftrightarrow> (\<forall>k. RuntimeRun k \<notin> set log)"

lemma no_run_simps [simp]:
  "no_run []" "no_run (e # log) \<longleftrightarrow> (\<forall>k. e \<noteq> RuntimeRun k) \<and> no_run log" "no_run (a @ b) \<longleftrightarrow> no_run a \<and> no_run b"
  by (auto simp: no_run_def)

lemma refresh_no_run [simp]: "no_run (snd (snd (refreshInventory w m storagePath)))"
  by (auto simp: refreshInventory_def split: option.splits sum.splits)

text \<open>Whose names a refusal reports: the request's, or those of a plan with the reviewed evidence.\<close>

definition reviewed :: "execution_world \<Rightarrow> Request \<Rightarrow> ExecutionCertificate list \<Rightarrow> bool" where
  "reviewed w q certificates \<longleftrightarrow> certificates = requestedCertificates q \<or>
     (\<exists>k plan. ew_PrepareExecution w k = Inr plan \<and> pl_ReviewedEvidenceSHA256 plan = ReviewedEvidenceSHA256 q
        \<and> certificates = in_Certificates (pl_Intent plan))"

definition refusal_codes :: "execution_world \<Rightarrow> bytes set" where
  "refusal_codes w = range executionPreparationCode
     \<union> {''runtime_incompatible'', ''reviewed_source_changed'', ''inventory_preflight_failed''}
     \<union> {inv_Code (fst (snd (refreshInventory w m sp))) | m sp. True}"

definition phase_result :: "ExecutionCertificate list \<Rightarrow> Result" where
  "phase_result certificates =
     \<lparr>res_State = StateAmbiguous, res_Code = ''phase_persistence_failed'', res_MayHaveChanged = False,
      res_Inventory = unavailableInventory ''phase_persistence_failed'', res_Output = [], res_OutputTruncated = False,
      res_Items = itemResults certificates ItemNotAttempted ''phase_persistence_failed''\<rparr>"

lemma execute_paths:
  assumes busy: "\<And>err a. ew_TryAcquire w 0 = Some err \<Longrightarrow> P [(PhaseRefreshingInventory, a)]
        (unstarted_result StateNotAttempted (acquire_code err) (unavailableInventory (acquire_code err)) (requestedCertificates q)) []"
    and refused: "\<And>a code m storagePath certificates log. code \<in> refusal_codes w \<Longrightarrow> reviewed w q certificates \<Longrightarrow> no_run log \<Longrightarrow>
        P [(PhaseRefreshingInventory, a)]
          (unstarted_result (refusal_state (reported_code a code)) (reported_code a code)
             (fst (snd (refreshInventory w m storagePath))) certificates) log"
    and unreported: "\<And>e certificates log. reviewed w q certificates \<Longrightarrow> no_run log \<Longrightarrow>
        P [(PhaseExecuting, Some e)] (phase_result certificates) log"
    and ran: "\<And>plan confirmation certificates storagePath before after inventory events r runErr a pre post c.
        ew_TryAcquire w 0 = None \<Longrightarrow> ew_PrepareExecution w 1 = Inr plan \<Longrightarrow> ew_PrepareExecution w 7 = Inr confirmation \<Longrightarrow>
        pl_ReviewedEvidenceSHA256 plan = ReviewedEvidenceSHA256 q \<Longrightarrow>
        pl_ReviewedEvidenceSHA256 confirmation = ReviewedEvidenceSHA256 q \<Longrightarrow>
        certificates = in_Certificates (pl_Intent plan) \<Longrightarrow> storagePath = in_StoragePath (pl_Intent plan) \<Longrightarrow>
        inv_State (fst (snd (refreshInventory w 2 storagePath))) = InventoryRefreshed \<Longrightarrow>
        before = fst (refreshInventory w 2 storagePath) \<Longrightarrow>
        refreshInventory w 10 storagePath = (after, inventory, events) \<Longrightarrow>
        ew_Run w 9 (broker_request confirmation) = (r, runErr) \<Longrightarrow>
        c = classifyExecution r runErr certificates before after inventory (post_change_code q (ew_PrepareExecution w 15)) \<Longrightarrow>
        no_run pre \<Longrightarrow> no_run post \<Longrightarrow>
        P [(PhaseExecuting, None), (PhaseRefreshingInventory, a)] (if a \<noteq> None then phase_failed r c else c)
          (pre @ RuntimeRun 8 # post)"
  shows "all_paths P [] (execute_tree w q)"
proof (cases "ew_TryAcquire w 0")
  case (Some err)
  then show ?thesis by (simp add: execute_tree_def busy)
next
  case None
  have req: "reviewed w q (requestedCertificates q)" by (simp add: reviewed_def)
  have static: "executionPreparationCode err \<in> refusal_codes w" "''runtime_incompatible'' \<in> refusal_codes w"
    "''reviewed_source_changed'' \<in> refusal_codes w" "''inventory_preflight_failed'' \<in> refusal_codes w"
    "inv_Code (fst (snd (refreshInventory w m sp))) \<in> refusal_codes w" for err m sp
    by (auto simp: refusal_codes_def)
  show ?thesis
  proof (cases "ew_PrepareExecution w 1")
    case (Inl err)
    with None show ?thesis by (simp add: execute_tree_def finishWithoutRun_paths refused static req)
  next
    case (Inr plan)
    define certs sp where defs: "certs = in_Certificates (pl_Intent plan)" "sp = in_StoragePath (pl_Intent plan)"
    obtain before before_result events where b: "refreshInventory w 2 sp = (before, before_result, events)" by (metis prod.exhaust)
    have ev: "no_run events" "fst (snd (refreshInventory w 2 sp)) = before_result" using refresh_no_run [of w 2 sp] b by simp_all
    have tree: "execute_tree w q = execute_planned w q plan" using None Inr by (simp add: execute_tree_def)
    show ?thesis
    proof (cases "ReviewedEvidenceSHA256 q = pl_ReviewedEvidenceSHA256 plan")
      case False
      then show ?thesis by (simp add: tree execute_planned_def finishWithoutRun_paths refused static req)
    next
      case True
      then have rev: "reviewed w q certs" using Inr by (auto simp: reviewed_def defs)
      have code: "(if inv_Code before_result = [] then ''inventory_preflight_failed'' else inv_Code before_result) \<in> refusal_codes w"
        using static(4) static(5) [of 2 sp] ev(2) by simp
      have confirmed: "all_paths P [] (execute_confirmed w q confirmation certs sp before log)"
        if "ew_PrepareExecution w 7 = Inr confirmation" "pl_ReviewedEvidenceSHA256 confirmation = pl_ReviewedEvidenceSHA256 plan"
          "inv_State before_result = InventoryRefreshed" "no_run log" for confirmation log
      proof (cases "ew_prepareRuntime w 8")
        case False
        then show ?thesis using that(4) by (simp add: execute_confirmed_def finishWithoutRun_paths refused static rev)
      next
        case runtime: True
        obtain r runErr where r: "ew_Run w 9 (broker_request confirmation) = (r, runErr)" by (metis prod.exhaust)
        obtain after inventory events' where a: "refreshInventory w 10 sp = (after, inventory, events')" by (metis prod.exhaust)
        have ev': "no_run events'" using refresh_no_run [of w 10 sp] a by simp
        let ?c = "classifyExecution r runErr certs before after inventory (post_change_code q (ew_PrepareExecution w 15))"
        have "P [(PhaseExecuting, None), (PhaseRefreshingInventory, ans)] (if ans \<noteq> None then phase_failed r ?c else ?c)
            ((log @ [RuntimePrepared 8]) @ RuntimeRun 8 # post)" if "no_run post" for ans post
          using \<open>ew_TryAcquire w 0 = None\<close> Inr \<open>ew_PrepareExecution w 7 = Inr confirmation\<close> True
            \<open>pl_ReviewedEvidenceSHA256 confirmation = pl_ReviewedEvidenceSHA256 plan\<close> \<open>inv_State before_result = InventoryRefreshed\<close>
            ev(2) b a r \<open>no_run log\<close> that
          by (intro ran [where plan = plan and confirmation = confirmation and certificates = certs and storagePath = sp
                and before = before and after = after and inventory = inventory and events = events' and runErr = runErr]) (simp_all add: defs)
        then have "P [(PhaseExecuting, None), (PhaseRefreshingInventory, ans)] (if ans \<noteq> None then phase_failed r ?c else ?c)
            (log @ RuntimePrepared 8 # RuntimeRun 8 # PlanClosed 2 # events' @
              (case ew_PrepareExecution w 15 of Inl _ \<Rightarrow> [] | Inr _ \<Rightarrow> [PlanOpened 3, PlanClosed 3]) @ [PlanClosed 2, LeaseReleased])" for ans
          using ev' by (auto split: sum.split)
        then show ?thesis
          using runtime that(4) unreported [OF rev] by (auto simp: execute_confirmed_def run_and_classify_def r a phase_result_def Let_def)
      qed
      show ?thesis
        using True confirmed ev(1) rev code
        by (auto simp: tree execute_planned_def defs [symmetric] b finishWithoutRun_paths refused static Let_def split: sum.split)
    qed
  qed
qed

subsection \<open>Codes\<close>

lemma valid_code_ascii: "validateCode v True = None \<Longrightarrow> ascii v"
proof -
  assume "validateCode v True = None"
  then have "list_all (\<lambda>c. code_rune (byte c)) v"
    by (cases v) (auto simp: validateCode_def dest: code_runes_bytes)
  then show ?thesis by (auto simp: ascii_def list_all_iff code_rune_def)
qed

lemma prefixed_code:
  assumes "validateCode code True = None" "validateCode pre True = None" "length pre + length code \<le> 64"
  shows "validateCode (pre @ code) True = None"
  using assms valid_code_ascii [OF assms(1)] valid_code_ascii [OF assms(2)]
  by (cases pre) (auto simp: validateCode_ascii)

lemma executor_codes [simp]:
  "validateCode ''workspace_selection_unavailable'' True = None" "validateCode ''workspace_changed'' True = None"
  "validateCode ''runtime_incompatible'' True = None" "validateCode ''inventory_unavailable'' True = None"
  "validateCode ''inventory_refreshed'' True = None" "validateCode ''recovery_required'' True = None"
  "validateCode ''workspace_unselected'' True = None" "validateCode ''configuration_incompatible'' True = None"
  "validateCode ''preflight_unavailable'' True = None" "validateCode ''workspace_busy'' True = None"
  "validateCode ''workspace_unavailable'' True = None" "validateCode ''broker_unavailable'' True = None"
  "validateCode ''reviewed_source_changed'' True = None" "validateCode ''inventory_preflight_failed'' True = None"
  "validateCode ''phase_persistence_failed'' True = None" "validateCode ''native_artifact_changed'' True = None"
  "validateCode ''evaluated'' True = None" "validateCode ''upstream_renewal_failed'' True = None"
  "validateCode ''execution_outcome_ambiguous'' True = None" "validateCode ''execution_succeeded'' True = None"
  "validateCode ''execution_partial'' True = None" "validateCode ''execution_failed'' True = None"
  "validateCode ''execution_timed_out'' True = None" "validateCode ''execution_interrupted'' True = None"
  "validateCode ''execution_output_limit'' True = None" "validateCode ''execution_ambiguous'' True = None"
  "validateCode ''runtime_changed_after_run'' True = None" "validateCode ''configuration_changed_after_run'' True = None"
  "validateCode ''workspace_changed_after_run'' True = None" "validateCode ''inventory_'' True = None"
  "validateCode ''broker_'' True = None"
  by (simp_all add: validateCode_ascii ascii_def code_rune_def)

lemma preparation_code [simp]: "validateCode (executionPreparationCode err) True = None"
  and acquire_code_valid [simp]: "validateCode (acquire_code err) True = None"
  by (simp_all add: executionPreparationCode_def acquire_code_def)

text \<open>What the executor relies on: the inventory reader's codes and bound, the broker's codes and text.\<close>

definition readable :: "execution_world \<Rightarrow> bool" where
  "readable w \<longleftrightarrow> (\<forall>m sp. case ew_Read w m sp of
      Inl code \<Rightarrow> code = [] \<or> validateCode code True = None
    | Inr certificates \<Rightarrow> length certificates \<le> 10000)"

definition runs_safely :: "execution_world \<Rightarrow> bool" where
  "runs_safely w \<longleftrightarrow> (\<forall>k m plan. ew_PrepareExecution w m = Inr plan \<longrightarrow>
     (let (r, err) = ew_Run w k (broker_request plan)
      in safe_text (br_Stdout r) \<and> safe_text (br_Stderr r) \<and> (br_MayHaveChanged r \<longleftrightarrow> br_Started r)
         \<and> (\<forall>code. err = Some code \<longrightarrow> code = [] \<or> (validateCode code True = None \<and> length code \<le> 57))))"

lemma unavailable_valid [simp]:
  "validateInventory (unavailableInventory code) b = None \<longleftrightarrow> validateCode code True = None"
  "inv_Code (unavailableInventory code) = code" "inv_State (unavailableInventory code) = InventoryUnavailable"
  by (simp_all add: validateInventory_def unavailableInventory_def)

lemma inventory_failure_code_valid:
  "code = [] \<or> validateCode code True = None \<Longrightarrow> validateCode (inventory_failure_code code) True = None"
  using prefixed_code [of code "''inventory_''"] by (auto simp: inventory_failure_code_def)

lemma refresh_cases:
  obtains (unavailable) code where "fst (snd (refreshInventory w m sp)) = unavailableInventory code"
      "code \<in> {''workspace_selection_unavailable'', ''workspace_changed'', ''runtime_incompatible''}"
  | (failed) k x code where "fst (snd (refreshInventory w m sp)) = unavailableInventory (inventory_failure_code code)"
      "ew_Read w k x = Inl code"
  | (refreshed) k x certificates where "ew_Read w k x = Inr certificates" "fst (refreshInventory w m sp) = certificates"
      "fst (snd (refreshInventory w m sp)) =
         \<lparr>inv_State = InventoryRefreshed, inv_Code = ''inventory_refreshed'', inv_CertificateCount = Some (int (length certificates))\<rparr>"
proof (cases "ew_Load w m")
  case (Some selection)
  show ?thesis
  proof (cases "ew_Verify w (m + 1) selection")
    case None
    with Some show ?thesis by (intro unavailable [of "''workspace_changed''"]) (simp_all add: refreshInventory_def)
  next
    case current: (Some current)
    let ?path = "if sp = [] then rv_StoragePath current else sp"
    consider "sp \<noteq> [] \<and> rv_StoragePath current \<noteq> sp" | "\<not> (sp \<noteq> [] \<and> rv_StoragePath current \<noteq> sp)" "\<not> ew_prepareRuntime w (m + 2)"
      | "\<not> (sp \<noteq> [] \<and> rv_StoragePath current \<noteq> sp)" "ew_prepareRuntime w (m + 2)" by blast
    then show ?thesis
    proof cases
      case 1
      with Some current show ?thesis by (intro unavailable [of "''workspace_changed''"]) (simp_all add: refreshInventory_def)
    next
      case 2
      with Some current show ?thesis by (intro unavailable [of "''runtime_incompatible''"]) (auto simp: refreshInventory_def)
    next
      case 3
      show ?thesis
      proof (cases "ew_Read w (m + 3) ?path")
        case (Inl code)
        have "fst (snd (refreshInventory w m sp)) = unavailableInventory (inventory_failure_code code)"
          using Some current 3 Inl unfolding refreshInventory_def by auto
        with Inl show ?thesis by (rule failed [rotated])
      next
        case (Inr cs)
        then show ?thesis using Some current 3 unavailable [of "''workspace_changed''"] refreshed [OF Inr]
          unfolding refreshInventory_def by (cases "ew_Verify w (m + 4) current") auto
      qed
    qed
  qed
qed (intro unavailable [of "''workspace_selection_unavailable''"], simp_all add: refreshInventory_def)

lemma refresh_valid:
  assumes "readable w"
  shows "validateInventory (fst (snd (refreshInventory w m sp))) False = None
    \<and> validateCode (inv_Code (fst (snd (refreshInventory w m sp)))) True = None"
proof (cases rule: refresh_cases [of w m sp])
  case (failed k x code)
  have "code = [] \<or> validateCode code True = None" using assms failed(2) by (auto simp: readable_def split: sum.splits)
  then show ?thesis using failed(1) inventory_failure_code_valid by simp
next
  case (refreshed k x cs)
  have "length cs \<le> 10000" using assms refreshed(1) by (auto simp: readable_def split: sum.splits)
  then show ?thesis using refreshed(3) by (simp add: validateInventory_def)
qed auto

lemma refusal_codes_valid: "readable w \<Longrightarrow> code \<in> refusal_codes w \<Longrightarrow> validateCode code True = None"
  using refresh_valid by (auto simp: refusal_codes_def)

subsection \<open>Persisted output\<close>

lemma safe_text_append: "safe_text a \<Longrightarrow> safe_text b \<Longrightarrow> safe_text (a @ b)"
  by (auto simp: safe_text_def ValidString_append runes_append)

lemma safe_text_ascii: "list_all (\<lambda>c. 32 \<le> byte c \<and> byte c < 127 \<or> byte c = 10) s \<Longrightarrow> safe_text s"
proof -
  assume a: "list_all (\<lambda>c. 32 \<le> byte c \<and> byte c < 127 \<or> byte c = 10) s"
  then have "ascii s" by (auto simp: ascii_def list_all_iff)
  moreover have "displayable (byte c)" if "c \<in> set s" for c
  proof -
    have "byte c = 10 \<or> (32 \<le> byte c \<and> byte c < 127)" using a that by (auto simp: list_all_iff)
    then show ?thesis by (auto simp: displayable_def IsControl_def is_Cf_def Cf_ranges_def)
  qed
  ultimately show ?thesis by (auto simp: safe_text_def ValidString_ascii runes_ascii)
qed

lemma joined_safe: "safe_text (br_Stdout r) \<Longrightarrow> safe_text (br_Stderr r) \<Longrightarrow> safe_text (joined_output r)"
proof -
  assume s: "safe_text (br_Stdout r)" "safe_text (br_Stderr r)"
  have h: "safe_text (''[stdout]'' @ [CHR 0x0A])" "safe_text (''[stderr]'' @ [CHR 0x0A])" "safe_text [CHR 0x0A]" "safe_text []"
    by (rule safe_text_ascii, simp)+
  note parts = safe_text_append [OF h(1) s(1)] safe_text_append [OF h(2) s(2)]
  note both = safe_text_append [OF parts] safe_text_append [OF parts(1) safe_text_append [OF h(3) parts(2)]]
  from parts both h(4) show ?thesis by (auto simp: joined_output_def Let_def)
qed

lemma trim_valid_prefix: "\<exists>b. v = trim_valid k v @ b"
proof (induction k arbitrary: v)
  case (Suc k)
  show ?case
  proof (cases "ValidString v \<or> v = []")
    case False
    then obtain b where "butlast v = trim_valid k (butlast v) @ b" using Suc by blast
    then have "v = trim_valid k (butlast v) @ b @ [last v]" using False by (metis append_assoc append_butlast_last_id)
    then show ?thesis using False by (simp del: append_assoc) blast
  qed (auto simp: ValidString_def)
qed simp

lemma trim_valid_longest:
  assumes "length v \<le> k" "v = p @ b" "ValidString p"
  shows "ValidString (trim_valid k v) \<and> length p \<le> length (trim_valid k v)"
  using assms
proof (induction k arbitrary: v b)
  case (Suc k)
  show ?case
  proof (cases "ValidString v")
    case False
    then have "b \<noteq> []" using Suc.prems by auto
    then have "butlast v = p @ butlast b" "length (butlast v) \<le> k" using Suc.prems(1,2) by (simp add: butlast_append, cases b) auto
    with Suc.IH Suc.prems(3) False show ?thesis by simp
  qed (use Suc.prems in simp)
qed (auto simp: ValidString_def)

lemma encode_split:
  "n \<le> length (encode rs) \<Longrightarrow> \<exists>ps qs. rs = ps @ qs \<and> length (encode ps) \<le> n \<and> n < length (encode ps) + 4"
proof (induction rs arbitrary: n)
  case (Cons r rs)
  show ?case
  proof (cases "n < 4")
    case True
    then show ?thesis by (intro exI [of _ "[]"] exI [of _ "r # rs"]) simp
  next
    case False
    then have le: "length (EncodeRune r) \<le> n" using EncodeRune_length [of r] by simp
    then have "n - length (EncodeRune r) \<le> length (encode rs)" using Cons.prems by simp
    then obtain ps qs where "rs = ps @ qs" "length (encode ps) \<le> n - length (EncodeRune r)"
      "n - length (EncodeRune r) < length (encode ps) + 4" using Cons.IH by blast
    with le show ?thesis by (intro exI [of _ "r # ps"] exI [of _ qs]) auto
  qed
qed simp

lemma safe_prefix: "safe_text (a @ b) \<Longrightarrow> ValidString a \<Longrightarrow> safe_text a"
proof -
  assume s: "safe_text (a @ b)" "ValidString a"
  have "ValidString (a @ b)" using s(1) by (simp add: safe_text_def)
  then obtain rs where rs: "list_all scalar rs" "a @ b = encode rs" by (rule ValidString_cases)
  obtain ps where ps: "list_all scalar ps" "a = encode ps" using s(2) by (rule ValidString_cases)
  obtain qs where q: "rs = ps @ qs" using encode_prefix [of rs ps b] rs ps by auto
  have "runes (a @ b) = runes a @ map (\<lambda>r. (r, length (EncodeRune r))) qs"
    using runes_encode [OF rs(1)] runes_encode [OF ps(1)] rs(2) ps(2) q by simp
  then show ?thesis using s by (auto simp: safe_text_def)
qed

lemma safe_validateOutput: "safe_text s \<Longrightarrow> length s \<le> 262144 \<Longrightarrow> validateOutput s = None"
  by (auto simp: validateOutput_def safe_text_def displayable_def)

lemma truncated_output:
  assumes "safe_text v" "n \<le> length v"
  shows "safe_text (trim_valid n (take n v))" "\<exists>b. v = trim_valid n (take n v) @ b"
    "length (trim_valid n (take n v)) \<le> n" "n < length (trim_valid n (take n v)) + 4"
proof -
  have "ValidString v" using assms(1) by (simp add: safe_text_def)
  then obtain rs where rs: "list_all scalar rs" "v = encode rs" by (rule ValidString_cases)
  then obtain ps qs where p: "rs = ps @ qs" "length (encode ps) \<le> n" "n < length (encode ps) + 4"
    using encode_split [of n rs] assms(2) by blast
  have tk: "take n v = encode ps @ take (n - length (encode ps)) (encode qs)" using rs(2) p by simp
  have ps: "ValidString (encode ps)" using rs(1) p(1) by simp
  have t: "ValidString (trim_valid n (take n v))" "length (encode ps) \<le> length (trim_valid n (take n v))"
    using trim_valid_longest [OF _ tk ps, of n] by simp_all
  obtain b where b: "take n v = trim_valid n (take n v) @ b" using trim_valid_prefix by blast
  then have "v = trim_valid n (take n v) @ b @ drop n v" by (metis append_assoc append_take_drop_id)
  then show "\<exists>b. v = trim_valid n (take n v) @ b" by blast
  with safe_prefix t(1) assms(1) show "safe_text (trim_valid n (take n v))" by metis
  show "n < length (trim_valid n (take n v)) + 4" using t(2) p(3) by linarith
  have "length (trim_valid n (take n v)) \<le> length (take n v)" using b by (metis length_append le_add1)
  then show "length (trim_valid n (take n v)) \<le> n" by simp
qed

lemma operationOutput_valid:
  assumes "safe_text (br_Stdout r)" "safe_text (br_Stderr r)"
  shows "validateOutput (fst (operationOutput r)) = None"
  using joined_safe [OF assms] truncated_output [of "joined_output r" 262144]
  by (auto simp: operationOutput_def Let_def maximumPersistedOutput_def intro!: safe_validateOutput)

end
