(* ===== verification/Operation_Properties.thy ===== *)
theory Operation_Properties
  imports Operation_Evidence Broker_Properties Jobs_Properties
begin

text \<open>
  What the operation executor guarantees to the worker and to the administrator.
\<close>

subsection \<open>Items\<close>

definition good_items :: "Request \<Rightarrow> ItemResult list \<Rightarrow> bool" where
  "good_items q items \<longleftrightarrow> map it_Name items = req_Items q
     \<and> (\<forall>i \<in> set items. known_item_state (it_State i) \<and> validateCode (it_Code i) True = None)"

lemma good_items_valid:
  assumes "validateRequest q = None" "good_items q items"
  shows "validateItems items = None"
proof -
  have r: "length (req_Items q) \<le> 256" "distinct (req_Items q)" "\<forall>x \<in> set (req_Items q). validateItemName x = None"
    using assms(1) by (auto simp: validateRequest_def validate_request_items_None)
  have n: "map it_Name items = req_Items q" using assms(2) by (simp add: good_items_def)
  then have "length items \<le> 256" using r(1) by (metis length_map)
  moreover have "validateItemName (it_Name i) = None" if "i \<in> set items" for i
    using that r(3) n by (metis image_eqI list.set_map)
  ultimately show ?thesis using r(2) n assms(2) by (auto simp: validateItems_None good_items_def)
qed

text \<open>The evidence digest determines what is certified: a plan with the reviewed digest names the
  reviewed certificates.\<close>

definition evidence_binds :: "execution_world \<Rightarrow> Request \<Rightarrow> bool" where
  "evidence_binds w q \<longleftrightarrow> (\<forall>k plan. ew_PrepareExecution w k = Inr plan \<and> pl_ReviewedEvidenceSHA256 plan = ReviewedEvidenceSHA256 q
     \<longrightarrow> map ec_Name (in_Certificates (pl_Intent plan)) = req_Items q)"

lemma reviewed_names: "reviewed w q certs \<Longrightarrow> evidence_binds w q \<Longrightarrow> map ec_Name certs = req_Items q"
  by (auto simp: reviewed_def evidence_binds_def requestedCertificates_def comp_def)

lemma itemResults_good:
  assumes "map ec_Name certs = req_Items q" "known_item_state st" "validateCode code True = None"
  shows "good_items q (itemResults certs st code)"
  using assms by (auto simp: good_items_def itemResults_def comp_def)

lemma good_items_map:
  assumes "good_items q items" "\<And>i. i \<in> set items \<Longrightarrow> it_Name (f i) = it_Name i \<and> known_item_state (it_State (f i)) \<and> validateCode (it_Code (f i)) True = None"
  shows "good_items q (map f items)"
proof -
  have "map it_Name (map f items) = map it_Name items" using assms(2) by simp
  then show ?thesis using assms by (auto simp: good_items_def simp del: map_map)
qed

lemma mark_unfinished_good:
  "good_items q items \<Longrightarrow> validateCode code True = None \<Longrightarrow> good_items q (mark_unfinished code items)"
  unfolding mark_unfinished_def by (rule good_items_map) (auto simp: good_items_def known_item_state_def)

lemma result_valid:
  assumes "validateRequest q = None" "terminal (res_State r)" "validateCode (res_Code r) True = None"
    "validateInventory (res_Inventory r) False = None" "validateOutput (res_Output r) = None" "good_items q (res_Items r)"
  shows "validateExecutorResult r = None \<and> map it_Name (res_Items r) = req_Items q"
  using assms good_items_valid [OF assms(1,6)] by (simp add: validateExecutorResult_def good_items_def)

lemma post_change_code_valid: "post_change_code q post \<noteq> [] \<Longrightarrow> validateCode (post_change_code q post) True = None"
  by (auto simp: post_change_code_def split: sum.splits if_splits)

lemma outcome_state_valid: "terminal (fst (outcome_state oc c n)) \<and> validateCode (snd (outcome_state oc c n)) True = None"
  by (cases oc) (auto simp: outcome_state_def)

lemma brokerFailureCode_valid:
  "code = [] \<or> (validateCode code True = None \<and> length code \<le> 57) \<Longrightarrow> validateCode (brokerFailureCode code) True = None"
  using prefixed_code [of code "''broker_''"] by (auto simp: brokerFailureCode_def)

lemma classify_error_fields:
  fixes certs before after inventory post
  assumes "c = classifyExecution r (Some code) certs before after inventory post"
  defines "may \<equiv> br_Started r \<or> br_MayHaveChanged r"
  shows "res_State c = (if may then StateAmbiguous else StateNotAttempted)" "res_Code c = brokerFailureCode code"
    "res_MayHaveChanged c = may" "res_Inventory c = inventory" "res_Output c = fst (operationOutput r)"
    "res_Items c = map (\<lambda>i. if may \<and> inv_State inventory = InventoryRefreshed \<and> it_Name i \<in> changedCertificateNames before after
        then i\<lparr>it_State := ItemCompleted, it_Code := ''native_artifact_changed''\<rparr> else i)
      (itemResults certs (if may then ItemAmbiguous else ItemNotAttempted) (brokerFailureCode code))"
  using assms by (auto simp: classifyExecution_def Let_def case_prod_beta cong: if_cong map_cong)

lemma classify_fields:
  fixes certs before after inventory post
  assumes "c = classifyExecution r None certs before after inventory post"
  defines "changed \<equiv> changedCertificateNames before after"
  defines "items \<equiv> map (classify_item r changed (failedRenewalCertificate r certs changed inventory)) certs"
  shows "res_State c = (if post \<noteq> [] then StateAmbiguous
        else fst (outcome_state (br_Outcome r) (length (filter (\<lambda>i. it_State i = ItemCompleted) items)) (length items)))"
    "res_Code c = (if post \<noteq> [] then post
        else snd (outcome_state (br_Outcome r) (length (filter (\<lambda>i. it_State i = ItemCompleted) items)) (length items)))"
    "res_MayHaveChanged c = br_MayHaveChanged r" "res_Inventory c = inventory" "res_Output c = fst (operationOutput r)"
    "res_Items c = (if post \<noteq> [] then mark_unfinished post items else items)"
  using assms by (auto simp: classifyExecution_def Let_def case_prod_beta)

lemma classify_item_good:
  "it_Name (classify_item r ch f c) = ec_Name c \<and> known_item_state (it_State (classify_item r ch f c))
    \<and> validateCode (it_Code (classify_item r ch f c)) True = None"
  by (simp add: classify_item_def known_item_state_def)

lemma classified_valid:
  assumes q: "validateRequest q = None" and names: "map ec_Name certs = req_Items q"
    and inv: "validateInventory inventory False = None" and out: "safe_text (br_Stdout r)" "safe_text (br_Stderr r)"
    and code: "\<And>code. runErr = Some code \<Longrightarrow> code = [] \<or> (validateCode code True = None \<and> length code \<le> 57)"
    and post: "post \<noteq> [] \<Longrightarrow> validateCode post True = None"
    and c: "c = classifyExecution r runErr certs before after inventory post"
  shows "terminal (res_State c) \<and> validateCode (res_Code c) True = None \<and> validateInventory (res_Inventory c) False = None
    \<and> validateOutput (res_Output c) = None \<and> good_items q (res_Items c)"
proof (cases runErr)
  case (Some code)
  note f = classify_error_fields [OF c [unfolded Some]]
  have bc: "validateCode (brokerFailureCode code) True = None" using brokerFailureCode_valid assms(6) Some by blast
  then have "good_items q (res_Items c)"
    unfolding f(6) by (intro good_items_map itemResults_good names) (auto simp: itemResults_def known_item_state_def)
  then show ?thesis using f bc inv operationOutput_valid [OF out] by simp
next
  case None
  note f = classify_fields [OF c [unfolded None]]
  let ?ch = "changedCertificateNames before after"
  have "good_items q (map (classify_item r ?ch (failedRenewalCertificate r certs ?ch inventory)) certs)"
    using names classify_item_good by (auto simp: good_items_def comp_def)
  then have "good_items q (res_Items c)" unfolding f(6) using mark_unfinished_good post by simp
  then show ?thesis using f inv post operationOutput_valid [OF out] outcome_state_valid by simp
qed

subsection \<open>Results are valid and complete\<close>

lemma execution_valid:
  assumes "validateRequest q = None" "evidence_binds w q" "readable w" "runs_safely w"
  shows "all_paths (\<lambda>_ r _. validateExecutorResult r = None \<and> map it_Name (res_Items r) = req_Items q) [] (execute_tree w q)"
proof (rule execute_paths)
  have empty: "validateOutput [] = None" by simp
  have refusal: "validateExecutorResult (unstarted_result st code inventory certs) = None
      \<and> map it_Name (res_Items (unstarted_result st code inventory certs)) = req_Items q"
    if "terminal st" "validateCode code True = None" "validateInventory inventory False = None" "reviewed w q certs" for st code inventory certs
    using that itemResults_good [OF reviewed_names [OF that(4) assms(2)], of ItemNotAttempted code]
    by (intro result_valid assms(1)) (simp_all add: unstarted_result_def known_item_state_def)
  fix err assume "ew_TryAcquire w 0 = Some err"
  show "validateExecutorResult (unstarted_result StateNotAttempted (acquire_code err) (unavailableInventory (acquire_code err)) (requestedCertificates q)) = None
      \<and> map it_Name (res_Items (unstarted_result StateNotAttempted (acquire_code err) (unavailableInventory (acquire_code err)) (requestedCertificates q))) = req_Items q"
    by (rule refusal) (simp_all add: reviewed_def)
next
  fix a code m storagePath certs assume c: "code \<in> refusal_codes w" "reviewed w q certs"
  have "validateCode (reported_code a code) True = None" using refusal_codes_valid [OF assms(3) c(1)] by (simp add: reported_code_def)
  moreover have "terminal (refusal_state x)" for x by (simp add: refusal_state_def)
  ultimately show "validateExecutorResult (unstarted_result (refusal_state (reported_code a code)) (reported_code a code)
         (fst (snd (refreshInventory w m storagePath))) certs) = None
      \<and> map it_Name (res_Items (unstarted_result (refusal_state (reported_code a code)) (reported_code a code)
         (fst (snd (refreshInventory w m storagePath))) certs)) = req_Items q"
    using refresh_valid [OF assms(3)] itemResults_good [OF reviewed_names [OF c(2) assms(2)], of ItemNotAttempted "reported_code a code"]
    by (intro result_valid assms(1)) (simp_all add: unstarted_result_def known_item_state_def)
next
  fix e certs assume "reviewed w q certs"
  from itemResults_good [OF reviewed_names [OF this assms(2)], of ItemNotAttempted "''phase_persistence_failed''"]
  show "validateExecutorResult (phase_result certs) = None \<and> map it_Name (res_Items (phase_result certs)) = req_Items q"
    by (intro result_valid assms(1)) (simp_all add: phase_result_def known_item_state_def)
next
  fix plan confirmation certs storagePath before after inventory events r runErr and a :: "jobs_error option" and c
  assume conf: "ew_PrepareExecution w 7 = Inr confirmation"
    and h: "ew_PrepareExecution w 1 = Inr plan" "pl_ReviewedEvidenceSHA256 plan = ReviewedEvidenceSHA256 q"
    "certs = in_Certificates (pl_Intent plan)" "refreshInventory w 10 storagePath = (after, inventory, events)"
    "ew_Run w 9 (broker_request confirmation) = (r, runErr)"
    "c = classifyExecution r runErr certs before after inventory (post_change_code q (ew_PrepareExecution w 15))"
  have names: "map ec_Name certs = req_Items q" using assms(2) h(1-3) by (auto simp: evidence_binds_def)
  have inv: "validateInventory inventory False = None" using refresh_valid [OF assms(3), of 10 storagePath] h(4) by simp
  have run: "safe_text (br_Stdout r)" "safe_text (br_Stderr r)"
      "\<And>code. runErr = Some code \<Longrightarrow> code = [] \<or> (validateCode code True = None \<and> length code \<le> 57)"
    using assms(4) [unfolded runs_safely_def, rule_format, OF conf, of 9] h(5) by auto
  note v = classified_valid [OF assms(1) names inv run post_change_code_valid h(6)]
  have "good_items q (mark_unfinished ''phase_persistence_failed'' (res_Items c))" using v by (simp add: mark_unfinished_good)
  with v show "validateExecutorResult (if a \<noteq> None then phase_failed r c else c) = None
      \<and> map it_Name (res_Items (if a \<noteq> None then phase_failed r c else c)) = req_Items q"
    by (intro result_valid assms(1)) (auto simp: phase_failed_def)
qed

lemma covers_tree:
  "all_paths (\<lambda>_ r _. validateExecutorResult r = None \<and> map it_Name (res_Items r) = names) path t \<Longrightarrow> covers names (executor_run_of t)"
  by (induction t arbitrary: path) auto


subsection \<open>A native run needs the review\<close>

definition runs_of :: "resource_event list \<Rightarrow> nat" where
  "runs_of log = length (filter (\<lambda>e. case e of RuntimeRun _ \<Rightarrow> True | _ \<Rightarrow> False) log)"

lemma runs_of_simps [simp]:
  "runs_of [] = 0" "runs_of (RuntimeRun k # log) = Suc (runs_of log)" "runs_of (a @ b) = runs_of a + runs_of b"
  by (simp_all add: runs_of_def)

lemma runs_of_no_run: "no_run log \<Longrightarrow> runs_of log = 0"
  by (auto simp: no_run_def runs_of_def filter_empty_conv split: resource_event.splits)


text \<open>C15: The result does not overclaim.  Success is reported only when the broker ran the reviewed plan
  without error and reported success, every phase report was durable and the evidence afterwards
  still equals the reviewed evidence; and when the broker started a process, the result says that
  state may have changed and is neither not attempted nor incompatible.\<close>

theorem executor_does_not_overclaim:
  assumes "runs_safely w"
  shows "all_paths (\<lambda>path r log.
      (res_State r = StateSucceeded \<longrightarrow> (\<forall>report \<in> set path. snd report = None) \<and>
         (\<exists>confirmation post. ew_PrepareExecution w 7 = Inr confirmation \<and> ew_PrepareExecution w 15 = Inr post
            \<and> pl_ReviewedEvidenceSHA256 confirmation = ReviewedEvidenceSHA256 q \<and> pl_ReviewedEvidenceSHA256 post = ReviewedEvidenceSHA256 q
            \<and> br_Outcome (fst (ew_Run w 9 (broker_request confirmation))) = OutcomeSucceeded
            \<and> snd (ew_Run w 9 (broker_request confirmation)) = None))
      \<and> (runs_of log = 1 \<longrightarrow> (\<exists>confirmation. ew_PrepareExecution w 7 = Inr confirmation \<and>
            (br_Started (fst (ew_Run w 9 (broker_request confirmation))) \<longrightarrow>
               res_MayHaveChanged r \<and> res_State r \<noteq> StateNotAttempted \<and> res_State r \<noteq> StateIncompatible)))
      \<and> (runs_of log = 0 \<longrightarrow> \<not> res_MayHaveChanged r \<and> res_State r \<noteq> StateSucceeded)) [] (execute_tree w q)"
proof (rule execute_paths, goal_cases)
  case (4 plan confirmation certs storagePath before after inventory events r runErr a pre post c)
  have runs: "runs_of (pre @ RuntimeRun 8 # post) = 1" using 4(13,14) by (simp add: runs_of_no_run)
  have honest: "br_MayHaveChanged r \<longleftrightarrow> br_Started r"
    using assms [unfolded runs_safely_def, rule_format, OF 4(3), of 9] 4(11) by auto
  have post: "\<exists>p. ew_PrepareExecution w 15 = Inr p \<and> pl_ReviewedEvidenceSHA256 p = ReviewedEvidenceSHA256 q"
    if "post_change_code q (ew_PrepareExecution w 15) = []"
    using that by (auto simp: post_change_code_def split: sum.splits if_splits)
  show ?case
  proof (cases runErr)
    case (Some code)
    note f = classify_error_fields [OF 4(12) [unfolded Some]]
    show ?thesis using f runs 4(3,11) honest Some by (auto simp: phase_failed_def)
  next
    case None
    note f = classify_fields [OF 4(12) [unfolded None]]
    show ?thesis using f runs 4(3,5,11) honest None post
      by (cases "br_Outcome r") (auto simp: phase_failed_def outcome_state_def split: if_splits)
  qed
qed (auto simp: runs_of_no_run unstarted_result_def refusal_state_def phase_result_def)

subsection \<open>Resources\<close>

text \<open>Every lease is released last, every plan is closed after it was opened, and every prepared
  runtime handle is closed, read or run exactly once.\<close>

definition all_released :: "resource_event list \<Rightarrow> bool" where
  "all_released log \<longleftrightarrow>
     count_list log LeaseAcquired = count_list log LeaseReleased \<and> (LeaseAcquired \<in> set log \<longrightarrow> last log = LeaseReleased)
     \<and> (\<forall>k. PlanOpened k \<in> set log \<longrightarrow> PlanClosed k \<in> set (dropWhile (\<lambda>e. e \<noteq> PlanOpened k) log))
     \<and> (\<forall>k. count_list log (RuntimePrepared k) = count_list log (RuntimeClosed k) + count_list log (RuntimeRead k) + count_list log (RuntimeRun k))"

lemma refresh_events:
  "snd (snd (refreshInventory w m sp)) = [] \<or> snd (snd (refreshInventory w m sp)) = [RuntimePrepared (m + 2), RuntimeRead (m + 2)]"
  by (auto simp: refreshInventory_def split: option.splits sum.splits)

text \<open>The executor releases what it acquires: on every path through an execution the workspace lease
  is released as the last action, every native plan with its confidential buffers is closed, and
  every prepared executable is closed or handed over exactly once.\<close>

theorem executor_releases_resources: "all_paths (\<lambda>_ _ log. all_released log) [] (execute_tree w q)"
proof -
  show ?thesis
  proof (cases "ew_TryAcquire w 0")
    case (Some err)
    then show ?thesis by (simp add: execute_tree_def all_released_def)
  next
    case None
    show ?thesis
    proof (cases "ew_PrepareExecution w 1")
      case (Inl err)
      then show ?thesis using None refresh_events [of w 20 "[]"] by (auto simp: execute_tree_def finishWithoutRun_paths all_released_def)
    next
      case (Inr plan)
      let ?sp = "in_StoragePath (pl_Intent plan)"
      obtain before result events where b: "refreshInventory w 2 ?sp = (before, result, events)" by (metis prod.exhaust)
      obtain after inventory events' where a: "refreshInventory w 10 ?sp = (after, inventory, events')" by (metis prod.exhaust)
      note ev = refresh_events [of w 2 ?sp, unfolded b, simplified] refresh_events [of w 10 ?sp, unfolded a, simplified]
        refresh_events [of w 20 ?sp]
      have confirmed: "all_paths (\<lambda>_ _ log. all_released log) []
          (execute_confirmed w q confirmation certs ?sp before ([LeaseAcquired, PlanOpened 1] @ events @ [PlanOpened 2, PlanClosed 1]))" for confirmation certs
        using ev by (auto simp: execute_confirmed_def run_and_classify_def finishWithoutRun_paths all_released_def a Let_def split: prod.split sum.split)
      show ?thesis
        using None Inr ev confirmed
        by (auto simp: execute_tree_def execute_planned_def b finishWithoutRun_paths Let_def all_released_def split: sum.split)
    qed
  qed
qed

subsection \<open>Evidence\<close>

text \<open>What is persisted of the output: everything, in order and under its headings, when it fits the
  bound; otherwise a prefix that misses at most three bytes of the bound and does not cut a
  character; nothing when the broker discarded it.  The flag says which.\<close>

theorem persisted_output:
  assumes "safe_text (br_Stdout r)" "safe_text (br_Stderr r)"
  shows "validateOutput (fst (operationOutput r)) = None \<and>
    (if br_OutputDiscarded r then operationOutput r = ([], True)
     else if length (joined_output r) \<le> maximumPersistedOutput then operationOutput r = (joined_output r, False)
     else snd (operationOutput r) \<and> (\<exists>rest. joined_output r = fst (operationOutput r) @ rest)
        \<and> maximumPersistedOutput < length (fst (operationOutput r)) + 4)"
  using operationOutput_valid [OF assms] truncated_output [OF joined_safe [OF assms], of maximumPersistedOutput]
  by (auto simp: operationOutput_def Let_def)

lemma fold_last_match:
  "fold (\<lambda>line failed. case f line of Some name \<Rightarrow> if name \<in> K then name else failed | None \<Rightarrow> failed) ls z = n \<Longrightarrow>
     n = z \<or> (n \<in> K \<and> (\<exists>line \<in> set ls. f line = Some n))"
  by (induction ls arbitrary: z) (fastforce split: option.splits if_splits)+

lemma failed_renewal:
  assumes "failedRenewalCertificate r certs changed inventory = n" "n \<noteq> []"
  shows "br_Outcome r = OutcomeFailed \<and> \<not> br_OutputDiscarded r \<and> inv_State inventory = InventoryRefreshed \<and> n \<notin> changed
    \<and> (\<exists>line \<in> set (split_at (CHR 0x0A) (br_Stdout r @ [CHR 0x0A] @ br_Stderr r)). parseRenewalAttempt line = Some n)"
proof -
  have guard: "br_Outcome r = OutcomeFailed \<and> \<not> br_OutputDiscarded r \<and> inv_State inventory = InventoryRefreshed"
    by (rule ccontr) (use assms in \<open>auto simp: failedRenewalCertificate_def split: if_splits\<close>)
  then have "fold (\<lambda>line failed. case parseRenewalAttempt line of Some name \<Rightarrow> if name \<in> ec_Name ` set certs - changed then name else failed | None \<Rightarrow> failed)
      (split_at (CHR 0x0A) (br_Stdout r @ [CHR 0x0A] @ br_Stderr r)) [] = n"
    using assms(1) by (simp add: failedRenewalCertificate_def)
  from fold_last_match [OF this] assms(2) guard show ?thesis by blast
qed

text \<open>C24: Every item rests on evidence.  An item is completed only when the whole run succeeded or its
  native artifact differs between the two inventories; it has failed only when the run failed, its
  artifact is unchanged, and the complete log has the upstream record of a renewal attempt for it.\<close>

theorem items_rest_on_evidence:
  assumes "i \<in> set (res_Items (classifyExecution r runErr certs before after inventory post))" "it_Name i \<noteq> []"
  shows "(it_State i = ItemCompleted \<longrightarrow>
            (runErr = None \<and> br_Outcome r = OutcomeSucceeded) \<or> it_Name i \<in> changedCertificateNames before after)
    \<and> (it_State i = ItemFailed \<longrightarrow> runErr = None \<and> br_Outcome r = OutcomeFailed \<and> \<not> br_OutputDiscarded r
         \<and> inv_State inventory = InventoryRefreshed \<and> it_Name i \<notin> changedCertificateNames before after
         \<and> (\<exists>line \<in> set (split_at (CHR 0x0A) (br_Stdout r @ [CHR 0x0A] @ br_Stderr r)). parseRenewalAttempt line = Some (it_Name i)))"
proof (cases runErr)
  case (Some code)
  with assms show ?thesis
    by (auto simp: classify_error_fields(6) [OF refl] itemResults_def split: if_splits)
next
  case None
  let ?ch = "changedCertificateNames before after"
  obtain c where c: "i = classify_item r ?ch (failedRenewalCertificate r certs ?ch inventory) c
      \<or> (it_State i = ItemAmbiguous)"
    using assms(1) None by (auto simp: classify_fields(6) [OF refl] mark_unfinished_def split: if_splits)
  then show ?thesis
    using assms(2) None failed_renewal [of r certs ?ch inventory "it_Name i"]
    by (auto simp: classify_item_def split: if_splits)
qed

subsection \<open>The broker as the executor's runner\<close>

definition broker_answers ::
  "RunnerPolicy \<Rightarrow> (nat \<Rightarrow> process_world) \<Rightarrow> nat \<Rightarrow> BrokerRequest \<Rightarrow> BrokerResult \<times> bytes option" where
  "broker_answers p W k q = (let (r, e) = Run_broker p (W k) q in (r, map_option broker_code_text e))"

text \<open>The native plans carry text as observed secrets.\<close>

definition text_secrets :: "execution_world \<Rightarrow> bool" where
  "text_secrets w \<longleftrightarrow> (\<forall>m plan. ew_PrepareExecution w m = Inr plan \<longrightarrow> list_all ValidString (pl_ObservedSecrets plan))"

lemma broker_code_valid: "validateCode (broker_code_text c) True = None \<and> length (broker_code_text c) \<le> 57"
  by (cases c) (simp_all add: validateCode_ascii ascii_def code_rune_def)

lemma broker_runs_safely:
  assumes "NewRunner b p0 = Inr p" "ew_Run w = broker_answers p W" "text_secrets w"
  shows "runs_safely w"
proof -
  have "let (r, err) = ew_Run w k (broker_request plan)
      in safe_text (br_Stdout r) \<and> safe_text (br_Stderr r) \<and> (br_MayHaveChanged r \<longleftrightarrow> br_Started r)
         \<and> (\<forall>code. err = Some code \<longrightarrow> code = [] \<or> (validateCode code True = None \<and> length code \<le> 57))"
    if plan: "ew_PrepareExecution w m = Inr plan" for k m plan
  proof -
    obtain r e where run: "Run_broker p (W k) (broker_request plan) = (r, e)" by (metis prod.exhaust)
    have "list_all ValidString (rq_ObservedSecrets (broker_request plan))"
      using assms(3) plan by (simp add: text_secrets_def broker_request_def)
    from broker_text_safe [OF assms(1) run this] broker_started [OF run] show ?thesis
      using broker_code_valid by (auto simp: assms(2) broker_answers_def run)
  qed
  then show ?thesis by (auto simp: runs_safely_def)
qed

subsection \<open>An execution that succeeds\<close>

definition example_plan :: ExecutionPlan where
  "example_plan =
     \<lparr>pl_Intent = \<lparr>in_WorkingDirectory = rq_WorkingDirectory Broker_Properties.example_request,
        in_ConfigurationPath = rq_ConfigurationPath Broker_Properties.example_request, in_StoragePath = ''/srv/storage'',
        in_RuntimeIdentity = [], in_RuntimeManifestID = [],
        in_Certificates = requestedCertificates Jobs_Properties.example_request, in_CloudAccess = []\<rparr>,
      pl_Revision = [], pl_ReviewedEvidenceSHA256 = ReviewedEvidenceSHA256 Jobs_Properties.example_request,
      pl_ObservedSecrets = [], pl_Environment = rq_Environment Broker_Properties.example_request\<rparr>"

definition example_native :: execution_world where
  "example_native =
     \<lparr>ew_TryAcquire = (\<lambda>_. None), ew_Acquire = (\<lambda>_. None), ew_PrepareExecution = (\<lambda>_. Inr example_plan),
      ew_Load = (\<lambda>_. Some \<lparr>rv_StoragePath = ''/srv/storage'', rv_Evidence = []\<rparr>), ew_Verify = (\<lambda>_ r. Some r),
      ew_prepareRuntime = (\<lambda>_. True), ew_Run = broker_answers DefaultRunnerPolicy (\<lambda>_. Broker_Properties.example_world),
      ew_Read = (\<lambda>_ _. Inr [])\<rparr>"

lemma example_native_hyps:
  "evidence_binds example_native Jobs_Properties.example_request" "readable example_native" "text_secrets example_native"
  "runs_safely example_native"
proof -
  show "evidence_binds example_native Jobs_Properties.example_request"
    by (simp add: evidence_binds_def example_native_def example_plan_def requestedCertificates_def comp_def)
  show "readable example_native" by (simp add: readable_def example_native_def)
  show secrets: "text_secrets example_native" by (simp add: text_secrets_def example_native_def example_plan_def)
  show "runs_safely example_native"
    by (rule broker_runs_safely [OF example_runner _ secrets]) (simp add: example_native_def)
qed

primrec durable_leaf :: "execution_tree \<Rightarrow> Result \<times> resource_event list" where
  "durable_leaf (EDone r log) = (r, log)"
| "durable_leaf (EReport ph k) = durable_leaf (k None)"

lemma all_paths_durable: "all_paths P path t \<Longrightarrow> \<exists>path'. P path' (fst (durable_leaf t)) (snd (durable_leaf t))"
  by (induction t arbitrary: path) (auto, blast)

lemma example_broker_run:
  obtains r where "ew_Run example_native 9 (broker_request example_plan) = (r, None)" "br_Outcome r = OutcomeSucceeded"
proof -
  have "broker_request example_plan = Broker_Properties.example_request"
    by (simp add: broker_request_def example_plan_def Broker_Properties.example_request_def)
  then show ?thesis using that example_run
    by (auto simp: example_native_def broker_answers_def)
qed

lemma example_execution:
  "res_State (fst (durable_leaf (execute_tree example_native Jobs_Properties.example_request))) = StateSucceeded"
  "runs_of (snd (durable_leaf (execute_tree example_native Jobs_Properties.example_request))) = 1"
proof -
  obtain r where r: "ew_Run example_native 9 (broker_request example_plan) = (r, None)" "br_Outcome r = OutcomeSucceeded"
    by (rule example_broker_run)
  have w: "ew_TryAcquire example_native k = None" "ew_PrepareExecution example_native k = Inr example_plan"
    "ew_prepareRuntime example_native k" for k by (simp_all add: example_native_def)
  have inv: "refreshInventory example_native m ''/srv/storage'' =
      ([], \<lparr>inv_State = InventoryRefreshed, inv_Code = ''inventory_refreshed'', inv_CertificateCount = Some 0\<rparr>,
       [RuntimePrepared (m + 2), RuntimeRead (m + 2)])" for m
    by (simp add: refreshInventory_def example_native_def)
  have p: "in_StoragePath (pl_Intent example_plan) = ''/srv/storage''"
    "pl_ReviewedEvidenceSHA256 example_plan = ReviewedEvidenceSHA256 Jobs_Properties.example_request"
    by (simp_all add: example_plan_def)
  show "res_State (fst (durable_leaf (execute_tree example_native Jobs_Properties.example_request))) = StateSucceeded"
    "runs_of (snd (durable_leaf (execute_tree example_native Jobs_Properties.example_request))) = 1"
    by (simp_all add: execute_tree_def execute_planned_def execute_confirmed_def run_and_classify_def w p inv r Let_def
        classify_fields [OF refl] outcome_state_def post_change_code_def runs_of_def)
qed



theorem executor_does_not_overclaim_witness:
  "\<exists>r log. durable_leaf (execute_tree example_native Jobs_Properties.example_request) = (r, log) \<and> res_State r = StateSucceeded
     \<and> (\<exists>post. ew_PrepareExecution example_native 15 = Inr post
         \<and> pl_ReviewedEvidenceSHA256 post = ReviewedEvidenceSHA256 Jobs_Properties.example_request)"
  using all_paths_durable [OF executor_does_not_overclaim [OF example_native_hyps(4), of Jobs_Properties.example_request]] example_execution(1)
  by (metis prod.collapse)

definition example_run_result :: "BrokerResult" where
  "example_run_result =
     \<lparr>br_Outcome = OutcomeFailed, br_Started = True, br_StartedAt = example_time, br_FinishedAt = example_time, br_ExitCode = 1,
      br_ExitCodeKnown = True, br_TermSignal = [], br_Termination = None, br_Stdout = ''renewing'', br_Stderr = ''failed'',
      br_OutputDiscarded = False, br_MayHaveChanged = True\<rparr>"

theorem persisted_output_witness:
  "operationOutput example_run_result =
     (''[stdout]'' @ [CHR 0x0A] @ ''renewing'' @ [CHR 0x0A] @ ''[stderr]'' @ [CHR 0x0A] @ ''failed'', False)"
proof -
  have "safe_text (br_Stdout example_run_result)" "safe_text (br_Stderr example_run_result)"
    by (simp_all add: example_run_result_def safe_text_ascii)
  from persisted_output [OF this] show ?thesis
    by (simp add: example_run_result_def joined_output_def HasSuffix_def maximumPersistedOutput_def split: if_splits)
qed

theorem items_rest_on_evidence_witness:
  "\<exists>i. i \<in> set (res_Items (classifyExecution example_run_result None (requestedCertificates Jobs_Properties.example_request) [] []
        (unavailableInventory ''workspace_changed'') [])) \<and> it_Name i = ''example.org'' \<and> it_State i \<noteq> ItemCompleted \<and> it_State i \<noteq> ItemFailed"
proof -
  let ?items = "res_Items (classifyExecution example_run_result None (requestedCertificates Jobs_Properties.example_request) [] []
        (unavailableInventory ''workspace_changed'') [])"
  have "map it_Name ?items = [''example.org'']"
    by (simp add: classify_fields [OF refl] classify_item_good comp_def requestedCertificates_def Jobs_Properties.example_request_def)
  then obtain i where i: "i \<in> set ?items" "it_Name i = ''example.org''" by (auto simp: map_eq_Cons_conv)
  from items_rest_on_evidence [OF i(1)] i(2) have "it_State i \<noteq> ItemCompleted \<and> it_State i \<noteq> ItemFailed"
    by (auto simp: example_run_result_def changedCertificateNames_def)
  with i show ?thesis by blast
qed

end
