(* ===== verification/Operation_Settles.thy ===== *)
theory Operation_Settles
  imports Operation_Properties
begin

text \<open>
  The worker, the executor and the broker together: \<open>operation.New\<close> hands the executor to
  \<open>jobs.New\<close>, and the executor runs the native client through the broker's runner.
\<close>

subsection \<open>The composed executor\<close>

definition native_executor :: "(nat \<Rightarrow> execution_world) \<Rightarrow> (nat \<Rightarrow> gotime) \<Rightarrow> (nat \<Rightarrow> bool) \<Rightarrow> Executor" where
  "native_executor W now carried =
     \<lparr>d_Execute = (\<lambda>n _ q. Execute (W n) q), d_Reconcile = (\<lambda>n _. Some (Reconcile (W n))), d_now = now, d_carried = carried\<rparr>"

text \<open>What the composition rests on: the reviewed digest determines the certificates, the inventory reader
  keeps its bounds, the observed secrets are text, and every run is a run of the broker.\<close>

definition brokered :: "RunnerPolicy \<Rightarrow> (nat \<Rightarrow> execution_world) \<Rightarrow> Request \<Rightarrow> bool" where
  "brokered p W q \<longleftrightarrow> (\<forall>n. evidence_binds (W n) q \<and> readable (W n) \<and> text_secrets (W n) \<and> (\<exists>P. ew_Run (W n) = broker_answers p P))"

lemma finishWithoutRun_orderly:
  "validPhaseTransition ph PhaseRefreshingInventory \<Longrightarrow>
   orderly ph (executor_run_of (finishWithoutRun w m log deferred storagePath certificates code))"
  by (simp add: finishWithoutRun_def Let_def case_prod_beta)

lemma execute_orderly: "orderly PhaseRevalidating (Execute w q)"
proof -
  note f = finishWithoutRun_orderly [of PhaseRevalidating]
  have "orderly PhaseRevalidating (executor_run_of (execute_confirmed w q plan certs sp before log))" for plan certs sp before log
    by (simp add: execute_confirmed_def run_and_classify_def Let_def case_prod_beta f)
  then have "orderly PhaseRevalidating (executor_run_of (execute_planned w q plan))" for plan
    by (simp add: execute_planned_def Let_def case_prod_beta f split: sum.split)
  then show ?thesis by (simp add: Execute_def execute_tree_def f split: option.split sum.split)
qed

lemma durable_result_leaf: "durable_result (executor_run_of t) = fst (durable_leaf t)"
  by (induction t) auto

lemma brokered_valid:
  assumes "NewRunner b p0 = Inr p" "brokered p W q" "validateRequest q = None"
  shows "covers (req_Items q) (Execute (W n) q)"
    "validateExecutorResult (durable_result (Execute (W n) q)) = None"
    "map it_Name (res_Items (durable_result (Execute (W n) q))) = req_Items q"
proof -
  obtain P where w: "evidence_binds (W n) q" "readable (W n)" "text_secrets (W n)" "ew_Run (W n) = broker_answers p P"
    using assms(2) by (auto simp: brokered_def)
  note v = execution_valid [OF assms(3) w(1,2) broker_runs_safely [OF assms(1) w(4,3)]]
  show "covers (req_Items q) (Execute (W n) q)" using covers_tree [OF v] by (simp add: Execute_def)
  show "validateExecutorResult (durable_result (Execute (W n) q)) = None"
    "map it_Name (res_Items (durable_result (Execute (W n) q))) = req_Items q"
    using all_paths_durable [OF v] by (auto simp: Execute_def durable_result_leaf)
qed



end
