(* ===== verification/Operation_Service.thy ===== *)
theory Operation_Service
  imports Token_Encoding Operation_Settles
begin

text \<open>
  The operation service (\<open>internal/operation/service.go\<close>): review tokens, the preview, the reviewed
  manual request and the scheduled request, each under the workspace lease.  One call is a function
  of the answers the coordinator, the configuration and the lease give it, of the state of the
  durable worker, and returns what it acquired and released; \<open>enqueueMu\<close> makes the two requests
  atomic with respect to each other.
\<close>

subsection \<open>Data\<close>

datatype operation_error =
    OpErrBusy | OpErrActive | OpErrChanged | OpErrInvalid | OpErrRecovery | OpErrWorkspace | OpErrConfiguration
  | OpErrUnavailable | OpErrGuard bytes

record OperationPolicy =
  pol_Timeout :: int

definition OperationDefaultPolicy :: OperationPolicy where
  "OperationDefaultPolicy = \<lparr>pol_Timeout = 30 * 60 * second\<rparr>"

record TokenService =
  ts_policy :: OperationPolicy
  ts_tokenKey :: bytes

record Preview =
  pv_ReviewedPreviewToken :: bytes
  pv_Intent :: ExecutionIntent
  pv_Policy :: OperationPolicy

datatype Purpose = PurposeManualRun | PurposeScheduled

record call_world =
  cw_TryAcquire :: "Purpose \<Rightarrow> sentinel set option"
  cw_PrepareExecution :: "(sentinel set, ExecutionPlan) result"
  cw_releases :: bool

text \<open>\<open>New\<close>: which dependencies are present, the policy, what the random source reads and whether the
  job options are accepted.\<close>

definition operation_New :: "bool list \<Rightarrow> OperationPolicy \<Rightarrow> bytes option \<Rightarrow> bool \<Rightarrow> (bytes, TokenService) result" where
  "operation_New present policy random jobs_accepts =
     (if False \<in> set present then Inl ''native operation dependencies are required''
      else if pol_Timeout policy \<le> 0 \<or> pol_Timeout policy > 60 * 60 * second then Inl ''native operation policy is invalid''
      else (case random of
              None \<Rightarrow> Inl ''initialize native operation review tokens''
            | Some key \<Rightarrow> if \<not> jobs_accepts then Inl ''operation options'' else Inr \<lparr>ts_policy = policy, ts_tokenKey = key\<rparr>))"

subsection \<open>Review tokens\<close>

definition write_certificate :: "ExecutionCertificate \<Rightarrow> bytes" where
  "write_certificate c =
     writeTokenText (ec_Name c) @ write_list writeTokenText (ec_Domains c) @ writeTokenText (ec_Account c)
     @ writeTokenText (ec_CA c) @ writeTokenText (ec_ChallengeName c) @ writeTokenText (ec_ChallengeMode c)"

definition write_access :: "ExecutionCloudAccess \<Rightarrow> bytes" where
  "write_access a =
     writeTokenText (ca_ChallengeName a) @ writeTokenText (ca_Provider a) @ writeTokenText (ca_AuthMode a)
     @ write_list writeTokenText (ca_Files a) @ writeTokenText (ca_Helper a) @ writeTokenText (ca_Metadata a)"

definition review_message :: "OperationPolicy \<Rightarrow> bytes \<Rightarrow> bytes \<Rightarrow> ExecutionIntent \<Rightarrow> bytes" where
  "review_message policy revision evidence intent =
     writeTokenText ''acmemux-manual-operation-preview-v2'' @ writeTokenText revision @ writeTokenText evidence
     @ writeTokenText (in_WorkingDirectory intent) @ writeTokenText (in_ConfigurationPath intent)
     @ writeTokenText (in_StoragePath intent) @ writeTokenText (in_RuntimeIdentity intent)
     @ writeTokenText (in_RuntimeManifestID intent) @ write_list write_certificate (in_Certificates intent)
     @ write_list write_access (in_CloudAccess intent) @ writeTokenInteger (nat (pol_Timeout policy div second))"

definition reviewToken :: "(bytes \<Rightarrow> bytes \<Rightarrow> bytes) \<Rightarrow> TokenService \<Rightarrow> bytes \<Rightarrow> bytes \<Rightarrow> ExecutionIntent \<Rightarrow> bytes" where
  "reviewToken mac service revision evidence intent =
     RawURLEncode (mac (ts_tokenKey service) (review_message (ts_policy service) revision evidence intent))"

definition validReviewToken :: "bytes \<Rightarrow> bool" where
  "validReviewToken v \<longleftrightarrow> length v = 43 \<and> (case RawURLDecode v of None \<Rightarrow> False | Some decoded \<Rightarrow> length decoded = 32)"

subsection \<open>Requests\<close>

definition requestFromPlan :: "ExecutionPlan \<Rightarrow> Request" where
  "requestFromPlan plan =
     \<lparr>ReviewedEvidenceSHA256 = pl_ReviewedEvidenceSHA256 plan,
      req_Items = map ec_Name (in_Certificates (pl_Intent plan)),
      req_Context = \<lparr>RuntimeIdentity = in_RuntimeIdentity (pl_Intent plan), RuntimeManifestID = in_RuntimeManifestID (pl_Intent plan),
        ConfigurationPath = in_ConfigurationPath (pl_Intent plan), StoragePath = in_StoragePath (pl_Intent plan)\<rparr>,
      req_Details = map (\<lambda>c. \<lparr>ri_Name = ec_Name c, ri_Account = ec_Account c, ri_CA = ec_CA c,
        ri_ChallengeKind = ec_ChallengeKind c, ri_ChallengeMode = ec_ChallengeMode c\<rparr>) (in_Certificates (pl_Intent plan))\<rparr>"

definition operationAcquireError :: "sentinel set \<Rightarrow> operation_error" where
  "operationAcquireError err = (if WorkspaceErrWorkspaceBusy \<in> err then OpErrBusy else OpErrUnavailable)"

definition operationPreparationError :: "sentinel set \<Rightarrow> operation_error" where
  "operationPreparationError err =
     (if ConfigurationErrBusy \<in> err \<or> WorkspaceErrWorkspaceBusy \<in> err then OpErrBusy
      else if ConfigurationErrChanged \<in> err \<or> WorkspaceErrSourceChanged \<in> err then OpErrChanged
      else if ConfigurationErrInvalid \<in> err \<or> WorkspaceErrRecoveryRequired \<in> err \<or> WorkspaceErrNoSelection \<in> err then
        (if WorkspaceErrRecoveryRequired \<in> err then OpErrRecovery
         else if WorkspaceErrNoSelection \<in> err then OpErrWorkspace else OpErrConfiguration)
      else OpErrUnavailable)"

definition operationEnqueueError :: "jobs_error \<Rightarrow> operation_error" where
  "operationEnqueueError err = (if err = ErrActive then OpErrActive else OpErrUnavailable)"

definition Preview_operation ::
  "(bytes \<Rightarrow> bytes \<Rightarrow> bytes) \<Rightarrow> TokenService \<Rightarrow> call_world \<Rightarrow> (operation_error, Preview) result \<times> resource_event list" where
  "Preview_operation mac service w =
     (case cw_TryAcquire w PurposeManualRun of
        Some err \<Rightarrow> (Inl (operationAcquireError err), [])
      | None \<Rightarrow>
          (case cw_PrepareExecution w of
             Inl err \<Rightarrow> (Inl (operationPreparationError err), [LeaseAcquired, LeaseReleased])
           | Inr plan \<Rightarrow>
               (if \<not> cw_releases w then Inl OpErrUnavailable
                else Inr \<lparr>pv_ReviewedPreviewToken = reviewToken mac service (pl_Revision plan) (pl_ReviewedEvidenceSHA256 plan) (pl_Intent plan),
                          pv_Intent = pl_Intent plan, pv_Policy = ts_policy service\<rparr>,
                [LeaseAcquired, PlanOpened 1, LeaseReleased, PlanClosed 1])))"

text \<open>The durable commit that both requests end with; \<open>raw\<close> is the identifier the random source gives.\<close>

definition commit_request ::
  "Executor \<Rightarrow> bytes option \<Rightarrow> Kind \<Rightarrow> Request \<Rightarrow> Service \<Rightarrow> (operation_error, Operation) result \<times> Service" where
  "commit_request d raw kind request s =
     (case enqueue d raw kind request s of
        (Inl err, s') \<Rightarrow> (Inl (operationEnqueueError err), s')
      | (Inr x, s') \<Rightarrow> (Inr x, s'))"

text \<open>\<open>guard\<close> is \<open>None\<close> when no guard was passed and otherwise carries the guard's answer.\<close>

definition Enqueue_reviewed ::
  "(bytes \<Rightarrow> bytes \<Rightarrow> bytes) \<Rightarrow> TokenService \<Rightarrow> call_world \<Rightarrow> bytes option option \<Rightarrow> bytes \<Rightarrow> Executor \<Rightarrow> bytes option \<Rightarrow> Service
   \<Rightarrow> (operation_error, Operation) result \<times> Service \<times> resource_event list" where
  "Enqueue_reviewed mac service w guard reviewedPreviewToken d raw s =
     (if guard = None \<or> \<not> validReviewToken reviewedPreviewToken then (Inl OpErrInvalid, s, [])
      else
        (case cw_TryAcquire w PurposeManualRun of
           Some err \<Rightarrow> (Inl (operationAcquireError err), s, [])
         | None \<Rightarrow>
             (case cw_PrepareExecution w of
                Inl err \<Rightarrow> (Inl (operationPreparationError err), s, [LeaseAcquired, LeaseReleased])
              | Inr plan \<Rightarrow>
                  let log = [LeaseAcquired, PlanOpened 1, PlanClosed 1, LeaseReleased]
                  in if reviewToken mac service (pl_Revision plan) (pl_ReviewedEvidenceSHA256 plan) (pl_Intent plan) \<noteq> reviewedPreviewToken
                     then (Inl OpErrChanged, s, log)
                     else if \<not> cw_releases w then (Inl OpErrUnavailable, s, log)
                     else
                       (case the guard of
                          Some err \<Rightarrow> (Inl (OpErrGuard err), s, log)
                        | None \<Rightarrow>
                            let (answer, s') = commit_request d raw KindManual (requestFromPlan plan) s
                            in (answer, s', log)))))"

definition EnqueueScheduled ::
  "call_world \<Rightarrow> Executor \<Rightarrow> bytes option \<Rightarrow> Service \<Rightarrow> (operation_error, Operation) result \<times> Service \<times> resource_event list" where
  "EnqueueScheduled w d raw s =
     (case cw_TryAcquire w PurposeScheduled of
        Some err \<Rightarrow> (Inl (operationAcquireError err), s, [])
      | None \<Rightarrow>
          (case cw_PrepareExecution w of
             Inl err \<Rightarrow> (Inl (operationPreparationError err), s, [LeaseAcquired, LeaseReleased])
           | Inr plan \<Rightarrow>
               let log = [LeaseAcquired, PlanOpened 1, PlanClosed 1, LeaseReleased]
               in if \<not> cw_releases w then (Inl OpErrUnavailable, s, log)
                  else
                    let (answer, s') = commit_request d raw KindScheduled (requestFromPlan plan) s
                    in (answer, s', log)))"

subsection \<open>The message determines the review\<close>

definition sized_certificate :: "ExecutionCertificate \<Rightarrow> bool" where
  "sized_certificate c \<longleftrightarrow> sized_texts (ec_Domains c)
     \<and> list_all (\<lambda>v. uint64 (length v)) [ec_Name c, ec_Account c, ec_CA c, ec_ChallengeName c, ec_ChallengeMode c]"

definition shown_certificate :: "ExecutionCertificate \<Rightarrow> ExecutionCertificate" where
  "shown_certificate c = c\<lparr>ec_ChallengeKind := []\<rparr>"

definition sized_access :: "ExecutionCloudAccess \<Rightarrow> bool" where
  "sized_access a \<longleftrightarrow> sized_texts (ca_Files a)
     \<and> list_all (\<lambda>v. uint64 (length v)) [ca_ChallengeName a, ca_Provider a, ca_AuthMode a, ca_Helper a, ca_Metadata a]"

lemma shown_certificate_eq:
  "shown_certificate c = shown_certificate d \<longleftrightarrow> ec_Name c = ec_Name d \<and> ec_Domains c = ec_Domains d \<and> ec_Account c = ec_Account d
     \<and> ec_CA c = ec_CA d \<and> ec_ChallengeName c = ec_ChallengeName d \<and> ec_ChallengeMode c = ec_ChallengeMode d"
  by (cases c; cases d) (auto simp: shown_certificate_def)

interpretation certificate_code: token_code write_certificate sized_certificate shown_certificate
  by unfold_locales (simp add: shown_certificate_eq write_certificate_def sized_certificate_def token_fields)

interpretation access_code: token_code write_access sized_access "\<lambda>a. a"
proof
  fix c d :: ExecutionCloudAccess and r s
  assume "sized_access c" "sized_access d" "write_access c @ r = write_access d @ s"
  then show "c = d \<and> r = s" by (cases c; cases d) (simp add: write_access_def sized_access_def token_fields)
qed

definition sized_review :: "bytes \<Rightarrow> bytes \<Rightarrow> ExecutionIntent \<Rightarrow> bool" where
  "sized_review revision evidence i \<longleftrightarrow>
     list_all (\<lambda>v. uint64 (length v)) [revision, evidence, in_WorkingDirectory i, in_ConfigurationPath i, in_StoragePath i,
       in_RuntimeIdentity i, in_RuntimeManifestID i]
     \<and> uint64 (length (in_Certificates i)) \<and> list_all sized_certificate (in_Certificates i)
     \<and> uint64 (length (in_CloudAccess i)) \<and> list_all sized_access (in_CloudAccess i)"

definition shown_intent :: "ExecutionIntent \<Rightarrow> ExecutionIntent" where
  "shown_intent i = i\<lparr>in_Certificates := map shown_certificate (in_Certificates i)\<rparr>"

lemma review_message_unique:
  assumes "sized_review rv ev i" "sized_review rv' ev' i'" "review_message p rv ev i = review_message p rv' ev' i'"
  shows "rv = rv' \<and> ev = ev' \<and> shown_intent i = shown_intent i'"
proof -
  let ?rest = "\<lambda>i. write_list write_access (in_CloudAccess i) @ writeTokenInteger (nat (pol_Timeout p div second))"
  have f: "rv = rv'" "ev = ev'" "in_WorkingDirectory i = in_WorkingDirectory i'" "in_ConfigurationPath i = in_ConfigurationPath i'"
    "in_StoragePath i = in_StoragePath i'" "in_RuntimeIdentity i = in_RuntimeIdentity i'" "in_RuntimeManifestID i = in_RuntimeManifestID i'"
    "write_list write_certificate (in_Certificates i) @ ?rest i = write_list write_certificate (in_Certificates i') @ ?rest i'"
    using assms by (simp_all add: review_message_def sized_review_def token_fields)
  have c: "map shown_certificate (in_Certificates i) = map shown_certificate (in_Certificates i')" "?rest i = ?rest i'"
    using certificate_code.list_unique [OF _ _ _ _ f(8)] assms(1,2) by (auto simp: sized_review_def)
  have "in_CloudAccess i = in_CloudAccess i'"
    using access_code.list_unique [OF _ _ _ _ c(2)] assms(1,2) by (auto simp: sized_review_def)
  with f c show ?thesis by (cases i; cases i') (simp add: shown_intent_def)
qed

lemma valid_token: "length (mac (ts_tokenKey service) m) = 32 \<Longrightarrow> validReviewToken (RawURLEncode (mac (ts_tokenKey service) m))"
  by (simp add: validReviewToken_def RawURLEncode_32)

subsection \<open>Paths of a request\<close>

lemma commit_accepts:
  assumes "db_ok (s_db s)" "commit_request d raw kind q s = (Inr x, s')"
  shows "op_Request x = q \<and> op_Kind x = kind \<and> op_State x = StateQueued \<and> db_ok (s_db s') \<and> db_view (s_db s') = Some x \<and> s_wake s'"
proof -
  obtain id16 where raw: "raw = Some id16" using assms(2) by (cases raw) (auto simp: commit_request_def enqueue_def)
  obtain r db where e: "EnqueueKind (d_carried d (s_tick s)) (hex_encode id16) kind q (instant (d_now d (s_tick s))) (s_db s) = (r, db)"
    by (metis prod.exhaust)
  with assms(2) raw have "r = Inr x" "s_db s' = db" "s_wake s'"
    by (auto simp: commit_request_def enqueue_def transact_def split: sum.splits)
  with enqueue_outcome [OF assms(1) e] show ?thesis by (auto simp: queued_op_def)
qed

lemma commit_refuses:
  assumes "db_ok (s_db s)" "commit_request d raw kind q s = (Inl e, s')"
  shows "s_db s' = s_db s \<and> s_wake s' = s_wake s"
proof (cases raw)
  case None
  with assms(2) show ?thesis by (auto simp: commit_request_def enqueue_def)
next
  case (Some id16)
  obtain r db where en: "EnqueueKind (d_carried d (s_tick s)) (hex_encode id16) kind q (instant (d_now d (s_tick s))) (s_db s) = (r, db)"
    by (metis prod.exhaust)
  with assms(2) Some have "\<exists>err. r = Inl err" "s_db s' = db" "s_wake s' = s_wake s"
    by (auto simp: commit_request_def enqueue_def transact_def split: sum.splits)
  with enqueue_outcome [OF assms(1) en] show ?thesis by auto
qed

lemma commit_idle:
  assumes "healthy d" "length id16 = 16" "kind = KindManual \<or> kind = KindScheduled" "validateRequest q = None"
    and "db_ok (s_db s)" "\<And>x. db_view (s_db s) = Some x \<Longrightarrow> settled x"
  shows "\<exists>s'. commit_request d (Some id16) kind q s = (Inr (queued_op (hex_encode id16) kind q (instant (d_now d (s_tick s)))), s')"
proof -
  let ?t = "instant (d_now d (s_tick s))"
  have args: "canonical_hex 32 (hex_encode id16)" "canonical_time ?t"
    using assms(1,2) hex_encode_canonical [of id16] by (simp_all add: canonical_hex_def hex_decodes_def)
  have "\<exists>db. EnqueueKind True (hex_encode id16) kind q ?t (s_db s) = (Inr (queued_op (hex_encode id16) kind q ?t), db)"
    using assms(5)
  proof (cases rule: db_ok_cases)
    case none
    with enqueue_none(1) [OF args(1) assms(3,4) args(2), of None] show ?thesis by simp
  next
    case (some x)
    then have "settled x" using assms(6) by auto
    then have "\<not> active (op_State x)" "inv_State (op_Inventory x) \<noteq> InventoryPending"
      using terminal_not_active [of "op_State x"] by (auto simp: settled_def)
    with some enqueue_none(1) [OF args(1) assms(3,4) args(2), of "Some x"] show ?thesis by simp
  qed
  then show ?thesis using assms(1) by (auto simp: commit_request_def enqueue_def transact_def split: prod.split)
qed

lemma Enqueue_reviewed_accepts:
  assumes "Enqueue_reviewed mac service w guard token d raw s = (Inr x, s', log)"
  shows "\<exists>plan. cw_TryAcquire w PurposeManualRun = None \<and> cw_PrepareExecution w = Inr plan \<and> guard = Some None
    \<and> token = reviewToken mac service (pl_Revision plan) (pl_ReviewedEvidenceSHA256 plan) (pl_Intent plan)
    \<and> commit_request d raw KindManual (requestFromPlan plan) s = (Inr x, s')"
  using assms by (auto simp: Enqueue_reviewed_def Let_def split: if_splits option.splits sum.splits prod.splits)

subsection \<open>Guarantees\<close>

text \<open>C25: A review token binds the review: two equal tokens of one service stand for the same source
  revision, evidence digest and intent (up to the challenge kind, which the revision covers), or else
  exhibit two different messages with the same keyed hash.  No field can be shifted into another.\<close>

theorem token_binds_review:
  assumes "sized_review rv ev i" "sized_review rv' ev' i'" "reviewToken mac service rv ev i = reviewToken mac service rv' ev' i'"
  defines "m \<equiv> review_message (ts_policy service) rv ev i" and "m' \<equiv> review_message (ts_policy service) rv' ev' i'"
  shows "(rv = rv' \<and> ev = ev' \<and> shown_intent i = shown_intent i') \<or> (m \<noteq> m' \<and> mac (ts_tokenKey service) m = mac (ts_tokenKey service) m')"
  using review_message_unique [OF assms(1,2), of "ts_policy service"] assms(3) by (auto simp: reviewToken_def m_def m'_def)

text \<open>C9: Nothing is started that was not shown.  When a manual request is accepted with the token of an
  earlier preview, the durable operation is a queued manual run whose request is made from a plan
  with the intent the preview showed, the administrator's guard passed, and the worker was woken;
  the alternative is a collision of the keyed hash on two concrete messages.\<close>

theorem accepted_request_was_shown:
  assumes "Preview_operation mac service w0 = (Inr pv, log0)" "cw_PrepareExecution w0 = Inr plan0" "cw_PrepareExecution w = Inr plan"
    and "Enqueue_reviewed mac service w guard (pv_ReviewedPreviewToken pv) d raw s = (Inr x, s', log)" "db_ok (s_db s)"
    and "sized_review (pl_Revision plan0) (pl_ReviewedEvidenceSHA256 plan0) (pl_Intent plan0)"
        "sized_review (pl_Revision plan) (pl_ReviewedEvidenceSHA256 plan) (pl_Intent plan)"
  defines "m \<equiv> review_message (ts_policy service) (pl_Revision plan) (pl_ReviewedEvidenceSHA256 plan) (pl_Intent plan)"
    and "m0 \<equiv> review_message (ts_policy service) (pl_Revision plan0) (pl_ReviewedEvidenceSHA256 plan0) (pl_Intent plan0)"
  shows "guard = Some None \<and> op_Request x = requestFromPlan plan \<and> op_Kind x = KindManual \<and> op_State x = StateQueued
    \<and> db_view (s_db s') = Some x \<and> s_wake s'
    \<and> ((shown_intent (pl_Intent plan) = shown_intent (pv_Intent pv) \<and> pl_ReviewedEvidenceSHA256 plan = pl_ReviewedEvidenceSHA256 plan0)
       \<or> (m \<noteq> m0 \<and> mac (ts_tokenKey service) m = mac (ts_tokenKey service) m0))"
proof -
  from Enqueue_reviewed_accepts [OF assms(4)] assms(3) have g: "guard = Some None"
      "pv_ReviewedPreviewToken pv = reviewToken mac service (pl_Revision plan) (pl_ReviewedEvidenceSHA256 plan) (pl_Intent plan)"
      "commit_request d raw KindManual (requestFromPlan plan) s = (Inr x, s')" by auto
  have pv: "pv_ReviewedPreviewToken pv = reviewToken mac service (pl_Revision plan0) (pl_ReviewedEvidenceSHA256 plan0) (pl_Intent plan0)"
      "pv_Intent pv = pl_Intent plan0"
    using assms(1,2) by (auto simp: Preview_operation_def split: option.splits if_splits)
  have "m = m0 \<longrightarrow> pl_ReviewedEvidenceSHA256 plan = pl_ReviewedEvidenceSHA256 plan0 \<and> shown_intent (pl_Intent plan) = shown_intent (pl_Intent plan0)"
    using review_message_unique [OF assms(7,6), of "ts_policy service"] by (simp add: m_def m0_def)
  moreover have "mac (ts_tokenKey service) m = mac (ts_tokenKey service) m0"
    using g(2) pv(1) by (simp add: reviewToken_def m_def m0_def)
  ultimately show ?thesis using g(1) pv(2) commit_accepts [OF assms(5) g(3)] by auto
qed

text \<open>A refused request leaves no trace: whatever the reason, the store is unchanged and the worker is
  not woken; and accepted or refused, a manual or a scheduled request has released its workspace
  lease and closed its plan when it returns.\<close>

theorem refused_request_leaves_no_trace:
  assumes "db_ok (s_db s)"
    and "Enqueue_reviewed mac service w guard token d raw s = (answer, s', log) \<or> EnqueueScheduled w d raw s = (answer, s', log)"
  shows "all_released log \<and> (case answer of Inl e \<Rightarrow> s_db s' = s_db s \<and> s_wake s' = s_wake s | Inr x \<Rightarrow> db_view (s_db s') = Some x)"
  using assms(2)
proof
  assume "Enqueue_reviewed mac service w guard token d raw s = (answer, s', log)"
  then show ?thesis using commit_refuses [OF assms(1)] commit_accepts [OF assms(1)]
    by (auto simp: Enqueue_reviewed_def Let_def all_released_def split: if_splits option.splits sum.splits prod.splits)
next
  assume "EnqueueScheduled w d raw s = (answer, s', log)"
  then show ?thesis using commit_refuses [OF assms(1)] commit_accepts [OF assms(1)]
    by (auto simp: EnqueueScheduled_def Let_def all_released_def split: if_splits option.splits sum.splits prod.splits)
qed

text \<open>C35: A preview can be acted on: while the native sources stay as they were, the store is idle and the
  guard passes, the token of the preview is accepted and exactly the previewed plan is queued.\<close>

theorem previewed_request_is_accepted:
  assumes "\<And>m. length (mac (ts_tokenKey service) m) = 32" "cw_TryAcquire w PurposeManualRun = None" "cw_PrepareExecution w = Inr plan"
    and "cw_releases w" "validateRequest (requestFromPlan plan) = None" "healthy d" "length id16 = 16" "db_ok (s_db s)"
    and "\<And>x. db_view (s_db s) = Some x \<Longrightarrow> settled x"
  shows "\<exists>pv s' log. fst (Preview_operation mac service w) = Inr pv \<and> pv_Intent pv = pl_Intent plan
    \<and> Enqueue_reviewed mac service w (Some None) (pv_ReviewedPreviewToken pv) d (Some id16) s
        = (Inr (queued_op (hex_encode id16) KindManual (requestFromPlan plan) (instant (d_now d (s_tick s)))), s', log)"
proof -
  let ?token = "reviewToken mac service (pl_Revision plan) (pl_ReviewedEvidenceSHA256 plan) (pl_Intent plan)"
  have token: "validReviewToken ?token" unfolding reviewToken_def by (rule valid_token) (rule assms(1))
  obtain s' where "commit_request d (Some id16) KindManual (requestFromPlan plan) s
      = (Inr (queued_op (hex_encode id16) KindManual (requestFromPlan plan) (instant (d_now d (s_tick s)))), s')"
    using commit_idle [OF assms(6,7) _ assms(5,8,9)] by blast
  with token assms(2-4) show ?thesis by (simp add: Preview_operation_def Enqueue_reviewed_def Let_def)
qed

subsection \<open>A review that is acted on\<close>

definition review_plan :: ExecutionPlan where
  "review_plan =
     \<lparr>pl_Intent = \<lparr>in_WorkingDirectory = ''/srv'', in_ConfigurationPath = ''/srv/lego.yml'', in_StoragePath = ''/srv/data'',
        in_RuntimeIdentity = ''lego'', in_RuntimeManifestID = ''lego-v5'',
        in_Certificates = [\<lparr>ec_Name = ''example.org'', ec_Domains = [''example.org''], ec_Account = ''main'', ec_CA = ''staging'',
          ec_ChallengeName = ''web'', ec_ChallengeKind = ''http-01'', ec_ChallengeMode = ''webroot''\<rparr>], in_CloudAccess = []\<rparr>,
      pl_Revision = ''r1'', pl_ReviewedEvidenceSHA256 = ReviewedEvidenceSHA256 Jobs_Properties.example_request,
      pl_ObservedSecrets = [], pl_Environment = []\<rparr>"

definition review_world :: call_world where
  "review_world = \<lparr>cw_TryAcquire = (\<lambda>_. None), cw_PrepareExecution = Inr review_plan, cw_releases = True\<rparr>"

definition review_mac :: "bytes \<Rightarrow> bytes \<Rightarrow> bytes" where
  "review_mac key m = take 32 (m @ key @ replicate 32 (CHR 0x00))"

definition review_service :: TokenService where
  "review_service = \<lparr>ts_policy = OperationDefaultPolicy, ts_tokenKey = replicate 32 (CHR 0x01)\<rparr>"

definition idle_service :: Service where
  "idle_service = example_service\<lparr>s_db := db_of None\<rparr>"

lemma review_mac_length: "length (review_mac k m) = 32"
  by (simp add: review_mac_def)

lemma review_plan_request: "validateRequest (requestFromPlan review_plan) = None"
proof -
  have "canonical_hex 64 (ReviewedEvidenceSHA256 Jobs_Properties.example_request)" by code_simp
  moreover have "IsAbs ''/srv/lego.yml''" "Clean_abs ''/srv/lego.yml'' = ''/srv/lego.yml''" "IsAbs ''/srv/data''" "Clean_abs ''/srv/data'' = ''/srv/data''"
    by code_simp+
  then have "validRequestPath ''/srv/lego.yml''" "validRequestPath ''/srv/data''"
    by (simp_all add: validRequestPath_def validRequestText_def no_control_def runes_ascii ValidString_ascii ascii_def IsControl_def)
  moreover have "valid_detail ''example.org'' \<lparr>ri_Name = ''example.org'', ri_Account = ''main'', ri_CA = ''staging'',
      ri_ChallengeKind = ''http-01'', ri_ChallengeMode = ''webroot''\<rparr>"
    "validRequestText ''lego'' 64" "validRequestText ''lego-v5'' 128"
    by (simp_all add: valid_detail_def validRequestText_def no_control_def runes_ascii ValidString_ascii ascii_def IsControl_def)
  ultimately show ?thesis
    by (simp add: validateRequest_def validate_request_items_None requestFromPlan_def review_plan_def example_name_valid)
qed

lemma review_plan_sized: "sized_review (pl_Revision review_plan) (pl_ReviewedEvidenceSHA256 review_plan) (pl_Intent review_plan)"
  by (simp add: sized_review_def review_plan_def sized_certificate_def sized_texts_def uint64_def Jobs_Properties.example_request_def)

lemma idle_store: "db_ok (s_db idle_service)" "db_view (s_db idle_service) = None"
  by (simp_all add: idle_service_def)

lemma review_accepted:
  obtains pv s' log where "fst (Preview_operation review_mac review_service review_world) = Inr pv" "pv_Intent pv = pl_Intent review_plan"
    "Enqueue_reviewed review_mac review_service review_world (Some None) (pv_ReviewedPreviewToken pv) example_executor
       (Some (replicate 16 (CHR 0x2A))) idle_service
     = (Inr (queued_op (hex_encode (replicate 16 (CHR 0x2A))) KindManual (requestFromPlan review_plan)
          (instant (d_now example_executor (s_tick idle_service)))), s', log)"
proof -
  have t: "validReviewToken (reviewToken review_mac review_service (pl_Revision review_plan) (pl_ReviewedEvidenceSHA256 review_plan) (pl_Intent review_plan))"
    unfolding reviewToken_def by (rule valid_token) (rule review_mac_length)
  obtain s' where c: "commit_request example_executor (Some (replicate 16 (CHR 0x2A))) KindManual (requestFromPlan review_plan) idle_service
      = (Inr (queued_op (hex_encode (replicate 16 (CHR 0x2A))) KindManual (requestFromPlan review_plan)
          (instant (d_now example_executor (s_tick idle_service)))), s')"
    using commit_idle [OF example_healthy _ _ review_plan_request idle_store(1), of "replicate 16 (CHR 0x2A)" KindManual] idle_store(2) by auto
  show thesis
  proof (rule that)
    show "fst (Preview_operation review_mac review_service review_world) = Inr \<lparr>pv_ReviewedPreviewToken =
        reviewToken review_mac review_service (pl_Revision review_plan) (pl_ReviewedEvidenceSHA256 review_plan) (pl_Intent review_plan),
        pv_Intent = pl_Intent review_plan, pv_Policy = ts_policy review_service\<rparr>"
      by (simp add: Preview_operation_def review_world_def)
  qed (use t c in \<open>simp_all add: Enqueue_reviewed_def review_world_def Let_def\<close>)
qed

theorem token_binds_review_witness:
  "reviewToken review_mac review_service ''r1'' [] (pl_Intent review_plan) = reviewToken review_mac review_service ''r1'' [] (pl_Intent review_plan)
   \<and> sized_review ''r1'' [] (pl_Intent review_plan)"
proof -
  have "sized_review ''r1'' [] (pl_Intent review_plan)" using review_plan_sized by (simp add: sized_review_def uint64_def)
  with token_binds_review [OF this this refl, where mac = review_mac and service = review_service] show ?thesis by simp
qed

theorem accepted_request_was_shown_witness:
  "\<exists>pv x s' log. fst (Preview_operation review_mac review_service review_world) = Inr pv
     \<and> Enqueue_reviewed review_mac review_service review_world (Some None) (pv_ReviewedPreviewToken pv) example_executor
         (Some (replicate 16 (CHR 0x2A))) idle_service = (Inr x, s', log)
     \<and> db_view (s_db s') = Some x \<and> op_Request x = requestFromPlan review_plan"
proof -
  obtain pv s' log where a: "fst (Preview_operation review_mac review_service review_world) = Inr pv"
    "Enqueue_reviewed review_mac review_service review_world (Some None) (pv_ReviewedPreviewToken pv) example_executor
       (Some (replicate 16 (CHR 0x2A))) idle_service
     = (Inr (queued_op (hex_encode (replicate 16 (CHR 0x2A))) KindManual (requestFromPlan review_plan)
          (instant (d_now example_executor (s_tick idle_service)))), s', log)" by (rule review_accepted)
  have w: "cw_PrepareExecution review_world = Inr review_plan" by (simp add: review_world_def)
  have pv: "Preview_operation review_mac review_service review_world = (Inr pv, snd (Preview_operation review_mac review_service review_world))"
    using a(1) by (simp add: prod_eq_iff)
  show ?thesis
    using a accepted_request_was_shown [OF pv w w a(2) idle_store(1) review_plan_sized review_plan_sized] by blast
qed

theorem refused_request_leaves_no_trace_witness:
  "\<exists>e s' log. Enqueue_reviewed review_mac review_service review_world None ''stale'' example_executor None idle_service = (Inl e, s', log)
     \<and> s_db s' = s_db idle_service \<and> all_released log"
proof -
  have "Enqueue_reviewed review_mac review_service review_world None ''stale'' example_executor None idle_service = (Inl OpErrInvalid, idle_service, [])"
    by (simp add: Enqueue_reviewed_def)
  with refused_request_leaves_no_trace [OF idle_store(1) disjI1 [OF this]] show ?thesis by auto
qed

theorem previewed_request_is_accepted_witness:
  "\<exists>pv s' log. fst (Preview_operation review_mac review_service review_world) = Inr pv
     \<and> Enqueue_reviewed review_mac review_service review_world (Some None) (pv_ReviewedPreviewToken pv) example_executor
         (Some (replicate 16 (CHR 0x2A))) idle_service
       = (Inr (queued_op (hex_encode (replicate 16 (CHR 0x2A))) KindManual (requestFromPlan review_plan)
            (instant (d_now example_executor (s_tick idle_service)))), s', log)"
proof -
  have w: "cw_TryAcquire review_world PurposeManualRun = None" "cw_PrepareExecution review_world = Inr review_plan" "cw_releases review_world"
    by (simp_all add: review_world_def)
  show ?thesis
    using previewed_request_is_accepted [where mac = review_mac and service = review_service, OF review_mac_length w review_plan_request example_healthy _ idle_store(1),
        of "replicate 16 (CHR 0x2A)"] idle_store(2) by auto
qed

end
