(* ===== verification/Identity_Password.thy ===== *)
theory Identity_Password
  imports Go_Base64 Operation_Text
begin

text \<open>
  Password verifiers (\<open>internal/identity/password.go\<close> and the parameters of \<open>options.go\<close>): the policy for
  new passwords, the bounded parameters, the PHC text of a verifier and its parser, verification and
  the upgrade decision.  The key derivation (\<open>argon2.IDKey\<close>) and its version number belong to another
  module and are arguments; so is whether a derivation slot was obtained before the context ended.
\<close>

subsection \<open>Data\<close>

datatype identity_error =
    IdErrUninitialized | IdErrAlreadyInitialized | IdErrInvalidCredentials | IdErrInvalidSession | IdErrSessionExpired
  | IdErrPasswordRejected | IdErrVerifierUnsupported | IdErrUnavailable bytes

record passwordParameters =
  pp_memory :: nat
  pp_iterations :: nat
  pp_parallelism :: nat
  pp_saltLength :: nat
  pp_keyLength :: nat

definition defaultPasswordParameters :: passwordParameters where
  "defaultPasswordParameters = \<lparr>pp_memory = 65536, pp_iterations = 3, pp_parallelism = 2, pp_saltLength = 16, pp_keyLength = 32\<rparr>"

record parsedVerifier =
  pv_parameters :: passwordParameters
  pv_salt :: bytes
  pv_hash :: bytes

type_synonym kdf = "bytes \<Rightarrow> bytes \<Rightarrow> passwordParameters \<Rightarrow> bytes"

subsection \<open>Policy and parameters\<close>

definition validateNewPassword :: "bytes \<Rightarrow> identity_error option" where
  "validateNewPassword password =
     (if length password > 1024 \<or> \<not> ValidString password \<or> length (runes password) < 12 then Some IdErrPasswordRejected else None)"

definition validatePasswordParameters :: "passwordParameters \<Rightarrow> bytes option" where
  "validatePasswordParameters p = first_error
     [fails_if (pp_memory p < 8192 \<or> pp_memory p > 262144) ''Argon2id memory is outside supported bounds'',
      fails_if (pp_iterations p < 1 \<or> pp_iterations p > 10) ''Argon2id iterations are outside supported bounds'',
      fails_if (pp_parallelism p < 1 \<or> pp_parallelism p > 16) ''Argon2id parallelism is outside supported bounds'',
      fails_if (pp_saltLength p < 16 \<or> pp_saltLength p > 64) ''Argon2id salt length is outside supported bounds'',
      fails_if (pp_keyLength p < 16 \<or> pp_keyLength p > 64) ''Argon2id key length is outside supported bounds'']"

subsection \<open>Integers of a verifier\<close>

definition parsePHCInteger :: "bytes \<Rightarrow> bytes \<Rightarrow> nat \<Rightarrow> (identity_error, nat) result" where
  "parsePHCInteger v label bits =
     (if \<not> HasPrefix v label \<or> length v = length label then Inl IdErrVerifierUnsupported
      else (let raw = TrimPrefix v label
            in if hd raw = CHR ''0'' \<and> length raw > 1 then Inl IdErrVerifierUnsupported
               else (case ParseUint raw bits of None \<Rightarrow> Inl IdErrVerifierUnsupported | Some n \<Rightarrow> Inr n)))"

subsection \<open>Verifiers\<close>

definition formatVerifier :: "nat \<Rightarrow> passwordParameters \<Rightarrow> bytes \<Rightarrow> bytes \<Rightarrow> bytes" where
  "formatVerifier version p salt hash =
     ''$argon2id$v='' @ Itoa version @ ''$m='' @ Itoa (pp_memory p) @ '',t='' @ Itoa (pp_iterations p) @ '',p='' @ Itoa (pp_parallelism p)
     @ ''$'' @ RawStdEncode salt @ ''$'' @ RawStdEncode hash"

definition parse_parameters :: "bytes \<Rightarrow> (identity_error, nat \<times> nat \<times> nat) result" where
  "parse_parameters v =
     (case split_at (CHR '','') v of
        [m, t, p] \<Rightarrow>
          bind_result (parsePHCInteger m ''m='' 32) (\<lambda>memory.
          bind_result (parsePHCInteger t ''t='' 32) (\<lambda>iterations.
          bind_result (parsePHCInteger p ''p='' 8) (\<lambda>parallelism. Inr (memory, iterations, parallelism))))
      | _ \<Rightarrow> Inl IdErrVerifierUnsupported)"

definition decode_field :: "bytes \<Rightarrow> (identity_error, bytes) result" where
  "decode_field v = (case DecodeString StdAlphabet True v of None \<Rightarrow> Inl IdErrVerifierUnsupported | Some w \<Rightarrow> Inr w)"

definition parseVerifier :: "nat \<Rightarrow> bytes \<Rightarrow> (identity_error, parsedVerifier) result" where
  "parseVerifier version encoded =
     (if length encoded = 0 \<or> length encoded > 1024 then Inl IdErrVerifierUnsupported
      else
        (case split_at (CHR ''$'') encoded of
           [p0, p1, p2, p3, p4, p5] \<Rightarrow>
             if p0 \<noteq> [] \<or> p1 \<noteq> ''argon2id'' \<or> p2 \<noteq> ''v='' @ Itoa version then Inl IdErrVerifierUnsupported
             else
               bind_result (parse_parameters p3) (\<lambda>(memory, iterations, parallelism).
               bind_result (decode_field p4) (\<lambda>salt.
               bind_result (decode_field p5) (\<lambda>hash.
                 let p = \<lparr>pp_memory = memory, pp_iterations = iterations, pp_parallelism = parallelism,
                          pp_saltLength = length salt, pp_keyLength = length hash\<rparr>
                 in if validatePasswordParameters p \<noteq> None then Inl IdErrVerifierUnsupported
                    else Inr \<lparr>pv_parameters = p, pv_salt = salt, pv_hash = hash\<rparr>)))
         | _ \<Rightarrow> Inl IdErrVerifierUnsupported))"

text \<open>\<open>slot\<close> says whether a derivation slot was free before the context ended.\<close>

definition derivePassword :: "kdf \<Rightarrow> bool \<Rightarrow> bytes \<Rightarrow> bytes \<Rightarrow> passwordParameters \<Rightarrow> (identity_error, bytes) result" where
  "derivePassword idKey slot password salt p =
     (if slot then Inr (idKey password salt p) else Inl (IdErrUnavailable ''wait for password verifier capacity''))"

definition encodePassword ::
  "nat \<Rightarrow> kdf \<Rightarrow> passwordParameters \<Rightarrow> bytes option \<Rightarrow> bool \<Rightarrow> bytes \<Rightarrow> (identity_error, bytes) result" where
  "encodePassword version idKey p random slot password =
     (case random of
        None \<Rightarrow> Inl (IdErrUnavailable ''generate password salt'')
      | Some salt \<Rightarrow> bind_result (derivePassword idKey slot password salt p) (\<lambda>hash. Inr (formatVerifier version p salt hash)))"

definition verifyPassword ::
  "nat \<Rightarrow> kdf \<Rightarrow> bool \<Rightarrow> bytes \<Rightarrow> bytes \<Rightarrow> (identity_error, bool \<times> parsedVerifier) result" where
  "verifyPassword version idKey slot password encoded =
     bind_result (parseVerifier version encoded) (\<lambda>v.
     bind_result (derivePassword idKey slot password (pv_salt v) (pv_parameters v)) (\<lambda>actual.
       Inr (actual = pv_hash v, v)))"

definition shouldUpgradePassword :: "parsedVerifier \<Rightarrow> passwordParameters \<Rightarrow> bool" where
  "shouldUpgradePassword stored current =
     (let s = pv_parameters stored
      in if \<not> (pp_memory s \<le> pp_memory current \<and> pp_iterations s \<le> pp_iterations current \<and> pp_parallelism s \<le> pp_parallelism current
               \<and> pp_saltLength s \<le> pp_saltLength current \<and> pp_keyLength s \<le> pp_keyLength current) then False
         else pp_memory s < pp_memory current \<or> pp_iterations s < pp_iterations current \<or> pp_parallelism s < pp_parallelism current
              \<or> pp_saltLength s < pp_saltLength current \<or> pp_keyLength s < pp_keyLength current)"

subsection \<open>Text\<close>

lemma parsePHC_Itoa: "n < 2 ^ bits \<Longrightarrow> parsePHCInteger (label @ Itoa n) label bits = Inr n"
proof -
  assume n: "n < 2 ^ bits"
  have "\<not> (hd (Itoa n) = CHR ''0'' \<and> length (Itoa n) > 1)"
    using Itoa_head [of n] by (auto simp: Itoa.simps [of 0])
  then show ?thesis using n by (auto simp: parsePHCInteger_def HasPrefix_def TrimPrefix_def Let_def ParseUint_Itoa)
qed

lemma split_at_free: "sep \<notin> set a \<Longrightarrow> split_at sep a = [a]"
  by (induction a) auto

lemma split_at_append: "sep \<notin> set a \<Longrightarrow> split_at sep (a @ sep # b) = a # split_at sep b"
  by (induction a) auto

lemma split_at_six:
  assumes "sep \<notin> set a" "sep \<notin> set b" "sep \<notin> set c" "sep \<notin> set d" "sep \<notin> set e" "sep \<notin> set f"
  shows "split_at sep (a @ sep # b @ sep # c @ sep # d @ sep # e @ sep # f) = [a, b, c, d, e, f]"
  using assms by (simp add: split_at_append split_at_free)

lemma digits_free: "list_all is_digit s \<Longrightarrow> \<not> is_digit c \<Longrightarrow> c \<notin> set s"
  by (auto simp: list_all_iff)

lemma Std_free: "c \<notin> set StdAlphabet \<Longrightarrow> c \<notin> set (RawStdEncode v)"
proof -
  have "set (RawStdEncode v) \<subseteq> set StdAlphabet"
    using sextets_small [of v] good_alphabets(2) by (auto simp: RawStdEncode_def base64_sextets list_all_iff good_alphabet_def)
  then show "c \<notin> set StdAlphabet \<Longrightarrow> c \<notin> set (RawStdEncode v)" by blast
qed

lemma separators_free [simp]:
  "CHR ''$'' \<notin> set (Itoa n)" "CHR '','' \<notin> set (Itoa n)" "CHR ''$'' \<notin> set (RawStdEncode v)"
  by (rule digits_free [OF Itoa_digits], simp add: is_digit_def)+ (rule Std_free, simp add: StdAlphabet_def)

subsection \<open>Guarantees\<close>

lemma parse_format:
  assumes "validatePasswordParameters p = None" "length salt = pp_saltLength p" "length hash = pp_keyLength p" "version < 1000"
  shows "parseVerifier version (formatVerifier version p salt hash) = Inr \<lparr>pv_parameters = p, pv_salt = salt, pv_hash = hash\<rparr>"
proof -
  let ?m = "''m='' @ Itoa (pp_memory p)" and ?t = "''t='' @ Itoa (pp_iterations p)" and ?p = "''p='' @ Itoa (pp_parallelism p)"
  have b: "pp_memory p \<le> 262144" "pp_iterations p \<le> 10" "pp_parallelism p \<le> 16" "pp_saltLength p \<le> 64" "pp_keyLength p \<le> 64"
    using assms(1) by (auto simp: validatePasswordParameters_def)
  have parts: "split_at (CHR ''$'') (formatVerifier version p salt hash) =
      [[], ''argon2id'', ''v='' @ Itoa version, ?m @ '','' @ ?t @ '','' @ ?p, RawStdEncode salt, RawStdEncode hash]"
  proof -
    have "formatVerifier version p salt hash = [] @ CHR ''$'' # ''argon2id'' @ CHR ''$'' # (''v='' @ Itoa version) @ CHR ''$''
        # (?m @ '','' @ ?t @ '','' @ ?p) @ CHR ''$'' # RawStdEncode salt @ CHR ''$'' # RawStdEncode hash"
      by (simp add: formatVerifier_def)
    then show ?thesis by (simp only:) (rule split_at_six; simp)
  qed
  have "split_at (CHR '','') (?m @ '','' @ ?t @ '','' @ ?p) = [?m, ?t, ?p]"
    using split_at_append [of "CHR '',''" ?m "?t @ '','' @ ?p"] split_at_append [of "CHR '',''" ?t ?p] split_at_free [of "CHR '',''" ?p] by simp
  then have params: "parse_parameters (?m @ '','' @ ?t @ '','' @ ?p) = Inr (pp_memory p, pp_iterations p, pp_parallelism p)"
    using b parsePHC_Itoa [of "pp_memory p" 32 "''m=''"] parsePHC_Itoa [of "pp_iterations p" 32 "''t=''"]
      parsePHC_Itoa [of "pp_parallelism p" 8 "''p=''"] by (simp add: parse_parameters_def)
  have "length (formatVerifier version p salt hash) \<le> 1024"
    using b assms(2-4) Itoa_length [of version 3] Itoa_length [of "pp_memory p" 6] Itoa_length [of "pp_iterations p" 2] Itoa_length [of "pp_parallelism p" 2]
    by (simp add: formatVerifier_def RawStdEncode_length)
  moreover have "formatVerifier version p salt hash \<noteq> []" by (simp add: formatVerifier_def)
  ultimately show ?thesis
    unfolding parseVerifier_def parts using params assms(1-3)
    by (cases p) (simp add: decode_field_def Let_def)
qed

text \<open>C30: A stored password verifier works: the text made for a password within the supported parameters
  parses back to the same parameters, salt and hash, verifies that password and exactly the
  passwords with the same derived key, and is not considered for another upgrade.\<close>

theorem password_verifier_roundtrip:
  assumes "validatePasswordParameters p = None" "\<And>w s q. length (idKey w s q) = pp_keyLength q" "version < 1000"
    and "length salt = pp_saltLength p" "encodePassword version idKey p (Some salt) True password = Inr encoded"
  shows "verifyPassword version idKey True candidate encoded =
      Inr (idKey candidate salt p = idKey password salt p, \<lparr>pv_parameters = p, pv_salt = salt, pv_hash = idKey password salt p\<rparr>)
    \<and> \<not> shouldUpgradePassword \<lparr>pv_parameters = p, pv_salt = salt, pv_hash = idKey password salt p\<rparr> p"
proof -
  have "encoded = formatVerifier version p salt (idKey password salt p)"
    using assms(5) by (simp add: encodePassword_def derivePassword_def)
  then show ?thesis
    using parse_format [OF assms(1,4) assms(2) assms(3)]
    by (simp add: verifyPassword_def derivePassword_def shouldUpgradePassword_def Let_def)
qed

theorem password_verifier_roundtrip_witness:
  "\<exists>encoded. encodePassword 19 (\<lambda>w s q. take (pp_keyLength q) (w @ s @ replicate (pp_keyLength q) (CHR 0x00))) defaultPasswordParameters
       (Some (replicate 16 (CHR 0x2A))) True ''correct horse battery'' = Inr encoded
     \<and> (\<exists>v. verifyPassword 19 (\<lambda>w s q. take (pp_keyLength q) (w @ s @ replicate (pp_keyLength q) (CHR 0x00))) True
             ''correct horse battery'' encoded = Inr (True, v))
     \<and> (\<exists>v. verifyPassword 19 (\<lambda>w s q. take (pp_keyLength q) (w @ s @ replicate (pp_keyLength q) (CHR 0x00))) True
             ''wrong'' encoded = Inr (False, v))"
proof -
  let ?k = "\<lambda>w s q. take (pp_keyLength q) (w @ s @ replicate (pp_keyLength q) (CHR 0x00))"
  have p: "validatePasswordParameters defaultPasswordParameters = None"
    by (simp add: validatePasswordParameters_def defaultPasswordParameters_def)
  have k: "\<And>w s q. length (?k w s q) = pp_keyLength q" by simp
  obtain encoded where e: "encodePassword 19 ?k defaultPasswordParameters (Some (replicate 16 (CHR 0x2A))) True ''correct horse battery'' = Inr encoded"
    by (simp add: encodePassword_def derivePassword_def)
  have s: "length (replicate 16 (CHR 0x2A)) = pp_saltLength defaultPasswordParameters" by (simp add: defaultPasswordParameters_def)
  note r = password_verifier_roundtrip [OF p k _ s e]
  show ?thesis
    using e r [of "''correct horse battery''"] r [of "''wrong''"] by (simp add: defaultPasswordParameters_def)
qed

end
