(* ===== verification/Identity_Session.thy ===== *)
theory Identity_Session
  imports Identity_Password
begin

text \<open>
  The administrator and the browser sessions (\<open>internal/identity/service.go\<close>, \<open>session.go\<close>,
  \<open>options.go\<close> and the tables of \<open>migrations/002_identity.sql\<close>).  A statement against the database is
  one function on \<open>identity_db\<close>; a validation loads a row and later updates it, and what other
  requests do in between is an argument (\<open>iw_between\<close>), so every interleaving of statements is covered.
  Times are integers: the clock answers nanoseconds since the epoch, the rows hold seconds.  The hash
  of tokens (\<open>sha256.Sum256\<close>) and the key derivation are arguments.
\<close>

subsection \<open>Policy\<close>

record sessionPolicy =
  sp_idleLifetime :: int
  sp_absoluteLifetime :: int
  sp_rotationAfter :: int
  sp_previousGrace :: int
  sp_maximumSessions :: nat

abbreviation nanos :: int where "nanos \<equiv> 1000000000"

definition unix :: "int \<Rightarrow> int" where
  "unix t = t div nanos"

definition defaultSessionPolicy :: sessionPolicy where
  "defaultSessionPolicy = \<lparr>sp_idleLifetime = 30 * 60 * nanos, sp_absoluteLifetime = 12 * 60 * 60 * nanos,
     sp_rotationAfter = 15 * 60 * nanos, sp_previousGrace = 30 * nanos, sp_maximumSessions = 8\<rparr>"

definition validateConfiguration :: "passwordParameters \<Rightarrow> nat \<Rightarrow> sessionPolicy \<Rightarrow> bytes option" where
  "validateConfiguration p kdfConcurrency policy = first_error
     [validatePasswordParameters p,
      fails_if (kdfConcurrency < 1 \<or> kdfConcurrency > 16) ''identity KDF concurrency must be between 1 and 16'',
      fails_if (sp_idleLifetime policy < nanos \<or> sp_absoluteLifetime policy < nanos \<or> sp_rotationAfter policy < nanos
                \<or> sp_previousGrace policy < nanos) ''identity session durations must be at least one second'',
      fails_if (sp_idleLifetime policy > sp_absoluteLifetime policy) ''identity idle lifetime cannot exceed absolute lifetime'',
      fails_if (sp_rotationAfter policy \<ge> sp_absoluteLifetime policy) ''identity rotation must precede absolute expiry'',
      fails_if (sp_maximumSessions policy < 1 \<or> sp_maximumSessions policy > 64) ''identity maximum sessions must be between 1 and 64'']"

subsection \<open>Tables\<close>

record administratorRecord =
  ad_verifier :: bytes
  ad_epoch :: int
  ad_created :: int
  ad_changed :: int

record sessionRecord =
  sr_id :: int
  sr_authEpoch :: int
  sr_currentTokenHash :: bytes
  sr_previousTokenHash :: "bytes option"
  sr_previousValidUntil :: "int option"
  sr_csrfTokenHash :: bytes
  sr_created :: int
  sr_lastSeen :: int
  sr_idleExpires :: int
  sr_absoluteExpires :: int
  sr_rotateAfter :: int

record identity_db =
  administrator :: "administratorRecord option"
  sessions :: "sessionRecord list"

definition empty_identity_db :: identity_db where
  "empty_identity_db = \<lparr>administrator = None, sessions = []\<rparr>"

definition admin_ok :: "administratorRecord \<Rightarrow> bool" where
  "admin_ok a \<longleftrightarrow> 1 \<le> length (ad_verifier a) \<and> length (ad_verifier a) \<le> 1024 \<and> 0 < ad_epoch a"

definition session_ok :: "sessionRecord \<Rightarrow> bool" where
  "session_ok r \<longleftrightarrow> 0 < sr_authEpoch r \<and> length (sr_currentTokenHash r) = 32
     \<and> (case sr_previousTokenHash r of None \<Rightarrow> True | Some h \<Rightarrow> length h = 32)
     \<and> (sr_previousTokenHash r = None \<longleftrightarrow> sr_previousValidUntil r = None) \<and> length (sr_csrfTokenHash r) = 32
     \<and> sr_created r \<le> sr_lastSeen r \<and> sr_lastSeen r \<le> sr_idleExpires r \<and> sr_idleExpires r \<le> sr_absoluteExpires r"

definition previous_hashes :: "sessionRecord list \<Rightarrow> bytes list" where
  "previous_hashes rows = map (\<lambda>r. the (sr_previousTokenHash r)) (filter (\<lambda>r. sr_previousTokenHash r \<noteq> None) rows)"

text \<open>The constraints of the table: checks of each row and the two unique columns.\<close>

definition table_ok :: "sessionRecord list \<Rightarrow> bool" where
  "table_ok rows \<longleftrightarrow> list_all session_ok rows \<and> distinct (map sr_currentTokenHash rows) \<and> distinct (previous_hashes rows)"

definition current_epoch :: "identity_db \<Rightarrow> int option" where
  "current_epoch db = map_option ad_epoch (administrator db)"

text \<open>An \<open>UPDATE\<close>: the number of rows it changed, or \<open>None\<close> when a constraint refuses it.\<close>

definition update_sessions :: "(sessionRecord \<Rightarrow> bool) \<Rightarrow> (sessionRecord \<Rightarrow> sessionRecord) \<Rightarrow> identity_db \<Rightarrow> (nat \<times> identity_db) option" where
  "update_sessions P f db =
     (let rows = map (\<lambda>r. if P r then f r else r) (sessions db)
      in if table_ok rows then Some (length (filter P (sessions db)), db\<lparr>sessions := rows\<rparr>) else None)"

definition delete_sessions :: "(sessionRecord \<Rightarrow> bool) \<Rightarrow> identity_db \<Rightarrow> identity_db" where
  "delete_sessions P db = db\<lparr>sessions := filter (\<lambda>r. \<not> P r) (sessions db)\<rparr>"

subsection \<open>Answers from outside\<close>

record identity_world =
  iw_now :: "nat \<Rightarrow> int"
  iw_ok :: "nat \<Rightarrow> bool"
  iw_random :: "nat \<Rightarrow> bytes option"
  iw_slot :: "nat \<Rightarrow> bool"
  iw_between :: "nat \<Rightarrow> identity_db \<Rightarrow> identity_db"

subsection \<open>Tokens\<close>

definition newToken :: "(bytes \<Rightarrow> bytes) \<Rightarrow> bytes option \<Rightarrow> (bytes \<times> bytes) option" where
  "newToken sum256 random = map_option (\<lambda>contents. let raw = RawURLEncode contents in (raw, sum256 raw)) random"

definition decodeToken :: "(bytes \<Rightarrow> bytes) \<Rightarrow> bytes \<Rightarrow> bytes option" where
  "decodeToken sum256 raw =
     (if length raw \<noteq> 43 then None
      else (case DecodeString URLAlphabet True raw of
              None \<Rightarrow> None
            | Some decoded \<Rightarrow> if length decoded \<noteq> 32 then None else Some (sum256 raw)))"

record SessionGrant =
  sg_Token :: bytes
  sg_CSRFToken :: bytes
  sg_IdleExpiresAt :: int
  sg_AbsoluteExpiresAt :: int

record ActiveSession =
  as_ReplacementToken :: bytes
  as_IdleExpiresAt :: int
  as_AbsoluteExpiresAt :: int
  as_csrfTokenHash :: bytes

definition ValidCSRF :: "(bytes \<Rightarrow> bytes) \<Rightarrow> ActiveSession \<Rightarrow> bytes \<Rightarrow> bool" where
  "ValidCSRF sum256 session rawToken \<longleftrightarrow> (case decodeToken sum256 rawToken of None \<Rightarrow> False | Some digest \<Rightarrow> digest = as_csrfTokenHash session)"

subsection \<open>The administrator\<close>

definition Initialized :: "identity_db \<Rightarrow> bool" where
  "Initialized db \<longleftrightarrow> administrator db \<noteq> None"

text \<open>The transactions; \<open>ok\<close> says whether the database carries a transaction out.\<close>

definition bootstrap_store :: "bool \<Rightarrow> bytes \<Rightarrow> int \<Rightarrow> identity_db \<Rightarrow> (identity_error, unit) result \<times> identity_db" where
  "bootstrap_store ok verifier now db =
     with_tx (IdErrUnavailable ''administrator bootstrap'') ok db (\<lambda>db.
       let a = \<lparr>ad_verifier = verifier, ad_epoch = 1, ad_created = now, ad_changed = now\<rparr>
       in if administrator db \<noteq> None \<or> \<not> admin_ok a then Inl IdErrAlreadyInitialized
          else Inr ((), db\<lparr>administrator := Some a\<rparr>))"

definition advanceEpoch :: "bool \<Rightarrow> bytes \<Rightarrow> int \<Rightarrow> identity_db \<Rightarrow> (identity_error, unit) result \<times> identity_db" where
  "advanceEpoch ok replacementVerifier now db =
     with_tx (IdErrUnavailable ''administrator security change'') ok db (\<lambda>db.
       case administrator db of
         None \<Rightarrow> Inl IdErrUninitialized
       | Some a \<Rightarrow>
           let a' = (if replacementVerifier = [] then a\<lparr>ad_epoch := ad_epoch a + 1\<rparr>
                     else a\<lparr>ad_verifier := replacementVerifier, ad_changed := now, ad_epoch := ad_epoch a + 1\<rparr>)
           in if admin_ok a' then Inr ((), db\<lparr>administrator := Some a', sessions := []\<rparr>)
              else Inl (IdErrUnavailable ''update administrator security state''))"

definition Bootstrap ::
  "nat \<Rightarrow> kdf \<Rightarrow> passwordParameters \<Rightarrow> identity_world \<Rightarrow> bytes \<Rightarrow> identity_db \<Rightarrow> (identity_error, unit) result \<times> identity_db" where
  "Bootstrap version idKey p w password db =
     (case validateNewPassword password of
        Some e \<Rightarrow> (Inl e, db)
      | None \<Rightarrow>
          (case encodePassword version idKey p (iw_random w 0) (iw_slot w 0) password of
             Inl e \<Rightarrow> (Inl e, db)
           | Inr verifier \<Rightarrow> bootstrap_store (iw_ok w 0) verifier (unix (iw_now w 0)) db))"

definition ResetPassword ::
  "nat \<Rightarrow> kdf \<Rightarrow> passwordParameters \<Rightarrow> identity_world \<Rightarrow> bytes \<Rightarrow> identity_db \<Rightarrow> (identity_error, unit) result \<times> identity_db" where
  "ResetPassword version idKey p w password db =
     (case validateNewPassword password of
        Some e \<Rightarrow> (Inl e, db)
      | None \<Rightarrow>
          (case encodePassword version idKey p (iw_random w 0) (iw_slot w 0) password of
             Inl e \<Rightarrow> (Inl e, db)
           | Inr verifier \<Rightarrow> advanceEpoch (iw_ok w 0) verifier (unix (iw_now w 0)) db))"

definition RevokeSessions :: "identity_world \<Rightarrow> identity_db \<Rightarrow> (identity_error, unit) result \<times> identity_db" where
  "RevokeSessions w db = advanceEpoch (iw_ok w 0) [] (unix (iw_now w 0)) db"

subsection \<open>Creating a session\<close>

definition expired_row :: "int \<Rightarrow> identity_db \<Rightarrow> sessionRecord \<Rightarrow> bool" where
  "expired_row now db r \<longleftrightarrow> sr_idleExpires r \<le> now \<or> sr_absoluteExpires r \<le> now
     \<or> sr_authEpoch r \<noteq> (case administrator db of None \<Rightarrow> -1 | Some a \<Rightarrow> ad_epoch a)"

definition next_id :: "sessionRecord list \<Rightarrow> int" where
  "next_id rows = Max (insert 0 (set (map sr_id rows))) + 1"

text \<open>\<open>ORDER BY last_seen_at_unix DESC, id DESC LIMIT n\<close>: the rows with fewer than \<open>n\<close> rows before them.\<close>

definition newer :: "sessionRecord \<Rightarrow> sessionRecord \<Rightarrow> bool" where
  "newer s r \<longleftrightarrow> sr_lastSeen s > sr_lastSeen r \<or> (sr_lastSeen s = sr_lastSeen r \<and> sr_id s > sr_id r)"

definition bound_sessions :: "nat \<Rightarrow> sessionRecord list \<Rightarrow> sessionRecord list" where
  "bound_sessions n rows = filter (\<lambda>r. length (filter (\<lambda>s. newer s r) rows) < n) rows"

definition idle_expiry :: "sessionPolicy \<Rightarrow> int \<Rightarrow> int" where
  "idle_expiry policy now =
     (if now + sp_idleLifetime policy > now + sp_absoluteLifetime policy then now + sp_absoluteLifetime policy else now + sp_idleLifetime policy)"

definition new_session :: "sessionPolicy \<Rightarrow> int \<Rightarrow> bytes \<Rightarrow> bytes \<Rightarrow> int \<Rightarrow> int \<Rightarrow> sessionRecord" where
  "new_session policy now tokenHash csrfHash i epoch =
     \<lparr>sr_id = i, sr_authEpoch = epoch, sr_currentTokenHash = tokenHash, sr_previousTokenHash = None, sr_previousValidUntil = None,
      sr_csrfTokenHash = csrfHash, sr_created = unix now, sr_lastSeen = unix now, sr_idleExpires = unix (idle_expiry policy now),
      sr_absoluteExpires = unix (now + sp_absoluteLifetime policy), sr_rotateAfter = unix (now + sp_rotationAfter policy)\<rparr>"

definition purge_sessions :: "int \<Rightarrow> identity_db \<Rightarrow> identity_db" where
  "purge_sessions now db = delete_sessions (expired_row now db) db"

definition upgrade_verifier :: "administratorRecord \<Rightarrow> bytes \<Rightarrow> identity_db \<Rightarrow> identity_db" where
  "upgrade_verifier loaded replacementVerifier db =
     (case administrator db of
        Some a \<Rightarrow> if replacementVerifier \<noteq> [] \<and> ad_epoch a = ad_epoch loaded \<and> ad_verifier a = ad_verifier loaded
                  then db\<lparr>administrator := Some (a\<lparr>ad_verifier := replacementVerifier\<rparr>)\<rparr> else db
      | None \<Rightarrow> db)"

definition create_store ::
  "sessionPolicy \<Rightarrow> bool \<Rightarrow> administratorRecord \<Rightarrow> bytes \<Rightarrow> bytes \<Rightarrow> bytes \<Rightarrow> int \<Rightarrow> identity_db
   \<Rightarrow> (identity_error, unit) result \<times> identity_db" where
  "create_store policy ok loaded replacementVerifier tokenHash csrfHash now db =
     with_tx (IdErrUnavailable ''session creation'') ok db (\<lambda>db.
       let upgraded = upgrade_verifier loaded replacementVerifier (purge_sessions (unix now) db);
           rows = sessions upgraded @ [new_session policy now tokenHash csrfHash (next_id (sessions upgraded)) (ad_epoch loaded)]
       in if \<not> pred_option admin_ok (administrator upgraded) then Inl (IdErrUnavailable ''upgrade password verifier'')
          else if current_epoch upgraded \<noteq> Some (ad_epoch loaded) then Inl IdErrInvalidCredentials
          else if \<not> table_ok rows then Inl (IdErrUnavailable ''store session'')
          else Inr ((), upgraded\<lparr>sessions := bound_sessions (sp_maximumSessions policy) rows\<rparr>))"

definition createSession ::
  "(bytes \<Rightarrow> bytes) \<Rightarrow> sessionPolicy \<Rightarrow> identity_world \<Rightarrow> administratorRecord \<Rightarrow> bytes \<Rightarrow> identity_db
   \<Rightarrow> (identity_error, SessionGrant) result \<times> identity_db" where
  "createSession sum256 policy w loaded replacementVerifier db =
     (case newToken sum256 (iw_random w 1) of
        None \<Rightarrow> (Inl (IdErrUnavailable ''generate session token''), db)
      | Some (rawToken, tokenHash) \<Rightarrow>
          (case newToken sum256 (iw_random w 2) of
             None \<Rightarrow> (Inl (IdErrUnavailable ''generate CSRF token''), db)
           | Some (rawCSRFToken, csrfHash) \<Rightarrow>
               (case create_store policy (iw_ok w 1) loaded replacementVerifier tokenHash csrfHash (iw_now w 1) db of
                  (Inl e, db') \<Rightarrow> (Inl e, db')
                | (Inr _, db') \<Rightarrow>
                    (Inr \<lparr>sg_Token = rawToken, sg_CSRFToken = rawCSRFToken, sg_IdleExpiresAt = idle_expiry policy (iw_now w 1),
                          sg_AbsoluteExpiresAt = iw_now w 1 + sp_absoluteLifetime policy\<rparr>, db'))))"

text \<open>\<open>Authenticate\<close>; the session is created after \<open>iw_between w 1\<close>.\<close>

definition dummyPassword :: bytes where
  "dummyPassword = ''AcmeMux timing equalization password''"

definition Authenticate ::
  "nat \<Rightarrow> kdf \<Rightarrow> passwordParameters \<Rightarrow> bytes \<Rightarrow> (bytes \<Rightarrow> bytes) \<Rightarrow> sessionPolicy \<Rightarrow> identity_world \<Rightarrow> bytes \<Rightarrow> identity_db
   \<Rightarrow> (identity_error, SessionGrant) result \<times> identity_db" where
  "Authenticate version idKey p dummyVerifier sum256 policy w password db =
     (let forceInvalid = (length password > 1024 \<or> \<not> ValidString password);
          candidate = (if forceInvalid then dummyPassword else password)
      in if \<not> iw_ok w 0 then (Inl (IdErrUnavailable ''load administrator verifier''), db)
         else
           (case administrator db of
              None \<Rightarrow>
                (case verifyPassword version idKey (iw_slot w 0) candidate dummyVerifier of
                   Inl e \<Rightarrow> (Inl e, db)
                 | Inr _ \<Rightarrow> (Inl IdErrInvalidCredentials, db))
            | Some loaded \<Rightarrow>
                (case verifyPassword version idKey (iw_slot w 0) candidate (ad_verifier loaded) of
                   Inl e \<Rightarrow> (Inl e, db)
                 | Inr (verified, parsed) \<Rightarrow>
                     if \<not> verified \<or> forceInvalid then (Inl IdErrInvalidCredentials, db)
                     else if shouldUpgradePassword parsed p then
                       (case encodePassword version idKey p (iw_random w 0) (iw_slot w 1) password of
                          Inl e \<Rightarrow> (Inl e, db)
                        | Inr renewed \<Rightarrow> createSession sum256 policy w loaded renewed (iw_between w 1 db))
                     else createSession sum256 policy w loaded [] (iw_between w 1 db))))"

subsection \<open>Validating a session\<close>

definition loadSession :: "bytes \<Rightarrow> identity_db \<Rightarrow> sessionRecord option" where
  "loadSession tokenHash db =
     find (\<lambda>r. Some (sr_authEpoch r) = current_epoch db \<and> (sr_currentTokenHash r = tokenHash \<or> sr_previousTokenHash r = Some tokenHash)) (sessions db)"

definition deleteExpiredSession :: "sessionRecord \<Rightarrow> bytes \<Rightarrow> identity_db \<Rightarrow> identity_db" where
  "deleteExpiredSession rec presented db =
     delete_sessions (\<lambda>r. sr_id r = sr_id rec \<and> sr_authEpoch r = sr_authEpoch rec
       \<and> (sr_currentTokenHash r = presented \<or> sr_previousTokenHash r = Some presented)) db"

definition forget_previous :: "sessionRecord \<Rightarrow> bytes \<Rightarrow> identity_db \<Rightarrow> (nat \<times> identity_db) option" where
  "forget_previous rec tokenHash db =
     update_sessions (\<lambda>r. sr_id r = sr_id rec \<and> sr_previousTokenHash r = Some tokenHash)
       (\<lambda>r. r\<lparr>sr_previousTokenHash := None, sr_previousValidUntil := None\<rparr>) db"

definition rotate_session ::
  "sessionPolicy \<Rightarrow> sessionRecord \<Rightarrow> bytes \<Rightarrow> int \<Rightarrow> bytes \<Rightarrow> int \<Rightarrow> identity_db \<Rightarrow> (nat \<times> identity_db) option" where
  "rotate_session policy rec tokenHash effectiveNow replacementHash idleExpiry db =
     update_sessions
       (\<lambda>r. sr_id r = sr_id rec \<and> sr_currentTokenHash r = tokenHash \<and> sr_rotateAfter r \<le> effectiveNow
            \<and> Some (sr_authEpoch r) = current_epoch db)
       (\<lambda>r. r\<lparr>sr_previousTokenHash := Some (sr_currentTokenHash r),
              sr_previousValidUntil := Some (effectiveNow + sp_previousGrace policy div nanos),
              sr_currentTokenHash := replacementHash, sr_lastSeen := effectiveNow, sr_idleExpires := idleExpiry,
              sr_rotateAfter := effectiveNow + sp_rotationAfter policy div nanos\<rparr>) db"

definition touch_session :: "sessionRecord \<Rightarrow> bytes \<Rightarrow> int \<Rightarrow> int \<Rightarrow> identity_db \<Rightarrow> (nat \<times> identity_db) option" where
  "touch_session rec tokenHash effectiveNow idleExpiry db =
     update_sessions
       (\<lambda>r. sr_id r = sr_id rec \<and> Some (sr_authEpoch r) = current_epoch db
            \<and> (sr_currentTokenHash r = tokenHash
               \<or> (sr_previousTokenHash r = Some tokenHash \<and> pred_option (\<lambda>u. u > effectiveNow) (sr_previousValidUntil r)
                  \<and> sr_previousValidUntil r \<noteq> None)))
       (\<lambda>r. r\<lparr>sr_lastSeen := effectiveNow, sr_idleExpires := idleExpiry\<rparr>) db"

definition active_session :: "bytes \<Rightarrow> int \<Rightarrow> sessionRecord \<Rightarrow> (identity_error, ActiveSession) result" where
  "active_session renewed idleExpiry rec =
     (if length (sr_csrfTokenHash rec) \<noteq> 32 then Inl (IdErrUnavailable ''persisted identity token hash has invalid length'')
      else Inr \<lparr>as_ReplacementToken = renewed, as_IdleExpiresAt = idleExpiry, as_AbsoluteExpiresAt = sr_absoluteExpires rec,
                as_csrfTokenHash = sr_csrfTokenHash rec\<rparr>)"

definition advance_activity ::
  "identity_world \<Rightarrow> nat \<Rightarrow> sessionRecord \<Rightarrow> bytes \<Rightarrow> int \<Rightarrow> int \<Rightarrow> identity_db
   \<Rightarrow> (identity_error, ActiveSession) result \<times> identity_db" where
  "advance_activity w k rec tokenHash effectiveNow idleExpiry db =
     (case (if iw_ok w k then touch_session rec tokenHash effectiveNow idleExpiry db else None) of
        None \<Rightarrow> (Inl (IdErrUnavailable ''advance session activity''), db)
      | Some (updated, db') \<Rightarrow>
          (if updated \<noteq> 1 then Inl IdErrInvalidSession else active_session [] idleExpiry rec, db'))"

text \<open>What a loaded row says about a presented token at the effective time.\<close>

datatype session_verdict = Lapsed | Unmatched | GraceOver | Accepted

definition judge :: "sessionRecord \<Rightarrow> bytes \<Rightarrow> int \<Rightarrow> session_verdict" where
  "judge rec tokenHash effectiveNow =
     (let matchedCurrent = (tokenHash = sr_currentTokenHash rec);
          matchedPrevious = (case sr_previousTokenHash rec of None \<Rightarrow> False | Some h \<Rightarrow> length h = 32 \<and> tokenHash = h)
      in if effectiveNow \<ge> sr_idleExpires rec \<or> effectiveNow \<ge> sr_absoluteExpires rec then Lapsed
         else if \<not> matchedCurrent \<and> \<not> matchedPrevious then Unmatched
         else if matchedPrevious \<and> (case sr_previousValidUntil rec of None \<Rightarrow> True | Some u \<Rightarrow> effectiveNow \<ge> u) then GraceOver
         else Accepted)"

function validateSessionHash ::
  "(bytes \<Rightarrow> bytes) \<Rightarrow> sessionPolicy \<Rightarrow> identity_world \<Rightarrow> nat \<Rightarrow> bool \<Rightarrow> bytes \<Rightarrow> identity_db
   \<Rightarrow> (identity_error, ActiveSession) result \<times> identity_db" where
  "validateSessionHash sum256 policy w k allowRotation tokenHash db0 =
     (let db = iw_between w k db0
      in if \<not> iw_ok w k then (Inl (IdErrUnavailable ''load session''), db)
         else
           (case loadSession tokenHash db of
              None \<Rightarrow> (Inl IdErrInvalidSession, db)
            | Some rec \<Rightarrow>
                (let effectiveNow = max (unix (iw_now w k)) (sr_lastSeen rec);
                     idleExpiry = min (effectiveNow + sp_idleLifetime policy div nanos) (sr_absoluteExpires rec);
                     later = iw_between w (k + 1) db
                 in case judge rec tokenHash effectiveNow of
                      Lapsed \<Rightarrow> (Inl IdErrSessionExpired, if iw_ok w (k + 1) then deleteExpiredSession rec tokenHash later else later)
                    | Unmatched \<Rightarrow> (Inl IdErrInvalidSession, db)
                    | GraceOver \<Rightarrow>
                        (Inl IdErrInvalidSession,
                         case (if iw_ok w (k + 1) then forget_previous rec tokenHash later else None) of None \<Rightarrow> later | Some (_, db') \<Rightarrow> db')
                    | Accepted \<Rightarrow>
                        if allowRotation \<and> tokenHash = sr_currentTokenHash rec \<and> effectiveNow \<ge> sr_rotateAfter rec then
                          (case newToken sum256 (iw_random w k) of
                             None \<Rightarrow> (Inl (IdErrUnavailable ''rotate session token''), db)
                           | Some (renewed, replacementHash) \<Rightarrow>
                               (case (if iw_ok w (k + 1) then rotate_session policy rec tokenHash effectiveNow replacementHash idleExpiry later else None) of
                                  None \<Rightarrow> (Inl (IdErrUnavailable ''persist session rotation''), later)
                                | Some (rotated, db') \<Rightarrow>
                                    if rotated = 1 then (active_session renewed idleExpiry rec, db')
                                    else validateSessionHash sum256 policy w (k + 2) False tokenHash db'))
                        else advance_activity w (k + 1) rec tokenHash effectiveNow idleExpiry later)))"
  by pat_completeness auto
termination
  by (relation "measure (\<lambda>(_, _, _, _, allowRotation, _, _). if allowRotation then 1 else 0)") (auto split: if_splits)

declare validateSessionHash.simps [simp del]

definition ValidateSession ::
  "(bytes \<Rightarrow> bytes) \<Rightarrow> sessionPolicy \<Rightarrow> identity_world \<Rightarrow> bytes \<Rightarrow> identity_db \<Rightarrow> (identity_error, ActiveSession) result \<times> identity_db" where
  "ValidateSession sum256 policy w rawToken db =
     (case decodeToken sum256 rawToken of
        None \<Rightarrow> (Inl IdErrInvalidSession, db)
      | Some tokenHash \<Rightarrow> validateSessionHash sum256 policy w 0 True tokenHash db)"

definition logout_store :: "bytes \<Rightarrow> identity_db \<Rightarrow> identity_db" where
  "logout_store tokenHash db = delete_sessions (\<lambda>r. sr_currentTokenHash r = tokenHash \<or> sr_previousTokenHash r = Some tokenHash) db"

definition Logout :: "(bytes \<Rightarrow> bytes) \<Rightarrow> identity_world \<Rightarrow> bytes \<Rightarrow> identity_db \<Rightarrow> identity_error option \<times> identity_db" where
  "Logout sum256 w rawToken db =
     (case decodeToken sum256 rawToken of
        None \<Rightarrow> (None, db)
      | Some tokenHash \<Rightarrow> if iw_ok w 0 then (None, logout_store tokenHash db) else (Some (IdErrUnavailable ''delete session''), db))"

end
