(* ===== verification/Identity_Properties.thy ===== *)
theory Identity_Properties
  imports Identity_Session "HOL-Library.Product_Lexorder"
begin

text \<open>
  What the sessions guarantee under every interleaving of statements: the invariant of the tables, final
  revocation, bounded lifetimes, a single winner of concurrent rotations, and what a sign-in grants.
\<close>

subsection \<open>Statements as steps\<close>

text \<open>Every statement against the tables, with arguments that may come from rows loaded long before;
  \<open>N\<close> are token hashes that are not issued.\<close>

inductive identity_step :: "sessionPolicy \<Rightarrow> bytes set \<Rightarrow> identity_db \<Rightarrow> identity_db \<Rightarrow> bool" for policy N where
  bootstrap: "identity_step policy N db (snd (bootstrap_store ok verifier now db))"
| epoch: "identity_step policy N db (snd (advanceEpoch ok verifier now db))"
| create: "h \<notin> N \<Longrightarrow> identity_step policy N db (snd (create_store policy ok loaded verifier h csrf now db))"
| expire: "identity_step policy N db (deleteExpiredSession rec h db)"
| forget: "forget_previous rec h db = Some (n, db') \<Longrightarrow> identity_step policy N db db'"
| rotate: "new \<notin> N \<Longrightarrow> rotate_session policy rec h now new idle db = Some (n, db') \<Longrightarrow> identity_step policy N db db'"
| touch: "touch_session rec h now idle db = Some (n, db') \<Longrightarrow> identity_step policy N db db'"
| logout: "identity_step policy N db (logout_store h db)"

abbreviation identity_run :: "sessionPolicy \<Rightarrow> bytes set \<Rightarrow> identity_db \<Rightarrow> identity_db \<Rightarrow> bool" where
  "identity_run policy N \<equiv> (identity_step policy N)\<^sup>*\<^sup>*"

subsection \<open>The invariant\<close>

definition lifetime_ok :: "sessionPolicy \<Rightarrow> sessionRecord \<Rightarrow> bool" where
  "lifetime_ok policy r \<longleftrightarrow> sr_absoluteExpires r \<le> sr_created r + sp_absoluteLifetime policy div nanos + 1"

definition identity_ok :: "sessionPolicy \<Rightarrow> identity_db \<Rightarrow> bool" where
  "identity_ok policy db \<longleftrightarrow> table_ok (sessions db) \<and> distinct (map sr_id (sessions db)) \<and> pred_option admin_ok (administrator db)
     \<and> (\<forall>r \<in> set (sessions db). Some (sr_authEpoch r) = current_epoch db \<and> lifetime_ok policy r)
     \<and> length (sessions db) \<le> sp_maximumSessions policy"

text \<open>A session is recognised by what no statement changes.\<close>

definition session_key :: "sessionRecord \<Rightarrow> int \<times> int \<times> bytes \<times> int \<times> int" where
  "session_key r = (sr_id r, sr_authEpoch r, sr_csrfTokenHash r, sr_created r, sr_absoluteExpires r)"

definition holds_hash :: "bytes \<Rightarrow> sessionRecord \<Rightarrow> bool" where
  "holds_hash h r \<longleftrightarrow> sr_currentTokenHash r = h \<or> sr_previousTokenHash r = Some h"

lemma lifetime_key: "session_key r = session_key r' \<Longrightarrow> lifetime_ok policy r \<longleftrightarrow> lifetime_ok policy r'"
  by (simp add: session_key_def lifetime_ok_def)

lemma table_ok_filter: "table_ok rows \<Longrightarrow> table_ok (filter P rows)"
proof -
  have "previous_hashes (filter P rows) = map (\<lambda>r. the (sr_previousTokenHash r)) (filter P (filter (\<lambda>r. sr_previousTokenHash r \<noteq> None) rows))"
    by (simp add: previous_hashes_def conj_commute)
  then show "table_ok rows \<Longrightarrow> table_ok (filter P rows)"
    by (auto simp: table_ok_def list_all_iff previous_hashes_def distinct_map inj_on_def)
qed

lemma filtered_ok:
  assumes "identity_ok policy db" "sessions db' = filter P (sessions db)" "administrator db' = administrator db"
  shows "identity_ok policy db'"
  using assms le_trans [OF length_filter_le] unfolding identity_ok_def current_epoch_def
  by (auto simp: table_ok_filter distinct_map inj_on_def)

lemma delete_ok: "identity_ok policy db \<Longrightarrow> identity_ok policy (delete_sessions P db)"
  by (rule filtered_ok) (simp_all add: delete_sessions_def)

subsubsection \<open>Updates that keep the session's key\<close>

locale session_update =
  fixes f :: "sessionRecord \<Rightarrow> sessionRecord"
  assumes keeps: "session_key (f r) = session_key r"
begin

lemma update_key: "update_sessions P f db = Some (n, db') \<Longrightarrow> map session_key (sessions db') = map session_key (sessions db)"
  by (auto simp: update_sessions_def Let_def keeps split: if_splits)

lemma update_ok:
  assumes "update_sessions P f db = Some (n, db')" "identity_ok policy db"
  shows "identity_ok policy db'"
proof -
  have db': "administrator db' = administrator db" "table_ok (sessions db')"
      "sessions db' = map (\<lambda>r. if P r then f r else r) (sessions db)"
    using assms(1) by (auto simp: update_sessions_def Let_def split: if_splits)
  have "map sr_id (sessions db') = map sr_id (sessions db)"
    using keeps by (auto simp: db'(3) session_key_def)
  moreover have "Some (sr_authEpoch r) = current_epoch db' \<and> lifetime_ok policy r" if "r \<in> set (sessions db')" for r
  proof -
    obtain s where s: "s \<in> set (sessions db)" "r = (if P s then f s else s)" using \<open>r \<in> set (sessions db')\<close> db'(3) by auto
    then have "session_key r = session_key s" using keeps by simp
    then show ?thesis using s(1) assms(2) lifetime_key [of r s] db'(1)
      by (auto simp: identity_ok_def current_epoch_def session_key_def)
  qed
  moreover have "length (sessions db') = length (sessions db)" by (simp add: db'(3))
  ultimately show ?thesis using assms(2) db'(1,2) unfolding identity_ok_def by (auto simp del: set_map)
qed

end

interpretation forget_update: session_update "\<lambda>r. r\<lparr>sr_previousTokenHash := None, sr_previousValidUntil := None\<rparr>"
  by unfold_locales (simp add: session_key_def)

interpretation touch_update: session_update "\<lambda>r. r\<lparr>sr_lastSeen := now, sr_idleExpires := idle\<rparr>" for now idle
  by unfold_locales (simp add: session_key_def)

interpretation rotate_update: session_update
  "\<lambda>r. r\<lparr>sr_previousTokenHash := Some (sr_currentTokenHash r), sr_previousValidUntil := Some (now + sp_previousGrace policy div nanos),
         sr_currentTokenHash := new, sr_lastSeen := now, sr_idleExpires := idle,
         sr_rotateAfter := now + sp_rotationAfter policy div nanos\<rparr>" for policy now new idle
  by unfold_locales (simp add: session_key_def)

subsubsection \<open>Bounding the sessions\<close>

lemma exists_least: "finite K \<Longrightarrow> K \<noteq> {} \<Longrightarrow> \<exists>r \<in> K. \<forall>s \<in> K. f r \<le> (f s :: 'b :: linorder)"
proof -
  assume k: "finite K" "K \<noteq> {}"
  then have "Min (f ` K) \<in> f ` K" by simp
  then obtain r where "r \<in> K" "f r = Min (f ` K)" by auto
  then show ?thesis using k(1) by (intro bexI [of _ r]) auto
qed

lemma bound_subset: "set (bound_sessions n rows) \<subseteq> set rows"
  by (auto simp: bound_sessions_def)

lemma bound_sessions_length:
  assumes "distinct (map sr_id rows)"
  shows "length (bound_sessions n rows) \<le> n"
proof (rule ccontr)
  let ?kept = "set (bound_sessions n rows)" and ?k = "\<lambda>r. (sr_lastSeen r, sr_id r)"
  assume long: "\<not> ?thesis"
  have d: "distinct rows" "distinct (bound_sessions n rows)" using assms by (simp_all add: bound_sessions_def distinct_map)
  have "finite ?kept" "?kept \<noteq> {}" using long by auto
  then obtain r where r: "r \<in> ?kept" "\<And>s. s \<in> ?kept \<Longrightarrow> ?k r \<le> ?k s"
    using exists_least [of ?kept ?k] by blast
  have "newer s r" if "s \<in> ?kept - {r}" for s
  proof -
    have "sr_id s \<noteq> sr_id r" using assms that r(1) by (auto simp: bound_sessions_def distinct_map inj_on_def)
    then show ?thesis using r(2) [of s] that by (auto simp: newer_def less_eq_prod_def)
  qed
  then have "?kept - {r} \<subseteq> set (filter (\<lambda>s. newer s r) rows)" by (auto simp: bound_sessions_def)
  then have "card (?kept - {r}) \<le> length (filter (\<lambda>s. newer s r) rows)"
    using card_mono [of "set (filter (\<lambda>s. newer s r) rows)"] card_length le_trans by blast
  moreover have "card (?kept - {r}) = length (bound_sessions n rows) - 1"
    using r(1) distinct_card [OF d(2)] by simp
  moreover have "length (filter (\<lambda>s. newer s r) rows) < n" using r(1) by (simp add: bound_sessions_def)
  ultimately show False using long by linarith
qed

lemma next_id_fresh: "r \<in> set rows \<Longrightarrow> sr_id r < next_id rows"
  by (auto simp: next_id_def intro: le_less_trans [OF Max_ge])

lemma unix_add: "unix (t + d) \<le> unix t + d div nanos + 1"
proof -
  have "t = nanos * (t div nanos) + t mod nanos" "d = nanos * (d div nanos) + d mod nanos" by simp_all
  moreover have "t mod nanos < nanos" "d mod nanos < nanos" by simp_all
  ultimately have "t + d < nanos * (t div nanos + d div nanos + 2)" by (simp add: algebra_simps)
  then have "(t + d) div nanos < t div nanos + d div nanos + 2" by (simp add: div_less_iff_less_mult mult.commute)
  then show ?thesis by (simp add: unix_def)
qed

text \<open>A committed creation: the purged rows, the new row, and what the bound keeps of them.\<close>

lemma upgrade_fields:
  "sessions (upgrade_verifier loaded v db) = sessions db" "current_epoch (upgrade_verifier loaded v db) = current_epoch db"
  "sessions (purge_sessions t db) = filter (\<lambda>r. \<not> expired_row t db r) (sessions db)" "current_epoch (purge_sessions t db) = current_epoch db"
  by (auto simp: upgrade_verifier_def purge_sessions_def delete_sessions_def current_epoch_def split: option.split)

lemma create_store_cases:
  assumes "create_store policy ok loaded verifier h csrf now db = (a, db')"
  obtains (refused) e where "a = Inl e" "db' = db"
  | (created) rows admin where "a = Inr ()" "rows = filter (\<lambda>r. \<not> expired_row (unix now) db r) (sessions db)"
      "administrator db' = Some admin" "admin_ok admin" "ad_epoch admin = ad_epoch loaded" "current_epoch db = Some (ad_epoch loaded)"
      "table_ok (rows @ [new_session policy now h csrf (next_id rows) (ad_epoch loaded)])"
      "sessions db' = bound_sessions (sp_maximumSessions policy) (rows @ [new_session policy now h csrf (next_id rows) (ad_epoch loaded)])"
proof (cases a)
  case (Inl e)
  then have "db' = db" using assms by (auto simp: create_store_def with_tx_def Let_def split: if_splits)
  with Inl show ?thesis by (rule refused)
next
  case (Inr u)
  let ?up = "upgrade_verifier loaded verifier (purge_sessions (unix now) db)"
  let ?rows = "sessions ?up @ [new_session policy now h csrf (next_id (sessions ?up)) (ad_epoch loaded)]"
  from Inr assms have c: "pred_option admin_ok (administrator ?up)" "current_epoch ?up = Some (ad_epoch loaded)" "table_ok ?rows"
      "db' = ?up\<lparr>sessions := bound_sessions (sp_maximumSessions policy) ?rows\<rparr>"
    by (auto simp: create_store_def with_tx_def Let_def split: if_splits)
  then obtain admin where "administrator ?up = Some admin" "ad_epoch admin = ad_epoch loaded" by (auto simp: current_epoch_def)
  with c Inr show ?thesis by (intro created [of "sessions ?up" admin]) (simp_all add: upgrade_fields)
qed

lemma create_ok:
  assumes "identity_ok policy db" "create_store policy ok loaded verifier h csrf now db = (a, db')"
  shows "identity_ok policy db'"
  using assms(2)
proof (cases rule: create_store_cases)
  case (created rows admin)
  let ?new = "new_session policy now h csrf (next_id rows) (ad_epoch loaded)"
  have d: "distinct (map sr_id (rows @ [?new]))"
  proof -
    have "distinct (map sr_id rows)" using assms(1) by (auto simp: created(2) identity_ok_def distinct_map inj_on_def)
    moreover have "next_id rows \<notin> set (map sr_id rows)" using next_id_fresh [of _ rows] by force
    ultimately show ?thesis by (simp add: new_session_def)
  qed
  have row: "Some (sr_authEpoch r) = current_epoch db' \<and> lifetime_ok policy r" if "r \<in> set (rows @ [?new])" for r
  proof (cases "r = ?new")
    case True
    then show ?thesis using created(3,5) unix_add [of now "sp_absoluteLifetime policy"]
      by (simp add: new_session_def current_epoch_def lifetime_ok_def)
  next
    case False
    then have "r \<in> set (sessions db)" using that created(2) by auto
    then show ?thesis using assms(1) created(3,5,6) by (auto simp: identity_ok_def current_epoch_def)
  qed
  have "table_ok (sessions db')" unfolding created(8) bound_sessions_def by (rule table_ok_filter [OF created(7)])
  moreover have "distinct (map sr_id (sessions db'))" "set (sessions db') \<subseteq> set (rows @ [?new])"
    unfolding created(8) bound_sessions_def using d by (auto simp: distinct_map inj_on_def)
  ultimately show ?thesis
    using row bound_sessions_length [OF d] created(3,4,8) by (auto simp: identity_ok_def)
qed (simp add: assms(1))

lemma identity_step_ok: "identity_step policy N db db' \<Longrightarrow> identity_ok policy db \<Longrightarrow> identity_ok policy db'"
proof (induction rule: identity_step.induct)
  case (bootstrap db ok verifier now)
  then show ?case
    by (auto simp: bootstrap_store_def with_tx_def Let_def identity_ok_def current_epoch_def split: if_splits sum.splits prod.splits)
next
  case (epoch db ok verifier now)
  then show ?case
    by (auto simp: advanceEpoch_def with_tx_def Let_def identity_ok_def table_ok_def previous_hashes_def split: if_splits sum.splits prod.splits option.splits)
next
  case (create h db ok loaded verifier csrf now)
  then show ?case by (metis create_ok prod.collapse)
next
  case (expire db rec h)
  then show ?case by (simp add: deleteExpiredSession_def delete_ok)
next
  case (logout db h)
  then show ?case by (simp add: logout_store_def delete_ok)
qed (auto simp: forget_previous_def rotate_session_def touch_session_def
      intro: forget_update.update_ok rotate_update.update_ok touch_update.update_ok)

lemma identity_run_ok: "identity_run policy N db db' \<Longrightarrow> identity_ok policy db \<Longrightarrow> identity_ok policy db'"
  by (induction rule: rtranclp_induct) (auto intro: identity_step_ok)

lemma empty_ok [simp]: "identity_ok policy empty_identity_db"
  by (simp add: identity_ok_def empty_identity_db_def table_ok_def previous_hashes_def)


subsection \<open>Who holds a token hash\<close>

definition no_hash :: "bytes \<Rightarrow> identity_db \<Rightarrow> bool" where
  "no_hash h db \<longleftrightarrow> (\<forall>r \<in> set (sessions db). \<not> holds_hash h r)"

lemma update_rows:
  assumes "update_sessions P f db = Some (n, db')"
  shows "sessions db' = map (\<lambda>r. if P r then f r else r) (sessions db)" "n = length (filter P (sessions db))"
    "administrator db' = administrator db"
  using assms by (auto simp: update_sessions_def Let_def split: if_splits)

text \<open>No statement moves a hash that is not issued again to another session.\<close>

lemma step_descends:
  assumes "identity_step policy N db db'" "h \<in> N" "r \<in> set (sessions db')" "holds_hash h r"
  shows "\<exists>s \<in> set (sessions db). holds_hash h s \<and> session_key s = session_key r"
  using assms
proof (induction rule: identity_step.induct)
  case (bootstrap db ok verifier now)
  then show ?case by (auto simp: bootstrap_store_def with_tx_def Let_def split: if_splits)
next
  case (epoch db ok verifier now)
  then show ?case by (auto simp: advanceEpoch_def with_tx_def Let_def split: if_splits option.splits)
next
  case (create g db ok loaded verifier csrf now)
  obtain a db' where c: "create_store policy ok loaded verifier g csrf now db = (a, db')" by (metis prod.exhaust)
  then show ?case
  proof (cases rule: create_store_cases)
    case (created rows admin)
    have "r \<in> set (rows @ [new_session policy now g csrf (next_id rows) (ad_epoch loaded)])"
      using create.prems(2) c created(8) bound_subset by (metis snd_conv subsetD)
    then have "r \<in> set (sessions db) \<or> r = new_session policy now g csrf (next_id rows) (ad_epoch loaded)"
      unfolding created(2) by auto
    then show ?thesis using create by (auto simp: holds_hash_def new_session_def)
  qed (use create c in auto)
next
  case (rotate new rec g now idle db n db')
  from rotate(2) rotate.prems show ?case
    by (auto simp: update_rows(1) [OF rotate(2) [unfolded rotate_session_def]] holds_hash_def session_key_def rotate(1) split: if_splits)
next
  case (forget rec g db n db')
  from forget.prems show ?case
    by (auto simp: update_rows(1) [OF forget(1) [unfolded forget_previous_def]] holds_hash_def session_key_def split: if_splits)
next
  case (touch rec g now idle db n db')
  from touch.prems show ?case
    by (auto simp: update_rows(1) [OF touch(1) [unfolded touch_session_def]] holds_hash_def session_key_def split: if_splits)
qed (auto simp: deleteExpiredSession_def logout_store_def delete_sessions_def)

lemma run_descends:
  "identity_run policy N db db' \<Longrightarrow> h \<in> N \<Longrightarrow> r \<in> set (sessions db') \<Longrightarrow> holds_hash h r \<Longrightarrow>
   \<exists>s \<in> set (sessions db). holds_hash h s \<and> session_key s = session_key r"
proof (induction arbitrary: r rule: rtranclp_induct)
  case (step y z)
  from step_descends [OF step(2,4,5,6)] step(3,4) show ?case by metis
qed auto

lemma run_no_hash: "identity_run policy {h} db db' \<Longrightarrow> no_hash h db \<Longrightarrow> no_hash h db'"
  using run_descends [of policy "{h}" db db' h] by (auto simp: no_hash_def)

lemma no_hash_load: "no_hash h db \<Longrightarrow> loadSession h db = None"
  by (auto simp: loadSession_def no_hash_def holds_hash_def find_None_iff)

lemma update_nothing:
  assumes "table_ok (sessions db)" "\<And>r. r \<in> set (sessions db) \<Longrightarrow> \<not> P r"
  shows "update_sessions P f db = Some (0, db)"
proof -
  have "map (\<lambda>r. if P r then f r else r) (sessions db) = sessions db" "filter P (sessions db) = []"
    using assms(2) by (auto simp: filter_empty_conv intro!: map_idI)
  then show ?thesis using assms(1) by (simp add: update_sessions_def Let_def)
qed

lemma update_none:
  assumes "update_sessions P f db = Some (n, db')" "\<And>r. r \<in> set (sessions db) \<Longrightarrow> \<not> P r"
  shows "n = 0 \<and> db' = db"
proof -
  have "map (\<lambda>r. if P r then f r else r) (sessions db) = sessions db" "filter P (sessions db) = []"
    using assms(2) by (auto simp: filter_empty_conv intro!: map_idI)
  then show ?thesis using assms(1) by (auto simp: update_sessions_def Let_def split: if_splits)
qed

lemma no_hash_updates:
  assumes "no_hash h db"
  shows "rotate_session policy rec h now new idle db = Some (n, db') \<Longrightarrow> n = 0 \<and> db' = db"
    "touch_session rec h now idle db = Some (n, db') \<Longrightarrow> n = 0 \<and> db' = db"
  unfolding rotate_session_def touch_session_def
  using assms by (auto simp: no_hash_def holds_hash_def dest!: update_none)

subsection \<open>Validation\<close>

abbreviation effective :: "identity_world \<Rightarrow> nat \<Rightarrow> sessionRecord \<Rightarrow> int" where
  "effective w k rec \<equiv> max (unix (iw_now w k)) (sr_lastSeen rec)"

abbreviation next_idle :: "sessionPolicy \<Rightarrow> identity_world \<Rightarrow> nat \<Rightarrow> sessionRecord \<Rightarrow> int" where
  "next_idle policy w k rec \<equiv> min (effective w k rec + sp_idleLifetime policy div nanos) (sr_absoluteExpires rec)"

lemma validate_unknown:
  assumes "no_hash h (iw_between w k db)"
  shows "fst (validateSessionHash sum256 policy w k b h db) = (if iw_ok w k then Inl IdErrInvalidSession else Inl (IdErrUnavailable ''load session''))"
  by (subst validateSessionHash.simps) (simp add: no_hash_load [OF assms])

lemma validate_Inr:
  assumes "validateSessionHash sum256 policy w k b h db = (Inr a, db')"
  obtains (touched) rec where "loadSession h (iw_between w k db) = Some rec" "judge rec h (effective w k rec) = Accepted"
      "touch_session rec h (effective w k rec) (next_idle policy w k rec) (iw_between w (k + 1) (iw_between w k db)) = Some (1, db')"
      "active_session [] (next_idle policy w k rec) rec = Inr a"
  | (rotated) rec raw hash where "loadSession h (iw_between w k db) = Some rec" "judge rec h (effective w k rec) = Accepted"
      "rotate_session policy rec h (effective w k rec) hash (next_idle policy w k rec) (iw_between w (k + 1) (iw_between w k db)) = Some (1, db')"
      "active_session raw (next_idle policy w k rec) rec = Inr a" "h = sr_currentTokenHash rec"
  | (retried) rec hash n db2 where b "loadSession h (iw_between w k db) = Some rec"
      "rotate_session policy rec h (effective w k rec) hash (next_idle policy w k rec) (iw_between w (k + 1) (iw_between w k db)) = Some (n, db2)"
      "n \<noteq> 1" "validateSessionHash sum256 policy w (k + 2) False h db2 = (Inr a, db')"
proof -
  let ?db = "iw_between w k db"
  note v = assms [unfolded validateSessionHash.simps [of sum256 policy w k b h db] Let_def]
  obtain rec where rec: "loadSession h ?db = Some rec" using v by (auto split: if_splits option.splits)
  define e where "e = effective w k rec"
  define i where "i = min (e + sp_idleLifetime policy div nanos) (sr_absoluteExpires rec)"
  have ok: "iw_ok w k" using v by (auto split: if_splits)
  note v' = v [unfolded rec option.case, folded e_def, folded i_def]
  note fold = e_def [symmetric] i_def [symmetric]
  show thesis
  proof (cases "judge rec h e")
    case Accepted
    show thesis
    proof (cases "b \<and> h = sr_currentTokenHash rec \<and> e \<ge> sr_rotateAfter rec")
      case True
      with v' ok Accepted obtain raw hash n db2 where
        r: "rotate_session policy rec h e hash i (iw_between w (k + 1) ?db) = Some (n, db2)"
          "(if n = 1 then (active_session raw i rec, db2) else validateSessionHash sum256 policy w (k + 2) False h db2) = (Inr a, db')"
        by (auto split: option.splits prod.splits if_splits)
      show thesis
      proof (cases "n = 1")
        case True
        with r Accepted \<open>b \<and> _\<close> show thesis by (intro rotated [OF rec, unfolded fold]) auto
      next
        case False
        with r \<open>b \<and> _\<close> show thesis by (intro retried [OF _ rec, unfolded fold]) auto
      qed
    next
      case False
      with v' ok Accepted show thesis
        by (intro touched [OF rec, unfolded fold]) (auto simp: advance_activity_def split: if_splits option.splits prod.splits)
    qed
  qed (use v' ok in auto)
qed


subsection \<open>Guarantees\<close>

text \<open>C27: In every state that sign-ins, validations, rotations, sign-outs, password resets and
  revocations can reach, with their statements interleaved in any order and on rows loaded at any
  earlier time, all sessions belong to the administrator's current epoch, token hashes are unique,
  the number of sessions is bounded and no session's absolute expiry exceeds the policy.\<close>

theorem sessions_invariant:
  assumes "identity_run policy N empty_identity_db db"
  shows "table_ok (sessions db) \<and> distinct (map sr_id (sessions db)) \<and> length (sessions db) \<le> sp_maximumSessions policy
    \<and> (\<forall>r \<in> set (sessions db). Some (sr_authEpoch r) = current_epoch db
         \<and> sr_absoluteExpires r \<le> sr_created r + sp_absoluteLifetime policy div nanos + 1)"
  using identity_run_ok [OF assms empty_ok] unfolding identity_ok_def lifetime_ok_def by blast

definition revoked :: "sessionPolicy \<Rightarrow> bytes \<Rightarrow> identity_db \<Rightarrow> bool" where
  "revoked policy h db \<longleftrightarrow> (\<exists>verifier now before after. advanceEpoch True verifier now before = (Inr (), after) \<and> identity_run policy {h} after db)"

lemma revoked_no_hash: "revoked policy h db \<Longrightarrow> no_hash h db"
proof -
  assume "revoked policy h db"
  then obtain v t before after where r: "advanceEpoch True v t before = (Inr (), after)" "identity_run policy {h} after db"
    by (auto simp: revoked_def)
  have "no_hash h after" using r(1)
    by (auto simp: advanceEpoch_def with_tx_def Let_def no_hash_def split: if_splits option.splits)
  then show ?thesis using run_no_hash r(2) by blast
qed


lemma updated_row:
  assumes "update_sessions P f db = Some (1, db')"
  obtains r where "r \<in> set (sessions db)" "P r" "f r \<in> set (sessions db')"
proof -
  have "filter P (sessions db) \<noteq> []" using update_rows(2) [OF assms] by auto
  then obtain r where "r \<in> set (sessions db)" "P r" by (auto simp: filter_empty_conv)
  then show ?thesis using that update_rows(1) [OF assms] by force
qed

lemma loaded_row: "loadSession h db = Some rec \<Longrightarrow> rec \<in> set (sessions db) \<and> holds_hash h rec \<and> Some (sr_authEpoch rec) = current_epoch db"
  by (auto simp: loadSession_def find_Some_iff holds_hash_def)

lemma loaded_key:
  assumes "identity_ok policy db" "loadSession h db = Some rec" "identity_run policy {h} db later"
    and "r \<in> set (sessions later)" "sr_id r = sr_id rec" "holds_hash h r"
  shows "session_key r = session_key rec"
proof -
  obtain s where s: "s \<in> set (sessions db)" "session_key s = session_key r"
    using run_descends [OF assms(3) _ assms(4,6)] by auto
  then have "sr_id s = sr_id rec" using assms(5) by (simp add: session_key_def)
  then have "s = rec" using assms(1) s(1) loaded_row [OF assms(2)] by (auto simp: identity_ok_def distinct_map inj_on_def)
  with s show ?thesis by simp
qed

lemma judge_accepted: "judge rec h t = Accepted \<Longrightarrow> t < sr_idleExpires rec \<and> t < sr_absoluteExpires rec"
  by (auto simp: judge_def Let_def split: if_splits)

text \<open>What a successful validation leaves behind.\<close>

definition bounded_session :: "sessionPolicy \<Rightarrow> int \<Rightarrow> ActiveSession \<Rightarrow> identity_db \<Rightarrow> bool" where
  "bounded_session policy t a db \<longleftrightarrow> (\<exists>r \<in> set (sessions db). as_AbsoluteExpiresAt a = sr_absoluteExpires r
     \<and> as_csrfTokenHash a = sr_csrfTokenHash r \<and> as_IdleExpiresAt a = sr_idleExpires r
     \<and> t \<le> sr_lastSeen r \<and> sr_lastSeen r < sr_absoluteExpires r
     \<and> sr_idleExpires r \<le> sr_lastSeen r + sp_idleLifetime policy div nanos
     \<and> sr_absoluteExpires r \<le> sr_created r + sp_absoluteLifetime policy div nanos + 1)"

lemma bounded_update:
  assumes "identity_ok policy db" "identity_run policy {h} db later" "loadSession h db = Some rec" "judge rec h e = Accepted"
    and "u \<in> set (sessions db')" "session_key u = session_key rec" "sr_lastSeen u = e"
    and "sr_idleExpires u = min (e + sp_idleLifetime policy div nanos) (sr_absoluteExpires rec)"
    and "active_session raw (min (e + sp_idleLifetime policy div nanos) (sr_absoluteExpires rec)) rec = Inr a" "t \<le> e"
  shows "bounded_session policy t a db'"
proof -
  have "lifetime_ok policy u" using assms(1,3,6) loaded_row lifetime_key [of u rec policy] by (auto simp: identity_ok_def)
  moreover have "sr_absoluteExpires u = sr_absoluteExpires rec" "sr_csrfTokenHash u = sr_csrfTokenHash rec"
    using assms(6) by (simp_all add: session_key_def)
  moreover have "as_AbsoluteExpiresAt a = sr_absoluteExpires rec" "as_csrfTokenHash a = sr_csrfTokenHash rec"
      "as_IdleExpiresAt a = min (e + sp_idleLifetime policy div nanos) (sr_absoluteExpires rec)"
    using assms(9) by (auto simp: active_session_def split: if_splits)
  moreover have "sr_idleExpires u \<le> e + sp_idleLifetime policy div nanos" using assms(8) by simp
  ultimately show ?thesis
    unfolding bounded_session_def using assms(5,7,8,10) judge_accepted [OF assms(4)] by (intro bexI [of _ u]) (simp_all add: lifetime_ok_def)
qed

lemma touched_bounded:
  assumes "identity_ok policy db" "identity_run policy {h} db later" "loadSession h db = Some rec" "judge rec h e = Accepted"
    and "touch_session rec h e (min (e + sp_idleLifetime policy div nanos) (sr_absoluteExpires rec)) later = Some (1, db')"
    and "active_session raw (min (e + sp_idleLifetime policy div nanos) (sr_absoluteExpires rec)) rec = Inr a" "t \<le> e"
  shows "bounded_session policy t a db'"
proof -
  obtain r where r: "r \<in> set (sessions later)" "sr_id r = sr_id rec" "holds_hash h r"
      "r\<lparr>sr_lastSeen := e, sr_idleExpires := min (e + sp_idleLifetime policy div nanos) (sr_absoluteExpires rec)\<rparr> \<in> set (sessions db')"
    using assms(5) unfolding touch_session_def by (elim updated_row) (auto simp: holds_hash_def)
  show ?thesis
    by (rule bounded_update [OF assms(1-4) r(4) _ _ _ assms(6,7)])
       (use loaded_key [OF assms(1,3,2) r(1-3)] in \<open>simp_all add: session_key_def\<close>)
qed

lemma rotated_bounded:
  assumes "identity_ok policy db" "identity_run policy {h} db later" "loadSession h db = Some rec" "judge rec h e = Accepted"
    and "rotate_session policy rec h e hash (min (e + sp_idleLifetime policy div nanos) (sr_absoluteExpires rec)) later = Some (1, db')"
    and "active_session raw (min (e + sp_idleLifetime policy div nanos) (sr_absoluteExpires rec)) rec = Inr a" "t \<le> e"
  shows "bounded_session policy t a db'"
proof -
  let ?i = "min (e + sp_idleLifetime policy div nanos) (sr_absoluteExpires rec)"
  obtain r where r: "r \<in> set (sessions later)" "sr_id r = sr_id rec" "holds_hash h r"
      "r\<lparr>sr_previousTokenHash := Some (sr_currentTokenHash r), sr_previousValidUntil := Some (e + sp_previousGrace policy div nanos),
         sr_currentTokenHash := hash, sr_lastSeen := e, sr_idleExpires := ?i,
         sr_rotateAfter := e + sp_rotationAfter policy div nanos\<rparr> \<in> set (sessions db')"
    using assms(5) unfolding rotate_session_def by (elim updated_row) (auto simp: holds_hash_def)
  show ?thesis
    by (rule bounded_update [OF assms(1-4) r(4) _ _ _ assms(6,7)])
       (use loaded_key [OF assms(1,3,2) r(1-3)] in \<open>simp_all add: session_key_def\<close>)
qed

lemma validation_bounded:
  assumes "identity_ok policy db" "\<And>k db. identity_run policy {h} db (iw_between w k db)" "\<And>k. iw_now w k \<le> iw_now w (Suc k)"
    and "validateSessionHash sum256 policy w k b h db = (Inr a, db')" "t \<le> unix (iw_now w k)"
  shows "bounded_session policy t a db'"
  using assms(1,4,5)
proof (induction b arbitrary: k db rule: measure_induct_rule [of "\<lambda>b. if b then 1 else 0 :: nat"])
  case (less b)
  let ?db = "iw_between w k db"
  have ok: "identity_ok policy ?db" using identity_run_ok [OF assms(2)] less.prems(1) by blast
  have t: "t \<le> effective w k rec" for rec using less.prems(3) by simp
  from less.prems(2) show ?case
  proof (cases rule: validate_Inr)
    case (touched rec)
    then show ?thesis using touched_bounded [OF ok assms(2) touched(1,2,3,4) t] by simp
  next
    case (rotated rec raw hash)
    then show ?thesis using rotated_bounded [OF ok assms(2) rotated(1,2,3,4) t] by simp
  next
    case (retried rec hash n db2)
    have "identity_ok policy db2"
      using retried(3) identity_run_ok [OF assms(2) ok, of "k + 1"] unfolding rotate_session_def by (rule rotate_update.update_ok)
    moreover have "iw_now w k \<le> iw_now w (k + 2)" using assms(3) [of k] assms(3) [of "Suc k"] by simp
    then have "t \<le> unix (iw_now w (k + 2))" using less.prems(3) by (auto simp: unix_def intro: order_trans zdiv_mono1)
    ultimately show ?thesis using less.IH [of False] retried(1,5) by simp
  qed
qed



subsubsection \<open>Rotation\<close>

lemma distinct_field: "distinct (map f xs) \<Longrightarrow> a \<in> set xs \<Longrightarrow> b \<in> set xs \<Longrightarrow> f a = f b \<Longrightarrow> a = b"
  by (simp add: distinct_map inj_on_def)

lemma single_hit:
  assumes "distinct (map sr_id rows)" "x \<in> set rows" "P x" "\<And>r. r \<in> set rows \<Longrightarrow> P r \<Longrightarrow> sr_id r = sr_id x"
  shows "length (filter P rows) = 1"
proof -
  have "r = x" if "r \<in> set rows" "P r" for r
    using distinct_field [OF assms(1) that(1) assms(2) assms(4) [OF that]] .
  then have "set (filter P rows) = {x}" using assms(2,3) unfolding set_filter by blast
  moreover have "distinct (filter P rows)" using assms(1) by (simp add: distinct_map)
  ultimately show ?thesis using distinct_card [of "filter P rows"] by (simp del: set_filter)
qed

lemma previous_unique:
  assumes "distinct (previous_hashes rows)" "r \<in> set rows" "s \<in> set rows" "sr_previousTokenHash r = Some h" "sr_previousTokenHash s = Some h"
  shows "r = s"
proof -
  let ?q = "filter (\<lambda>r. sr_previousTokenHash r \<noteq> None) rows"
  have "inj_on (\<lambda>r. the (sr_previousTokenHash r)) (set ?q)" using assms(1) by (simp add: previous_hashes_def distinct_map)
  moreover have "r \<in> set ?q" "s \<in> set ?q" using assms by auto
  ultimately show ?thesis using assms(4,5) by (metis inj_onD option.sel)
qed

lemma find_unique: "x \<in> set xs \<Longrightarrow> P x \<Longrightarrow> (\<And>y. y \<in> set xs \<Longrightarrow> P y \<Longrightarrow> y = x) \<Longrightarrow> find P xs = Some x"
  by (metis find_None_iff find_Some_iff not_None_eq nth_mem)

text \<open>Touching keeps the hash columns, so only the row checks decide.\<close>

lemma touch_commits:
  assumes "identity_ok policy db" "x \<in> set (sessions db)" "holds_hash h x" "e < sr_absoluteExpires x" "sr_lastSeen x \<le> e"
    and "\<And>u. sr_previousTokenHash x = Some h \<Longrightarrow> sr_currentTokenHash x \<noteq> h \<Longrightarrow> sr_previousValidUntil x = Some u \<Longrightarrow> e < u"
    and "sr_id rec = sr_id x" "idle = min (e + d) (sr_absoluteExpires x)" "0 \<le> d"
  shows "touch_session rec h e idle db =
    Some (1, db\<lparr>sessions := map (\<lambda>r. if r = x then x\<lparr>sr_lastSeen := e, sr_idleExpires := idle\<rparr> else r) (sessions db)\<rparr>)"
proof -
  let ?P = "\<lambda>r. sr_id r = sr_id rec \<and> Some (sr_authEpoch r) = current_epoch db \<and> (sr_currentTokenHash r = h
      \<or> (sr_previousTokenHash r = Some h \<and> pred_option (\<lambda>u. u > e) (sr_previousValidUntil r) \<and> sr_previousValidUntil r \<noteq> None))"
  let ?f = "\<lambda>r. r\<lparr>sr_lastSeen := e, sr_idleExpires := idle\<rparr>"
  have d: "distinct (map sr_id (sessions db))" "table_ok (sessions db)" "Some (sr_authEpoch x) = current_epoch db"
    using assms(1,2) by (auto simp: identity_ok_def)
  have ok: "session_ok x" using d(2) assms(2) by (auto simp: table_ok_def list_all_iff)
  have P: "?P x" using assms(3,6,7) d(3) ok
    by (cases "sr_previousValidUntil x") (auto simp: holds_hash_def session_ok_def)
  have same: "?P r \<longleftrightarrow> r = x" if "r \<in> set (sessions db)" for r
    using P distinct_field [OF d(1) that assms(2)] assms(7) by auto
  have rows: "map (\<lambda>r. if ?P r then ?f r else r) (sessions db) = map (\<lambda>r. if r = x then ?f x else r) (sessions db)"
  proof (rule map_cong [OF refl])
    fix r assume "r \<in> set (sessions db)"
    show "(if ?P r then ?f r else r) = (if r = x then ?f x else r)" unfolding same [OF \<open>r \<in> set (sessions db)\<close>] by simp
  qed
  have "session_ok (?f x)" using ok assms(4,5,8,9) by (auto simp: session_ok_def)
  then have "list_all session_ok (map (\<lambda>r. if r = x then ?f x else r) (sessions db))" using d(2) by (auto simp: table_ok_def list_all_iff)
  moreover have "map sr_currentTokenHash (map (\<lambda>r. if r = x then ?f x else r) (sessions db)) = map sr_currentTokenHash (sessions db)" by simp
  moreover have "previous_hashes (map (\<lambda>r. if r = x then ?f x else r) rs) = previous_hashes rs" for rs
    by (induction rs) (auto simp: previous_hashes_def)
  ultimately have "table_ok (map (\<lambda>r. if ?P r then ?f r else r) (sessions db))" using d(2) by (simp only: rows table_ok_def)
  moreover have "length (filter ?P (sessions db)) = 1" using single_hit [OF d(1) assms(2), of ?P] P same by auto
  ultimately show ?thesis unfolding touch_session_def update_sessions_def Let_def rows by simp
qed

definition rotated_row :: "sessionPolicy \<Rightarrow> int \<Rightarrow> bytes \<Rightarrow> int \<Rightarrow> sessionRecord \<Rightarrow> sessionRecord" where
  "rotated_row policy e new idle r =
     r\<lparr>sr_previousTokenHash := Some (sr_currentTokenHash r), sr_previousValidUntil := Some (e + sp_previousGrace policy div nanos),
       sr_currentTokenHash := new, sr_lastSeen := e, sr_idleExpires := idle, sr_rotateAfter := e + sp_rotationAfter policy div nanos\<rparr>"

lemma rotation_result:
  assumes "identity_ok policy db" "loadSession h db = Some rec" "h = sr_currentTokenHash rec" "new \<noteq> h"
    and "rotate_session policy rec h e new idle db = Some (1, db')"
  shows "rotated_row policy e new idle rec \<in> set (sessions db')"
    "\<And>r. r \<in> set (sessions db') \<Longrightarrow> holds_hash h r \<Longrightarrow> r = rotated_row policy e new idle rec"
    "current_epoch db' = current_epoch db" "identity_ok policy db'"
proof -
  let ?P = "\<lambda>r. sr_id r = sr_id rec \<and> sr_currentTokenHash r = h \<and> sr_rotateAfter r \<le> e \<and> Some (sr_authEpoch r) = current_epoch db"
  note u = assms(5) [unfolded rotate_session_def, folded rotated_row_def]
  have rec: "rec \<in> set (sessions db)" using loaded_row [OF assms(2)] by simp
  have inj: "r = rec" if "r \<in> set (sessions db)" "sr_currentTokenHash r = h" for r
    by (rule distinct_field [of sr_currentTokenHash, OF _ that(1) rec]) (use assms(1,3) that(2) in \<open>auto simp: identity_ok_def table_ok_def\<close>)
  show ok: "identity_ok policy db'" by (rule rotate_update.update_ok [OF assms(5) [unfolded rotate_session_def] assms(1)])
  obtain r where r: "r \<in> set (sessions db)" "?P r" "rotated_row policy e new idle r \<in> set (sessions db')" using u by (rule updated_row)
  then show new: "rotated_row policy e new idle rec \<in> set (sessions db')" using inj by blast
  show "current_epoch db' = current_epoch db" using update_rows(3) [OF u] by (simp add: current_epoch_def)
  fix s assume s: "s \<in> set (sessions db')" "holds_hash h s"
  then obtain q where q: "q \<in> set (sessions db)" "s = (if ?P q then rotated_row policy e new idle q else q)"
    using update_rows(1) [OF u] by auto
  show "s = rotated_row policy e new idle rec"
  proof (cases "?P q")
    case True
    then have "q = rec" using inj [OF q(1)] by blast
    moreover have "s = rotated_row policy e new idle q" unfolding q(2) by (rule if_P [OF True])
    ultimately show ?thesis by simp
  next
    case False
    have "s = q" unfolding q(2) by (rule if_not_P [OF False])
    moreover have "sr_currentTokenHash q \<noteq> h"
    proof
      assume "sr_currentTokenHash q = h"
      then have "q = rec" "r = rec" using inj [OF q(1)] inj [OF r(1)] r(2) by blast+
      with r(2) False show False by blast
    qed
    ultimately have "sr_previousTokenHash s = Some h" using s(2) by (simp add: holds_hash_def)
    moreover have "sr_previousTokenHash (rotated_row policy e new idle rec) = Some h" using assms(3) by (simp add: rotated_row_def)
    moreover have "distinct (previous_hashes (sessions db'))" using ok by (simp add: identity_ok_def table_ok_def)
    ultimately show ?thesis using previous_unique s(1) new by blast
  qed
qed


text \<open>C26: Of two requests that race to rotate the same token exactly one wins.  When another request
  rotated the session between this request's load and its update, this request's rotation changes
  nothing, and while the grace period lasts it is still accepted through the previous token,
  without a second replacement; the winner's token stays the current one.\<close>

theorem rotation_has_one_winner:
  assumes "identity_ok policy db" "loadSession h db = Some rec" "h = sr_currentTokenHash rec" "new \<noteq> h" "length h = 32"
    and "rotate_session policy rec h e new idle db = Some (1, other)"
    and "iw_between w 0 db = db" "iw_between w 1 db = other" "\<And>db. iw_between w 2 db = db" "\<And>db. iw_between w 3 db = db" "\<And>k. iw_ok w k"
    and "iw_random w 0 = Some raw" "judge rec h (effective w 0 rec) = Accepted" "sr_rotateAfter rec \<le> effective w 0 rec"
    and "unix (iw_now w 2) < idle" "e < idle" "unix (iw_now w 2) < e + sp_previousGrace policy div nanos"
    and "0 < sp_previousGrace policy div nanos" "0 \<le> sp_idleLifetime policy"
  shows "\<exists>a db'. validateSessionHash sum256 policy w 0 True h db = (Inr a, db') \<and> as_ReplacementToken a = []
    \<and> as_csrfTokenHash a = sr_csrfTokenHash rec
    \<and> (\<exists>r \<in> set (sessions db'). session_key r = session_key rec \<and> sr_currentTokenHash r = new \<and> sr_previousTokenHash r = Some h)"
proof -
  let ?u = "rotated_row policy e new idle rec"
  note rot = rotation_result [OF assms(1-4,6)]
  have u: "sr_currentTokenHash ?u = new" "sr_previousTokenHash ?u = Some h" "sr_lastSeen ?u = e" "sr_idleExpires ?u = idle"
    "sr_previousValidUntil ?u = Some (e + sp_previousGrace policy div nanos)" "sr_absoluteExpires ?u = sr_absoluteExpires rec"
    "session_key ?u = session_key rec" "sr_csrfTokenHash ?u = sr_csrfTokenHash rec" "sr_id ?u = sr_id rec"
    using assms(3) by (simp_all add: rotated_row_def session_key_def)
  have ok: "session_ok ?u" "table_ok (sessions other)" using rot(1,4) by (auto simp: identity_ok_def table_ok_def list_all_iff)
  have le: "idle \<le> sr_absoluteExpires rec" and csrf: "length (sr_csrfTokenHash rec) = 32"
    using ok(1) u by (simp_all add: session_ok_def)
  define e2 where "e2 = max (unix (iw_now w 2)) e"
  define i2 where "i2 = min (e2 + sp_idleLifetime policy div nanos) (sr_absoluteExpires rec)"
  have e2: "e2 < idle" "e2 < e + sp_previousGrace policy div nanos" "e \<le> e2" using assms(15-18) by (auto simp: e2_def)
  have gone: "\<not> (sr_id r = sr_id rec \<and> sr_currentTokenHash r = h \<and> X)" if "r \<in> set (sessions other)" for r X
    using rot(2) [OF that] u(1) assms(4) by (auto simp: holds_hash_def)
  have lost: "rotate_session policy rec h t new' i other = Some (0, other)" for t new' i
    unfolding rotate_session_def by (rule update_nothing [OF ok(2)]) (use gone in blast)
  have load: "loadSession h other = Some ?u"
    unfolding loadSession_def
  proof (rule find_unique [OF rot(1)])
    show "Some (sr_authEpoch ?u) = current_epoch other \<and> (sr_currentTokenHash ?u = h \<or> sr_previousTokenHash ?u = Some h)"
      using rot(1,4) u(2) by (simp add: identity_ok_def)
    fix r assume "r \<in> set (sessions other)"
      "Some (sr_authEpoch r) = current_epoch other \<and> (sr_currentTokenHash r = h \<or> sr_previousTokenHash r = Some h)"
    then show "r = ?u" by (intro rot(2)) (simp_all add: holds_hash_def)
  qed
  have judge: "judge ?u h e2 = Accepted"
    using e2 le u assms(4,5) by (auto simp: judge_def)
  have touch: "touch_session ?u h e2 i2 other = Some (1, other\<lparr>sessions :=
      map (\<lambda>r. if r = ?u then ?u\<lparr>sr_lastSeen := e2, sr_idleExpires := i2\<rparr> else r) (sessions other)\<rparr>)"
    by (rule touch_commits [where d = "sp_idleLifetime policy div nanos", OF rot(4,1)])
       (use e2 le u assms(19) in \<open>auto simp: holds_hash_def i2_def pos_imp_zdiv_nonneg_iff\<close>)
  let ?db' = "other\<lparr>sessions := map (\<lambda>r. if r = ?u then ?u\<lparr>sr_lastSeen := e2, sr_idleExpires := i2\<rparr> else r) (sessions other)\<rparr>"
  have second: "validateSessionHash sum256 policy w 2 False h other = (active_session [] i2 ?u, ?db')"
    by (subst validateSessionHash.simps)
       (simp add: assms(9-11) load Let_def u judge touch advance_activity_def e2_def [symmetric] i2_def [symmetric])
  have first: "validateSessionHash sum256 policy w 0 True h db = validateSessionHash sum256 policy w 2 False h other"
    by (subst validateSessionHash.simps)
       (use assms(14) in \<open>simp add: assms(2,7,11-13) assms(8) [simplified] assms(3) [symmetric] lost newToken_def Let_def numeral_2_eq_2\<close>)
  have "?u\<lparr>sr_lastSeen := e2, sr_idleExpires := i2\<rparr> \<in> set (sessions ?db')" using rot(1) by force
  moreover have "session_key (?u\<lparr>sr_lastSeen := e2, sr_idleExpires := i2\<rparr>) = session_key rec" using u(7) by (simp add: session_key_def)
  ultimately show ?thesis
    unfolding first second active_session_def using csrf u by (auto intro!: bexI)
qed


subsubsection \<open>Sign-in\<close>

lemma decode_new_token: "length t = 32 \<Longrightarrow> decodeToken sum256 (RawURLEncode t) = Some (sum256 (RawURLEncode t))"
  by (simp add: decodeToken_def RawURLEncode_32)

lemma createSession_Inr:
  assumes "createSession sum256 policy w loaded verifier db = (Inr g, db')" "iw_random w 1 = Some t" "iw_random w 2 = Some c"
  shows "create_store policy (iw_ok w 1) loaded verifier (sum256 (RawURLEncode t)) (sum256 (RawURLEncode c)) (iw_now w 1) db = (Inr (), db')"
    "sg_Token g = RawURLEncode t" "sg_CSRFToken g = RawURLEncode c"
  using assms by (auto simp: createSession_def newToken_def Let_def split: sum.splits prod.splits)

lemma newer_new: "s \<in> set rows \<Longrightarrow> newer s (new_session policy now h csrf (next_id rows) epoch) \<longleftrightarrow> unix now < sr_lastSeen s"
  using next_id_fresh [of s rows] by (auto simp: newer_def new_session_def)

text \<open>Whether the new row is among those the bound keeps.\<close>

lemma new_row_kept:
  "new_session policy now h csrf (next_id rows) epoch \<in> set (bound_sessions n (rows @ [new_session policy now h csrf (next_id rows) epoch]))
   \<longleftrightarrow> length (filter (\<lambda>r. unix now < sr_lastSeen r) rows) < n"
proof -
  let ?new = "new_session policy now h csrf (next_id rows) epoch"
  have "\<not> newer ?new ?new" by (simp add: newer_def)
  moreover have "filter (\<lambda>s. newer s ?new) rows = filter (\<lambda>r. unix now < sr_lastSeen r) rows"
    by (rule filter_cong [OF refl]) (rule newer_new)
  ultimately show ?thesis by (simp add: bound_sessions_def)
qed

lemma unix_add_le: "unix t + d div nanos \<le> unix (t + d)"
proof -
  have "t = nanos * (t div nanos) + t mod nanos" "d = nanos * (d div nanos) + d mod nanos" by simp_all
  moreover have "0 \<le> t mod nanos" "0 \<le> d mod nanos" by simp_all
  ultimately have "nanos * (t div nanos + d div nanos) \<le> t + d" by (simp add: algebra_simps)
  then have "nanos * (t div nanos + d div nanos) div nanos \<le> (t + d) div nanos" by (intro zdiv_mono1) simp_all
  then show ?thesis by (simp add: unix_def)
qed

lemma unix_later: "nanos \<le> d \<Longrightarrow> unix t < unix (t + d)"
proof -
  assume "nanos \<le> d"
  then have "(t + nanos) div nanos \<le> (t + d) div nanos" by (intro zdiv_mono1) simp_all
  then show ?thesis by (simp add: unix_def)
qed

lemma validate_sole_holder:
  assumes "identity_ok policy db" "x \<in> set (sessions db)" "sr_currentTokenHash x = h" "sr_previousTokenHash x = None"
    and "\<And>r. r \<in> set (sessions db) \<Longrightarrow> holds_hash h r \<Longrightarrow> r = x"
    and "\<And>k db. iw_between w k db = db" "\<And>k. iw_ok w k" "0 \<le> sp_idleLifetime policy"
    and "effective w k x < sr_idleExpires x" "effective w k x < sr_rotateAfter x"
  shows "fst (validateSessionHash sum256 policy w k b h db) = active_session [] (next_idle policy w k x) x"
proof -
  define e where "e = effective w k x"
  have ok: "session_ok x" "Some (sr_authEpoch x) = current_epoch db" using assms(1,2) by (auto simp: identity_ok_def table_ok_def list_all_iff)
  then have le: "e < sr_absoluteExpires x" "sr_lastSeen x \<le> e" "e < sr_rotateAfter x" "e < sr_idleExpires x"
    using assms(9,10) by (auto simp: session_ok_def e_def)
  have load: "loadSession h db = Some x"
    unfolding loadSession_def
  proof (rule find_unique [OF assms(2)])
    show "Some (sr_authEpoch x) = current_epoch db \<and> (sr_currentTokenHash x = h \<or> sr_previousTokenHash x = Some h)"
      using ok(2) assms(3) by simp
    fix r assume "r \<in> set (sessions db)" "Some (sr_authEpoch r) = current_epoch db \<and> (sr_currentTokenHash r = h \<or> sr_previousTokenHash r = Some h)"
    then show "r = x" by (intro assms(5)) (simp_all add: holds_hash_def)
  qed
  have judge: "judge x h e = Accepted" using le assms(3,4) by (simp add: judge_def)
  have "\<exists>db'. touch_session x h e (min (e + sp_idleLifetime policy div nanos) (sr_absoluteExpires x)) db = Some (1, db')"
    by (rule exI, rule touch_commits [where d = "sp_idleLifetime policy div nanos", OF assms(1,2)])
       (use le assms(3,4,8) in \<open>auto simp: holds_hash_def pos_imp_zdiv_nonneg_iff\<close>)
  then show ?thesis
    by (subst validateSessionHash.simps)
       (use le(3) in \<open>auto simp: assms(6,7) load Let_def judge advance_activity_def e_def [symmetric]\<close>)
qed

lemma login_validates:
  assumes "identity_ok policy db" "createSession sum256 policy w loaded verifier db = (Inr g, db1)"
    and "iw_random w 1 = Some t" "length t = 32" "iw_random w 2 = Some c" "length c = 32" "no_hash (sum256 (RawURLEncode t)) db"
    and "length (filter (\<lambda>r. unix (iw_now w 1) < sr_lastSeen r) (sessions db)) < sp_maximumSessions policy"
    and "nanos \<le> sp_idleLifetime policy" "sp_idleLifetime policy \<le> sp_absoluteLifetime policy" "nanos \<le> sp_rotationAfter policy"
    and "\<And>k db. iw_between v k db = db" "\<And>k. iw_ok v k" "unix (iw_now v 0) < unix (iw_now w 1) + sp_idleLifetime policy div nanos"
    and "unix (iw_now v 0) < unix (iw_now w 1) + sp_rotationAfter policy div nanos"
  shows "\<exists>a db2. ValidateSession sum256 policy v (sg_Token g) db1 = (Inr a, db2) \<and> as_ReplacementToken a = [] \<and> ValidCSRF sum256 a (sg_CSRFToken g)"
proof -
  let ?h = "sum256 (RawURLEncode t)" and ?c = "sum256 (RawURLEncode c)" and ?now = "iw_now w 1"
  note create = createSession_Inr [OF assms(2,3,5)]
  from create(1) show ?thesis
  proof (cases rule: create_store_cases)
    case (created rows admin)
    let ?x = "new_session policy ?now ?h ?c (next_id rows) (ad_epoch loaded)"
    have sub: "set rows \<subseteq> set (sessions db)" using created(2) by auto
    have "filter (\<lambda>r. unix ?now < sr_lastSeen r) rows = filter (\<lambda>r. \<not> expired_row (unix ?now) db r) (filter (\<lambda>r. unix ?now < sr_lastSeen r) (sessions db))"
      by (simp add: created(2) conj_commute)
    then have "length (filter (\<lambda>r. unix ?now < sr_lastSeen r) rows) < sp_maximumSessions policy"
      using assms(8) le_less_trans [OF length_filter_le] by metis
    then have x: "?x \<in> set (sessions db1)" unfolding created(8) new_row_kept .
    have ok: "identity_ok policy db1" by (rule create_ok [OF assms(1) create(1)])
    have sole: "r = ?x" if "r \<in> set (sessions db1)" "holds_hash ?h r" for r
    proof -
      have "r \<in> set (rows @ [?x])" using that(1) bound_subset created(8) by (metis subsetD)
      then show ?thesis using that(2) sub assms(7) by (auto simp: no_hash_def)
    qed
    have f: "sr_currentTokenHash ?x = ?h" "sr_previousTokenHash ?x = None" "sr_lastSeen ?x = unix ?now" "sr_csrfTokenHash ?x = ?c"
        "sr_idleExpires ?x = unix (?now + sp_idleLifetime policy)" "sr_rotateAfter ?x = unix (?now + sp_rotationAfter policy)"
      using assms(10) by (simp_all add: new_session_def idle_expiry_def)
    have soon: "unix (iw_now v 0) < unix (?now + d)" if "unix (iw_now v 0) < unix ?now + d div nanos" for d
      using that unix_add_le [of ?now d] by linarith
    have e: "effective v 0 ?x < sr_idleExpires ?x" "effective v 0 ?x < sr_rotateAfter ?x"
      using soon [OF assms(14)] soon [OF assms(15)] unix_later [OF assms(9), of ?now] unix_later [OF assms(11), of ?now]
      unfolding f(3,5,6) by simp_all
    have "0 \<le> sp_idleLifetime policy" using assms(9) by linarith
    from validate_sole_holder [OF ok x f(1,2) _ assms(12,13) this e] sole
    have "fst (validateSessionHash sum256 policy v 0 True ?h db1) = active_session [] (next_idle policy v 0 ?x) ?x" by blast
    moreover have "length ?c = 32" using ok x f(4) by (auto simp: identity_ok_def table_ok_def list_all_iff session_ok_def)
    ultimately have "fst (validateSessionHash sum256 policy v 0 True ?h db1) = Inr \<lparr>as_ReplacementToken = [],
        as_IdleExpiresAt = next_idle policy v 0 ?x, as_AbsoluteExpiresAt = sr_absoluteExpires ?x, as_csrfTokenHash = ?c\<rparr>"
      using f(4) by (simp add: active_session_def)
    then show ?thesis
      unfolding ValidateSession_def create(2,3) decode_new_token [OF assms(4)]
      by (auto simp: ValidCSRF_def decode_new_token [OF assms(6)] prod_eq_iff intro!: exI)
  qed simp
qed



text \<open>C37: After the clock was set back a sign-in can be lost.  When as many unexpired sessions as the bound
  allows were last seen after the clock's present second, the sign-in reports success and returns
  tokens, but the new session is removed in the same transaction and its token is unknown.\<close>

theorem clock_step_back_loses_sign_in:
  assumes "createSession sum256 policy w loaded verifier db = (Inr g, db1)"
    and "iw_random w 1 = Some t" "iw_random w 2 = Some c" "no_hash (sum256 (RawURLEncode t)) db"
    and "sp_maximumSessions policy \<le> length (filter (\<lambda>r. \<not> expired_row (unix (iw_now w 1)) db r \<and> unix (iw_now w 1) < sr_lastSeen r) (sessions db))"
  shows "sg_Token g = RawURLEncode t \<and> loadSession (sum256 (RawURLEncode t)) db1 = None"
proof -
  note create = createSession_Inr [OF assms(1-3)]
  from create(1) show ?thesis
  proof (cases rule: create_store_cases)
    case (created rows admin)
    let ?h = "sum256 (RawURLEncode t)"
    let ?x = "new_session policy (iw_now w 1) ?h (sum256 (RawURLEncode c)) (next_id rows) (ad_epoch loaded)"
    have "?x \<notin> set (sessions db1)"
      unfolding created(8) new_row_kept using assms(5) by (simp add: created(2) conj_commute)
    then have "set (sessions db1) \<subseteq> set rows" using bound_subset created(8) by fastforce
    then have "no_hash ?h db1" using assms(4) created(2) by (auto simp: no_hash_def)
    with create(2) show ?thesis by (simp add: no_hash_load)
  qed simp
qed

subsection \<open>Example sessions\<close>

definition example_session_policy :: sessionPolicy where
  "example_session_policy = defaultSessionPolicy"

definition example_sum :: "bytes \<Rightarrow> bytes" where
  "example_sum v = take 32 (v @ replicate 32 (CHR 0x00))"

definition example_admin :: administratorRecord where
  "example_admin = \<lparr>ad_verifier = ''verifier'', ad_epoch = 1, ad_created = 0, ad_changed = 0\<rparr>"

definition example_identity :: identity_db where
  "example_identity = \<lparr>administrator = Some example_admin, sessions = []\<rparr>"

definition example_clock :: "int \<Rightarrow> identity_world" where
  "example_clock t = \<lparr>iw_now = (\<lambda>_. t * nanos), iw_ok = (\<lambda>_. True), iw_random = (\<lambda>k. Some (replicate 32 (char_of (k + 65)))),
     iw_slot = (\<lambda>_. True), iw_between = (\<lambda>_ db. db)\<rparr>"


definition example_token :: "nat \<Rightarrow> bytes" where
  "example_token k = example_sum (RawURLEncode (replicate 32 (char_of (k + 65))))"

definition example_session :: sessionRecord where
  "example_session = new_session example_session_policy 0 (example_token 1) (example_token 2) 1 1"

definition example_db :: identity_db where
  "example_db = \<lparr>administrator = Some example_admin, sessions = [example_session]\<rparr>"

lemma example_token_length [simp]: "length (example_sum v) = 32" "length (example_token k) = 32"
  by (simp_all add: example_token_def example_sum_def)

lemma example_session_fields:
  "sr_id example_session = 1" "sr_authEpoch example_session = 1" "sr_currentTokenHash example_session = example_token 1"
  "sr_previousTokenHash example_session = None" "sr_previousValidUntil example_session = None" "sr_csrfTokenHash example_session = example_token 2"
  "sr_created example_session = 0" "sr_lastSeen example_session = 0" "sr_idleExpires example_session = 1800"
  "sr_absoluteExpires example_session = 43200" "sr_rotateAfter example_session = 900"
  by (simp_all add: example_session_def new_session_def unix_def idle_expiry_def example_session_policy_def defaultSessionPolicy_def)

lemma example_rows_ok: "table_ok [example_session]" "session_ok example_session"
  by (simp_all add: table_ok_def previous_hashes_def session_ok_def example_session_fields)

lemma example_identity_ok: "identity_ok example_session_policy example_identity" "identity_ok example_session_policy example_db"
  by (simp_all add: identity_ok_def example_identity_def example_db_def example_rows_ok table_ok_def previous_hashes_def lifetime_ok_def
      example_session_fields current_epoch_def admin_ok_def example_admin_def example_session_policy_def defaultSessionPolicy_def)

lemma example_create: "create_store example_session_policy True example_admin [] (example_token 1) (example_token 2) 0 example_identity = (Inr (), example_db)"
proof -
  have "upgrade_verifier example_admin [] (purge_sessions (unix 0) example_identity) = example_identity"
    by (simp add: upgrade_verifier_def purge_sessions_def delete_sessions_def example_identity_def)
  moreover have "new_session example_session_policy 0 (example_token 1) (example_token 2) (next_id []) 1 = example_session"
    by (simp add: example_session_def next_id_def)
  ultimately show ?thesis
    by (simp add: create_store_def with_tx_def Let_def example_identity_def example_db_def current_epoch_def admin_ok_def
        example_admin_def bound_sessions_def example_rows_ok newer_def example_session_policy_def defaultSessionPolicy_def)
qed

lemma example_identity_run: "identity_run example_session_policy {} empty_identity_db example_db"
proof -
  have "example_identity = snd (bootstrap_store True ''verifier'' 0 empty_identity_db)"
    by (simp add: bootstrap_store_def with_tx_def Let_def empty_identity_db_def example_identity_def example_admin_def admin_ok_def)
  then have "identity_step example_session_policy {} empty_identity_db example_identity" by (metis identity_step.bootstrap)
  moreover have "identity_step example_session_policy {} example_identity example_db"
    using identity_step.create [of "example_token 1" "{}" example_session_policy example_identity True example_admin "[]" "example_token 2" 0] example_create
    by simp
  ultimately show ?thesis by (meson converse_rtranclp_into_rtranclp rtranclp.rtrancl_refl)
qed

lemma example_sign_in:
  obtains g where "createSession example_sum example_session_policy (example_clock 0) example_admin [] example_identity = (Inr g, example_db)"
    "sg_Token g = RawURLEncode (replicate 32 (char_of (1 + 65 :: nat)))"
  using that example_create
  by (simp add: createSession_def newToken_def example_clock_def Let_def example_token_def numeral_2_eq_2)

theorem sessions_invariant_witness: "sessions example_db \<noteq> [] \<and> length (sessions example_db) \<le> 8 \<and> current_epoch example_db = Some 1"
  using sessions_invariant [OF example_identity_run] by (auto simp: example_db_def example_session_policy_def defaultSessionPolicy_def example_session_fields)


lemma example_validates:
  "\<exists>a db2. validateSessionHash example_sum example_session_policy (example_clock 60) 0 True (example_token 1) example_db = (Inr a, db2)"
proof -
  have "fst (validateSessionHash example_sum example_session_policy (example_clock 60) 0 True (example_token 1) example_db)
      = active_session [] (next_idle example_session_policy (example_clock 60) 0 example_session) example_session"
    by (rule validate_sole_holder [OF example_identity_ok(2)])
       (simp_all add: example_db_def example_session_fields example_clock_def unix_def example_session_policy_def defaultSessionPolicy_def)
  then show ?thesis by (cases "validateSessionHash example_sum example_session_policy (example_clock 60) 0 True (example_token 1) example_db")
    (simp add: active_session_def example_session_fields)
qed




definition example_rotated :: identity_db where
  "example_rotated = example_db\<lparr>sessions := [rotated_row example_session_policy 1000 (example_token 3) 2800 example_session]\<rparr>"

definition example_race :: identity_world where
  "example_race = (example_clock 1000)\<lparr>iw_between := (\<lambda>k db. if k = 1 then example_rotated else db)\<rparr>"

lemma example_token_head: "k < 190 \<Longrightarrow> hd (example_token k) = URLAlphabet ! ((k + 65) div 4)"
proof -
  assume k: "k < 190"
  have r: "replicate 32 c = c # c # c # replicate 29 c" for c :: char
  proof -
    have "replicate 32 c = replicate (Suc (Suc (Suc 29))) c" by simp
    then show ?thesis by (simp only: replicate_Suc)
  qed
  have "RawURLEncode (replicate 32 c) = URLAlphabet ! (byte c div 4) # tl (RawURLEncode (replicate 32 c))" for c
    unfolding RawURLEncode_def base64_sextets r by simp
  then have "hd (example_token k) = URLAlphabet ! (byte (char_of (k + 65)) div 4)"
    unfolding example_token_def example_sum_def by (metis hd_append2 hd_take list.distinct(1) list.sel(1) zero_less_numeral)
  then show ?thesis using k by simp
qed

lemma example_tokens_differ: "example_token 3 \<noteq> example_token 1"
proof
  assume "example_token 3 = example_token 1"
  then have "hd (example_token 3) = hd (example_token 1)" by simp
  then show False by (simp add: example_token_head URLAlphabet_def)
qed

lemma example_rotation:
  "rotate_session example_session_policy example_session (example_token 1) 1000 (example_token 3) 2800 example_db = Some (1, example_rotated)"
proof -
  have "session_ok (rotated_row example_session_policy 1000 (example_token 3) 2800 example_session)"
    by (simp add: session_ok_def rotated_row_def example_session_fields)
  then have "table_ok [rotated_row example_session_policy 1000 (example_token 3) 2800 example_session]"
    by (simp add: table_ok_def previous_hashes_def)
  then show ?thesis
    by (simp add: rotate_session_def update_sessions_def Let_def example_db_def example_rotated_def rotated_row_def [symmetric] example_session_fields
        current_epoch_def example_admin_def)
qed

theorem rotation_has_one_winner_witness:
  "\<exists>a db'. validateSessionHash example_sum example_session_policy example_race 0 True (example_token 1) example_db = (Inr a, db') \<and> as_ReplacementToken a = []"
proof -
  have load: "loadSession (example_token 1) example_db = Some example_session"
    by (simp add: loadSession_def example_db_def example_session_fields current_epoch_def example_admin_def)
  have "judge example_session (example_token 1) (effective example_race 0 example_session) = Accepted"
    by (simp add: judge_def example_session_fields example_race_def example_clock_def unix_def)
  then have "\<exists>a db'. validateSessionHash example_sum example_session_policy example_race 0 True (example_token 1) example_db = (Inr a, db')
      \<and> as_ReplacementToken a = [] \<and> as_csrfTokenHash a = sr_csrfTokenHash example_session
      \<and> (\<exists>r \<in> set (sessions db'). session_key r = session_key example_session \<and> sr_currentTokenHash r = example_token 3
          \<and> sr_previousTokenHash r = Some (example_token 1))"
    by (intro rotation_has_one_winner [where raw = "replicate 32 (char_of (65 :: nat))", OF example_identity_ok(2) load _ example_tokens_differ _ example_rotation])
       (simp_all add: example_session_fields example_race_def example_clock_def unix_def example_session_policy_def defaultSessionPolicy_def)
  then show ?thesis by blast
qed

definition example_seen_later :: sessionRecord where
  "example_seen_later = example_session\<lparr>sr_lastSeen := 1700\<rparr>"

definition example_late_clock :: identity_world where
  "example_late_clock = (example_clock 60)\<lparr>iw_random := (\<lambda>k. Some (replicate 32 (char_of (k + 67))))\<rparr>"

theorem clock_step_back_loses_sign_in_witness:
  "\<exists>g db1. createSession example_sum (example_session_policy\<lparr>sp_maximumSessions := 1\<rparr>) example_late_clock example_admin []
       (example_db\<lparr>sessions := [example_seen_later]\<rparr>) = (Inr g, db1)
     \<and> loadSession (example_token 3) db1 = None"
proof -
  let ?p = "example_session_policy\<lparr>sp_maximumSessions := 1\<rparr>" and ?db = "example_db\<lparr>sessions := [example_seen_later]\<rparr>"
  let ?new = "new_session ?p (60 * nanos) (example_token 3) (example_token 4) 2 1"
  have new: "session_ok ?new" "sr_currentTokenHash ?new = example_token 3" "sr_previousTokenHash ?new = None"
    by (simp_all add: session_ok_def new_session_def unix_def idle_expiry_def example_session_policy_def defaultSessionPolicy_def)
  have seen: "session_ok example_seen_later" "sr_currentTokenHash example_seen_later = example_token 1"
    "sr_previousTokenHash example_seen_later = None" "sr_id example_seen_later = 1" "sr_lastSeen example_seen_later = 1700"
    by (simp_all add: example_seen_later_def session_ok_def example_session_fields)
  have kept: "\<not> expired_row 60 ?db example_seen_later"
    by (simp add: expired_row_def example_seen_later_def example_session_fields example_db_def example_admin_def)
  have rows: "table_ok [example_seen_later, ?new]"
    using new seen example_tokens_differ by (auto simp: table_ok_def previous_hashes_def)
  have ids: "next_id [example_seen_later] = 2" by (simp add: next_id_def seen)
  have up: "upgrade_verifier example_admin [] (purge_sessions 60 ?db) = ?db"
    using kept by (simp add: upgrade_verifier_def purge_sessions_def delete_sessions_def example_db_def)
  have "\<exists>db1. create_store ?p True example_admin [] (example_token 3) (example_token 4) (60 * nanos) ?db = (Inr (), db1)"
    using rows ids up by (simp add: create_store_def with_tx_def Let_def unix_def example_db_def current_epoch_def admin_ok_def example_admin_def)
  then obtain g db1 where g: "createSession example_sum ?p example_late_clock example_admin [] ?db = (Inr g, db1)"
    by (auto simp: createSession_def newToken_def example_late_clock_def example_clock_def Let_def example_token_def numeral_2_eq_2)
  have "no_hash (example_token 3) ?db" using example_tokens_differ by (simp add: no_hash_def holds_hash_def seen)
  moreover have r: "iw_random example_late_clock 1 = Some (replicate 32 (char_of (68 :: nat)))" "iw_random example_late_clock 2 = Some (replicate 32 (char_of (69 :: nat)))"
    by (simp_all add: example_late_clock_def)
  ultimately have "loadSession (example_token 3) db1 = None"
    using clock_step_back_loses_sign_in [OF g r] kept by (simp add: example_token_def example_late_clock_def example_clock_def unix_def seen)
  with g show ?thesis by blast
qed

end
