(* ===== verification/Dotenv.thy ===== *)
theory Dotenv
  imports Operation_Text
begin

text \<open>
  The dotenv editor, \<open>src/internal/dotenv/dotenv.go\<close>: a bounded scanner that finds the byte spans
  of the managed statements of a native credential file, the value encoder, and the editor that
  replaces, removes and appends values without touching any other byte.  Positions are indices
  into the file, as in the code.

  Three things are parameters, gathered in the record \<open>dotenv_runtime\<close>: \<open>godotenv.Parse\<close> of the
  third-party package that decodes one statement, the order in which Go ranges over the map of
  entries, and the order \<open>sort.Slice\<close> gives to edits that start at the same byte.  A \<open>nil\<close>
  \<open>*Document\<close> is not represented; a cleared one is.
\<close>

subsection \<open>Data\<close>

datatype dotenv_code =
    CodeInvalidPolicy | CodeInvalidUTF8 | CodeTooLarge | CodeTooManyLines | CodeMalformed
  | CodeKeyNotAllowed | CodeDuplicateKey | CodeExpansionNotAllowed | CodeInvalidChange | CodeValueTooLarge

record dotenv_error =
  err_code :: dotenv_code
  err_key :: bytes

abbreviation dotenv_failure :: "dotenv_code \<Rightarrow> dotenv_error" where
  "dotenv_failure c \<equiv> \<lparr>err_code = c, err_key = []\<rparr>"

abbreviation key_failure :: "dotenv_code \<Rightarrow> bytes \<Rightarrow> dotenv_error" where
  "key_failure c k \<equiv> \<lparr>err_code = c, err_key = k\<rparr>"

record dotenv_policy =
  MaximumBytes :: int
  MaximumLines :: int
  MaximumValueBytes :: int

definition DefaultPolicy :: dotenv_policy where
  "DefaultPolicy = \<lparr>MaximumBytes = 2 ^ 20, MaximumLines = 8192, MaximumValueBytes = 64 * 2 ^ 10\<rparr>"

datatype dotenv_action = ActionReplace | ActionRemove | ActionOther bytes

record dotenv_change =
  change_key :: bytes
  change_action :: dotenv_action
  change_value :: bytes

record dotenv_summary =
  summary_key :: bytes
  summary_action :: dotenv_action

record dotenv_entry =
  statementStart :: nat
  statementEnd :: nat
  valueStart :: nat
  valueEnd :: nat

record dotenv_document =
  doc_raw :: "bytes option"
  doc_allowed :: "bytes list"
  doc_entries :: "(bytes \<times> dotenv_entry) list"
  doc_values :: "(bytes \<times> bytes) list"
  doc_unsupported :: "bytes list"
  doc_policy :: dotenv_policy
  doc_newline :: bytes
  doc_finalNewline :: bool

record dotenv_edit =
  edit_start :: nat
  edit_end :: nat
  edit_replacement :: bytes

record dotenv_runtime =
  godotenv_Parse :: "bytes \<Rightarrow> (bytes \<rightharpoonup> bytes) option"
  range_entries :: "(bytes \<times> dotenv_entry) list \<Rightarrow> (bytes \<times> dotenv_entry) list"
  sort_edits :: "dotenv_edit list \<Rightarrow> dotenv_edit list"

subsection \<open>Characters and lines\<close>

abbreviation LF :: char where "LF \<equiv> CHR 0x0A"
abbreviation CR :: char where "CR \<equiv> CHR 0x0D"
abbreviation backslash :: char where "backslash \<equiv> CHR 0x5C"
abbreviation single_quote :: char where "single_quote \<equiv> CHR 0x27"
abbreviation double_quote :: char where "double_quote \<equiv> CHR 0x22"
abbreviation dollar :: char where "dollar \<equiv> CHR 0x24"

definition isHorizontalSpace :: "char \<Rightarrow> bool" where
  "isHorizontalSpace c \<longleftrightarrow> c = CHR '' '' \<or> c = CHR 0x09 \<or> c = CHR 0x0B \<or> c = CHR 0x0C"

definition is_break :: "char \<Rightarrow> bool" where
  "is_break c \<longleftrightarrow> c = LF \<or> c = CR"

definition is_blank :: "char \<Rightarrow> bool" where
  "is_blank c \<longleftrightarrow> isHorizontalSpace c \<or> is_break c"

text \<open>The loop \<open>for position < len(data) && P(data[position]) { position++ }\<close>.\<close>

function skip_while :: "(char \<Rightarrow> bool) \<Rightarrow> bytes \<Rightarrow> nat \<Rightarrow> nat" where
  "skip_while P data position =
     (if position < length data \<and> P (data ! position) then skip_while P data (Suc position) else position)"
  by pat_completeness auto
termination
  by (relation "measure (\<lambda>(P, data, position). length data - position)") auto

declare skip_while.simps [simp del]

definition skipWhitespace :: "bytes \<Rightarrow> nat \<Rightarrow> nat" where
  "skipWhitespace = skip_while is_blank"

definition skipHorizontal :: "bytes \<Rightarrow> nat \<Rightarrow> nat" where
  "skipHorizontal = skip_while isHorizontalSpace"

definition consumeLine :: "bytes \<Rightarrow> nat \<Rightarrow> nat" where
  "consumeLine data position =
     (let position = skip_while (\<lambda>c. \<not> is_break c) data position in
      if position < length data \<and> data ! position = CR then
        (if Suc position < length data \<and> data ! Suc position = LF then Suc (Suc position) else Suc position)
      else if position < length data \<and> data ! position = LF then Suc position
      else position)"

fun currentLineStart :: "bytes \<Rightarrow> nat \<Rightarrow> nat" where
  "currentLineStart data 0 = 0"
| "currentLineStart data (Suc n) = (if is_break (data ! n) then Suc n else currentLineStart data n)"

definition precedingLineSeparator :: "bytes \<Rightarrow> nat \<Rightarrow> nat" where
  "precedingLineSeparator data position =
     (if position = 0 \<or> position > length data then position
      else if data ! (position - 1) = LF then
        (if position > 1 \<and> data ! (position - 2) = CR then position - 2 else position - 1)
      else if data ! (position - 1) = CR then position - 1
      else position)"

definition hasFinalNewline :: "bytes \<Rightarrow> bool" where
  "hasFinalNewline data \<longleftrightarrow> data \<noteq> [] \<and> is_break (last data)"

fun line_breaks :: "bytes \<Rightarrow> nat" where
  "line_breaks [] = 0"
| "line_breaks (c # cs) =
     (if c = LF then Suc (line_breaks cs)
      else if c = CR then
        (case cs of d # ds \<Rightarrow> if d = LF then Suc (line_breaks ds) else Suc (line_breaks cs)
         | [] \<Rightarrow> Suc (line_breaks cs))
      else line_breaks cs)"

definition lineCount :: "bytes \<Rightarrow> int" where
  "lineCount data =
     (if data = [] then 0
      else 1 + int (line_breaks data) - (if hasFinalNewline data then 1 else 0))"

fun index_byte :: "bytes \<Rightarrow> char \<Rightarrow> nat option" where
  "index_byte [] c = None"
| "index_byte (d # ds) c = (if d = c then Some 0 else map_option Suc (index_byte ds c))"

definition detectNewline :: "bytes \<Rightarrow> bytes" where
  "detectNewline data =
     (case index_byte data LF of
        Some i \<Rightarrow> if i > 0 \<and> data ! (i - 1) = CR then [CR, LF] else [LF]
      | None \<Rightarrow> if index_byte data CR \<noteq> None then [CR] else [LF])"

subsection \<open>Keys and policy\<close>

definition upper_letter :: "char \<Rightarrow> bool" where
  "upper_letter c \<longleftrightarrow> 65 \<le> byte c \<and> byte c \<le> 90"

definition lower_letter :: "char \<Rightarrow> bool" where
  "lower_letter c \<longleftrightarrow> 97 \<le> byte c \<and> byte c \<le> 122"

definition decimal_digit :: "char \<Rightarrow> bool" where
  "decimal_digit c \<longleftrightarrow> 48 \<le> byte c \<and> byte c \<le> 57"

definition validKey :: "bytes \<Rightarrow> bool" where
  "validKey key \<longleftrightarrow> key \<noteq> [] \<and> length key \<le> 128 \<and>
     list_all (\<lambda>i. upper_letter (key ! i) \<or> key ! i = CHR ''_'' \<or> i > 0 \<and> decimal_digit (key ! i)) [0..<length key]"

definition validSourceKey :: "bytes \<Rightarrow> bool" where
  "validSourceKey key \<longleftrightarrow> key \<noteq> [] \<and> length key \<le> 256 \<and>
     list_all (\<lambda>c. upper_letter c \<or> lower_letter c \<or> decimal_digit c \<or> c = CHR ''_'' \<or> c = CHR ''.'') key"

definition validatePolicy :: "dotenv_policy \<Rightarrow> dotenv_error option" where
  "validatePolicy p = fails_if
     (MaximumBytes p \<le> 0 \<or> MaximumBytes p > 8 * 2 ^ 20 \<or> MaximumLines p \<le> 0 \<or> MaximumLines p > 32768
      \<or> MaximumValueBytes p \<le> 0 \<or> MaximumValueBytes p > 2 ^ 20)
     (dotenv_failure CodeInvalidPolicy)"

definition validateAllowedKeys :: "bytes list \<Rightarrow> (dotenv_error, bytes list) result" where
  "validateAllowedKeys keys =
     (if \<not> list_all validKey keys then Inl (dotenv_failure CodeInvalidPolicy)
      else let result = sort keys in
        if list_ex (\<lambda>i. result ! i = result ! (i - 1)) [1..<length result]
        then Inl (dotenv_failure CodeInvalidPolicy)
        else Inr result)"

subsection \<open>Values\<close>

fun backslashes_before :: "bytes \<Rightarrow> nat \<Rightarrow> nat" where
  "backslashes_before value 0 = 0"
| "backslashes_before value (Suc n) = (if value ! n = backslash then Suc (backslashes_before value n) else 0)"

definition containsExpansion :: "bytes \<Rightarrow> bool" where
  "containsExpansion value \<longleftrightarrow>
     list_ex (\<lambda>i. value ! i = dollar \<and> even (backslashes_before value i)) [0..<length value]"

function closing_quote :: "bytes \<Rightarrow> char \<Rightarrow> nat \<Rightarrow> nat option" where
  "closing_quote data quote position =
     (if position < length data then
        (if data ! position = quote \<and> data ! (position - 1) \<noteq> backslash then Some position
         else closing_quote data quote (Suc position))
      else None)"
  by pat_completeness auto
termination
  by (relation "measure (\<lambda>(data, quote, position). length data - position)") auto

declare closing_quote.simps [simp del]

function trim_trailing :: "bytes \<Rightarrow> nat \<Rightarrow> nat \<Rightarrow> nat" where
  "trim_trailing data start e =
     (if e > start \<and> isHorizontalSpace (data ! (e - 1)) then trim_trailing data start (e - 1) else e)"
  by pat_completeness auto
termination
  by (relation "measure (\<lambda>(data, start, e). e)") auto

declare trim_trailing.simps [simp del]

definition slice :: "bytes \<Rightarrow> nat \<Rightarrow> nat \<Rightarrow> bytes" where
  "slice data from until = take (until - from) (drop from data)"

text \<open>The end of the value, the end of the statement, and whether the value asks for expansion.\<close>

definition scanValue :: "bytes \<Rightarrow> nat \<Rightarrow> (dotenv_error, nat \<times> nat \<times> bool) result" where
  "scanValue data start =
     (if start \<ge> length data \<or> is_break (data ! start) then Inr (start, consumeLine data start, False)
      else if data ! start = single_quote \<or> data ! start = double_quote then
        (case closing_quote data (data ! start) (Suc start) of
           None \<Rightarrow> Inl (dotenv_failure CodeMalformed)
         | Some position \<Rightarrow>
             (let trailer = skipHorizontal data (Suc position) in
              if trailer < length data \<and> data ! trailer \<noteq> CHR ''#'' \<and> \<not> is_break (data ! trailer)
              then Inl (dotenv_failure CodeMalformed)
              else Inr (Suc position, consumeLine data trailer,
                        data ! start = double_quote \<and> containsExpansion (slice data (Suc start) position))))
      else
        (let lineEnd = skip_while (\<lambda>c. \<not> is_break c) data start;
             comment = find (\<lambda>p. data ! p = CHR ''#'' \<and> p > start \<and> isHorizontalSpace (data ! (p - 1))) [start..<lineEnd];
             valueEnd = trim_trailing data start (case comment of Some p \<Rightarrow> p | None \<Rightarrow> lineEnd)
         in Inr (valueEnd, consumeLine data lineEnd, containsExpansion (slice data start valueEnd))))"

subsection \<open>Scanning the statements\<close>

text \<open>The separator of a statement: the first equals sign or colon before the end of the line.\<close>

function find_separator :: "bytes \<Rightarrow> nat \<Rightarrow> nat option" where
  "find_separator data position =
     (if position < length data then
        (if data ! position = CHR ''='' \<or> data ! position = CHR '':'' then Some position
         else if is_break (data ! position) then None
         else find_separator data (Suc position))
      else None)"
  by pat_completeness auto
termination
  by (relation "measure (\<lambda>(data, position). length data - position)") auto

declare find_separator.simps [simp del]

definition key_start :: "bytes \<Rightarrow> nat \<Rightarrow> nat" where
  "key_start data position =
     (let after = position + length ''export'' in
      if HasPrefix (drop position data) ''export'' \<and> after < length data \<and> isHorizontalSpace (data ! after)
      then skipHorizontal data after else position)"

record dotenv_scan =
  scan_entries :: "(bytes \<times> dotenv_entry) list"
  scan_seen :: "bytes list"
  scan_unsupported :: "bytes list"

text \<open>One statement, from its first character: its key, and then its value.\<close>

definition scan_key :: "bytes \<Rightarrow> nat \<Rightarrow> (dotenv_error, bytes \<times> nat) result" where
  "scan_key data position =
     (case find_separator data (key_start data position) of
        None \<Rightarrow> Inl (dotenv_failure CodeMalformed)
      | Some separator \<Rightarrow>
          (let key = TrimSpace (slice data (key_start data position) separator) in
           if validSourceKey key then Inr (key, separator) else Inl (dotenv_failure CodeMalformed)))"

definition scan_statement ::
    "bytes \<Rightarrow> bytes list \<Rightarrow> nat \<Rightarrow> dotenv_scan \<Rightarrow> (dotenv_error, nat \<times> dotenv_scan) result" where
  "scan_statement data allowed position st =
     (case scan_key data position of
        Inl e \<Rightarrow> Inl e
      | Inr (key, separator) \<Rightarrow>
          if key \<in> set (scan_seen st) then Inl (key_failure CodeDuplicateKey key)
          else
            (let start = skipHorizontal data (Suc separator) in
             case scanValue data start of
               Inl e \<Rightarrow> Inl e
             | Inr (ve, se, expansion) \<Rightarrow>
                 if key \<in> set allowed \<and> expansion then Inl (key_failure CodeExpansionNotAllowed key)
                 else Inr (se,
                   if key \<in> set allowed
                   then st\<lparr>scan_seen := key # scan_seen st,
                     scan_entries := scan_entries st @
                       [(key, \<lparr>statementStart = currentLineStart data position, statementEnd = se,
                               valueStart = start, valueEnd = ve\<rparr>)]\<rparr>
                   else st\<lparr>scan_seen := key # scan_seen st, scan_unsupported := scan_unsupported st @ [key]\<rparr>)))"

subsection \<open>Bounds of the scanning loops\<close>

lemma skip_while_eq:
  "position \<le> length data \<Longrightarrow> skip_while P data position = position + length (takeWhile P (drop position data))"
proof (induction P data position rule: skip_while.induct)
  case (1 P data position)
  show ?case
  proof (cases "position < length data \<and> P (data ! position)")
    case True
    with 1 show ?thesis by (simp add: skip_while.simps [of P data position] Cons_nth_drop_Suc [symmetric])
  next
    case False
    with 1(2) show ?thesis
      by (cases "position < length data")
        (simp_all add: skip_while.simps [of P data position] skip_while.simps [of P data "length data"] Cons_nth_drop_Suc [symmetric])
  qed
qed

lemma skip_while_ge: "position \<le> skip_while P data position"
proof (induction P data position rule: skip_while.induct)
  case (1 P data position)
  then show ?case by (subst skip_while.simps) (auto intro: Suc_leD)
qed

lemma skip_while_le: "position \<le> length data \<Longrightarrow> skip_while P data position \<le> length data"
proof (induction P data position rule: skip_while.induct)
  case (1 P data position)
  then show ?case by (subst skip_while.simps) auto
qed

lemma consumeLine_ge: "position \<le> consumeLine data position"
  using skip_while_ge [of position "\<lambda>c. \<not> is_break c" data] by (auto simp: consumeLine_def Let_def)

lemma consumeLine_le: "position \<le> length data \<Longrightarrow> consumeLine data position \<le> length data"
  using skip_while_le [of position data "\<lambda>c. \<not> is_break c"] by (auto simp: consumeLine_def Let_def)

lemma consumeLine_progress:
  assumes "position < length data"
  shows "position < consumeLine data position"
proof (cases "is_break (data ! position)")
  case True
  then have "skip_while (\<lambda>c. \<not> is_break c) data position = position" by (subst skip_while.simps) simp
  with True assms show ?thesis by (auto simp: consumeLine_def Let_def is_break_def)
next
  case False
  then have "skip_while (\<lambda>c. \<not> is_break c) data position = skip_while (\<lambda>c. \<not> is_break c) data (Suc position)"
    using assms by (subst skip_while.simps) simp
  with skip_while_ge [of "Suc position" "\<lambda>c. \<not> is_break c" data] show ?thesis
    by (auto simp: consumeLine_def Let_def)
qed

lemma closing_quote_Some:
  "closing_quote data q position = Some i \<Longrightarrow>
     position \<le> i \<and> i < length data \<and> data ! i = q \<and> data ! (i - 1) \<noteq> backslash"
proof (induction data q position rule: closing_quote.induct)
  case (1 data q position)
  show ?case
  proof (cases "data ! position = q \<and> data ! (position - 1) \<noteq> backslash")
    case True
    with 1(2) show ?thesis by (auto simp: closing_quote.simps [of data q position] split: if_splits)
  next
    case False
    with 1(2) have "position < length data" "closing_quote data q (Suc position) = Some i"
      by (auto simp: closing_quote.simps [of data q position] split: if_splits)
    with 1(1) False show ?thesis by auto
  qed
qed

lemma find_separator_Some:
  "find_separator data position = Some i \<Longrightarrow> position \<le> i \<and> i < length data"
proof (induction data position rule: find_separator.induct)
  case (1 data position)
  show ?case
    using 1(2) by (subst (asm) find_separator.simps) (auto split: if_splits dest: 1(1))
qed

lemma scanValue_ge:
  assumes "scanValue data start = Inr (ve, se, x)" shows "start \<le> se"
proof -
  have "start \<le> consumeLine data (skipHorizontal data (Suc i))" if "start \<le> i" for i
    using that consumeLine_ge [of "skipHorizontal data (Suc i)" data] skip_while_ge [of "Suc i" isHorizontalSpace data]
    unfolding skipHorizontal_def by linarith
  moreover have "start \<le> consumeLine data (skip_while (\<lambda>c. \<not> is_break c) data start)"
    using consumeLine_ge [of "skip_while (\<lambda>c. \<not> is_break c) data start" data]
      skip_while_ge [of start "\<lambda>c. \<not> is_break c" data] by linarith
  moreover have "start \<le> i" if "closing_quote data q (Suc start) = Some i" for q i
    using closing_quote_Some [OF that] by simp
  ultimately show ?thesis
    using assms consumeLine_ge [of start data]
    by (auto simp: scanValue_def Let_def split: if_splits option.splits)
qed

lemma key_start_ge: "position \<le> key_start data position"
  using skip_while_ge [of "position + length ''export''" isHorizontalSpace data]
  unfolding key_start_def Let_def skipHorizontal_def by (auto simp del: list.size)

lemma scan_key_ge: "scan_key data position = Inr (key, separator) \<Longrightarrow> position \<le> separator \<and> separator < length data"
  using key_start_ge [of position data]
  by (auto simp: scan_key_def Let_def split: option.splits if_splits dest!: find_separator_Some)

lemma scan_statement_progress:
  assumes "scan_statement data allowed position st = Inr (se, st')"
  shows "position < se"
proof -
  obtain key separator ve x where
    "scan_key data position = Inr (key, separator)"
    "scanValue data (skipHorizontal data (Suc separator)) = Inr (ve, se, x)"
    using assms by (auto simp: scan_statement_def Let_def split: sum.splits if_splits)
  then show ?thesis
    using scan_key_ge [of data position key separator]
      scanValue_ge [of data "skipHorizontal data (Suc separator)" ve se x]
      skip_while_ge [of "Suc separator" isHorizontalSpace data]
    unfolding skipHorizontal_def by linarith
qed

function scan_loop ::
    "bytes \<Rightarrow> bytes list \<Rightarrow> nat \<Rightarrow> dotenv_scan \<Rightarrow> (dotenv_error, dotenv_scan) result" where
  "scan_loop data allowed position st =
     (if position < length data then
        (let position = skipWhitespace data position in
         if position \<ge> length data then Inr st
         else if data ! position = CHR ''#'' then scan_loop data allowed (consumeLine data position) st
         else (case scan_statement data allowed position st of
                 Inl e \<Rightarrow> Inl e
               | Inr (position', st') \<Rightarrow> scan_loop data allowed position' st'))
      else Inr st)"
  by pat_completeness auto
termination
proof (relation "measure (\<lambda>(data, allowed, position, st). length data - position)", goal_cases)
  case 1
  then show ?case by simp
next
  case (2 data allowed position st x)
  then show ?case
    using skip_while_ge [of position is_blank data] consumeLine_progress [of x data]
    by (simp add: skipWhitespace_def)
next
  case (3 data allowed position st x p se st')
  then have "scan_statement data allowed x st = Inr (se, st')" by simp
  with 3 show ?case
    using skip_while_ge [of position is_blank data] scan_statement_progress [of data allowed x st se st']
    by (auto simp: skipWhitespace_def)
qed

declare scan_loop.simps [simp del]

definition scanEntries :: "bytes \<Rightarrow> bytes list \<Rightarrow> (dotenv_error, (bytes \<times> dotenv_entry) list \<times> bytes list) result" where
  "scanEntries data allowed =
     (case scan_loop data allowed 0 \<lparr>scan_entries = [], scan_seen = [], scan_unsupported = []\<rparr> of
        Inl e \<Rightarrow> Inl e
      | Inr st \<Rightarrow> Inr (scan_entries st, sort (scan_unsupported st)))"

subsection \<open>Parsing a file\<close>

text \<open>The decoded value of each managed statement, in the order of the map iteration.\<close>

definition read_value :: "dotenv_runtime \<Rightarrow> bytes \<Rightarrow> dotenv_policy \<Rightarrow> bytes \<times> dotenv_entry \<Rightarrow> (dotenv_error, bytes \<times> bytes) result" where
  "read_value rt data policy = (\<lambda>(key, current).
     (case godotenv_Parse rt (slice data (statementStart current) (statementEnd current)) of
        None \<Rightarrow> Inl (key_failure CodeMalformed key)
      | Some parsed \<Rightarrow>
          (case parsed key of
             None \<Rightarrow> Inl (key_failure CodeMalformed key)
           | Some v \<Rightarrow>
               if int (length v) > MaximumValueBytes policy then Inl (key_failure CodeValueTooLarge key)
               else Inr (key, v))))"

fun read_values :: "dotenv_runtime \<Rightarrow> bytes \<Rightarrow> dotenv_policy \<Rightarrow> (bytes \<times> dotenv_entry) list \<Rightarrow> (dotenv_error, (bytes \<times> bytes) list) result" where
  "read_values rt data policy [] = Inr []"
| "read_values rt data policy (e # es) =
     bind_result (read_value rt data policy e) (\<lambda>v. bind_result (read_values rt data policy es) (\<lambda>vs. Inr (v # vs)))"

definition dotenv_Parse ::
    "dotenv_runtime \<Rightarrow> bytes \<Rightarrow> bytes list \<Rightarrow> dotenv_policy \<Rightarrow> (dotenv_error, dotenv_document) result" where
  "dotenv_Parse rt data allowedKeys policy =
     (case validatePolicy policy of Some e \<Rightarrow> Inl e | None \<Rightarrow>
      bind_result (validateAllowedKeys allowedKeys) (\<lambda>allowed.
      if int (length data) > MaximumBytes policy then Inl (dotenv_failure CodeTooLarge)
      else if \<not> ValidString data \<or> CHR 0x00 \<in> set data then Inl (dotenv_failure CodeInvalidUTF8)
      else if lineCount data > MaximumLines policy then Inl (dotenv_failure CodeTooManyLines)
      else
        bind_result (scanEntries data allowed) (\<lambda>(entries, unsupported).
        bind_result (read_values rt data policy (range_entries rt entries)) (\<lambda>values.
        Inr \<lparr>doc_raw = Some data, doc_allowed = allowed, doc_entries = entries, doc_values = values,
              doc_unsupported = unsupported, doc_policy = policy, doc_newline = detectNewline data,
              doc_finalNewline = hasFinalNewline data\<rparr>))))"

subsection \<open>Reading a document\<close>

definition UnsupportedKeys :: "dotenv_document \<Rightarrow> bytes list" where
  "UnsupportedKeys document = doc_unsupported document"

definition Presence :: "dotenv_document \<Rightarrow> (bytes \<times> bool) list" where
  "Presence document = map (\<lambda>key. (key, map_of (doc_entries document) key \<noteq> None)) (doc_allowed document)"

definition ValueCopy :: "dotenv_document \<Rightarrow> bytes \<Rightarrow> bytes option" where
  "ValueCopy document key = map_of (doc_values document) key"

definition ValidatePresence :: "dotenv_document \<Rightarrow> bytes \<Rightarrow> (bytes \<Rightarrow> bool) \<Rightarrow> bool \<times> bool" where
  "ValidatePresence document key validate =
     (case map_of (doc_values document) key of None \<Rightarrow> (False, True) | Some v \<Rightarrow> (True, validate v))"

definition Clear_document :: "dotenv_document \<Rightarrow> dotenv_document" where
  "Clear_document document =
     document\<lparr>doc_raw := None, doc_values := [], doc_entries := [], doc_unsupported := []\<rparr>"

subsection \<open>Encoding a value\<close>

definition encodedValueRoundTrips :: "dotenv_runtime \<Rightarrow> bytes \<Rightarrow> bytes \<Rightarrow> bool" where
  "encodedValueRoundTrips rt value encoded =
     (case godotenv_Parse rt (''ACMEMUX_VALUE='' @ encoded) of
        None \<Rightarrow> False
      | Some parsed \<Rightarrow> parsed ''ACMEMUX_VALUE'' = Some value)"

definition escape_char :: "char \<Rightarrow> bytes" where
  "escape_char c =
     (if c = backslash then [backslash, backslash]
      else if c = double_quote then [backslash, double_quote]
      else if c = dollar then [backslash, dollar]
      else if c = LF then [backslash, CHR ''n'']
      else if c = CR then [backslash, CHR ''r'']
      else [c])"

definition single_quoted :: "bytes \<Rightarrow> bytes" where
  "single_quoted value = [single_quote] @ value @ [single_quote]"

definition double_quoted :: "bytes \<Rightarrow> bytes" where
  "double_quoted value = [double_quote] @ concat (map escape_char value) @ [double_quote]"

definition encodeValue :: "dotenv_runtime \<Rightarrow> bytes \<Rightarrow> bytes option" where
  "encodeValue rt value =
     (if single_quote \<notin> set value \<and> encodedValueRoundTrips rt value (single_quoted value)
      then Some (single_quoted value)
      else if encodedValueRoundTrips rt value (double_quoted value) then Some (double_quoted value)
      else None)"

subsection \<open>Editing\<close>

record dotenv_plan =
  plan_seen :: "bytes list"
  plan_edits :: "dotenv_edit list"
  plan_new :: "(bytes \<times> bytes) list"
  plan_summaries :: "dotenv_summary list"

definition plan_replace :: "dotenv_runtime \<Rightarrow> dotenv_document \<Rightarrow> dotenv_change \<Rightarrow> dotenv_plan \<Rightarrow> (dotenv_error, dotenv_plan) result" where
  "plan_replace rt document change st =
     (let key = change_key change; value = change_value change in
      if int (length value) > MaximumValueBytes (doc_policy document) then Inl (key_failure CodeValueTooLarge key)
      else if \<not> ValidString value \<or> CHR 0x00 \<in> set value then Inl (key_failure CodeInvalidChange key)
      else (case encodeValue rt value of
              None \<Rightarrow> Inl (key_failure CodeInvalidChange key)
            | Some encoded \<Rightarrow>
                Inr (let st' = st\<lparr>plan_summaries := plan_summaries st @ [\<lparr>summary_key = key, summary_action = ActionReplace\<rparr>]\<rparr> in
                     case map_of (doc_entries document) key of
                       Some current \<Rightarrow> st'\<lparr>plan_edits := plan_edits st' @
                         [\<lparr>edit_start = valueStart current, edit_end = valueEnd current, edit_replacement = encoded\<rparr>]\<rparr>
                     | None \<Rightarrow> st'\<lparr>plan_new := plan_new st' @ [(key, encoded)]\<rparr>)))"

definition removal_start :: "dotenv_document \<Rightarrow> bytes \<Rightarrow> dotenv_entry \<Rightarrow> nat" where
  "removal_start document raw current =
     (if statementEnd current = length raw \<and> \<not> doc_finalNewline document
      then precedingLineSeparator raw (statementStart current) else statementStart current)"

definition plan_remove :: "dotenv_document \<Rightarrow> bytes \<Rightarrow> dotenv_change \<Rightarrow> dotenv_plan \<Rightarrow> dotenv_plan" where
  "plan_remove document raw change st =
     (case map_of (doc_entries document) (change_key change) of
        None \<Rightarrow> st
      | Some current \<Rightarrow>
          st\<lparr>plan_edits := plan_edits st @
               [\<lparr>edit_start = removal_start document raw current, edit_end = statementEnd current, edit_replacement = []\<rparr>],
             plan_summaries := plan_summaries st @ [\<lparr>summary_key = change_key change, summary_action = ActionRemove\<rparr>]\<rparr>)"

definition plan_change :: "dotenv_runtime \<Rightarrow> dotenv_document \<Rightarrow> bytes \<Rightarrow> dotenv_change \<Rightarrow> dotenv_plan \<Rightarrow> (dotenv_error, dotenv_plan) result" where
  "plan_change rt document raw change st =
     (if change_key change \<notin> set (doc_allowed document) then Inl (dotenv_failure CodeKeyNotAllowed)
      else if change_key change \<in> set (plan_seen st) then Inl (key_failure CodeInvalidChange (change_key change))
      else
        (let st' = st\<lparr>plan_seen := change_key change # plan_seen st\<rparr> in
         case change_action change of
           ActionReplace \<Rightarrow> plan_replace rt document change st'
         | ActionRemove \<Rightarrow> Inr (plan_remove document raw change st')
         | ActionOther _ \<Rightarrow> Inl (key_failure CodeInvalidChange (change_key change))))"

fun plan_changes :: "dotenv_runtime \<Rightarrow> dotenv_document \<Rightarrow> bytes \<Rightarrow> dotenv_change list \<Rightarrow> dotenv_plan \<Rightarrow> (dotenv_error, dotenv_plan) result" where
  "plan_changes rt document raw [] st = Inr st"
| "plan_changes rt document raw (c # cs) st = bind_result (plan_change rt document raw c st) (plan_changes rt document raw cs)"

text \<open>Removals that overlap become one; an overlap with a replacement is refused.  The merged
  edits are kept latest first.\<close>

fun merge_edits :: "dotenv_edit list \<Rightarrow> dotenv_edit list \<Rightarrow> (dotenv_error, dotenv_edit list) result" where
  "merge_edits merged [] = Inr (rev merged)"
| "merge_edits [] (current # es) = merge_edits [current] es"
| "merge_edits (previous # merged) (current # es) =
     (if edit_start current < edit_end previous then
        (if edit_replacement previous \<noteq> [] \<or> edit_replacement current \<noteq> [] then Inl (dotenv_failure CodeInvalidChange)
         else merge_edits (previous\<lparr>edit_end := max (edit_end previous) (edit_end current)\<rparr> # merged) es)
      else merge_edits (current # previous # merged) es)"

fun write_edits :: "bytes \<Rightarrow> nat \<Rightarrow> dotenv_edit list \<Rightarrow> (dotenv_error, bytes) result" where
  "write_edits raw pos [] = Inr (drop pos raw)"
| "write_edits raw pos (current # es) =
     (if edit_start current < pos \<or> edit_end current < edit_start current \<or> edit_end current > length raw
      then Inl (dotenv_failure CodeInvalidChange)
      else bind_result (write_edits raw (edit_end current) es)
             (\<lambda>rest. Inr (slice raw pos (edit_start current) @ edit_replacement current @ rest)))"

fun new_lines :: "dotenv_document \<Rightarrow> (bytes \<times> bytes) list \<Rightarrow> bytes list \<Rightarrow> bytes" where
  "new_lines document new [] = []"
| "new_lines document new (key # keys) =
     key @ ''='' @ the (map_of new key) @
       (if keys \<noteq> [] \<or> doc_finalNewline document then doc_newline document else []) @ new_lines document new keys"

definition append_new :: "dotenv_document \<Rightarrow> (bytes \<times> bytes) list \<Rightarrow> bytes \<Rightarrow> bytes" where
  "append_new document new contents =
     (if new = [] then contents
      else contents @ (if contents \<noteq> [] \<and> \<not> hasFinalNewline contents then doc_newline document else [])
             @ new_lines document new (sort (map fst new)))"

definition dotenv_Apply ::
    "dotenv_runtime \<Rightarrow> dotenv_document \<Rightarrow> dotenv_change list \<Rightarrow> (dotenv_error, bytes \<times> dotenv_summary list) result" where
  "dotenv_Apply rt document changes =
     (case doc_raw document of None \<Rightarrow> Inl (dotenv_failure CodeInvalidChange) | Some raw \<Rightarrow>
      bind_result (plan_changes rt document raw changes \<lparr>plan_seen = [], plan_edits = [], plan_new = [], plan_summaries = []\<rparr>) (\<lambda>plan.
      bind_result (merge_edits [] (sort_edits rt (plan_edits plan))) (\<lambda>edits.
      bind_result (write_edits raw 0 edits) (\<lambda>candidate.
      let result = append_new document (plan_new plan) candidate in
      if int (length result) > MaximumBytes (doc_policy document) then Inl (dotenv_failure CodeTooLarge)
      else
        bind_result (dotenv_Parse rt result (doc_allowed document) (doc_policy document)) (\<lambda>_.
        Inr (result, sort_key summary_key (plan_summaries plan)))))))"

end
