(* ===== verification/Dotenv_Lines.thy ===== *)
theory Dotenv_Lines
  imports Dotenv
begin

text \<open>
  The scanner is line-local: what it reads from a line start depends only on the text from there
  on, and text that ends with a line break reads the same whatever follows it.  These facts are
  stated over \<open>statements\<close>, the statements of a file from a position on with their spans, and
  \<open>readings\<close>, the same statements as text, without positions.
\<close>

subsection \<open>Statements of a file\<close>

type_synonym statement = "bytes \<times> dotenv_entry \<times> bool"

definition statement_at :: "bytes \<Rightarrow> nat \<Rightarrow> statement option" where
  "statement_at data i =
     (case scan_key data i of
        Inl e \<Rightarrow> None
      | Inr (key, separator) \<Rightarrow>
          (let start = skipHorizontal data (Suc separator) in
           case scanValue data start of
             Inl e \<Rightarrow> None
           | Inr (ve, se, x) \<Rightarrow>
               Some (key, \<lparr>statementStart = currentLineStart data i, statementEnd = se, valueStart = start, valueEnd = ve\<rparr>, x)))"

lemma statement_at_progress: "statement_at data i = Some (k, e, x) \<Longrightarrow> i < statementEnd e"
  using scan_statement_progress [of data "[]" i "\<lparr>scan_entries = [], scan_seen = [], scan_unsupported = []\<rparr>" "statementEnd e"
      "\<lparr>scan_entries = [], scan_seen = [k], scan_unsupported = [k]\<rparr>"]
  by (auto simp: statement_at_def scan_statement_def Let_def split: sum.splits)

function statements :: "bytes \<Rightarrow> nat \<Rightarrow> statement list option" where
  "statements data position =
     (if position < length data then
        (let i = skipWhitespace data position in
         if i \<ge> length data then Some []
         else if data ! i = CHR ''#'' then statements data (consumeLine data i)
         else (case statement_at data i of
                 None \<Rightarrow> None
               | Some (k, e, x) \<Rightarrow> map_option (Cons (k, e, x)) (statements data (statementEnd e))))
      else Some [])"
  by pat_completeness auto
termination
proof (relation "measure (\<lambda>(data, position). length data - position)", goal_cases)
  case 1
  then show ?case by simp
next
  case (2 data position i)
  then show ?case
    using skip_while_ge [of position is_blank data] consumeLine_progress [of i data]
    by (simp add: skipWhitespace_def)
next
  case (3 data position i a k b e x)
  then have "statement_at data i = Some (k, e, x)" by simp
  with 3 show ?case
    using skip_while_ge [of position is_blank data] statement_at_progress [of data i k e x]
    by (auto simp: skipWhitespace_def)
qed

declare statements.simps [simp del]

text \<open>The scanner accepts exactly the well-formed files without duplicate keys in which no managed
  value asks for expansion, and collects the spans of the managed statements.\<close>

definition managed_entries :: "bytes list \<Rightarrow> statement list \<Rightarrow> (bytes \<times> dotenv_entry) list" where
  "managed_entries allowed ss = map (\<lambda>(k, e, x). (k, e)) (filter (\<lambda>(k, e, x). k \<in> set allowed) ss)"

definition unmanaged_keys :: "bytes list \<Rightarrow> statement list \<Rightarrow> bytes list" where
  "unmanaged_keys allowed ss = map fst (filter (\<lambda>(k, e, x). k \<notin> set allowed) ss)"

definition admissible :: "bytes list \<Rightarrow> bytes list \<Rightarrow> statement list \<Rightarrow> bool" where
  "admissible allowed seen ss \<longleftrightarrow> distinct (map fst ss) \<and> set (map fst ss) \<inter> set seen = {} \<and>
     (\<forall>(k, e, x) \<in> set ss. k \<in> set allowed \<longrightarrow> \<not> x)"

lemma scan_statement_eq:
  "scan_statement data allowed i st = Inr (se, st') \<longleftrightarrow>
     (\<exists>k e x. statement_at data i = Some (k, e, x) \<and> se = statementEnd e \<and> k \<notin> set (scan_seen st) \<and>
        \<not> (k \<in> set allowed \<and> x) \<and>
        st' = \<lparr>scan_entries = scan_entries st @ managed_entries allowed [(k, e, x)], scan_seen = k # scan_seen st,
               scan_unsupported = scan_unsupported st @ unmanaged_keys allowed [(k, e, x)]\<rparr>)"
proof (cases "scan_key data i")
  case (Inl e)
  then show ?thesis by (simp add: scan_statement_def statement_at_def)
next
  case (Inr r)
  obtain key separator where r: "r = (key, separator)" by (cases r)
  show ?thesis
  proof (cases "scanValue data (skipHorizontal data (Suc separator))")
    case (Inl e)
    with Inr r show ?thesis by (simp add: scan_statement_def statement_at_def)
  next
    case v: (Inr w)
    obtain ve se0 x where w: "w = (ve, se0, x)" by (cases w)
    have eq: "statement_at data i = Some (k, e, y) \<longleftrightarrow> k = key \<and> y = x \<and>
        e = \<lparr>statementStart = currentLineStart data i, statementEnd = se0,
             valueStart = skipHorizontal data (Suc separator), valueEnd = ve\<rparr>" for k e y
      using Inr r v w by (auto simp: statement_at_def)
    show ?thesis
      unfolding eq using Inr r v w
      by (cases st) (auto simp: scan_statement_def managed_entries_def unmanaged_keys_def)
  qed
qed

lemma scan_loop_eq:
  "scan_loop data allowed p st = Inr st' \<longleftrightarrow>
     (\<exists>ss. statements data p = Some ss \<and> admissible allowed (scan_seen st) ss \<and>
        st' = \<lparr>scan_entries = scan_entries st @ managed_entries allowed ss, scan_seen = rev (map fst ss) @ scan_seen st,
               scan_unsupported = scan_unsupported st @ unmanaged_keys allowed ss\<rparr>)"
proof (induction data allowed p st rule: scan_loop.induct)
  case (1 data allowed p st)
  define i where "i = skipWhitespace data p"
  consider (ended) "\<not> p < length data \<or> i \<ge> length data"
    | (comment) "p < length data" "i < length data" "data ! i = CHR ''#''"
    | (stmt) "p < length data" "i < length data" "data ! i \<noteq> CHR ''#''" by linarith
  then show ?case
  proof cases
    case ended
    then have "statements data p = Some []" "scan_loop data allowed p st = Inr st"
      unfolding statements.simps [of data p] scan_loop.simps [of data allowed p st] Let_def i_def by auto
    then show ?thesis by (cases st) (auto simp: admissible_def managed_entries_def unmanaged_keys_def)
  next
    case comment
    then have "statements data p = statements data (consumeLine data i)"
        "scan_loop data allowed p st = scan_loop data allowed (consumeLine data i) st"
      unfolding statements.simps [of data p] scan_loop.simps [of data allowed p st] Let_def i_def by auto
    with 1(1) [OF comment(1) i_def] comment show ?thesis by simp
  next
    case stmt
    note s = stmt [unfolded i_def]
    show ?thesis
    proof (cases "scan_statement data allowed i st")
      case (Inl err)
      then have l: "scan_loop data allowed p st = Inl err"
        using s unfolding scan_loop.simps [of data allowed p st] Let_def i_def by auto
      have "\<not> (\<exists>ss. statements data p = Some ss \<and> admissible allowed (scan_seen st) ss)"
      proof
        assume "\<exists>ss. statements data p = Some ss \<and> admissible allowed (scan_seen st) ss"
        then obtain ss where ss: "statements data p = Some ss" "admissible allowed (scan_seen st) ss" by blast
        then obtain k e x ss' where "statement_at data i = Some (k, e, x)" "ss = (k, e, x) # ss'"
          using s unfolding statements.simps [of data p] Let_def i_def by (auto split: option.splits)
        with ss(2) scan_statement_eq [of data allowed i st] Inl show False
          by (auto simp: admissible_def)
      qed
      with l show ?thesis by auto
    next
      case (Inr r)
      obtain se st1 where r: "r = (se, st1)" by (cases r)
      with Inr obtain k e x where at: "statement_at data i = Some (k, e, x)" and se: "se = statementEnd e"
        and fresh: "k \<notin> set (scan_seen st)" "\<not> (k \<in> set allowed \<and> x)"
        and st1: "st1 = \<lparr>scan_entries = scan_entries st @ managed_entries allowed [(k, e, x)], scan_seen = k # scan_seen st,
               scan_unsupported = scan_unsupported st @ unmanaged_keys allowed [(k, e, x)]\<rparr>"
        using scan_statement_eq by blast
      have l: "scan_loop data allowed p st = scan_loop data allowed se st1"
        using s Inr r unfolding scan_loop.simps [of data allowed p st] Let_def i_def by auto
      have t: "statements data p = map_option (Cons (k, e, x)) (statements data se)"
        using s at se unfolding statements.simps [of data p] Let_def i_def by auto
      have "scan_loop data allowed se st1 = Inr st' \<longleftrightarrow>
          (\<exists>ss. statements data se = Some ss \<and> admissible allowed (scan_seen st1) ss \<and>
            st' = \<lparr>scan_entries = scan_entries st1 @ managed_entries allowed ss, scan_seen = rev (map fst ss) @ scan_seen st1,
               scan_unsupported = scan_unsupported st1 @ unmanaged_keys allowed ss\<rparr>)"
        using 1(2) [OF stmt(1) i_def _ _ Inr r [symmetric]] stmt by simp
      also have "\<dots> \<longleftrightarrow> (\<exists>ss. statements data p = Some ss \<and> admissible allowed (scan_seen st) ss \<and>
        st' = \<lparr>scan_entries = scan_entries st @ managed_entries allowed ss, scan_seen = rev (map fst ss) @ scan_seen st,
               scan_unsupported = scan_unsupported st @ unmanaged_keys allowed ss\<rparr>)"
        unfolding t st1 using fresh
        by (cases "statements data se") (auto simp: admissible_def managed_entries_def unmanaged_keys_def)
      finally show ?thesis unfolding l .
    qed
  qed
qed

lemma scanEntries_eq:
  "scanEntries data allowed = Inr (es, us) \<longleftrightarrow>
     (\<exists>ss. statements data 0 = Some ss \<and> admissible allowed [] ss \<and>
        es = managed_entries allowed ss \<and> us = sort (unmanaged_keys allowed ss))"
proof (cases "scan_loop data allowed 0 \<lparr>scan_entries = [], scan_seen = [], scan_unsupported = []\<rparr>")
  case (Inl e)
  then have "\<not> (\<exists>ss. statements data 0 = Some ss \<and> admissible allowed [] ss)"
    using scan_loop_eq [of data allowed 0 "\<lparr>scan_entries = [], scan_seen = [], scan_unsupported = []\<rparr>"] by auto
  with Inl show ?thesis by (auto simp: scanEntries_def)
next
  case (Inr st)
  then show ?thesis
    using scan_loop_eq [of data allowed 0 "\<lparr>scan_entries = [], scan_seen = [], scan_unsupported = []\<rparr>" st]
    by (auto simp: scanEntries_def)
qed

subsection \<open>Reading from a later position\<close>

lemma nth_shift [simp]: "p \<le> length data \<Longrightarrow> drop p data ! i = data ! (p + i)"
  by simp

lemma skip_while_shift: "p \<le> length data \<Longrightarrow> skip_while P data (p + i) = p + skip_while P (drop p data) i"
proof (induction P "drop p data" i rule: skip_while.induct)
  case (1 P i)
  then show ?case
    by (cases "p + i < length data \<and> P (data ! (p + i))")
      (auto simp: skip_while.simps [of P data "p + i"] skip_while.simps [of P "drop p data" i])
qed

lemma consumeLine_shift: "p \<le> length data \<Longrightarrow> consumeLine data (p + i) = p + consumeLine (drop p data) i"
  by (auto simp: consumeLine_def Let_def skip_while_shift)

lemma closing_quote_shift:
  "p \<le> length data \<Longrightarrow> 0 < i \<Longrightarrow> closing_quote data q (p + i) = map_option ((+) p) (closing_quote (drop p data) q i)"
proof (induction "drop p data" q i rule: closing_quote.induct)
  case (1 q i)
  then show ?case
    by (cases "p + i < length data")
      (auto simp: closing_quote.simps [of data q "p + i"] closing_quote.simps [of "drop p data" q i])
qed

lemma find_separator_shift:
  "p \<le> length data \<Longrightarrow> find_separator data (p + i) = map_option ((+) p) (find_separator (drop p data) i)"
proof (induction "drop p data" i rule: find_separator.induct)
  case (1 i)
  then show ?case
    by (cases "p + i < length data")
      (auto simp: find_separator.simps [of data "p + i"] find_separator.simps [of "drop p data" i])
qed

lemma trim_trailing_shift:
  "p \<le> length data \<Longrightarrow> trim_trailing data (p + a) (p + e) = p + trim_trailing (drop p data) a e"
proof (induction "drop p data" a e rule: trim_trailing.induct)
  case (1 a e)
  show ?case
  proof (cases "a < e \<and> isHorizontalSpace (data ! (p + e - 1))")
    case True
    with 1 show ?thesis
      by (simp add: trim_trailing.simps [of data "p + a" "p + e"] trim_trailing.simps [of "drop p data" a e])
  next
    case False
    with 1(2) show ?thesis
      by (auto simp: trim_trailing.simps [of data "p + a" "p + e"] trim_trailing.simps [of "drop p data" a e])
  qed
qed

lemma slice_shift: "slice data (p + a) (p + b) = slice (drop p data) a b"
  by (simp add: slice_def add.commute)

lemma upt_shift: "[p + a..<p + b] = map ((+) p) [a..<b]"
  by (induction b) auto

lemma find_map: "find P (map f xs) = map_option f (find (P \<circ> f) xs)"
  by (induction xs) auto

lemma find_upt_shift: "find P [p + a..<p + b] = map_option ((+) p) (find (\<lambda>i. P (p + i)) [a..<b])"
  by (simp add: upt_shift find_map comp_def)

lemma find_cong_set: "(\<And>x. x \<in> set xs \<Longrightarrow> P x = Q x) \<Longrightarrow> find P xs = find Q xs"
  by (induction xs) auto

lemma key_start_shift: "p \<le> length data \<Longrightarrow> key_start data (p + i) = p + key_start (drop p data) i"
  using skip_while_shift [of p data isHorizontalSpace "i + length ''export''"]
  unfolding key_start_def Let_def skipHorizontal_def by (auto simp: ac_simps simp del: list.size)

lemma scan_key_shift:
  "p \<le> length data \<Longrightarrow> scan_key data (p + i) = map_sum id (map_prod id ((+) p)) (scan_key (drop p data) i)"
  by (auto simp: scan_key_def Let_def key_start_shift find_separator_shift slice_shift split: option.splits)

lemma scanValue_shift:
  assumes p: "p \<le> length data"
  shows "scanValue data (p + i) = map_sum id (map_prod ((+) p) (map_prod ((+) p) id)) (scanValue (drop p data) i)"
proof -
  have q: "closing_quote data c (Suc (p + i)) = map_option ((+) p) (closing_quote (drop p data) c (Suc i))" for c
    using closing_quote_shift [OF p, of "Suc i" c] by simp
  have h: "skipHorizontal data (Suc (p + j)) = p + skipHorizontal (drop p data) (Suc j)" for j
    using skip_while_shift [OF p, of isHorizontalSpace "Suc j"] by (simp add: skipHorizontal_def)
  have sl: "slice data (Suc (p + i)) (p + j) = slice (drop p data) (Suc i) j" for j
    using slice_shift [of data p "Suc i" j] by simp
  have l: "skip_while P data (p + i) = p + skip_while P (drop p data) i" for P by (rule skip_while_shift [OF p])
  have f: "find (\<lambda>k. data ! k = CHR ''#'' \<and> p + i < k \<and> isHorizontalSpace (data ! (k - 1))) [p + i..<p + j] =
      map_option ((+) p) (find (\<lambda>k. drop p data ! k = CHR ''#'' \<and> i < k \<and> isHorizontalSpace (drop p data ! (k - 1))) [i..<j])" for j
    unfolding find_upt_shift
    by (rule arg_cong [where f = "map_option ((+) p)"], rule find_cong_set) (auto simp: p Nat.add_diff_assoc)
  have b: "x < length data - p \<longleftrightarrow> p + x < length data" "length data - p \<le> x \<longleftrightarrow> length data \<le> p + x" for x
    using p by auto
  consider (empty) "p + i \<ge> length data \<or> is_break (data ! (p + i))"
    | (quoted) "p + i < length data" "\<not> is_break (data ! (p + i))" "data ! (p + i) = single_quote \<or> data ! (p + i) = double_quote"
    | (plain) "p + i < length data" "\<not> is_break (data ! (p + i))" "\<not> (data ! (p + i) = single_quote \<or> data ! (p + i) = double_quote)"
    by linarith
  then show ?thesis
  proof cases
    case empty
    with p show ?thesis by (auto simp: scanValue_def consumeLine_shift)
  next
    case quoted
    show ?thesis
    proof (cases "closing_quote (drop p data) (data ! (p + i)) (Suc i)")
      case None
      with quoted p q b show ?thesis by (simp add: scanValue_def)
    next
      case (Some j)
      with quoted p q h sl b show ?thesis by (auto simp: scanValue_def Let_def consumeLine_shift)
    qed
  next
    case plain
    let ?e = "skip_while (\<lambda>c. \<not> is_break c) (drop p data) i"
    let ?f = "find (\<lambda>k. drop p data ! k = CHR ''#'' \<and> i < k \<and> isHorizontalSpace (drop p data ! (k - 1))) [i..<?e]"
    have "(case map_option ((+) p) ?f of None \<Rightarrow> p + ?e | Some k \<Rightarrow> k) = p + (case ?f of None \<Rightarrow> ?e | Some k \<Rightarrow> k)"
      by (cases ?f) auto
    with plain p show ?thesis
      unfolding scanValue_def Let_def l f
      by (simp add: trim_trailing_shift consumeLine_shift slice_shift b)
  qed
qed

definition line_start :: "bytes \<Rightarrow> nat \<Rightarrow> bool" where
  "line_start data p \<longleftrightarrow> p \<le> length data \<and> (p = 0 \<or> is_break (data ! (p - 1)))"

lemma currentLineStart_shift: "line_start data p \<Longrightarrow> currentLineStart data (p + i) = p + currentLineStart (drop p data) i"
proof (induction i)
  case 0
  then show ?case by (cases p) (auto simp: line_start_def)
next
  case (Suc i)
  then show ?case by (auto simp: line_start_def)
qed

definition shift_entry :: "nat \<Rightarrow> dotenv_entry \<Rightarrow> dotenv_entry" where
  "shift_entry p e = \<lparr>statementStart = p + statementStart e, statementEnd = p + statementEnd e,
     valueStart = p + valueStart e, valueEnd = p + valueEnd e\<rparr>"

lemma shift_entry_simps [simp]:
  "statementStart (shift_entry p e) = p + statementStart e" "statementEnd (shift_entry p e) = p + statementEnd e"
  "valueStart (shift_entry p e) = p + valueStart e" "valueEnd (shift_entry p e) = p + valueEnd e"
  by (simp_all add: shift_entry_def)

abbreviation shift_statement :: "nat \<Rightarrow> statement \<Rightarrow> statement" where
  "shift_statement p \<equiv> map_prod id (map_prod (shift_entry p) id)"

lemma statement_at_shift:
  assumes "line_start data p"
  shows "statement_at data (p + i) = map_option (shift_statement p) (statement_at (drop p data) i)"
proof -
  have p: "p \<le> length data" using assms by (simp add: line_start_def)
  have h: "skipHorizontal data (Suc (p + j)) = p + skipHorizontal (drop p data) (Suc j)" for j
    using skip_while_shift [OF p, of isHorizontalSpace "Suc j"] by (simp add: skipHorizontal_def)
  show ?thesis
    by (cases "scan_key (drop p data) i"; cases "scanValue (drop p data) (skipHorizontal (drop p data) (Suc (snd (projr (scan_key (drop p data) i)))))")
      (auto simp: statement_at_def Let_def scan_key_shift [OF p] h scanValue_shift [OF p] currentLineStart_shift [OF assms]
        shift_entry_def split: sum.splits prod.splits)
qed

lemma statements_shift:
  assumes "line_start data p"
  shows "statements data (p + i) = map_option (map (shift_statement p)) (statements (drop p data) i)"
proof -
  have p: "p \<le> length data" using assms by (simp add: line_start_def)
  show ?thesis
  proof (induction "drop p data" i rule: statements.induct)
    case (1 i)
    define j where "j = skipWhitespace (drop p data) i"
    have j: "skipWhitespace data (p + i) = p + j"
      using skip_while_shift [OF p] by (simp add: j_def skipWhitespace_def)
    consider (ended) "\<not> i < length (drop p data) \<or> length (drop p data) \<le> j"
      | (comment) "i < length (drop p data)" "j < length (drop p data)" "drop p data ! j = CHR ''#''"
      | (stmt) "i < length (drop p data)" "j < length (drop p data)" "drop p data ! j \<noteq> CHR ''#''" by linarith
    then show ?case
    proof cases
      case ended
      then have "statements (drop p data) i = Some []" "statements data (p + i) = Some []"
        unfolding statements.simps [of "drop p data" i] statements.simps [of data "p + i"] Let_def j_def [symmetric] j by auto
      then show ?thesis by simp
    next
      case comment
      then have "statements (drop p data) i = statements (drop p data) (consumeLine (drop p data) j)"
          "statements data (p + i) = statements data (p + consumeLine (drop p data) j)"
        unfolding statements.simps [of "drop p data" i] statements.simps [of data "p + i"] Let_def j_def [symmetric] j
        by (auto simp: consumeLine_shift [OF p] p)
      with 1(1) [OF comment(1) j_def] comment show ?thesis by simp
    next
      case stmt
      show ?thesis
      proof (cases "statement_at (drop p data) j")
        case None
        with stmt show ?thesis
          unfolding statements.simps [of "drop p data" i] statements.simps [of data "p + i"] Let_def j_def [symmetric] j
          by (auto simp: statement_at_shift [OF assms] p)
      next
        case (Some t)
        obtain k e x where t: "t = (k, e, x)" by (cases t)
        have "statements (drop p data) i = map_option (Cons (k, e, x)) (statements (drop p data) (statementEnd e))"
            "statements data (p + i) = map_option (Cons (k, shift_entry p e, x)) (statements data (p + statementEnd e))"
          using stmt Some t
          unfolding statements.simps [of "drop p data" i] statements.simps [of data "p + i"] Let_def j_def [symmetric] j
          by (auto simp: statement_at_shift [OF assms] p)
        with 1(2) [OF stmt(1) j_def _ _ Some t [symmetric] refl] stmt show ?thesis
          by (simp add: option.map_comp comp_def)
      qed
    qed
  qed
qed

subsection \<open>Text that ends with a line break\<close>

text \<open>A seam at position \<open>p\<close>: the text before it still ends with a line break after \<open>p\<close>, or what
  follows it is a single line break.\<close>

definition seam :: "bytes \<Rightarrow> bytes \<Rightarrow> nat \<Rightarrow> bool" where
  "seam s y p \<longleftrightarrow> p \<le> length s \<and> (p < length s \<and> is_break (last s) \<or> (\<exists>b. y = [b] \<and> is_break b))"

lemma skip_while_stops: "skip_while P data p < length data \<Longrightarrow> \<not> P (data ! skip_while P data p)"
proof (induction P data p rule: skip_while.induct)
  case (1 P data p)
  show ?case
  proof (cases "p < length data \<and> P (data ! p)")
    case True
    with 1 show ?thesis by (simp add: skip_while.simps [of P data p])
  next
    case False
    with 1(2) show ?thesis by (auto simp: skip_while.simps [of P data p])
  qed
qed

lemma skip_while_last: "p < length s \<Longrightarrow> \<not> P (last s) \<Longrightarrow> skip_while P s p < length s"
proof (induction P s p rule: skip_while.induct)
  case (1 P s p)
  show ?case
  proof (cases "P (s ! p)")
    case True
    moreover have "last s = s ! (length s - 1)" using 1(2) by (intro last_conv_nth) auto
    ultimately have "p \<noteq> length s - 1" using 1(3) by auto
    with 1(2) have "Suc p < length s" by simp
    with 1 True show ?thesis by (simp add: skip_while.simps [of P s p])
  next
    case False
    with 1(2) show ?thesis by (simp add: skip_while.simps [of P s p])
  qed
qed

lemma skip_while_inside: "skip_while P s p < length s \<Longrightarrow> skip_while P (s @ y) p = skip_while P s p"
proof (induction P s p rule: skip_while.induct)
  case (1 P s p)
  show ?case
  proof (cases "p < length s \<and> P (s ! p)")
    case True
    with 1 show ?thesis
      by (simp add: skip_while.simps [of P s p] skip_while.simps [of P "s @ y" p] nth_append)
  next
    case False
    with 1(2) have "p < length s" "\<not> P (s ! p)" by (auto simp: skip_while.simps [of P s p])
    then show ?thesis
      by (simp add: skip_while.simps [of P s p] skip_while.simps [of P "s @ y" p] nth_append)
  qed
qed

lemma skip_while_at_end: "skip_while P s (length s) = length s"
  by (simp add: skip_while.simps)

lemma skip_while_seam:
  assumes "seam s y p" "\<And>c. is_break c \<Longrightarrow> \<not> P c"
  shows "skip_while P (s @ y) p = skip_while P s p" "seam s y (skip_while P s p)"
proof -
  have le: "skip_while P s p \<le> length s" using assms(1) by (simp add: seam_def skip_while_le)
  show *: "seam s y (skip_while P s p)"
    using assms le skip_while_last [of p s P] by (auto simp: seam_def)
  show "skip_while P (s @ y) p = skip_while P s p"
  proof (cases "skip_while P s p < length s")
    case True
    then show ?thesis by (rule skip_while_inside)
  next
    case False
    with le * obtain b where b: "y = [b]" "is_break b" by (auto simp: seam_def)
    have "length (takeWhile P (drop p s)) = length (drop p s)"
      using False le assms(1) by (simp add: seam_def skip_while_eq)
    then have "takeWhile P (drop p s) = drop p s" using takeWhile_dropWhile_id [of P "drop p s"]
      by (metis append_Nil2 append_eq_conv_conj takeWhile_eq_take take_all_iff order_refl)
    then have "\<forall>c \<in> set (drop p s). P c" by (metis set_takeWhileD)
    with b assms have "takeWhile P (drop p s @ [b]) = drop p s" by (simp add: takeWhile_append2)
    with False le assms(1) b show ?thesis by (simp add: seam_def skip_while_eq)
  qed
qed

lemma skipHorizontal_seam:
  "seam s y p \<Longrightarrow> skipHorizontal (s @ y) p = skipHorizontal s p \<and> seam s y (skipHorizontal s p)"
  unfolding skipHorizontal_def by (auto intro!: skip_while_seam simp: is_break_def isHorizontalSpace_def)

lemma line_end_seam:
  "seam s y p \<Longrightarrow> skip_while (\<lambda>c. \<not> is_break c) (s @ y) p = skip_while (\<lambda>c. \<not> is_break c) s p
     \<and> seam s y (skip_while (\<lambda>c. \<not> is_break c) s p)"
  by (auto intro!: skip_while_seam)

lemma consumeLine_seam:
  assumes "seam s y p"
  shows "consumeLine (s @ y) p = consumeLine s p \<or>
    consumeLine s p = length s \<and> y \<noteq> [] \<and> is_break (hd y) \<and> consumeLine (s @ y) p = Suc (length s)"
proof -
  define q where "q = skip_while (\<lambda>c. \<not> is_break c) s p"
  have q: "skip_while (\<lambda>c. \<not> is_break c) (s @ y) p = q" "seam s y q" using line_end_seam [OF assms] by (simp_all add: q_def)
  consider (inner) "Suc q < length s" | (final) "Suc q = length s" | (outside) "q = length s"
    using q(2) by (force simp: seam_def)
  then show ?thesis
  proof cases
    case inner
    then show ?thesis by (simp add: consumeLine_def Let_def q q_def [symmetric] nth_append)
  next
    case final
    then have "is_break (s ! q)" using skip_while_stops [of "\<lambda>c. \<not> is_break c" s p] by (simp add: q_def)
    moreover have "(s @ y) ! q = s ! q" "Suc q < length (s @ y) \<longleftrightarrow> y \<noteq> []" "(s @ y) ! Suc q = y ! 0" "q < length s"
      using final by (auto simp: nth_append)
    ultimately show ?thesis
      unfolding consumeLine_def Let_def q(1) q_def [symmetric] using final
      by (auto simp: is_break_def hd_conv_nth)
  next
    case outside
    then obtain b where "y = [b]" "is_break b" using q(2) by (auto simp: seam_def)
    then have "consumeLine (s @ y) p = Suc (length s)"
      unfolding consumeLine_def Let_def q(1) using outside by (auto simp: is_break_def)
    moreover have "consumeLine s p = length s"
      unfolding consumeLine_def Let_def q_def [symmetric] using outside by simp
    ultimately show ?thesis using \<open>y = [b]\<close> \<open>is_break b\<close> by simp
  qed
qed

lemma closing_quote_append: "closing_quote s q p = Some j \<Longrightarrow> closing_quote (s @ y) q p = Some j"
proof (induction s q p rule: closing_quote.induct)
  case (1 s q p)
  from 1(2) have p: "p < length s" by (auto simp: closing_quote.simps [of s q p] split: if_splits)
  then have n: "(s @ y) ! p = s ! p" "(s @ y) ! (p - 1) = s ! (p - 1)" by (auto simp: nth_append)
  show ?case
  proof (cases "s ! p = q \<and> s ! (p - 1) \<noteq> backslash")
    case True
    with 1(2) p have "j = p" by (auto simp: closing_quote.simps [of s q p])
    with True p n show ?thesis by (subst closing_quote.simps) simp
  next
    case False
    with 1 p n have "closing_quote (s @ y) q (Suc p) = Some j" by (auto simp: closing_quote.simps [of s q p])
    with False p n show ?thesis by (auto simp: closing_quote.simps [of "s @ y" q p])
  qed
qed

lemma closing_quote_None_snoc:
  "closing_quote s q p = None \<Longrightarrow> p \<le> length s \<Longrightarrow> b \<noteq> q \<Longrightarrow> closing_quote (s @ [b]) q p = None"
proof (induction s q p rule: closing_quote.induct)
  case (1 s q p)
  show ?case
  proof (cases "p < length s")
    case True
    then have n: "(s @ [b]) ! p = s ! p" "(s @ [b]) ! (p - 1) = s ! (p - 1)" by (auto simp: nth_append)
    from 1(2) True have "\<not> (s ! p = q \<and> s ! (p - 1) \<noteq> backslash)" "closing_quote s q (Suc p) = None"
      by (auto simp: closing_quote.simps [of s q p] split: if_splits)
    with 1(1,4) True n show ?thesis by (simp add: closing_quote.simps [of "s @ [b]" q p])
  next
    case False
    with 1(3,4) have "p = length s" by simp
    with 1(4) show ?thesis
      by (simp add: closing_quote.simps [of "s @ [b]" q "length s"] closing_quote.simps [of "s @ [b]" q "Suc (length s)"])
  qed
qed

lemma find_separator_append: "find_separator s p = Some j \<Longrightarrow> find_separator (s @ y) p = Some j"
proof (induction s p rule: find_separator.induct)
  case (1 s p)
  from 1(2) have p: "p < length s" by (auto simp: find_separator.simps [of s p] split: if_splits)
  with 1 show ?case
    by (auto simp: find_separator.simps [of s p] find_separator.simps [of "s @ y" p] nth_append split: if_splits)
qed

lemma find_separator_snoc: "is_break b \<Longrightarrow> p \<le> length s \<Longrightarrow> find_separator (s @ [b]) p = find_separator s p"
proof (induction s p rule: find_separator.induct)
  case (1 s p)
  show ?case
  proof (cases "p < length s")
    case True
    with 1 show ?thesis
      by (auto simp: find_separator.simps [of s p] find_separator.simps [of "s @ [b]" p] nth_append)
  next
    case False
    with 1(3) have "p = length s" by simp
    with 1(2) show ?thesis
      by (auto simp: find_separator.simps [of s "length s"] find_separator.simps [of "s @ [b]" "length s"] is_break_def)
  qed
qed

lemma trim_trailing_append: "e \<le> length s \<Longrightarrow> trim_trailing (s @ y) a e = trim_trailing s a e"
proof (induction s a e rule: trim_trailing.induct)
  case (1 s a e)
  show ?case
  proof (cases "a < e")
    case True
    with 1(2) have "e - 1 < length s" by simp
    then have "(s @ y) ! (e - 1) = s ! (e - 1)" by (simp add: nth_append)
    with 1 True show ?thesis by (simp add: trim_trailing.simps [of "s @ y" a e] trim_trailing.simps [of s a e])
  next
    case False
    then show ?thesis by (simp add: trim_trailing.simps [of "s @ y" a e] trim_trailing.simps [of s a e])
  qed
qed

lemma trim_trailing_le: "trim_trailing s a e \<le> e"
proof (induction s a e rule: trim_trailing.induct)
  case (1 s a e)
  then show ?case by (subst trim_trailing.simps) (auto intro: le_trans diff_le_self)
qed

lemma slice_append: "b \<le> length s \<Longrightarrow> slice (s @ y) a b = slice s a b"
  by (simp add: slice_def)

lemma currentLineStart_append: "i \<le> length s \<Longrightarrow> currentLineStart (s @ y) i = currentLineStart s i"
  by (induction i) (auto simp: nth_append)

lemma currentLineStart_le: "currentLineStart s i \<le> i"
  by (induction i) auto

lemma find_separator_char: "find_separator s p = Some j \<Longrightarrow> s ! j = CHR ''='' \<or> s ! j = CHR '':''"
proof (induction s p rule: find_separator.induct)
  case (1 s p)
  then show ?case by (auto simp: find_separator.simps [of s p] split: if_splits)
qed

lemma export_chars: "n < 6 \<Longrightarrow> ''export'' ! n \<noteq> CHR ''='' \<and> ''export'' ! n \<noteq> CHR '':'' \<and> \<not> is_break (''export'' ! n)"
  by (auto simp: is_break_def less_Suc_eq numeral_eq_Suc)

lemma HasPrefix_nth: "HasPrefix s p \<Longrightarrow> n < length p \<Longrightarrow> s ! n = p ! n \<and> n < length s"
  unfolding HasPrefix_def by (metis length_take min_less_iff_conj nth_take)

lemma HasPrefix_append: "length p \<le> length s \<Longrightarrow> HasPrefix (s @ y) p = HasPrefix s p"
  by (simp add: HasPrefix_def)

lemma HasPrefix_length: "HasPrefix s p \<Longrightarrow> length p \<le> length s"
  unfolding HasPrefix_def by (metis length_take min.cobounded1)

lemma key_start_append:
  assumes "find_separator s (key_start s i) = Some j"
  shows "key_start (s @ y) i = key_start s i"
proof (cases "HasPrefix (drop i s) ''export'' \<and> i + 6 < length s \<and> isHorizontalSpace (s ! (i + 6))")
  case True
  then have k: "key_start s i = skip_while isHorizontalSpace s (i + 6)"
    by (simp add: key_start_def skipHorizontal_def numeral_eq_Suc)
  then have "skip_while isHorizontalSpace s (i + 6) < length s" using find_separator_Some [OF assms] by simp
  then have "skip_while isHorizontalSpace (s @ y) (i + 6) = skip_while isHorizontalSpace s (i + 6)"
    by (rule skip_while_inside)
  moreover have "HasPrefix (drop i (s @ y)) ''export''" using True HasPrefix_append [of "''export''" "drop i s" y] by auto
  ultimately show ?thesis
    using True unfolding k by (simp add: key_start_def skipHorizontal_def numeral_eq_Suc nth_append)
next
  case False
  then have k: "key_start s i = i" by (auto simp: key_start_def numeral_eq_Suc)
  have "\<not> (HasPrefix (drop i (s @ y)) ''export'' \<and> i + 6 < length (s @ y) \<and> isHorizontalSpace ((s @ y) ! (i + 6)))"
  proof
    assume c: "HasPrefix (drop i (s @ y)) ''export'' \<and> i + 6 < length (s @ y) \<and> isHorizontalSpace ((s @ y) ! (i + 6))"
    show False
    proof (cases "i + 6 < length s")
      case True
      then show False using c False HasPrefix_append [of "''export''" "drop i s" y] by (auto simp: nth_append)
    next
      case long: False
      have j: "i \<le> j" "j < length s" using find_separator_Some [OF assms] k by auto
      with long have n: "j - i < 6" by linarith
      have "drop i (s @ y) ! (j - i) = ''export'' ! (j - i)" using HasPrefix_nth [of "drop i (s @ y)" "''export''" "j - i"] c n by simp
      moreover have "drop i (s @ y) ! (j - i) = (s @ y) ! j" using j by (subst nth_drop) auto
      then have "drop i (s @ y) ! (j - i) = s ! j" using j by (simp add: nth_append)
      ultimately show False using find_separator_char [OF assms] export_chars [OF n] by auto
    qed
  qed
  with k show ?thesis by (auto simp: key_start_def numeral_eq_Suc)
qed

lemma scan_key_append: "scan_key s i = Inr (k, sep) \<Longrightarrow> scan_key (s @ y) i = Inr (k, sep)"
  by (auto simp: scan_key_def Let_def key_start_append find_separator_append slice_append less_imp_le
      split: option.splits if_splits dest: find_separator_Some)

lemma key_start_le: "i \<le> length s \<Longrightarrow> key_start s i \<le> length s"
  using skip_while_le [of "i + length ''export''" s isHorizontalSpace]
  by (auto simp: key_start_def Let_def skipHorizontal_def)

lemma key_start_snoc:
  assumes "is_break b" "i \<le> length s"
  shows "key_start (s @ [b]) i = key_start s i"
proof (cases "HasPrefix (drop i (s @ [b])) ''export''")
  case False
  then have "\<not> HasPrefix (drop i s) ''export''"
    using HasPrefix_append [of "''export''" "drop i s" "[b]"] HasPrefix_length [of "drop i s" "''export''"] assms(2) by auto
  with False show ?thesis by (simp add: key_start_def)
next
  case True
  have l: "i + 6 \<le> length s"
  proof (rule ccontr)
    assume "\<not> ?thesis"
    then have n: "length s - i < 6" using assms(2) by linarith
    then have "drop i (s @ [b]) ! (length s - i) = ''export'' ! (length s - i)"
      using conjunct1 [OF HasPrefix_nth [OF True, of "length s - i"]] by (simp del: drop_append)
    moreover have "drop i (s @ [b]) ! (length s - i) = b" using assms(2) by (simp add: nth_append)
    ultimately show False using export_chars [OF n] assms(1) by simp
  qed
  then have p: "HasPrefix (drop i s) ''export''"
    using True HasPrefix_append [of "''export''" "drop i s" "[b]"] by auto
  have b: "\<not> isHorizontalSpace b" using assms(1) by (auto simp: is_break_def isHorizontalSpace_def)
  have "skipHorizontal (s @ [b]) (i + 6) = skipHorizontal s (i + 6)"
    using skipHorizontal_seam [of s "[b]" "i + 6"] l assms(1) by (auto simp: seam_def)
  with l b p True show ?thesis
    by (cases "i + 6 = length s") (auto simp: key_start_def numeral_eq_Suc nth_append)
qed

lemma scan_key_snoc:
  assumes "is_break b" "i \<le> length s"
  shows "scan_key (s @ [b]) i = scan_key s i"
  using assms key_start_le [OF assms(2)]
  by (auto simp: scan_key_def Let_def key_start_snoc find_separator_snoc slice_append less_imp_le
      split: option.splits dest: find_separator_Some)

lemma scanValue_seam:
  assumes seam: "seam s y p" and v: "scanValue s p = Inr (ve, se, x)"
  shows "\<exists>se'. scanValue (s @ y) p = Inr (ve, se', x) \<and> ve \<le> length s \<and>
    (se' = se \<or> se = length s \<and> y \<noteq> [] \<and> is_break (hd y) \<and> se' = Suc (length s))"
proof -
  have ple: "p \<le> length s" using seam by (simp add: seam_def)
  have outside: "p = length s \<Longrightarrow> \<exists>b. y = [b] \<and> is_break b" using seam by (auto simp: seam_def)
  consider (empty) "p \<ge> length s \<or> is_break (s ! p)"
    | (quoted) "p < length s" "\<not> is_break (s ! p)" "s ! p = single_quote \<or> s ! p = double_quote"
    | (plain) "p < length s" "\<not> is_break (s ! p)" "\<not> (s ! p = single_quote \<or> s ! p = double_quote)"
    by linarith
  then show ?thesis
  proof cases
    case empty
    then have "scanValue (s @ y) p = Inr (p, consumeLine (s @ y) p, False)"
      using outside ple by (cases "p = length s") (auto simp: scanValue_def nth_append)
    moreover have "ve = p" "se = consumeLine s p" "x = False" using empty v by (auto simp: scanValue_def)
    ultimately show ?thesis using consumeLine_seam [OF seam] ple by auto
  next
    case quoted
    then obtain j where j: "closing_quote s (s ! p) (Suc p) = Some j"
      using v by (auto simp: scanValue_def split: option.splits)
    define t where "t = skipHorizontal s (Suc j)"
    have jl: "Suc p \<le> j" "j < length s" "s ! j = s ! p" using closing_quote_Some [OF j] by auto
    have "\<not> is_break (s ! j)" using quoted jl by simp
    moreover have "last s = s ! j" if "Suc j = length s"
    proof -
      have "last s = s ! (length s - 1)" using jl(2) by (intro last_conv_nth) auto
      also have "length s - 1 = j" using that by simp
      finally show ?thesis .
    qed
    ultimately have "is_break (last s) \<Longrightarrow> Suc j \<noteq> length s" by auto
    then have "seam s y (Suc j)" using seam jl by (auto simp: seam_def)
    then have t: "skipHorizontal (s @ y) (Suc j) = t" "seam s y t"
      using skipHorizontal_seam by (auto simp: t_def)
    have tt: "(s @ y) ! t = CHR ''#'' \<or> is_break ((s @ y) ! t) \<or> t \<ge> length (s @ y) \<longleftrightarrow>
        s ! t = CHR ''#'' \<or> is_break (s ! t) \<or> t \<ge> length s"
      using t(2) by (auto simp: seam_def nth_append)
    have v': "ve = Suc j" "se = consumeLine s t" "x = (s ! p = double_quote \<and> containsExpansion (slice s (Suc p) j))"
        "s ! t = CHR ''#'' \<or> is_break (s ! t) \<or> t \<ge> length s"
      using quoted v j by (auto simp: scanValue_def Let_def t_def [symmetric] split: if_splits)
    have "scanValue (s @ y) p = Inr (Suc j, consumeLine (s @ y) t, s ! p = double_quote \<and> containsExpansion (slice s (Suc p) j))"
      using quoted jl tt v'(4) closing_quote_append [OF j, of y]
      by (auto simp: scanValue_def Let_def t(1) nth_append slice_append)
    then show ?thesis using consumeLine_seam [OF t(2)] v' jl by auto
  next
    case plain
    define e where "e = skip_while (\<lambda>c. \<not> is_break c) s p"
    have e: "skip_while (\<lambda>c. \<not> is_break c) (s @ y) p = e" "seam s y e" using line_end_seam [OF seam] by (auto simp: e_def)
    then have el: "e \<le> length s" by (simp add: seam_def)
    let ?P = "\<lambda>d k. d ! k = CHR ''#'' \<and> k > p \<and> isHorizontalSpace (d ! (k - 1))"
    have f: "find (?P (s @ y)) [p..<e] = find (?P s) [p..<e]"
    proof (rule find_cong_set)
      fix k assume "k \<in> set [p..<e]"
      then have "k < length s" "k - 1 < length s" using el by auto
      then show "?P (s @ y) k = ?P s k" by (simp add: nth_append)
    qed
    define c where "c = (case find (?P s) [p..<e] of Some k \<Rightarrow> k | None \<Rightarrow> e)"
    have "c \<le> e" unfolding c_def by (auto split: option.splits simp: find_Some_iff)
    then have cl: "c \<le> length s" using el by simp
    have ve: "ve = trim_trailing s p c" "se = consumeLine s e" "x = containsExpansion (slice s p ve)"
      using plain v unfolding scanValue_def Let_def e_def [symmetric] c_def [symmetric] by auto
    then have vl: "ve \<le> length s" using trim_trailing_le [of s p c] cl by simp
    have "scanValue (s @ y) p = Inr (ve, consumeLine (s @ y) e, x)"
      using plain ve vl unfolding scanValue_def Let_def e(1) f c_def [symmetric]
      by (simp add: nth_append trim_trailing_append cl slice_append)
    then show ?thesis using consumeLine_seam [OF e(2)] ve vl by auto
  qed
qed

subsection \<open>Statements as text\<close>

definition strip_break :: "bytes \<Rightarrow> bytes" where
  "strip_break s = rev (dropWhile is_break (rev s))"

lemma strip_break_snoc [simp]: "is_break b \<Longrightarrow> strip_break (s @ [b]) = strip_break s"
  by (simp add: strip_break_def)

text \<open>A statement without its position: its key, its text up to the line break, where its value
  starts and ends in that text, and whether the value asks for expansion.\<close>

type_synonym reading = "bytes \<times> bytes \<times> nat \<times> nat \<times> bool"

definition reading :: "bytes \<Rightarrow> statement \<Rightarrow> reading" where
  "reading data = (\<lambda>(k, e, x). (k, strip_break (slice data (statementStart e) (statementEnd e)),
     valueStart e - statementStart e, valueEnd e - statementStart e, x))"

definition readings :: "bytes \<Rightarrow> reading list option" where
  "readings data = map_option (map (reading data)) (statements data 0)"

lemma reading_shift: "reading data (shift_statement p t) = reading (drop p data) t"
  by (cases t) (simp add: reading_def slice_shift)

lemma readings_from:
  assumes "line_start data p"
  shows "map_option (map (reading data)) (statements data p) = readings (drop p data)"
  using statements_shift [OF assms, of 0]
  by (simp add: readings_def option.map_comp comp_def reading_shift)

lemma scanValue_le: "p \<le> length s \<Longrightarrow> scanValue s p = Inr (ve, se, x) \<Longrightarrow> se \<le> length s"
  using consumeLine_le [of p s] consumeLine_le [of "skip_while (\<lambda>c. \<not> is_break c) s p" s] skip_while_le [of p s "\<lambda>c. \<not> is_break c"]
    consumeLine_le [of "skipHorizontal s (Suc j)" s for j] skip_while_le [of "Suc j" s isHorizontalSpace for j]
  by (auto simp: scanValue_def Let_def skipHorizontal_def split: if_splits option.splits dest!: closing_quote_Some)

lemma statement_at_seam:
  assumes seam: "seam s y i" "i < length s" and at: "statement_at s i = Some (k, e, x)"
  obtains e' where "statement_at (s @ y) i = Some (k, e', x)" "reading (s @ y) (k, e', x) = reading s (k, e, x)"
    "statementEnd e' = statementEnd e \<or>
     statementEnd e = length s \<and> y \<noteq> [] \<and> is_break (hd y) \<and> statementEnd e' = Suc (length s)"
proof -
  obtain sep ve se where sep: "scan_key s i = Inr (k, sep)"
    and v: "scanValue s (skipHorizontal s (Suc sep)) = Inr (ve, se, x)"
    and e: "e = \<lparr>statementStart = currentLineStart s i, statementEnd = se, valueStart = skipHorizontal s (Suc sep), valueEnd = ve\<rparr>"
    using at by (auto simp: statement_at_def Let_def split: sum.splits)
  have sl: "sep < length s" and sc: "s ! sep = CHR ''='' \<or> s ! sep = CHR '':''"
    using sep by (auto simp: scan_key_def Let_def split: option.splits if_splits dest: find_separator_Some find_separator_char)
  have "Suc sep < length s" if "is_break (last s)"
  proof (rule ccontr)
    assume "\<not> ?thesis"
    then have "sep = length s - 1" using sl by simp
    then have "last s = s ! sep" using sl last_conv_nth [of s] by force
    with sc that show False by (auto simp: is_break_def)
  qed
  then have "seam s y (Suc sep)" using seam sl by (auto simp: seam_def)
  from skipHorizontal_seam [OF this]
  have h: "skipHorizontal (s @ y) (Suc sep) = skipHorizontal s (Suc sep)" and hs: "seam s y (skipHorizontal s (Suc sep))" by auto
  from scanValue_seam [OF hs v] obtain se' where v': "scanValue (s @ y) (skipHorizontal s (Suc sep)) = Inr (ve, se', x)"
    and se': "se' = se \<or> se = length s \<and> y \<noteq> [] \<and> is_break (hd y) \<and> se' = Suc (length s)" by auto
  have sel: "se \<le> length s" using scanValue_le [OF _ v] hs by (simp add: seam_def)
  define e' where "e' = e\<lparr>statementEnd := se'\<rparr>"
  have c: "currentLineStart (s @ y) i = currentLineStart s i" using seam(2) by (simp add: currentLineStart_append)
  have "statement_at (s @ y) i = Some (k, e', x)"
    using scan_key_append [OF sep, of y] v' h c by (simp add: statement_at_def e'_def e)
  moreover have "currentLineStart s i \<le> length s" using currentLineStart_le [of s i] seam(2) by simp
  then have "reading (s @ y) (k, e', x) = reading s (k, e, x)"
    using se' sel by (cases y) (auto simp: reading_def e'_def e slice_append slice_def Suc_diff_le)
  ultimately show thesis using that se' by (simp add: e'_def e)
qed

lemma statement_at_le:
  assumes "i < length s" "statement_at s i = Some (k, e, x)" shows "statementEnd e \<le> length s"
proof -
  obtain sep ve where sep: "scan_key s i = Inr (k, sep)"
    and v: "scanValue s (skipHorizontal s (Suc sep)) = Inr (ve, statementEnd e, x)"
    using assms(2) by (auto simp: statement_at_def Let_def split: sum.splits)
  have "skipHorizontal s (Suc sep) \<le> length s"
    using scan_key_ge [OF sep] skip_while_le [of "Suc sep" s isHorizontalSpace] by (simp add: skipHorizontal_def)
  from scanValue_le [OF this v] show ?thesis .
qed

lemma scanValue_error_snoc:
  assumes "is_break b" "p \<le> length s" "scanValue s p = Inl err"
  shows "\<exists>err'. scanValue (s @ [b]) p = Inl err'"
proof -
  have p: "p < length s" "\<not> is_break (s ! p)" "s ! p = single_quote \<or> s ! p = double_quote"
    using assms(3) by (auto simp: scanValue_def Let_def split: if_splits)
  have n: "(s @ [b]) ! p = s ! p" using p by (simp add: nth_append)
  have b: "b \<noteq> s ! p" using p assms(1) by auto
  show ?thesis
  proof (cases "closing_quote s (s ! p) (Suc p)")
    case None
    then have "closing_quote (s @ [b]) (s ! p) (Suc p) = None" using closing_quote_None_snoc p b by simp
    with p n show ?thesis by (simp add: scanValue_def)
  next
    case (Some j)
    define t where "t = skipHorizontal s (Suc j)"
    have jl: "j < length s" using closing_quote_Some [OF Some] by simp
    have "seam s [b] (Suc j)" using jl assms(1) by (auto simp: seam_def)
    then have t: "skipHorizontal (s @ [b]) (Suc j) = t" using skipHorizontal_seam by (simp add: t_def)
    have "t < length s \<and> s ! t \<noteq> CHR ''#'' \<and> \<not> is_break (s ! t)"
      using assms(3) p Some by (auto simp: scanValue_def Let_def t_def split: if_splits)
    then show ?thesis using p n closing_quote_append [OF Some, of "[b]"] t by (simp add: scanValue_def Let_def nth_append)
  qed
qed

lemma statement_at_None_snoc:
  assumes "is_break b" "i < length s" "statement_at s i = None"
  shows "statement_at (s @ [b]) i = None"
proof (cases "scan_key s i")
  case (Inl e)
  then show ?thesis using scan_key_snoc [of b i s] assms by (simp add: statement_at_def)
next
  case (Inr r)
  obtain k sep where r: "r = (k, sep)" by (cases r)
  have sl: "sep < length s" using scan_key_ge [of s i k sep] Inr r by simp
  then have h: "skipHorizontal (s @ [b]) (Suc sep) = skipHorizontal s (Suc sep)" "skipHorizontal s (Suc sep) \<le> length s"
    using skipHorizontal_seam [of s "[b]" "Suc sep"] assms(1) by (auto simp: seam_def)
  have "\<exists>e. scanValue s (skipHorizontal s (Suc sep)) = Inl e"
    using assms(3) Inr r by (auto simp: statement_at_def Let_def split: sum.splits)
  then obtain e' where "scanValue (s @ [b]) (skipHorizontal s (Suc sep)) = Inl e'"
    using scanValue_error_snoc [OF assms(1) h(2)] by blast
  with Inr r h scan_key_snoc [of b i s] assms show ?thesis by (simp add: statement_at_def)
qed

lemma statements_blank:
  assumes "p < length d" "is_blank (d ! p)"
  shows "statements d p = statements d (Suc p)"
proof -
  have "skipWhitespace d p = skipWhitespace d (Suc p)"
    using assms by (simp add: skipWhitespace_def skip_while.simps [of is_blank d p])
  moreover have "skipWhitespace d (length d) = length d" by (simp add: skipWhitespace_def skip_while_at_end)
  ultimately show ?thesis
    using assms unfolding statements.simps [of d p] statements.simps [of d "Suc p"] Let_def
    by (cases "Suc p = length d") auto
qed

lemma statements_skip: "statements (s @ y) p = statements (s @ y) (skip_while is_blank s p)"
proof (induction is_blank s p rule: skip_while.induct)
  case (1 s p)
  show ?case
  proof (cases "p < length s \<and> is_blank (s ! p)")
    case True
    then have "statements (s @ y) p = statements (s @ y) (Suc p)" by (intro statements_blank) (auto simp: nth_append)
    with 1 True show ?thesis by (simp add: skip_while.simps [of is_blank s p])
  next
    case False
    then show ?thesis by (auto simp: skip_while.simps [of is_blank s p])
  qed
qed

lemma statements_end [simp]: "length d \<le> p \<Longrightarrow> statements d p = Some []"
  by (simp add: statements.simps)

text \<open>The three ways a scan goes on from a position, as rules.\<close>

lemma statements_cases:
  obtains (ended) "skipWhitespace d p \<ge> length d" "statements d p = Some []"
  | (comment) i where "i = skipWhitespace d p" "p \<le> i" "i < length d" "d ! i = CHR ''#''" "statements d p = statements d (consumeLine d i)"
  | (malformed) i where "i = skipWhitespace d p" "p \<le> i" "i < length d" "d ! i \<noteq> CHR ''#''" "statement_at d i = None" "statements d p = None"
  | (statement) i k e x where "i = skipWhitespace d p" "p \<le> i" "i < length d" "d ! i \<noteq> CHR ''#''"
      "statement_at d i = Some (k, e, x)" "statements d p = map_option (Cons (k, e, x)) (statements d (statementEnd e))"
proof -
  define i where "i = skipWhitespace d p"
  have pi: "p \<le> i" by (simp add: i_def skipWhitespace_def skip_while_ge)
  show thesis
  proof (cases "i < length d")
    case False
    then have "statements d p = Some []" unfolding statements.simps [of d p] Let_def i_def by auto
    with False ended show thesis by (simp add: i_def)
  next
    case True
    with pi have p: "p < length d" by simp
    show thesis
    proof (cases "d ! i = CHR ''#''")
      case c: True
      have "statements d p = statements d (consumeLine d i)"
        using p True c unfolding statements.simps [of d p] Let_def i_def by auto
      with c True pi comment [OF i_def] show thesis by blast
    next
      case False
      show thesis
      proof (cases "statement_at d i")
        case None
        then have "statements d p = None" using p True False unfolding statements.simps [of d p] Let_def i_def by auto
        with None True False pi malformed [OF i_def] show thesis by blast
      next
        case (Some t)
        obtain k e x where t: "t = (k, e, x)" by (cases t)
        have "statements d p = map_option (Cons (k, e, x)) (statements d (statementEnd e))"
          using p True False Some t unfolding statements.simps [of d p] Let_def i_def by auto
        with Some t True False pi statement [OF i_def] show thesis by blast
      qed
    qed
  qed
qed

lemma skipWhitespace_inside: "skipWhitespace s p < length s \<Longrightarrow> skipWhitespace (s @ y) p = skipWhitespace s p"
  unfolding skipWhitespace_def by (rule skip_while_inside)

lemma statements_comment:
  assumes "i = skipWhitespace d p" "i < length d" "d ! i = CHR ''#''"
  shows "statements d p = statements d (consumeLine d i)"
  using assms by (cases rule: statements_cases [of d p]) auto

lemma statements_statement:
  assumes "i = skipWhitespace d p" "i < length d" "d ! i \<noteq> CHR ''#''" "statement_at d i = Some (k, e, x)"
  shows "statements d p = map_option (Cons (k, e, x)) (statements d (statementEnd e))"
  using assms by (cases rule: statements_cases [of d p]) auto

lemma statements_malformed:
  assumes "i = skipWhitespace d p" "i < length d" "d ! i \<noteq> CHR ''#''" "statement_at d i = None"
  shows "statements d p = None"
  using assms by (cases rule: statements_cases [of d p]) auto

lemma statements_past_seam:
  "y \<noteq> [] \<Longrightarrow> is_break (hd y) \<Longrightarrow> statements (s @ y) (Suc (length s)) = statements (s @ y) (length s)"
  by (cases y) (auto intro!: statements_blank [symmetric] simp: is_blank_def)

lemma statements_seam:
  assumes seam: "\<And>i. i < length s \<Longrightarrow> seam s y i"
  shows "p \<le> length s \<Longrightarrow> statements s p = Some ss \<Longrightarrow>
    map_option (map (reading (s @ y))) (statements (s @ y) p) =
    map_option ((@) (map (reading s) ss)) (map_option (map (reading (s @ y))) (statements (s @ y) (length s)))"
proof (induction "length s - p" arbitrary: p ss rule: less_induct)
  case less
  let ?T = "\<lambda>q. map_option (map (reading (s @ y))) (statements (s @ y) q)"
  have rest: "?T q' = map_option ((@) (map (reading s) ts)) (?T (length s))"
    if "p < q" "q \<le> length s" "statements s q = Some ts"
      "q' = q \<or> q = length s \<and> y \<noteq> [] \<and> is_break (hd y) \<and> q' = Suc (length s)" for q q' ts
    using that(4)
  proof
    assume "q' = q"
    with that less(1) [of q ts] show ?thesis by simp
  next
    assume "q = length s \<and> y \<noteq> [] \<and> is_break (hd y) \<and> q' = Suc (length s)"
    with that statements_past_seam [of y s] show ?thesis by (cases "statements (s @ y) (length s)") auto
  qed
  show ?case
  proof (cases rule: statements_cases [of s p])
    case ended
    then have "skip_while is_blank s p = length s"
      using skip_while_le [of p s is_blank] less(2) by (simp add: skipWhitespace_def)
    then have "statements (s @ y) p = statements (s @ y) (length s)" using statements_skip [of s y p] by simp
    with ended less(3) show ?thesis by (cases "statements (s @ y) (length s)") auto
  next
    case (comment i)
    then have i: "skipWhitespace (s @ y) p = i" using skipWhitespace_inside [of s p y] by simp
    have "statements (s @ y) p = statements (s @ y) (consumeLine (s @ y) i)"
      using i comment by (intro statements_comment) (auto simp: nth_append)
    moreover have "p < consumeLine s i" "consumeLine s i \<le> length s"
      using comment consumeLine_progress [of i s] consumeLine_le [of i s] by auto
    ultimately show ?thesis
      using rest [of "consumeLine s i" ss "consumeLine (s @ y) i"] consumeLine_seam [OF seam, of i] comment less(3) by auto
  next
    case (malformed i)
    with less(3) show ?thesis by simp
  next
    case (statement i k e x)
    then have i: "skipWhitespace (s @ y) p = i" using skipWhitespace_inside [of s p y] by simp
    obtain e' where e': "statement_at (s @ y) i = Some (k, e', x)" "reading (s @ y) (k, e', x) = reading s (k, e, x)"
        "statementEnd e' = statementEnd e \<or>
         statementEnd e = length s \<and> y \<noteq> [] \<and> is_break (hd y) \<and> statementEnd e' = Suc (length s)"
      using statement_at_seam [OF seam, of i k e x] statement by blast
    obtain ts where ts: "statements s (statementEnd e) = Some ts" "ss = (k, e, x) # ts"
      using statement(6) less(3) by (cases "statements s (statementEnd e)") auto
    have "statements (s @ y) p = map_option (Cons (k, e', x)) (statements (s @ y) (statementEnd e'))"
      using i statement e' by (intro statements_statement) (auto simp: nth_append)
    then have t: "?T p = map_option (Cons (reading s (k, e, x))) (?T (statementEnd e'))"
      by (simp add: option.map_comp comp_def e'(2))
    have "p < statementEnd e" using statement_at_progress [OF statement(5)] statement(2) by simp
    then have r: "?T (statementEnd e') = map_option ((@) (map (reading s) ts)) (?T (length s))"
      by (rule rest [OF _ statement_at_le [OF statement(3,5)] ts(1) e'(3)])
    show ?thesis unfolding t r ts(2) by (simp add: option.map_comp comp_def)
  qed
qed

lemma statements_None_snoc:
  assumes "is_break b"
  shows "p \<le> length s \<Longrightarrow> statements s p = None \<Longrightarrow> statements (s @ [b]) p = None"
proof (induction "length s - p" arbitrary: p rule: less_induct)
  case less
  have seam: "i < length s \<Longrightarrow> seam s [b] i" for i using assms by (auto simp: seam_def)
  show ?case
  proof (cases rule: statements_cases [of s p])
    case ended
    with less(3) show ?thesis by simp
  next
    case (comment i)
    then have i: "skipWhitespace (s @ [b]) p = i" using skipWhitespace_inside [of s p "[b]"] by simp
    have "consumeLine s i \<noteq> length s" using comment less(3) by auto
    then have "consumeLine (s @ [b]) i = consumeLine s i" using consumeLine_seam [OF seam, of i] comment by auto
    moreover have "statements (s @ [b]) p = statements (s @ [b]) (consumeLine (s @ [b]) i)"
      using i comment by (intro statements_comment) (auto simp: nth_append)
    moreover have "p < consumeLine s i" "consumeLine s i \<le> length s"
      using comment consumeLine_progress [of i s] consumeLine_le [of i s] by auto
    ultimately show ?thesis using less(1) [of "consumeLine s i"] comment less(3) by simp
  next
    case (malformed i)
    then show ?thesis
      using skipWhitespace_inside [of s p "[b]"] statement_at_None_snoc [OF assms, of i s]
      by (intro statements_malformed [of i]) (auto simp: nth_append)
  next
    case (statement i k e x)
    then have i: "skipWhitespace (s @ [b]) p = i" using skipWhitespace_inside [of s p "[b]"] by simp
    have rest: "statements s (statementEnd e) = None" using statement(6) less(3) by simp
    then have "statementEnd e \<noteq> length s" by auto
    then obtain e' where e': "statement_at (s @ [b]) i = Some (k, e', x)" "statementEnd e' = statementEnd e"
      using statement_at_seam [OF seam, of i k e x] statement by metis
    then have "statements (s @ [b]) p = map_option (Cons (k, e', x)) (statements (s @ [b]) (statementEnd e))"
      using i statement statements_statement [of i "s @ [b]" p k e' x] by (auto simp: nth_append)
    moreover have "p < statementEnd e" "statementEnd e \<le> length s"
      using statement_at_progress [OF statement(5)] statement_at_le [OF statement(3,5)] statement(2) by auto
    ultimately show ?thesis using less(1) [of "statementEnd e"] rest statement by simp
  qed
qed

text \<open>A line break at the end of a file changes nothing; text that ends with a line break (or is
  empty) reads the same whatever follows.\<close>

definition closed_text :: "bytes \<Rightarrow> bool" where
  "closed_text s \<longleftrightarrow> s = [] \<or> is_break (last s)"

lemma readings_snoc:
  assumes "is_break b" shows "readings (s @ [b]) = readings s"
proof (cases "statements s 0")
  case None
  then show ?thesis using statements_None_snoc [OF assms, of 0 s] by (simp add: readings_def)
next
  case (Some ss)
  have "statements (s @ [b]) (length s) = Some []"
    using statements_blank [of "length s" "s @ [b]"] assms by (simp add: is_blank_def)
  then show ?thesis
    using statements_seam [of s "[b]" 0 ss] Some assms by (simp add: readings_def seam_def)
qed

lemma readings_append:
  assumes "closed_text s" "readings s = Some os"
  shows "readings (s @ y) = map_option ((@) os) (readings y)"
proof (cases "s = []")
  case True
  then show ?thesis using assms(2) by (cases "readings y") (auto simp: readings_def)
next
  case False
  then have b: "is_break (last s)" using assms(1) by (simp add: closed_text_def)
  obtain ss where ss: "statements s 0 = Some ss" "os = map (reading s) ss"
    using assms(2) by (auto simp: readings_def)
  have "last s = s ! (length s - 1)" using False by (simp add: last_conv_nth)
  then have "line_start (s @ y) (length s)" using b False by (auto simp: line_start_def nth_append)
  then show ?thesis
    using statements_seam [of s y 0 ss] ss b readings_from [of "s @ y" "length s"]
    by (simp add: readings_def seam_def)
qed

lemma readings_Nil [simp]: "readings [] = Some []"
  by (simp add: readings_def)

end
