(* ===== verification/Dotenv_Edit.thy ===== *)
theory Dotenv_Edit
  imports Dotenv_Lines
begin

text \<open>
  Editing a file statement by statement.  \<open>edit_text\<close> is the specification of the editor: it walks
  over the statements of a file and keeps, drops or revalues each.  Its text reads as the edited
  list of statements, and the byte edits that the code sorts, merges and writes produce it.
\<close>

subsection \<open>The shape of a statement\<close>

definition line_rest :: "bytes \<Rightarrow> nat \<Rightarrow> bool" where
  "line_rest d p \<longleftrightarrow> (let j = skipHorizontal d p in j \<ge> length d \<or> d ! j = CHR ''#'' \<or> is_break (d ! j))"

lemma trim_trailing_ge: "a \<le> e \<Longrightarrow> a \<le> trim_trailing d a e"
proof (induction d a e rule: trim_trailing.induct)
  case (1 d a e)
  then show ?case by (cases "a < e") (auto simp: trim_trailing.simps [of d a e] trim_trailing.simps [of d e e])
qed

lemma trim_trailing_spaces: "trim_trailing d a e \<le> i \<Longrightarrow> i < e \<Longrightarrow> isHorizontalSpace (d ! i)"
proof (induction d a e rule: trim_trailing.induct)
  case (1 d a e)
  show ?case
  proof (cases "a < e \<and> isHorizontalSpace (d ! (e - 1))")
    case True
    show ?thesis
    proof (cases "i = e - 1")
      case False
      with 1 True show ?thesis by (auto simp: trim_trailing.simps [of d a e])
    qed (use True in simp)
  next
    case False
    with 1(2,3) show ?thesis by (auto simp: trim_trailing.simps [of d a e] split: if_splits)
  qed
qed

lemma skip_while_run:
  assumes "p \<le> q" "q \<le> length d" "\<And>i. p \<le> i \<Longrightarrow> i < q \<Longrightarrow> P (d ! i)"
  shows "skip_while P d p = skip_while P d q"
  using assms
proof (induction "q - p" arbitrary: p)
  case (Suc n)
  then have "p < q" by linarith
  then have "skip_while P d p = skip_while P d (Suc p)" using Suc by (simp add: skip_while.simps [of P d p])
  with Suc \<open>p < q\<close> show ?case by simp
qed simp

lemma skip_while_stop: "p \<ge> length d \<or> \<not> P (d ! p) \<Longrightarrow> skip_while P d p = p"
  by (subst skip_while.simps) auto

lemma skip_while_run_chars: "p \<le> i \<Longrightarrow> i < skip_while P d p \<Longrightarrow> P (d ! i)"
proof (induction P d p rule: skip_while.induct)
  case (1 P d p)
  show ?case
  proof (cases "p < length d \<and> P (d ! p)")
    case True
    with 1 show ?thesis by (cases "i = p") (auto simp: skip_while.simps [of P d p])
  next
    case False
    then have "skip_while P d p = p" by (auto simp: skip_while.simps [of P d p])
    with 1(2,3) show ?thesis by simp
  qed
qed

lemma space_not_break: "isHorizontalSpace c \<Longrightarrow> \<not> is_break c"
  by (auto simp: isHorizontalSpace_def is_break_def)

text \<open>What follows a value on its line.\<close>

lemma consumeLine_run:
  assumes "p \<le> q" "q \<le> length d" "\<And>i. p \<le> i \<Longrightarrow> i < q \<Longrightarrow> \<not> is_break (d ! i)"
  shows "consumeLine d p = consumeLine d q"
  using skip_while_run [of p q d "\<lambda>c. \<not> is_break c"] assms by (simp add: consumeLine_def)

lemma consumeLine_skip:
  assumes "p \<le> length d"
  shows "consumeLine d (skipHorizontal d p) = consumeLine d p"
  using consumeLine_run [of p "skipHorizontal d p" d] skip_while_ge [of p isHorizontalSpace d] skip_while_le [OF assms]
    skip_while_run_chars [of p _ isHorizontalSpace d] space_not_break
  unfolding skipHorizontal_def by metis

lemma value_shape:
  assumes "scanValue d p = Inr (ve, se, x)" "p \<le> length d"
  shows "p \<le> ve" "ve \<le> length d" "se = consumeLine d ve" "line_rest d ve" "p < ve \<Longrightarrow> \<not> is_break (d ! (ve - 1))"
proof -
  consider (empty) "p \<ge> length d \<or> is_break (d ! p)"
    | (quoted) j where "p < length d" "\<not> is_break (d ! p)" "d ! p = single_quote \<or> d ! p = double_quote"
        "closing_quote d (d ! p) (Suc p) = Some j"
    | (plain) "p < length d" "\<not> is_break (d ! p)" "\<not> (d ! p = single_quote \<or> d ! p = double_quote)"
    using assms(1) by (auto simp: scanValue_def split: if_splits option.splits)
  then have "p \<le> ve \<and> ve \<le> length d \<and> se = consumeLine d ve \<and> line_rest d ve \<and> (p < ve \<longrightarrow> \<not> is_break (d ! (ve - 1)))"
  proof cases
    case empty
    then have "ve = p" "se = consumeLine d p" using assms(1) by (auto simp: scanValue_def)
    moreover have "skipHorizontal d p = p" unfolding skipHorizontal_def
      by (rule skip_while_stop) (use empty space_not_break in auto)
    ultimately show ?thesis using empty assms(2) by (auto simp: line_rest_def)
  next
    case quoted
    define t where "t = skipHorizontal d (Suc j)"
    have j: "Suc p \<le> j" "j < length d" "d ! j = d ! p" using closing_quote_Some [OF quoted(4)] by auto
    have v: "ve = Suc j" "se = consumeLine d t" "t \<ge> length d \<or> d ! t = CHR ''#'' \<or> is_break (d ! t)"
      using assms(1) quoted by (auto simp: scanValue_def Let_def t_def split: if_splits)
    have "consumeLine d t = consumeLine d (Suc j)"
      unfolding t_def by (rule consumeLine_skip) (use j in simp)
    then show ?thesis using v j quoted by (auto simp: line_rest_def t_def)
  next
    case plain
    let ?P = "\<lambda>k. d ! k = CHR ''#'' \<and> k > p \<and> isHorizontalSpace (d ! (k - 1))"
    define e where "e = skip_while (\<lambda>c. \<not> is_break c) d p"
    define c where "c = (case find ?P [p..<e] of Some k \<Rightarrow> k | None \<Rightarrow> e)"
    have v: "ve = trim_trailing d p c" "se = consumeLine d e"
      using plain assms(1) unfolding scanValue_def Let_def e_def [symmetric] c_def [symmetric] by auto
    have e: "p \<le> e" "e \<le> length d" using skip_while_ge [of p] skip_while_le [of p d] assms(2) by (auto simp: e_def)
    have nb: "\<not> is_break (d ! i)" if "p \<le> i" "i < e" for i using skip_while_run_chars [of p i] that by (auto simp: e_def)
    have c: "p \<le> c" "c \<le> e" using e unfolding c_def by (auto split: option.splits simp: find_Some_iff)
    have ve: "p \<le> ve" "ve \<le> c" using v c trim_trailing_ge [of p c d] trim_trailing_le [of d p c] by auto
    have sp: "isHorizontalSpace (d ! i)" if "ve \<le> i" "i < c" for i using trim_trailing_spaces that v by blast
    have "skipHorizontal d ve = skipHorizontal d c"
      unfolding skipHorizontal_def by (rule skip_while_run) (use ve c e sp in auto)
    moreover have cc: "c \<ge> length d \<or> d ! c = CHR ''#'' \<or> is_break (d ! c)"
    proof (cases "find ?P [p..<e]")
      case None
      then have "c = e" by (simp add: c_def)
      then show ?thesis using skip_while_stops [of "\<lambda>c. \<not> is_break c" d p] by (auto simp: e_def)
    next
      case (Some k)
      then have "c = k" unfolding c_def by simp
      then show ?thesis using Some by (auto simp: find_Some_iff)
    qed
    moreover have "skipHorizontal d c = c"
      unfolding skipHorizontal_def by (rule skip_while_stop) (use cc in \<open>auto simp: isHorizontalSpace_def is_break_def\<close>)
    ultimately have "line_rest d ve" by (simp add: line_rest_def)
    moreover have "se = consumeLine d ve" using v(2) consumeLine_run [of ve e d] ve c e nb by auto
    ultimately show ?thesis using ve c e nb [of "ve - 1"] by auto
  qed
  then show "p \<le> ve" "ve \<le> length d" "se = consumeLine d ve" "line_rest d ve" "p < ve \<Longrightarrow> \<not> is_break (d ! (ve - 1))" by auto
qed

lemma consumeLine_end:
  assumes "p \<le> length d"
  shows "consumeLine d p = length d \<or> line_start d (consumeLine d p)"
proof -
  define q where "q = skip_while (\<lambda>c. \<not> is_break c) d p"
  have "q \<le> length d" using skip_while_le [OF assms] by (simp add: q_def)
  moreover have "q < length d \<Longrightarrow> is_break (d ! q)" using skip_while_stops [of "\<lambda>c. \<not> is_break c" d p] by (simp add: q_def)
  ultimately show ?thesis
    unfolding consumeLine_def Let_def q_def [symmetric] by (auto simp: line_start_def is_break_def)
qed

lemma currentLineStart_line_start: "i \<le> length d \<Longrightarrow> line_start d (currentLineStart d i)"
  by (induction i) (auto simp: line_start_def)

lemma currentLineStart_no_break: "currentLineStart d i \<le> j \<Longrightarrow> j < i \<Longrightarrow> \<not> is_break (d ! j)"
  by (induction i) (auto split: if_splits simp: less_Suc_eq)

lemma currentLineStart_zero: "(\<And>j. j < i \<Longrightarrow> \<not> is_break (d ! j)) \<Longrightarrow> currentLineStart d i = 0"
  by (induction i) auto

lemma currentLineStart_ge: "line_start d p \<Longrightarrow> p \<le> i \<Longrightarrow> p \<le> currentLineStart d i"
  using currentLineStart_shift [of d p "i - p"] by simp

lemma statement_shape:
  assumes at: "statement_at d i = Some (k, e, x)" and i: "i < length d"
  shows "statementStart e = currentLineStart d i" "statementStart e \<le> i" "i < valueStart e" "valueStart e \<le> valueEnd e"
    "valueEnd e \<le> statementEnd e" "statementEnd e \<le> length d" "statementEnd e = consumeLine d (valueEnd e)"
    "valueEnd e < statementEnd e \<or> statementEnd e = length d" "line_rest d (valueEnd e)" "\<not> is_break (d ! (valueEnd e - 1))"
    "statementEnd e = length d \<or> line_start d (statementEnd e)"
proof -
  obtain sep ve se where sep: "scan_key d i = Inr (k, sep)"
    and v: "scanValue d (skipHorizontal d (Suc sep)) = Inr (ve, se, x)"
    and e: "e = \<lparr>statementStart = currentLineStart d i, statementEnd = se, valueStart = skipHorizontal d (Suc sep), valueEnd = ve\<rparr>"
    using at by (auto simp: statement_at_def Let_def split: sum.splits)
  have sl: "i \<le> sep" "sep < length d" using scan_key_ge [OF sep] by auto
  have vs: "Suc sep \<le> skipHorizontal d (Suc sep)" "skipHorizontal d (Suc sep) \<le> length d"
    using skip_while_ge [of "Suc sep"] skip_while_le [of "Suc sep" d] sl by (auto simp: skipHorizontal_def)
  note s = value_shape [OF v vs(2)]
  have "\<not> is_break (d ! (skipHorizontal d (Suc sep) - 1))"
  proof (cases "skipHorizontal d (Suc sep) = Suc sep")
    case True
    have "d ! sep = CHR ''='' \<or> d ! sep = CHR '':''"
      using sep by (auto simp: scan_key_def Let_def split: option.splits if_splits dest: find_separator_char)
    with True show ?thesis by (auto simp: is_break_def)
  next
    case False
    then show ?thesis
      using skip_while_run_chars [of "Suc sep" "skipHorizontal d (Suc sep) - 1" isHorizontalSpace d] vs space_not_break
      by (auto simp: skipHorizontal_def)
  qed
  then have nb: "\<not> is_break (d ! (ve - 1))" using s(1,5) by (cases "skipHorizontal d (Suc sep) = ve") auto
  have ce: "consumeLine d ve = length d \<or> line_start d (consumeLine d ve)" using s(2) by (rule consumeLine_end)
  show "statementStart e = currentLineStart d i" "statementStart e \<le> i" "i < valueStart e" "valueStart e \<le> valueEnd e"
    "valueEnd e \<le> statementEnd e" "statementEnd e \<le> length d" "statementEnd e = consumeLine d (valueEnd e)"
    "valueEnd e < statementEnd e \<or> statementEnd e = length d" "line_rest d (valueEnd e)" "\<not> is_break (d ! (valueEnd e - 1))"
    "statementEnd e = length d \<or> line_start d (statementEnd e)"
    using sl vs s nb ce currentLineStart_le [of d i] consumeLine_ge [of ve d] consumeLine_le [of ve d] consumeLine_progress [of ve d]
    by (auto simp: e)
qed

subsection \<open>A statement on its own\<close>

lemma skip_while_restrict: "skip_while P (s @ y) p < length s \<Longrightarrow> skip_while P s p = skip_while P (s @ y) p"
proof (induction P "s @ y" p rule: skip_while.induct)
  case (1 P p)
  have "p < length s" using 1(2) skip_while_ge [of p P "s @ y"] by simp
  with 1 show ?case
    by (cases "P (s ! p)") (auto simp: skip_while.simps [of P s p] skip_while.simps [of P "s @ y" p] nth_append)
qed

lemma find_separator_restrict: "find_separator (s @ y) p = Some j \<Longrightarrow> j < length s \<Longrightarrow> find_separator s p = Some j"
proof (induction "s @ y" p rule: find_separator.induct)
  case (1 p)
  have "p < length s" using 1(2,3) find_separator_Some [of "s @ y" p j] by simp
  with 1 show ?case
    by (auto simp: find_separator.simps [of s p] find_separator.simps [of "s @ y" p] nth_append split: if_splits)
qed

lemma closing_quote_restrict: "closing_quote (s @ y) q p = Some j \<Longrightarrow> j < length s \<Longrightarrow> closing_quote s q p = Some j"
proof (induction "s @ y" q p rule: closing_quote.induct)
  case (1 q p)
  have p: "p < length s" using 1(2,3) closing_quote_Some [of "s @ y" q p j] by simp
  then have n: "(s @ y) ! p = s ! p" "(s @ y) ! (p - 1) = s ! (p - 1)" by (auto simp: nth_append)
  show ?case
  proof (cases "s ! p = q \<and> s ! (p - 1) \<noteq> backslash")
    case True
    with 1(2) p n have "j = p" by (auto simp: closing_quote.simps [of "s @ y" q p])
    with True p show ?thesis by (subst closing_quote.simps) simp
  next
    case False
    with 1 p n have "closing_quote s q (Suc p) = Some j" by (auto simp: closing_quote.simps [of "s @ y" q p])
    with False p show ?thesis by (subst closing_quote.simps) auto
  qed
qed

lemma key_start_restrict:
  assumes "key_start (s @ y) i < length s" "i < length s"
  shows "key_start s i = key_start (s @ y) i"
proof (cases "HasPrefix (drop i (s @ y)) ''export'' \<and> i + 6 < length (s @ y) \<and> isHorizontalSpace ((s @ y) ! (i + 6))")
  case True
  then have k: "key_start (s @ y) i = skip_while isHorizontalSpace (s @ y) (i + 6)"
    by (simp add: key_start_def skipHorizontal_def numeral_eq_Suc)
  have a: "i + 6 < length s" using assms(1) k skip_while_ge [of "i + 6" isHorizontalSpace "s @ y"] by simp
  have "skip_while isHorizontalSpace s (i + 6) = skip_while isHorizontalSpace (s @ y) (i + 6)"
    by (rule skip_while_restrict) (use assms(1) k in simp)
  moreover have "HasPrefix (drop i s) ''export''" using True a HasPrefix_append [of "''export''" "drop i s" y] by auto
  ultimately show ?thesis
    using True a unfolding k by (simp add: key_start_def skipHorizontal_def numeral_eq_Suc nth_append)
next
  case False
  have "\<not> (HasPrefix (drop i s) ''export'' \<and> i + 6 < length s \<and> isHorizontalSpace (s ! (i + 6)))"
  proof
    assume c: "HasPrefix (drop i s) ''export'' \<and> i + 6 < length s \<and> isHorizontalSpace (s ! (i + 6))"
    then have "HasPrefix (drop i (s @ y)) ''export''" using HasPrefix_append [of "''export''" "drop i s" y] by auto
    with c False show False by (auto simp: nth_append)
  qed
  with False show ?thesis by (auto simp: key_start_def numeral_eq_Suc)
qed

lemma scan_key_restrict:
  assumes "scan_key (s @ y) i = Inr (k, sep)" "sep < length s"
  shows "scan_key s i = Inr (k, sep)"
proof -
  have f: "find_separator (s @ y) (key_start (s @ y) i) = Some sep" and k: "TrimSpace (slice (s @ y) (key_start (s @ y) i) sep) = k" "validSourceKey k"
    using assms(1) by (auto simp: scan_key_def Let_def split: option.splits if_splits)
  have "key_start (s @ y) i \<le> sep" using find_separator_Some [OF f] by simp
  moreover have "i \<le> key_start (s @ y) i" by (rule key_start_ge)
  ultimately have "key_start s i = key_start (s @ y) i" using assms(2) by (intro key_start_restrict) auto
  with find_separator_restrict [OF f assms(2)] k assms(2) show ?thesis by (simp add: scan_key_def slice_append)
qed

lemma statement_restrict:
  assumes at: "statement_at d i = Some (k, e, x)" and i: "i < length d"
  obtains e' where "statement_at (take (statementEnd e) d) i = Some (k, e', x)"
    "reading (take (statementEnd e) d) (k, e', x) = reading d (k, e, x)" "statementEnd e' = statementEnd e"
proof (cases "statementEnd e = length d")
  case True
  then show thesis using that [of e] at by simp
next
  case False
  note sh = statement_shape [OF at i]
  define s where "s = take (statementEnd e) d"
  define y where "y = drop (statementEnd e) d"
  have d: "d = s @ y" by (simp add: s_def y_def)
  have ls: "length s = statementEnd e" using sh(6) by (simp add: s_def)
  have ve: "valueEnd e < length s" using sh(8) False ls by simp
  have il: "i < length s" using sh(3,4) ve by linarith
  have "is_break (d ! (statementEnd e - 1))" using sh(3-5,11) False by (auto simp: line_start_def)
  moreover have "s \<noteq> []" using il by auto
  then have "last s = d ! (statementEnd e - 1)" using ls il by (simp add: last_conv_nth d nth_append)
  ultimately have seam: "seam s y j" if "j < length s" for j using that by (simp add: seam_def)
  obtain sep where sep: "scan_key (s @ y) i = Inr (k, sep)" and vs: "valueStart e = skipHorizontal (s @ y) (Suc sep)"
    and v: "scanValue (s @ y) (valueStart e) = Inr (valueEnd e, statementEnd e, x)"
    using at unfolding d by (auto simp: statement_at_def Let_def split: sum.splits)
  have sepl: "sep < length s" using vs sh(4) ve skip_while_ge [of "Suc sep" isHorizontalSpace "s @ y"] by (simp add: skipHorizontal_def)
  have key: "scan_key s i = Inr (k, sep)" using sep sepl by (rule scan_key_restrict)
  have vsl: "valueStart e < length s" using sh(4) ve by simp
  have h: "skipHorizontal s (Suc sep) = valueStart e"
    unfolding vs skipHorizontal_def by (rule skip_while_restrict) (use vs vsl in \<open>simp add: skipHorizontal_def\<close>)
  have "\<exists>w. scanValue s (valueStart e) = Inr w"
  proof (rule ccontr)
    assume "\<not> ?thesis"
    then obtain err where err: "scanValue s (valueStart e) = Inl err" by (cases "scanValue s (valueStart e)") auto
    let ?q = "s ! valueStart e"
    have q: "\<not> is_break ?q" "?q = single_quote \<or> ?q = double_quote" "(s @ y) ! valueStart e = ?q"
      using err vsl by (auto simp: scanValue_def Let_def nth_append split: if_splits)
    obtain j where j: "closing_quote (s @ y) ?q (Suc (valueStart e)) = Some j" "valueEnd e = Suc j"
      using v q vsl by (auto simp: scanValue_def Let_def split: option.splits if_splits)
    have "closing_quote s ?q (Suc (valueStart e)) = Some j"
      by (rule closing_quote_restrict [OF j(1)]) (use j(2) ve in simp)
    moreover have "seam s y (valueEnd e)" using seam ve by simp
    from skipHorizontal_seam [OF this]
    have t: "skipHorizontal s (Suc j) = skipHorizontal (s @ y) (Suc j)" "skipHorizontal s (Suc j) \<le> length s" using j(2) by (auto simp: seam_def)
    have "skipHorizontal s (Suc j) < length s \<Longrightarrow> s ! skipHorizontal s (Suc j) = CHR ''#'' \<or> is_break (s ! skipHorizontal s (Suc j))"
      using sh(9) t unfolding d by (auto simp: line_rest_def j(2) nth_append)
    ultimately show False using err q vsl by (auto simp: scanValue_def Let_def split: if_splits)
  qed
  then obtain ve' se' x' where w: "scanValue s (valueStart e) = Inr (ve', se', x')" by (metis prod.collapse)
  then obtain e2 where e2: "statement_at s i = Some (k, e2, x')" using key h by (simp add: statement_at_def)
  from statement_at_seam [OF seam [OF il] il e2] obtain e3 where e3: "statement_at (s @ y) i = Some (k, e3, x')"
    "reading (s @ y) (k, e3, x') = reading s (k, e2, x')"
    "statementEnd e3 = statementEnd e2 \<or> statementEnd e2 = length s \<and> y \<noteq> [] \<and> is_break (hd y) \<and> statementEnd e3 = Suc (length s)"
    by blast
  then have "e3 = e" "x' = x" using at d by auto
  with e3 e2 ls that [of e2] show thesis by (auto simp: s_def y_def)
qed

lemma single_reading:
  assumes "statement_at s i = Some (k, e, x)" "i < length s" "\<And>j. j < i \<Longrightarrow> is_blank (s ! j)" "\<not> is_blank (s ! i)"
    "s ! i \<noteq> CHR ''#''" "statementEnd e = length s"
  shows "readings s = Some [reading s (k, e, x)]"
proof -
  have "skipWhitespace s 0 = i"
    unfolding skipWhitespace_def using skip_while_run [of 0 i s is_blank] skip_while_stop [of s i is_blank] assms by auto
  with assms have "statements s 0 = map_option (Cons (k, e, x)) (statements s (statementEnd e))"
    by (intro statements_statement) auto
  with assms(6) show ?thesis by (simp add: readings_def)
qed

lemma slice_take_drop: "slice d a b = drop a (take b d)"
  by (simp add: slice_def drop_take)

lemma statement_alone:
  assumes at: "statement_at d i = Some (k, e, x)" "i < length d" "\<not> is_blank (d ! i)" "d ! i \<noteq> CHR ''#''"
    and blank: "\<And>j. statementStart e \<le> j \<Longrightarrow> j < i \<Longrightarrow> is_blank (d ! j)"
  shows "readings (slice d (statementStart e) (statementEnd e)) = Some [reading d (k, e, x)]"
proof -
  note sh = statement_shape [OF at(1,2)]
  define s where "s = take (statementEnd e) d"
  define l where "l = statementStart e"
  have len: "length s = statementEnd e" "i < length s" "l \<le> i" using sh by (auto simp: s_def l_def)
  have n: "s ! j = d ! j" if "j < length s" for j using that by (simp add: s_def)
  obtain e' where e': "statement_at s i = Some (k, e', x)" "reading s (k, e', x) = reading d (k, e, x)"
      "statementEnd e' = length s"
    using statement_restrict [OF at(1,2)] len(1) unfolding s_def [symmetric] by metis
  have st: "line_start s l"
    using currentLineStart_line_start [of i d] sh(1,2) at(2) len n [of "l - 1"] by (auto simp: line_start_def l_def)
  have "statement_at s (l + (i - l)) = map_option (shift_statement l) (statement_at (drop l s) (i - l))"
    by (rule statement_at_shift [OF st])
  then obtain e3 where e3: "statement_at (drop l s) (i - l) = Some (k, e3, x)" "e' = shift_entry l e3"
    using e'(1) len(3) by (cases "statement_at (drop l s) (i - l)") (auto simp: map_prod_def split: prod.splits)
  have "readings (drop l s) = Some [reading (drop l s) (k, e3, x)]"
  proof (rule single_reading [OF e3(1)])
    show "statementEnd e3 = length (drop l s)" using e3(2) e'(3) len by simp
    show "is_blank (drop l s ! j)" if "j < i - l" for j using that len blank [of "l + j"] n [of "l + j"] by (simp add: l_def)
  qed (use at len n in auto)
  also have "reading (drop l s) (k, e3, x) = reading d (k, e, x)"
    using reading_shift [of s l "(k, e3, x)"] e3(2) e'(2) by simp
  finally show ?thesis by (simp add: slice_take_drop s_def l_def)
qed

lemma blank_readings: "list_all is_blank g \<Longrightarrow> readings g = Some []"
proof (induction g rule: rev_induct)
  case (snoc c g)
  have "skip_while is_blank (g @ [c]) 0 = length (g @ [c])"
    using snoc.prems by (simp add: skip_while_eq list_all_iff)
  then have "statements (g @ [c]) 0 = Some []" using statements_skip [of "g @ [c]" "[]" 0] by simp
  then show ?case by (simp add: readings_def)
qed simp

lemma comment_readings:
  assumes "i = skipWhitespace d p" "p \<le> i" "i < length d" "d ! i = CHR ''#''"
  shows "readings (slice d p (consumeLine d i)) = Some []"
proof -
  define n where "n = consumeLine d i"
  define s where "s = take n d"
  have nl: "i < n" "n \<le> length d" using consumeLine_progress [of i d] consumeLine_le [of i d] assms(3) by (auto simp: n_def)
  have len: "length s = n" using nl by (simp add: s_def)
  have nth: "s ! j = d ! j" if "j < n" for j using that by (simp add: s_def)
  have "consumeLine s i = n"
  proof (cases "n = length d")
    case True
    then show ?thesis by (simp add: s_def n_def [symmetric])
  next
    case False
    then have "line_start d n" using consumeLine_end [of i d] assms(3) by (simp add: n_def)
    moreover have "s \<noteq> []" using nl len by auto
    ultimately have "is_break (last s)" using nl len nth [of "n - 1"] by (auto simp: line_start_def last_conv_nth)
    then have "seam s (drop n d) i" using nl len by (simp add: seam_def)
    from consumeLine_seam [OF this] show ?thesis by (auto simp: s_def n_def [symmetric] len [unfolded s_def])
  qed
  then have c: "consumeLine (drop p s) (i - p) = length (drop p s)"
    using consumeLine_shift [of p s "i - p"] assms(2) nl len by simp
  have "skipWhitespace (drop p s) 0 = i - p"
  proof -
    have b: "is_blank (d ! j)" if "p \<le> j" "j < i" for j
      using skip_while_run_chars [of p j is_blank d] that assms(1) by (simp add: skipWhitespace_def)
    have "\<not> is_blank (d ! i)" using assms(4) by (simp add: is_blank_def isHorizontalSpace_def is_break_def)
    then show ?thesis
      unfolding skipWhitespace_def
      using skip_while_run [of 0 "i - p" "drop p s" is_blank] skip_while_stop [of "drop p s" "i - p" is_blank] nl len assms(2) nth b
      by auto
  qed
  then have "statements (drop p s) 0 = statements (drop p s) (consumeLine (drop p s) (i - p))"
    using assms nl len nth [of i] by (intro statements_comment) auto
  with c show ?thesis by (simp add: readings_def slice_take_drop s_def n_def [symmetric])
qed

text \<open>A quoted text: it opens with a quote, and the first closing quote is its last character.\<close>

definition quoted_text :: "bytes \<Rightarrow> bool" where
  "quoted_text q \<longleftrightarrow> q \<noteq> [] \<and> (hd q = single_quote \<or> hd q = double_quote) \<and>
     closing_quote q (hd q) 1 = Some (length q - 1)"

definition value_expands :: "bytes \<Rightarrow> bool" where
  "value_expands q \<longleftrightarrow> hd q = double_quote \<and> containsExpansion (slice q 1 (length q - 1))"

lemma scanValue_quoted:
  assumes q: "quoted_text q" and t: "line_rest t 0" "consumeLine t 0 = length t"
  shows "scanValue (q @ t) 0 = Inr (length q, length q + length t, value_expands q)"
proof -
  have hd: "(q @ t) ! 0 = hd q" "q ! 0 = hd q" "q \<noteq> []" using q by (auto simp: quoted_text_def nth_append hd_conv_nth)
  have c: "closing_quote (q @ t) (hd q) (Suc 0) = Some (length q - 1)"
    using q closing_quote_append [of q "hd q" 1 "length q - 1" t] by (simp add: quoted_text_def)
  have h: "skipHorizontal (q @ t) (length q) = length q + skipHorizontal t 0"
    using skip_while_shift [of "length q" "q @ t" isHorizontalSpace 0] by (simp add: skipHorizontal_def)
  have l: "consumeLine (q @ t) (length q + skipHorizontal t 0) = length q + length t"
    using consumeLine_shift [of "length q" "q @ t" "skipHorizontal t 0"] consumeLine_skip [of 0 t] t(2) by simp
  have "\<not> is_break (hd q)" using q by (auto simp: quoted_text_def is_break_def)
  then show ?thesis
    using q t(1) hd c h l
    by (auto simp: scanValue_def Let_def quoted_text_def line_rest_def value_expands_def slice_append nth_append)
qed

lemma value_tail:
  assumes "ve \<le> length d" "line_rest d ve" "se = consumeLine d ve"
  shows "line_rest (slice d ve se) 0 \<and> consumeLine (slice d ve se) 0 = length (slice d ve se)"
proof -
  define D where "D = drop ve d"
  define n where "n = se - ve"
  have le: "ve \<le> se" "se \<le> length d" using consumeLine_ge [of ve d] consumeLine_le [OF assms(1)] assms(3) by auto
  have cD: "consumeLine D 0 = n" using consumeLine_shift [OF assms(1), of 0] assms(3) by (simp add: D_def n_def)
  have rD: "line_rest D 0"
    using assms(2) skip_while_shift [OF assms(1), of isHorizontalSpace 0] assms(1)
    by (auto simp: line_rest_def D_def Let_def skipHorizontal_def)
  have sl: "slice d ve se = take n D" by (simp add: slice_def n_def D_def)
  have nl: "n \<le> length D" using le by (simp add: n_def D_def)
  show ?thesis
  proof (cases "n = length D")
    case True
    then show ?thesis using cD rD by (simp add: sl)
  next
    case False
    define s where "s = take n D"
    have len: "length s = n" using nl by (simp add: s_def)
    have "D \<noteq> []" using False nl by auto
    then have "0 < n" using consumeLine_progress [of 0 D] cD by simp
    moreover have "line_start D n" using consumeLine_end [of 0 D] cD False by auto
    ultimately have "is_break (last s)" using len nl last_conv_nth [of s] \<open>D \<noteq> []\<close> by (auto simp: line_start_def s_def)
    then have seam: "seam s (drop n D) 0" using \<open>0 < n\<close> len by (simp add: seam_def)
    have D: "s @ drop n D = D" by (simp add: s_def)
    have "consumeLine s 0 = length s" using consumeLine_seam [OF seam] cD len by (auto simp: D)
    moreover have "line_rest s 0"
      using skipHorizontal_seam [OF seam] rD len nl by (auto simp: line_rest_def D Let_def seam_def s_def)
    ultimately show ?thesis by (simp add: sl s_def)
  qed
qed

lemma slice_length: "b \<le> length d \<Longrightarrow> length (slice d a b) = b - a"
  by (simp add: slice_def)

lemma slice_nth: "b \<le> length d \<Longrightarrow> i < b - a \<Longrightarrow> slice d a b ! i = d ! (a + i)"
  by (simp add: slice_def)

lemma statement_revalued:
  assumes at: "statement_at d i = Some (k, e, x)" "i < length d" "\<not> is_blank (d ! i)" "d ! i \<noteq> CHR ''#''"
    and blank: "\<And>j. statementStart e \<le> j \<Longrightarrow> j < i \<Longrightarrow> is_blank (d ! j)" and q: "quoted_text q"
  defines "h \<equiv> slice d (statementStart e) (valueStart e)" and "t \<equiv> slice d (valueEnd e) (statementEnd e)"
  shows "readings (h @ q @ t) = Some [(k, strip_break (h @ q @ t), length h, length h + length q, value_expands q)]"
proof -
  note sh = statement_shape [OF at(1,2)]
  define l where "l = statementStart e"
  define i' where "i' = i - l"
  obtain sep ve se where sep: "scan_key d i = Inr (k, sep)" and vs: "valueStart e = skipHorizontal d (Suc sep)"
    using at(1) by (auto simp: statement_at_def Let_def split: sum.splits)
  have sl: "i \<le> sep" "sep < valueStart e"
    using scan_key_ge [OF sep] skip_while_ge [of "Suc sep" isHorizontalSpace d] vs by (auto simp: skipHorizontal_def)
  have le: "l \<le> i" "valueStart e \<le> length d" using sh(2,4-6) by (auto simp: l_def)
  have hl: "length h = valueStart e - l" using le by (simp add: h_def l_def slice_length)
  have hn: "(h @ y) ! j = d ! (l + j)" if "j < length h" for y j
    using that hl le slice_nth [of "valueStart e" d j l] by (simp add: nth_append h_def l_def)
  have dh: "drop l d = h @ drop (valueStart e) d"
    using le sl append_take_drop_id [of "valueStart e - l" "drop l d"] by (simp add: h_def l_def slice_def)
  have "scan_key (drop l d) i' = Inr (k, sep - l)"
  proof -
    have "scan_key d (l + i') = map_sum id (map_prod id ((+) l)) (scan_key (drop l d) i')"
      by (rule scan_key_shift) (use le at(2) in simp)
    then show ?thesis using sep le(1) by (cases "scan_key (drop l d) i'") (auto simp: i'_def)
  qed
  then have key: "scan_key (h @ y) i' = Inr (k, sep - l)" for y
    using scan_key_restrict [of h _ i' k "sep - l"] scan_key_append [of h i' k "sep - l"] sl le hl unfolding dh by auto
  have q0: "q \<noteq> []" "\<not> isHorizontalSpace (q ! 0)" using q by (auto simp: quoted_text_def isHorizontalSpace_def hd_conv_nth)
  have start: "skipHorizontal (h @ q @ t) (Suc (sep - l)) = length h"
  proof -
    have "isHorizontalSpace ((h @ q @ t) ! j)" if "Suc (sep - l) \<le> j" "j < length h" for j
      using hn that skip_while_run_chars [of "Suc sep" "l + j" isHorizontalSpace d] vs hl sl le by (simp add: skipHorizontal_def)
    then have "skipHorizontal (h @ q @ t) (Suc (sep - l)) = skipHorizontal (h @ q @ t) (length h)"
      unfolding skipHorizontal_def by (intro skip_while_run) (use sl le hl in auto)
    also have "\<dots> = length h"
      unfolding skipHorizontal_def by (rule skip_while_stop) (use q0 in \<open>auto simp: nth_append\<close>)
    finally show ?thesis .
  qed
  have tail: "line_rest t 0" "consumeLine t 0 = length t"
    using value_tail [OF _ sh(9,7)] sh(5,6) by (auto simp: t_def)
  have val: "scanValue (h @ q @ t) (length h) = Inr (length h + length q, length (h @ q @ t), value_expands q)"
    using scanValue_shift [of "length h" "h @ q @ t" 0] scanValue_quoted [OF q tail] by simp
  have il: "i' < length h" using sl hl le by (simp add: i'_def)
  have nb: "\<not> is_break ((h @ q @ t) ! j)" if "j < i'" for j
    using hn [of j] that il currentLineStart_no_break [of d i "l + j"] sh(1) le by (simp add: l_def i'_def)
  have "statement_at (h @ q @ t) i' =
      Some (k, \<lparr>statementStart = 0, statementEnd = length (h @ q @ t), valueStart = length h, valueEnd = length h + length q\<rparr>, value_expands q)"
    using key [of "q @ t"] start val currentLineStart_zero [of i' "h @ q @ t"] nb by (simp add: statement_at_def Let_def)
  then have "readings (h @ q @ t) = Some [reading (h @ q @ t)
      (k, \<lparr>statementStart = 0, statementEnd = length (h @ q @ t), valueStart = length h, valueEnd = length h + length q\<rparr>, value_expands q)]"
  proof (rule single_reading)
    show "is_blank ((h @ q @ t) ! j)" if "j < i'" for j using that hn [of j] il blank [of "l + j"] by (simp add: i'_def l_def)
    show "\<not> is_blank ((h @ q @ t) ! i')" "(h @ q @ t) ! i' \<noteq> CHR ''#''" using hn [of i'] il at(3,4) le by (auto simp: i'_def)
  qed (use il in auto)
  then show ?thesis by (simp add: reading_def slice_def)
qed

subsection \<open>Editing statement by statement\<close>

text \<open>What happens to a key: \<open>None\<close> keeps its statement, \<open>Some None\<close> removes it, and
  \<open>Some (Some q)\<close> replaces the text of its value by \<open>q\<close>.\<close>

type_synonym decision = "bytes \<Rightarrow> bytes option option"

fun edit_text :: "decision \<Rightarrow> bytes \<Rightarrow> nat \<Rightarrow> statement list \<Rightarrow> bytes" where
  "edit_text plan raw p [] = drop p raw"
| "edit_text plan raw p ((k, e, x) # ss) =
     (case plan k of
        None \<Rightarrow> slice raw p (statementEnd e)
      | Some None \<Rightarrow> slice raw p (statementStart e)
      | Some (Some q) \<Rightarrow> slice raw p (valueStart e) @ q @ slice raw (valueEnd e) (statementEnd e)) @
     edit_text plan raw (statementEnd e) ss"

definition revalued :: "reading \<Rightarrow> bytes \<Rightarrow> reading" where
  "revalued r q = (case r of (k, body, a, b, x) \<Rightarrow> (k, take a body @ q @ drop b body, a, a + length q, value_expands q))"

fun edit_readings :: "decision \<Rightarrow> reading list \<Rightarrow> reading list" where
  "edit_readings plan [] = []"
| "edit_readings plan (r # rs) =
     (case plan (fst r) of
        None \<Rightarrow> r # edit_readings plan rs
      | Some None \<Rightarrow> edit_readings plan rs
      | Some (Some q) \<Rightarrow> revalued r q # edit_readings plan rs)"

lemma slice_join: "a \<le> b \<Longrightarrow> b \<le> c \<Longrightarrow> c \<le> length d \<Longrightarrow> slice d a b @ slice d b c = slice d a c"
proof -
  assume h: "a \<le> b" "b \<le> c" "c \<le> length d"
  have "slice d a c = take ((b - a) + (c - b)) (drop a d)" using h by (simp add: slice_def)
  also have "\<dots> = slice d a b @ slice d b c" using h unfolding take_add slice_def by simp
  finally show ?thesis by simp
qed

lemma strip_break_id: "s \<noteq> [] \<Longrightarrow> \<not> is_break (last s) \<Longrightarrow> strip_break s = s"
  by (cases s rule: rev_cases) (auto simp: strip_break_def)

lemma strip_break_append: "s \<noteq> [] \<Longrightarrow> \<not> is_break (last s) \<Longrightarrow> strip_break (s @ t) = s @ strip_break t"
proof (induction t rule: rev_induct)
  case Nil
  then show ?case by (simp add: strip_break_id) (simp add: strip_break_def)
next
  case (snoc c t)
  show ?case
  proof (cases "is_break c")
    case True
    then show ?thesis using snoc strip_break_snoc [of c "s @ t"] by simp
  next
    case False
    then show ?thesis using strip_break_id [of "s @ t @ [c]"] strip_break_id [of "t @ [c]"] by simp
  qed
qed

fun spans :: "bytes \<Rightarrow> nat \<Rightarrow> statement list \<Rightarrow> bool" where
  "spans raw p [] = True"
| "spans raw p ((k, e, x) # ss) \<longleftrightarrow>
     p \<le> statementStart e \<and> statementStart e < valueStart e \<and> valueStart e \<le> valueEnd e \<and> valueEnd e \<le> statementEnd e \<and>
     statementEnd e \<le> length raw \<and> (valueEnd e < statementEnd e \<or> statementEnd e = length raw \<and> ss = []) \<and>
     \<not> is_break (raw ! (valueEnd e - 1)) \<and> (ss \<noteq> [] \<longrightarrow> statementEnd e < length raw) \<and> spans raw (statementEnd e) ss"

lemma spans_mono: "spans raw p ss \<Longrightarrow> q \<le> p \<Longrightarrow> spans raw q ss"
  by (cases "(raw, p, ss)" rule: spans.cases) auto

lemma statements_spans:
  "line_start raw p \<Longrightarrow> statements raw p = Some ss \<Longrightarrow> spans raw p ss"
proof (induction "length raw - p" arbitrary: p ss rule: less_induct)
  case less
  have rest: "spans raw q ts" if "p < q" "q = length raw \<or> line_start raw q" "statements raw q = Some ts" for q ts
    using that less(1) [of q ts] by (cases "q = length raw") (auto simp: line_start_def)
  show ?case
  proof (cases rule: statements_cases [of raw p])
    case (comment i)
    have "p < consumeLine raw i" using comment(2,3) consumeLine_progress [of i raw] by simp
    moreover have "consumeLine raw i = length raw \<or> line_start raw (consumeLine raw i)" using comment(3) by (intro consumeLine_end) simp
    moreover have "statements raw (consumeLine raw i) = Some ss" using comment(5) less(3) by simp
    ultimately have "spans raw (consumeLine raw i) ss" by (rule rest)
    then show ?thesis by (rule spans_mono) (use \<open>p < consumeLine raw i\<close> in simp)
  next
    case (statement i k e x)
    then obtain ts where ts: "statements raw (statementEnd e) = Some ts" "ss = (k, e, x) # ts"
      using less(3) by (cases "statements raw (statementEnd e)") auto
    note sh = statement_shape [OF statement(5,3)]
    have "spans raw (statementEnd e) ts" using rest [of "statementEnd e" ts] sh statement(2) ts(1) by auto
    moreover have "statementEnd e < length raw" if "ts \<noteq> []" using that ts(1) sh(6) by (cases "statementEnd e = length raw") auto
    moreover have "p \<le> statementStart e" using currentLineStart_ge [OF less(2) statement(2)] sh(1) by simp
    ultimately show ?thesis using sh ts by auto
  qed (use less(3) in auto)
qed

lemma edit_text_from:
  assumes "spans raw q ss" "p \<le> q" "q \<le> length raw"
  shows "edit_text plan raw p ss = slice raw p q @ edit_text plan raw q ss"
proof (cases ss)
  case Nil
  have "slice raw p q @ drop q raw = slice raw p q @ slice raw q (length raw)" by (simp add: slice_def)
  also have "\<dots> = drop p raw" using slice_join [of p q "length raw" raw] assms by (simp add: slice_def)
  finally show ?thesis using Nil by simp
next
  case (Cons t ts)
  obtain k e x where t: "t = (k, e, x)" by (cases t)
  have j: "slice raw p X = slice raw p q @ slice raw q X" if "q \<le> X" "X \<le> length raw" for X
    using slice_join [of p q X raw] assms(2) that by simp
  have "q \<le> statementStart e" "q \<le> valueStart e" "q \<le> statementEnd e" "statementStart e \<le> length raw"
      "valueStart e \<le> length raw" "statementEnd e \<le> length raw"
    using assms(1) Cons t by auto
  with j [of "statementStart e"] j [of "valueStart e"] j [of "statementEnd e"]
  show ?thesis unfolding Cons t edit_text.simps by (cases "plan k") (auto split: option.splits)
qed

lemma closed_slice: "line_start raw q \<Longrightarrow> closed_text (slice raw p q)"
proof (cases "p < q")
  case True
  assume "line_start raw q"
  then have "q \<le> length raw" "is_break (raw ! (q - 1))" using True by (auto simp: line_start_def)
  moreover have "slice raw p q \<noteq> []" using True calculation by (simp add: slice_def)
  ultimately show ?thesis
    using True last_conv_nth [of "slice raw p q"] slice_nth [of q raw "q - p - 1" p] slice_length [of q raw p]
    by (auto simp: closed_text_def)
next
  case False
  then show ?thesis by (simp add: closed_text_def slice_def)
qed

lemma revalued_reading:
  assumes sp: "spans raw p ((k, e, x) # ss)" and q: "quoted_text q"
  defines "h \<equiv> slice raw (statementStart e) (valueStart e)" and "t \<equiv> slice raw (valueEnd e) (statementEnd e)"
  shows "revalued (reading raw (k, e, x)) q = (k, strip_break (h @ q @ t), length h, length h + length q, value_expands q)"
proof -
  let ?hv = "slice raw (statementStart e) (valueEnd e)"
  have le: "statementStart e < valueStart e" "valueStart e \<le> valueEnd e" "valueEnd e \<le> statementEnd e" "statementEnd e \<le> length raw"
    and nb: "\<not> is_break (raw ! (valueEnd e - 1))" using sp by auto
  have hl: "length h = valueStart e - statementStart e" using le by (simp add: h_def slice_length)
  have hv: "?hv = h @ slice raw (valueStart e) (valueEnd e)" using le by (simp add: h_def slice_join)
  have hvl: "length ?hv = valueEnd e - statementStart e" using le by (simp add: slice_length)
  have "slice raw (statementStart e) (statementEnd e) = ?hv @ t" using le by (simp add: t_def slice_join)
  moreover have "?hv \<noteq> []" using le hvl by auto
  moreover have "last ?hv = raw ! (valueEnd e - 1)"
    using le hvl slice_nth [of "valueEnd e" raw "valueEnd e - statementStart e - 1" "statementStart e"] last_conv_nth [of ?hv] \<open>?hv \<noteq> []\<close>
    by simp
  ultimately have body: "strip_break (slice raw (statementStart e) (statementEnd e)) = ?hv @ strip_break t"
    using nb strip_break_append [of ?hv t] by simp
  have "\<not> is_break (last q)"
  proof -
    have c: "closing_quote q (hd q) 1 = Some (length q - 1)" "q \<noteq> []" using q by (auto simp: quoted_text_def)
    from closing_quote_Some [OF c(1)] c(2) have "last q = hd q" by (simp add: last_conv_nth)
    then show ?thesis using q by (auto simp: quoted_text_def is_break_def)
  qed
  moreover have "h @ q \<noteq> []" "last (h @ q) = last q" using q by (auto simp: quoted_text_def)
  ultimately have "strip_break (h @ q @ t) = h @ q @ strip_break t" using strip_break_append [of "h @ q" t] by simp
  then show ?thesis using body hl hvl hv by (simp add: revalued_def reading_def)
qed

lemma closed_append: "closed_text t \<Longrightarrow> t \<noteq> [] \<Longrightarrow> closed_text (s @ t)"
  by (simp add: closed_text_def)

lemma skipWhitespace_chars:
  assumes "i = skipWhitespace d p" "i < length d"
  shows "\<not> is_blank (d ! i)" "p \<le> j \<Longrightarrow> j < i \<Longrightarrow> is_blank (d ! j)"
  using assms skip_while_stops [of is_blank d p] skip_while_run_chars [of p j is_blank d] by (auto simp: skipWhitespace_def)

text \<open>The edited text reads as the edited statements.\<close>

lemma edit_text_readings:
  assumes q: "\<And>k q. plan k = Some (Some q) \<Longrightarrow> quoted_text q"
  shows "line_start raw p \<Longrightarrow> statements raw p = Some ss \<Longrightarrow>
    readings (edit_text plan raw p ss) = Some (edit_readings plan (map (reading raw) ss))"
proof (induction "length raw - p" arbitrary: p ss rule: less_induct)
  case less
  have rest: "readings (edit_text plan raw r ts) = Some (edit_readings plan (map (reading raw) ts))"
    if "p < r" "r = length raw \<or> line_start raw r" "statements raw r = Some ts" for r ts
    using that less(1) [of r ts] by (cases "r = length raw") (auto simp: line_start_def)
  have pl: "p \<le> length raw" using less(2) by (simp add: line_start_def)
  show ?case
  proof (cases rule: statements_cases [of raw p])
    case ended
    have "is_blank (drop p raw ! j)" if "j < length (drop p raw)" for j
      using skip_while_run_chars [of p "p + j" is_blank raw] ended(1) that pl by (simp add: skipWhitespace_def)
    then have "list_all is_blank (drop p raw)" by (simp add: list_all_length)
    then show ?thesis using ended less(3) blank_readings by auto
  next
    case (comment i)
    let ?r = "consumeLine raw i"
    have r: "p < ?r" "?r \<le> length raw" "?r = length raw \<or> line_start raw ?r"
      using comment(2,3) consumeLine_progress [of i raw] consumeLine_le [of i raw] consumeLine_end [of i raw] by auto
    have ss: "statements raw ?r = Some ss" using comment(5) less(3) by simp
    note IH = rest [OF r(1,3) ss]
    have sp: "spans raw ?r ss" using r(3) ss statements_spans by auto
    have t: "edit_text plan raw p ss = slice raw p ?r @ edit_text plan raw ?r ss"
      by (rule edit_text_from [OF sp]) (use r in auto)
    have g: "readings (slice raw p ?r) = Some []" by (rule comment_readings [OF comment(1-4)])
    show ?thesis
    proof (cases "?r = length raw")
      case True
      then show ?thesis using t g ss by simp
    next
      case False
      then have "closed_text (slice raw p ?r)" using r(3) by (intro closed_slice) simp
      then show ?thesis unfolding t using readings_append [OF _ g] IH by simp
    qed
  next
    case (malformed i)
    with less(3) show ?thesis by simp
  next
    case (statement i k e x)
    then obtain ts where ts: "statements raw (statementEnd e) = Some ts" "ss = (k, e, x) # ts"
      using less(3) by (cases "statements raw (statementEnd e)") auto
    note sh = statement_shape [OF statement(5,3)]
    note bl = skipWhitespace_chars [OF statement(1,3)]
    have sp: "spans raw p ((k, e, x) # ts)" using statements_spans [OF less(2,3)] ts(2) by simp
    have ps: "p \<le> statementStart e" using sp by simp
    have blank: "is_blank (raw ! j)" if "statementStart e \<le> j" "j < i" for j using bl(2) [of j] ps that by simp
    let ?g = "slice raw p (statementStart e)"
    let ?R = "edit_text plan raw (statementEnd e) ts"
    have R: "readings ?R = Some (edit_readings plan (map (reading raw) ts))"
      using rest [OF _ _ ts(1)] sh(2,3-6,11) ps by auto
    have g: "readings ?g = Some []" "closed_text ?g"
    proof -
      have "list_all is_blank ?g"
        using bl(2) sh(2) statement(3) ps by (auto simp: list_all_length slice_length slice_nth)
      then show "readings ?g = Some []" by (rule blank_readings)
      show "closed_text ?g" using currentLineStart_line_start [of i raw] statement(3) sh(1) by (intro closed_slice) simp
    qed
    have piece: "readings (w @ ?R) = Some (os @ edit_readings plan (map (reading raw) ts))"
      if "readings w = Some os" "statementEnd e < length raw \<Longrightarrow> closed_text w" for w os
    proof (cases "statementEnd e = length raw")
      case True
      then show ?thesis using that(1) ts(1) by simp
    next
      case False
      then have "closed_text w" using that(2) sh(6) by simp
      then show ?thesis using readings_append [OF _ that(1)] R by simp
    qed
    have gap: "readings (?g @ w) = readings w" for w using readings_append [OF g(2,1), of w] by (cases "readings w") auto
    consider (keep) "plan k = None" | (remove) "plan k = Some None" | (replace) v where "plan k = Some (Some v)" by (cases "plan k") auto
    then show ?thesis
    proof cases
      case keep
      have "slice raw p (statementEnd e) = ?g @ slice raw (statementStart e) (statementEnd e)" using sp by (simp add: slice_join)
      then show ?thesis
        using piece [OF statement_alone [OF statement(5,3) bl(1) statement(4) blank]] keep ts sh(6,11) gap closed_slice
        by (auto simp: reading_def)
    next
      case remove
      then show ?thesis using ts gap R by (simp add: reading_def)
    next
      case (replace v)
      let ?h = "slice raw (statementStart e) (valueStart e)" and ?t = "slice raw (valueEnd e) (statementEnd e)"
      have "slice raw p (valueStart e) = ?g @ ?h" using sp by (simp add: slice_join)
      moreover have "closed_text (?h @ v @ ?t)" if "statementEnd e < length raw"
        using that sh(6,8,11) closed_slice [of raw "statementEnd e" "valueEnd e"] closed_append [of ?t "?h @ v"]
        by (auto simp: slice_def)
      moreover have "readings (?h @ v @ ?t) = Some [revalued (reading raw (k, e, x)) v]"
        using statement_revalued [OF statement(5,3) bl(1) statement(4) blank q [OF replace]] revalued_reading [OF sp q [OF replace]] by simp
      ultimately show ?thesis
        using piece [of "?h @ v @ ?t"] replace ts gap by (simp add: reading_def)
    qed
  qed
qed

end
