(* ===== verification/Dotenv_Splice.thy ===== *)
theory Dotenv_Splice
  imports Dotenv_Edit "HOL-Library.Multiset"
begin

text \<open>
  From the changes of a request to the candidate bytes: the edits that \<open>dotenv_Apply\<close> collects in
  the order of the changes, sorts, merges and writes are the statement-by-statement edits of the
  file, up to line breaks at its end.
\<close>

definition runtime_ok :: "dotenv_runtime \<Rightarrow> bool" where
  "runtime_ok rt \<longleftrightarrow> (\<forall>es. mset (range_entries rt es) = mset es) \<and>
     (\<forall>es. mset (sort_edits rt es) = mset es \<and> sorted (map edit_start (sort_edits rt es)))"

subsection \<open>Writing edits\<close>

fun edits_chain :: "nat \<Rightarrow> dotenv_edit list \<Rightarrow> bool" where
  "edits_chain p [] \<longleftrightarrow> True"
| "edits_chain p (e # es) \<longleftrightarrow> p \<le> edit_start e \<and> edit_start e \<le> edit_end e \<and> edits_chain (edit_end e) es"

fun edits_end :: "nat \<Rightarrow> dotenv_edit list \<Rightarrow> nat" where
  "edits_end p [] = p"
| "edits_end p (e # es) = edits_end (edit_end e) es"

fun written :: "bytes \<Rightarrow> nat \<Rightarrow> dotenv_edit list \<Rightarrow> bytes" where
  "written raw p [] = []"
| "written raw p (e # es) = slice raw p (edit_start e) @ edit_replacement e @ written raw (edit_end e) es"

lemma edits_chain_append: "edits_chain p (es @ fs) \<longleftrightarrow> edits_chain p es \<and> edits_chain (edits_end p es) fs"
  by (induction es arbitrary: p) auto

lemma edits_end_append [simp]: "edits_end p (es @ fs) = edits_end (edits_end p es) fs"
  by (induction es arbitrary: p) auto

lemma written_append: "written raw p (es @ fs) = written raw p es @ written raw (edits_end p es) fs"
  by (induction es arbitrary: p) auto

lemma edits_end_ge: "edits_chain p es \<Longrightarrow> p \<le> edits_end p es"
  by (induction es arbitrary: p) (auto intro: le_trans)

lemma edits_chain_mono: "edits_chain p es \<Longrightarrow> q \<le> p \<Longrightarrow> edits_chain q es"
  by (cases es) auto

lemma write_edits_chain:
  "edits_chain p es \<Longrightarrow> edits_end p es \<le> length raw \<Longrightarrow>
     write_edits raw p es = Inr (written raw p es @ drop (edits_end p es) raw)"
proof (induction es arbitrary: p)
  case (Cons e es)
  moreover from Cons have "edit_end e \<le> length raw" using edits_end_ge [of "edit_end e" es] by simp
  ultimately show ?case by (simp add: not_less)
qed simp

lemma merge_edits_chain:
  "edits_chain p es \<Longrightarrow> (acc = [] \<or> edit_end (hd acc) \<le> p) \<Longrightarrow> merge_edits acc (es @ fs) = merge_edits (rev es @ acc) fs"
proof (induction es arbitrary: p acc)
  case (Cons e es)
  then have "merge_edits acc (e # es @ fs) = merge_edits (e # acc) (es @ fs)" by (cases acc) auto
  with Cons show ?case using Cons.IH [of "edit_end e" "e # acc"] by simp
qed simp

subsection \<open>The edits of the statements\<close>

definition statement_edit :: "dotenv_entry \<Rightarrow> bytes option \<Rightarrow> dotenv_edit" where
  "statement_edit e d = (case d of
      None \<Rightarrow> \<lparr>edit_start = statementStart e, edit_end = statementEnd e, edit_replacement = []\<rparr>
    | Some q \<Rightarrow> \<lparr>edit_start = valueStart e, edit_end = valueEnd e, edit_replacement = q\<rparr>)"

fun plain_edits :: "decision \<Rightarrow> statement list \<Rightarrow> dotenv_edit list" where
  "plain_edits plan [] = []"
| "plain_edits plan ((k, e, x) # ss) =
     (case plan k of None \<Rightarrow> [] | Some d \<Rightarrow> [statement_edit e d]) @ plain_edits plan ss"

lemma plain_edits_append: "plain_edits plan (ss @ ts) = plain_edits plan ss @ plain_edits plan ts"
  by (induction plan ss rule: plain_edits.induct) auto

lemma plain_edits_chain: "spans raw p ss \<Longrightarrow> edits_chain p (plain_edits plan ss)"
proof (induction plan ss arbitrary: p rule: plain_edits.induct)
  case (2 plan k e x ss)
  then have rest: "edits_chain (statementEnd e) (plain_edits plan ss)" by simp
  have "edits_chain q (plain_edits plan ss)" if "q \<le> statementEnd e" for q by (rule edits_chain_mono [OF rest that])
  with 2(2) show ?case by (cases "plan k") (auto simp: statement_edit_def split: option.splits)
qed simp

lemma plain_edits_end: "spans raw p ss \<Longrightarrow> p \<le> length raw \<Longrightarrow> edits_end p (plain_edits plan ss) \<le> length raw"
proof (induction plan ss arbitrary: p rule: plain_edits.induct)
  case (2 plan k e x ss)
  have m: "edits_end q (plain_edits plan ss) \<le> length raw" if "q \<le> statementEnd e" for q
    using 2 that by (auto intro!: 2(1) spans_mono [of raw "statementEnd e" ss q])
  from 2(2) m show ?case by (cases "plan k") (auto simp: statement_edit_def split: option.splits)
qed simp

lemma slice_drop: "a \<le> b \<Longrightarrow> b \<le> length d \<Longrightarrow> slice d a b @ drop b d = drop a d"
  using slice_join [of a b "length d" d] by (simp add: slice_def)

lemma edit_text_written:
  "spans raw p ss \<Longrightarrow> p \<le> length raw \<Longrightarrow>
     edit_text plan raw p ss = written raw p (plain_edits plan ss) @ drop (edits_end p (plain_edits plan ss)) raw"
proof (induction plan ss arbitrary: p rule: plain_edits.induct)
  case (2 plan k e x ss)
  let ?w = "\<lambda>q. written raw q (plain_edits plan ss) @ drop (edits_end q (plain_edits plan ss)) raw"
  have sp: "p \<le> statementStart e" "statementStart e < valueStart e" "valueStart e \<le> valueEnd e" "valueEnd e \<le> statementEnd e"
      "statementEnd e \<le> length raw" "spans raw (statementEnd e) ss" using 2(2) by auto
  have IH: "edit_text plan raw q ss = ?w q" if "q \<le> statementEnd e" for q
    by (rule 2(1)) (use sp that in \<open>auto intro: spans_mono\<close>)
  have fr: "edit_text plan raw q ss = slice raw q (statementEnd e) @ edit_text plan raw (statementEnd e) ss" if "q \<le> statementEnd e" for q
    by (rule edit_text_from) (use sp that in auto)
  show ?case
  proof (cases "plan k")
    case None
    then show ?thesis using IH [of p] fr [of p] sp by simp
  next
    case (Some d)
    then show ?thesis
      using IH [of "valueEnd e"] fr [of "valueEnd e"] IH [of "statementEnd e"] sp
      by (cases d) (auto simp: statement_edit_def)
  qed
qed simp

lemma plain_edits_mem: "f \<in> set (plain_edits plan ss) \<Longrightarrow> \<exists>k e x d. (k, e, x) \<in> set ss \<and> plan k = Some d \<and> f = statement_edit e d"
proof (induction plan ss rule: plain_edits.induct)
  case (2 plan k e x ss)
  consider d where "plan k = Some d" "f = statement_edit e d" | "f \<in> set (plain_edits plan ss)"
    using 2(2) by (cases "plan k") auto
  then show ?case
  proof cases
    case 1
    then show ?thesis by force
  next
    case 2
    with \<open>f \<in> set (plain_edits plan ss) \<Longrightarrow> _\<close> show ?thesis by (metis list.set_intros(2))
  qed
qed simp

lemma spans_mem: "spans raw p ss \<Longrightarrow> (k, e, x) \<in> set ss \<Longrightarrow>
  p \<le> statementStart e \<and> statementStart e < valueStart e \<and> valueStart e \<le> valueEnd e \<and> valueEnd e \<le> statementEnd e \<and>
  statementEnd e \<le> length raw \<and> \<not> is_break (raw ! (valueEnd e - 1))"
proof (induction raw p ss rule: spans.induct)
  case (2 raw p k' e' x' ss)
  then show ?case by (cases "(k, e, x) = (k', e', x')") (auto simp del: fst_conv)
qed simp

lemma plain_edits_sorted: "spans raw p ss \<Longrightarrow> sorted_wrt (<) (map edit_start (plain_edits plan ss))"
proof (induction plan ss arbitrary: p rule: plain_edits.induct)
  case (2 plan k e x ss)
  then have rest: "sorted_wrt (<) (map edit_start (plain_edits plan ss))" by auto
  show ?case
  proof (cases "plan k")
    case None
    with rest show ?thesis by simp
  next
    case (Some d)
    have "edit_start (statement_edit e d) < edit_start f" if f: "f \<in> set (plain_edits plan ss)" for f
    proof -
      obtain k' e' x' d' where m: "(k', e', x') \<in> set ss" "f = statement_edit e' d'" using plain_edits_mem [OF f] by blast
      have "statementEnd e \<le> statementStart e'" "statementStart e' < valueStart e'" using spans_mem [of raw "statementEnd e" ss k' e' x'] 2(2) m(1) by auto
      then show ?thesis using 2(2) m by (cases ss) (auto simp: statement_edit_def split: option.splits)
    qed
    with rest Some show ?thesis by simp
  qed
qed simp

subsection \<open>Sorting\<close>

lemma sorted_edits_unique:
  assumes "mset l = mset es" "sorted (map edit_start l)" "sorted_wrt (<) (map edit_start es)"
  shows "l = es"
proof -
  have "distinct (map edit_start es)" "sorted (map edit_start es)"
    using assms(3) strict_sorted_iff by auto
  then have inj: "inj_on edit_start (set l)"
    using assms(1) by (metis distinct_map mset_eq_setD)
  have "sort_key edit_start l = es" by (rule sort_key_inj_key_eq) (use assms inj \<open>sorted (map edit_start es)\<close> in auto)
  moreover have "sort_key edit_start l = l" using sort_key_inj_key_eq [OF refl inj assms(2)] .
  ultimately show ?thesis by simp
qed

lemma sorted_last_edit:
  assumes m: "mset l = mset (es @ [r])" and l: "sorted (map edit_start l)" and es: "sorted_wrt (<) (map edit_start es)"
    and r: "\<And>f. f \<in> set es \<Longrightarrow> edit_start f \<le> edit_start r"
  shows "l = es @ [r] \<or> (\<exists>fs v. es = fs @ [v] \<and> edit_start v = edit_start r \<and> l = fs @ [r, v])"
proof -
  have "r \<in> set l" using m by (metis in_set_conv_decomp mset_eq_setD)
  then obtain a b where ab: "l = a @ r # b" by (meson split_list)
  have "mset (a @ b) = mset es" using m ab by simp
  moreover have "sorted (map edit_start (a @ b))" using l ab by (auto simp: sorted_append)
  ultimately have e: "a @ b = es" using es by (intro sorted_edits_unique)
  have ge: "edit_start r = edit_start f" if "f \<in> set b" for f
    using l ab r [of f] e that by (fastforce simp: sorted_append)
  show ?thesis
  proof (cases b)
    case Nil
    then show ?thesis using ab e by simp
  next
    case (Cons v c)
    have "c = []"
    proof (rule ccontr)
      assume "c \<noteq> []"
      then obtain w where "w \<in> set c" by (cases c) auto
      then have "edit_start v < edit_start w" using es Cons by (auto simp: sorted_wrt_append simp flip: e)
      then show False using ge [of v] ge [of w] Cons \<open>w \<in> set c\<close> by simp
    qed
    then show ?thesis using ab e Cons ge by auto
  qed
qed

subsection \<open>The removal of the last statement\<close>

lemma precedingLineSeparator_breaks:
  "p \<le> length raw \<Longrightarrow> precedingLineSeparator raw p \<le> p \<and>
     (\<forall>i. precedingLineSeparator raw p \<le> i \<longrightarrow> i < p \<longrightarrow> is_break (raw ! i))"
proof -
  assume p: "p \<le> length raw"
  have "i = p - 1" if "p - 1 \<le> i" "i < p" for i using that by linarith
  moreover have "i = p - 1 \<or> i = p - 2" if "p - 2 \<le> i" "i < p" for i using that by linarith
  ultimately show ?thesis unfolding precedingLineSeparator_def is_break_def by (auto simp del: One_nat_def)
qed

lemma readings_breaks: "list_all is_break z \<Longrightarrow> readings (c @ z) = readings c"
proof (induction z rule: rev_induct)
  case (snoc b z)
  then show ?case using readings_snoc [of b "c @ z"] by simp
qed simp

text \<open>The edits of the code: the removal of a last statement without a final line break takes the
  preceding line break with it.\<close>

definition moved_edit :: "bool \<Rightarrow> bytes \<Rightarrow> dotenv_entry \<Rightarrow> bytes option \<Rightarrow> dotenv_edit" where
  "moved_edit final raw e d =
     (if d = None \<and> statementEnd e = length raw \<and> \<not> final
      then (statement_edit e d)\<lparr>edit_start := precedingLineSeparator raw (statementStart e)\<rparr>
      else statement_edit e d)"

fun moved_edits :: "bool \<Rightarrow> bytes \<Rightarrow> decision \<Rightarrow> statement list \<Rightarrow> dotenv_edit list" where
  "moved_edits final raw plan [] = []"
| "moved_edits final raw plan ((k, e, x) # ss) =
     (case plan k of None \<Rightarrow> [] | Some d \<Rightarrow> [moved_edit final raw e d]) @ moved_edits final raw plan ss"

lemma moved_edits_plain:
  assumes "spans raw p ss"
  shows "moved_edits final raw plan ss = plain_edits plan ss \<or>
    (\<exists>ts k e x. ss = ts @ [(k, e, x)] \<and> plan k = Some None \<and> statementEnd e = length raw \<and>
       moved_edits final raw plan ss = plain_edits plan ts @
         [(statement_edit e None)\<lparr>edit_start := precedingLineSeparator raw (statementStart e)\<rparr>])"
  using assms
proof (induction final raw plan ss arbitrary: p rule: moved_edits.induct)
  case (2 final raw plan k e x ss)
  show ?case
  proof (cases "ss = []")
    case True
    then show ?thesis by (cases "plan k") (auto simp: moved_edit_def)
  next
    case False
    then have "moved_edit final raw e d = statement_edit e d" for d using 2(2) by (auto simp: moved_edit_def)
    then have eq: "moved_edits final raw plan ((k, e, x) # ss) =
        (case plan k of None \<Rightarrow> [] | Some d \<Rightarrow> [statement_edit e d]) @ moved_edits final raw plan ss" by (simp split: option.splits)
    have IH: "moved_edits final raw plan ss = plain_edits plan ss \<or>
      (\<exists>ts k e x. ss = ts @ [(k, e, x)] \<and> plan k = Some None \<and> statementEnd e = length raw \<and>
       moved_edits final raw plan ss = plain_edits plan ts @
         [(statement_edit e None)\<lparr>edit_start := precedingLineSeparator raw (statementStart e)\<rparr>])"
      using 2(1) 2(2) by auto
    then show ?thesis
    proof
      assume "moved_edits final raw plan ss = plain_edits plan ss"
      then show ?thesis using eq by simp
    next
      assume "\<exists>ts k e x. ss = ts @ [(k, e, x)] \<and> plan k = Some None \<and> statementEnd e = length raw \<and>
       moved_edits final raw plan ss = plain_edits plan ts @
         [(statement_edit e None)\<lparr>edit_start := precedingLineSeparator raw (statementStart e)\<rparr>]"
      then obtain ts k' e' x' where t: "ss = ts @ [(k', e', x')]" "plan k' = Some None" "statementEnd e' = length raw"
        "moved_edits final raw plan ss = plain_edits plan ts @
         [(statement_edit e' None)\<lparr>edit_start := precedingLineSeparator raw (statementStart e')\<rparr>]" by blast
      then have "(k, e, x) # ss = ((k, e, x) # ts) @ [(k', e', x')]"
        "moved_edits final raw plan ((k, e, x) # ss) = plain_edits plan ((k, e, x) # ts) @
         [(statement_edit e' None)\<lparr>edit_start := precedingLineSeparator raw (statementStart e')\<rparr>]" using eq by simp_all
      with t(2,3) show ?thesis by blast
    qed
  qed
qed simp

lemma value_before_break:
  assumes "spans raw p ts" "(k, e, x) \<in> set ts" "statementEnd e \<le> m" "\<And>i. s \<le> i \<Longrightarrow> i < m \<Longrightarrow> is_break (raw ! i)" "s \<le> m"
  shows "valueEnd e \<le> s"
proof (rule ccontr)
  assume "\<not> ?thesis"
  moreover have "valueEnd e \<le> m" "\<not> is_break (raw ! (valueEnd e - 1))" "0 < valueEnd e"
    using spans_mem [OF assms(1,2)] assms(3) by auto
  ultimately have "s \<le> valueEnd e - 1" "valueEnd e - 1 < m" by linarith+
  with assms(4) \<open>\<not> is_break (raw ! (valueEnd e - 1))\<close> show False by blast
qed

lemma spans_append:
  "spans raw p (ts @ [(k, e, x)]) \<Longrightarrow> spans raw p ts \<and> p \<le> statementStart e \<and>
     statementStart e < statementEnd e \<and> statementEnd e \<le> length raw \<and> (\<forall>(k', e', x') \<in> set ts. statementEnd e' \<le> statementStart e)"
proof (induction raw p ts rule: spans.induct)
  case (2 raw p k' e' x' ts)
  then have IH: "spans raw (statementEnd e') ts \<and> statementEnd e' \<le> statementStart e \<and> statementStart e < statementEnd e \<and>
      statementEnd e \<le> length raw \<and> (\<forall>(k', e', x') \<in> set ts. statementEnd e' \<le> statementStart e)" by auto
  show ?case using 2(2) IH by auto
qed auto

lemma edits_end_last: "edits_end p (es @ [v]) = edit_end v"
  by simp

lemma list_all_slice: "(\<And>i. a \<le> i \<Longrightarrow> i < b \<Longrightarrow> P (raw ! i)) \<Longrightarrow> b \<le> length raw \<Longrightarrow> list_all P (slice raw a b)"
  by (auto simp: list_all_length slice_length slice_nth)

lemma candidate_text:
  assumes sp: "spans raw 0 ss" and q: "\<And>k v. plan k = Some (Some v) \<Longrightarrow> v \<noteq> []"
    and l: "mset l = mset (moved_edits final raw plan ss)" "sorted (map edit_start l)"
    and m: "merge_edits [] l = Inr es" and w: "write_edits raw 0 es = Inr c"
  shows "\<exists>z. list_all is_break z \<and> edit_text plan raw 0 ss = c @ z"
  using moved_edits_plain [OF sp, of final plan]
proof
  assume plain: "moved_edits final raw plan ss = plain_edits plan ss"
  then have "l = plain_edits plan ss" using sorted_edits_unique plain_edits_sorted [OF sp] l by metis
  moreover have ch: "edits_chain 0 (plain_edits plan ss)" by (rule plain_edits_chain [OF sp])
  ultimately have "es = plain_edits plan ss" using merge_edits_chain [OF ch, of "[]" "[]"] m by simp
  then have "c = edit_text plan raw 0 ss"
    using w write_edits_chain [OF ch] plain_edits_end [OF sp] edit_text_written [OF sp] by simp
  then show ?thesis by (intro exI [of _ "[]"]) simp
next
  assume "\<exists>ts k e x. ss = ts @ [(k, e, x)] \<and> plan k = Some None \<and> statementEnd e = length raw \<and>
       moved_edits final raw plan ss = plain_edits plan ts @
         [(statement_edit e None)\<lparr>edit_start := precedingLineSeparator raw (statementStart e)\<rparr>]"
  then obtain ts k e x where ss: "ss = ts @ [(k, e, x)]" and k: "plan k = Some None" and se: "statementEnd e = length raw"
    and mv: "moved_edits final raw plan ss = plain_edits plan ts @
         [(statement_edit e None)\<lparr>edit_start := precedingLineSeparator raw (statementStart e)\<rparr>]" by blast
  define m where "m = statementStart e"
  define s where "s = precedingLineSeparator raw m"
  define fs where "fs = plain_edits plan ts"
  define r where "r = \<lparr>edit_start = s, edit_end = length raw, edit_replacement = []\<rparr>"
  have r: "(statement_edit e None)\<lparr>edit_start := precedingLineSeparator raw (statementStart e)\<rparr> = r"
    by (simp add: r_def s_def m_def statement_edit_def se)
  have spt: "spans raw 0 ts" "m < length raw" "\<And>k' e' x'. (k', e', x') \<in> set ts \<Longrightarrow> statementEnd e' \<le> m"
    using spans_append [of raw 0 ts k e x] sp ss se by (auto simp: m_def)
  have s: "s \<le> m" "\<And>i. s \<le> i \<Longrightarrow> i < m \<Longrightarrow> is_break (raw ! i)"
    using precedingLineSeparator_breaks [of m raw] spt(2) by (auto simp: s_def)
  have ve: "valueEnd e' \<le> s" if "(k', e', x') \<in> set ts" for k' e' x'
    using value_before_break [OF spt(1) that spt(3) [OF that] s(2) s(1)] by blast
  have ch: "edits_chain 0 fs" and fe: "edits_end 0 fs \<le> length raw"
    using plain_edits_chain [OF spt(1)] plain_edits_end [OF spt(1)] by (auto simp: fs_def)
  have edited: "edit_text plan raw 0 ss = written raw 0 fs @ slice raw (edits_end 0 fs) m"
  proof -
    have "plain_edits plan ss = fs @ [\<lparr>edit_start = m, edit_end = length raw, edit_replacement = []\<rparr>]"
      using ss k se by (simp add: plain_edits_append fs_def statement_edit_def m_def)
    then show ?thesis using edit_text_written [OF sp, of plan] by (simp add: written_append)
  qed
  have mem: "(edit_start f < s \<and> edit_end f \<le> m \<and> edit_replacement f = []) \<or> (edit_end f \<le> s \<and> edit_start f \<le> s \<and> edit_replacement f \<noteq> [])"
    if "f \<in> set fs" for f
  proof -
    from that obtain k' e' x' d where "(k', e', x') \<in> set ts" "plan k' = Some d" "f = statement_edit e' d"
      using plain_edits_mem by (force simp: fs_def)
    then show ?thesis using ve [of k' e' x'] spt(3) [of k' e' x'] spans_mem [OF spt(1), of k' e' x'] q [of k']
      by (cases d) (auto simp: statement_edit_def)
  qed
  have "l = fs @ [r] \<or> (\<exists>gs v. fs = gs @ [v] \<and> edit_start v = edit_start r \<and> l = gs @ [r, v])"
  proof (rule sorted_last_edit)
    show "edit_start f \<le> edit_start r" if "f \<in> set fs" for f using mem [OF that] by (auto simp: r_def)
  qed (use l mv r plain_edits_sorted [OF spt(1), of plan] in \<open>auto simp: fs_def\<close>)
  then have lr: "l = fs @ [r]"
  proof
    assume "\<exists>gs v. fs = gs @ [v] \<and> edit_start v = edit_start r \<and> l = gs @ [r, v]"
    then obtain gs v where gs: "fs = gs @ [v]" "edit_start v = s" "l = gs @ [r, v]" by (auto simp: r_def)
    have "edit_replacement v \<noteq> []" using mem [of v] gs by auto
    moreover have "edits_chain 0 gs" "edits_end 0 gs \<le> s" using ch gs by (auto simp: edits_chain_append)
    then have "edits_chain 0 (gs @ [r])" using s(1) spt(2) by (simp add: edits_chain_append r_def)
    then have "merge_edits [] ((gs @ [r]) @ [v]) = merge_edits (rev (gs @ [r])) [v]"
      using merge_edits_chain [of 0 "gs @ [r]" "[]" "[v]"] by simp
    ultimately have "merge_edits [] l = Inl (dotenv_failure CodeInvalidChange)"
      using gs s(1) spt(2) by (simp add: r_def)
    with assms(5) show ?thesis by simp
  qed
  have mer: "merge_edits (rev fs) [r] = Inr es" using merge_edits_chain [OF ch, of "[]" "[r]"] assms(5) lr by simp
  consider (apart) "es = fs @ [r]" "edits_end 0 fs \<le> s"
    | (joined) gs v where "fs = gs @ [v]" "s < edit_end v" "edit_replacement v = []" "es = gs @ [v\<lparr>edit_end := length raw\<rparr>]"
  proof (cases fs rule: rev_cases)
    case Nil
    then show thesis using mer apart by simp
  next
    case (snoc gs v)
    show thesis
    proof (cases "s < edit_end v")
      case True
      moreover have "edit_end v \<le> length raw" using fe snoc by simp
      ultimately show thesis using mer snoc joined [of gs v] by (auto simp: r_def split: if_splits)
    next
      case False
      then show thesis using mer snoc apart by (auto simp: r_def)
    qed
  qed
  then show ?thesis
  proof cases
    case apart
    have "edits_chain 0 es" using apart ch s(1) spt(2) by (simp add: edits_chain_append r_def)
    then have "c = written raw 0 fs @ slice raw (edits_end 0 fs) s"
      using w write_edits_chain [of 0 es raw] apart by (simp add: written_append r_def)
    moreover have "slice raw (edits_end 0 fs) m = slice raw (edits_end 0 fs) s @ slice raw s m"
      using apart(2) s(1) spt(2) by (simp add: slice_join)
    moreover have "list_all is_break (slice raw s m)" using s(2) spt(2) by (intro list_all_slice) auto
    ultimately show ?thesis using edited by auto
  next
    case joined
    have "edit_end v \<le> m" using mem [of v] joined by auto
    have "edits_chain 0 es" using joined ch fe by (auto simp: edits_chain_append)
    then have "c = written raw 0 fs"
      using w write_edits_chain [of 0 es raw] joined by (simp add: written_append)
    moreover have "list_all is_break (slice raw (edit_end v) m)" using s(2) joined(2) spt(2) by (intro list_all_slice) auto
    ultimately show ?thesis using edited joined by auto
  qed
qed

end
