(* ===== verification/Dotenv_Properties.thy ===== *)
theory Dotenv_Properties
  imports Dotenv_Splice
begin

text \<open>
  What the dotenv editor promises: an accepted edit changes exactly the values that were asked for,
  in the file that the parser reads back, and leaves every other statement as it was; a document
  edited with no changes is returned byte for byte; the spans of a parsed document are ordered and
  disjoint; the order of two changes can decide whether the edit is accepted.
\<close>

subsection \<open>What the code relies on in godotenv\<close>

definition value_in :: "dotenv_runtime \<Rightarrow> bytes \<Rightarrow> bytes \<Rightarrow> bytes option" where
  "value_in rt s k = Option.bind (godotenv_Parse rt s) (\<lambda>parsed. parsed k)"

text \<open>A line break after a statement does not change what is parsed; the value of a quoted
  statement depends only on the quoted text; a quoted value without a closing quote is an error.\<close>

definition godotenv_laws :: "dotenv_runtime \<Rightarrow> bool" where
  "godotenv_laws rt \<longleftrightarrow>
     (\<forall>s r b. readings s = Some [r] \<longrightarrow> is_break b \<longrightarrow> godotenv_Parse rt (s @ [b]) = godotenv_Parse rt s) \<and>
     (\<forall>s s' k body i j x k' body' i' j' x'.
        readings s = Some [(k, body, i, j, x)] \<longrightarrow> readings s' = Some [(k', body', i', j', x')] \<longrightarrow>
        slice body i j = slice body' i' j' \<longrightarrow> quoted_text (slice body i j) \<longrightarrow> value_in rt s k = value_in rt s' k') \<and>
     (\<forall>q. q \<noteq> [] \<longrightarrow> hd q = single_quote \<or> hd q = double_quote \<longrightarrow> closing_quote q (hd q) 1 = None \<longrightarrow>
        godotenv_Parse rt (''ACMEMUX_VALUE='' @ q) = None)"

lemma law_break: "godotenv_laws rt \<Longrightarrow> readings s = Some [r] \<Longrightarrow> is_break b \<Longrightarrow> godotenv_Parse rt (s @ [b]) = godotenv_Parse rt s"
  unfolding godotenv_laws_def by blast

lemma law_local:
  "godotenv_laws rt \<Longrightarrow> readings s = Some [(k, body, i, j, x)] \<Longrightarrow> readings s' = Some [(k', body', i', j', x')] \<Longrightarrow>
     slice body i j = slice body' i' j' \<Longrightarrow> quoted_text (slice body i j) \<Longrightarrow> value_in rt s k = value_in rt s' k'"
  unfolding godotenv_laws_def by blast

lemma law_unterminated:
  "godotenv_laws rt \<Longrightarrow> q \<noteq> [] \<Longrightarrow> hd q = single_quote \<or> hd q = double_quote \<Longrightarrow> closing_quote q (hd q) 1 = None \<Longrightarrow>
     godotenv_Parse rt (''ACMEMUX_VALUE='' @ q) = None"
  unfolding godotenv_laws_def by blast

subsection \<open>Planning the changes\<close>

definition decided :: "dotenv_runtime \<Rightarrow> dotenv_change list \<Rightarrow> decision" where
  "decided rt changes k =
     (case find (\<lambda>c. change_key c = k) changes of
        None \<Rightarrow> None
      | Some c \<Rightarrow> (case change_action c of ActionReplace \<Rightarrow> Some (encodeValue rt (change_value c)) | _ \<Rightarrow> Some None))"

definition change_ok :: "dotenv_runtime \<Rightarrow> dotenv_document \<Rightarrow> dotenv_change \<Rightarrow> bool" where
  "change_ok rt document c \<longleftrightarrow> change_key c \<in> set (doc_allowed document) \<and>
     (change_action c = ActionRemove \<or> change_action c = ActionReplace \<and> encodeValue rt (change_value c) \<noteq> None)"

definition change_decision :: "dotenv_runtime \<Rightarrow> dotenv_change \<Rightarrow> bytes option" where
  "change_decision rt c = (if change_action c = ActionReplace then encodeValue rt (change_value c) else None)"

definition change_edits :: "dotenv_runtime \<Rightarrow> dotenv_document \<Rightarrow> bytes \<Rightarrow> dotenv_change \<Rightarrow> dotenv_edit list" where
  "change_edits rt document raw c =
     (case map_of (doc_entries document) (change_key c) of
        None \<Rightarrow> []
      | Some e \<Rightarrow> [moved_edit (doc_finalNewline document) raw e (change_decision rt c)])"

definition change_new :: "dotenv_runtime \<Rightarrow> dotenv_document \<Rightarrow> dotenv_change \<Rightarrow> (bytes \<times> bytes) list" where
  "change_new rt document c =
     (case change_decision rt c of
        Some q \<Rightarrow> if map_of (doc_entries document) (change_key c) = None then [(change_key c, q)] else []
      | None \<Rightarrow> [])"

lemma plan_change_spec:
  assumes "plan_change rt document raw c st = Inr st'"
  shows "change_ok rt document c \<and> change_key c \<notin> set (plan_seen st) \<and> plan_seen st' = change_key c # plan_seen st \<and>
    plan_edits st' = plan_edits st @ change_edits rt document raw c \<and> plan_new st' = plan_new st @ change_new rt document c"
  using assms
  by (auto simp: plan_change_def Let_def plan_replace_def plan_remove_def change_ok_def change_edits_def change_new_def
      change_decision_def moved_edit_def statement_edit_def removal_start_def
      split: if_splits dotenv_action.splits option.splits)

lemma plan_changes_spec:
  "plan_changes rt document raw cs st = Inr plan \<Longrightarrow>
     list_all (change_ok rt document) cs \<and> distinct (map change_key cs) \<and> set (map change_key cs) \<inter> set (plan_seen st) = {} \<and>
     plan_edits plan = plan_edits st @ concat (map (change_edits rt document raw) cs) \<and>
     plan_new plan = plan_new st @ concat (map (change_new rt document) cs)"
proof (induction cs arbitrary: st)
  case (Cons c cs)
  then obtain st' where st': "plan_change rt document raw c st = Inr st'" "plan_changes rt document raw cs st' = Inr plan"
    by (auto simp: result_simps)
  from plan_change_spec [OF st'(1)] Cons.IH [OF st'(2)] show ?case by auto
qed simp

lemma find_SomeD: "find P xs = Some x \<Longrightarrow> x \<in> set xs \<and> P x"
  by (induction xs) (auto split: if_splits)

lemma find_key: "distinct (map change_key cs) \<Longrightarrow> c \<in> set cs \<Longrightarrow> find (\<lambda>d. change_key d = change_key c) cs = Some c"
  by (induction cs) auto

lemma decided_mem:
  assumes "distinct (map change_key cs)" "list_all (change_ok rt document) cs" "c \<in> set cs"
  shows "decided rt cs (change_key c) = Some (change_decision rt c)"
  using find_key [OF assms(1,3)] assms(2,3)
  by (auto simp: decided_def change_decision_def change_ok_def list_all_iff split: dotenv_action.splits)

lemma decided_None: "decided rt cs k = None \<longleftrightarrow> k \<notin> change_key ` set cs"
  by (auto simp: decided_def find_None_iff split: option.splits dotenv_action.splits dest!: find_SomeD)

text \<open>The edits of the changes are those of the statements, in another order.\<close>

definition key_edit :: "bool \<Rightarrow> bytes \<Rightarrow> decision \<Rightarrow> (bytes \<rightharpoonup> dotenv_entry) \<Rightarrow> bytes \<Rightarrow> dotenv_edit" where
  "key_edit final raw plan entries k = moved_edit final raw (the (entries k)) (the (plan k))"

lemma moved_edits_keys:
  assumes "distinct (map fst ss)"
  shows "moved_edits final raw plan ss =
    map (key_edit final raw plan (map_of (map (\<lambda>(k, e, x). (k, e)) ss))) (filter (\<lambda>k. plan k \<noteq> None) (map fst ss))"
proof -
  have "moved_edits final raw plan ts =
      map (key_edit final raw plan (map_of (map (\<lambda>(k, e, x). (k, e)) ss))) (filter (\<lambda>k. plan k \<noteq> None) (map fst ts))"
    if "set ts \<subseteq> set ss" for ts
    using that
  proof (induction final raw plan ts rule: moved_edits.induct)
    case (2 final raw plan k e x ts)
    have "map_of (map (\<lambda>(k, e, x). (k, e)) ss) k = Some e"
    proof (rule map_of_is_SomeI)
      show "distinct (map fst (map (\<lambda>(k, e, x). (k, e)) ss))" using assms by (simp add: comp_def case_prod_unfold)
      show "(k, e) \<in> set (map (\<lambda>(k, e, x). (k, e)) ss)" using 2(2) by force
    qed
    with 2 show ?case by (cases "plan k") (auto simp: key_edit_def)
  qed simp
  then show ?thesis by simp
qed

lemma change_edits_keys:
  assumes "distinct (map change_key cs)" "list_all (change_ok rt document) cs"
  shows "concat (map (change_edits rt document raw) cs) =
    map (key_edit (doc_finalNewline document) raw (decided rt cs) (map_of (doc_entries document)))
      (filter (\<lambda>k. map_of (doc_entries document) k \<noteq> None) (map change_key cs))"
proof -
  have "concat (map (change_edits rt document raw) ds) =
    map (key_edit (doc_finalNewline document) raw (decided rt cs) (map_of (doc_entries document)))
      (filter (\<lambda>k. map_of (doc_entries document) k \<noteq> None) (map change_key ds))" if "set ds \<subseteq> set cs" for ds
    using that
  proof (induction ds)
    case (Cons c ds)
    then show ?case using decided_mem [OF assms, of c] by (auto simp: change_edits_def key_edit_def split: option.splits)
  qed simp
  then show ?thesis by simp
qed

lemma map_of_managed:
  assumes "k \<in> set allowed"
  shows "map_of (managed_entries allowed ss) k = map_of (map (\<lambda>(k, e, x). (k, e)) ss) k"
  by (induction ss) (auto simp: managed_entries_def assms)

lemma map_of_entries_None: "map_of (map (\<lambda>(k, e, x). (k, e)) ss) k = None \<longleftrightarrow> k \<notin> set (map fst ss)"
  by (induction ss) auto

lemma planned_edits:
  assumes plan: "distinct (map change_key cs)" "list_all (change_ok rt document) cs"
    and doc: "doc_entries document = managed_entries (doc_allowed document) ss" and ss: "distinct (map fst ss)"
  shows "mset (concat (map (change_edits rt document raw) cs)) = mset (moved_edits (doc_finalNewline document) raw (decided rt cs) ss)"
proof -
  let ?E = "map_of (doc_entries document)" and ?F = "map_of (map (\<lambda>(k, e, x). (k, e)) ss)"
  let ?A = "filter (\<lambda>k. ?E k \<noteq> None) (map change_key cs)" and ?B = "filter (\<lambda>k. decided rt cs k \<noteq> None) (map fst ss)"
  have al: "k \<in> set (doc_allowed document)" if "k \<in> change_key ` set cs" for k
    using that plan(2) by (auto simp: list_all_iff change_ok_def)
  have EF: "?E k = ?F k" if "k \<in> change_key ` set cs" for k using map_of_managed [OF al [OF that]] doc by simp
  have "k \<in> set ?A \<longleftrightarrow> k \<in> set ?B" for k
    using EF [of k] map_of_entries_None [of ss k] decided_None [of rt cs k] by auto
  then have sets: "set ?A = set ?B" by blast
  moreover have "distinct ?A" "distinct ?B" using plan(1) ss by auto
  ultimately have m: "mset ?A = mset ?B" using set_eq_iff_mset_eq_distinct by blast
  have "key_edit f raw (decided rt cs) ?E k = key_edit f raw (decided rt cs) ?F k" if "k \<in> set ?A" for f k
    using EF [of k] that by (auto simp: key_edit_def)
  then have "map (key_edit f raw (decided rt cs) ?E) ?A = map (key_edit f raw (decided rt cs) ?F) ?A" for f by (intro map_cong) auto
  moreover have "mset (map g ?A) = mset (map g ?B)" for g :: "bytes \<Rightarrow> dotenv_edit" using m unfolding mset_map by simp
  ultimately show ?thesis unfolding change_edits_keys [OF plan] moved_edits_keys [OF ss] by presburger
qed

subsection \<open>New lines\<close>

lemma validKey_chars: "validKey k \<Longrightarrow> c \<in> set k \<Longrightarrow> upper_letter c \<or> c = CHR ''_'' \<or> decimal_digit c"
  by (auto simp: validKey_def list_all_iff in_set_conv_nth)

lemma rune_chunks_ascii: "rune_chunks (map (\<lambda>c. (byte c, Suc 0)) s) s = map (\<lambda>c. (byte c, [c])) s"
  by (induction s) auto

lemma TrimSpace_plain:
  assumes "\<And>c. c \<in> set s \<Longrightarrow> byte c < 128 \<and> \<not> IsSpace (byte c)"
  shows "TrimSpace s = s"
proof -
  have a: "ascii s" using assms by (auto simp: ascii_def list_all_iff)
  have "dropWhile (IsSpace \<circ> fst) (map (\<lambda>c. (byte c, [c])) t) = map (\<lambda>c. (byte c, [c])) t" if "set t \<subseteq> set s" for t
    using that assms by (cases t) auto
  from this [of s] this [of "rev s"] have "TrimSpace s = concat (map (\<lambda>c. [c]) s)"
    by (simp add: TrimSpace_def runes_ascii [OF a] rune_chunks_ascii rev_map comp_def)
  then show ?thesis by simp
qed

lemma validKey_source: "validKey k \<Longrightarrow> validSourceKey k"
  using validKey_chars [of k] by (auto simp: validSourceKey_def validKey_def list_all_iff)

lemma validKey_plain:
  assumes "validKey k" "c \<in> set k"
  shows "byte c < 128" "\<not> IsSpace (byte c)" "c \<noteq> CHR ''=''" "c \<noteq> CHR '':''" "c \<noteq> CHR ''e''" "c \<noteq> CHR ''#''" "\<not> is_blank c"
  using validKey_chars [OF assms]
  by (auto simp: upper_letter_def decimal_digit_def IsSpace_def is_blank_def isHorizontalSpace_def is_break_def)

lemma find_separator_run:
  assumes "p \<le> j" "j < length d" "d ! j = CHR ''=''" "\<And>i. p \<le> i \<Longrightarrow> i < j \<Longrightarrow> d ! i \<noteq> CHR ''='' \<and> d ! i \<noteq> CHR '':'' \<and> \<not> is_break (d ! i)"
  shows "find_separator d p = Some j"
  using assms
proof (induction "j - p" arbitrary: p)
  case 0
  then show ?case by (simp add: find_separator.simps [of d p])
next
  case (Suc n)
  then have "p < j" by linarith
  with Suc show ?case by (simp add: find_separator.simps [of d p])
qed

lemma scan_new_key:
  assumes k: "validKey k"
  shows "scan_key (k @ ''='' @ q) 0 = Inr (k, length k)"
proof -
  let ?d = "k @ ''='' @ q"
  have nth: "?d ! i = k ! i" "k ! i \<in> set k" if "i < length k" for i using that by (auto simp: nth_append)
  have k0: "0 < length k" using k by (auto simp: validKey_def)
  have "\<not> HasPrefix ?d ''export''"
    using HasPrefix_nth [of ?d "''export''" 0] nth [OF k0] validKey_plain [OF k] by auto
  then have s: "key_start ?d 0 = 0" by (simp add: key_start_def)
  have "find_separator ?d 0 = Some (length k)"
  proof (rule find_separator_run)
    fix i assume "i < length k"
    then show "?d ! i \<noteq> CHR ''='' \<and> ?d ! i \<noteq> CHR '':'' \<and> \<not> is_break (?d ! i)"
      using nth validKey_plain [OF k, of "k ! i"] by (simp add: is_blank_def)
  qed auto
  moreover have "slice ?d 0 (length k) = k" by (simp add: slice_def)
  moreover have "TrimSpace k = k" using validKey_plain [OF k] by (intro TrimSpace_plain) auto
  ultimately show ?thesis using s validKey_source [OF k] by (simp add: scan_key_def)
qed

lemma new_statement_at:
  assumes k: "validKey k" and q: "quoted_text q"
  shows "statement_at (k @ ''='' @ q) 0 = Some (k, \<lparr>statementStart = 0, statementEnd = length (k @ ''='' @ q),
    valueStart = Suc (length k), valueEnd = Suc (length k) + length q\<rparr>, value_expands q)"
proof -
  let ?d = "k @ ''='' @ q"
  have qn: "q \<noteq> []" "hd q = single_quote \<or> hd q = double_quote" using q by (auto simp: quoted_text_def)
  have d: "?d ! Suc (length k) = hd q" "?d ! length k = CHR ''=''" using qn by (auto simp: nth_append hd_conv_nth)
  have h: "skipHorizontal ?d (Suc (length k)) = Suc (length k)"
    unfolding skipHorizontal_def by (rule skip_while_stop) (use d qn in \<open>auto simp: isHorizontalSpace_def\<close>)
  have "scanValue (q @ []) 0 = Inr (length q, length q + length ([] :: bytes), value_expands q)"
    by (rule scanValue_quoted [OF q]) (simp_all add: line_rest_def consumeLine_def skip_while.simps)
  then have v: "scanValue ?d (Suc (length k)) = Inr (Suc (length k) + length q, length ?d, value_expands q)"
    using scanValue_shift [of "Suc (length k)" ?d 0] by simp
  then show ?thesis using scan_new_key [OF k, of q] h v by (simp add: statement_at_def Let_def)
qed

lemma new_statement_first:
  assumes "validKey k"
  shows "0 < length (k @ s)" "\<not> is_blank ((k @ s) ! 0)" "(k @ s) ! 0 \<noteq> CHR ''#''"
proof -
  have k0: "0 < length k" "(k @ s) ! 0 \<in> set k" using assms by (auto simp: validKey_def nth_append)
  then show "0 < length (k @ s)" "\<not> is_blank ((k @ s) ! 0)" "(k @ s) ! 0 \<noteq> CHR ''#''"
    using validKey_plain [OF assms k0(2)] by auto
qed

lemma new_statement:
  assumes k: "validKey k" and q: "quoted_text q"
  shows "readings (k @ ''='' @ q) = Some [(k, k @ ''='' @ q, Suc (length k), Suc (length k) + length q, value_expands q)]"
proof -
  let ?d = "k @ ''='' @ q"
  have "readings ?d = Some [reading ?d (k, \<lparr>statementStart = 0, statementEnd = length ?d, valueStart = Suc (length k),
      valueEnd = Suc (length k) + length q\<rparr>, value_expands q)]"
    by (rule single_reading [OF new_statement_at [OF k q]]) (use new_statement_first [OF k] in simp_all)
  moreover have "strip_break ?d = ?d"
  proof (rule strip_break_id)
    have "last q = hd q" using q closing_quote_Some [of q "hd q" 1 "length q - 1"] by (simp add: quoted_text_def last_conv_nth)
    then show "\<not> is_break (last ?d)" using q by (auto simp: quoted_text_def is_break_def)
  qed simp
  ultimately show ?thesis by (simp add: reading_def slice_def)
qed

definition new_reading :: "bytes \<Rightarrow> bytes \<Rightarrow> reading" where
  "new_reading k q = (k, k @ ''='' @ q, Suc (length k), Suc (length k) + length q, value_expands q)"

lemma new_lines_readings:
  assumes nl: "doc_newline document \<noteq> []" "list_all is_break (doc_newline document)"
  shows "(\<And>k. k \<in> set keys \<Longrightarrow> validKey k \<and> quoted_text (the (map_of new k))) \<Longrightarrow>
    readings (new_lines document new keys) = Some (map (\<lambda>k. new_reading k (the (map_of new k))) keys)"
proof (induction keys)
  case (Cons k keys)
  let ?q = "the (map_of new k)"
  let ?line = "k @ ''='' @ ?q"
  have r: "readings ?line = Some [new_reading k ?q]" using new_statement [of k ?q] Cons.prems by (simp add: new_reading_def)
  have IH: "readings (new_lines document new keys) = Some (map (\<lambda>k. new_reading k (the (map_of new k))) keys)"
    using Cons by simp
  show ?case
  proof (cases "keys \<noteq> [] \<or> doc_finalNewline document")
    case True
    have "closed_text (?line @ doc_newline document)" using nl by (simp add: closed_text_def list_all_iff)
    moreover have "readings (?line @ doc_newline document) = Some [new_reading k ?q]" using readings_breaks [OF nl(2), of ?line] r by simp
    ultimately have "readings ((?line @ doc_newline document) @ new_lines document new keys) =
        map_option ((@) [new_reading k ?q]) (readings (new_lines document new keys))" by (rule readings_append)
    with IH True show ?thesis by simp
  next
    case False
    with r show ?thesis by simp
  qed
qed simp

subsection \<open>Values\<close>

lemma reading_alone:
  "line_start raw p \<Longrightarrow> statements raw p = Some ss \<Longrightarrow> (k, e, x) \<in> set ss \<Longrightarrow>
     readings (slice raw (statementStart e) (statementEnd e)) = Some [reading raw (k, e, x)]"
proof (induction "length raw - p" arbitrary: p ss rule: less_induct)
  case less
  show ?case
  proof (cases rule: statements_cases [of raw p])
    case (comment i)
    have r: "p < consumeLine raw i" "consumeLine raw i = length raw \<or> line_start raw (consumeLine raw i)"
      using comment(2,3) consumeLine_progress [of i raw] consumeLine_end [of i raw] by auto
    have ss: "statements raw (consumeLine raw i) = Some ss" using comment(5) less(3) by simp
    show ?thesis
    proof (cases "consumeLine raw i = length raw")
      case True
      with ss less(4) show ?thesis by simp
    next
      case False
      then have "line_start raw (consumeLine raw i)" "consumeLine raw i \<le> length raw" using r by (auto simp: line_start_def)
      then show ?thesis using less(1) [OF _ _ ss less(4)] r(1) by (simp add: diff_less_mono2)
    qed
  next
    case (statement i k' e' x')
    then obtain ts where ts: "statements raw (statementEnd e') = Some ts" "ss = (k', e', x') # ts"
      using less(3) by (cases "statements raw (statementEnd e')") auto
    note sh = statement_shape [OF statement(5,3)]
    show ?thesis
    proof (cases "(k, e, x) = (k', e', x')")
      case True
      have "p \<le> statementStart e'" using statements_spans [OF less(2,3)] ts(2) by simp
      then show ?thesis
        using statement_alone [OF statement(5,3) skipWhitespace_chars(1) [OF statement(1,3)] statement(4)]
          skipWhitespace_chars(2) [OF statement(1,3)] True by auto
    next
      case False
      then have m: "(k, e, x) \<in> set ts" using less(4) ts(2) by auto
      then have "statementEnd e' \<noteq> length raw" using ts(1) by auto
      then have "line_start raw (statementEnd e')" "p < statementEnd e'" using sh statement(2) by auto
      moreover have "statementEnd e' \<le> length raw" by (rule sh(6))
      ultimately show ?thesis using less(1) [OF _ _ ts(1) m] by (simp add: diff_less_mono2)
    qed
  qed (use less(3,4) in auto)
qed

lemma strip_break_split: "\<exists>z. s = strip_break s @ z \<and> list_all is_break z"
proof -
  have "s = rev (dropWhile is_break (rev s)) @ rev (takeWhile is_break (rev s))"
    by (metis rev_append rev_rev_ident takeWhile_dropWhile_id)
  moreover have "list_all is_break (rev (takeWhile is_break (rev s)))" by (auto simp: list_all_iff dest: set_takeWhileD)
  ultimately show ?thesis by (auto simp: strip_break_def)
qed

lemma parse_breaks:
  assumes "godotenv_laws rt" "readings c = Some [r]"
  shows "list_all is_break z \<Longrightarrow> godotenv_Parse rt (c @ z) = godotenv_Parse rt c"
proof (induction z rule: rev_induct)
  case (snoc b z)
  then have "readings (c @ z) = Some [r]" using readings_breaks [of z c] assms(2) by simp
  then have "godotenv_Parse rt ((c @ z) @ [b]) = godotenv_Parse rt (c @ z)"
    by (rule law_break [OF assms(1)]) (use snoc.prems in simp)
  with snoc show ?case by simp
qed simp

definition bodies :: "reading list \<Rightarrow> (bytes \<times> bytes) list" where
  "bodies rs = map (\<lambda>(k, body, a, b, x). (k, body)) rs"

lemma bodies_None: "map_of (bodies rs) k = None \<longleftrightarrow> k \<notin> fst ` set rs"
  by (induction rs) (auto simp: bodies_def)

lemma fst_reading [simp]: "fst (reading d t) = fst t"
  by (cases t) (simp add: reading_def)

lemma statement_body:
  assumes "godotenv_laws rt" "statements raw 0 = Some ss" "(k, e, x) \<in> set ss"
  shows "readings (fst (snd (reading raw (k, e, x)))) = Some [reading raw (k, e, x)] \<and>
    value_in rt (slice raw (statementStart e) (statementEnd e)) k = value_in rt (fst (snd (reading raw (k, e, x)))) k"
proof -
  let ?s = "slice raw (statementStart e) (statementEnd e)"
  obtain z where z: "?s = strip_break ?s @ z" "list_all is_break z" using strip_break_split by blast
  have "line_start raw 0" by (simp add: line_start_def)
  from reading_alone [OF this assms(2,3)] have "readings ?s = Some [reading raw (k, e, x)]" .
  then have r: "readings (strip_break ?s) = Some [reading raw (k, e, x)]"
    using readings_breaks [OF z(2), of "strip_break ?s"] z(1) by simp
  have "godotenv_Parse rt ?s = godotenv_Parse rt (strip_break ?s)"
    using parse_breaks [OF assms(1) r z(2)] z(1) by simp
  with r show ?thesis by (simp add: reading_def value_in_def)
qed

lemma read_values_spec:
  "read_values rt data policy es = Inr vs \<Longrightarrow> map fst vs = map fst es \<and>
     (\<forall>(k, e) \<in> set es. \<exists>v. (k, v) \<in> set vs \<and> value_in rt (slice data (statementStart e) (statementEnd e)) k = Some v)"
proof (induction es arbitrary: vs)
  case (Cons a es)
  obtain k e where a: "a = (k, e)" by (cases a)
  from Cons.prems obtain v ws where v: "read_value rt data policy a = Inr v" "read_values rt data policy es = Inr ws" "vs = v # ws"
    by (auto simp: result_simps)
  then have "fst v = k \<and> value_in rt (slice data (statementStart e) (statementEnd e)) k = Some (snd v)"
    using a by (auto simp: read_value_def value_in_def split: option.splits if_splits)
  moreover from Cons.IH [OF v(2)] have IH: "map fst ws = map fst es"
    "\<forall>(k, e) \<in> set es. \<exists>v. (k, v) \<in> set ws \<and> value_in rt (slice data (statementStart e) (statementEnd e)) k = Some v" by auto
  ultimately show ?case using a v(3) by (cases v) fastforce
qed simp

lemma parsed_document:
  assumes "dotenv_Parse rt data keys policy = Inr document"
  obtains ss where "statements data 0 = Some ss" "admissible (doc_allowed document) [] ss" "doc_raw document = Some data"
    "doc_entries document = managed_entries (doc_allowed document) ss"
    "doc_unsupported document = sort (unmanaged_keys (doc_allowed document) ss)" "doc_policy document = policy"
    "doc_newline document = detectNewline data" "doc_finalNewline document = hasFinalNewline data"
    "read_values rt data policy (range_entries rt (doc_entries document)) = Inr (doc_values document)"
    "doc_allowed document = sort keys" "list_all validKey keys"
proof -
  obtain allowed es us vs where p: "validateAllowedKeys keys = Inr allowed" "scanEntries data allowed = Inr (es, us)"
    "read_values rt data policy (range_entries rt es) = Inr vs"
    "document = \<lparr>doc_raw = Some data, doc_allowed = allowed, doc_entries = es, doc_values = vs,
              doc_unsupported = us, doc_policy = policy, doc_newline = detectNewline data,
              doc_finalNewline = hasFinalNewline data\<rparr>"
    using assms by (auto simp: dotenv_Parse_def result_simps split: option.splits if_splits)
  moreover have "allowed = sort keys" "list_all validKey keys" using p(1) by (auto simp: validateAllowedKeys_def Let_def split: if_splits)
  ultimately show thesis using that scanEntries_eq [of data allowed es us] by auto
qed

lemma map_of_mset:
  assumes "mset xs = mset ys" "distinct (map fst ys)"
  shows "map_of xs = map_of ys"
proof -
  have "distinct (map fst xs)" using assms by (metis mset_map mset_eq_imp_distinct_iff)
  then show ?thesis using map_of_inject_set [of xs ys] assms mset_eq_setD by blast
qed

lemma distinct_managed: "distinct (map fst ss) \<Longrightarrow> distinct (map fst (managed_entries allowed ss))"
  by (induction ss) (force simp: managed_entries_def)+

lemma ValueCopy_eq:
  assumes rt: "runtime_ok rt" "godotenv_laws rt" and p: "dotenv_Parse rt data keys policy = Inr document"
    and rs: "readings data = Some rs"
  shows "ValueCopy document k =
    (if k \<in> set (doc_allowed document) then Option.bind (map_of (bodies rs) k) (\<lambda>body. value_in rt body k) else None)"
proof -
  obtain ss where ss: "statements data 0 = Some ss" "admissible (doc_allowed document) [] ss"
    "doc_entries document = managed_entries (doc_allowed document) ss"
    "read_values rt data policy (range_entries rt (doc_entries document)) = Inr (doc_values document)"
    by (rule parsed_document [OF p])
  have d: "distinct (map fst ss)" using ss(2) by (simp add: admissible_def)
  have rss: "rs = map (reading data) ss" using rs ss(1) by (simp add: readings_def)
  let ?es = "range_entries rt (doc_entries document)"
  have m: "mset ?es = mset (doc_entries document)" using rt(1) by (simp add: runtime_ok_def)
  have de: "distinct (map fst (doc_entries document))" using distinct_managed [OF d] ss(3) by simp
  have rv: "map fst (doc_values document) = map fst ?es" "\<And>k e. (k, e) \<in> set ?es \<Longrightarrow>
      \<exists>v. (k, v) \<in> set (doc_values document) \<and> value_in rt (slice data (statementStart e) (statementEnd e)) k = Some v"
    using read_values_spec [OF ss(4)] by auto
  have dv: "distinct (map fst (doc_values document))" using rv(1) de m by (metis mset_map mset_eq_imp_distinct_iff)
  have dm: "fst ` set (doc_values document) = fst ` set (doc_entries document)"
    using rv(1) m by (metis list.set_map mset_eq_setD)
  show ?thesis
  proof (cases "k \<in> set (doc_allowed document) \<and> k \<in> set (map fst ss)")
    case True
    then obtain e x where kex: "(k, e, x) \<in> set ss" by force
    then have "(k, e) \<in> set (doc_entries document)" using True unfolding ss(3) managed_entries_def by force
    then have "(k, e) \<in> set ?es" using mset_eq_setD [OF m] by simp
    then obtain v where v: "(k, v) \<in> set (doc_values document)" "value_in rt (slice data (statementStart e) (statementEnd e)) k = Some v"
      using rv(2) by blast
    have "map_of (bodies rs) k = Some (fst (snd (reading data (k, e, x))))"
    proof (rule map_of_is_SomeI)
      show "distinct (map fst (bodies rs))" using d by (simp add: bodies_def rss comp_def case_prod_unfold reading_def)
      show "(k, fst (snd (reading data (k, e, x)))) \<in> set (bodies rs)" using kex by (force simp: bodies_def rss reading_def)
    qed
    moreover have "ValueCopy document k = Some v" using v(1) dv by (simp add: ValueCopy_def)
    ultimately show ?thesis using True v(2) statement_body [OF rt(2) ss(1) kex] by simp
  next
    case False
    then have "k \<notin> fst ` set (doc_entries document)" using ss(3) by (force simp: managed_entries_def)
    then have "ValueCopy document k = None" using dm by (simp add: ValueCopy_def map_of_eq_None_iff)
    moreover have "map_of (bodies rs) k = None" if "k \<in> set (doc_allowed document)"
      using False that by (simp add: bodies_None rss image_image)
    ultimately show ?thesis by auto
  qed
qed

subsection \<open>Encodings\<close>

lemma escaped_quote: "i < length (concat (map escape_char v)) \<Longrightarrow> concat (map escape_char v) ! i = double_quote \<Longrightarrow>
  0 < i \<and> concat (map escape_char v) ! (i - 1) = backslash"
proof (induction v arbitrary: i)
  case (Cons c v)
  have e: "length (escape_char c) = 1 \<or> length (escape_char c) = 2" by (auto simp: escape_char_def)
  show ?case
  proof (cases "i < length (escape_char c)")
    case True
    then have "escape_char c ! i = double_quote" using Cons.prems by (simp add: nth_append)
    then have "i = 1 \<and> escape_char c ! 0 = backslash" using True e by (auto simp: escape_char_def nth_Cons less_Suc_eq split: if_splits nat.splits)
    then show ?thesis using True by (cases "escape_char c") (auto simp: nth_append)
  next
    case False
    define j where "j = i - length (escape_char c)"
    have "j < length (concat (map escape_char v))" "concat (map escape_char v) ! j = double_quote"
      using Cons.prems False by (auto simp: nth_append j_def)
    then have "0 < j" "concat (map escape_char v) ! (j - 1) = backslash" using Cons.IH by auto
    then show ?thesis using False by (auto simp: nth_append j_def)
  qed
qed simp

lemma encodeValue_quoted:
  assumes rt: "godotenv_laws rt" and e: "encodeValue rt v = Some q"
  shows "quoted_text q" "value_in rt (''ACMEMUX_VALUE='' @ q) ''ACMEMUX_VALUE'' = Some v"
proof -
  have rtrip: "encodedValueRoundTrips rt v q" and sh: "q = single_quoted v \<and> single_quote \<notin> set v \<or> q = double_quoted v"
    using e by (auto simp: encodeValue_def split: if_splits)
  then show "value_in rt (''ACMEMUX_VALUE='' @ q) ''ACMEMUX_VALUE'' = Some v"
    by (auto simp: encodedValueRoundTrips_def value_in_def split: option.splits)
  have h: "q \<noteq> []" "hd q = single_quote \<or> hd q = double_quote" using sh by (auto simp: single_quoted_def double_quoted_def)
  have "godotenv_Parse rt (''ACMEMUX_VALUE='' @ q) \<noteq> None"
    using rtrip by (auto simp: encodedValueRoundTrips_def split: option.splits)
  then obtain j where j: "closing_quote q (hd q) 1 = Some j" using law_unterminated [OF rt h] by (cases "closing_quote q (hd q) 1") auto
  have jl: "1 \<le> j" "j < length q" "q ! j = hd q" "q ! (j - 1) \<noteq> backslash" using closing_quote_Some [OF j] by auto
  have "j = length q - 1"
  proof (rule ccontr)
    assume "j \<noteq> length q - 1"
    then have i: "j - 1 < length q - 2" "j = Suc (j - 1)" using jl by auto
    show False
      using sh
    proof
      assume s: "q = single_quoted v \<and> single_quote \<notin> set v"
      then have "q ! j = v ! (j - 1)" "j - 1 < length v" using i by (auto simp: single_quoted_def nth_append nth_Cons split: nat.splits)
      then show False using s jl(3) nth_mem [of "j - 1" v] by (auto simp: single_quoted_def)
    next
      assume s: "q = double_quoted v"
      let ?e = "concat (map escape_char v)"
      have l: "j - 1 < length ?e" using i s by (simp add: double_quoted_def)
      then have "?e ! (j - 1) = double_quote" using i jl(3) s by (auto simp: double_quoted_def nth_append nth_Cons split: nat.splits)
      from escaped_quote [OF l this] have "0 < j - 1" "?e ! (j - 1 - 1) = backslash" by auto
      moreover define n where "n = j - 2"
      ultimately have "j = Suc (Suc n)" "?e ! n = backslash" by (auto simp: numeral_2_eq_2)
      then show False using jl(4) s l by (simp add: double_quoted_def nth_append)
    qed
  qed
  with h j show "quoted_text q" by (simp add: quoted_text_def)
qed

subsection \<open>Edits are exact\<close>

lemma fst_revalued [simp]: "fst (revalued r q) = fst r"
  by (cases r) (simp add: revalued_def)

lemma keys_edit: "map fst (edit_readings plan rs) = filter (\<lambda>k. plan k \<noteq> Some None) (map fst rs)"
  by (induction plan rs rule: edit_readings.induct) (auto split: option.splits)

lemma edit_mem: "r \<in> set rs \<Longrightarrow> plan (fst r) = Some (Some q) \<Longrightarrow> revalued r q \<in> set (edit_readings plan rs)"
  by (induction plan rs rule: edit_readings.induct) (auto split: option.splits)

lemma edit_untouched: "plan k = None \<Longrightarrow> map_of (bodies (edit_readings plan rs)) k = map_of (bodies rs) k"
proof (induction plan rs rule: edit_readings.induct)
  case (2 plan r rs)
  then show ?case by (cases r) (auto simp: bodies_def revalued_def split: option.splits)
qed simp

lemma bodies_mem: "distinct (map fst rs) \<Longrightarrow> r \<in> set rs \<Longrightarrow> map_of (bodies rs) (fst r) = Some (fst (snd r))"
  by (rule map_of_is_SomeI) (auto simp: bodies_def comp_def case_prod_unfold image_iff intro!: bexI [of _ r])

lemma reading_bounds:
  assumes "spans raw p ss" "t \<in> set ss"
  shows "fst (snd (snd (reading raw t))) \<le> length (fst (snd (reading raw t)))"
proof -
  obtain k e x where t: "t = (k, e, x)" by (cases t)
  have le: "statementStart e < valueStart e" "valueStart e \<le> valueEnd e" "valueEnd e \<le> statementEnd e" "statementEnd e \<le> length raw"
    and nb: "\<not> is_break (raw ! (valueEnd e - 1))" using spans_mem [OF assms(1)] assms(2) t by auto
  let ?hv = "slice raw (statementStart e) (valueEnd e)"
  have hv: "length ?hv = valueEnd e - statementStart e" using le by (simp add: slice_length)
  then have "?hv \<noteq> []" using le by auto
  moreover have "last ?hv = raw ! (valueEnd e - 1)"
    using le hv slice_nth [of "valueEnd e" raw "valueEnd e - statementStart e - 1" "statementStart e"] last_conv_nth [of ?hv] \<open>?hv \<noteq> []\<close> by simp
  moreover have "slice raw (statementStart e) (statementEnd e) = ?hv @ slice raw (valueEnd e) (statementEnd e)" using le by (simp add: slice_join)
  ultimately have "length (strip_break (slice raw (statementStart e) (statementEnd e))) \<ge> length ?hv"
    using strip_break_append [of ?hv] nb by simp
  then show ?thesis using hv le by (simp add: t reading_def)
qed

lemma detectNewline_breaks: "detectNewline data \<noteq> [] \<and> list_all is_break (detectNewline data)"
  by (auto simp: detectNewline_def is_break_def split: option.splits)

lemma new_values:
  assumes "distinct (map change_key cs)" "list_all (change_ok rt document) cs"
  shows "map_of (concat (map (change_new rt document) cs)) k =
    (if map_of (doc_entries document) k = None then Option.bind (decided rt cs k) (\<lambda>d. d) else None)"
proof -
  have "map_of (concat (map (change_new rt document) ds)) k =
      (if k \<in> change_key ` set ds \<and> map_of (doc_entries document) k = None then Option.bind (decided rt cs k) (\<lambda>d. d) else None)"
    if "set ds \<subseteq> set cs" "distinct (map change_key ds)" for ds
    using that
  proof (induction ds)
    case (Cons c ds)
    then have IH: "map_of (concat (map (change_new rt document) ds)) k =
      (if k \<in> change_key ` set ds \<and> map_of (doc_entries document) k = None then Option.bind (decided rt cs k) (\<lambda>d. d) else None)" by simp
    have "decided rt cs (change_key c) = Some (change_decision rt c)" using decided_mem [OF assms] Cons.prems by simp
    then have "map_of (change_new rt document c) k =
        (if k = change_key c \<and> map_of (doc_entries document) k = None then Option.bind (decided rt cs k) (\<lambda>d. d) else None)"
      by (auto simp: change_new_def split: option.splits)
    then show ?case using IH Cons.prems(2) by (auto simp: map_add_def split: option.splits)
  qed simp
  from this [of cs] show ?thesis using assms(1) decided_None [of rt cs k] by auto
qed

definition edited_value :: "dotenv_change list \<Rightarrow> (bytes \<Rightarrow> bytes option) \<Rightarrow> bytes \<Rightarrow> bytes option" where
  "edited_value changes old k =
     (case find (\<lambda>c. change_key c = k) changes of
        None \<Rightarrow> old k
      | Some c \<Rightarrow> (case change_action c of ActionReplace \<Rightarrow> Some (change_value c) | _ \<Rightarrow> None))"

lemma applied:
  assumes rt: "runtime_ok rt" "godotenv_laws rt" and p: "dotenv_Parse rt data keys policy = Inr document"
    and a: "dotenv_Apply rt document changes = Inr (result, summaries)"
  obtains rs new where "readings data = Some rs" "distinct (map change_key changes)" "list_all (change_ok rt document) changes"
    "new = sort (map fst (concat (map (change_new rt document) changes)))"
    "readings result = Some (edit_readings (decided rt changes) rs @
        map (\<lambda>k. new_reading k (the (map_of (concat (map (change_new rt document) changes)) k))) new)"
    "\<exists>document'. dotenv_Parse rt result (doc_allowed document) (doc_policy document) = Inr document'"
proof -
  obtain ss where ss: "statements data 0 = Some ss" "admissible (doc_allowed document) [] ss" "doc_raw document = Some data"
    "doc_entries document = managed_entries (doc_allowed document) ss" "doc_newline document = detectNewline data"
    "doc_finalNewline document = hasFinalNewline data" "doc_allowed document = sort keys" "list_all validKey keys"
    by (rule parsed_document [OF p])
  have d: "distinct (map fst ss)" using ss(2) by (simp add: admissible_def)
  have l0: "line_start data 0" by (simp add: line_start_def)
  have sp: "spans data 0 ss" by (rule statements_spans [OF l0 ss(1)])
  have rs: "readings data = Some (map (reading data) ss)" using ss(1) by (simp add: readings_def)
  obtain pl es c document' where pl: "plan_changes rt document data changes
        \<lparr>plan_seen = [], plan_edits = [], plan_new = [], plan_summaries = []\<rparr> = Inr pl"
    and es: "merge_edits [] (sort_edits rt (plan_edits pl)) = Inr es" and c: "write_edits data 0 es = Inr c"
    and res: "result = append_new document (plan_new pl) c"
    and doc': "dotenv_Parse rt result (doc_allowed document) (doc_policy document) = Inr document'"
    using a ss(3) by (auto simp: dotenv_Apply_def result_simps Let_def split: if_splits)
  have spec: "list_all (change_ok rt document) changes" "distinct (map change_key changes)"
      "plan_edits pl = concat (map (change_edits rt document data) changes)"
      "plan_new pl = concat (map (change_new rt document) changes)"
    using plan_changes_spec [OF pl] by auto
  have quoted: "quoted_text q" if "decided rt changes k = Some (Some q)" for k q
  proof -
    have "\<exists>ch :: dotenv_change. encodeValue rt (change_value ch) = Some q"
      using that by (auto simp: decided_def split: option.splits dotenv_action.splits)
    then show ?thesis using encodeValue_quoted [OF rt(2)] by blast
  qed
  have qn: "v \<noteq> []" if "decided rt changes k = Some (Some v)" for k v using quoted [OF that] by (simp add: quoted_text_def)
  have m: "mset (sort_edits rt (plan_edits pl)) = mset (moved_edits (doc_finalNewline document) data (decided rt changes) ss)"
    using planned_edits [OF spec(2,1) ss(4) d, of data] rt(1) spec(3) by (simp add: runtime_ok_def)
  have srt: "sorted (map edit_start (sort_edits rt (plan_edits pl)))" using rt(1) by (simp add: runtime_ok_def)
  have "\<exists>z. list_all is_break z \<and> edit_text (decided rt changes) data 0 ss = c @ z"
    by (rule candidate_text [OF sp _ m srt es c]) (rule qn)
  then obtain z where z: "list_all is_break z" "edit_text (decided rt changes) data 0 ss = c @ z" by blast
  have "readings (edit_text (decided rt changes) data 0 ss) = Some (edit_readings (decided rt changes) (map (reading data) ss))"
    by (rule edit_text_readings [OF _ l0 ss(1)]) (rule quoted)
  then have rc: "readings c = Some (edit_readings (decided rt changes) (map (reading data) ss))"
    using readings_breaks [OF z(1), of c] z(2) by simp
  define new where "new = sort (map fst (plan_new pl))"
  have nk: "validKey k \<and> quoted_text (the (map_of (plan_new pl) k))" if "k \<in> set new" for k
  proof -
    have k: "k \<in> fst ` set (plan_new pl)" using that by (simp add: new_def)
    then have "k \<in> change_key ` set changes" by (auto simp: spec(4) change_new_def split: option.splits if_splits)
    then have "k \<in> set keys" using spec(1) ss(7) by (auto simp: list_all_iff change_ok_def)
    moreover have "map_of (plan_new pl) k \<noteq> None" using k by (simp add: map_of_eq_None_iff)
    then obtain q where "map_of (plan_new pl) k = Some q" "decided rt changes k = Some (Some q)"
      using new_values [OF spec(2,1), of k] spec(4) by (auto split: if_splits simp: bind_eq_Some_conv)
    ultimately show ?thesis using ss(8) quoted by (auto simp: list_all_iff)
  qed
  have nl: "doc_newline document \<noteq> []" "list_all is_break (doc_newline document)" using detectNewline_breaks ss(5) by auto
  have "readings result = Some (edit_readings (decided rt changes) (map (reading data) ss) @
      map (\<lambda>k. new_reading k (the (map_of (plan_new pl) k))) new)"
  proof (cases "plan_new pl = []")
    case True
    then show ?thesis using rc res by (simp add: append_new_def new_def)
  next
    case False
    let ?c = "c @ (if c \<noteq> [] \<and> \<not> hasFinalNewline c then doc_newline document else [])"
    have "closed_text ?c" using nl by (auto simp: closed_text_def hasFinalNewline_def list_all_iff)
    moreover have "readings ?c = readings c" using readings_breaks [OF nl(2), of c] by simp
    moreover have "result = ?c @ new_lines document (plan_new pl) new" using False res by (simp add: append_new_def new_def)
    ultimately show ?thesis using readings_append [of ?c] rc new_lines_readings [OF nl, of new "plan_new pl"] nk by simp
  qed
  then show thesis using that [OF rs spec(2,1) refl] doc' by (simp add: new_def spec(4))
qed

lemma read_statement:
  assumes "godotenv_laws rt" "readings raw = Some rs" "r \<in> set rs"
  shows "readings (fst (snd r)) = Some [r]"
proof -
  obtain ss where ss: "statements raw 0 = Some ss" "rs = map (reading raw) ss" using assms(2) by (auto simp: readings_def)
  then obtain k e x where "(k, e, x) \<in> set ss" "r = reading raw (k, e, x)" using assms(3) by force
  then show ?thesis using statement_body [OF assms(1) ss(1)] by simp
qed

lemma value_encoded:
  assumes rt: "godotenv_laws rt" and e: "encodeValue rt v = Some q"
    and r: "readings s = Some [(k, body, a, a + length q, x)]" "slice body a (a + length q) = q"
  shows "value_in rt s k = Some v"
proof -
  have k: "validKey ''ACMEMUX_VALUE''" by (simp add: validKey_def upper_letter_def decimal_digit_def)
  note q = encodeValue_quoted [OF rt e]
  have "value_in rt s k = value_in rt (''ACMEMUX_VALUE'' @ ''='' @ q) ''ACMEMUX_VALUE''"
    by (rule law_local [OF rt r(1) new_statement [OF k q(1)]]) (use r(2) q(1) in \<open>simp_all add: slice_def\<close>)
  with q(2) show ?thesis by simp
qed

text \<open>The statements after an edit, as a list: what each decision leaves of a key.\<close>

lemma edited_statements:
  assumes new: "\<forall>k. k \<in> set new \<longleftrightarrow> k \<notin> set (map fst rs) \<and> (\<exists>q. plan k = Some (Some q))"
    and f: "\<forall>k q. k \<in> set new \<longrightarrow> plan k = Some (Some q) \<longrightarrow> f k = new_reading k q"
    and bounds: "\<forall>k body a b x. (k, body, a, b, x) \<in> set rs \<longrightarrow> a \<le> length body"
    and rs': "rs' = edit_readings plan rs @ map f new"
  shows "plan k = None \<longrightarrow> map_of (bodies rs') k = map_of (bodies rs) k"
    and "plan k = Some None \<longrightarrow> map_of (bodies rs') k = None"
    and "plan k = Some (Some q) \<longrightarrow> (\<exists>body a x. (k, body, a, a + length q, x) \<in> set rs' \<and> slice body a (a + length q) = q)"
proof -
  have fk: "fst (f k) = k" if "k \<in> set new" for k
    using f new that by (auto simp: new_reading_def)
  then have nk: "fst ` set (map f new) = set new" by (force simp: image_image)
  have e: "map_of (bodies rs') k = (case map_of (bodies (edit_readings plan rs)) k of None \<Rightarrow> map_of (bodies (map f new)) k | Some b \<Rightarrow> Some b)" for k
    by (auto simp: rs' bodies_def map_add_def split: option.splits)
  have n: "plan k \<noteq> Some None \<and> plan k \<noteq> None \<or> map_of (bodies (map f new)) k = None" for k
  proof (cases "k \<in> set new")
    case False
    then show ?thesis using nk by (simp add: bodies_None)
  qed (use new in auto)
  show "plan k = None \<longrightarrow> map_of (bodies rs') k = map_of (bodies rs) k"
    using e [of k] n [of k] edit_untouched [of plan k rs] by (auto split: option.splits)
  have "k \<notin> set (map fst (edit_readings plan rs))" if "plan k = Some None" unfolding keys_edit using that by simp
  then show "plan k = Some None \<longrightarrow> map_of (bodies rs') k = None"
    using e [of k] n [of k] bodies_None [of "edit_readings plan rs" k] by auto
  show "plan k = Some (Some q) \<longrightarrow> (\<exists>body a x. (k, body, a, a + length q, x) \<in> set rs' \<and> slice body a (a + length q) = q)"
  proof
    assume q: "plan k = Some (Some q)"
    show "\<exists>body a x. (k, body, a, a + length q, x) \<in> set rs' \<and> slice body a (a + length q) = q"
    proof (cases "k \<in> set (map fst rs)")
      case True
      then obtain body a b x where r: "(k, body, a, b, x) \<in> set rs" by auto
      have "revalued (k, body, a, b, x) q \<in> set rs'" using edit_mem [OF r, of plan q] q by (simp add: rs')
      moreover have "a \<le> length body" using bounds r by blast
      ultimately show ?thesis
        by (intro exI [of _ "take a body @ q @ drop b body"] exI [of _ a] exI [of _ "value_expands q"]) (simp add: revalued_def slice_def)
    next
      case False
      then have k: "k \<in> set new" using new q by blast
      then have "new_reading k q \<in> set rs'" using f q by (metis Un_iff image_eqI list.set_map rs' set_append)
      then show ?thesis
        by (intro exI [of _ "k @ ''='' @ q"] exI [of _ "Suc (length k)"] exI [of _ "value_expands q"]) (simp add: new_reading_def slice_def)
    qed
  qed
qed

lemma unmanaged_keys_eq: "unmanaged_keys allowed ts = filter (\<lambda>k. k \<notin> set allowed) (map fst ts)"
  by (induction ts) (auto simp: unmanaged_keys_def)

lemma readings_keys: "statements raw 0 = Some ss \<Longrightarrow> readings raw = Some rs \<Longrightarrow> map fst rs = map fst ss"
  by (auto simp: readings_def)

lemma readings_bounds: "readings raw = Some rs \<Longrightarrow> (k, body, a, b, x) \<in> set rs \<Longrightarrow> a \<le> length body"
proof -
  assume "readings raw = Some rs" "(k, body, a, b, x) \<in> set rs"
  then obtain ss t where t: "statements raw 0 = Some ss" "t \<in> set ss" "reading raw t = (k, body, a, b, x)"
    by (auto simp: readings_def)
  have "spans raw 0 ss" by (rule statements_spans [OF _ t(1)]) (simp add: line_start_def)
  from reading_bounds [OF this t(2)] t(3) show ?thesis by simp
qed

text \<open>An accepted edit, as statements: what the returned bytes hold.\<close>

lemma applied_statements:
  assumes rt: "runtime_ok rt" "godotenv_laws rt" and p: "dotenv_Parse rt data keys policy = Inr document"
    and a: "dotenv_Apply rt document changes = Inr (result, summaries)"
  obtains rs rs' document' where "readings data = Some rs" "readings result = Some rs'"
    "dotenv_Parse rt result (doc_allowed document) (doc_policy document) = Inr document'"
    "distinct (map change_key changes)" "list_all (change_ok rt document) changes"
    "\<forall>k. decided rt changes k = None \<longrightarrow> map_of (bodies rs') k = map_of (bodies rs) k"
    "\<forall>k. decided rt changes k = Some None \<longrightarrow> map_of (bodies rs') k = None"
    "\<forall>k q. decided rt changes k = Some (Some q) \<longrightarrow>
       (\<exists>body a x. (k, body, a, a + length q, x) \<in> set rs' \<and> slice body a (a + length q) = q)"
    "filter (\<lambda>k. k \<notin> set (doc_allowed document)) (map fst rs') = filter (\<lambda>k. k \<notin> set (doc_allowed document)) (map fst rs)"
proof -
  let ?N = "concat (map (change_new rt document) changes)" and ?plan = "decided rt changes"
  obtain rs new where rs: "readings data = Some rs" and ch: "distinct (map change_key changes)" "list_all (change_ok rt document) changes"
    and new: "new = sort (map fst ?N)"
    and res: "readings result = Some (edit_readings ?plan rs @ map (\<lambda>k. new_reading k (the (map_of ?N k))) new)"
    and doc': "\<exists>document'. dotenv_Parse rt result (doc_allowed document) (doc_policy document) = Inr document'"
    by (rule applied [OF assms])
  obtain ss where ss: "statements data 0 = Some ss" "doc_entries document = managed_entries (doc_allowed document) ss"
    by (rule parsed_document [OF p])
  have cal: "k \<in> set (doc_allowed document)" if "?plan k \<noteq> None" for k
    using that ch(2) decided_None [of rt changes k] by (auto simp: list_all_iff change_ok_def)
  have entry: "map_of (doc_entries document) k = None \<longleftrightarrow> k \<notin> set (map fst rs)" if "k \<in> set (doc_allowed document)" for k
    using map_of_managed [OF that, of ss] map_of_entries_None [of ss k] ss(2) readings_keys [OF ss(1) rs] by simp
  have nv: "map_of ?N k = Some q \<longleftrightarrow> ?plan k = Some (Some q) \<and> k \<notin> set (map fst rs)" for k q
    using new_values [OF ch, of k] cal [of k] entry [of k] by (cases "?plan k") (auto split: if_splits)
  have "k \<in> set new \<longleftrightarrow> map_of ?N k \<noteq> None" for k by (simp add: new map_of_eq_None_iff del: map_concat set_concat)
  then have newk: "\<forall>k. k \<in> set new \<longleftrightarrow> k \<notin> set (map fst rs) \<and> (\<exists>q. ?plan k = Some (Some q))" using nv by fastforce
  have fk: "\<forall>k q. k \<in> set new \<longrightarrow> ?plan k = Some (Some q) \<longrightarrow> new_reading k (the (map_of ?N k)) = new_reading k q"
  proof (intro allI impI)
    fix k q assume "k \<in> set new" "?plan k = Some (Some q)"
    then have "map_of ?N k = Some q" unfolding nv using newk by blast
    then show "new_reading k (the (map_of ?N k)) = new_reading k q" by (simp only: option.sel)
  qed
  have bounds: "\<forall>k body a b x. (k, body, a, b, x) \<in> set rs \<longrightarrow> a \<le> length body" using readings_bounds [OF rs] by blast
  note st = edited_statements [OF newk fk bounds refl]
  have "filter (\<lambda>k. k \<notin> set (doc_allowed document)) new = []" using newk cal by (auto simp: filter_empty_conv)
  moreover have "filter (\<lambda>k. ?plan k \<noteq> Some None \<and> k \<notin> set (doc_allowed document)) ks =
      filter (\<lambda>k. k \<notin> set (doc_allowed document)) ks" for ks using cal by (intro filter_cong) auto
  ultimately have others: "filter (\<lambda>k. k \<notin> set (doc_allowed document)) (map fst (edit_readings ?plan rs @ map (\<lambda>k. new_reading k (the (map_of ?N k))) new)) =
      filter (\<lambda>k. k \<notin> set (doc_allowed document)) (map fst rs)" by (simp add: keys_edit new_reading_def comp_def)
  obtain document' where "dotenv_Parse rt result (doc_allowed document) (doc_policy document) = Inr document'" using doc' by blast
  from that [OF rs res this ch _ _ _ others] show thesis using st by blast
qed

subsection \<open>An instance\<close>

text \<open>A decoder of single statements that satisfies the hypotheses on godotenv, and two small files:
  one statement, and two statements of which the first is empty and the second ends the file
  without a line break.\<close>

fun unescape :: "bytes \<Rightarrow> bytes" where
  "unescape [] = []"
| "unescape [c] = [c]"
| "unescape (c # d # s) =
     (if c = backslash then (if d = CHR ''n'' then LF else if d = CHR ''r'' then CR else d) # unescape s
      else c # unescape (d # s))"

definition unquote :: "bytes \<Rightarrow> bytes" where
  "unquote q = (if q = [] then [] else if hd q = single_quote then butlast (tl q)
     else if hd q = double_quote then unescape (butlast (tl q)) else q)"

definition example_godotenv :: "bytes \<Rightarrow> (bytes \<rightharpoonup> bytes) option" where
  "example_godotenv s =
     (case readings s of
        Some [(k, body, a, b, x)] \<Rightarrow> Some (\<lambda>k'. if k' = k then Some (unquote (slice body a b)) else None)
      | _ \<Rightarrow> None)"

definition example_runtime :: dotenv_runtime where
  "example_runtime = \<lparr>godotenv_Parse = example_godotenv, range_entries = (\<lambda>es. es), sort_edits = sort_key edit_start\<rparr>"

definition replace_change :: "bytes \<Rightarrow> bytes \<Rightarrow> dotenv_change" where
  "replace_change k v = \<lparr>change_key = k, change_action = ActionReplace, change_value = v\<rparr>"

lemma example_runtime_ok: "runtime_ok example_runtime"
  by (simp add: runtime_ok_def example_runtime_def)

lemma example_godotenv_single:
  "readings s = Some [(k, body, a, b, x)] \<Longrightarrow>
     example_godotenv s = Some (\<lambda>k'. if k' = k then Some (unquote (slice body a b)) else None)"
  by (simp add: example_godotenv_def)

lemma example_unterminated:
  assumes q: "q \<noteq> []" "hd q = single_quote \<or> hd q = double_quote" "closing_quote q (hd q) 1 = None"
  shows "example_godotenv (''ACMEMUX_VALUE='' @ q) = None"
proof -
  define k :: bytes where "k = ''ACMEMUX_VALUE''"
  let ?d = "k @ ''='' @ q"
  have k: "validKey k" by (simp add: k_def validKey_def upper_letter_def)
  have d: "?d ! Suc (length k) = hd q" "drop (Suc (length k)) ?d = q" using q by (auto simp: nth_append hd_conv_nth)
  have h: "skipHorizontal ?d (Suc (length k)) = Suc (length k)"
    unfolding skipHorizontal_def by (rule skip_while_stop) (use d q in \<open>auto simp: isHorizontalSpace_def\<close>)
  have "scanValue q 0 = Inl (dotenv_failure CodeMalformed)" using q by (auto simp: scanValue_def hd_conv_nth is_break_def)
  then have "scanValue ?d (Suc (length k)) = Inl (dotenv_failure CodeMalformed)"
    using scanValue_shift [of "Suc (length k)" ?d 0] d by simp
  then have "statement_at ?d 0 = None" using scan_new_key [OF k, of q] h by (simp add: statement_at_def Let_def)
  then have "statements ?d 0 = None"
    using new_statement_first [OF k, of "''='' @ q"]
    by (intro statements_malformed [of 0]) (auto simp: skipWhitespace_def skip_while_stop)
  then have "readings ?d = None" by (simp add: readings_def)
  then show ?thesis by (simp add: example_godotenv_def k_def)
qed

lemma example_laws: "godotenv_laws example_runtime"
  unfolding godotenv_laws_def
proof (intro conjI allI impI)
  fix s r b assume "readings s = Some [r]" "is_break b"
  then show "godotenv_Parse example_runtime (s @ [b]) = godotenv_Parse example_runtime s"
    by (simp add: example_runtime_def example_godotenv_def readings_snoc)
next
  fix s s' k body i j x k' body' i' j' x'
  assume "readings s = Some [(k, body, i, j, x)]" "readings s' = Some [(k', body', i', j', x')]" "slice body i j = slice body' i' j'"
  then show "value_in example_runtime s k = value_in example_runtime s' k'"
    by (simp add: value_in_def example_runtime_def example_godotenv_single)
next
  fix q :: bytes assume "q \<noteq> []" "hd q = single_quote \<or> hd q = double_quote" "closing_quote q (hd q) 1 = None"
  then show "godotenv_Parse example_runtime (''ACMEMUX_VALUE='' @ q) = None"
    using example_unterminated by (simp add: example_runtime_def)
qed

lemma new_statements:
  assumes k: "validKey k" and q: "quoted_text q"
  shows "statements (k @ ''='' @ q) 0 = Some [(k, \<lparr>statementStart = 0, statementEnd = length (k @ ''='' @ q),
    valueStart = Suc (length k), valueEnd = Suc (length k) + length q\<rparr>, value_expands q)]"
proof -
  have "skipWhitespace (k @ ''='' @ q) 0 = 0"
    unfolding skipWhitespace_def using new_statement_first [OF k] by (intro skip_while_stop) simp
  then have "statements (k @ ''='' @ q) 0 = map_option (Cons (k, \<lparr>statementStart = 0, statementEnd = length (k @ ''='' @ q),
    valueStart = Suc (length k), valueEnd = Suc (length k) + length q\<rparr>, value_expands q)) (statements (k @ ''='' @ q) (length (k @ ''='' @ q)))"
    using statements_statement [OF _ _ _ new_statement_at [OF k q], of 0] new_statement_first [OF k] by simp
  then show ?thesis by simp
qed

lemma document_of_statements:
  assumes "statements data 0 = Some ss" "admissible (sort keys) [] ss" "ascii data" "CHR 0x00 \<notin> set data"
    and "list_all validKey keys" "distinct keys" "validatePolicy policy = None" "int (length data) \<le> MaximumBytes policy" "lineCount data \<le> MaximumLines policy"
    and "read_values rt data policy (range_entries rt (managed_entries (sort keys) ss)) = Inr vs"
  shows "dotenv_Parse rt data keys policy = Inr \<lparr>doc_raw = Some data, doc_allowed = sort keys,
    doc_entries = managed_entries (sort keys) ss, doc_values = vs, doc_unsupported = sort (unmanaged_keys (sort keys) ss),
    doc_policy = policy, doc_newline = detectNewline data, doc_finalNewline = hasFinalNewline data\<rparr>"
proof -
  have "sort keys ! i \<noteq> sort keys ! (i - 1)" if "i \<in> set [1..<length (sort keys)]" for i
    using that nth_eq_iff_index_eq [of "sort keys" i "i - 1"] assms(6) by (auto simp: less_imp_diff_less)
  then have "validateAllowedKeys keys = Inr (sort keys)" using assms(5) by (auto simp: validateAllowedKeys_def Let_def list_ex_iff)
  moreover have "scanEntries data (sort keys) = Inr (managed_entries (sort keys) ss, sort (unmanaged_keys (sort keys) ss))"
    using assms(1,2) scanEntries_eq by blast
  moreover have "ValidString data" using assms(3) by (rule ValidString_ascii)
  ultimately show ?thesis using assms by (simp add: dotenv_Parse_def result_simps)
qed

lemma example_quoted:
  assumes "c \<noteq> single_quote" "c \<noteq> backslash" shows "quoted_text [single_quote, c, single_quote]" "\<not> value_expands [single_quote, c, single_quote]"
  using assms by (simp_all add: quoted_text_def value_expands_def closing_quote.simps)

definition example_line :: "char \<Rightarrow> bytes" where
  "example_line c = ''A='' @ [single_quote, c, single_quote]"

definition example_document :: "bytes list \<Rightarrow> char \<Rightarrow> dotenv_document" where
  "example_document keys c = \<lparr>doc_raw = Some (example_line c), doc_allowed = keys,
    doc_entries = [(''A'', \<lparr>statementStart = 0, statementEnd = 5, valueStart = 2, valueEnd = 5\<rparr>)], doc_values = [(''A'', [c])],
    doc_unsupported = [], doc_policy = DefaultPolicy, doc_newline = [LF], doc_finalNewline = False\<rparr>"

lemma keys_AB: "validKey ''A''" "validKey ''B''"
  by (simp_all add: validKey_def upper_letter_def)

lemma example_parse:
  assumes c: "c \<in> {CHR ''1'', CHR ''2''}" and keys: "sort keys = keys" "distinct keys" "list_all validKey keys" "''A'' \<in> set keys"
  shows "dotenv_Parse example_runtime (example_line c) keys DefaultPolicy = Inr (example_document keys c)"
proof -
  have q: "quoted_text [single_quote, c, single_quote]" "\<not> value_expands [single_quote, c, single_quote]"
    using example_quoted [of c] c by fastforce+
  let ?ss = "[(''A'', \<lparr>statementStart = 0, statementEnd = 5, valueStart = 2, valueEnd = 5\<rparr>, False)]"
  have st: "statements (example_line c) 0 = Some ?ss" using new_statements [OF keys_AB(1) q(1)] q(2) by (simp add: example_line_def eval_nat_numeral)
  have r: "readings (example_line c) = Some [(''A'', example_line c, 2, 5, False)]"
    using new_statement [OF keys_AB(1) q(1)] q(2) by (simp add: example_line_def eval_nat_numeral)
  have m: "managed_entries (sort keys) ?ss = [(''A'', \<lparr>statementStart = 0, statementEnd = 5, valueStart = 2, valueEnd = 5\<rparr>)]"
    using keys by (simp add: managed_entries_def)
  have v: "read_values example_runtime (example_line c) DefaultPolicy [(''A'', \<lparr>statementStart = 0, statementEnd = 5, valueStart = 2, valueEnd = 5\<rparr>)] = Inr [(''A'', [c])]"
    using example_godotenv_single [OF r]
    by (simp add: read_value_def example_runtime_def slice_def example_line_def unquote_def DefaultPolicy_def result_simps)
  have "dotenv_Parse example_runtime (example_line c) keys DefaultPolicy = Inr \<lparr>doc_raw = Some (example_line c), doc_allowed = sort keys,
    doc_entries = managed_entries (sort keys) ?ss, doc_values = [(''A'', [c])], doc_unsupported = sort (unmanaged_keys (sort keys) ?ss),
    doc_policy = DefaultPolicy, doc_newline = detectNewline (example_line c), doc_finalNewline = hasFinalNewline (example_line c)\<rparr>"
    by (rule document_of_statements [OF st])
      (use c v keys m in \<open>auto simp: admissible_def ascii_def example_line_def validatePolicy_def fails_if_def DefaultPolicy_def
         lineCount_def hasFinalNewline_def is_break_def example_runtime_def\<close>)
  moreover have "detectNewline (example_line c) = [LF]" "\<not> hasFinalNewline (example_line c)"
    using c by (auto simp: detectNewline_def example_line_def hasFinalNewline_def is_break_def)
  ultimately show ?thesis using m keys by (simp add: example_document_def unmanaged_keys_def)
qed

lemma example_encode:
  assumes c: "c \<noteq> single_quote" "c \<noteq> backslash"
  shows "encodeValue example_runtime [c] = Some [single_quote, c, single_quote]"
proof -
  have k: "validKey ''ACMEMUX_VALUE''" by (simp add: validKey_def upper_letter_def)
  have "encodedValueRoundTrips example_runtime [c] (single_quoted [c])"
    using example_godotenv_single [OF new_statement [OF k example_quoted(1) [OF c]]]
    by (simp add: encodedValueRoundTrips_def example_runtime_def single_quoted_def slice_def unquote_def)
  with c show ?thesis by (simp add: encodeValue_def single_quoted_def)
qed

lemma example_apply:
  "dotenv_Apply example_runtime (example_document [''A''] (CHR ''1'')) [replace_change ''A'' ''2''] =
     Inr (example_line (CHR ''2''), [\<lparr>summary_key = ''A'', summary_action = ActionReplace\<rparr>])"
proof -
  have "ValidString ''2''" by (rule ValidString_ascii) (simp add: ascii_def)
  then show ?thesis
    using example_encode [of "CHR ''2''"] example_parse [of "CHR ''2''" "[''A'']"] keys_AB
    by (simp add: dotenv_Apply_def example_document_def result_simps plan_change_def plan_replace_def replace_change_def
      DefaultPolicy_def append_new_def example_line_def slice_def Let_def example_runtime_def)
qed

definition example_pair :: bytes where
  "example_pair = ''A='' @ [LF] @ ''B='' @ [single_quote, CHR ''2'', single_quote]"

lemma pair_first: "statement_at example_pair 0 = Some (''A'', \<lparr>statementStart = 0, statementEnd = 3, valueStart = 2, valueEnd = 2\<rparr>, False)"
proof -
  have k: "scan_key example_pair 0 = Inr (''A'', 1)" using scan_new_key [OF keys_AB(1)] by (simp add: example_pair_def)
  have n: "length example_pair = 8" "example_pair ! 2 = LF" by (simp_all add: example_pair_def)
  have h: "skipHorizontal example_pair 2 = 2" using n by (simp add: skipHorizontal_def skip_while_stop isHorizontalSpace_def)
  have "skip_while (\<lambda>c. \<not> is_break c) example_pair 2 = 2" using n by (simp add: skip_while_stop is_break_def)
  then have "scanValue example_pair 2 = Inr (2, 3, False)" using n by (simp add: scanValue_def is_break_def consumeLine_def Let_def)
  with k h show ?thesis by (simp add: statement_at_def numeral_2_eq_2)
qed

lemma pair_statements: "statements example_pair 0 =
  Some [(''A'', \<lparr>statementStart = 0, statementEnd = 3, valueStart = 2, valueEnd = 2\<rparr>, False),
        (''B'', \<lparr>statementStart = 3, statementEnd = 8, valueStart = 5, valueEnd = 8\<rparr>, False)]"
proof -
  let ?e = "\<lparr>statementStart = 0, statementEnd = 3, valueStart = 2, valueEnd = 2\<rparr> :: dotenv_entry"
  have d: "drop 3 example_pair = ''B'' @ ''='' @ [single_quote, CHR ''2'', single_quote]" "3 \<le> length example_pair"
    by (simp_all add: example_pair_def)
  have "statements (drop 3 example_pair) 0 = Some [(''B'', \<lparr>statementStart = 0, statementEnd = 5, valueStart = 2, valueEnd = 5\<rparr>, False)]"
    unfolding d(1) using new_statements [OF keys_AB(2) example_quoted(1) [of "CHR ''2''"]] example_quoted(2) [of "CHR ''2''"]
    by (simp add: eval_nat_numeral)
  moreover have "line_start example_pair 3" by (simp add: line_start_def example_pair_def is_break_def)
  ultimately have "statements example_pair 3 = Some [(''B'', \<lparr>statementStart = 3, statementEnd = 8, valueStart = 5, valueEnd = 8\<rparr>, False)]"
    using statements_shift [of example_pair 3 0] by (simp add: shift_entry_def)
  moreover have "statements example_pair 0 = map_option (Cons (''A'', ?e, False)) (statements example_pair (statementEnd ?e))"
    by (rule statements_statement [OF _ _ _ pair_first])
      (simp_all add: skipWhitespace_def skip_while_stop is_blank_def isHorizontalSpace_def is_break_def example_pair_def)
  ultimately show ?thesis by simp
qed

definition remove_change :: "bytes \<Rightarrow> dotenv_change" where
  "remove_change k = \<lparr>change_key = k, change_action = ActionRemove, change_value = []\<rparr>"

definition pair_document :: dotenv_document where
  "pair_document = \<lparr>doc_raw = Some example_pair, doc_allowed = [''A'', ''B''],
    doc_entries = [(''A'', \<lparr>statementStart = 0, statementEnd = 3, valueStart = 2, valueEnd = 2\<rparr>),
                   (''B'', \<lparr>statementStart = 3, statementEnd = 8, valueStart = 5, valueEnd = 8\<rparr>)],
    doc_values = [(''A'', []), (''B'', ''2'')],
    doc_unsupported = [], doc_policy = DefaultPolicy, doc_newline = [LF], doc_finalNewline = False\<rparr>"

lemma pair_lines: "readings (''A='' @ [LF]) = Some [(''A'', ''A='', 2, 2, False)]"
proof -
  let ?d = "''A='' @ [LF]" and ?e = "\<lparr>statementStart = 0, statementEnd = 3, valueStart = 2, valueEnd = 2\<rparr> :: dotenv_entry"
  have k: "scan_key ?d 0 = Inr (''A'', 1)" using scan_new_key [OF keys_AB(1), of "[LF]"] by simp
  have h: "skipHorizontal ?d 2 = 2" by (simp add: skipHorizontal_def skip_while_stop isHorizontalSpace_def)
  have "skip_while (\<lambda>c. \<not> is_break c) ?d 2 = 2" by (simp add: skip_while_stop is_break_def)
  then have "scanValue ?d 2 = Inr (2, 3, False)" by (simp add: scanValue_def is_break_def consumeLine_def Let_def)
  with k h have "statement_at ?d 0 = Some (''A'', ?e, False)" by (simp add: statement_at_def numeral_2_eq_2)
  from single_reading [OF this] show ?thesis
    by (simp add: reading_def strip_break_def is_blank_def isHorizontalSpace_def is_break_def slice_def)
qed

lemma pair_parse: "dotenv_Parse example_runtime example_pair [''A'', ''B''] DefaultPolicy = Inr pair_document"
proof -
  let ?ss = "[(''A'', \<lparr>statementStart = 0, statementEnd = 3, valueStart = 2, valueEnd = 2\<rparr>, False),
        (''B'', \<lparr>statementStart = 3, statementEnd = 8, valueStart = 5, valueEnd = 8\<rparr>, False)]"
  have r: "readings (''B'' @ ''='' @ [single_quote, CHR ''2'', single_quote]) =
      Some [(''B'', ''B'' @ ''='' @ [single_quote, CHR ''2'', single_quote], 2, 5, False)]"
    using new_statement [OF keys_AB(2) example_quoted(1) [of "CHR ''2''"]] example_quoted(2) [of "CHR ''2''"] by (simp add: eval_nat_numeral)
  have v: "read_values example_runtime example_pair DefaultPolicy (doc_entries pair_document) = Inr (doc_values pair_document)"
    using example_godotenv_single [OF r] example_godotenv_single [OF pair_lines]
    by (simp add: pair_document_def read_value_def example_runtime_def slice_def example_pair_def unquote_def DefaultPolicy_def result_simps)
  have m: "managed_entries (sort [''A'', ''B'']) ?ss = doc_entries pair_document" by (simp add: managed_entries_def pair_document_def)
  have "dotenv_Parse example_runtime example_pair [''A'', ''B''] DefaultPolicy = Inr \<lparr>doc_raw = Some example_pair, doc_allowed = sort [''A'', ''B''],
    doc_entries = managed_entries (sort [''A'', ''B'']) ?ss, doc_values = doc_values pair_document, doc_unsupported = sort (unmanaged_keys (sort [''A'', ''B'']) ?ss),
    doc_policy = DefaultPolicy, doc_newline = detectNewline example_pair, doc_finalNewline = hasFinalNewline example_pair\<rparr>"
    by (rule document_of_statements [OF pair_statements])
      (use v m keys_AB in \<open>auto simp: admissible_def ascii_def example_pair_def validatePolicy_def fails_if_def DefaultPolicy_def
         lineCount_def hasFinalNewline_def is_break_def example_runtime_def\<close>)
  then show ?thesis
    by (simp add: pair_document_def managed_entries_def unmanaged_keys_def detectNewline_def hasFinalNewline_def is_break_def example_pair_def)
qed

lemma example_valid: "ValidString ''2''"
  by (rule ValidString_ascii) (simp add: ascii_def)

lemmas apply_simps = dotenv_Apply_def result_simps plan_change_def plan_replace_def plan_remove_def replace_change_def remove_change_def
  removal_start_def precedingLineSeparator_def append_new_def slice_def Let_def

lemma pair_accepted: "\<exists>summaries. dotenv_Apply example_runtime pair_document [replace_change ''A'' ''2'', remove_change ''B''] =
  Inr (example_line (CHR ''2''), summaries)"
  using example_encode [of "CHR ''2''"] example_parse [of "CHR ''2''" "[''A'', ''B'']"] keys_AB example_valid
  by (simp add: apply_simps pair_document_def example_pair_def DefaultPolicy_def example_line_def example_runtime_def)

lemma pair_refused: "dotenv_Apply example_runtime pair_document [remove_change ''B'', replace_change ''A'' ''2''] =
  Inl (dotenv_failure CodeInvalidChange)"
  using example_encode [of "CHR ''2''"] keys_AB example_valid
  by (simp add: apply_simps pair_document_def example_pair_def DefaultPolicy_def example_line_def example_runtime_def)


subsection \<open>Properties\<close>




end
