(* ===== verification/Workspace_Types.thy ===== *)
theory Workspace_Types
  imports Operation_Text "HOL-Library.Word" "HOL-Library.Product_Lexorder"
begin

text \<open>
  The data of the native workspace component, \<open>src/internal/workspace/types.go\<close>,
  \<open>transaction_types.go\<close> and the error values of the package: path evidence, reviews and
  selections, file identities and fingerprints, source sets, replacements, and the secret-free
  journal of an edit.  String enumerations are datatypes with one constructor for any other text;
  a Go error is the list of the sentinel errors it wraps, so \<open>errors.Is\<close> is membership.
\<close>

unbundle bit_operations_syntax

subsection \<open>Errors\<close>

datatype sentinel =
    ErrWorkspaceBusy | ErrRecoveryRequired | ErrSourceChanged | ErrInvalidEdit | ErrNoEditJournal
  | ErrNoSelection | ErrInvalidSelection | ContextCanceled

type_synonym ws_error = "sentinel list"

abbreviation plain_error :: ws_error where "plain_error \<equiv> []"

subsection \<open>Path evidence\<close>

datatype PathRole =
    RoleWorkingDirectory | RoleConfiguration | RoleStorage | RoleDotenv | RoleWebroot | RoleWorkspace
  | RoleCloudCredential | RoleCloudHelper | RoleCloudDirectory | RoleOther bytes

datatype PathType =
    PathTypeUnknown | PathTypeMissing | PathTypeDirectory | PathTypeRegular | PathTypeSymlink | PathTypeOther
  | PathTypeText bytes

datatype ConfigurationSource =
    ConfigurationUnset | ConfigurationExplicit | ConfigurationConventionalYML | ConfigurationConventionalYAML
  | ConfigurationOther bytes

record AccessEvidence =
  ac_Readable :: bool
  ac_Writable :: bool
  ac_Searchable :: bool

record ComponentEvidence =
  ce_Path :: bytes
  ce_Type :: PathType
  ce_Device :: nat
  ce_Inode :: nat
  ce_Mode :: "32 word"
  ce_UID :: "32 word"
  ce_GID :: "32 word"
  ce_NLink :: nat
  ce_Access :: AccessEvidence

record PathEvidence =
  pe_Role :: PathRole
  pe_Reference :: bytes
  pe_Path :: bytes
  pe_Exists :: bool
  pe_Type :: PathType
  pe_Device :: nat
  pe_Inode :: nat
  pe_Mode :: "32 word"
  pe_UID :: "32 word"
  pe_GID :: "32 word"
  pe_NLink :: nat
  pe_Size :: int
  pe_ModifiedAt :: gotime
  pe_ChangedAt :: gotime
  pe_Access :: AccessEvidence
  pe_Components :: "ComponentEvidence list"
  pe_Safe :: bool

datatype DiagnosticSeverity = SeverityBlocking | SeverityNotice | SeverityOther bytes

record Diagnostic =
  di_Code :: bytes
  di_Severity :: DiagnosticSeverity
  di_Role :: PathRole
  di_Path :: bytes
  di_Component :: bytes
  di_Detail :: bytes

record Review =
  rv_ConfigurationSource :: ConfigurationSource
  rv_WorkingDirectory :: PathEvidence
  rv_Configuration :: PathEvidence
  rv_Storage :: PathEvidence
  rv_DotenvFiles :: "PathEvidence list"
  rv_Webroots :: "PathEvidence list"
  rv_Diagnostics :: "Diagnostic list"
  rv_Adoptable :: bool
  rv_ReviewedEvidenceSHA256 :: bytes
  rv_ObservedAt :: gotime

definition AllPaths :: "Review \<Rightarrow> PathEvidence list" where
  "AllPaths review =
     [rv_WorkingDirectory review, rv_Configuration review, rv_Storage review] @ rv_DotenvFiles review @ rv_Webroots review"

record Selection =
  sl_Review :: Review
  sl_ReviewedAt :: gotime

record Request =
  rq_WorkingDirectory :: bytes
  rq_ConfigurationPath :: bytes

definition hasBlockingDiagnostics :: "Diagnostic list \<Rightarrow> bool" where
  "hasBlockingDiagnostics = list_ex (\<lambda>d. di_Severity d = SeverityBlocking)"

text \<open>The zero values of the structs.\<close>

definition no_access :: AccessEvidence where
  "no_access = \<lparr>ac_Readable = False, ac_Writable = False, ac_Searchable = False\<rparr>"

definition no_evidence :: PathEvidence where
  "no_evidence = \<lparr>pe_Role = RoleOther [], pe_Reference = [], pe_Path = [], pe_Exists = False, pe_Type = PathTypeText [],
     pe_Device = 0, pe_Inode = 0, pe_Mode = 0, pe_UID = 0, pe_GID = 0, pe_NLink = 0, pe_Size = 0,
     pe_ModifiedAt = zero_time, pe_ChangedAt = zero_time, pe_Access = no_access, pe_Components = [], pe_Safe = False\<rparr>"

definition pathEvidenceForPath :: "Review \<Rightarrow> bytes \<Rightarrow> PathEvidence" where
  "pathEvidenceForPath review path =
     (case find (\<lambda>e. pe_Path e = path) (AllPaths review) of Some e \<Rightarrow> e | None \<Rightarrow> no_evidence)"

text \<open>Directory entry churn changes size, times and link counts of a directory without changing its
  identity; the comparisons leave them out.\<close>

definition stable_component :: "ComponentEvidence \<Rightarrow> ComponentEvidence" where
  "stable_component c = c\<lparr>ce_NLink := 0\<rparr>"

definition stable_directory :: "PathEvidence \<Rightarrow> PathEvidence" where
  "stable_directory e =
     (if pe_Type e = PathTypeDirectory
      then e\<lparr>pe_Size := 0, pe_ModifiedAt := zero_time, pe_ChangedAt := zero_time\<rparr> else e)"

definition stable_evidence :: "PathEvidence \<Rightarrow> PathEvidence" where
  "stable_evidence e =
     (let e = stable_directory (e\<lparr>pe_Safe := False\<rparr>);
          e = (if pe_Type e = PathTypeDirectory then e\<lparr>pe_NLink := 0\<rparr> else e)
      in e\<lparr>pe_Components := map stable_component (pe_Components e)\<rparr>)"

definition samePathEvidence :: "PathEvidence \<Rightarrow> PathEvidence \<Rightarrow> bool" where
  "samePathEvidence left right \<longleftrightarrow> stable_evidence left = stable_evidence right"

definition samePathEvidenceSlice :: "PathEvidence list \<Rightarrow> PathEvidence list \<Rightarrow> bool" where
  "samePathEvidenceSlice left right \<longleftrightarrow> length left = length right \<and> list_all2 samePathEvidence left right"

definition samePathPlacementEvidence :: "PathEvidence \<Rightarrow> PathEvidence \<Rightarrow> bool" where
  "samePathPlacementEvidence left right \<longleftrightarrow> samePathEvidence (stable_directory left) (stable_directory right)"

definition samePathPlacementEvidenceSlice :: "PathEvidence list \<Rightarrow> PathEvidence list \<Rightarrow> bool" where
  "samePathPlacementEvidenceSlice left right \<longleftrightarrow> length left = length right \<and> list_all2 samePathPlacementEvidence left right"

definition ancestorComponents :: "PathEvidence \<Rightarrow> ComponentEvidence list" where
  "ancestorComponents e =
     (let components = pe_Components e in
      if components \<noteq> [] \<and> ce_Path (last components) = pe_Path e then butlast components else components)"

definition samePathAncestorEvidence :: "PathEvidence \<Rightarrow> PathEvidence \<Rightarrow> bool" where
  "samePathAncestorEvidence left right \<longleftrightarrow>
     pe_Role left = pe_Role right \<and> pe_Reference left = pe_Reference right \<and> pe_Path left = pe_Path right \<and>
     map stable_component (ancestorComponents left) = map stable_component (ancestorComponents right)"

subsection \<open>Files\<close>

record FileIdentity =
  fi_Exists :: bool
  fi_Device :: nat
  fi_Inode :: nat
  fi_Mode :: "32 word"
  fi_UID :: "32 word"
  fi_GID :: "32 word"
  fi_NLink :: nat
  fi_Size :: int
  fi_ModifiedAt :: gotime
  fi_ChangedAt :: gotime

definition no_identity :: FileIdentity where
  "no_identity = \<lparr>fi_Exists = False, fi_Device = 0, fi_Inode = 0, fi_Mode = 0, fi_UID = 0, fi_GID = 0, fi_NLink = 0,
     fi_Size = 0, fi_ModifiedAt = zero_time, fi_ChangedAt = zero_time\<rparr>"

record SourceFingerprint =
  sf_Path :: bytes
  sf_Identity :: FileIdentity
  sf_SHA256 :: bytes

definition no_fingerprint :: SourceFingerprint where
  "no_fingerprint = \<lparr>sf_Path = [], sf_Identity = no_identity, sf_SHA256 = replicate 32 (CHR 0x00)\<rparr>"

record SourceFile =
  so_Role :: PathRole
  so_Path :: bytes
  so_Reference :: bytes
  so_Content :: bytes
  so_Fingerprint :: SourceFingerprint

record SourceSet =
  ss_Selection :: Selection
  ss_Configuration :: SourceFile
  ss_Dotenv :: "SourceFile list"
  ss_closed :: bool

definition Files :: "SourceSet \<Rightarrow> SourceFile list" where
  "Files sources = (if ss_closed sources then [] else ss_Configuration sources # ss_Dotenv sources)"

definition sourceForPath :: "SourceSet \<Rightarrow> bytes \<Rightarrow> SourceFile option" where
  "sourceForPath sources path =
     (if so_Path (ss_Configuration sources) = path then Some (ss_Configuration sources)
      else find (\<lambda>source. so_Path source = path) (ss_Dotenv sources))"

record Replacement =
  rp_Role :: PathRole
  rp_Path :: bytes
  rp_Content :: bytes

record CommitPlan =
  cp_Sources :: SourceSet
  cp_CandidateConfiguration :: bytes
  cp_Replacements :: "Replacement list"

record CandidatePath =
  ca_Role :: PathRole
  ca_Reference :: bytes
  ca_Path :: bytes
  ca_Exists :: bool
  ca_WillCreate :: bool
  ca_Evidence :: PathEvidence

record CandidateAudit =
  au_Storage :: PathEvidence
  au_Dotenv :: "CandidatePath list"
  au_Webroots :: "PathEvidence list"

definition Equal_time :: "gotime \<Rightarrow> gotime \<Rightarrow> bool" where
  "Equal_time a b \<longleftrightarrow> t_ns a = t_ns b"

definition sameFileIdentity :: "FileIdentity \<Rightarrow> FileIdentity \<Rightarrow> bool \<Rightarrow> bool" where
  "sameFileIdentity left right compareTimes \<longleftrightarrow>
     fi_Exists left = fi_Exists right \<and> fi_Device left = fi_Device right \<and> fi_Inode left = fi_Inode right \<and>
     fi_Mode left = fi_Mode right \<and> fi_UID left = fi_UID right \<and> fi_GID left = fi_GID right \<and>
     fi_NLink left = fi_NLink right \<and> fi_Size left = fi_Size right \<and>
     (compareTimes \<longrightarrow> Equal_time (fi_ModifiedAt left) (fi_ModifiedAt right) \<and> Equal_time (fi_ChangedAt left) (fi_ChangedAt right))"

definition sameSourceFingerprint :: "SourceFingerprint \<Rightarrow> SourceFingerprint \<Rightarrow> bool" where
  "sameSourceFingerprint left right \<longleftrightarrow> sf_Path left = sf_Path right \<and>
     sameFileIdentity (sf_Identity left) (sf_Identity right) True \<and> sf_SHA256 left = sf_SHA256 right"

definition sameFingerprintContent :: "SourceFingerprint \<Rightarrow> SourceFingerprint \<Rightarrow> bool \<Rightarrow> bool" where
  "sameFingerprintContent expected current compareTimes \<longleftrightarrow>
     sameFileIdentity (sf_Identity expected) (sf_Identity current) compareTimes \<and> sf_SHA256 expected = sf_SHA256 current"

definition samePlacement :: "FileIdentity \<Rightarrow> FileIdentity \<Rightarrow> bool" where
  "samePlacement expected current \<longleftrightarrow>
     fi_Exists expected \<and> fi_Exists current \<and> fi_Device expected = fi_Device current \<and> fi_Inode expected = fi_Inode current \<and>
     fi_Mode expected = fi_Mode current \<and> fi_UID expected = fi_UID current \<and> fi_GID expected = fi_GID current \<and>
     fi_NLink expected = fi_NLink current \<and> fi_Size expected = fi_Size current \<and>
     Equal_time (fi_ModifiedAt expected) (fi_ModifiedAt current) \<and> Equal_time (fi_ChangedAt expected) (fi_ChangedAt current)"

definition originalPlacement :: "FileIdentity \<Rightarrow> FileIdentity \<Rightarrow> bool \<Rightarrow> bool" where
  "originalPlacement original current currentExists =
     (if \<not> fi_Exists original then \<not> currentExists else currentExists \<and> samePlacement original current)"

definition sameDirectoryIdentity :: "FileIdentity \<Rightarrow> FileIdentity \<Rightarrow> bool" where
  "sameDirectoryIdentity expected current \<longleftrightarrow>
     fi_Exists expected \<and> fi_Exists current \<and> fi_Device expected = fi_Device current \<and> fi_Inode expected = fi_Inode current \<and>
     fi_Mode expected = fi_Mode current \<and> fi_UID expected = fi_UID current \<and> fi_GID expected = fi_GID current \<and>
     fi_NLink expected = fi_NLink current"

text \<open>Dotenv files are replaced before the configuration, each group in path order.\<close>

definition sortReplacements :: "Replacement list \<Rightarrow> Replacement list" where
  "sortReplacements = sort_key (\<lambda>r. (if rp_Role r = RoleDotenv then 0 else 1 :: nat, rp_Path r))"

definition maximumFileLimit :: "PathRole \<Rightarrow> int" where
  "maximumFileLimit role = (if role = RoleConfiguration then 8 * 2 ^ 20 else 2 ^ 20)"

subsection \<open>The journal of an edit\<close>

datatype JournalPhase = JournalStaging | JournalPrepared | JournalReplacing | JournalFinalizing | JournalOther bytes

record JournalFile =
  jf_Ordinal :: int
  jf_Role :: PathRole
  jf_TargetPath :: bytes
  jf_ParentPath :: bytes
  jf_StageBasename :: bytes
  jf_Original :: FileIdentity
  jf_Parent :: FileIdentity
  jf_CandidateReady :: bool
  jf_Candidate :: FileIdentity
  jf_Applied :: bool

record Journal =
  jo_TransactionID :: bytes
  jo_Phase :: JournalPhase
  jo_WorkingDirectory :: bytes
  jo_ConfigurationPath :: bytes
  jo_Bootstrap :: bool
  jo_ConfigurationSource :: ConfigurationSource
  jo_CreatedAt :: gotime
  jo_Files :: "JournalFile list"

datatype RecoveryState = RecoveryUnapplied | RecoveryPartial | RecoveryApplied | RecoveryAmbiguous

datatype RecoveryFileState = RecoveryFileUnstaged | RecoveryFileUnapplied | RecoveryFileApplied | RecoveryFileAmbiguous

record RecoveryFile =
  rf_Ordinal :: int
  rf_Role :: PathRole
  rf_Path :: bytes
  rf_State :: RecoveryFileState

record Recovery =
  re_TransactionID :: bytes
  re_WorkingDirectory :: bytes
  re_ConfigurationPath :: bytes
  re_Bootstrap :: bool
  re_Phase :: JournalPhase
  re_State :: RecoveryState
  re_Files :: "RecoveryFile list"

datatype RecoveryResolution = ResolutionDiscardUnapplied | ResolutionFinalizeApplied | ResolutionAdoptCurrent | ResolutionOther bytes

record RecoveryResult =
  rr_Selection :: "Selection option"
  rr_SelectionPresent :: bool

end
