(* ===== verification/Workspace_Journal.thy ===== *)
theory Workspace_Journal
  imports Workspace_Types
begin

text \<open>
  The durable journal of a native edit, \<open>src/internal/workspace/journal.go\<close>: the validators, the
  text form of the rows, and every statement as a function on the singleton row and its file rows,
  with the constraints of \<open>src/internal/state/migrations/006_native_edits.sql\<close> and \<open>007_workspace_bootstrap.sql\<close>.
  The transaction around a statement belongs to the caller's world.  \<open>euid\<close> is the
  effective user of the process.
\<close>

subsection \<open>Validators\<close>

definition bad_path_rune :: "nat \<Rightarrow> bool" where
  "bad_path_rune r \<longleftrightarrow> r < 32 \<or> r = 127"

definition validateCanonicalStorePath :: "bytes \<Rightarrow> bool" where
  "validateCanonicalStorePath v \<longleftrightarrow>
     v \<noteq> [] \<and> length v \<le> 4095 \<and> ValidString v \<and> \<not> list_ex (\<lambda>(r, n). bad_path_rune r) (runes v) \<and>
     IsAbs v \<and> Clean_abs v = v"

definition validateStoreTime :: "gotime \<Rightarrow> bool" where
  "validateStoreTime t \<longleftrightarrow> \<not> (IsZero t \<or> \<not> t_utc t \<or> t_ns t < 0 \<or> t_ns t \<ge> year_10000) \<and> t = Round0 t"

definition formatStoreTime :: "gotime \<Rightarrow> bytes" where
  "formatStoreTime t = rfc3339_text (nat (t_ns t))"

definition parseStoreTime :: "bytes \<Rightarrow> gotime option" where
  "parseStoreTime v =
     (case parse_rfc3339 v of
        None \<Rightarrow> None
      | Some n \<Rightarrow>
          (let t = utc_instant (int n) in
           if formatStoreTime t \<noteq> v then None else if validateStoreTime t then Some t else None))"

definition canonicalUint64 :: "bytes \<Rightarrow> nat option" where
  "canonicalUint64 v = (case ParseUint v 64 of None \<Rightarrow> None | Some n \<Rightarrow> if Itoa n \<noteq> v then None else Some n)"

definition storedBoolean :: "int \<Rightarrow> bool option" where
  "storedBoolean v = (if v = 0 then Some False else if v = 1 then Some True else None)"

definition boolInteger :: "bool \<Rightarrow> int" where
  "boolInteger b = (if b then 1 else 0)"

definition formatOptionalTime :: "gotime \<Rightarrow> bytes" where
  "formatOptionalTime t = (if IsZero t then [] else formatStoreTime t)"

definition validTransactionID :: "bytes \<Rightarrow> bool" where
  "validTransactionID v \<longleftrightarrow> length v = 32 \<and> hex_decodes v \<and> is_lower v"

definition journalPhaseOrder :: "JournalPhase \<Rightarrow> int" where
  "journalPhaseOrder p =
     (case p of JournalStaging \<Rightarrow> 0 | JournalPrepared \<Rightarrow> 1 | JournalReplacing \<Rightarrow> 2 | JournalFinalizing \<Rightarrow> 3 | JournalOther _ \<Rightarrow> -1)"

definition validJournalPhase :: "JournalPhase \<Rightarrow> bool" where
  "validJournalPhase p \<longleftrightarrow> journalPhaseOrder p \<ge> 0"

definition S_IFMT :: "32 word" where "S_IFMT = 0xF000"
definition S_IFREG :: "32 word" where "S_IFREG = 0x8000"

definition validOriginalIdentity :: "FileIdentity \<Rightarrow> bool" where
  "validOriginalIdentity i \<longleftrightarrow>
     fi_Exists i \<and> fi_Device i \<noteq> 0 \<and> fi_Inode i \<noteq> 0 \<and> fi_NLink i = 1 \<and> fi_Size i \<ge> 0 \<and>
     \<not> IsZero (fi_ModifiedAt i) \<and> \<not> IsZero (fi_ChangedAt i)"

definition validCandidateIdentity :: "32 word \<Rightarrow> FileIdentity \<Rightarrow> bool" where
  "validCandidateIdentity euid i \<longleftrightarrow>
     fi_Exists i \<and> fi_Device i \<noteq> 0 \<and> fi_Inode i \<noteq> 0 \<and> fi_NLink i = 1 \<and> fi_Size i \<ge> 0 \<and>
     fi_Mode i AND S_IFMT = S_IFREG \<and> fi_Mode i AND 0xFFF = 0x180 \<and> fi_UID i = euid \<and>
     \<not> IsZero (fi_ModifiedAt i) \<and> \<not> IsZero (fi_ChangedAt i)"

definition zeroMissingIdentity :: "FileIdentity \<Rightarrow> bool" where
  "zeroMissingIdentity i \<longleftrightarrow>
     \<not> fi_Exists i \<and> fi_Device i = 0 \<and> fi_Inode i = 0 \<and> fi_Mode i = 0 \<and> fi_UID i = 0 \<and> fi_GID i = 0 \<and>
     fi_NLink i = 0 \<and> fi_Size i = 0 \<and> IsZero (fi_ModifiedAt i) \<and> IsZero (fi_ChangedAt i)"

definition configuration_source_named :: "ConfigurationSource \<Rightarrow> bool" where
  "configuration_source_named s \<longleftrightarrow>
     s = ConfigurationExplicit \<or> s = ConfigurationConventionalYML \<or> s = ConfigurationConventionalYAML"

definition stage_path :: "JournalFile \<Rightarrow> bytes" where
  "stage_path f = Clean_abs (jf_ParentPath f @ [slash] @ jf_StageBasename f)"

text \<open>One file of a journal at its position, after files with the given target and staging paths.\<close>

definition journal_file_error :: "32 word \<Rightarrow> Journal \<Rightarrow> int \<Rightarrow> bytes list \<Rightarrow> bytes list \<Rightarrow> JournalFile \<Rightarrow> bytes option" where
  "journal_file_error euid journal index paths stages f = first_error
     [fails_if (jf_Ordinal f \<noteq> index \<or> jf_Role f \<noteq> RoleConfiguration \<and> jf_Role f \<noteq> RoleDotenv)
        ''journal file order or role is invalid'',
      fails_if (jf_Role f = RoleConfiguration \<and> jf_TargetPath f \<noteq> jo_ConfigurationPath journal)
        ''journal configuration path changed'',
      fails_if (\<not> validateCanonicalStorePath (jf_TargetPath f) \<or> Dir_abs (jf_TargetPath f) \<noteq> jf_ParentPath f)
        ''journal target path is invalid'',
      fails_if (Base (jf_StageBasename f) \<noteq> jf_StageBasename f
                \<or> \<not> HasPrefix (jf_StageBasename f) (''.acmemux-edit-'' @ jo_TransactionID journal @ ''-''))
        ''journal staging name is invalid'',
      fails_if (jf_TargetPath f \<in> set paths) ''journal target path is duplicated'',
      fails_if (stage_path f \<in> set stages) ''journal staging path is duplicated'',
      fails_if (\<not> fi_Exists (jf_Parent f) \<or> fi_Device (jf_Parent f) = 0 \<or> fi_Inode (jf_Parent f) = 0)
        ''journal parent identity is invalid'',
      fails_if (fi_Exists (jf_Original f) \<and> \<not> validOriginalIdentity (jf_Original f)) ''journal original identity is invalid'',
      fails_if (\<not> fi_Exists (jf_Original f) \<and> \<not> zeroMissingIdentity (jf_Original f)) ''journal missing identity is invalid'',
      fails_if (jo_Bootstrap journal \<and> fi_Exists (jf_Original f)) ''bootstrap journal target already existed'',
      fails_if (jf_CandidateReady f \<noteq> fi_Exists (jf_Candidate f) \<or> jf_CandidateReady f \<and> \<not> validCandidateIdentity euid (jf_Candidate f))
        ''journal candidate identity is invalid'',
      fails_if (\<not> jf_CandidateReady f \<and> \<not> zeroMissingIdentity (jf_Candidate f) \<or> jf_Applied f \<and> \<not> jf_CandidateReady f)
        ''journal candidate state is invalid'']"

fun journal_files_error :: "32 word \<Rightarrow> Journal \<Rightarrow> int \<Rightarrow> bytes list \<Rightarrow> bytes list \<Rightarrow> JournalFile list \<Rightarrow> bytes option" where
  "journal_files_error euid journal index paths stages [] = None"
| "journal_files_error euid journal index paths stages (f # fs) = first_error
     [journal_file_error euid journal index paths stages f,
      journal_files_error euid journal (index + 1) (jf_TargetPath f # paths) (stage_path f # stages) fs]"

definition validateJournal :: "32 word \<Rightarrow> Journal \<Rightarrow> bytes option" where
  "validateJournal euid j = first_error
     [fails_if (\<not> validTransactionID (jo_TransactionID j) \<or> \<not> validJournalPhase (jo_Phase j)) ''journal identity or phase is invalid'',
      fails_if (\<not> validateCanonicalStorePath (jo_WorkingDirectory j)) ''journal working directory is invalid'',
      fails_if (\<not> validateCanonicalStorePath (jo_ConfigurationPath j)) ''journal configuration path is invalid'',
      fails_if (jo_Bootstrap j \<and> \<not> configuration_source_named (jo_ConfigurationSource j))
        ''bootstrap journal configuration source is invalid'',
      fails_if (\<not> jo_Bootstrap j \<and> jo_ConfigurationSource j \<noteq> ConfigurationUnset
                \<and> \<not> configuration_source_named (jo_ConfigurationSource j)) ''journal configuration source is invalid'',
      fails_if (\<not> validateStoreTime (jo_CreatedAt j)) ''journal creation time is invalid'',
      fails_if (jo_Files j = [] \<or> length (jo_Files j) > 257) ''journal file count is invalid'',
      journal_files_error euid j 0 [] [] (jo_Files j),
      (let count = length (filter (\<lambda>f. jf_Role f = RoleConfiguration) (jo_Files j)) in
       fails_if (count > 1 \<or> jo_Bootstrap j \<and> count \<noteq> 1) ''journal contains multiple configuration targets'')]"

subsection \<open>Rows\<close>

text \<open>The columns that hold one file identity, and their text.\<close>

record identity_columns =
  ic_device :: bytes
  ic_inode :: bytes
  ic_mode :: int
  ic_uid :: int
  ic_gid :: int
  ic_nlink :: bytes
  ic_size :: int
  ic_modified :: bytes
  ic_changed :: bytes

record journal_row =
  jr_transaction_id :: bytes
  jr_phase :: JournalPhase
  jr_working_directory :: bytes
  jr_configuration_path :: bytes
  jr_created_at :: bytes
  jr_bootstrap :: int
  jr_configuration_source :: ConfigurationSource

record journal_file_row =
  fr_ordinal :: int
  fr_role :: PathRole
  fr_target_path :: bytes
  fr_parent_path :: bytes
  fr_stage_basename :: bytes
  fr_target_existed :: int
  fr_parent_device :: bytes
  fr_parent_inode :: bytes
  fr_original :: identity_columns
  fr_candidate_ready :: int
  fr_candidate :: identity_columns
  fr_applied :: int

record journal_db =
  jdb_journal :: "journal_row option"
  jdb_files :: "journal_file_row list"

definition empty_journal :: journal_db where
  "empty_journal = \<lparr>jdb_journal = None, jdb_files = []\<rparr>"

definition identity_text :: "(gotime \<Rightarrow> bytes) \<Rightarrow> FileIdentity \<Rightarrow> identity_columns" where
  "identity_text time i =
     \<lparr>ic_device = Itoa (fi_Device i), ic_inode = Itoa (fi_Inode i), ic_mode = uint (fi_Mode i), ic_uid = uint (fi_UID i),
      ic_gid = uint (fi_GID i), ic_nlink = Itoa (fi_NLink i), ic_size = fi_Size i,
      ic_modified = time (fi_ModifiedAt i), ic_changed = time (fi_ChangedAt i)\<rparr>"

definition default_columns :: identity_columns where
  "default_columns = \<lparr>ic_device = ''0'', ic_inode = ''0'', ic_mode = 0, ic_uid = 0, ic_gid = 0, ic_nlink = ''0'', ic_size = 0,
     ic_modified = [], ic_changed = []\<rparr>"

definition journal_insert :: "Journal \<Rightarrow> journal_row" where
  "journal_insert j =
     \<lparr>jr_transaction_id = jo_TransactionID j, jr_phase = jo_Phase j, jr_working_directory = jo_WorkingDirectory j,
      jr_configuration_path = jo_ConfigurationPath j, jr_created_at = formatStoreTime (jo_CreatedAt j),
      jr_bootstrap = boolInteger (jo_Bootstrap j), jr_configuration_source = jo_ConfigurationSource j\<rparr>"

definition journal_file_insert :: "JournalFile \<Rightarrow> journal_file_row" where
  "journal_file_insert f =
     \<lparr>fr_ordinal = jf_Ordinal f, fr_role = jf_Role f, fr_target_path = jf_TargetPath f, fr_parent_path = jf_ParentPath f,
      fr_stage_basename = jf_StageBasename f, fr_target_existed = boolInteger (fi_Exists (jf_Original f)),
      fr_parent_device = Itoa (fi_Device (jf_Parent f)), fr_parent_inode = Itoa (fi_Inode (jf_Parent f)),
      fr_original = identity_text formatOptionalTime (jf_Original f),
      fr_candidate_ready = 0, fr_candidate = default_columns, fr_applied = 0\<rparr>"

definition persistedIdentity :: "bool \<Rightarrow> identity_columns \<Rightarrow> FileIdentity option" where
  "persistedIdentity existing c =
     Option.bind (canonicalUint64 (ic_device c)) (\<lambda>device.
     Option.bind (canonicalUint64 (ic_inode c)) (\<lambda>inode.
     Option.bind (canonicalUint64 (ic_nlink c)) (\<lambda>nlink.
     let i = \<lparr>fi_Exists = existing, fi_Device = device, fi_Inode = inode, fi_Mode = word_of_int (ic_mode c),
              fi_UID = word_of_int (ic_uid c), fi_GID = word_of_int (ic_gid c), fi_NLink = nlink, fi_Size = ic_size c,
              fi_ModifiedAt = zero_time, fi_ChangedAt = zero_time\<rparr> in
     if \<not> existing then (if ic_modified c \<noteq> [] \<or> ic_changed c \<noteq> [] then None else Some i)
     else
       Option.bind (parseStoreTime (ic_modified c)) (\<lambda>modified.
       Option.bind (parseStoreTime (ic_changed c)) (\<lambda>changed.
       Some (i\<lparr>fi_ModifiedAt := modified, fi_ChangedAt := changed\<rparr>))))))"

definition placement_identity :: "nat \<Rightarrow> nat \<Rightarrow> FileIdentity" where
  "placement_identity device inode = no_identity\<lparr>fi_Exists := True, fi_Device := device, fi_Inode := inode\<rparr>"

definition persisted_file :: "journal_file_row \<Rightarrow> JournalFile option" where
  "persisted_file r =
     Option.bind (canonicalUint64 (fr_parent_device r)) (\<lambda>parentDevice.
     Option.bind (canonicalUint64 (fr_parent_inode r)) (\<lambda>parentInode.
     Option.bind (storedBoolean (fr_target_existed r)) (\<lambda>existed.
     Option.bind (persistedIdentity existed (fr_original r)) (\<lambda>original.
     Option.bind (storedBoolean (fr_candidate_ready r)) (\<lambda>ready.
     Option.bind (persistedIdentity ready (fr_candidate r)) (\<lambda>candidate.
     Option.bind (storedBoolean (fr_applied r)) (\<lambda>applied.
     Some \<lparr>jf_Ordinal = fr_ordinal r, jf_Role = fr_role r, jf_TargetPath = fr_target_path r, jf_ParentPath = fr_parent_path r,
           jf_StageBasename = fr_stage_basename r, jf_Original = original,
           jf_Parent = placement_identity parentDevice parentInode, jf_CandidateReady = ready, jf_Candidate = candidate,
           jf_Applied = applied\<rparr>)))))))"

subsection \<open>The constraints of the schema\<close>

definition decimal_column :: "bytes \<Rightarrow> bool" where
  "decimal_column s \<longleftrightarrow> 1 \<le> length s \<and> length s \<le> 20 \<and> list_all is_digit s"

definition time_column :: "bytes \<Rightarrow> bool" where
  "time_column s \<longleftrightarrow> s = [] \<or> 20 \<le> length s \<and> length s \<le> 30"

definition path_column :: "bytes \<Rightarrow> bool" where
  "path_column s \<longleftrightarrow> 1 \<le> length s \<and> length s \<le> 4095"

definition uint32_column :: "int \<Rightarrow> bool" where
  "uint32_column v \<longleftrightarrow> 0 \<le> v \<and> v \<le> 4294967295"

definition identity_ok :: "identity_columns \<Rightarrow> bool" where
  "identity_ok c \<longleftrightarrow> decimal_column (ic_device c) \<and> decimal_column (ic_inode c) \<and> decimal_column (ic_nlink c) \<and>
     uint32_column (ic_mode c) \<and> uint32_column (ic_uid c) \<and> uint32_column (ic_gid c) \<and> 0 \<le> ic_size c \<and>
     time_column (ic_modified c) \<and> time_column (ic_changed c)"

definition boolean_column :: "int \<Rightarrow> bool" where
  "boolean_column v \<longleftrightarrow> v = 0 \<or> v = 1"

definition journal_row_ok :: "journal_row \<Rightarrow> bool" where
  "journal_row_ok r \<longleftrightarrow>
     length (jr_transaction_id r) = 32 \<and> list_all hex_digit (jr_transaction_id r) \<and> is_lower (jr_transaction_id r) \<and>
     validJournalPhase (jr_phase r) \<and> path_column (jr_working_directory r) \<and> path_column (jr_configuration_path r) \<and>
     20 \<le> length (jr_created_at r) \<and> length (jr_created_at r) \<le> 30 \<and> boolean_column (jr_bootstrap r) \<and>
     (jr_configuration_source r = ConfigurationUnset \<or> configuration_source_named (jr_configuration_source r))"

definition file_row_ok :: "journal_file_row \<Rightarrow> bool" where
  "file_row_ok r \<longleftrightarrow>
     0 \<le> fr_ordinal r \<and> fr_ordinal r \<le> 256 \<and> (fr_role r = RoleConfiguration \<or> fr_role r = RoleDotenv) \<and>
     path_column (fr_target_path r) \<and> path_column (fr_parent_path r) \<and>
     1 \<le> length (fr_stage_basename r) \<and> length (fr_stage_basename r) \<le> 128 \<and> slash \<notin> set (fr_stage_basename r) \<and>
     boolean_column (fr_target_existed r) \<and> decimal_column (fr_parent_device r) \<and> decimal_column (fr_parent_inode r) \<and>
     identity_ok (fr_original r) \<and> boolean_column (fr_candidate_ready r) \<and> identity_ok (fr_candidate r) \<and> boolean_column (fr_applied r)"

definition journal_files_ok :: "journal_file_row list \<Rightarrow> bool" where
  "journal_files_ok rows \<longleftrightarrow> list_all file_row_ok rows \<and> distinct (map fr_ordinal rows) \<and>
     distinct (map fr_target_path rows) \<and> distinct (map (\<lambda>r. (fr_parent_path r, fr_stage_basename r)) rows)"

subsection \<open>Statements\<close>

definition Create_journal :: "32 word \<Rightarrow> Journal \<Rightarrow> journal_db \<Rightarrow> (ws_error, journal_db) result" where
  "Create_journal euid journal db =
     (if validateJournal euid journal \<noteq> None then Inl [ErrInvalidEdit]
      else
        (let row = journal_insert journal; rows = map journal_file_insert (jo_Files journal) in
         if jdb_journal db \<noteq> None \<or> \<not> journal_row_ok row \<or> \<not> journal_files_ok rows then Inl plain_error
         else Inr \<lparr>jdb_journal = Some row, jdb_files = rows\<rparr>))"

fun load_files :: "int \<Rightarrow> journal_file_row list \<Rightarrow> JournalFile list option" where
  "load_files index [] = Some []"
| "load_files index (r # rs) =
     (if index \<ge> 257 \<or> fr_ordinal r \<noteq> index then None
      else Option.bind (persisted_file r) (\<lambda>f. map_option (Cons f) (load_files (index + 1) rs)))"

definition Load_journal :: "32 word \<Rightarrow> journal_db \<Rightarrow> (ws_error, Journal) result" where
  "Load_journal euid db =
     (case jdb_journal db of
        None \<Rightarrow> Inl [ErrNoEditJournal]
      | Some row \<Rightarrow>
          (case (parseStoreTime (jr_created_at row), storedBoolean (jr_bootstrap row), load_files 0 (sort_key fr_ordinal (jdb_files db))) of
             (Some createdAt, Some bootstrap, Some files) \<Rightarrow>
               (let journal = \<lparr>jo_TransactionID = jr_transaction_id row, jo_Phase = jr_phase row,
                      jo_WorkingDirectory = jr_working_directory row, jo_ConfigurationPath = jr_configuration_path row,
                      jo_Bootstrap = bootstrap, jo_ConfigurationSource = jr_configuration_source row,
                      jo_CreatedAt = createdAt, jo_Files = files\<rparr> in
                if validateJournal euid journal \<noteq> None then Inl plain_error else Inr journal)
           | _ \<Rightarrow> Inl plain_error))"

definition transaction_matches :: "bytes \<Rightarrow> journal_db \<Rightarrow> bool" where
  "transaction_matches transactionID db \<longleftrightarrow> map_option jr_transaction_id (jdb_journal db) = Some transactionID"

text \<open>An \<open>UPDATE\<close> or \<open>DELETE\<close> with the number of rows it affects.\<close>

definition update_phase :: "bytes \<Rightarrow> JournalPhase \<Rightarrow> journal_db \<Rightarrow> (ws_error, nat \<times> journal_db) result" where
  "update_phase transactionID phase db =
     (if \<not> transaction_matches transactionID db then Inr (0, db)
      else if \<not> validJournalPhase phase then Inl plain_error
      else Inr (1, db\<lparr>jdb_journal := map_option (\<lambda>r. r\<lparr>jr_phase := phase\<rparr>) (jdb_journal db)\<rparr>))"

definition update_files :: "bytes \<Rightarrow> (journal_file_row \<Rightarrow> bool) \<Rightarrow> (journal_file_row \<Rightarrow> journal_file_row) \<Rightarrow> journal_db \<Rightarrow>
    (ws_error, nat \<times> journal_db) result" where
  "update_files transactionID selected change db =
     (if \<not> transaction_matches transactionID db then Inr (0, db)
      else
        (let rows = map (\<lambda>r. if selected r then change r else r) (jdb_files db) in
         if \<not> journal_files_ok rows then Inl plain_error
         else Inr (length (filter selected (jdb_files db)), db\<lparr>jdb_files := rows\<rparr>)))"

definition update_candidate :: "bytes \<Rightarrow> int \<Rightarrow> FileIdentity \<Rightarrow> journal_db \<Rightarrow> (ws_error, nat \<times> journal_db) result" where
  "update_candidate transactionID ordinal identity =
     update_files transactionID (\<lambda>r. fr_ordinal r = ordinal)
       (\<lambda>r. r\<lparr>fr_candidate_ready := 1, fr_candidate := identity_text formatStoreTime identity\<rparr>)"

definition update_placement :: "bytes \<Rightarrow> int \<Rightarrow> FileIdentity \<Rightarrow> FileIdentity \<Rightarrow> bool \<Rightarrow> journal_db \<Rightarrow>
    (ws_error, nat \<times> journal_db) result" where
  "update_placement transactionID ordinal candidate original applied =
     update_files transactionID (\<lambda>r. fr_ordinal r = ordinal \<and> fr_candidate_ready r = 1)
       (\<lambda>r. r\<lparr>fr_applied := boolInteger applied, fr_candidate := identity_text formatStoreTime candidate,
             fr_original := identity_text formatOptionalTime original\<rparr>)"

definition delete_journal :: "bytes \<Rightarrow> journal_db \<Rightarrow> (ws_error, nat \<times> journal_db) result" where
  "delete_journal transactionID db = (if transaction_matches transactionID db then Inr (1, empty_journal) else Inr (0, db))"

end
