(* ===== verification/Workspace_Files.thy ===== *)
theory Workspace_Files
  imports Workspace_Journal "HOL-Library.State_Monad"
begin

text \<open>
  The world of a native edit: the names and inodes of the file system, the journal and the selected
  workspace in the database, and the calls that \<open>src/internal/workspace\<close> makes on them.  Every call
  is answered by the environment, which the record of the transaction manager carries beside the
  code's own fields: a call works, is refused without effect, takes effect but reports an error
  (a rename excepted), or (a write) takes effect in part.  A process that stops at some call leaves the same files and rows
  as one whose later calls are all refused, so statements over all answers cover every
  crash of the process; losses of unsynchronized data at a power failure are outside the model.
  Other processes may change the file system before any call (\<open>tm_interfere\<close>).
\<close>

subsection \<open>The world\<close>

text \<open>A device and an inode number.\<close>

type_synonym key = "nat \<times> nat"

record inode =
  in_content :: bytes
  in_mode :: "32 word"
  in_uid :: "32 word"
  in_gid :: "32 word"
  in_nlink :: nat
  in_mtime :: gotime
  in_ctime :: gotime

record filesystem =
  fs_names :: "key \<times> bytes \<rightharpoonup> key"
  fs_inodes :: "key \<rightharpoonup> inode"
  fs_next :: nat

record world =
  w_fs :: filesystem
  w_journal :: journal_db
  w_selection :: "Selection option"
  w_step :: nat

datatype fault = Works | Refused | Reported | Partly nat

datatype FailurePoint =
    FailureAfterJournal | FailureBeforeStageWrite | FailureBeforeStageSync | FailureBeforeStageDirSync | FailureAfterStage
  | FailureAfterPrepared | FailureBeforeReplace | FailureAfterRename | FailureAfterReplace | FailureBeforeActiveSync
  | FailureAfterDirectorySync | FailureAfterAppliedRecord | FailureBeforeOldUnlink | FailureAfterCleanupRename
  | FailureAfterCleanupScrub | FailureAfterCleanupUnlink | FailureBeforeOldDirSync | FailureBeforeFinalize

record pathRequirements =
  pq_expected :: PathType
  pq_confidential :: bool
  pq_requireRead :: bool
  pq_requireWrite :: bool
  pq_requireSearch :: bool
  pq_requireParentSwap :: bool
  pq_readHandle :: bool

record auditedPath =
  ap_evidence :: PathEvidence
  ap_diagnostics :: "Diagnostic list"
  ap_file :: "key option"

record nativeReference =
  nr_raw :: bytes
  nr_resolved :: bytes

record nativeReferences =
  nr_storage :: nativeReference
  nr_dotenv :: "nativeReference list"
  nr_webroots :: "nativeReference list"

text \<open>The manager: its fields, and the answers of everything it calls.  \<open>auditPath\<close>, the inspector and
  the parser of candidate configurations only look; their answers at a step are arbitrary.\<close>

record TransactionManager =
  tm_coordinator :: nat
  tm_injector :: "FailurePoint \<Rightarrow> int \<Rightarrow> bool"
  tm_euid :: "32 word"
  tm_sha256 :: "bytes \<Rightarrow> bytes"
  tm_MaxConfigurationBytes :: int
  tm_fault :: "nat \<Rightarrow> fault"
  tm_interfere :: "nat \<Rightarrow> filesystem \<Rightarrow> filesystem"
  tm_time :: "nat \<Rightarrow> gotime"
  tm_random :: "nat \<Rightarrow> bytes option"
  tm_newgid :: "nat \<Rightarrow> 32 word"
  tm_directory :: "nat \<Rightarrow> bytes \<Rightarrow> key option"
  tm_dirstat :: "nat \<Rightarrow> key \<Rightarrow> FileIdentity"
  tm_audit :: "nat \<Rightarrow> bytes \<Rightarrow> PathRole \<Rightarrow> bytes \<Rightarrow> pathRequirements \<Rightarrow> auditedPath"
  tm_references :: "bytes \<Rightarrow> bytes \<Rightarrow> bytes \<Rightarrow> nativeReferences \<times> Diagnostic list"
  tm_inspect :: "nat \<Rightarrow> Request \<Rightarrow> (ws_error, Review) result"
  tm_verify :: "nat \<Rightarrow> Review \<Rightarrow> (ws_error, Review) result"
  tm_validateSelection :: "Selection \<Rightarrow> bool"

record Lease =
  le_coordinator :: nat
  le_released :: bool
  le_file :: bool

definition owns :: "nat \<Rightarrow> Lease \<Rightarrow> bool" where
  "owns coordinator lease \<longleftrightarrow> le_coordinator lease = coordinator \<and> \<not> le_released lease \<and> le_file lease"

type_synonym 'a io = "(world, 'a) state"

subsection \<open>Control flow\<close>

definition or_else :: "'a option io \<Rightarrow> 'b io \<Rightarrow> ('a \<Rightarrow> 'b io) \<Rightarrow> 'b io" where
  "or_else c h k = do { r \<leftarrow> c; case r of None \<Rightarrow> h | Some a \<Rightarrow> k a }"

definition on_error :: "ws_error option io \<Rightarrow> (ws_error \<Rightarrow> 'b io) \<Rightarrow> 'b io \<Rightarrow> 'b io" where
  "on_error c h k = do { r \<leftarrow> c; case r of Some e \<Rightarrow> h e | None \<Rightarrow> k }"

definition on_result :: "(ws_error, 'a) result io \<Rightarrow> (ws_error \<Rightarrow> 'b io) \<Rightarrow> ('a \<Rightarrow> 'b io) \<Rightarrow> 'b io" where
  "on_result c h k = do { r \<leftarrow> c; case r of Inl e \<Rightarrow> h e | Inr a \<Rightarrow> k a }"

abbreviation ret :: "'a \<Rightarrow> 'a io" where "ret \<equiv> State_Monad.return"

subsection \<open>Calls\<close>

definition tick :: "TransactionManager \<Rightarrow> nat io" where
  "tick m = State (\<lambda>w. (w_step w, w\<lparr>w_fs := tm_interfere m (w_step w) (w_fs w), w_step := Suc (w_step w)\<rparr>))"

definition call :: "TransactionManager \<Rightarrow> (nat \<Rightarrow> world \<Rightarrow> 'a option \<times> world) \<Rightarrow> 'a option io" where
  "call m act = do {
     n \<leftarrow> tick m;
     case tm_fault m n of
       Works \<Rightarrow> State (act n)
     | Reported \<Rightarrow> do { _ \<leftarrow> State (act n); ret None }
     | _ \<Rightarrow> ret None }"

definition on_fs :: "(filesystem \<Rightarrow> 'a option \<times> filesystem) \<Rightarrow> world \<Rightarrow> 'a option \<times> world" where
  "on_fs f w = (case f (w_fs w) of (r, fs) \<Rightarrow> (r, w\<lparr>w_fs := fs\<rparr>))"

definition identity_of :: "key \<Rightarrow> inode \<Rightarrow> FileIdentity" where
  "identity_of k i =
     \<lparr>fi_Exists = True, fi_Device = fst k, fi_Inode = snd k, fi_Mode = in_mode i, fi_UID = in_uid i, fi_GID = in_gid i,
      fi_NLink = in_nlink i, fi_Size = int (length (in_content i)), fi_ModifiedAt = in_mtime i, fi_ChangedAt = in_ctime i\<rparr>"

definition stat_name :: "filesystem \<Rightarrow> key \<Rightarrow> bytes \<Rightarrow> FileIdentity option" where
  "stat_name fs d name = Option.bind (fs_names fs (d, name)) (\<lambda>k. map_option (identity_of k) (fs_inodes fs k))"

text \<open>\<open>fstatat\<close> without following links: an identity, or that the name is missing.\<close>

definition fstatat :: "TransactionManager \<Rightarrow> key \<Rightarrow> bytes \<Rightarrow> FileIdentity option option io" where
  "fstatat m d name = call m (\<lambda>n. on_fs (\<lambda>fs. (Some (stat_name fs d name), fs)))"

definition fstat :: "TransactionManager \<Rightarrow> key \<Rightarrow> FileIdentity option io" where
  "fstat m k = call m (\<lambda>n. on_fs (\<lambda>fs. (map_option (identity_of k) (fs_inodes fs k), fs)))"

definition openat_read :: "TransactionManager \<Rightarrow> key \<Rightarrow> bytes \<Rightarrow> key option io" where
  "openat_read m d name = call m (\<lambda>n. on_fs (\<lambda>fs. (fs_names fs (d, name), fs)))"

text \<open>\<open>openat\<close> with \<open>O_CREAT\<close> and \<open>O_EXCL\<close>, mode 0600.\<close>

definition openat_create :: "TransactionManager \<Rightarrow> key \<Rightarrow> bytes \<Rightarrow> key option io" where
  "openat_create m d name = call m (\<lambda>n. on_fs (\<lambda>fs.
     if fs_names fs (d, name) \<noteq> None then (None, fs)
     else
       (let k = (fst d, fs_next fs) in
        (Some k,
         \<lparr>fs_names = (fs_names fs)((d, name) \<mapsto> k),
          fs_inodes = (fs_inodes fs)(k \<mapsto> \<lparr>in_content = [], in_mode = S_IFREG OR 0x180, in_uid = tm_euid m, in_gid = tm_newgid m n,
            in_nlink = 1, in_mtime = tm_time m n, in_ctime = tm_time m n\<rparr>),
          fs_next = Suc (fs_next fs)\<rparr>))))"

definition change_inode :: "key \<Rightarrow> (inode \<Rightarrow> inode) \<Rightarrow> filesystem \<Rightarrow> filesystem" where
  "change_inode k f fs = fs\<lparr>fs_inodes := (fs_inodes fs)(k := map_option f (fs_inodes fs k))\<rparr>"

definition fchmod :: "TransactionManager \<Rightarrow> key \<Rightarrow> unit option io" where
  "fchmod m k = call m (\<lambda>n. on_fs (\<lambda>fs.
     (Some (), change_inode k (\<lambda>i. i\<lparr>in_mode := (in_mode i AND S_IFMT) OR 0x180, in_ctime := tm_time m n\<rparr>) fs)))"

text \<open>\<open>writeAll\<close>: the loop of short writes writes everything, or a prefix before it fails.\<close>

definition append_content :: "gotime \<Rightarrow> bytes \<Rightarrow> inode \<Rightarrow> inode" where
  "append_content t s i = i\<lparr>in_content := in_content i @ s, in_mtime := t, in_ctime := t\<rparr>"

definition writeAll :: "TransactionManager \<Rightarrow> key \<Rightarrow> bytes \<Rightarrow> unit option io" where
  "writeAll m k s = do {
     n \<leftarrow> tick m;
     case tm_fault m n of
       Works \<Rightarrow> State (on_fs (\<lambda>fs. (Some (), change_inode k (append_content (tm_time m n) s) fs)))
     | Reported \<Rightarrow> State (on_fs (\<lambda>fs. (None, change_inode k (append_content (tm_time m n) s) fs)))
     | Partly j \<Rightarrow> State (on_fs (\<lambda>fs. (None, change_inode k (append_content (tm_time m n) (take j s)) fs)))
     | Refused \<Rightarrow> ret None }"

definition ftruncate :: "TransactionManager \<Rightarrow> key \<Rightarrow> unit option io" where
  "ftruncate m k = call m (\<lambda>n. on_fs (\<lambda>fs.
     (Some (), change_inode k (\<lambda>i. i\<lparr>in_content := [], in_mtime := tm_time m n, in_ctime := tm_time m n\<rparr>) fs)))"

text \<open>\<open>fsync\<close>, \<open>close\<close>, opening a descriptor again, seeking, and \<open>ctx.Err()\<close>: they succeed or not.\<close>

definition fsync :: "TransactionManager \<Rightarrow> unit option io" where
  "fsync m = call m (\<lambda>n w. (Some (), w))"

abbreviation close_file :: "TransactionManager \<Rightarrow> unit option io" where "close_file \<equiv> fsync"
abbreviation reopen :: "TransactionManager \<Rightarrow> unit option io" where "reopen \<equiv> fsync"
abbreviation seek_start :: "TransactionManager \<Rightarrow> unit option io" where "seek_start \<equiv> fsync"
abbreviation ctx_err :: "TransactionManager \<Rightarrow> unit option io" where "ctx_err \<equiv> fsync"
abbreviation syncDirectory :: "TransactionManager \<Rightarrow> unit option io" where "syncDirectory \<equiv> fsync"

definition read_content :: "TransactionManager \<Rightarrow> key \<Rightarrow> bytes option io" where
  "read_content m k = call m (\<lambda>n. on_fs (\<lambda>fs. (map_option in_content (fs_inodes fs k), fs)))"

definition touch_ctime :: "gotime \<Rightarrow> key \<Rightarrow> filesystem \<Rightarrow> filesystem" where
  "touch_ctime t k = change_inode k (\<lambda>i. i\<lparr>in_ctime := t\<rparr>)"

text \<open>\<open>renameat2\<close> inside one directory, with \<open>RENAME_EXCHANGE\<close> and with \<open>RENAME_NOREPLACE\<close>.  It is atomic:
  when it reports an error nothing was renamed.  A rename changes the status time of what it moves.\<close>

definition atomic_call :: "TransactionManager \<Rightarrow> (nat \<Rightarrow> world \<Rightarrow> 'a option \<times> world) \<Rightarrow> 'a option io" where
  "atomic_call m act = do { n \<leftarrow> tick m; if tm_fault m n = Works then State (act n) else ret None }"

definition rename_exchange :: "TransactionManager \<Rightarrow> key \<Rightarrow> bytes \<Rightarrow> bytes \<Rightarrow> unit option io" where
  "rename_exchange m d a b = atomic_call m (\<lambda>n. on_fs (\<lambda>fs.
     case (fs_names fs (d, a), fs_names fs (d, b)) of
       (Some k, Some l) \<Rightarrow>
         (Some (), touch_ctime (tm_time m n) k (touch_ctime (tm_time m n) l
           (fs\<lparr>fs_names := (fs_names fs)((d, a) \<mapsto> l, (d, b) \<mapsto> k)\<rparr>)))
     | _ \<Rightarrow> (None, fs)))"

definition rename_noreplace :: "TransactionManager \<Rightarrow> key \<Rightarrow> bytes \<Rightarrow> bytes \<Rightarrow> unit option io" where
  "rename_noreplace m d a b = atomic_call m (\<lambda>n. on_fs (\<lambda>fs.
     case (fs_names fs (d, a), fs_names fs (d, b)) of
       (Some k, None) \<Rightarrow>
         (Some (), touch_ctime (tm_time m n) k (fs\<lparr>fs_names := (fs_names fs)((d, a) := None, (d, b) \<mapsto> k)\<rparr>))
     | _ \<Rightarrow> (None, fs)))"

definition unlinkat :: "TransactionManager \<Rightarrow> key \<Rightarrow> bytes \<Rightarrow> unit option io" where
  "unlinkat m d name = call m (\<lambda>n. on_fs (\<lambda>fs.
     case fs_names fs (d, name) of
       Some k \<Rightarrow> (Some (), change_inode k (\<lambda>i. i\<lparr>in_nlink := in_nlink i - 1, in_ctime := tm_time m n\<rparr>)
                     (fs\<lparr>fs_names := (fs_names fs)((d, name) := None)\<rparr>))
     | None \<Rightarrow> (None, fs)))"

definition now :: "TransactionManager \<Rightarrow> gotime io" where
  "now m = do { n \<leftarrow> tick m; ret (tm_time m n) }"

definition auditPath :: "TransactionManager \<Rightarrow> bytes \<Rightarrow> PathRole \<Rightarrow> bytes \<Rightarrow> pathRequirements \<Rightarrow> auditedPath io" where
  "auditPath m path role reference requirements = do { n \<leftarrow> tick m; ret (tm_audit m n path role reference requirements) }"

definition inject :: "TransactionManager \<Rightarrow> FailurePoint \<Rightarrow> int \<Rightarrow> ws_error option" where
  "inject m point ordinal = fails_if (tm_injector m point ordinal) plain_error"

subsection \<open>Calls on the database\<close>

definition query :: "TransactionManager \<Rightarrow> (world \<Rightarrow> (ws_error, 'a) result) \<Rightarrow> (ws_error, 'a) result io" where
  "query m f = do { r \<leftarrow> call m (\<lambda>n w. (Some (f w), w)); ret (case r of None \<Rightarrow> Inl plain_error | Some x \<Rightarrow> x) }"

text \<open>A transaction with its statements and its commit: it changes the tables only if every statement
  succeeds.\<close>

definition transact :: "TransactionManager \<Rightarrow> (world \<Rightarrow> (ws_error, 'a \<times> world) result) \<Rightarrow> (ws_error, 'a) result io" where
  "transact m f = do {
     r \<leftarrow> call m (\<lambda>n w. case f w of Inl e \<Rightarrow> (Some (Inl e), w) | Inr (a, w') \<Rightarrow> (Some (Inr a), w'));
     ret (case r of None \<Rightarrow> Inl plain_error | Some x \<Rightarrow> x) }"

definition on_journal :: "(journal_db \<Rightarrow> (ws_error, 'a \<times> journal_db) result) \<Rightarrow> world \<Rightarrow> (ws_error, 'a \<times> world) result" where
  "on_journal f w = bind_result (f (w_journal w)) (\<lambda>(a, db). Inr (a, w\<lparr>w_journal := db\<rparr>))"

definition requireOneRow :: "(ws_error, nat) result \<Rightarrow> ws_error option" where
  "requireOneRow r = (case r of Inl e \<Rightarrow> Some e | Inr affected \<Rightarrow> fails_if (affected \<noteq> 1) plain_error)"

definition journal_Load :: "TransactionManager \<Rightarrow> (ws_error, Journal) result io" where
  "journal_Load m = query m (\<lambda>w. Load_journal (tm_euid m) (w_journal w))"

definition journal_Create :: "TransactionManager \<Rightarrow> Journal \<Rightarrow> ws_error option io" where
  "journal_Create m journal = do {
     r \<leftarrow> transact m (on_journal (\<lambda>db. bind_result (Create_journal (tm_euid m) journal db) (\<lambda>db'. Inr ((), db'))));
     ret (case r of Inl e \<Rightarrow> Some e | Inr _ \<Rightarrow> None) }"

definition SetPhase :: "TransactionManager \<Rightarrow> bytes \<Rightarrow> JournalPhase \<Rightarrow> ws_error option io" where
  "SetPhase m transactionID phase =
     (if \<not> validTransactionID transactionID \<or> \<not> validJournalPhase phase then ret (Some [ErrInvalidEdit])
      else on_result (journal_Load m) (\<lambda>e. ret (Some e)) (\<lambda>journal.
        if jo_TransactionID journal \<noteq> transactionID \<or> journalPhaseOrder phase < journalPhaseOrder (jo_Phase journal)
        then ret (Some [ErrSourceChanged])
        else do { r \<leftarrow> transact m (on_journal (update_phase transactionID phase)); ret (requireOneRow r) }))"

definition MarkCandidate :: "TransactionManager \<Rightarrow> bytes \<Rightarrow> int \<Rightarrow> FileIdentity \<Rightarrow> ws_error option io" where
  "MarkCandidate m transactionID ordinal identity =
     (if \<not> validTransactionID transactionID \<or> ordinal < 0 \<or> ordinal \<ge> 257 \<or> \<not> validCandidateIdentity (tm_euid m) identity
      then ret (Some [ErrInvalidEdit])
      else do { r \<leftarrow> transact m (on_journal (update_candidate transactionID ordinal identity)); ret (requireOneRow r) })"

definition recordPlacement :: "TransactionManager \<Rightarrow> bytes \<Rightarrow> int \<Rightarrow> FileIdentity \<Rightarrow> FileIdentity \<Rightarrow> bool \<Rightarrow> ws_error option io" where
  "recordPlacement m transactionID ordinal candidate original applied =
     (if \<not> validTransactionID transactionID \<or> ordinal < 0 \<or> ordinal \<ge> 257 then ret (Some [ErrInvalidEdit])
      else if \<not> validCandidateIdentity (tm_euid m) candidate \<or> fi_Exists original \<and> \<not> validOriginalIdentity original
              \<or> \<not> fi_Exists original \<and> \<not> zeroMissingIdentity original
      then ret (Some [ErrInvalidEdit])
      else do {
        r \<leftarrow> transact m (on_journal (update_placement transactionID ordinal candidate original applied));
        ret (requireOneRow r) })"

definition MarkPlacement :: "TransactionManager \<Rightarrow> bytes \<Rightarrow> int \<Rightarrow> FileIdentity \<Rightarrow> FileIdentity \<Rightarrow> ws_error option io" where
  "MarkPlacement m transactionID ordinal candidate original = recordPlacement m transactionID ordinal candidate original False"

definition MarkApplied :: "TransactionManager \<Rightarrow> bytes \<Rightarrow> int \<Rightarrow> FileIdentity \<Rightarrow> FileIdentity \<Rightarrow> ws_error option io" where
  "MarkApplied m transactionID ordinal candidate original = recordPlacement m transactionID ordinal candidate original True"

definition Clear_journal :: "TransactionManager \<Rightarrow> bytes \<Rightarrow> ws_error option io" where
  "Clear_journal m transactionID =
     (if \<not> validTransactionID transactionID then ret (Some [ErrInvalidEdit])
      else do { r \<leftarrow> transact m (on_journal (delete_journal transactionID)); ret (requireOneRow r) })"

text \<open>The selected workspace: loading it, and the end of an edit, which replaces it and removes the
  matching journal in one transaction.\<close>

definition selection_Load :: "TransactionManager \<Rightarrow> (ws_error, Selection) result io" where
  "selection_Load m = query m (\<lambda>w. case w_selection w of None \<Rightarrow> Inl [ErrNoSelection] | Some s \<Rightarrow> Inr s)"

definition finalize_statements :: "Selection \<Rightarrow> bytes \<Rightarrow> world \<Rightarrow> (ws_error, unit \<times> world) result" where
  "finalize_statements selection transactionID w =
     (if \<not> transaction_matches transactionID (w_journal w) then Inl plain_error
      else bind_result (delete_journal transactionID (w_journal w)) (\<lambda>(affected, db).
        if affected \<noteq> 1 then Inl plain_error
        else Inr ((), w\<lparr>w_selection := Some selection, w_journal := db\<rparr>)))"

definition FinalizeEdit :: "TransactionManager \<Rightarrow> Selection \<Rightarrow> bytes \<Rightarrow> ws_error option io" where
  "FinalizeEdit m selection transactionID =
     (if \<not> validTransactionID transactionID then ret (Some plain_error)
      else if \<not> tm_validateSelection m selection then ret (Some [ErrInvalidSelection])
      else do {
        r \<leftarrow> transact m (finalize_statements selection transactionID);
        ret (case r of Inl e \<Rightarrow> Some e | Inr _ \<Rightarrow> None) })"

end
