(* ===== verification/Workspace_Commit.thy ===== *)
theory Workspace_Commit
  imports Workspace_Files
begin

text \<open>
  The journaled edit of native files, \<open>src/internal/workspace/transaction_commit_linux.go\<close> with the
  source reading of \<open>transaction_manager_linux.go\<close>: staging, rechecking, activation by rename,
  removal of displaced files through a quarantine name, and the whole of \<open>Commit\<close>.  The deferred
  closing of directory handles and the clearing of buffers have no counterpart; a missing source set
  is a closed one.
\<close>

subsection \<open>Looking at names\<close>

definition missingAt :: "TransactionManager \<Rightarrow> key \<Rightarrow> bytes \<Rightarrow> bool option io" where
  "missingAt m parent basename = or_else (fstatat m parent basename) (ret None) (\<lambda>s. ret (Some (s = None)))"

definition regular_single :: "FileIdentity \<Rightarrow> bool" where
  "regular_single i \<longleftrightarrow> fi_Mode i AND S_IFMT = S_IFREG \<and> fi_NLink i = 1"

text \<open>\<open>identityAt\<close>: an error, that the name is missing, or the identity of a single-link regular file.\<close>

definition identityAt :: "TransactionManager \<Rightarrow> key \<Rightarrow> bytes \<Rightarrow> (ws_error, FileIdentity option) result io" where
  "identityAt m parent basename = or_else (fstatat m parent basename) (ret (Inl plain_error)) (\<lambda>s.
     ret (case s of None \<Rightarrow> Inr None | Some i \<Rightarrow> if regular_single i then Inr (Some i) else Inl plain_error))"

definition cleanupBasename :: "bytes \<Rightarrow> bytes" where
  "cleanupBasename stage = stage @ ''.remove''"

definition ownedStageBasename :: "TransactionManager \<Rightarrow> key \<Rightarrow> bytes \<Rightarrow> (ws_error, bytes option) result io" where
  "ownedStageBasename m parent stage =
     or_else (missingAt m parent stage) (ret (Inl plain_error)) (\<lambda>stageMissing.
     or_else (missingAt m parent (cleanupBasename stage)) (ret (Inl plain_error)) (\<lambda>cleanupMissing.
       ret (if \<not> stageMissing \<and> \<not> cleanupMissing then Inl [ErrSourceChanged]
            else if \<not> stageMissing then Inr (Some stage)
            else if \<not> cleanupMissing then Inr (Some (cleanupBasename stage))
            else Inr None)))"

definition openFingerprintAt :: "TransactionManager \<Rightarrow> key \<Rightarrow> bytes \<Rightarrow> int \<Rightarrow> (ws_error, key \<times> SourceFingerprint) result io" where
  "openFingerprintAt m parent basename limit =
     or_else (ctx_err m) (ret (Inl [ContextCanceled])) (\<lambda>_.
     or_else (openat_read m parent basename) (ret (Inl plain_error)) (\<lambda>file.
     or_else (fstat m file) (ret (Inl plain_error)) (\<lambda>opened.
       if \<not> regular_single opened \<or> fi_Size opened < 0 \<or> fi_Size opened > limit then ret (Inl plain_error)
       else
         or_else (read_content m file) (ret (Inl plain_error)) (\<lambda>contents.
           if int (length contents) \<noteq> fi_Size opened then ret (Inl plain_error)
           else
             or_else (fstat m file) (ret (Inl [ErrSourceChanged])) (\<lambda>reread.
               if opened \<noteq> reread then ret (Inl [ErrSourceChanged])
               else ret (Inr (file, \<lparr>sf_Path = [], sf_Identity = opened, sf_SHA256 = tm_sha256 m contents\<rparr>)))))))"

definition fingerprintAt :: "TransactionManager \<Rightarrow> key \<Rightarrow> bytes \<Rightarrow> int \<Rightarrow> (ws_error, SourceFingerprint) result io" where
  "fingerprintAt m parent basename limit =
     on_result (openFingerprintAt m parent basename limit) (\<lambda>e. ret (Inl e)) (\<lambda>(file, fingerprint).
     or_else (close_file m) (ret (Inl plain_error)) (\<lambda>_. ret (Inr fingerprint)))"

definition directory_requirements :: pathRequirements where
  "directory_requirements = \<lparr>pq_expected = PathTypeDirectory, pq_confidential = False, pq_requireRead = False, pq_requireWrite = True,
     pq_requireSearch = True, pq_requireParentSwap = False, pq_readHandle = False\<rparr>"

definition safe_audit :: "auditedPath \<Rightarrow> bool" where
  "safe_audit a \<longleftrightarrow> pe_Safe (ap_evidence a) \<and> \<not> hasBlockingDiagnostics (ap_diagnostics a)"

text \<open>The identity that \<open>fstat\<close> reports for an open directory.\<close>

definition fstat_directory :: "TransactionManager \<Rightarrow> key \<Rightarrow> FileIdentity option io" where
  "fstat_directory m d = call m (\<lambda>n w.
     (Some ((tm_dirstat m n d)\<lparr>fi_Exists := True, fi_Device := fst d, fi_Inode := snd d\<rparr>), w))"

definition open_directory :: "TransactionManager \<Rightarrow> bytes \<Rightarrow> key option io" where
  "open_directory m path = call m (\<lambda>n w. (tm_directory m n path, w))"

definition openReplacementParent :: "TransactionManager \<Rightarrow> bytes \<Rightarrow> (ws_error, key \<times> FileIdentity) result io" where
  "openReplacementParent m target = do {
     audited \<leftarrow> auditPath m (Dir_abs target) RoleWorkspace [] directory_requirements;
     if \<not> safe_audit audited then ret (Inl [ErrInvalidEdit])
     else
       or_else (open_directory m (Dir_abs target)) (ret (Inl plain_error)) (\<lambda>parent.
       or_else (fstat_directory m parent) (ret (Inl [ErrSourceChanged])) (\<lambda>i.
         let e = ap_evidence audited in
         if fi_Device i \<noteq> pe_Device e \<or> fi_Inode i \<noteq> pe_Inode e \<or> fi_Mode i \<noteq> pe_Mode e \<or> fi_UID i \<noteq> pe_UID e
            \<or> fi_GID i \<noteq> pe_GID e
         then ret (Inl [ErrSourceChanged])
         else ret (Inr (parent, i)))) }"

subsection \<open>Removing an owned file\<close>

definition scrubOpenFile :: "TransactionManager \<Rightarrow> key \<Rightarrow> (ws_error, FileIdentity) result io" where
  "scrubOpenFile m file =
     or_else (fchmod m file) (ret (Inl plain_error)) (\<lambda>_.
     or_else (reopen m) (ret (Inl plain_error)) (\<lambda>_.
     or_else (ftruncate m file) (ret (Inl plain_error)) (\<lambda>_.
     or_else (fsync m) (ret (Inl plain_error)) (\<lambda>_.
     or_else (fstat m file) (ret (Inl plain_error)) (\<lambda>i. ret (Inr i))))))"

text \<open>\<open>filepath.Ext\<close> of a basename.\<close>

definition Ext :: "bytes \<Rightarrow> bytes" where
  "Ext p = (if CHR ''.'' \<in> set p then CHR ''.'' # rev (takeWhile (\<lambda>c. c \<noteq> CHR ''.'') (rev p)) else [])"

definition same_inode :: "FileIdentity \<Rightarrow> FileIdentity \<Rightarrow> bool" where
  "same_inode a b \<longleftrightarrow> fi_Device a = fi_Device b \<and> fi_Inode a = fi_Inode b"

text \<open>From the moment the entry has its quarantine name.\<close>

definition scrub_quarantined ::
    "TransactionManager \<Rightarrow> key \<Rightarrow> bytes \<Rightarrow> bytes \<Rightarrow> key \<Rightarrow> FileIdentity \<Rightarrow> int \<Rightarrow> ws_error option io" where
  "scrub_quarantined m parent basename quarantine file expected ordinal = do {
     placed \<leftarrow> identityAt m parent quarantine;
     case placed of
       Inr (Some i) \<Rightarrow>
         if \<not> same_inode i expected then do {
           _ \<leftarrow> (if quarantine \<noteq> basename then rename_noreplace m parent quarantine basename else ret None);
           ret (Some [ErrSourceChanged]) }
         else
           on_result (scrubOpenFile m file) (\<lambda>e. ret (Some e)) (\<lambda>scrubbed.
             if \<not> same_inode scrubbed expected then ret (Some [ErrSourceChanged])
             else case inject m FailureAfterCleanupScrub ordinal of Some e \<Rightarrow> ret (Some e) | None \<Rightarrow> do {
               placed \<leftarrow> identityAt m parent quarantine;
               case placed of
                 Inr (Some j) \<Rightarrow>
                   if \<not> same_inode j scrubbed \<or> fi_Size j \<noteq> 0 then ret (Some [ErrSourceChanged])
                   else
                     or_else (unlinkat m parent quarantine) (ret (Some plain_error)) (\<lambda>_.
                     case inject m FailureAfterCleanupUnlink ordinal of Some e \<Rightarrow> ret (Some e) | None \<Rightarrow>
                     or_else (syncDirectory m) (ret (Some plain_error)) (\<lambda>_. ret None))
               | _ \<Rightarrow> ret (Some [ErrSourceChanged]) })
     | _ \<Rightarrow> do {
         _ \<leftarrow> (if quarantine \<noteq> basename then rename_noreplace m parent quarantine basename else ret None);
         ret (Some [ErrSourceChanged]) } }"

definition scrubAndRemoveOpen ::
    "TransactionManager \<Rightarrow> key \<Rightarrow> bytes \<Rightarrow> key \<Rightarrow> FileIdentity \<Rightarrow> int \<Rightarrow> ws_error option io" where
  "scrubAndRemoveOpen m parent basename file expected ordinal =
     (if Ext basename = ''.remove'' then scrub_quarantined m parent basename basename file expected ordinal
      else
        or_else (rename_noreplace m parent basename (cleanupBasename basename)) (ret (Some plain_error)) (\<lambda>_.
        case inject m FailureAfterCleanupRename ordinal of Some e \<Rightarrow> ret (Some e) | None \<Rightarrow>
        scrub_quarantined m parent basename (cleanupBasename basename) file expected ordinal))"

definition removeOwnedFingerprintAt ::
    "TransactionManager \<Rightarrow> key \<Rightarrow> bytes \<Rightarrow> SourceFingerprint \<Rightarrow> int \<Rightarrow> int \<Rightarrow> ws_error option io" where
  "removeOwnedFingerprintAt m parent basename expected limit ordinal =
     on_result (openFingerprintAt m parent basename limit) (\<lambda>e. ret (Some e)) (\<lambda>(file, current).
       if \<not> sameFingerprintContent expected current False then ret (Some [ErrSourceChanged])
       else scrubAndRemoveOpen m parent basename file (sf_Identity current) ordinal)"

definition removeOwnedIdentityAt ::
    "TransactionManager \<Rightarrow> key \<Rightarrow> bytes \<Rightarrow> FileIdentity \<Rightarrow> int \<Rightarrow> ws_error option io" where
  "removeOwnedIdentityAt m parent basename expected ordinal =
     or_else (openat_read m parent basename) (ret (Some plain_error)) (\<lambda>file.
     or_else (fstat m file) (ret (Some plain_error)) (\<lambda>current.
       if \<not> regular_single current then ret (Some plain_error)
       else if \<not> samePlacement expected current then ret (Some [ErrSourceChanged])
       else scrubAndRemoveOpen m parent basename file current ordinal))"

subsection \<open>Staging\<close>

record preparedReplacement =
  pr_replacement :: Replacement
  pr_ordinal :: int
  pr_parent :: key
  pr_parentID :: FileIdentity
  pr_stage :: bytes
  pr_original :: SourceFingerprint
  pr_candidate :: SourceFingerprint
  pr_existed :: bool
  pr_activated :: bool
  pr_cleanupUncertain :: bool

definition pad3 :: "bytes \<Rightarrow> bytes" where
  "pad3 s = replicate (3 - length s) (CHR ''0'') @ s"

definition stage_basename :: "bytes \<Rightarrow> nat \<Rightarrow> bytes" where
  "stage_basename transactionID index = ''.acmemux-edit-'' @ transactionID @ ''-'' @ pad3 (Itoa index)"

definition prepare_replacement ::
    "TransactionManager \<Rightarrow> bytes \<Rightarrow> SourceSet \<Rightarrow> nat \<Rightarrow> Replacement \<Rightarrow> (ws_error, preparedReplacement) result io" where
  "prepare_replacement m transactionID sources index replacement =
     on_result (openReplacementParent m (rp_Path replacement)) (\<lambda>e. ret (Inl e)) (\<lambda>(parent, parentID).
     let stage = stage_basename transactionID index;
         entry = \<lparr>pr_replacement = replacement, pr_ordinal = int index, pr_parent = parent, pr_parentID = parentID,
                  pr_stage = stage, pr_original = no_fingerprint, pr_candidate = no_fingerprint,
                  pr_existed = False, pr_activated = False, pr_cleanupUncertain = False\<rparr> in
     do {
       cleanupMissing \<leftarrow> missingAt m parent (cleanupBasename stage);
       if cleanupMissing \<noteq> Some True then ret (Inl [ErrSourceChanged])
       else case sourceForPath sources (rp_Path replacement) of
         Some source \<Rightarrow> ret (Inr (entry\<lparr>pr_existed := True, pr_original := so_Fingerprint source\<rparr>))
       | None \<Rightarrow> do {
           missing \<leftarrow> missingAt m parent (Base (rp_Path replacement));
           if missing \<noteq> Some True then ret (Inl [ErrInvalidEdit]) else ret (Inr entry) } })"

fun prepare_replacements ::
    "TransactionManager \<Rightarrow> bytes \<Rightarrow> SourceSet \<Rightarrow> nat \<Rightarrow> Replacement list \<Rightarrow> (ws_error, preparedReplacement list) result io" where
  "prepare_replacements m transactionID sources index [] = ret (Inr [])"
| "prepare_replacements m transactionID sources index (r # rs) =
     on_result (prepare_replacement m transactionID sources index r) (\<lambda>e. ret (Inl e)) (\<lambda>p.
     on_result (prepare_replacements m transactionID sources (Suc index) rs) (\<lambda>e. ret (Inl e)) (\<lambda>ps. ret (Inr (p # ps))))"

definition journal_file_of :: "preparedReplacement \<Rightarrow> JournalFile" where
  "journal_file_of p =
     \<lparr>jf_Ordinal = pr_ordinal p, jf_Role = rp_Role (pr_replacement p), jf_TargetPath = rp_Path (pr_replacement p),
      jf_ParentPath = Dir_abs (rp_Path (pr_replacement p)), jf_StageBasename = pr_stage p,
      jf_Original = sf_Identity (pr_original p), jf_Parent = pr_parentID p, jf_CandidateReady = False,
      jf_Candidate = no_identity, jf_Applied = False\<rparr>"

definition prepareJournal ::
    "TransactionManager \<Rightarrow> bytes \<Rightarrow> SourceSet \<Rightarrow> Replacement list \<Rightarrow> (ws_error, preparedReplacement list \<times> Journal) result io" where
  "prepareJournal m transactionID sources replacements = do {
     createdAt \<leftarrow> now m;
     on_result (prepare_replacements m transactionID sources 0 replacements) (\<lambda>e. ret (Inl e)) (\<lambda>prepared.
       if IsZero createdAt then ret (Inl plain_error)
       else
         (let review = sl_Review (ss_Selection sources) in
          ret (Inr (prepared,
            \<lparr>jo_TransactionID = transactionID, jo_Phase = JournalStaging,
             jo_WorkingDirectory = pe_Path (rv_WorkingDirectory review), jo_ConfigurationPath = pe_Path (rv_Configuration review),
             jo_Bootstrap = False, jo_ConfigurationSource = rv_ConfigurationSource review, jo_CreatedAt = to_UTC createdAt,
             jo_Files = map journal_file_of prepared\<rparr>)))) }"

text \<open>The body of \<open>stageCandidate\<close> between the creation of the file and the deferred cleanup.\<close>

definition stage_contents ::
    "TransactionManager \<Rightarrow> bytes \<Rightarrow> key \<Rightarrow> preparedReplacement \<Rightarrow> (ws_error option \<times> preparedReplacement) io" where
  "stage_contents m transactionID file p =
     (let content = rp_Content (pr_replacement p); fail = (\<lambda>e. ret (Some e, p)) in
      or_else (fchmod m file) (fail plain_error) (\<lambda>_.
      case inject m FailureBeforeStageWrite (pr_ordinal p) of Some e \<Rightarrow> fail e | None \<Rightarrow>
      or_else (writeAll m file content) (fail plain_error) (\<lambda>_.
      case inject m FailureBeforeStageSync (pr_ordinal p) of Some e \<Rightarrow> fail e | None \<Rightarrow>
      or_else (fsync m) (fail plain_error) (\<lambda>_.
      or_else (fstat m file) (fail plain_error) (\<lambda>identity.
        if \<not> validCandidateIdentity (tm_euid m) identity \<or> fi_Size identity \<noteq> int (length content) then fail plain_error
        else
          (let p' = p\<lparr>pr_candidate := \<lparr>sf_Path = rp_Path (pr_replacement p), sf_Identity = identity, sf_SHA256 = tm_sha256 m content\<rparr>\<rparr> in
           case inject m FailureBeforeStageDirSync (pr_ordinal p) of Some e \<Rightarrow> ret (Some e, p') | None \<Rightarrow>
           or_else (syncDirectory m) (ret (Some plain_error, p')) (\<lambda>_.
           on_error (MarkCandidate m transactionID (pr_ordinal p) identity) (\<lambda>e. ret (Some e, p')) (ret (None, p')))))))))"

text \<open>The deferred cleanup of a failed staging: the retained inode is emptied, never unlinked.\<close>

definition scrub_failed :: "TransactionManager \<Rightarrow> key \<Rightarrow> ws_error \<Rightarrow> preparedReplacement \<Rightarrow> (ws_error option \<times> preparedReplacement) io" where
  "scrub_failed m file cause p = do {
     scrubbed \<leftarrow> scrubOpenFile m file;
     synced \<leftarrow> syncDirectory m;
     let p1 = (case scrubbed of
                 Inr i \<Rightarrow> p\<lparr>pr_candidate := \<lparr>sf_Path = rp_Path (pr_replacement p), sf_Identity = i, sf_SHA256 = tm_sha256 m []\<rparr>\<rparr>
               | Inl _ \<Rightarrow> p);
         p2 = (if isl scrubbed \<or> synced = None then p1\<lparr>pr_cleanupUncertain := True\<rparr> else p1);
         e1 = (case scrubbed of Inl e \<Rightarrow> e | Inr _ \<Rightarrow> []) in
     ret (Some (cause @ e1), p2) }"

definition stageCandidate ::
    "TransactionManager \<Rightarrow> bytes \<Rightarrow> preparedReplacement \<Rightarrow> (ws_error option \<times> preparedReplacement) io" where
  "stageCandidate m transactionID p =
     or_else (ctx_err m) (ret (Some [ContextCanceled], p)) (\<lambda>_.
     or_else (openat_create m (pr_parent p) (pr_stage p)) (ret (Some plain_error, p)) (\<lambda>file. do {
       (result, p') \<leftarrow> stage_contents m transactionID file p;
       (result, p') \<leftarrow> (case result of Some e \<Rightarrow> scrub_failed m file e p' | None \<Rightarrow> ret (None, p'));
       closed \<leftarrow> close_file m;
       ret (if closed = None then Some (case result of Some e \<Rightarrow> e | None \<Rightarrow> plain_error) else result, p') }))"

text \<open>The loop over the prepared files: the first failure ends it, and the files it leaves are unchanged.\<close>

fun stage_all ::
    "TransactionManager \<Rightarrow> bytes \<Rightarrow> nat \<Rightarrow> preparedReplacement list \<Rightarrow> ((ws_error \<times> bool) option \<times> preparedReplacement list) io" where
  "stage_all m transactionID index [] = ret (None, [])"
| "stage_all m transactionID index (p # ps) = do {
     (result, p') \<leftarrow> stageCandidate m transactionID p;
     case result of
       Some e \<Rightarrow> ret (Some (e, True), p' # ps)
     | None \<Rightarrow>
         if tm_injector m FailureAfterStage (int index) then ret (Some ([ErrRecoveryRequired], False), p' # ps)
         else do {
           (result, ps') \<leftarrow> stage_all m transactionID (Suc index) ps;
           ret (result, p' # ps') } }"

subsection \<open>Reading sources\<close>

definition source_requirements :: pathRequirements where
  "source_requirements = \<lparr>pq_expected = PathTypeRegular, pq_confidential = True, pq_requireRead = True, pq_requireWrite = False,
     pq_requireSearch = False, pq_requireParentSwap = True, pq_readHandle = True\<rparr>"

definition readSource :: "TransactionManager \<Rightarrow> PathEvidence \<Rightarrow> int \<Rightarrow> (ws_error, SourceFile) result io" where
  "readSource m reviewed limit = do {
     audited \<leftarrow> auditPath m (pe_Path reviewed) (pe_Role reviewed) (pe_Reference reviewed) source_requirements;
     case ap_file audited of
       None \<Rightarrow> ret (Inl [ErrSourceChanged])
     | Some file \<Rightarrow>
         if \<not> safe_audit audited \<or> \<not> samePathEvidence reviewed (ap_evidence audited) then ret (Inl [ErrSourceChanged])
         else
           or_else (fstat m file) (ret (Inl plain_error)) (\<lambda>opened.
           or_else (seek_start m) (ret (Inl plain_error)) (\<lambda>_.
           or_else (read_content m file) (ret (Inl plain_error)) (\<lambda>contents.
             if int (length contents) > limit then ret (Inl [ErrInvalidEdit])
             else
               or_else (fstat m file) (ret (Inl [ErrSourceChanged])) (\<lambda>reread.
                 if opened \<noteq> reread \<or> int (length contents) \<noteq> fi_Size opened then ret (Inl [ErrSourceChanged])
                 else do {
                   confirmation \<leftarrow> auditPath m (pe_Path reviewed) (pe_Role reviewed) (pe_Reference reviewed) source_requirements;
                   if \<not> samePathEvidence (ap_evidence audited) (ap_evidence confirmation) then ret (Inl [ErrSourceChanged])
                   else ret (Inr \<lparr>so_Role = pe_Role reviewed, so_Path = pe_Path reviewed, so_Reference = pe_Reference reviewed,
                     so_Content = contents, so_Fingerprint = \<lparr>sf_Path = pe_Path reviewed, sf_Identity = opened,
                       sf_SHA256 = tm_sha256 m contents\<rparr>\<rparr>) })))) }"

fun read_sources :: "TransactionManager \<Rightarrow> PathEvidence list \<Rightarrow> (ws_error, SourceFile list) result io" where
  "read_sources m [] = ret (Inr [])"
| "read_sources m (e # es) =
     on_result (readSource m e (2 ^ 20)) (\<lambda>e. ret (Inl e)) (\<lambda>f.
     on_result (read_sources m es) (\<lambda>e. ret (Inl e)) (\<lambda>fs. ret (Inr (f # fs))))"

definition inspector_Verify :: "TransactionManager \<Rightarrow> Review \<Rightarrow> (ws_error, Review) result io" where
  "inspector_Verify m review = do { n \<leftarrow> tick m; ret (tm_verify m n review) }"

definition inspector_Inspect :: "TransactionManager \<Rightarrow> Request \<Rightarrow> (ws_error, Review) result io" where
  "inspector_Inspect m request = do { n \<leftarrow> tick m; ret (tm_inspect m n request) }"

text \<open>The time of a review is not before its observation.\<close>

definition reviewed_at :: "gotime \<Rightarrow> Review \<Rightarrow> gotime" where
  "reviewed_at t review = (if Before (to_UTC t) (rv_ObservedAt review) then rv_ObservedAt review else to_UTC t)"

definition snapshotSelection :: "TransactionManager \<Rightarrow> Selection \<Rightarrow> (ws_error, SourceSet) result io" where
  "snapshotSelection m selection =
     on_result (inspector_Verify m (sl_Review selection)) (\<lambda>_. ret (Inl [ErrSourceChanged])) (\<lambda>current.
     on_result (readSource m (rv_Configuration current) (tm_MaxConfigurationBytes m)) (\<lambda>e. ret (Inl e)) (\<lambda>configuration.
     on_result (read_sources m (rv_DotenvFiles current)) (\<lambda>e. ret (Inl e)) (\<lambda>dotenv.
     on_result (inspector_Verify m current) (\<lambda>_. ret (Inl [ErrSourceChanged])) (\<lambda>confirmed.
       if \<not> samePathEvidence (rv_Configuration current) (rv_Configuration confirmed)
          \<or> \<not> samePathEvidenceSlice (rv_DotenvFiles current) (rv_DotenvFiles confirmed)
       then ret (Inl [ErrSourceChanged])
       else do {
         t \<leftarrow> now m;
         ret (Inr \<lparr>ss_Selection = \<lparr>sl_Review = confirmed, sl_ReviewedAt = reviewed_at t confirmed\<rparr>,
           ss_Configuration = configuration, ss_Dotenv = dotenv, ss_closed = False\<rparr>) }))))"

definition manager_ready :: "TransactionManager \<Rightarrow> Lease \<Rightarrow> ws_error option io" where
  "manager_ready m lease =
     (if \<not> owns (tm_coordinator m) lease then ret (Some plain_error)
      else or_else (ctx_err m) (ret (Some [ContextCanceled])) (\<lambda>_. ret None))"

text \<open>A pending journal blocks ordinary access; any other failure to read it does as well.\<close>

definition without_journal :: "TransactionManager \<Rightarrow> (ws_error \<Rightarrow> 'a io) \<Rightarrow> 'a io \<Rightarrow> 'a io" where
  "without_journal m h k = do {
     r \<leftarrow> journal_Load m;
     case r of
       Inr _ \<Rightarrow> h [ErrRecoveryRequired]
     | Inl e \<Rightarrow> if ErrNoEditJournal \<notin> set e then h e else k }"

definition Snapshot :: "TransactionManager \<Rightarrow> Lease \<Rightarrow> (ws_error, SourceSet) result io" where
  "Snapshot m lease =
     on_error (manager_ready m lease) (\<lambda>e. ret (Inl e)) (
     without_journal m (\<lambda>e. ret (Inl e)) (
     on_result (selection_Load m) (\<lambda>e. ret (Inl e)) (snapshotSelection m)))"

fun recheck_read :: "TransactionManager \<Rightarrow> SourceSet \<Rightarrow> SourceFile list \<Rightarrow> ws_error option io" where
  "recheck_read m sources [] = ret None"
| "recheck_read m sources (source # rest) =
     on_result (readSource m (pathEvidenceForPath (sl_Review (ss_Selection sources)) (so_Path source)) (maximumFileLimit (so_Role source)))
       (\<lambda>e. ret (Some e)) (\<lambda>current.
       if \<not> sameSourceFingerprint (so_Fingerprint source) (so_Fingerprint current) then ret (Some [ErrSourceChanged])
       else recheck_read m sources rest)"

definition recheck_entry :: "TransactionManager \<Rightarrow> preparedReplacement \<Rightarrow> ws_error option io" where
  "recheck_entry m p =
     (let staged = do {
            candidate \<leftarrow> fingerprintAt m (pr_parent p) (pr_stage p) (maximumFileLimit (rp_Role (pr_replacement p)));
            ret (case candidate of
                   Inl e \<Rightarrow> Some [ErrSourceChanged]
                 | Inr c \<Rightarrow> fails_if (\<not> sameFingerprintContent (pr_candidate p) c True) [ErrSourceChanged]) } in
      or_else (fstat_directory m (pr_parent p)) (ret (Some [ErrSourceChanged])) (\<lambda>i.
        if \<not> sameDirectoryIdentity (pr_parentID p) i then ret (Some [ErrSourceChanged])
        else if \<not> pr_existed p then do {
          missing \<leftarrow> missingAt m (pr_parent p) (Base (rp_Path (pr_replacement p)));
          if missing \<noteq> Some True then ret (Some [ErrSourceChanged]) else staged }
        else staged))"

fun recheck_entries :: "TransactionManager \<Rightarrow> preparedReplacement list \<Rightarrow> ws_error option io" where
  "recheck_entries m [] = ret None"
| "recheck_entries m (p # ps) = on_error (recheck_entry m p) (\<lambda>e. ret (Some e)) (recheck_entries m ps)"

definition recheckSources :: "TransactionManager \<Rightarrow> SourceSet \<Rightarrow> preparedReplacement list \<Rightarrow> ws_error option io" where
  "recheckSources m sources prepared =
     on_error (recheck_read m sources (Files sources)) (\<lambda>e. ret (Some e)) (recheck_entries m prepared)"

subsection \<open>Activation\<close>

text \<open>Exchange back while the active file is still the candidate: external work is restored, not
  overwritten.\<close>

definition roll_back :: "TransactionManager \<Rightarrow> preparedReplacement \<Rightarrow> preparedReplacement io" where
  "roll_back m p =
     (let target = Base (rp_Path (pr_replacement p)); limit = maximumFileLimit (rp_Role (pr_replacement p)) in
      on_result (fingerprintAt m (pr_parent p) target limit) (\<lambda>_. ret p) (\<lambda>current.
        if \<not> sameFingerprintContent (pr_candidate p) current False then ret p
        else
          or_else (rename_exchange m (pr_parent p) (pr_stage p) target) (ret p) (\<lambda>_.
          or_else (syncDirectory m) (ret p) (\<lambda>_. ret (p\<lparr>pr_activated := False\<rparr>)))))"

text \<open>The displaced original under its staging name, when there was one.\<close>

definition displaced_original :: "TransactionManager \<Rightarrow> preparedReplacement \<Rightarrow> (ws_error, SourceFingerprint) result io" where
  "displaced_original m p =
     (if \<not> pr_existed p then ret (Inr no_fingerprint)
      else
        on_result (fingerprintAt m (pr_parent p) (pr_stage p) (maximumFileLimit (rp_Role (pr_replacement p))))
          (\<lambda>_. ret (Inl [ErrSourceChanged])) (\<lambda>displaced.
          if \<not> sameFingerprintContent (pr_original p) displaced False then ret (Inl [ErrSourceChanged])
          else ret (Inr displaced)))"

definition active_candidate :: "TransactionManager \<Rightarrow> preparedReplacement \<Rightarrow> (ws_error, SourceFingerprint) result io" where
  "active_candidate m p =
     on_result (fingerprintAt m (pr_parent p) (Base (rp_Path (pr_replacement p))) (maximumFileLimit (rp_Role (pr_replacement p))))
       (\<lambda>_. ret (Inl plain_error)) (\<lambda>active.
       if \<not> sameFingerprintContent (pr_candidate p) active False then ret (Inl plain_error) else ret (Inr active))"

text \<open>The end of an activation: the displaced original is removed.\<close>

definition remove_displaced :: "TransactionManager \<Rightarrow> preparedReplacement \<Rightarrow> ws_error option io" where
  "remove_displaced m p =
     (if \<not> pr_existed p then ret None
      else case inject m FailureBeforeOldUnlink (pr_ordinal p) of Some e \<Rightarrow> ret (Some e) | None \<Rightarrow>
      on_error (removeOwnedFingerprintAt m (pr_parent p) (pr_stage p) (pr_original p)
                  (maximumFileLimit (rp_Role (pr_replacement p))) (pr_ordinal p))
        (\<lambda>e. ret (Some (ErrSourceChanged # e))) (
      case inject m FailureBeforeOldDirSync (pr_ordinal p) of Some e \<Rightarrow> ret (Some e) | None \<Rightarrow>
      or_else (syncDirectory m) (ret (Some plain_error)) (\<lambda>_. ret None)))"

definition confirm_placement ::
    "TransactionManager \<Rightarrow> bytes \<Rightarrow> preparedReplacement \<Rightarrow> ws_error option io" where
  "confirm_placement m transactionID p =
     on_result (active_candidate m p) (\<lambda>_. ret (Some [ErrSourceChanged])) (\<lambda>placedCandidate.
     on_result (displaced_original m p) (\<lambda>_. ret (Some [ErrSourceChanged])) (\<lambda>confirmedOriginal.
     on_error (MarkApplied m transactionID (pr_ordinal p) (sf_Identity placedCandidate) (sf_Identity confirmedOriginal))
       (\<lambda>e. ret (Some e)) (
     case inject m FailureAfterAppliedRecord (pr_ordinal p) of Some e \<Rightarrow> ret (Some e) | None \<Rightarrow>
     remove_displaced m p)))"

definition record_placement ::
    "TransactionManager \<Rightarrow> bytes \<Rightarrow> preparedReplacement \<Rightarrow> SourceFingerprint \<Rightarrow> SourceFingerprint \<Rightarrow>
     (ws_error option \<times> preparedReplacement) io" where
  "record_placement m transactionID p active original =
     on_error (MarkPlacement m transactionID (pr_ordinal p) (sf_Identity active) (sf_Identity original)) (\<lambda>e. ret (Some e, p)) (
     let p = p\<lparr>pr_candidate := (pr_candidate p)\<lparr>sf_Identity := sf_Identity active\<rparr>,
              pr_original := (pr_original p)\<lparr>sf_Identity := sf_Identity original\<rparr>\<rparr> in
     case first_error [inject m FailureAfterReplace (pr_ordinal p), inject m FailureBeforeActiveSync (pr_ordinal p)] of
       Some e \<Rightarrow> ret (Some e, p)
     | None \<Rightarrow>
         or_else (syncDirectory m) (ret (Some plain_error, p)) (\<lambda>_.
         case inject m FailureAfterDirectorySync (pr_ordinal p) of Some e \<Rightarrow> ret (Some e, p) | None \<Rightarrow> do {
           result \<leftarrow> confirm_placement m transactionID p;
           ret (result, p) }))"

definition activateCandidate ::
    "TransactionManager \<Rightarrow> bytes \<Rightarrow> preparedReplacement \<Rightarrow> (ws_error option \<times> preparedReplacement) io" where
  "activateCandidate m transactionID p =
     (let target = Base (rp_Path (pr_replacement p)) in
      or_else (ctx_err m) (ret (Some [ContextCanceled], p)) (\<lambda>_.
      or_else (if pr_existed p then rename_exchange m (pr_parent p) (pr_stage p) target
               else rename_noreplace m (pr_parent p) (pr_stage p) target) (ret (Some plain_error, p)) (\<lambda>_.
      let p = p\<lparr>pr_activated := True\<rparr> in
      case inject m FailureAfterRename (pr_ordinal p) of Some e \<Rightarrow> ret (Some e, p) | None \<Rightarrow>
      on_result (active_candidate m p) (\<lambda>e. ret (Some e, p)) (\<lambda>active.
      on_result (displaced_original m p)
        (\<lambda>e. do { p' \<leftarrow> roll_back m p; ret (Some e, p') })
        (record_placement m transactionID p active)))))"

fun activate_all ::
    "TransactionManager \<Rightarrow> bytes \<Rightarrow> nat \<Rightarrow> bool \<Rightarrow> preparedReplacement list \<Rightarrow> ((ws_error \<times> bool) option \<times> preparedReplacement list) io" where
  "activate_all m transactionID index replaced [] = ret (None, [])"
| "activate_all m transactionID index replaced (p # ps) =
     (if tm_injector m FailureBeforeReplace (int index) then ret (Some ([ErrRecoveryRequired], False), p # ps)
      else do {
        (result, p') \<leftarrow> activateCandidate m transactionID p;
        case result of
          Some e \<Rightarrow>
            ret (Some (if \<not> replaced \<and> \<not> pr_activated p' then (e, True) else (ErrRecoveryRequired # e, False)), p' # ps)
        | None \<Rightarrow> do {
            (result, ps') \<leftarrow> activate_all m transactionID (Suc index) True ps;
            ret (result, p' # ps') } })"

subsection \<open>Discarding staged files\<close>

definition discard_entry :: "TransactionManager \<Rightarrow> preparedReplacement \<Rightarrow> ws_error option io" where
  "discard_entry m p =
     (if pr_cleanupUncertain p then ret (Some plain_error)
      else
        on_result (ownedStageBasename m (pr_parent p) (pr_stage p)) (\<lambda>e. ret (Some e)) (\<lambda>owned.
          case owned of
            None \<Rightarrow> ret None
          | Some basename \<Rightarrow>
              if \<not> fi_Exists (sf_Identity (pr_candidate p)) then ret (Some plain_error)
              else removeOwnedFingerprintAt m (pr_parent p) basename (pr_candidate p)
                     (maximumFileLimit (rp_Role (pr_replacement p))) (pr_ordinal p)))"

fun discard_entries :: "TransactionManager \<Rightarrow> preparedReplacement list \<Rightarrow> ws_error option \<Rightarrow> ws_error option io" where
  "discard_entries m [] cleanupError = ret cleanupError"
| "discard_entries m (p # ps) cleanupError = do {
     r \<leftarrow> discard_entry m p;
     discard_entries m ps (case r of Some e \<Rightarrow> Some e | None \<Rightarrow> cleanupError) }"

definition discardPrepared :: "TransactionManager \<Rightarrow> Journal \<Rightarrow> preparedReplacement list \<Rightarrow> ws_error option io" where
  "discardPrepared m journal prepared =
     on_error (discard_entries m prepared None) (\<lambda>e. ret (Some e)) (Clear_journal m (jo_TransactionID journal))"

definition abortBeforeReplacement ::
    "TransactionManager \<Rightarrow> Journal \<Rightarrow> preparedReplacement list \<Rightarrow> ws_error \<Rightarrow> (ws_error, 'a) result io" where
  "abortBeforeReplacement m journal prepared cause =
     on_error (discardPrepared m journal prepared) (\<lambda>_. ret (Inl (ErrRecoveryRequired # cause))) (ret (Inl cause))"

subsection \<open>Auditing the candidate\<close>

definition validateSelectedPath :: "bytes \<Rightarrow> bool" where
  "validateSelectedPath path = validateCanonicalStorePath path"

fun check_replacements :: "SourceSet \<Rightarrow> bytes \<Rightarrow> bytes list \<Rightarrow> Replacement list \<Rightarrow> bool" where
  "check_replacements sources candidate seen [] = True"
| "check_replacements sources candidate seen (r # rs) =
     (if rp_Role r \<noteq> RoleConfiguration \<and> rp_Role r \<noteq> RoleDotenv then False
      else if \<not> validateSelectedPath (rp_Path r) then False
      else if (case sourceForPath sources (rp_Path r) of Some source \<Rightarrow> so_Role source \<noteq> rp_Role r | None \<Rightarrow> False) then False
      else if rp_Role r = RoleConfiguration \<and>
              (rp_Content r = [] \<or> rp_Path r \<noteq> so_Path (ss_Configuration sources) \<or> rp_Content r \<noteq> candidate) then False
      else if int (length (rp_Content r)) > maximumFileLimit (rp_Role r) then False
      else if rp_Path r \<in> set seen then False
      else check_replacements sources candidate (rp_Path r # seen) rs)"

definition validateReplacementSet :: "SourceSet \<Rightarrow> bytes \<Rightarrow> Replacement list \<Rightarrow> bool" where
  "validateReplacementSet sources candidate replacements \<longleftrightarrow>
     replacements \<noteq> [] \<and> length replacements \<le> 257 \<and> check_replacements sources candidate [] replacements \<and>
     ((candidate \<noteq> so_Content (ss_Configuration sources)) = list_ex (\<lambda>r. rp_Role r = RoleConfiguration) replacements)"

definition storage_requirements :: pathRequirements where
  "storage_requirements = directory_requirements\<lparr>pq_requireRead := True\<rparr>"

definition dotenv_requirements :: pathRequirements where
  "dotenv_requirements = source_requirements\<lparr>pq_readHandle := False\<rparr>"

definition regular_requirements :: pathRequirements where
  "regular_requirements = \<lparr>pq_expected = PathTypeRegular, pq_confidential = False, pq_requireRead = False, pq_requireWrite = False,
     pq_requireSearch = False, pq_requireParentSwap = False, pq_readHandle = False\<rparr>"

definition auditCreatableTarget :: "TransactionManager \<Rightarrow> bytes \<Rightarrow> ws_error option io" where
  "auditCreatableTarget m target =
     (if \<not> validateSelectedPath target then ret (Some [ErrInvalidEdit])
      else do {
        parent \<leftarrow> auditPath m (Dir_abs target) RoleDotenv [] directory_requirements;
        or_else (ctx_err m) (ret (Some [ContextCanceled])) (\<lambda>_.
          if \<not> safe_audit parent then ret (Some [ErrInvalidEdit])
          else do {
            final \<leftarrow> auditPath m target RoleDotenv [] regular_requirements;
            or_else (ctx_err m) (ret (Some [ContextCanceled])) (\<lambda>_.
              ret (fails_if (pe_Exists (ap_evidence final) \<or> pe_Type (ap_evidence final) \<noteq> PathTypeMissing) [ErrSourceChanged])) }) })"

text \<open>One referenced dotenv path: a reviewed source, or a missing file that a replacement creates.\<close>

definition audit_dotenv ::
    "TransactionManager \<Rightarrow> SourceSet \<Rightarrow> Replacement list \<Rightarrow> nativeReference \<Rightarrow> (ws_error, CandidatePath) result io" where
  "audit_dotenv m sources replacements reference = do {
     a \<leftarrow> auditPath m (nr_resolved reference) RoleDotenv (nr_raw reference) dotenv_requirements;
     or_else (ctx_err m) (ret (Inl [ContextCanceled])) (\<lambda>_.
       let e = ap_evidence a;
           path = \<lparr>ca_Role = RoleDotenv, ca_Reference = nr_raw reference, ca_Path = nr_resolved reference, ca_Exists = False,
                   ca_WillCreate = False, ca_Evidence = e\<rparr> in
       if pe_Exists e \<and> safe_audit a then
         (case sourceForPath sources (nr_resolved reference) of
            Some source \<Rightarrow> if so_Role source \<noteq> RoleDotenv then ret (Inl [ErrInvalidEdit]) else ret (Inr (path\<lparr>ca_Exists := True\<rparr>))
          | None \<Rightarrow> ret (Inl [ErrInvalidEdit]))
       else if \<not> pe_Exists e then
         (case find (\<lambda>r. rp_Path r = nr_resolved reference) replacements of
            None \<Rightarrow> ret (Inl [ErrInvalidEdit])
          | Some r \<Rightarrow>
              if rp_Role r \<noteq> RoleDotenv then ret (Inl [ErrInvalidEdit])
              else on_error (auditCreatableTarget m (nr_resolved reference)) (\<lambda>e. ret (Inl e)) (ret (Inr (path\<lparr>ca_WillCreate := True\<rparr>))))
       else ret (Inl [ErrInvalidEdit])) }"

fun audit_dotenvs ::
    "TransactionManager \<Rightarrow> SourceSet \<Rightarrow> Replacement list \<Rightarrow> nativeReference list \<Rightarrow> (ws_error, CandidatePath list) result io" where
  "audit_dotenvs m sources replacements [] = ret (Inr [])"
| "audit_dotenvs m sources replacements (r # rs) =
     on_result (audit_dotenv m sources replacements r) (\<lambda>e. ret (Inl e)) (\<lambda>p.
     on_result (audit_dotenvs m sources replacements rs) (\<lambda>e. ret (Inl e)) (\<lambda>ps. ret (Inr (p # ps))))"

fun audit_webroots :: "TransactionManager \<Rightarrow> nativeReference list \<Rightarrow> (ws_error, PathEvidence list) result io" where
  "audit_webroots m [] = ret (Inr [])"
| "audit_webroots m (r # rs) = do {
     a \<leftarrow> auditPath m (nr_resolved r) RoleWebroot (nr_raw r) directory_requirements;
     or_else (ctx_err m) (ret (Inl [ContextCanceled])) (\<lambda>_.
       if \<not> safe_audit a then ret (Inl [ErrInvalidEdit])
       else on_result (audit_webroots m rs) (\<lambda>e. ret (Inl e)) (\<lambda>es. ret (Inr (ap_evidence a # es)))) }"

definition AuditCandidate ::
    "TransactionManager \<Rightarrow> Lease \<Rightarrow> SourceSet \<Rightarrow> bytes \<Rightarrow> Replacement list \<Rightarrow> (ws_error, CandidateAudit) result io" where
  "AuditCandidate m lease sources candidate replacements =
     on_error (manager_ready m lease) (\<lambda>e. ret (Inl e)) (
     if ss_closed sources \<or> so_Path (ss_Configuration sources) = []
        \<or> \<not> fi_Exists (sf_Identity (so_Fingerprint (ss_Configuration sources))) then ret (Inl [ErrInvalidEdit])
     else if candidate = [] \<or> int (length candidate) > tm_MaxConfigurationBytes m then ret (Inl [ErrInvalidEdit])
     else if \<not> validateReplacementSet sources candidate replacements then ret (Inl [ErrInvalidEdit])
     else
       (let review = sl_Review (ss_Selection sources);
            (references, diagnostics) = tm_references m candidate (pe_Path (rv_Configuration review)) (pe_Path (rv_WorkingDirectory review)) in
        if hasBlockingDiagnostics diagnostics then ret (Inl [ErrInvalidEdit])
        else do {
          storage \<leftarrow> auditPath m (nr_resolved (nr_storage references)) RoleStorage (nr_raw (nr_storage references)) storage_requirements;
          or_else (ctx_err m) (ret (Inl [ContextCanceled])) (\<lambda>_.
            if \<not> safe_audit storage then ret (Inl [ErrInvalidEdit])
            else
              on_result (audit_dotenvs m sources replacements (nr_dotenv references)) (\<lambda>e. ret (Inl e)) (\<lambda>dotenv.
                if list_ex (\<lambda>r. rp_Role r = RoleDotenv \<and> rp_Path r \<notin> nr_resolved ` set (nr_dotenv references)) replacements
                then ret (Inl [ErrInvalidEdit])
                else
                  on_result (audit_webroots m (nr_webroots references)) (\<lambda>e. ret (Inl e)) (\<lambda>webroots.
                  ret (Inr \<lparr>au_Storage = ap_evidence storage, au_Dotenv = dotenv, au_Webroots = webroots\<rparr>)))) }))"

definition same_candidate_path :: "CandidatePath \<Rightarrow> CandidatePath \<Rightarrow> bool" where
  "same_candidate_path l r \<longleftrightarrow>
     ca_Role l = ca_Role r \<and> ca_Reference l = ca_Reference r \<and> ca_Path l = ca_Path r \<and> ca_Exists l = ca_Exists r \<and>
     ca_WillCreate l = ca_WillCreate r \<and> samePathPlacementEvidence (ca_Evidence l) (ca_Evidence r)"

definition sameCandidateAudit :: "CandidateAudit \<Rightarrow> CandidateAudit \<Rightarrow> bool" where
  "sameCandidateAudit left right \<longleftrightarrow>
     samePathPlacementEvidence (au_Storage left) (au_Storage right) \<and>
     samePathPlacementEvidenceSlice (au_Webroots left) (au_Webroots right) \<and>
     length (au_Dotenv left) = length (au_Dotenv right) \<and> list_all2 same_candidate_path (au_Dotenv left) (au_Dotenv right)"

subsection \<open>Inspecting the committed workspace\<close>

text \<open>One dotenv source of the fresh snapshot: it is a replacement with its exact content, or an
  unmodified reviewed source.  The state is the set of replaced paths seen and of reviewed paths seen.\<close>

definition committed_dotenv ::
    "TransactionManager \<Rightarrow> SourceSet \<Rightarrow> Replacement list \<Rightarrow> CandidatePath \<Rightarrow> PathEvidence \<Rightarrow> SourceFile \<Rightarrow>
     bytes list \<times> bytes list \<Rightarrow> (ws_error, bytes list \<times> bytes list) result" where
  "committed_dotenv m prior replacements expected evidence current = (\<lambda>(validated, reviewed).
     if ca_Path expected \<noteq> so_Path current \<or> ca_Path expected \<noteq> pe_Path evidence \<or> ca_Reference expected \<noteq> pe_Reference evidence
        \<or> \<not> samePathAncestorEvidence (ca_Evidence expected) evidence
     then Inl [ErrSourceChanged]
     else
       (case find (\<lambda>r. rp_Path r = so_Path current) replacements of
          Some r \<Rightarrow>
            if rp_Role r \<noteq> RoleDotenv \<or> sf_SHA256 (so_Fingerprint current) \<noteq> tm_sha256 m (rp_Content r) then Inl plain_error
            else Inr (so_Path current # validated, reviewed)
        | None \<Rightarrow>
            (case sourceForPath prior (so_Path current) of
               None \<Rightarrow> Inl [ErrSourceChanged]
             | Some p \<Rightarrow>
                 if so_Role p \<noteq> RoleDotenv \<or> \<not> sameSourceFingerprint (so_Fingerprint p) (so_Fingerprint current)
                 then Inl [ErrSourceChanged]
                 else Inr (validated, so_Path current # reviewed))))"

fun committed_dotenvs ::
    "TransactionManager \<Rightarrow> SourceSet \<Rightarrow> Replacement list \<Rightarrow> CandidatePath list \<Rightarrow> PathEvidence list \<Rightarrow> SourceFile list \<Rightarrow>
     bytes list \<times> bytes list \<Rightarrow> (ws_error, bytes list \<times> bytes list) result" where
  "committed_dotenvs m prior replacements (x # xs) (e # es) (c # cs) st =
     bind_result (committed_dotenv m prior replacements x e c st) (committed_dotenvs m prior replacements xs es cs)"
| "committed_dotenvs m prior replacements _ _ _ st = Inr st"

fun unreferenced_dotenvs ::
    "TransactionManager \<Rightarrow> Review \<Rightarrow> Replacement list \<Rightarrow> bytes list \<Rightarrow> SourceFile list \<Rightarrow> ws_error option io" where
  "unreferenced_dotenvs m review replacements reviewed [] = ret None"
| "unreferenced_dotenvs m review replacements reviewed (p # ps) =
     (if so_Path p \<in> rp_Path ` set replacements \<or> so_Path p \<in> set reviewed
      then unreferenced_dotenvs m review replacements reviewed ps
      else
        on_result (readSource m (pathEvidenceForPath review (so_Path p)) (maximumFileLimit (so_Role p)))
          (\<lambda>_. ret (Some [ErrSourceChanged])) (\<lambda>current.
          if \<not> sameSourceFingerprint (so_Fingerprint p) (so_Fingerprint current) then ret (Some [ErrSourceChanged])
          else unreferenced_dotenvs m review replacements reviewed ps))"

text \<open>The configuration of the fresh snapshot: the validated candidate, or unmodified.\<close>

definition committed_configuration :: "TransactionManager \<Rightarrow> SourceSet \<Rightarrow> bytes \<Rightarrow> Replacement list \<Rightarrow> SourceFile \<Rightarrow> ws_error option" where
  "committed_configuration m prior candidate replacements current =
     (case find (\<lambda>r. rp_Path r = so_Path current) replacements of
        Some r \<Rightarrow> fails_if (rp_Role r \<noteq> RoleConfiguration \<or> rp_Content r \<noteq> candidate
                             \<or> sf_SHA256 (so_Fingerprint current) \<noteq> tm_sha256 m (rp_Content r)) plain_error
      | None \<Rightarrow> fails_if (\<not> sameSourceFingerprint (so_Fingerprint (ss_Configuration prior)) (so_Fingerprint current)) [ErrSourceChanged])"

definition inspectCommitted ::
    "TransactionManager \<Rightarrow> SourceSet \<Rightarrow> CandidateAudit \<Rightarrow> bytes \<Rightarrow> Replacement list \<Rightarrow> (ws_error, Selection) result io" where
  "inspectCommitted m prior audit candidate replacements =
     (if ss_closed prior then ret (Inl plain_error)
      else
        (let old = sl_Review (ss_Selection prior) in
         on_result (inspector_Inspect m \<lparr>rq_WorkingDirectory = pe_Path (rv_WorkingDirectory old),
             rq_ConfigurationPath = (if rv_ConfigurationSource old = ConfigurationExplicit then pe_Path (rv_Configuration old) else [])\<rparr>)
           (\<lambda>_. ret (Inl plain_error)) (\<lambda>review.
         if \<not> rv_Adoptable review then ret (Inl plain_error)
         else if \<not> samePathPlacementEvidence (rv_WorkingDirectory old) (rv_WorkingDirectory review)
            \<or> \<not> samePathPlacementEvidence (au_Storage audit) (rv_Storage review)
            \<or> \<not> samePathPlacementEvidenceSlice (au_Webroots audit) (rv_Webroots review) then ret (Inl [ErrSourceChanged])
         else if length (au_Dotenv audit) \<noteq> length (rv_DotenvFiles review) then ret (Inl [ErrSourceChanged])
         else do {
           t \<leftarrow> now m;
           let selection = \<lparr>sl_Review = review, sl_ReviewedAt = reviewed_at t review\<rparr> in
           on_result (snapshotSelection m selection) (\<lambda>e. ret (Inl e)) (\<lambda>current.
             case committed_configuration m prior candidate replacements (ss_Configuration current) of Some e \<Rightarrow> ret (Inl e) | None \<Rightarrow>
             case committed_dotenvs m prior (filter (\<lambda>r. rp_Path r \<noteq> so_Path (ss_Configuration current)) replacements) (au_Dotenv audit) (rv_DotenvFiles review) (ss_Dotenv current) ([], []) of
               Inl e \<Rightarrow> ret (Inl e)
             | Inr (validated, reviewed) \<Rightarrow>
                 on_error (unreferenced_dotenvs m old replacements reviewed (ss_Dotenv prior)) (\<lambda>e. ret (Inl e)) (
                   if list_ex (\<lambda>r. rp_Path r \<noteq> so_Path (ss_Configuration current) \<and> rp_Path r \<notin> set validated) replacements
                   then ret (Inl plain_error)
                   else ret (Inr selection))) })))"

subsection \<open>Commit\<close>

definition working_requirements :: pathRequirements where
  "working_requirements = \<lparr>pq_expected = PathTypeDirectory, pq_confidential = False, pq_requireRead = True, pq_requireWrite = False,
     pq_requireSearch = True, pq_requireParentSwap = False, pq_readHandle = False\<rparr>"

definition NewTransactionID :: "TransactionManager \<Rightarrow> bytes option io" where
  "NewTransactionID m = do { n \<leftarrow> tick m; ret (map_option hex_encode (tm_random m n)) }"

text \<open>The authorization right before the first rename: the administrator's session, the sources, the
  working directory and the audit of the candidate once more.\<close>

definition authorize ::
    "TransactionManager \<Rightarrow> Lease \<Rightarrow> CommitPlan \<Rightarrow> ws_error option io \<Rightarrow> CandidateAudit \<Rightarrow> Replacement list \<Rightarrow> preparedReplacement list \<Rightarrow>
     ws_error option io" where
  "authorize m lease plan guard audit replacements prepared =
     on_error guard (\<lambda>e. ret (Some e)) (
     on_error (recheckSources m (cp_Sources plan) prepared) (\<lambda>e. ret (Some e)) (do {
       let reviewed = rv_WorkingDirectory (sl_Review (ss_Selection (cp_Sources plan)));
       working \<leftarrow> auditPath m (pe_Path reviewed) RoleWorkingDirectory [] working_requirements;
       if \<not> safe_audit working \<or> \<not> samePathPlacementEvidence reviewed (ap_evidence working) then ret (Some [ErrSourceChanged])
       else
         on_result (AuditCandidate m lease (cp_Sources plan) (cp_CandidateConfiguration plan) replacements)
           (\<lambda>_. ret (Some [ErrSourceChanged])) (\<lambda>confirmed.
           ret (fails_if (\<not> sameCandidateAudit audit confirmed) [ErrSourceChanged])) }))"

text \<open>From the last activation on, an error leaves the journal to recovery.\<close>

definition finish_commit ::
    "TransactionManager \<Rightarrow> CommitPlan \<Rightarrow> bytes \<Rightarrow> CandidateAudit \<Rightarrow> Replacement list \<Rightarrow> (ws_error, Selection) result io" where
  "finish_commit m plan transactionID audit replacements =
     on_error (SetPhase m transactionID JournalFinalizing) (\<lambda>_. ret (Inl [ErrRecoveryRequired])) (
     case inject m FailureBeforeFinalize (-1) of Some _ \<Rightarrow> ret (Inl [ErrRecoveryRequired]) | None \<Rightarrow>
     on_result (inspectCommitted m (cp_Sources plan) audit (cp_CandidateConfiguration plan) replacements)
       (\<lambda>e. ret (Inl (ErrRecoveryRequired # e))) (\<lambda>selection.
     on_error (FinalizeEdit m selection transactionID) (\<lambda>_. ret (Inl [ErrRecoveryRequired])) (ret (Inr selection))))"

text \<open>From the journaled plan on.\<close>

definition run_commit ::
    "TransactionManager \<Rightarrow> Lease \<Rightarrow> CommitPlan \<Rightarrow> ws_error option io \<Rightarrow> bytes \<Rightarrow> CandidateAudit \<Rightarrow> Replacement list \<Rightarrow>
     Journal \<Rightarrow> preparedReplacement list \<Rightarrow> (ws_error, Selection) result io" where
  "run_commit m lease plan guard transactionID audit replacements journal prepared =
     (case inject m FailureAfterJournal (-1) of Some _ \<Rightarrow> ret (Inl [ErrRecoveryRequired]) | None \<Rightarrow> do {
        (result, prepared) \<leftarrow> stage_all m transactionID 0 prepared;
        let abort = abortBeforeReplacement m journal prepared in
        case result of
          Some (e, clean) \<Rightarrow> if clean then abort e else ret (Inl e)
        | None \<Rightarrow>
            on_error (recheckSources m (cp_Sources plan) prepared) abort (
            on_error (SetPhase m transactionID JournalPrepared) abort (
            case inject m FailureAfterPrepared (-1) of Some _ \<Rightarrow> ret (Inl [ErrRecoveryRequired]) | None \<Rightarrow>
            on_error (SetPhase m transactionID JournalReplacing) abort (
            on_error (authorize m lease plan guard audit replacements prepared) abort (do {
              (result, prepared) \<leftarrow> activate_all m transactionID 0 False prepared;
              case result of
                Some (e, clean) \<Rightarrow> if clean then abortBeforeReplacement m journal prepared e else ret (Inl e)
              | None \<Rightarrow> finish_commit m plan transactionID audit replacements })))) })"

definition Commit ::
    "TransactionManager \<Rightarrow> Lease \<Rightarrow> CommitPlan \<Rightarrow> ws_error option io option \<Rightarrow> (ws_error, Selection) result io" where
  "Commit m lease plan guard =
     on_error (manager_ready m lease) (\<lambda>e. ret (Inl e)) (
     case guard of None \<Rightarrow> ret (Inl [ErrInvalidEdit]) | Some guard \<Rightarrow>
     without_journal m (\<lambda>e. ret (Inl e)) (
     on_result (AuditCandidate m lease (cp_Sources plan) (cp_CandidateConfiguration plan) (cp_Replacements plan))
       (\<lambda>e. ret (Inl e)) (\<lambda>audit.
     let replacements = sortReplacements (cp_Replacements plan) in
     or_else (NewTransactionID m) (ret (Inl plain_error)) (\<lambda>transactionID.
     on_result (prepareJournal m transactionID (cp_Sources plan) replacements) (\<lambda>e. ret (Inl e)) (\<lambda>(prepared, journal).
     on_error (journal_Create m journal) (\<lambda>e. ret (Inl e)) (
     run_commit m lease plan guard transactionID audit replacements journal prepared))))))"

end
