(* ===== verification/Workspace_Logic.thy ===== *)
theory Workspace_Logic
  imports Workspace_Commit
begin

text \<open>
  Reasoning about the calls of a native edit: weakest preconditions of a computation, the
  computations that only look at the world, and how each call changes names and inodes when no
  other process interferes.
\<close>

named_theorems looks_intros \<open>computations that only look\<close>

subsection \<open>Weakest preconditions\<close>

definition wp :: "'a io \<Rightarrow> ('a \<Rightarrow> world \<Rightarrow> bool) \<Rightarrow> world \<Rightarrow> bool" where
  "wp c Q w = (case run_state c w of (a, w') \<Rightarrow> Q a w')"

lemma wp_ret [simp]: "wp (ret a) Q w = Q a w"
  by (simp add: wp_def)

lemma wp_bind [simp]: "wp (State_Monad.bind c f) Q w = wp c (\<lambda>a. wp (f a) Q) w"
  by (simp add: wp_def split: prod.split)

lemma wp_State [simp]: "wp (State f) Q w = (case f w of (a, w') \<Rightarrow> Q a w')"
  by (simp add: wp_def)

lemma wp_mono: "wp c Q w \<Longrightarrow> (\<And>a w'. Q a w' \<Longrightarrow> R a w') \<Longrightarrow> wp c R w"
  by (auto simp: wp_def split: prod.splits)

lemma wp_and: "wp c Q w \<Longrightarrow> wp c R w \<Longrightarrow> wp c (\<lambda>a w'. Q a w' \<and> R a w') w"
  by (auto simp: wp_def split: prod.splits)

lemma wp_or_else [simp]: "wp (or_else c h k) Q w = wp c (\<lambda>r. case r of None \<Rightarrow> wp h Q | Some a \<Rightarrow> wp (k a) Q) w"
  unfolding or_else_def wp_bind by (rule arg_cong [where f = "\<lambda>Q. wp c Q w"]) (auto split: option.split)

lemma wp_on_error [simp]: "wp (on_error c h k) Q w = wp c (\<lambda>r. case r of None \<Rightarrow> wp k Q | Some e \<Rightarrow> wp (h e) Q) w"
  unfolding on_error_def wp_bind by (rule arg_cong [where f = "\<lambda>Q. wp c Q w"]) (auto split: option.split)

lemma wp_on_result [simp]: "wp (on_result c h k) Q w = wp c (\<lambda>r. case r of Inl e \<Rightarrow> wp (h e) Q | Inr a \<Rightarrow> wp (k a) Q) w"
  unfolding on_result_def wp_bind by (rule arg_cong [where f = "\<lambda>Q. wp c Q w"]) (auto split: sum.split)

subsection \<open>Quiet worlds\<close>

definition quiet :: "TransactionManager \<Rightarrow> bool" where
  "quiet m \<longleftrightarrow> (\<forall>n fs. tm_interfere m n fs = fs)"

definition looks :: "'a io \<Rightarrow> bool" where
  "looks c \<longleftrightarrow> (\<forall>w. wp c (\<lambda>_ w'. \<exists>n. w' = w\<lparr>w_step := n\<rparr>) w)"

lemma looksI: "(\<And>w. wp c (\<lambda>_ w'. \<exists>n. w' = w\<lparr>w_step := n\<rparr>) w) \<Longrightarrow> looks c"
  by (simp add: looks_def)

lemma looks_ret [looks_intros]: "looks (ret a)"
  by (rule looksI) (simp, metis world.surjective world.update_convs(4))

lemma looks_bind [looks_intros]: "looks c \<Longrightarrow> (\<And>a. looks (f a)) \<Longrightarrow> looks (State_Monad.bind c f)"
  unfolding looks_def wp_bind by (intro allI) (rule wp_mono, blast, elim exE, hypsubst, rule wp_mono, blast, force)

lemma looks_or_else [looks_intros]: "looks c \<Longrightarrow> looks h \<Longrightarrow> (\<And>a. looks (k a)) \<Longrightarrow> looks (or_else c h k)"
  unfolding or_else_def by (rule looks_bind) (auto split: option.split)

lemma looks_on_error [looks_intros]: "looks c \<Longrightarrow> (\<And>e. looks (h e)) \<Longrightarrow> looks k \<Longrightarrow> looks (on_error c h k)"
  unfolding on_error_def by (rule looks_bind) (auto split: option.split)

lemma looks_on_result [looks_intros]: "looks c \<Longrightarrow> (\<And>e. looks (h e)) \<Longrightarrow> (\<And>a. looks (k a)) \<Longrightarrow> looks (on_result c h k)"
  unfolding on_result_def by (rule looks_bind) (auto split: sum.split)

lemma looks_wp: "looks c \<Longrightarrow> (\<And>a n. Q a (w\<lparr>w_step := n\<rparr>)) \<Longrightarrow> wp c Q w"
  unfolding looks_def by (rule wp_mono, erule allE, assumption) auto

lemma wp_tick [simp]: "quiet m \<Longrightarrow> wp (tick m) Q w = Q (w_step w) (w\<lparr>w_step := Suc (w_step w)\<rparr>)"
  by (simp add: tick_def quiet_def)

lemma looks_tick [looks_intros]: "quiet m \<Longrightarrow> looks (tick m)"
  by (rule looksI) auto

lemma wp_call:
  assumes "quiet m"
  shows "wp (call m act) Q w =
    (let n = w_step w; w1 = w\<lparr>w_step := Suc n\<rparr> in
     case tm_fault m n of
       Works \<Rightarrow> (case act n w1 of (r, w') \<Rightarrow> Q r w')
     | Reported \<Rightarrow> (case act n w1 of (r, w') \<Rightarrow> Q None w')
     | _ \<Rightarrow> Q None w1)"
  using assms by (auto simp: call_def Let_def split: fault.split prod.split)

lemma wp_callI:
  assumes "quiet m" "Q None (w\<lparr>w_step := Suc (w_step w)\<rparr>)"
    and "\<And>r w'. act (w_step w) (w\<lparr>w_step := Suc (w_step w)\<rparr>) = (r, w') \<Longrightarrow> Q r w' \<and> Q None w'"
  shows "wp (call m act) Q w"
  unfolding wp_call [OF assms(1)] Let_def using assms(2,3) by (auto split: fault.split prod.split)

lemma wp_atomic_callI:
  assumes "quiet m" "Q None (w\<lparr>w_step := Suc (w_step w)\<rparr>)"
    and "\<And>r w'. act (w_step w) (w\<lparr>w_step := Suc (w_step w)\<rparr>) = (r, w') \<Longrightarrow> Q r w'"
  shows "wp (atomic_call m act) Q w"
  using assms by (auto simp: atomic_call_def split: prod.split)

lemma looks_call: "quiet m \<Longrightarrow> (\<And>n w. snd (act n w) = w) \<Longrightarrow> looks (call m act)"
  by (rule looksI, rule wp_callI) (auto, metis snd_conv)

lemma looks_query [looks_intros]: "quiet m \<Longrightarrow> looks (query m f)"
  unfolding query_def by (intro looks_intros looks_call) auto

lemma looks_calls [looks_intros]:
  assumes "quiet m"
  shows "looks (fstatat m d name)" "looks (fstat m k)" "looks (openat_read m d name)" "looks (fsync m)" "looks (read_content m k)"
    "looks (fstat_directory m d)" "looks (open_directory m path)"
  unfolding fstatat_def fstat_def openat_read_def fsync_def read_content_def fstat_directory_def open_directory_def
  using assms by (auto intro!: looks_call simp: on_fs_def)

lemma looks_now [looks_intros]: "quiet m \<Longrightarrow> looks (now m)"
  unfolding now_def by (intro looks_intros)

lemma looks_audit [looks_intros]: "quiet m \<Longrightarrow> looks (auditPath m path role reference requirements)"
  unfolding auditPath_def by (intro looks_intros)

lemma looks_loads [looks_intros]: "quiet m \<Longrightarrow> looks (journal_Load m)" "quiet m \<Longrightarrow> looks (selection_Load m)"
  unfolding journal_Load_def selection_Load_def by (auto intro!: looks_intros)

lemma looks_missingAt [looks_intros]: "quiet m \<Longrightarrow> looks (missingAt m d name)"
  unfolding missingAt_def by (intro looks_intros)

lemma looks_identityAt [looks_intros]: "quiet m \<Longrightarrow> looks (identityAt m d name)"
  unfolding identityAt_def by (intro looks_intros)

lemma looks_ownedStageBasename [looks_intros]: "quiet m \<Longrightarrow> looks (ownedStageBasename m d stage)"
  unfolding ownedStageBasename_def by (intro looks_intros)

lemma looks_if [looks_intros]: "looks a \<Longrightarrow> looks b \<Longrightarrow> looks (if P then a else b)"
  by simp

lemma looks_openFingerprintAt [looks_intros]: "quiet m \<Longrightarrow> looks (openFingerprintAt m d name limit)"
  unfolding openFingerprintAt_def by (intro looks_intros)

lemma looks_fingerprintAt [looks_intros]: "quiet m \<Longrightarrow> looks (fingerprintAt m d name limit)"
  unfolding fingerprintAt_def by (auto intro!: looks_intros)

lemma looks_openReplacementParent [looks_intros]: "quiet m \<Longrightarrow> looks (openReplacementParent m target)"
  unfolding openReplacementParent_def Let_def by (intro looks_intros)

lemma looks_prepare_replacement [looks_intros]: "quiet m \<Longrightarrow> looks (prepare_replacement m t sources index r)"
  unfolding prepare_replacement_def Let_def by (auto intro!: looks_intros split: option.split)

lemma looks_prepare_replacements [looks_intros]: "quiet m \<Longrightarrow> looks (prepare_replacements m t sources index rs)"
  by (induction rs arbitrary: index) (auto intro!: looks_intros)

lemma looks_prepareJournal [looks_intros]: "quiet m \<Longrightarrow> looks (prepareJournal m t sources rs)"
  unfolding prepareJournal_def Let_def by (intro looks_intros)

lemma looks_readSource [looks_intros]: "quiet m \<Longrightarrow> looks (readSource m e limit)"
  unfolding readSource_def by (auto intro!: looks_intros split: option.split)

lemma looks_read_sources [looks_intros]: "quiet m \<Longrightarrow> looks (read_sources m es)"
  by (induction es) (auto intro!: looks_intros)

lemma looks_inspector [looks_intros]:
  "quiet m \<Longrightarrow> looks (inspector_Verify m review)" "quiet m \<Longrightarrow> looks (inspector_Inspect m request)"
  unfolding inspector_Verify_def inspector_Inspect_def by (auto intro!: looks_intros)

lemma looks_snapshotSelection [looks_intros]: "quiet m \<Longrightarrow> looks (snapshotSelection m selection)"
  unfolding snapshotSelection_def by (intro looks_intros)

lemma looks_ready [looks_intros]: "quiet m \<Longrightarrow> looks (manager_ready m lease)"
  unfolding manager_ready_def by (intro looks_intros)

lemma looks_without_journal [looks_intros]: "quiet m \<Longrightarrow> (\<And>e. looks (h e)) \<Longrightarrow> looks k \<Longrightarrow> looks (without_journal m h k)"
  unfolding without_journal_def by (auto intro!: looks_intros split: sum.split)

lemma looks_recheck_read [looks_intros]: "quiet m \<Longrightarrow> looks (recheck_read m sources fs)"
  by (induction fs) (auto intro!: looks_intros)

lemma looks_recheck_entry [looks_intros]: "quiet m \<Longrightarrow> looks (recheck_entry m p)"
  unfolding recheck_entry_def Let_def by (intro looks_intros)

lemma looks_recheck_entries [looks_intros]: "quiet m \<Longrightarrow> looks (recheck_entries m ps)"
  by (induction ps) (auto intro!: looks_intros)

lemma looks_recheckSources [looks_intros]: "quiet m \<Longrightarrow> looks (recheckSources m sources prepared)"
  unfolding recheckSources_def by (intro looks_intros)

lemma looks_active [looks_intros]: "quiet m \<Longrightarrow> looks (active_candidate m p)" "quiet m \<Longrightarrow> looks (displaced_original m p)"
  unfolding active_candidate_def displaced_original_def by (auto intro!: looks_intros)

lemma looks_auditCreatableTarget [looks_intros]: "quiet m \<Longrightarrow> looks (auditCreatableTarget m target)"
  unfolding auditCreatableTarget_def by (intro looks_intros)

lemma looks_audit_dotenv [looks_intros]: "quiet m \<Longrightarrow> looks (audit_dotenv m sources rs reference)"
  unfolding audit_dotenv_def Let_def by (auto intro!: looks_intros split: option.split)

lemma looks_audit_dotenvs [looks_intros]: "quiet m \<Longrightarrow> looks (audit_dotenvs m sources rs refs)"
  by (induction refs) (auto intro!: looks_intros)

lemma looks_audit_webroots [looks_intros]: "quiet m \<Longrightarrow> looks (audit_webroots m refs)"
  by (induction refs) (auto intro!: looks_intros)

lemma looks_AuditCandidate [looks_intros]: "quiet m \<Longrightarrow> looks (AuditCandidate m lease sources candidate rs)"
  unfolding AuditCandidate_def Let_def by (auto intro!: looks_intros split: prod.split)

lemma looks_unreferenced [looks_intros]: "quiet m \<Longrightarrow> looks (unreferenced_dotenvs m review rs reviewed ps)"
  by (induction ps) (auto intro!: looks_intros)

lemma looks_inspectCommitted [looks_intros]: "quiet m \<Longrightarrow> looks (inspectCommitted m prior audit candidate rs)"
  unfolding inspectCommitted_def Let_def by (auto intro!: looks_intros split: option.split sum.split)

lemma looks_NewTransactionID [looks_intros]: "quiet m \<Longrightarrow> looks (NewTransactionID m)"
  unfolding NewTransactionID_def by (intro looks_intros)

lemma looks_Snapshot: "quiet m \<Longrightarrow> looks (Snapshot m lease)"
  unfolding Snapshot_def by (intro looks_intros)

end
