(* ===== verification/Workspace_Slots.thy ===== *)
theory Workspace_Slots
  imports Workspace_Logic
begin

text \<open>
  The three names an edit uses for one file: the target, the staging name and the quarantine name.
  While a file is staged, discarded or cleaned up, the edit touches only the last two names and
  inodes that no other name has: whatever the target and every other name hold stays as it is,
  whichever calls fail.
\<close>

declare split_paired_All [simp del] split_paired_Ex [simp del]

subsection \<open>Slots\<close>

abbreviation names :: "world \<Rightarrow> key \<times> bytes \<Rightarrow> key option" where
  "names w \<equiv> fs_names (w_fs w)"

definition target_of :: "preparedReplacement \<Rightarrow> key \<times> bytes" where
  "target_of p = (pr_parent p, Base (rp_Path (pr_replacement p)))"

definition stage_of :: "preparedReplacement \<Rightarrow> key \<times> bytes" where
  "stage_of p = (pr_parent p, pr_stage p)"

definition trash_of :: "preparedReplacement \<Rightarrow> key \<times> bytes" where
  "trash_of p = (pr_parent p, cleanupBasename (pr_stage p))"

definition tidy :: "filesystem \<Rightarrow> bool" where
  "tidy fs \<longleftrightarrow> (\<forall>y k. fs_names fs y = Some k \<longrightarrow> snd k < fs_next fs \<and> fs_inodes fs k \<noteq> None)"

text \<open>An inode that only the staging names of a slot may refer to.\<close>

definition owned :: "preparedReplacement \<Rightarrow> key \<Rightarrow> filesystem \<Rightarrow> bool" where
  "owned p k fs \<longleftrightarrow> (\<forall>y. fs_names fs y = Some k \<longrightarrow> y = stage_of p \<or> y = trash_of p)"

definition settled :: "preparedReplacement \<Rightarrow> filesystem \<Rightarrow> bool" where
  "settled p fs \<longleftrightarrow> tidy fs \<and>
     (\<forall>k. fs_names fs (stage_of p) = Some k \<or> fs_names fs (trash_of p) = Some k \<longrightarrow> owned p k fs)"

definition keeps :: "preparedReplacement \<Rightarrow> filesystem \<Rightarrow> filesystem \<Rightarrow> bool" where
  "keeps p fs fs' \<longleftrightarrow> fs_next fs \<le> fs_next fs' \<and>
     (\<forall>y. y \<noteq> stage_of p \<longrightarrow> y \<noteq> trash_of p \<longrightarrow>
        fs_names fs' y = fs_names fs y \<and> (\<forall>k. fs_names fs y = Some k \<longrightarrow> fs_inodes fs' k = fs_inodes fs k))"

lemma keeps_refl [simp]: "keeps p fs fs"
  by (simp add: keeps_def)

lemma keeps_trans: "keeps p fs fs' \<Longrightarrow> keeps p fs' fs'' \<Longrightarrow> keeps p fs fs''"
  by (simp add: keeps_def)

lemma trash_not_stage: "trash_of p \<noteq> stage_of p"
  by (simp add: trash_of_def stage_of_def cleanupBasename_def)

lemma change_inode_simps [simp]:
  "fs_names (change_inode k f fs) = fs_names fs" "fs_next (change_inode k f fs) = fs_next fs"
  "fs_inodes (change_inode k f fs) l = (if l = k then map_option f (fs_inodes fs k) else fs_inodes fs l)"
  by (simp_all add: change_inode_def)

lemma tidy_change_inode [simp]: "tidy (change_inode k f fs) = tidy fs"
  unfolding tidy_def change_inode_simps by (metis map_option_is_None)

lemma owned_change_inode [simp]: "owned p l (change_inode k f fs) = owned p l fs"
  by (simp add: owned_def)

lemma settled_change_inode [simp]: "settled p (change_inode k f fs) = settled p fs"
  by (simp add: settled_def)

lemma keeps_change_inode: "owned p k fs \<Longrightarrow> keeps p fs (change_inode k f fs)"
  by (auto simp: keeps_def owned_def)

text \<open>Moving an entry between the two staging names, and removing one.\<close>

definition move_entry :: "key \<times> bytes \<Rightarrow> key \<times> bytes \<Rightarrow> key \<Rightarrow> filesystem \<Rightarrow> filesystem" where
  "move_entry x y k fs = fs\<lparr>fs_names := (fs_names fs)(x := None, y \<mapsto> k)\<rparr>"

lemma settled_move:
  assumes "settled p fs" "{x, y} = {stage_of p, trash_of p}" "fs_names fs x = Some k" "fs_names fs y = None"
  shows "settled p (move_entry x y k fs)" "keeps p fs (move_entry x y k fs)" "owned p l fs \<Longrightarrow> owned p l (move_entry x y k fs)"
    "owned p k fs"
proof -
  have xy: "x = stage_of p \<and> y = trash_of p \<or> x = trash_of p \<and> y = stage_of p" using assms(2) by (auto simp: doubleton_eq_iff)
  then have k: "owned p k fs" using assms(1,3) by (auto simp: settled_def)
  then show "owned p k fs" .
  have ow: "owned p l (move_entry x y k fs)" if "owned p l fs" for l
    using that xy by (auto simp: owned_def move_entry_def)
  then show "owned p l fs \<Longrightarrow> owned p l (move_entry x y k fs)" .
  have "tidy (move_entry x y k fs)" using assms(1,3) by (auto simp: settled_def tidy_def move_entry_def)
  then show "settled p (move_entry x y k fs)" using ow k xy trash_not_stage [of p]
    by (auto simp: settled_def move_entry_def split: if_splits)
  show "keeps p fs (move_entry x y k fs)" using xy by (auto simp: keeps_def move_entry_def)
qed

definition drop_entry :: "key \<times> bytes \<Rightarrow> filesystem \<Rightarrow> filesystem" where
  "drop_entry x fs = fs\<lparr>fs_names := (fs_names fs)(x := None)\<rparr>"

lemma settled_drop:
  assumes "settled p fs" "x = stage_of p \<or> x = trash_of p"
  shows "settled p (drop_entry x fs)" "keeps p fs (drop_entry x fs)" "owned p l fs \<Longrightarrow> owned p l (drop_entry x fs)"
  using assms by (auto simp: settled_def tidy_def owned_def keeps_def drop_entry_def split: if_splits)

subsection \<open>What the calls do\<close>

text \<open>A computation that works inside the staging names of a slot; the journal stays that of the same
  transaction on the same files.\<close>

definition row_plan :: "journal_file_row \<Rightarrow> int \<times> bytes \<times> bytes" where
  "row_plan r = (fr_ordinal r, fr_target_path r, fr_stage_basename r)"

definition transaction_of :: "world \<Rightarrow> (bytes \<times> (int \<times> bytes \<times> bytes) list) option" where
  "transaction_of w = map_option (\<lambda>j. (jr_transaction_id j, map row_plan (jdb_files (w_journal w)))) (jdb_journal (w_journal w))"

lemma transaction_of_step [simp]: "transaction_of (w\<lparr>w_step := n\<rparr>) = transaction_of w" "transaction_of (w\<lparr>w_fs := fs\<rparr>) = transaction_of w"
  by (simp_all add: transaction_of_def)

definition inside :: "preparedReplacement \<Rightarrow> world \<Rightarrow> world \<Rightarrow> bool" where
  "inside p w w' \<longleftrightarrow> settled p (w_fs w') \<and> keeps p (w_fs w) (w_fs w') \<and>
     transaction_of w' = transaction_of w \<and> w_selection w' = w_selection w"

lemma inside_refl [simp]: "settled p (w_fs w) \<Longrightarrow> inside p w (w\<lparr>w_step := n\<rparr>)"
  by (simp add: inside_def)

lemma inside_same [simp]: "settled p (w_fs w) \<Longrightarrow> inside p w w"
  by (simp add: inside_def)

lemma inside_trans: "inside p w w' \<Longrightarrow> inside p w' w'' \<Longrightarrow> inside p w w''"
  by (auto simp: inside_def intro: keeps_trans)

lemma inside_settled: "inside p w w' \<Longrightarrow> settled p (w_fs w')"
  by (simp add: inside_def)

lemma inside_names: "inside p w w' \<Longrightarrow> y \<noteq> stage_of p \<Longrightarrow> y \<noteq> trash_of p \<Longrightarrow> names w' y = names w y"
  by (auto simp: inside_def keeps_def)

text \<open>Changing an inode that the slot owns.\<close>

lemma wp_change:
  assumes "quiet m" "settled p (w_fs w)" "owned p k (w_fs w)"
    and "\<And>r w'. inside p w w' \<Longrightarrow> owned p k (w_fs w') \<Longrightarrow> fs_names (w_fs w') = fs_names (w_fs w) \<Longrightarrow> Q r w'"
  shows "wp (call m (\<lambda>n. on_fs (\<lambda>fs. (Some (), change_inode k (f n) fs)))) Q w"
  using assms by (intro wp_callI) (auto simp: on_fs_def inside_def keeps_change_inode)

lemma wp_writeAll_inside:
  assumes "quiet m" "settled p (w_fs w)" "owned p k (w_fs w)"
    and "\<And>r w'. inside p w w' \<Longrightarrow> owned p k (w_fs w') \<Longrightarrow> fs_names (w_fs w') = fs_names (w_fs w) \<Longrightarrow> Q r w'"
  shows "wp (writeAll m k s) Q w"
  using assms by (auto simp: writeAll_def on_fs_def inside_def keeps_change_inode split: fault.split)

lemma wp_move:
  assumes q: "quiet m" and s: "settled p (w_fs w)" and ab: "{(d, a), (d, b)} = {stage_of p, trash_of p}"
    and none: "\<And>w'. inside p w w' \<Longrightarrow> (\<And>l. owned p l (w_fs w) \<Longrightarrow> owned p l (w_fs w')) \<Longrightarrow> Q None w'"
    and moved: "\<And>w' k. inside p w w' \<Longrightarrow> (\<And>l. owned p l (w_fs w) \<Longrightarrow> owned p l (w_fs w')) \<Longrightarrow> names w (d, a) = Some k \<Longrightarrow>
        names w (d, b) = None \<Longrightarrow> names w' (d, a) = None \<Longrightarrow> names w' (d, b) = Some k \<Longrightarrow> Q (Some ()) w'"
  shows "wp (rename_noreplace m d a b) Q w"
proof -
  have ne: "(d, a) \<noteq> (d, b)" using ab trash_not_stage [of p] by (auto simp: doubleton_eq_iff)
  let ?w1 = "w\<lparr>w_step := Suc (w_step w)\<rparr>"
  have n1: "Q None (w\<lparr>w_step := n\<rparr>)" for n using s by (intro none) auto
  show ?thesis
  proof (cases "\<exists>k. names w (d, a) = Some k \<and> names w (d, b) = None")
    case True
    then obtain k where k: "names w (d, a) = Some k" "names w (d, b) = None" by blast
    let ?w2 = "\<lambda>t. ?w1\<lparr>w_fs := touch_ctime t k (move_entry (d, a) (d, b) k (w_fs w))\<rparr>"
    note mv = settled_move [OF s ab k]
    have i: "inside p w (?w2 t)" for t
      using mv keeps_change_inode [OF mv(3) [OF mv(4)]] by (auto simp: inside_def touch_ctime_def intro: keeps_trans)
    have o: "owned p l (w_fs w) \<Longrightarrow> owned p l (w_fs (?w2 t))" for l t using mv(3) by (simp add: touch_ctime_def)
    have "Q (Some ()) (?w2 t)" "Q None (?w2 t)" for t
      using i o k ne by (auto intro!: moved none simp: touch_ctime_def move_entry_def)
    then show ?thesis unfolding rename_noreplace_def
      by (intro wp_atomic_callI [OF q]) (auto simp: n1 on_fs_def k move_entry_def)
  next
    case False
    then show ?thesis unfolding rename_noreplace_def
      by (intro wp_atomic_callI [OF q]) (auto simp: on_fs_def n1 split: option.splits)
  qed
qed

lemma wp_unlink:
  assumes q: "quiet m" and s: "settled p (w_fs w)" and x: "(d, a) = stage_of p \<or> (d, a) = trash_of p"
    and all: "\<And>r w'. inside p w w' \<Longrightarrow> (r = Some () \<Longrightarrow> fs_names (w_fs w') = (fs_names (w_fs w))((d, a) := None)) \<Longrightarrow> Q r w'"
  shows "wp (unlinkat m d a) Q w"
proof -
  let ?w1 = "w\<lparr>w_step := Suc (w_step w)\<rparr>"
  have n1: "Q None (w\<lparr>w_step := n\<rparr>)" for n using s by (intro all) auto
  show ?thesis
  proof (cases "names w (d, a)")
    case None
    then show ?thesis unfolding unlinkat_def
      by (intro wp_callI [OF q]) (auto simp: on_fs_def n1)
  next
    case (Some k)
    note dr = settled_drop [OF s x]
    have ow: "owned p k (w_fs w)" using Some s x by (auto simp: settled_def)
    let ?w2 = "\<lambda>f. ?w1\<lparr>w_fs := change_inode k f (drop_entry (d, a) (w_fs w))\<rparr>"
    have "inside p w (?w2 f)" for f
      using dr keeps_change_inode [OF dr(3) [OF ow]] by (auto simp: inside_def intro: keeps_trans)
    then have "Q (Some ()) (?w2 f)" "Q None (?w2 f)" for f by (auto intro!: all simp: drop_entry_def)
    then show ?thesis unfolding unlinkat_def
      by (intro wp_callI [OF q]) (auto simp: n1 on_fs_def Some drop_entry_def)
  qed
qed

subsection \<open>What looking returns\<close>

lemma wp_look:
  assumes "quiet m" "\<And>n. Q None (w\<lparr>w_step := n\<rparr>)" "\<And>n a. f (w_fs w) = Some a \<Longrightarrow> Q (Some a) (w\<lparr>w_step := n\<rparr>)"
  shows "wp (call m (\<lambda>n. on_fs (\<lambda>fs. (f fs, fs)))) Q w"
  using assms by (intro wp_callI) (auto simp: on_fs_def, metis option.exhaust)

lemmas wp_fstatat = wp_look [where f = "\<lambda>fs. Some (stat_name fs d name)" for d name, folded fstatat_def]
lemmas wp_fstat = wp_look [where f = "\<lambda>fs. map_option (identity_of k) (fs_inodes fs k)" for k, folded fstat_def]
lemmas wp_openat_read = wp_look [where f = "\<lambda>fs. fs_names fs (d, name)" for d name, folded openat_read_def]
lemmas wp_read_content = wp_look [where f = "\<lambda>fs. map_option in_content (fs_inodes fs k)" for k, folded read_content_def]

lemma wp_missingAt:
  assumes "quiet m" "tidy (w_fs w)" "\<And>n. Q None (w\<lparr>w_step := n\<rparr>)" "\<And>n. Q (Some (names w (d, name) = None)) (w\<lparr>w_step := n\<rparr>)"
  shows "wp (missingAt m d name) Q w"
proof -
  have "(stat_name (w_fs w) d name = None) = (names w (d, name) = None)"
    using assms(2) by (cases "names w (d, name)") (auto simp: stat_name_def tidy_def)
  then show ?thesis unfolding missingAt_def wp_or_else
    using assms by (intro wp_fstatat) (auto simp: stat_name_def)
qed

lemma wp_identityAt:
  assumes "quiet m" "\<And>n e. Q (Inl e) (w\<lparr>w_step := n\<rparr>)" "\<And>n. Q (Inr None) (w\<lparr>w_step := n\<rparr>)"
    and "\<And>n k i. names w (d, name) = Some k \<Longrightarrow> fs_inodes (w_fs w) k = Some i \<Longrightarrow> regular_single (identity_of k i) \<Longrightarrow>
      Q (Inr (Some (identity_of k i))) (w\<lparr>w_step := n\<rparr>)"
  shows "wp (identityAt m d name) Q w"
  unfolding identityAt_def wp_or_else
proof (rule wp_fstatat [OF assms(1)], goal_cases)
  case (1 n)
  then show ?case using assms(2) by simp
next
  case (2 n a)
  then show ?case using assms(2-4) by (auto simp: stat_name_def bind_eq_Some_conv split: option.split)
qed

lemma wp_ownedStageBasename:
  assumes "quiet m" "tidy (w_fs w)" "\<And>n e. Q (Inl e) (w\<lparr>w_step := n\<rparr>)"
    and "\<And>n. names w (d, stage) = None \<Longrightarrow> names w (d, cleanupBasename stage) = None \<Longrightarrow> Q (Inr None) (w\<lparr>w_step := n\<rparr>)"
    and "\<And>n. names w (d, stage) \<noteq> None \<Longrightarrow> names w (d, cleanupBasename stage) = None \<Longrightarrow> Q (Inr (Some stage)) (w\<lparr>w_step := n\<rparr>)"
    and "\<And>n. names w (d, stage) = None \<Longrightarrow> names w (d, cleanupBasename stage) \<noteq> None \<Longrightarrow> Q (Inr (Some (cleanupBasename stage))) (w\<lparr>w_step := n\<rparr>)"
  shows "wp (ownedStageBasename m d stage) Q w"
  unfolding ownedStageBasename_def wp_or_else
proof (rule wp_missingAt [OF assms(1,2)], goal_cases)
  case (1 n)
  then show ?case using assms(3) by simp
next
  case (2 n)
  show ?case unfolding option.case(2)
    by (simp, rule wp_missingAt) (use assms in auto)
qed

lemma wp_fsync:
  assumes "quiet m" "\<And>n. Q None (w\<lparr>w_step := n\<rparr>)" "\<And>n. Q (Some ()) (w\<lparr>w_step := n\<rparr>)"
  shows "wp (fsync m) Q w"
  using assms unfolding fsync_def by (intro wp_callI) auto

lemmas wp_reads = wp_fsync wp_fstat wp_openat_read wp_read_content

lemma wp_openFingerprintAt:
  assumes q: "quiet m" and e: "\<And>n e. Q (Inl e) (w\<lparr>w_step := n\<rparr>)"
    and r: "\<And>n k i f. names w (d, name) = Some k \<Longrightarrow> fs_inodes (w_fs w) k = Some i \<Longrightarrow> regular_single (identity_of k i) \<Longrightarrow>
      f = \<lparr>sf_Path = [], sf_Identity = identity_of k i, sf_SHA256 = tm_sha256 m (in_content i)\<rparr> \<Longrightarrow> Q (Inr (k, f)) (w\<lparr>w_step := n\<rparr>)"
  shows "wp (openFingerprintAt m d name limit) Q w"
  unfolding openFingerprintAt_def
  by (auto intro!: wp_reads [OF q] simp: e r)

lemma wp_fingerprintAt:
  assumes q: "quiet m" and e: "\<And>n e. Q (Inl e) (w\<lparr>w_step := n\<rparr>)"
    and r: "\<And>n k i f. names w (d, name) = Some k \<Longrightarrow> fs_inodes (w_fs w) k = Some i \<Longrightarrow> regular_single (identity_of k i) \<Longrightarrow>
      f = \<lparr>sf_Path = [], sf_Identity = identity_of k i, sf_SHA256 = tm_sha256 m (in_content i)\<rparr> \<Longrightarrow> Q (Inr f) (w\<lparr>w_step := n\<rparr>)"
  shows "wp (fingerprintAt m d name limit) Q w"
  unfolding fingerprintAt_def
  by (auto intro!: wp_openFingerprintAt [OF q] wp_reads [OF q] simp: e r)

subsection \<open>Working inside the staging names\<close>

text \<open>Computations that keep every other name and its inode, given an inode the slot owns; and
  computations that move no name.\<close>

definition within :: "preparedReplacement \<Rightarrow> key \<Rightarrow> 'a io \<Rightarrow> bool" where
  "within p k c \<longleftrightarrow>
     (\<forall>w. settled p (w_fs w) \<longrightarrow> owned p k (w_fs w) \<longrightarrow> wp c (\<lambda>_ w'. inside p w w' \<and> owned p k (w_fs w')) w)"

definition unmoved :: "'a io \<Rightarrow> bool" where
  "unmoved c \<longleftrightarrow> (\<forall>w. wp c (\<lambda>_ w'. fs_names (w_fs w') = fs_names (w_fs w)) w)"

lemma within_wp: "within p k c \<Longrightarrow> settled p (w_fs w) \<Longrightarrow> owned p k (w_fs w) \<Longrightarrow>
    (\<And>r w'. inside p w w' \<Longrightarrow> owned p k (w_fs w') \<Longrightarrow> Q r w') \<Longrightarrow> wp c Q w"
  unfolding within_def by (rule wp_mono, blast) auto

lemma unmoved_wp: "unmoved c \<Longrightarrow> (\<And>r w'. fs_names (w_fs w') = fs_names (w_fs w) \<Longrightarrow> Q r w') \<Longrightarrow> wp c Q w"
  unfolding unmoved_def by (rule wp_mono, blast) auto

lemma looks_within: "looks c \<Longrightarrow> within p k c"
  unfolding within_def by (intro allI impI, erule looks_wp) auto

lemma looks_unmoved: "looks c \<Longrightarrow> unmoved c"
  unfolding unmoved_def by (intro allI, erule looks_wp) auto

lemma within_bind: "within p k c \<Longrightarrow> (\<And>a. within p k (f a)) \<Longrightarrow> within p k (State_Monad.bind c f)"
  unfolding within_def [of p k "State_Monad.bind c f"] wp_bind
  by (intro allI impI, erule within_wp, assumption, assumption, rule within_wp [of p k "f a" for a])
    (auto intro: inside_trans inside_settled)

lemma unmoved_bind: "unmoved c \<Longrightarrow> (\<And>a. unmoved (f a)) \<Longrightarrow> unmoved (State_Monad.bind c f)"
  unfolding unmoved_def [of "State_Monad.bind c f"] wp_bind
  by (intro allI, erule unmoved_wp, rule unmoved_wp [of "f a" for a]) auto

named_theorems within_intros \<open>computations inside the staging names\<close>
named_theorems unmoved_intros \<open>computations that move no name\<close>

lemmas looking = looks_calls looks_identityAt looks_openFingerprintAt looks_fingerprintAt looks_missingAt looks_ownedStageBasename looks_active

lemmas [within_intros] = within_bind looks_within [OF looks_ret] looking [THEN looks_within]
lemmas [unmoved_intros] = unmoved_bind looks_unmoved [OF looks_ret] looking [THEN looks_unmoved]

lemma within_control [within_intros]:
  "within p k c \<Longrightarrow> within p k h \<Longrightarrow> (\<And>a. within p k (g a)) \<Longrightarrow> within p k (or_else c h g)"
  "within p k ce \<Longrightarrow> (\<And>e. within p k (he e)) \<Longrightarrow> within p k ge \<Longrightarrow> within p k (on_error ce he ge)"
  "within p k cr \<Longrightarrow> (\<And>e. within p k (he e)) \<Longrightarrow> (\<And>a. within p k (gr a)) \<Longrightarrow> within p k (on_result cr he gr)"
  "within p k x \<Longrightarrow> within p k y \<Longrightarrow> within p k (if P then x else y)"
  unfolding or_else_def on_error_def on_result_def by (auto intro!: within_bind split: option.split sum.split)

lemma unmoved_control [unmoved_intros]:
  "unmoved c \<Longrightarrow> unmoved h \<Longrightarrow> (\<And>a. unmoved (g a)) \<Longrightarrow> unmoved (or_else c h g)"
  "unmoved ce \<Longrightarrow> (\<And>e. unmoved (he e)) \<Longrightarrow> unmoved ge \<Longrightarrow> unmoved (on_error ce he ge)"
  "unmoved cr \<Longrightarrow> (\<And>e. unmoved (he e)) \<Longrightarrow> (\<And>a. unmoved (gr a)) \<Longrightarrow> unmoved (on_result cr he gr)"
  "unmoved x \<Longrightarrow> unmoved y \<Longrightarrow> unmoved (if P then x else y)"
  unfolding or_else_def on_error_def on_result_def by (auto intro!: unmoved_bind split: option.split sum.split)

lemma within_changes [within_intros]:
  assumes "quiet m"
  shows "within p k (fchmod m k)" "within p k (ftruncate m k)" "within p k (writeAll m k s)"
  unfolding within_def fchmod_def ftruncate_def using assms by (auto intro!: wp_change wp_writeAll_inside)

lemma unmoved_changes [unmoved_intros]:
  assumes "quiet m"
  shows "unmoved (fchmod m k)" "unmoved (ftruncate m k)" "unmoved (writeAll m k s)"
  using assms by (auto simp: unmoved_def fchmod_def ftruncate_def writeAll_def on_fs_def intro!: wp_callI split: fault.split)

lemma within_moves:
  assumes "quiet m" "{(d, a), (d, b)} = {stage_of p, trash_of p}"
  shows "within p k (rename_noreplace m d a b)"
  unfolding within_def by (intro allI impI, rule wp_move [OF assms(1) _ assms(2)]) auto

lemma within_unlink [within_intros]:
  assumes q: "quiet m" and x: "(d, a) = stage_of p \<or> (d, a) = trash_of p"
  shows "within p k (unlinkat m d a)"
  unfolding within_def
proof (intro allI impI)
  fix w :: world assume s: "settled p (w_fs w)" "owned p k (w_fs w)"
  have "wp (unlinkat m d a) (\<lambda>r w'. owned p k (w_fs w')) w"
    using s settled_drop(3) [OF s(1) x s(2)] unfolding unlinkat_def
    by (intro wp_callI [OF q]) (auto simp: on_fs_def drop_entry_def split: option.splits)
  moreover have "wp (unlinkat m d a) (\<lambda>r w'. inside p w w') w" by (rule wp_unlink [OF q s(1) x])
  ultimately show "wp (unlinkat m d a) (\<lambda>r w'. inside p w w' \<and> owned p k (w_fs w')) w" by (rule wp_and [rotated])
qed

lemma scrubOpenFile_inside [within_intros, unmoved_intros]:
  assumes "quiet m"
  shows "within p k (scrubOpenFile m k)" "unmoved (scrubOpenFile m k)"
  unfolding scrubOpenFile_def using assms
  by (auto intro!: within_intros unmoved_intros)

subsection \<open>Removing an owned file\<close>

lemma Ext_cleanup: "Ext (cleanupBasename stage) = ''.remove''"
  by (simp add: Ext_def cleanupBasename_def)

definition own_name :: "preparedReplacement \<Rightarrow> bytes \<Rightarrow> bool" where
  "own_name p basename \<longleftrightarrow> basename = pr_stage p \<or> basename = cleanupBasename (pr_stage p)"

lemma own_name_cases: "own_name p b \<Longrightarrow> (pr_parent p, b) = stage_of p \<or> (pr_parent p, b) = trash_of p"
  by (auto simp: own_name_def stage_of_def trash_of_def)

lemma within_scrub_quarantined:
  assumes q: "quiet m" and b: "b = pr_stage p \<and> c = cleanupBasename b \<or> b = c \<and> own_name p c"
  shows "within p file (scrub_quarantined m (pr_parent p) b c file expected ordinal)"
proof -
  have own: "(pr_parent p, c) = stage_of p \<or> (pr_parent p, c) = trash_of p"
    using b own_name_cases by (auto simp: trash_of_def)
  define u where "u = (if c \<noteq> b then rename_noreplace m (pr_parent p) c b else ret None)"
  have undo: "within p file u"
  proof (cases "c = b")
    case True
    then show ?thesis by (simp add: u_def within_intros)
  next
    case False
    then have "{(pr_parent p, c), (pr_parent p, b)} = {stage_of p, trash_of p}"
      using b by (auto simp: stage_of_def trash_of_def)
    then have "within p file (rename_noreplace m (pr_parent p) c b)" by (rule within_moves [OF q])
    with False show ?thesis by (simp add: u_def)
  qed
  show ?thesis unfolding scrub_quarantined_def u_def [symmetric]
    by (intro within_bind looks_within [OF looks_identityAt [OF q]])
      (auto split: sum.split option.split intro!: within_intros q undo own)
qed

text \<open>Computations that, when they report no error, have removed exactly one name.\<close>

definition removes :: "key \<times> bytes \<Rightarrow> ws_error option io \<Rightarrow> bool" where
  "removes x c \<longleftrightarrow> (\<forall>w. wp c (\<lambda>r w'. r = None \<longrightarrow> fs_names (w_fs w') = (fs_names (w_fs w))(x := None)) w)"

lemma removes_fails: "removes x (ret (Some e))" "removes x (State_Monad.bind c (\<lambda>_. ret (Some e)))"
  by (simp_all add: removes_def wp_def split: prod.split)

lemma removes_bind: "unmoved c \<Longrightarrow> (\<And>a. removes x (f a)) \<Longrightarrow> removes x (State_Monad.bind c f)"
  unfolding removes_def wp_bind by (intro allI, erule unmoved_wp, rule wp_mono, blast) simp

lemma removes_control:
  "unmoved c \<Longrightarrow> removes x h \<Longrightarrow> (\<And>a. removes x (g a)) \<Longrightarrow> removes x (or_else c h g)"
  "unmoved cr \<Longrightarrow> (\<And>e. removes x (he e)) \<Longrightarrow> (\<And>a. removes x (gr a)) \<Longrightarrow> removes x (on_result cr he gr)"
  "removes x c1 \<Longrightarrow> removes x c2 \<Longrightarrow> removes x (if P then c1 else c2)"
  unfolding or_else_def on_result_def by (auto intro!: removes_bind split: option.split sum.split)

lemma removes_unlink:
  assumes "quiet m" "unmoved k"
  shows "removes (d, c) (or_else (unlinkat m d c) (ret (Some e)) (\<lambda>_. k))"
proof -
  have "wp (unlinkat m d c) (\<lambda>r w'. r = Some () \<longrightarrow> fs_names (w_fs w') = (fs_names (w_fs w))((d, c) := None)) w" for w
    unfolding unlinkat_def by (rule wp_callI [OF assms(1)]) (auto simp: on_fs_def split: option.splits)
  note un = wp_mono [OF this]
  show ?thesis unfolding removes_def wp_or_else
    by (intro allI, rule un) (auto split: option.split intro: unmoved_wp [OF assms(2)])
qed

lemma scrub_quarantined_removes:
  assumes q: "quiet m"
  shows "removes (d, c) (scrub_quarantined m d b c k expected ordinal)"
  unfolding scrub_quarantined_def
  by (auto intro!: removes_bind removes_control removes_fails removes_unlink unmoved_intros q split: sum.split option.split)
definition gone :: "preparedReplacement \<Rightarrow> bytes \<Rightarrow> world \<Rightarrow> world \<Rightarrow> bool" where
  "gone p b w w' \<longleftrightarrow> (\<forall>x \<in> {stage_of p, trash_of p}. names w x = None \<or> x = (pr_parent p, b) \<longrightarrow> names w' x = None)"

lemma wp_scrub_quarantined:
  assumes "quiet m" "b = pr_stage p \<and> c = cleanupBasename b \<or> b = c \<and> own_name p c" "settled p (w_fs w)" "owned p file (w_fs w)"
    and "\<And>r w'. inside p w w' \<Longrightarrow> (r = None \<Longrightarrow> fs_names (w_fs w') = (fs_names (w_fs w))((pr_parent p, c) := None)) \<Longrightarrow> Q r w'"
  shows "wp (scrub_quarantined m (pr_parent p) b c file expected ordinal) Q w"
proof -
  have "wp (scrub_quarantined m (pr_parent p) b c file expected ordinal) (\<lambda>r w'. inside p w w') w"
    using within_scrub_quarantined [OF assms(1,2)] assms(3,4) by (rule within_wp)
  moreover have "wp (scrub_quarantined m (pr_parent p) b c file expected ordinal)
      (\<lambda>r w'. r = None \<longrightarrow> fs_names (w_fs w') = (fs_names (w_fs w))((pr_parent p, c) := None)) w"
    using scrub_quarantined_removes [OF assms(1)] by (simp add: removes_def)
  ultimately show ?thesis by (rule wp_mono [OF wp_and]) (use assms(5) in auto)
qed

lemma wp_scrubAndRemoveOpen:
  assumes q: "quiet m" and s: "settled p (w_fs w)" "owned p file (w_fs w)" and b: "own_name p b"
    and Q: "\<And>r w'. inside p w w' \<Longrightarrow> (r = None \<Longrightarrow> gone p b w w') \<Longrightarrow> Q r w'"
  shows "wp (scrubAndRemoveOpen m (pr_parent p) b file expected ordinal) Q w"
proof (cases "Ext b = ''.remove''")
  case True
  show ?thesis unfolding scrubAndRemoveOpen_def using True b own_name_cases [OF b]
    by (auto intro!: wp_scrub_quarantined [OF q _ s] Q simp: gone_def)
next
  case False
  then have bs: "b = pr_stage p" using b Ext_cleanup by (auto simp: own_name_def)
  then have ab: "{(pr_parent p, b), (pr_parent p, cleanupBasename b)} = {stage_of p, trash_of p}"
    "(pr_parent p, b) = stage_of p" "(pr_parent p, cleanupBasename b) = trash_of p" by (auto simp: stage_of_def trash_of_def)
  show ?thesis unfolding scrubAndRemoveOpen_def if_not_P [OF False] wp_or_else
  proof (rule wp_move [OF q s(1) ab(1)], goal_cases)
    case (1 w1)
    then show ?case by (auto intro: Q)
  next
    case (2 w1 k)
    show ?case unfolding option.case
    proof (cases "inject m FailureAfterCleanupRename ordinal")
      case None
      have "wp (scrub_quarantined m (pr_parent p) b (cleanupBasename b) file expected ordinal) Q w1"
      proof (rule wp_scrub_quarantined [OF q _ inside_settled [OF 2(1)] 2(2) [OF s(2)]], goal_cases)
        case (2 r w2)
        show ?case
          by (rule Q [OF inside_trans [OF \<open>inside p w w1\<close> 2(1)]])
            (use 2(2) ab \<open>names w1 (pr_parent p, b) = None\<close> trash_not_stage [of p] in \<open>auto simp: gone_def\<close>)
      qed (use bs in simp)
      with None show "wp (case inject m FailureAfterCleanupRename ordinal of
           None \<Rightarrow> scrub_quarantined m (pr_parent p) b (cleanupBasename b) file expected ordinal
           | Some e \<Rightarrow> ret (Some e)) Q w1" by simp
    qed (use 2 in \<open>auto intro: Q\<close>)
  qed
qed

lemma settled_owned: "settled p fs \<Longrightarrow> own_name p b \<Longrightarrow> fs_names fs (pr_parent p, b) = Some k \<Longrightarrow> owned p k fs"
  using own_name_cases [of p b] by (auto simp: settled_def)

lemma wp_removeOwnedFingerprintAt:
  assumes q: "quiet m" and s: "settled p (w_fs w)" and b: "own_name p b"
    and Q: "\<And>r w'. inside p w w' \<Longrightarrow> (r = None \<Longrightarrow> gone p b w w') \<Longrightarrow> Q r w'"
  shows "wp (removeOwnedFingerprintAt m (pr_parent p) b expected limit ordinal) Q w"
  unfolding removeOwnedFingerprintAt_def wp_on_result
proof (rule wp_openFingerprintAt [OF q], goal_cases)
  case (1 n e)
  then show ?case using s by (auto intro: Q)
next
  case (2 n k i f)
  have o: "owned p k (w_fs w)" by (rule settled_owned [OF s b 2(1)])
  show ?case
    by (auto intro!: wp_scrubAndRemoveOpen [OF q _ _ b] Q simp: s o) (auto simp: inside_def gone_def)
qed

lemma wp_removeOwnedIdentityAt:
  assumes q: "quiet m" and s: "settled p (w_fs w)" and b: "own_name p b"
    and Q: "\<And>r w'. inside p w w' \<Longrightarrow> (r = None \<Longrightarrow> gone p b w w') \<Longrightarrow> Q r w'"
  shows "wp (removeOwnedIdentityAt m (pr_parent p) b expected ordinal) Q w"
  unfolding removeOwnedIdentityAt_def wp_or_else
proof (rule wp_openat_read [OF q], goal_cases)
  case (1 n)
  then show ?case using s by (auto intro: Q)
next
  case (2 n k)
  have o: "owned p k (w_fs w)" by (rule settled_owned [OF s b 2])
  show ?case unfolding option.case
    by (rule wp_fstat [OF q])
      (auto intro!: wp_scrubAndRemoveOpen [OF q _ _ b] Q simp: s o, auto simp: inside_def gone_def)
qed

lemma wp_discard_entry:
  assumes q: "quiet m" and s: "settled p (w_fs w)"
    and Q: "\<And>r w'. inside p w w' \<Longrightarrow> (r = None \<Longrightarrow> names w' (stage_of p) = None \<and> names w' (trash_of p) = None) \<Longrightarrow> Q r w'"
  shows "wp (discard_entry m p) Q w"
  unfolding discard_entry_def
proof (split if_split, intro conjI impI)
  have t: "tidy (w_fs w)" using s by (simp add: settled_def)
  show "wp (ret (Some plain_error)) Q w" using s by (auto intro: Q)
  show "wp (on_result (ownedStageBasename m (pr_parent p) (pr_stage p)) (\<lambda>e. ret (Some e)) (\<lambda>owned.
          case owned of
            None \<Rightarrow> ret None
          | Some basename \<Rightarrow>
              if \<not> fi_Exists (sf_Identity (pr_candidate p)) then ret (Some plain_error)
              else removeOwnedFingerprintAt m (pr_parent p) basename (pr_candidate p)
                     (maximumFileLimit (rp_Role (pr_replacement p))) (pr_ordinal p))) Q w"
    unfolding wp_on_result
  proof (rule wp_ownedStageBasename [OF q t], goal_cases)
    case (1 n e)
    then show ?case using s by (auto intro: Q)
  next
    case (2 n)
    then show ?case using s by (auto intro!: Q simp: stage_of_def trash_of_def)
  next
    case (3 n)
    then show ?case using s
      by (auto intro!: wp_removeOwnedFingerprintAt [OF q] Q simp: own_name_def)
        (auto simp: inside_def gone_def stage_of_def trash_of_def)
  next
    case (4 n)
    then show ?case using s
      by (auto intro!: wp_removeOwnedFingerprintAt [OF q] Q simp: own_name_def)
        (auto simp: inside_def gone_def stage_of_def trash_of_def)
  qed
qed

subsection \<open>Recording in the journal\<close>

definition records :: "'a io \<Rightarrow> bool" where
  "records c \<longleftrightarrow> (\<forall>w. wp c (\<lambda>_ w'. w_fs w' = w_fs w \<and> w_selection w' = w_selection w \<and> transaction_of w' = transaction_of w) w)"

lemma records_wp: "records c \<Longrightarrow>
    (\<And>r w'. w_fs w' = w_fs w \<Longrightarrow> w_selection w' = w_selection w \<Longrightarrow> transaction_of w' = transaction_of w \<Longrightarrow> Q r w') \<Longrightarrow> wp c Q w"
  unfolding records_def by (rule wp_mono, blast) auto

lemma records_within: "records c \<Longrightarrow> within p k c"
  unfolding within_def by (intro allI impI, erule records_wp) (auto simp: inside_def)

lemma looks_records: "looks c \<Longrightarrow> records c"
  unfolding records_def by (intro allI, erule looks_wp) auto

lemma records_bind: "records c \<Longrightarrow> (\<And>a. records (f a)) \<Longrightarrow> records (State_Monad.bind c f)"
  unfolding records_def [of "State_Monad.bind c f"] wp_bind
  by (intro allI, erule records_wp, rule records_wp [of "f a" for a]) auto

lemma records_on_result: "records c \<Longrightarrow> (\<And>e. records (h e)) \<Longrightarrow> (\<And>a. records (k a)) \<Longrightarrow> records (on_result c h k)"
  unfolding on_result_def by (rule records_bind) (auto split: sum.split)

lemma records_transact:
  assumes "quiet m" "\<And>w a w'. f w = Inr (a, w') \<Longrightarrow> w_fs w' = w_fs w \<and> w_selection w' = w_selection w \<and> transaction_of w' = transaction_of w"
  shows "records (transact m f)"
  unfolding transact_def
proof (rule records_bind, unfold records_def, intro allI, goal_cases)
  case (1 w)
  show ?case
    by (rule wp_callI [OF assms(1)]) (auto split: sum.splits prod.splits dest!: assms(2))
qed (auto intro!: looks_wp [OF looks_ret])

lemma update_files_transaction:
  assumes "update_files t selected change db = Inr (n, db')" "\<And>r. row_plan (change r) = row_plan r"
  shows "jdb_journal db' = jdb_journal db" "map row_plan (jdb_files db') = map row_plan (jdb_files db)"
  using assms by (auto simp: update_files_def Let_def comp_def split: if_splits)

lemma updates_transaction:
  "update_candidate t ordinal i db = Inr (n, db') \<Longrightarrow> jdb_journal db' = jdb_journal db \<and> map row_plan (jdb_files db') = map row_plan (jdb_files db)"
  "update_placement t ordinal c o' applied db = Inr (n, db') \<Longrightarrow> jdb_journal db' = jdb_journal db \<and> map row_plan (jdb_files db') = map row_plan (jdb_files db)"
  unfolding update_candidate_def update_placement_def by (auto dest: update_files_transaction simp: row_plan_def)

lemma records_updates:
  assumes "quiet m"
  shows "records (MarkCandidate m t ordinal i)" "records (recordPlacement m t ordinal c i applied)" "records (SetPhase m t phase)"
  unfolding MarkCandidate_def recordPlacement_def SetPhase_def
  using assms
  by (auto intro!: records_bind records_on_result records_transact looks_records [OF looks_ret] looks_records [OF looks_loads(1)]
      simp: on_journal_def result_simps transaction_of_def update_phase_def option.map_comp comp_def
      dest!: updates_transaction split: if_splits)

lemma records_unmoved: "records c \<Longrightarrow> unmoved c"
  unfolding unmoved_def by (intro allI, erule records_wp) simp

lemmas [within_intros] = records_updates [THEN records_within]
lemmas [unmoved_intros] = records_updates [THEN records_unmoved]

end
