(* ===== verification/Workspace_Steps.thy ===== *)
theory Workspace_Steps
  imports Workspace_Slots
begin

text \<open>
  The steps of an edit on one file and on all its files.  Staging and discarding keep every target;
  an activation leaves each target with its old file or with the complete candidate.
\<close>

subsection \<open>Staging\<close>

text \<open>The slot of an entry and its plan; what the edit learns is the candidate and whether its removal is
  certain.\<close>

definition same_slot :: "preparedReplacement \<Rightarrow> preparedReplacement \<Rightarrow> bool" where
  "same_slot p p' \<longleftrightarrow> pr_replacement p' = pr_replacement p \<and> pr_parent p' = pr_parent p \<and> pr_stage p' = pr_stage p \<and>
     pr_ordinal p' = pr_ordinal p \<and> pr_existed p' = pr_existed p"

lemma same_slot_refl [simp]: "same_slot p p"
  by (simp add: same_slot_def)

lemma same_slot_names: "same_slot p p' \<Longrightarrow> target_of p' = target_of p \<and> stage_of p' = stage_of p \<and> trash_of p' = trash_of p"
  by (simp add: same_slot_def target_of_def stage_of_def trash_of_def)

lemma wp_create:
  assumes q: "quiet m" and s: "settled p (w_fs w)"
    and none: "\<And>w'. inside p w w' \<Longrightarrow> Q None w'"
    and some: "\<And>w' k i. inside p w w' \<Longrightarrow> fs_next (w_fs w) \<le> snd k \<Longrightarrow> owned p k (w_fs w') \<Longrightarrow> fs_names (w_fs w') = (fs_names (w_fs w))(stage_of p \<mapsto> k) \<Longrightarrow>
      fs_inodes (w_fs w') k = Some i \<Longrightarrow> in_content i = [] \<Longrightarrow> Q (Some k) w'"
  shows "wp (openat_create m (pr_parent p) (pr_stage p)) Q w"
proof -
  have n1: "Q None (w\<lparr>w_step := n\<rparr>)" for n using s by (intro none) auto
  show ?thesis
  proof (cases "names w (stage_of p)")
    case (Some l)
    then show ?thesis unfolding openat_create_def
      by (intro wp_callI [OF q]) (auto simp: on_fs_def n1 stage_of_def)
  next
    case None
    let ?k = "(fst (pr_parent p), fs_next (w_fs w))"
    let ?fs = "\<lambda>i. \<lparr>fs_names = (fs_names (w_fs w))(stage_of p \<mapsto> ?k), fs_inodes = (fs_inodes (w_fs w))(?k \<mapsto> i), fs_next = Suc (fs_next (w_fs w))\<rparr>"
    have t: "tidy (w_fs w)" using s by (simp add: settled_def)
    have fresh: "names w y \<noteq> Some ?k" for y using t unfolding tidy_def by (metis less_irrefl snd_conv)
    have k: "keeps p (w_fs w) (?fs i)" for i using fresh by (auto simp: keeps_def)
    have o: "owned p ?k (?fs i)" for i using fresh by (auto simp: owned_def)
    have "tidy (?fs i)" for i using t less_SucI by (fastforce simp: tidy_def)
    moreover have "owned p l (?fs i)" if "owned p l (w_fs w)" for l i using that by (auto simp: owned_def)
    ultimately have st: "settled p (?fs i)" for i using s o trash_not_stage [of p] by (auto simp: settled_def)
    have ins: "inside p w (w\<lparr>w_step := n, w_fs := ?fs i\<rparr>)" for n i using st k by (simp add: inside_def)
    have "Q (Some ?k) (w\<lparr>w_step := n, w_fs := ?fs i\<rparr>)" if "in_content i = []" for n i
      using ins o that by (intro some) auto
    moreover have "Q None (w\<lparr>w_step := n, w_fs := ?fs i\<rparr>)" for n i by (rule none [OF ins])
    ultimately show ?thesis using None unfolding openat_create_def
      by (intro wp_callI [OF q]) (auto simp: on_fs_def n1 stage_of_def Let_def)
  qed
qed

lemma stage_contents_within:
  assumes "quiet m"
  shows "within p k (stage_contents m t k p')"
  unfolding stage_contents_def Let_def using assms by (auto intro!: within_intros split: option.split)

lemma stage_contents_unmoved:
  assumes "quiet m"
  shows "unmoved (stage_contents m t k p')"
  unfolding stage_contents_def Let_def using assms by (auto intro!: unmoved_intros split: option.split)

text \<open>An inode with a given content.\<close>

definition holds :: "key \<Rightarrow> bytes \<Rightarrow> world \<Rightarrow> bool" where
  "holds k s w \<longleftrightarrow> (\<exists>i. fs_inodes (w_fs w) k = Some i \<and> in_content i = s)"

lemma wp_fchmod_holds:
  assumes "quiet m" "holds k s w" "\<And>r w'. holds k s w' \<Longrightarrow> Q r w'"
  shows "wp (fchmod m k) Q w"
  using assms unfolding fchmod_def by (intro wp_callI) (auto simp: on_fs_def holds_def)

lemma wp_writeAll_holds:
  assumes "quiet m" "holds k s w" "\<And>w'. Q None w'" "\<And>w'. holds k (s @ c) w' \<Longrightarrow> Q (Some ()) w'"
  shows "wp (writeAll m k c) Q w"
  using assms by (auto simp: writeAll_def on_fs_def holds_def append_content_def split: fault.split)

definition with_candidate :: "preparedReplacement \<Rightarrow> preparedReplacement \<Rightarrow> bool" where
  "with_candidate p p' \<longleftrightarrow> same_slot p p' \<and> pr_parentID p' = pr_parentID p \<and> pr_original p' = pr_original p \<and> pr_activated p' = pr_activated p"

lemma with_candidate_simps [simp]:
  "with_candidate p p" "with_candidate p (p\<lparr>pr_candidate := c\<rparr>)"
  "with_candidate p (p'\<lparr>pr_cleanupUncertain := u\<rparr>) = with_candidate p p'" "with_candidate p (p'\<lparr>pr_candidate := c\<rparr>) = with_candidate p p'"
  by (simp_all add: with_candidate_def same_slot_def)

definition candidate_file :: "TransactionManager \<Rightarrow> preparedReplacement \<Rightarrow> key \<Rightarrow> filesystem \<Rightarrow> bool" where
  "candidate_file m p k fs \<longleftrightarrow> (\<exists>i. fs_inodes fs k = Some i \<and> in_content i = rp_Content (pr_replacement p) \<and>
     pr_candidate p = \<lparr>sf_Path = rp_Path (pr_replacement p), sf_Identity = identity_of k i, sf_SHA256 = tm_sha256 m (in_content i)\<rparr>)"

lemma stage_contents_done:
  assumes q: "quiet m" and h: "holds k [] w"
  shows "wp (stage_contents m t k p) (\<lambda>(r, p') w'. with_candidate p p' \<and> (r = None \<longrightarrow> candidate_file m p' k (w_fs w'))) w"
  unfolding stage_contents_def Let_def wp_or_else
proof (rule wp_fchmod_holds [OF q h], goal_cases)
  case (1 r1 w1)
  have mark: "wp (MarkCandidate m t (pr_ordinal p) i) Q w2"
    if "\<And>r w'. w_fs w' = w_fs w2 \<Longrightarrow> Q r w'" for i Q w2
    by (rule records_wp [OF records_updates(1) [OF q]]) (use that in auto)
  show ?case
    by (cases r1; cases "inject m FailureBeforeStageWrite (pr_ordinal p)"; simp)
      (rule wp_writeAll_holds [OF q 1];
       auto intro!: wp_reads [OF q] mark simp: holds_def candidate_file_def split: option.split)
qed

lemma wp_stage_contents:
  assumes "quiet m" "settled p (w_fs w)" "owned p k (w_fs w)" "holds k [] w"
    and "\<And>r p' w'. inside p w w' \<Longrightarrow> owned p k (w_fs w') \<Longrightarrow> fs_names (w_fs w') = fs_names (w_fs w) \<Longrightarrow> with_candidate p p' \<Longrightarrow>
      (r = None \<Longrightarrow> candidate_file m p' k (w_fs w')) \<Longrightarrow> Q (r, p') w'"
  shows "wp (stage_contents m t k p) Q w"
proof -
  have 1: "wp (stage_contents m t k p) (\<lambda>r w'. inside p w w' \<and> owned p k (w_fs w')) w"
    by (rule within_wp [OF stage_contents_within [OF assms(1)] assms(2,3)]) simp
  have 2: "wp (stage_contents m t k p) (\<lambda>r w'. fs_names (w_fs w') = fs_names (w_fs w)) w"
    by (rule unmoved_wp [OF stage_contents_unmoved [OF assms(1)]]) simp
  show ?thesis by (rule wp_mono [OF wp_and [OF wp_and [OF 1 2] stage_contents_done [OF assms(1,4)]]]) (use assms(5) in auto)
qed

lemma wp_scrub_failed:
  assumes q: "quiet m" and s: "settled p (w_fs w)" "owned p k (w_fs w)"
    and Q: "\<And>e p'' w'. inside p w w' \<Longrightarrow> with_candidate p' p'' \<Longrightarrow> Q (Some e, p'') w'"
  shows "wp (scrub_failed m k cause p') Q w"
  unfolding scrub_failed_def wp_bind Let_def
proof (rule within_wp [OF scrubOpenFile_inside(1) [OF q] s], goal_cases)
  case (1 r w')
  then show ?case
    by (intro wp_fsync [OF q]; simp) (auto intro!: Q simp: inside_def split: sum.split)
qed

lemma wp_stageCandidate:
  assumes q: "quiet m" and s: "settled p (w_fs w)"
    and failed: "\<And>e p' w'. inside p w w' \<Longrightarrow> with_candidate p p' \<Longrightarrow> Q (Some e, p') w'"
    and staged: "\<And>p' w' k. inside p w w' \<Longrightarrow> with_candidate p p' \<Longrightarrow> fs_next (w_fs w) \<le> snd k \<Longrightarrow> names w' (stage_of p) = Some k \<Longrightarrow>
      names w' (trash_of p) = names w (trash_of p) \<Longrightarrow> candidate_file m p' k (w_fs w') \<Longrightarrow> Q (None, p') w'"
  shows "wp (stageCandidate m t p) Q w"
  unfolding stageCandidate_def wp_or_else
proof (rule wp_fsync [OF q], goal_cases)
  case (1 n)
  then show ?case using s by (auto intro: failed)
next
  case (2 n)
  let ?w0 = "w\<lparr>w_step := n\<rparr>"
  have s0: "settled p (w_fs ?w0)" using s by simp
  show ?case unfolding option.case
  proof (rule wp_create [OF q s0], goal_cases)
    case (1 w1)
    then show ?case by (auto intro!: failed simp: inside_def)
  next
    case (2 w1 k i)
    have i1: "inside p w w1" using 2(1) by (simp add: inside_def)
    have h: "holds k [] w1" using 2 by (auto simp: holds_def)
    show ?case unfolding option.case wp_bind
    proof (rule wp_stage_contents [OF q inside_settled [OF 2(1)] 2(3) h], goal_cases)
      case (1 r p1 w2)
      have i2: "inside p w w2" by (rule inside_trans [OF i1 1(1)])
      show ?case
      proof (cases r)
        case None
        have fin: "Q (None, p1) (w2\<lparr>w_step := n\<rparr>)" "Q (Some e, p1) (w2\<lparr>w_step := n\<rparr>)" for n e
          using 1 2 None i2 trash_not_stage [of p] by (auto intro!: staged failed simp: inside_def)
        show ?thesis using fin by (auto simp: None intro!: wp_fsync [OF q])
      next
        case (Some e)
        have "wp (scrub_failed m k e p1) (\<lambda>rp w3. inside p w w3 \<and> with_candidate p (snd rp) \<and> (\<exists>e. fst rp = Some e)) w2"
          by (rule wp_scrub_failed [OF q inside_settled [OF 1(1)] 1(2)])
            (use i2 1(4) in \<open>auto intro: inside_trans simp: with_candidate_def same_slot_def\<close>)
        then show ?thesis unfolding Some
          by (simp, elim wp_mono) (auto intro!: wp_fsync [OF q] failed simp: inside_def)
      qed
    qed
  qed
qed

end
