(* ===== verification/Workspace_Activation.thy ===== *)
theory Workspace_Activation
  imports Workspace_Steps
begin

text \<open>
  The activation of one staged candidate: the rename exchanges the candidate with the target, and
  from then on the edit records, confirms, removes the displaced original or exchanges back.  Every
  outcome leaves the target with its old file or with the whole candidate.  Frame lemmas say what an
  edit of one entry leaves of the entries with other names.
\<close>

subsection \<open>Several files\<close>

definition slots :: "preparedReplacement \<Rightarrow> (key \<times> bytes) set" where
  "slots p = {target_of p, stage_of p, trash_of p}"

definition proper :: "preparedReplacement \<Rightarrow> bool" where
  "proper p \<longleftrightarrow> target_of p \<noteq> stage_of p \<and> target_of p \<noteq> trash_of p"

text \<open>No other name has the inode of a name.\<close>

definition single :: "key \<times> bytes \<Rightarrow> filesystem \<Rightarrow> bool" where
  "single x fs \<longleftrightarrow> (\<forall>k y. fs_names fs x = Some k \<longrightarrow> fs_names fs y = Some k \<longrightarrow> y = x)"

definition good :: "preparedReplacement \<Rightarrow> filesystem \<Rightarrow> bool" where
  "good p fs \<longleftrightarrow> proper p \<and> settled p fs \<and> single (target_of p) fs"

definition away :: "(key \<times> bytes) set \<Rightarrow> filesystem \<Rightarrow> filesystem \<Rightarrow> bool" where
  "away S fs fs' \<longleftrightarrow> fs_next fs \<le> fs_next fs' \<and> (\<forall>y. y \<notin> S \<longrightarrow> fs_names fs' y = fs_names fs y \<and> (\<forall>k. fs_names fs y = Some k \<longrightarrow> fs_inodes fs' k = fs_inodes fs k))"

lemma away_refl [simp]: "away S fs fs"
  by (simp add: away_def)

lemma away_trans:
  assumes "away S fs fs'" "away T fs' fs''"
  shows "away (S \<union> T) fs fs''"
proof -
  have "fs_names fs'' y = fs_names fs y \<and> (\<forall>k. fs_names fs y = Some k \<longrightarrow> fs_inodes fs'' k = fs_inodes fs k)" if "y \<notin> S \<union> T" for y
  proof -
    have "y \<notin> S" "y \<notin> T" using that by auto
    with assms show ?thesis unfolding away_def by metis
  qed
  with assms show ?thesis by (simp add: away_def)
qed

lemma away_mono: "away S fs fs' \<Longrightarrow> S \<subseteq> T \<Longrightarrow> away T fs fs'"
  by (auto simp: away_def)

lemma keeps_away: "keeps p fs fs' \<Longrightarrow> away (slots p) fs fs'"
  by (auto simp: keeps_def away_def slots_def)

lemma good_inside:
  assumes "good p (w_fs w)" "inside p w w'"
  shows "good p (w_fs w')"
proof -
  have s: "settled p (w_fs w')" by (rule inside_settled [OF assms(2)])
  have t: "target_of p \<noteq> stage_of p" "target_of p \<noteq> trash_of p" using assms(1) by (auto simp: good_def proper_def)
  have n: "y \<noteq> stage_of p \<Longrightarrow> y \<noteq> trash_of p \<Longrightarrow> names w' y = names w y" for y by (rule inside_names [OF assms(2)])
  have "y = target_of p" if "names w' (target_of p) = Some k" "names w' y = Some k" for k y
  proof (cases "y = stage_of p \<or> y = trash_of p")
    case True
    then have "owned p k (w_fs w')" using that(2) s by (auto simp: settled_def)
    with that(1) t show ?thesis by (auto simp: owned_def)
  next
    case False
    then show ?thesis using that n [of y] n [OF t] assms(1) by (auto simp: good_def single_def)
  qed
  with s assms(1) show ?thesis by (auto simp: good_def single_def)
qed

definition all_slots :: "preparedReplacement list \<Rightarrow> (key \<times> bytes) set" where
  "all_slots ps = \<Union> (slots ` set ps)"

lemma all_slots_simps [simp]: "all_slots [] = {}" "all_slots (p # ps) = slots p \<union> all_slots ps"
  by (simp_all add: all_slots_def)

lemma good_transfer:
  assumes g: "good r fs" and d: "slots r \<inter> all_slots ps = {}" and a: "away (all_slots ps) fs fs'"
    and gp: "\<And>p. p \<in> set ps \<Longrightarrow> good p fs'" and t: "tidy fs'"
  shows "good r fs'"
proof -
  have n: "fs_names fs' y = fs_names fs y" if "y \<notin> all_slots ps" for y using a that by (auto simp: away_def)
  have r: "x \<in> slots r \<Longrightarrow> fs_names fs' x = fs_names fs x" for x using d by (intro n) auto
  have rs: "fs_names fs' (target_of r) = fs_names fs (target_of r)" "fs_names fs' (stage_of r) = fs_names fs (stage_of r)"
    "fs_names fs' (trash_of r) = fs_names fs (trash_of r)" by (simp_all add: r slots_def)
  have out: "fs_names fs' x \<noteq> Some k" if x: "x \<in> all_slots ps" and k: "fs_names fs' y = Some k" "y \<in> slots r" for x y k
  proof
    assume xk: "fs_names fs' x = Some k"
    obtain p where p: "p \<in> set ps" "x \<in> slots p" using x by (auto simp: all_slots_def)
    have "y \<notin> slots p" using d k(2) p(1) by (auto simp: all_slots_def)
    then show False using gp [OF p(1)] xk k(1) p(2) by (auto simp: good_def single_def settled_def owned_def slots_def)
  qed
  have owned': "owned r k fs'" if h: "fs_names fs (stage_of r) = Some k \<or> fs_names fs (trash_of r) = Some k" for k
    unfolding owned_def
  proof (intro allI impI)
    fix y assume y: "fs_names fs' y = Some k"
    obtain x where x: "x \<in> slots r" "fs_names fs' x = Some k"
      using h rs by (metis insertCI slots_def)
    have "y \<notin> all_slots ps" using out [OF _ x(2,1), of y] y by auto
    with y n [of y] g h show "y = stage_of r \<or> y = trash_of r" by (auto simp: good_def settled_def owned_def)
  qed
  have "single (target_of r) fs'" unfolding single_def
  proof (intro allI impI)
    fix k y assume k: "fs_names fs' (target_of r) = Some k" and y: "fs_names fs' y = Some k"
    have "target_of r \<in> slots r" by (simp add: slots_def)
    then have "y \<notin> all_slots ps" using out [OF _ k, of y] y by auto
    with k y rs n [of y] g show "y = target_of r" by (auto simp: good_def single_def)
  qed
  moreover have "settled r fs'" using t owned' rs by (auto simp: settled_def)
  ultimately show ?thesis using g by (simp add: good_def)
qed

text \<open>The target of an entry, compared with an earlier file system, and with the candidate, whose inode
  number is at least \<open>N\<close>.\<close>

definition old_file :: "preparedReplacement \<Rightarrow> filesystem \<Rightarrow> filesystem \<Rightarrow> bool" where
  "old_file p fs0 fs \<longleftrightarrow> fs_names fs (target_of p) = fs_names fs0 (target_of p) \<and>
     (\<forall>k. fs_names fs0 (target_of p) = Some k \<longrightarrow> map_option in_content (fs_inodes fs k) = map_option in_content (fs_inodes fs0 k))"

definition new_file :: "nat \<Rightarrow> preparedReplacement \<Rightarrow> filesystem \<Rightarrow> bool" where
  "new_file N p fs \<longleftrightarrow> (\<exists>k i. fs_names fs (target_of p) = Some k \<and> N \<le> snd k \<and> fs_inodes fs k = Some i \<and> in_content i = rp_Content (pr_replacement p))"

definition clean_slot :: "preparedReplacement \<Rightarrow> filesystem \<Rightarrow> bool" where
  "clean_slot p fs \<longleftrightarrow> fs_names fs (stage_of p) = None \<and> fs_names fs (trash_of p) = None"

definition staged_file :: "TransactionManager \<Rightarrow> nat \<Rightarrow> preparedReplacement \<Rightarrow> filesystem \<Rightarrow> bool" where
  "staged_file m N p fs \<longleftrightarrow> (\<exists>k. fs_names fs (stage_of p) = Some k \<and> N \<le> snd k \<and> fs_names fs (trash_of p) = None \<and> candidate_file m p k fs)"

lemma old_refl [simp]: "old_file p fs fs"
  by (simp add: old_file_def)

lemma old_trans: "old_file p fs fs' \<Longrightarrow> old_file p fs' fs'' \<Longrightarrow> old_file p fs fs''"
  by (auto simp: old_file_def)

lemma away_same:
  assumes "away S fs fs'" "x \<notin> S"
  shows "fs_names fs' x = fs_names fs x" "fs_names fs x = Some k \<Longrightarrow> fs_inodes fs' k = fs_inodes fs k"
  using assms by (auto simp: away_def)

lemma statuses_away:
  assumes a: "away S fs fs'" and d: "slots r \<inter> S = {}"
  shows "old_file r fs fs'" "new_file N r fs' = new_file N r fs" "clean_slot r fs' = clean_slot r fs" "staged_file m N r fs \<Longrightarrow> staged_file m N r fs'"
proof -
  have t: "target_of r \<notin> S" "stage_of r \<notin> S" "trash_of r \<notin> S" using d by (auto simp: slots_def)
  note n = away_same [OF a t(1)] away_same [OF a t(2)] away_same [OF a t(3)]
  show "old_file r fs fs'" using n by (auto simp: old_file_def)
  show "new_file N r fs' = new_file N r fs" using n by (fastforce simp: new_file_def)
  show "clean_slot r fs' = clean_slot r fs" using n by (auto simp: clean_slot_def)
  show "staged_file m N r fs \<Longrightarrow> staged_file m N r fs'" using n by (auto simp: staged_file_def candidate_file_def)
qed

lemma slot_statuses:
  assumes "with_candidate p p'"
  shows "slots p' = slots p" "good p' fs = good p fs" "old_file p' fs0 fs = old_file p fs0 fs" "new_file N p' fs = new_file N p fs"
    "clean_slot p' fs = clean_slot p fs"
  using assms same_slot_names [of p p']
  by (auto simp: with_candidate_def slots_def good_def proper_def settled_def owned_def old_file_def new_file_def clean_slot_def same_slot_def)

lemma inside_old: "good p (w_fs w) \<Longrightarrow> inside p w w' \<Longrightarrow> old_file p (w_fs w) (w_fs w')"
  by (auto simp: good_def proper_def inside_def keeps_def old_file_def)

lemma inside_new: "good p (w_fs w) \<Longrightarrow> inside p w w' \<Longrightarrow> new_file N p (w_fs w) \<Longrightarrow> new_file N p (w_fs w')"
  by (auto simp: good_def proper_def inside_def keeps_def new_file_def)

subsection \<open>Activation\<close>

text \<open>The staging name and the target of an entry change places, whether or not there was a target.\<close>

definition swapped :: "preparedReplacement \<Rightarrow> filesystem \<Rightarrow> filesystem \<Rightarrow> bool" where
  "swapped p fs fs' \<longleftrightarrow>
     fs_names fs' = (fs_names fs)(stage_of p := fs_names fs (target_of p), target_of p := fs_names fs (stage_of p)) \<and>
     (\<forall>k. map_option in_content (fs_inodes fs' k) = map_option in_content (fs_inodes fs k)) \<and>
     (\<forall>k. fs_names fs (stage_of p) \<noteq> Some k \<longrightarrow> fs_names fs (target_of p) \<noteq> Some k \<longrightarrow> fs_inodes fs' k = fs_inodes fs k) \<and>
     fs_next fs' = fs_next fs"

lemma swapped_names:
  assumes "swapped p fs fs'" "proper p"
  shows "fs_names fs' (target_of p) = fs_names fs (stage_of p)" "fs_names fs' (stage_of p) = fs_names fs (target_of p)"
    "y \<noteq> target_of p \<Longrightarrow> y \<noteq> stage_of p \<Longrightarrow> fs_names fs' y = fs_names fs y"
  using assms by (auto simp: swapped_def proper_def)

lemma swapped_good:
  assumes sw: "swapped p fs fs'" and g: "good p fs" and tr: "fs_names fs (trash_of p) = None"
  shows "good p fs'" "away (slots p) fs fs'" "fs_names fs' (trash_of p) = None"
proof -
  have pr: "proper p" using g by (simp add: good_def)
  note n = swapped_names [OF sw pr]
  have apart: "k \<noteq> l" if "fs_names fs (stage_of p) = Some k" "fs_names fs (target_of p) = Some l" for k l
    using that g by (auto simp: good_def single_def proper_def)
  show tr': "fs_names fs' (trash_of p) = None"
    using n(3) [of "trash_of p"] tr pr trash_not_stage [of p] by (auto simp: proper_def)
  have ino: "fs_inodes fs' k \<noteq> None" if "fs_inodes fs k \<noteq> None" for k
    using sw that unfolding swapped_def by (metis map_option_is_None)
  have "tidy fs'" unfolding tidy_def
  proof (intro allI impI)
    fix y k assume y: "fs_names fs' y = Some k"
    obtain z where "fs_names fs z = Some k" using y n(1,2) n(3) [of y] by (cases "y = target_of p"; cases "y = stage_of p") auto
    then have "snd k < fs_next fs \<and> fs_inodes fs k \<noteq> None" using g unfolding good_def settled_def tidy_def by blast
    with ino sw show "snd k < fs_next fs' \<and> fs_inodes fs' k \<noteq> None" by (simp add: swapped_def)
  qed
  moreover have "owned p k fs'" if "fs_names fs' (stage_of p) = Some k" for k
    unfolding owned_def
  proof (intro allI impI)
    fix y assume y: "fs_names fs' y = Some k"
    have k: "fs_names fs (target_of p) = Some k" using that n(2) by simp
    have ne: "y \<noteq> target_of p" using y n(1) k apart [of k k] by auto
    have "y = target_of p" if "y \<noteq> stage_of p" using y k n(3) [OF ne that] g unfolding good_def single_def by metis
    with ne show "y = stage_of p \<or> y = trash_of p" by blast
  qed
  ultimately have "settled p fs'" using tr' by (auto simp: settled_def)
  moreover have "single (target_of p) fs'" unfolding single_def
  proof (intro allI impI)
    fix k y assume k: "fs_names fs' (target_of p) = Some k" and y: "fs_names fs' y = Some k"
    have k': "fs_names fs (stage_of p) = Some k" using k n(1) by simp
    then have o: "fs_names fs y = Some k \<Longrightarrow> y = stage_of p \<or> y = trash_of p" using g unfolding good_def settled_def owned_def by blast
    have ne: "y \<noteq> stage_of p" using y n(2) k' apart [of k k] by auto
    show "y = target_of p" using n(3) [OF _ ne] y o ne tr by (cases "y = target_of p") auto
  qed
  ultimately show "good p fs'" using pr by (simp add: good_def)
  show "away (slots p) fs fs'" unfolding away_def
  proof (intro allI impI conjI)
    fix y assume y: "y \<notin> slots p"
    then have ne: "y \<noteq> target_of p" "y \<noteq> stage_of p" "y \<noteq> trash_of p" by (auto simp: slots_def)
    then show "fs_names fs' y = fs_names fs y" by (intro n)
    fix k assume k: "fs_names fs y = Some k"
    have "fs_names fs (stage_of p) \<noteq> Some k" "fs_names fs (target_of p) \<noteq> Some k"
      using ne k g by (auto simp: good_def settled_def owned_def single_def)
    then show "fs_inodes fs' k = fs_inodes fs k" using sw by (simp add: swapped_def)
  qed (use sw in \<open>simp add: swapped_def\<close>)
qed

lemma swapped_back:
  assumes "swapped p fs fs1" "swapped p fs1 fs2" "proper p"
  shows "old_file p fs fs2"
  using assms by (simp add: swapped_def old_file_def proper_def)

lemma swapped_new:
  assumes "swapped p fs fs'" "proper p" "staged_file m N p fs"
  shows "new_file N p fs'"
proof -
  obtain k i where k: "fs_names fs (stage_of p) = Some k" "N \<le> snd k" "fs_inodes fs k = Some i" "in_content i = rp_Content (pr_replacement p)"
    using assms(3) by (auto simp: staged_file_def candidate_file_def)
  have "map_option in_content (fs_inodes fs' k) = Some (in_content i)" using assms(1) k by (simp add: swapped_def)
  then show ?thesis using k swapped_names(1) [OF assms(1,2)] by (auto simp: new_file_def)
qed

lemma wp_exchange:
  assumes q: "quiet m" and none: "\<And>n. Q None (w\<lparr>w_step := n\<rparr>)"
    and sw: "\<And>n fs. swapped p (w_fs w) fs \<Longrightarrow> Q (Some ()) (w\<lparr>w_step := n, w_fs := fs\<rparr>)"
  shows "wp (rename_exchange m (pr_parent p) (pr_stage p) (Base (rp_Path (pr_replacement p)))) Q w"
proof -
  let ?fs = "w_fs w"
  have "swapped p ?fs (touch_ctime t k (touch_ctime t l (?fs\<lparr>fs_names := (fs_names ?fs)(stage_of p \<mapsto> l, target_of p \<mapsto> k)\<rparr>)))"
    if "fs_names ?fs (stage_of p) = Some k" "fs_names ?fs (target_of p) = Some l" for t k l
    using that by (auto simp: swapped_def touch_ctime_def option.map_comp comp_def)
  then have "names w (stage_of p) = Some k \<Longrightarrow> names w (target_of p) = Some l \<Longrightarrow> Q (Some ()) (w\<lparr>w_step := n,
      w_fs := touch_ctime t k (touch_ctime t l (?fs\<lparr>fs_names := (fs_names ?fs)(stage_of p \<mapsto> l, target_of p \<mapsto> k)\<rparr>))\<rparr>)" for n t k l
    by (intro sw)
  then show ?thesis
    unfolding rename_exchange_def stage_of_def [symmetric] target_of_def [symmetric]
    by (intro wp_atomic_callI [OF q]) (auto simp: on_fs_def none split: option.splits)
qed

lemma wp_noreplace:
  assumes q: "quiet m" and none: "\<And>n. Q None (w\<lparr>w_step := n\<rparr>)"
    and sw: "\<And>n fs. swapped p (w_fs w) fs \<Longrightarrow> names w (target_of p) = None \<Longrightarrow> Q (Some ()) (w\<lparr>w_step := n, w_fs := fs\<rparr>)"
  shows "wp (rename_noreplace m (pr_parent p) (pr_stage p) (Base (rp_Path (pr_replacement p)))) Q w"
proof -
  let ?fs = "w_fs w"
  have "swapped p ?fs (touch_ctime t k (?fs\<lparr>fs_names := (fs_names ?fs)(stage_of p := None, target_of p \<mapsto> k)\<rparr>))"
    if "fs_names ?fs (stage_of p) = Some k" "fs_names ?fs (target_of p) = None" for t k
    using that by (auto simp: swapped_def touch_ctime_def option.map_comp comp_def)
  then have "names w (stage_of p) = Some k \<Longrightarrow> names w (target_of p) = None \<Longrightarrow> Q (Some ()) (w\<lparr>w_step := n,
      w_fs := touch_ctime t k (?fs\<lparr>fs_names := (fs_names ?fs)(stage_of p := None, target_of p \<mapsto> k)\<rparr>)\<rparr>)" for n t k
    by (intro sw)
  then show ?thesis
    unfolding rename_noreplace_def stage_of_def [symmetric] target_of_def [symmetric]
    by (intro wp_atomic_callI [OF q]) (auto simp: on_fs_def none split: option.splits)
qed

lemma wp_remove_displaced:
  assumes q: "quiet m" and s: "settled p (w_fs w)" and e: "\<not> pr_existed p \<Longrightarrow> names w (stage_of p) = None"
    and tr: "names w (trash_of p) = None"
    and Q: "\<And>r w'. inside p w w' \<Longrightarrow> (r = None \<Longrightarrow> clean_slot p (w_fs w')) \<Longrightarrow> Q r w'"
  shows "wp (remove_displaced m p) Q w"
proof (cases "pr_existed p")
  case False
  then show ?thesis using s e tr by (auto intro!: Q simp: remove_displaced_def clean_slot_def)
next
  case True
  have b: "own_name p (pr_stage p)" by (simp add: own_name_def)
  have fin: "inside p w (w'\<lparr>w_step := n\<rparr>)" "clean_slot p (w_fs w')"
    if "inside p w w'" "gone p (pr_stage p) w w'" for w' n
    using that tr by (auto simp: inside_def gone_def clean_slot_def stage_of_def)
  show ?thesis using s fin True unfolding remove_displaced_def
    by (auto split: option.split intro!: wp_removeOwnedFingerprintAt [OF q s b] Q wp_fsync [OF q])
qed

text \<open>After the rename, the candidate stays in place whatever happens, and an activation that reports
  success has removed the staging names.\<close>

definition placed :: "preparedReplacement \<Rightarrow> world \<Rightarrow> bool" where
  "placed p w \<longleftrightarrow> settled p (w_fs w) \<and> (\<not> pr_existed p \<longrightarrow> names w (stage_of p) = None) \<and> names w (trash_of p) = None"

definition same_world :: "world \<Rightarrow> world \<Rightarrow> bool" where
  "same_world w w' \<longleftrightarrow> w_fs w' = w_fs w \<and> w_selection w' = w_selection w \<and> transaction_of w' = transaction_of w"

lemma same_world_step [simp]: "same_world w (w\<lparr>w_step := n\<rparr>)" "same_world w w"
  by (simp_all add: same_world_def)

lemma same_world_trans: "same_world w w' \<Longrightarrow> same_world w' w'' \<Longrightarrow> same_world w w''"
  by (simp add: same_world_def)

lemma same_world_inside: "same_world w w' \<Longrightarrow> inside p w' w'' \<Longrightarrow> inside p w w''"
  by (simp add: same_world_def inside_def)

lemma same_world_placed: "same_world w w' \<Longrightarrow> placed p w' = placed p w"
  by (simp add: same_world_def placed_def)

lemma records_same: "records c \<Longrightarrow> (\<And>r w'. same_world w w' \<Longrightarrow> Q r w') \<Longrightarrow> wp c Q w"
  by (erule records_wp) (simp add: same_world_def)

lemma looks_same: "looks c \<Longrightarrow> (\<And>r w'. same_world w w' \<Longrightarrow> Q r w') \<Longrightarrow> wp c Q w"
  by (rule records_same [OF looks_records])

lemma placed_inside: "placed p w \<Longrightarrow> same_world w w' \<Longrightarrow> inside p w w'"
  by (simp add: placed_def same_world_def inside_def)

lemma wp_confirm_placement:
  assumes q: "quiet m" and s: "placed p w"
    and Q: "\<And>r w'. inside p w w' \<Longrightarrow> (r = None \<Longrightarrow> clean_slot p (w_fs w')) \<Longrightarrow> Q r w'"
  shows "wp (confirm_placement m t p) Q w"
proof -
  have early: "Q (Some e) w'" if "same_world w w'" for w' e
    by (rule Q [OF placed_inside [OF s that]]) simp
  have fin: "wp (remove_displaced m p) Q w'" if "same_world w w'" for w'
    using same_world_placed [OF that, of p] s Q same_world_inside [OF that]
    by (intro wp_remove_displaced [OF q]) (auto simp: placed_def)
  have mark: "wp (MarkApplied m t o' c i) R w'" if "\<And>r w''. same_world w' w'' \<Longrightarrow> R r w''" for R w' o' c i
    unfolding MarkApplied_def by (rule records_same [OF records_updates(2) [OF q]]) (rule that)
  show ?thesis unfolding confirm_placement_def
    by (auto intro!: looks_same [OF looks_active(1) [OF q]] looks_same [OF looks_active(2) [OF q]] mark early fin
        split: sum.split option.split) (simp_all add: same_world_def)
qed

lemma wp_record_placement:
  assumes q: "quiet m" and s: "placed p w"
    and Q: "\<And>r p' w'. inside p w w' \<Longrightarrow> same_slot p p' \<Longrightarrow> pr_activated p' = pr_activated p \<Longrightarrow>
      (r = None \<Longrightarrow> clean_slot p (w_fs w')) \<Longrightarrow> Q (r, p') w'"
  shows "wp (record_placement m t p active original) Q w"
proof -
  let ?p = "p\<lparr>pr_candidate := (pr_candidate p)\<lparr>sf_Identity := sf_Identity active\<rparr>,
              pr_original := (pr_original p)\<lparr>sf_Identity := sf_Identity original\<rparr>\<rparr>"
  have sl: "same_slot p ?p" by (simp add: same_slot_def)
  note nm = same_slot_names [OF sl]
  have pl: "placed ?p w = placed p w" "inside ?p v v' = inside p v v'" "clean_slot ?p fs = clean_slot p fs" for v v' fs
    using nm by (auto simp: placed_def inside_def keeps_def settled_def owned_def clean_slot_def)
  have early: "Q (Some e, p) w'" "Q (Some e, ?p) w'" if "same_world w w'" for w' e
    by (rule Q [OF placed_inside [OF s that]]; simp add: sl)+
  have fin: "wp (State_Monad.bind (confirm_placement m t ?p) (\<lambda>r. ret (r, ?p))) Q w'" if w': "same_world w w'" for w'
    unfolding wp_bind
    by (rule wp_confirm_placement [OF q])
      (use pl s same_world_placed [OF w', of ?p] same_world_inside [OF w'] sl in \<open>auto intro!: Q\<close>)
  have mark: "wp (MarkPlacement m t o' c i) R w'" if "\<And>r w''. same_world w' w'' \<Longrightarrow> R r w''" for R w' o' c i
    unfolding MarkPlacement_def by (rule records_same [OF records_updates(2) [OF q]]) (rule that)
  have sync: "wp (fsync m) R w'" if "\<And>r w''. same_world w' w'' \<Longrightarrow> R r w''" for R w'
    by (rule looks_same [OF looks_calls(4) [OF q]]) (rule that)
  show ?thesis unfolding record_placement_def Let_def wp_on_error
    by (rule mark) (auto intro!: sync early fin split: option.split simp del: wp_bind, simp_all add: same_world_def)
qed

definition confined :: "preparedReplacement \<Rightarrow> world \<Rightarrow> world \<Rightarrow> bool" where
  "confined p w w' \<longleftrightarrow> good p (w_fs w') \<and> away (slots p) (w_fs w) (w_fs w') \<and> transaction_of w' = transaction_of w \<and> w_selection w' = w_selection w"

lemma confined_trans: "confined p w w' \<Longrightarrow> confined p w' w'' \<Longrightarrow> confined p w w''"
  using away_trans [of "slots p" _ _ "slots p"] by (auto simp: confined_def)

lemma inside_confined: "good p (w_fs w) \<Longrightarrow> inside p w w' \<Longrightarrow> confined p w w'"
  using good_inside [of p w w'] by (auto simp: confined_def inside_def intro: keeps_away)

lemma same_confined: "good p (w_fs w) \<Longrightarrow> same_world w w' \<Longrightarrow> confined p w w'"
  by (simp add: confined_def same_world_def)

lemma wp_roll_back:
  assumes q: "quiet m"
    and same: "\<And>w'. same_world w w' \<Longrightarrow> Q p w'"
    and swp: "\<And>p' w'. swapped p (w_fs w) (w_fs w') \<Longrightarrow> w_selection w' = w_selection w \<Longrightarrow> transaction_of w' = transaction_of w \<Longrightarrow>
      p' = p \<or> p' = p\<lparr>pr_activated := False\<rparr> \<Longrightarrow> Q p' w'"
  shows "wp (roll_back m p) Q w"
proof -
  have sync: "wp (fsync m) R w'" if "\<And>r n. R r (w'\<lparr>w_step := n\<rparr>)" for R w'
    by (rule looks_wp [OF looks_calls(4) [OF q]]) (rule that)
  have ex: "wp (rename_exchange m (pr_parent p) (pr_stage p) (Base (rp_Path (pr_replacement p)))) R w'"
    if "\<And>n. R None (w'\<lparr>w_step := n\<rparr>)" "\<And>n fs. swapped p (w_fs w') fs \<Longrightarrow> R (Some ()) (w'\<lparr>w_step := n, w_fs := fs\<rparr>)" for R w'
    by (rule wp_exchange [OF q]) (use that in auto)
  have fp: "wp (fingerprintAt m d b l) R w" if "\<And>r n. R r (w\<lparr>w_step := n\<rparr>)" for R d b l
    by (rule looks_wp [OF looks_fingerprintAt [OF q]]) (rule that)
  show ?thesis unfolding roll_back_def Let_def
    by (auto intro!: fp ex sync same [OF same_world_step(1)] split: sum.split option.split) (auto intro!: swp)
qed

lemma slot_activated:
  "slots (p\<lparr>pr_activated := b\<rparr>) = slots p" "good (p\<lparr>pr_activated := b\<rparr>) fs = good p fs" "placed (p\<lparr>pr_activated := b\<rparr>) w = placed p w"
  "swapped (p\<lparr>pr_activated := b\<rparr>) fs fs' = swapped p fs fs'" "inside (p\<lparr>pr_activated := b\<rparr>) w w' = inside p w w'"
  "clean_slot (p\<lparr>pr_activated := b\<rparr>) fs = clean_slot p fs" "same_slot p (p\<lparr>pr_activated := b\<rparr>)"
  "same_slot (p\<lparr>pr_activated := b\<rparr>) p' = same_slot p p'"
  by (simp_all add: slots_def good_def proper_def settled_def owned_def keeps_def inside_def placed_def swapped_def clean_slot_def same_slot_def
      target_of_def stage_of_def trash_of_def)

text \<open>What an activation leaves: the target holds its old file or the whole candidate; it holds the
  candidate and no staging name is left when it reports success, and its old file when the entry is not
  marked as activated.\<close>

definition activation :: "nat \<Rightarrow> preparedReplacement \<Rightarrow> world \<Rightarrow> ws_error option \<times> preparedReplacement \<Rightarrow> world \<Rightarrow> bool" where
  "activation N p w = (\<lambda>(r, p') w'. confined p w w' \<and> same_slot p p' \<and> (r = None \<longrightarrow> new_file N p (w_fs w') \<and> clean_slot p (w_fs w')) \<and>
     (old_file p (w_fs w) (w_fs w') \<or> new_file N p (w_fs w')) \<and> (\<not> pr_activated p' \<and> r \<noteq> None \<longrightarrow> old_file p (w_fs w) (w_fs w')))"

lemma wp_after_rename:
  assumes q: "quiet m" and g: "good p (w_fs w)" and st: "staged_file m N p (w_fs w)"
    and sw: "swapped p (w_fs w) fs" and ex: "\<not> pr_existed p \<Longrightarrow> names w (target_of p) = None"
    and w1: "same_world (w\<lparr>w_step := n, w_fs := fs\<rparr>) w1"
  defines "p1 \<equiv> p\<lparr>pr_activated := True\<rparr>"
  shows "activation N p w (Some e, p1) w1" "wp (State_Monad.bind (roll_back m p1) (\<lambda>p'. ret (Some e, p'))) (activation N p w) w1"
    "wp (record_placement m t p1 active original) (activation N p w) w1"
proof -
  have pr: "proper p" using g by (simp add: good_def)
  have tr: "names w (trash_of p) = None" using st by (auto simp: staged_file_def)
  note sg = swapped_good [OF sw g tr]
  have fs1: "w_fs w1 = fs" using w1 by (simp add: same_world_def)
  have c: "confined p w w1" using w1 sg by (auto simp: confined_def same_world_def)
  have new: "new_file N p fs" by (rule swapped_new [OF sw pr st])
  have pl: "placed p w1" using sg swapped_names(2) [OF sw pr] ex fs1 by (auto simp: placed_def good_def)
  have act: "activation N p w (Some e, p1) w'" if "confined p w w'" "w_fs w' = fs" for w' e
    using that new by (simp add: activation_def p1_def slot_activated)
  show "activation N p w (Some e, p1) w1" by (rule act [OF c fs1])
  show "wp (State_Monad.bind (roll_back m p1) (\<lambda>p'. ret (Some e, p'))) (activation N p w) w1" unfolding wp_bind wp_ret
  proof (rule wp_roll_back [OF q], goal_cases)
    case (1 w2)
    then show ?case using c fs1 by (intro act) (auto simp: confined_def same_world_def)
  next
    case (2 p2 w2)
    then have s2: "swapped p fs (w_fs w2)" by (simp add: p1_def slot_activated fs1)
    have "confined p w1 w2" using swapped_good [OF s2 sg(1,3)] 2(2,3) by (simp add: confined_def fs1)
    with c have c2: "confined p w w2" by (rule confined_trans)
    have "same_slot p p2" using 2(4) by (auto simp: p1_def slot_activated same_slot_def)
    with c2 swapped_back [OF sw s2 pr] show ?case by (simp add: activation_def)
  qed
  show "wp (record_placement m t p1 active original) (activation N p w) w1"
  proof (rule wp_record_placement [OF q], goal_cases)
    case 1
    show ?case using pl by (simp add: p1_def slot_activated)
  next
    case (2 r p2 w2)
    have i: "inside p w1 w2" using 2(1) by (simp add: p1_def slot_activated)
    have g1: "good p (w_fs w1)" using sg(1) fs1 by simp
    have "confined p w w2" by (rule confined_trans [OF c inside_confined [OF g1 i]])
    moreover have "new_file N p (w_fs w2)" by (rule inside_new [OF g1 i]) (simp add: fs1 new)
    ultimately show ?case using 2(2-4) by (simp add: activation_def p1_def slot_activated)
  qed
qed

lemma wp_activateCandidate:
  assumes q: "quiet m" and g: "good p (w_fs w)" and st: "staged_file m N p (w_fs w)"
  shows "wp (activateCandidate m t p) (activation N p w) w"
proof -
  let ?p = "p\<lparr>pr_activated := True\<rparr>"
  have early: "activation N p w (Some e, p) (w\<lparr>w_step := n\<rparr>)" for e n using g by (simp add: activation_def same_confined)
  have after: "wp (case inject m FailureAfterRename (pr_ordinal p) of Some e \<Rightarrow> ret (Some e, ?p) | None \<Rightarrow>
      on_result (active_candidate m ?p) (\<lambda>e. ret (Some e, ?p)) (\<lambda>active.
      on_result (displaced_original m ?p)
        (\<lambda>e. do { p' \<leftarrow> roll_back m ?p; ret (Some e, p') })
        (record_placement m t ?p active))) (activation N p w) (w\<lparr>w_step := n, w_fs := fs\<rparr>)"
    if "swapped p (w_fs w) fs" "\<not> pr_existed p \<Longrightarrow> names w (target_of p) = None" for fs n
  proof -
    note a = wp_after_rename [OF q g st that, of n]
    show ?thesis
    by (auto intro!: a looks_same [OF looks_active(1) [OF q]] looks_same [OF looks_active(2) [OF q]]
        simp del: wp_bind split: option.split sum.split) (simp_all add: same_world_def)
  qed
  show ?thesis unfolding activateCandidate_def Let_def wp_or_else
  proof (rule wp_fsync [OF q], goal_cases)
    case (1 n)
    show ?case using early by simp
  next
    case (2 n)
    let ?w = "w\<lparr>w_step := n\<rparr>"
    show ?case
    proof (cases "pr_existed p")
      case True
      then show ?thesis using after early
        by (simp del: wp_bind wp_on_result) (rule wp_exchange [OF q], auto simp del: wp_bind wp_on_result)
    next
      case False
      then show ?thesis using after early
        by (simp del: wp_bind wp_on_result) (rule wp_noreplace [OF q], auto simp del: wp_bind wp_on_result)
    qed
  qed
qed
end
