(* ===== verification/Workspace_Rows.thy ===== *)
theory Workspace_Rows
  imports Workspace_Activation
begin

text \<open>
  What the journal says about inodes.  At every moment of an edit, the original that a row of the
  journal names is an inode from before the edit, and the candidate is one that the edit created.
  Recovery rests on this: it tells the two apart by comparing identities.
\<close>

subsection \<open>Computations that do not record\<close>

definition silent :: "'a io \<Rightarrow> bool" where
  "silent c \<longleftrightarrow> (\<forall>w. wp c (\<lambda>_ w'. jdb_files (w_journal w') = jdb_files (w_journal w)) w)"

named_theorems silent_intros \<open>computations that leave the rows of the journal\<close>

lemma silent_wp: "silent c \<Longrightarrow> (\<And>r w'. jdb_files (w_journal w') = jdb_files (w_journal w) \<Longrightarrow> Q r w') \<Longrightarrow> wp c Q w"
  unfolding silent_def by (rule wp_mono, blast) auto

lemma looks_silent: "looks c \<Longrightarrow> silent c"
  unfolding silent_def by (intro allI, erule looks_wp) auto

lemma silent_bind [silent_intros]: "silent c \<Longrightarrow> (\<And>a. silent (f a)) \<Longrightarrow> silent (State_Monad.bind c f)"
  unfolding silent_def [of "State_Monad.bind c f"] wp_bind
  by (intro allI, erule silent_wp, rule silent_wp [of "f a" for a]) auto

lemma silent_control [silent_intros]:
  "silent c \<Longrightarrow> silent h \<Longrightarrow> (\<And>a. silent (g a)) \<Longrightarrow> silent (or_else c h g)"
  "silent ce \<Longrightarrow> (\<And>e. silent (he e)) \<Longrightarrow> silent ge \<Longrightarrow> silent (on_error ce he ge)"
  "silent cr \<Longrightarrow> (\<And>e. silent (he e)) \<Longrightarrow> (\<And>a. silent (gr a)) \<Longrightarrow> silent (on_result cr he gr)"
  "silent x \<Longrightarrow> silent y \<Longrightarrow> silent (if P then x else y)"
  unfolding or_else_def on_error_def on_result_def by (auto intro!: silent_bind split: option.split sum.split)

lemma silent_fs [silent_intros]:
  assumes "quiet m"
  shows "silent (call m (\<lambda>n. on_fs (f n)))" "silent (atomic_call m (\<lambda>n. on_fs (f n)))"
proof -
  have "jdb_files (w_journal (snd (on_fs g w))) = jdb_files (w_journal w)" for g :: "filesystem \<Rightarrow> 'x option \<times> filesystem" and w
    by (simp add: on_fs_def split: prod.split)
  then have e: "on_fs g w = (r, w') \<Longrightarrow> jdb_files (w_journal w') = jdb_files (w_journal w)" for g :: "filesystem \<Rightarrow> 'x option \<times> filesystem" and w r w'
    by (metis snd_conv)
  show "silent (call m (\<lambda>n. on_fs (f n)))" unfolding silent_def
    by (intro allI wp_callI [OF assms]) (auto simp: on_fs_def split: prod.splits)
  show "silent (atomic_call m (\<lambda>n. on_fs (f n)))" unfolding silent_def
    by (intro allI wp_atomic_callI [OF assms]) (auto simp: on_fs_def split: prod.splits)
qed

lemma silent_writeAll [silent_intros]: "quiet m \<Longrightarrow> silent (writeAll m k s)"
  by (auto simp: silent_def writeAll_def on_fs_def split: fault.split)

lemma silent_calls [silent_intros]:
  assumes "quiet m"
  shows "silent (fchmod m k)" "silent (ftruncate m k)" "silent (openat_create m d name)" "silent (unlinkat m d name)"
    "silent (rename_noreplace m d a b)" "silent (rename_exchange m d a b)"
  unfolding fchmod_def ftruncate_def openat_create_def unlinkat_def rename_noreplace_def rename_exchange_def
  by (rule silent_fs [OF assms])+

lemmas [silent_intros] = looks_silent [OF looks_ret] looking [THEN looks_silent] looks_calls [THEN looks_silent] looks_NewTransactionID [THEN looks_silent]

lemma silent_scrubOpenFile [silent_intros]: "quiet m \<Longrightarrow> silent (scrubOpenFile m k)"
  unfolding scrubOpenFile_def by (intro silent_intros)

lemma silent_scrub_quarantined [silent_intros]: "quiet m \<Longrightarrow> silent (scrub_quarantined m d b c k i ordinal)"
  unfolding scrub_quarantined_def by (auto intro!: silent_intros split: sum.split option.split)

lemma silent_scrubAndRemoveOpen [silent_intros]: "quiet m \<Longrightarrow> silent (scrubAndRemoveOpen m d b k i ordinal)"
  unfolding scrubAndRemoveOpen_def by (auto intro!: silent_intros split: option.split)

lemma silent_removeOwnedFingerprintAt [silent_intros]: "quiet m \<Longrightarrow> silent (removeOwnedFingerprintAt m d b f limit ordinal)"
  unfolding removeOwnedFingerprintAt_def by (auto intro!: silent_intros split: prod.split)

lemma silent_removeOwnedIdentityAt [silent_intros]: "quiet m \<Longrightarrow> silent (removeOwnedIdentityAt m d b i ordinal)"
  unfolding removeOwnedIdentityAt_def by (intro silent_intros)

lemma silent_discard_entry [silent_intros]: "quiet m \<Longrightarrow> silent (discard_entry m p)"
  unfolding discard_entry_def by (auto intro!: silent_intros split: option.split)

lemma silent_discard_entries [silent_intros]: "quiet m \<Longrightarrow> silent (discard_entries m ps r)"
  by (induction ps arbitrary: r) (auto intro!: silent_intros)

lemma silent_remove_displaced [silent_intros]: "quiet m \<Longrightarrow> silent (remove_displaced m p)"
  unfolding remove_displaced_def by (auto intro!: silent_intros split: option.split)

lemma silent_roll_back [silent_intros]: "quiet m \<Longrightarrow> silent (roll_back m p)"
  unfolding roll_back_def Let_def by (auto intro!: silent_intros)

lemma silent_scrub_failed [silent_intros]: "quiet m \<Longrightarrow> silent (scrub_failed m k e p)"
  unfolding scrub_failed_def Let_def by (auto intro!: silent_intros)

lemma silent_SetPhase [silent_intros]:
  assumes "quiet m"
  shows "silent (SetPhase m t phase)"
proof -
  have "silent (transact m (on_journal (update_phase t phase)))" unfolding silent_def transact_def wp_bind
    by (intro allI wp_callI [OF assms])
      (auto simp: on_journal_def update_phase_def result_simps split: sum.splits if_splits)
  then show ?thesis unfolding SetPhase_def
    by (auto intro!: silent_intros looks_loads(1) [THEN looks_silent] assms)
qed

subsection \<open>The inodes of the rows\<close>

text \<open>An inode from before the edit; the bound 0 says nothing.\<close>

definition below :: "nat \<Rightarrow> nat \<Rightarrow> bool" where
  "below N n \<longleftrightarrow> N = 0 \<or> n < N"

lemma below_zero [simp]: "below 0 n" "below N 0"
  by (auto simp: below_def)

definition row_bound :: "nat \<Rightarrow> journal_file_row \<Rightarrow> bool" where
  "row_bound N r \<longleftrightarrow> (\<forall>n. canonicalUint64 (ic_inode (fr_original r)) = Some n \<longrightarrow> below N n) \<and>
     (fr_candidate_ready r = 1 \<longrightarrow> (\<forall>n. canonicalUint64 (ic_inode (fr_candidate r)) = Some n \<longrightarrow> N \<le> n))"

definition rows_bound :: "nat \<Rightarrow> world \<Rightarrow> bool" where
  "rows_bound N w \<longleftrightarrow> list_all (row_bound N) (jdb_files (w_journal w))"

lemma rows_bound_step [simp]: "rows_bound N (w\<lparr>w_step := n\<rparr>) = rows_bound N w" "rows_bound N (w\<lparr>w_fs := fs\<rparr>) = rows_bound N w"
  by (simp_all add: rows_bound_def)

lemma silent_rows: "silent c \<Longrightarrow> rows_bound N w \<Longrightarrow> wp c (\<lambda>_ w'. rows_bound N w') w"
  by (erule silent_wp) (simp add: rows_bound_def)

lemma canonical_Itoa: "canonicalUint64 (Itoa x) = Some n \<Longrightarrow> n = x"
  by (auto simp: canonicalUint64_def ParseUint_def undec_Itoa split: option.splits if_splits)

lemma update_files_bound:
  assumes "update_files t selected change db = Inr (n, db')" "list_all (row_bound N) (jdb_files db)"
    "\<And>r. row_bound N r \<Longrightarrow> selected r \<Longrightarrow> row_bound N (change r)"
  shows "list_all (row_bound N) (jdb_files db')"
  using assms by (auto simp: update_files_def Let_def list_all_iff split: if_splits)

lemma transact_bound:
  assumes "quiet m" "rows_bound N w"
    and "\<And>n db'. f (w_journal w) = Inr (n, db') \<Longrightarrow> list_all (row_bound N) (jdb_files db')"
  shows "wp (State_Monad.bind (transact m (on_journal f)) (\<lambda>r. ret (requireOneRow r))) (\<lambda>_ w'. rows_bound N w') w"
  unfolding transact_def wp_bind
  by (intro wp_callI [OF assms(1)])
    (use assms(2,3) in \<open>auto simp: on_journal_def result_simps rows_bound_def bind_result_def split: sum.splits prod.splits\<close>)

lemma MarkCandidate_bound:
  assumes "quiet m" "rows_bound N w" "N \<le> fi_Inode i"
  shows "wp (MarkCandidate m t ordinal i) (\<lambda>_ w'. rows_bound N w') w"
proof -
  have "wp (State_Monad.bind (transact m (on_journal (update_candidate t ordinal i))) (\<lambda>r. ret (requireOneRow r))) (\<lambda>_ w'. rows_bound N w') w"
  proof (rule transact_bound [OF assms(1,2)])
    fix n db' assume "update_candidate t ordinal i (w_journal w) = Inr (n, db')"
    then show "list_all (row_bound N) (jdb_files db')" unfolding update_candidate_def
      by (rule update_files_bound) (use assms(2,3) in \<open>auto simp: rows_bound_def row_bound_def identity_text_def dest: canonical_Itoa\<close>)
  qed
  then show ?thesis using assms(2) by (simp add: MarkCandidate_def)
qed

lemma recordPlacement_bound:
  assumes "quiet m" "rows_bound N w" "N \<le> fi_Inode c" "below N (fi_Inode i)"
  shows "wp (recordPlacement m t ordinal c i applied) (\<lambda>_ w'. rows_bound N w') w"
proof -
  have "wp (State_Monad.bind (transact m (on_journal (update_placement t ordinal c i applied))) (\<lambda>r. ret (requireOneRow r))) (\<lambda>_ w'. rows_bound N w') w"
  proof (rule transact_bound [OF assms(1,2)])
    fix n db' assume "update_placement t ordinal c i applied (w_journal w) = Inr (n, db')"
    then show "list_all (row_bound N) (jdb_files db')" unfolding update_placement_def
      by (rule update_files_bound) (use assms(2-4) in \<open>auto simp: rows_bound_def row_bound_def identity_text_def dest: canonical_Itoa\<close>)
  qed
  then show ?thesis using assms(2) by (simp add: recordPlacement_def)
qed

lemma rows_seq: "silent c \<Longrightarrow> rows_bound N w \<Longrightarrow> (\<And>r w'. rows_bound N w' \<Longrightarrow> Q r w') \<Longrightarrow> wp c Q w"
  by (rule wp_mono [OF silent_rows])

lemma stage_contents_bound:
  assumes q: "quiet m" and r: "rows_bound N w" and k: "N \<le> snd k"
  shows "wp (stage_contents m t k p) (\<lambda>_ w'. rows_bound N w') w"
proof -
  have mark: "wp (MarkCandidate m t ordinal i) (\<lambda>r. case r of None \<Rightarrow> wp (ret x) (\<lambda>_ w'. rows_bound N w') | Some e \<Rightarrow> wp (ret (y e)) (\<lambda>_ w'. rows_bound N w')) w'"
    if "rows_bound N w'" "N \<le> fi_Inode i" for ordinal i w' and x :: 'x and y :: "ws_error \<Rightarrow> 'x"
    by (rule wp_mono [OF MarkCandidate_bound [OF q that]]) (auto split: option.split)
  have stat: "wp (fstat m k) Q w'" if "rows_bound N w'" "\<And>i w''. N \<le> fi_Inode i \<Longrightarrow> rows_bound N w'' \<Longrightarrow> Q (Some i) w''" "\<And>w''. rows_bound N w'' \<Longrightarrow> Q None w''" for Q w'
    by (rule wp_fstat [OF q]) (use that k in \<open>auto simp: identity_of_def\<close>)
  show ?thesis unfolding stage_contents_def Let_def wp_or_else
    by (rule rows_seq [OF silent_calls(1) [OF q] r])
      (auto split: option.split intro!: rows_seq [OF silent_writeAll [OF q]] rows_seq [OF looks_silent [OF looks_calls(4) [OF q]]] stat mark)
qed

lemma stageCandidate_bound:
  assumes q: "quiet m" and s: "settled p (w_fs w)" and r: "rows_bound N w" and n: "N \<le> fs_next (w_fs w)"
  shows "wp (stageCandidate m t p) (\<lambda>_ w'. rows_bound N w') w"
proof -
  have sync: "wp (fsync m) Q w'" if "rows_bound N w'" "\<And>r w''. rows_bound N w'' \<Longrightarrow> Q r w''" for Q w'
    by (rule rows_seq [OF looks_silent [OF looks_calls(4) [OF q]] that])
  have cont: "wp (State_Monad.bind (stage_contents m t k p) (\<lambda>(result, p').
        State_Monad.bind (case result of Some e \<Rightarrow> scrub_failed m k e p' | None \<Rightarrow> ret (None, p')) (\<lambda>(result, p').
        State_Monad.bind (close_file m) (\<lambda>closed. ret (if closed = None then Some (case result of Some e \<Rightarrow> e | None \<Rightarrow> plain_error) else result, p')))))
      (\<lambda>_ w'. rows_bound N w') w'" if "rows_bound N w'" "N \<le> snd k" for k w'
    unfolding wp_bind
    by (rule wp_mono [OF stage_contents_bound [OF q that]])
      (auto split: prod.split option.split intro!: sync rows_seq [OF silent_scrub_failed [OF q]])
  have cr: "wp (openat_create m (pr_parent p) (pr_stage p)) (\<lambda>r w'. rows_bound N w' \<and> (\<forall>k. r = Some k \<longrightarrow> N \<le> snd k)) w'"
    if "rows_bound N w'" "settled p (w_fs w')" "N \<le> fs_next (w_fs w')" for w'
    by (rule wp_and [OF silent_rows [OF silent_calls(3) [OF q] that(1)]], rule wp_create [OF q that(2)]) (use that(3) in auto)
  show ?thesis unfolding stageCandidate_def wp_or_else
  proof (rule wp_fsync [OF q], goal_cases)
    case (2 n')
    show ?case unfolding option.case
      by (rule wp_mono [OF cr]) (use r s n cont in \<open>auto simp del: wp_bind split: option.split\<close>)
  qed (use r in simp)
qed

text \<open>Reading the active candidate and the displaced original.\<close>

lemma wp_active_candidate:
  assumes q: "quiet m" and "\<And>e n. Q (Inl e) (w\<lparr>w_step := n\<rparr>)"
    and "\<And>f n k. names w (target_of p) = Some k \<Longrightarrow> fi_Inode (sf_Identity f) = snd k \<Longrightarrow> Q (Inr f) (w\<lparr>w_step := n\<rparr>)"
  shows "wp (active_candidate m p) Q w"
  unfolding active_candidate_def wp_on_result
  by (rule wp_fingerprintAt [OF q]) (use assms in \<open>auto simp: target_of_def identity_of_def\<close>)

lemma wp_displaced_original:
  assumes q: "quiet m" and "\<And>e n. Q (Inl e) (w\<lparr>w_step := n\<rparr>)"
    and "\<not> pr_existed p \<Longrightarrow> Q (Inr no_fingerprint) w"
    and "\<And>f n k. names w (stage_of p) = Some k \<Longrightarrow> fi_Inode (sf_Identity f) = snd k \<Longrightarrow> Q (Inr f) (w\<lparr>w_step := n\<rparr>)"
  shows "wp (displaced_original m p) Q w"
proof (cases "pr_existed p")
  case True
  then show ?thesis unfolding displaced_original_def wp_on_result using assms
    by (simp, intro wp_fingerprintAt [OF q]) (auto simp: stage_of_def identity_of_def)
qed (use assms in \<open>simp add: displaced_original_def\<close>)

text \<open>After the rename the target is an inode of the edit and the staging name, if any, an older one.\<close>

definition swapped_bound :: "nat \<Rightarrow> preparedReplacement \<Rightarrow> world \<Rightarrow> bool" where
  "swapped_bound N p w \<longleftrightarrow> rows_bound N w \<and> (\<forall>k. names w (target_of p) = Some k \<longrightarrow> N \<le> snd k) \<and>
     (\<forall>k. names w (stage_of p) = Some k \<longrightarrow> below N (snd k))"

lemma swapped_bound_step [simp]: "swapped_bound N p (w\<lparr>w_step := n\<rparr>) = swapped_bound N p w"
  by (simp add: swapped_bound_def)

lemma recordPlacement_swapped:
  assumes q: "quiet m" and s: "swapped_bound N p w" and i: "N \<le> fi_Inode c" "below N (fi_Inode i)"
    and Q: "\<And>r w'. swapped_bound N p w' \<Longrightarrow> Q r w'"
  shows "wp (recordPlacement m t ordinal c i applied) Q w"
proof -
  have r: "rows_bound N w" using s by (simp add: swapped_bound_def)
  have "wp (recordPlacement m t ordinal c i applied) (\<lambda>_ w'. w_fs w' = w_fs w) w"
    by (rule records_wp [OF records_updates(2) [OF q]])
  from wp_and [OF recordPlacement_bound [OF q r i] this] show ?thesis
    by (rule wp_mono) (use s Q in \<open>simp add: swapped_bound_def\<close>)
qed

lemma confirm_placement_bound:
  assumes q: "quiet m" and s: "swapped_bound N p w"
  shows "wp (confirm_placement m t p) (\<lambda>_ w'. rows_bound N w') w"
proof -
  have z: "below N (fi_Inode (sf_Identity no_fingerprint))" by (simp add: no_fingerprint_def no_identity_def)
  have r: "swapped_bound N p w' \<Longrightarrow> rows_bound N w'" for w' by (simp add: swapped_bound_def)
  have fin: "wp (remove_displaced m p) (\<lambda>_ w'. rows_bound N w') w'" if "swapped_bound N p w'" for w'
    by (rule silent_rows [OF silent_remove_displaced [OF q] r [OF that]])
  have mark: "wp (MarkApplied m t (pr_ordinal p) c i) (\<lambda>r. case r of None \<Rightarrow> wp (case inject m FailureAfterAppliedRecord (pr_ordinal p) of Some e \<Rightarrow> ret (Some e) | None \<Rightarrow>
     remove_displaced m p) (\<lambda>_ w'. rows_bound N w') | Some e \<Rightarrow> wp (ret (Some e)) (\<lambda>_ w'. rows_bound N w')) w'"
    if "swapped_bound N p w'" "N \<le> fi_Inode c" "below N (fi_Inode i)" for c i w'
    unfolding MarkApplied_def by (rule recordPlacement_swapped [OF q that]) (auto simp: r fin split: option.split)
  have disp: "wp (displaced_original m p) (\<lambda>r. case r of Inl e \<Rightarrow> wp (ret (Some [ErrSourceChanged])) (\<lambda>_ w'. rows_bound N w') | Inr f \<Rightarrow>
      wp (on_error (MarkApplied m t (pr_ordinal p) c (sf_Identity f)) (\<lambda>e. ret (Some e)) (
        case inject m FailureAfterAppliedRecord (pr_ordinal p) of Some e \<Rightarrow> ret (Some e) | None \<Rightarrow> remove_displaced m p)) (\<lambda>_ w'. rows_bound N w')) w'"
    if "swapped_bound N p w'" "N \<le> fi_Inode c" for c w'
    by (rule wp_displaced_original [OF q]) (use that z mark r in \<open>auto simp: swapped_bound_def\<close>)
  show ?thesis unfolding confirm_placement_def wp_on_result
    by (rule wp_active_candidate [OF q]) (use s disp r in \<open>auto simp del: wp_on_error simp: swapped_bound_def\<close>)
qed

lemma record_placement_bound:
  assumes q: "quiet m" and s: "swapped_bound N p w" and i: "N \<le> fi_Inode (sf_Identity active)" "below N (fi_Inode (sf_Identity original))"
  shows "wp (record_placement m t p active original) (\<lambda>_ w'. rows_bound N w') w"
proof -
  let ?p = "p\<lparr>pr_candidate := (pr_candidate p)\<lparr>sf_Identity := sf_Identity active\<rparr>,
              pr_original := (pr_original p)\<lparr>sf_Identity := sf_Identity original\<rparr>\<rparr>"
  have r: "swapped_bound N p w' \<Longrightarrow> rows_bound N w'" for w' by (simp add: swapped_bound_def)
  have "swapped_bound N ?p w' = swapped_bound N p w'" for w' by (simp add: swapped_bound_def target_of_def stage_of_def)
  then have fin: "wp (confirm_placement m t ?p) (\<lambda>a. wp (ret (a, ?p)) (\<lambda>_ w'. rows_bound N w')) w'" if "swapped_bound N p w'" for w'
    using that by (intro wp_mono [OF confirm_placement_bound [OF q]]) simp_all
  have sync: "wp (fsync m) Q w'" if "\<And>r n. Q r (w'\<lparr>w_step := n\<rparr>)" for Q w'
    by (rule looks_wp [OF looks_calls(4) [OF q]]) (rule that)
  show ?thesis unfolding record_placement_def Let_def wp_on_error MarkPlacement_def
    by (rule recordPlacement_swapped [OF q s i]) (auto simp: r fin intro!: sync split: option.split)
qed

lemma activateCandidate_bound:
  assumes q: "quiet m" and g: "good p (w_fs w)" and st: "staged_file m N p (w_fs w)" and r: "rows_bound N w"
    and old: "\<And>k. names w (target_of p) = Some k \<Longrightarrow> below N (snd k)"
  shows "wp (activateCandidate m t p) (\<lambda>_ w'. rows_bound N w') w"
proof -
  let ?p = "p\<lparr>pr_activated := True\<rparr>" and ?R = "\<lambda>_ w'. rows_bound N w'"
  have pr: "proper p" using g by (simp add: good_def)
  have sb: "swapped_bound N ?p (w\<lparr>w_step := n, w_fs := fs\<rparr>)" if "swapped p (w_fs w) fs" for n fs
    using st swapped_names [OF that pr] r old by (auto simp: swapped_bound_def staged_file_def target_of_def stage_of_def)
  have rb: "swapped_bound N ?p w' \<Longrightarrow> rows_bound N w'" for w' by (simp add: swapped_bound_def)
  have lt: "swapped_bound N ?p w' \<Longrightarrow> names w' (stage_of ?p) = Some k \<Longrightarrow> below N (snd k)"
    and le: "swapped_bound N ?p w' \<Longrightarrow> names w' (target_of ?p) = Some k \<Longrightarrow> N \<le> snd k" for w' k by (simp_all add: swapped_bound_def)
  have z: "below N (fi_Inode (sf_Identity no_fingerprint))" by (simp add: no_fingerprint_def no_identity_def)
  have roll: "wp (State_Monad.bind (roll_back m ?p) (\<lambda>p'. ret (Some e, p'))) ?R w'" if "swapped_bound N ?p w'" for e w'
    unfolding wp_bind by (rule rows_seq [OF silent_roll_back [OF q] rb [OF that]]) simp
  have disp: "wp (displaced_original m ?p) (\<lambda>r. case r of Inl e \<Rightarrow> wp (do { p' \<leftarrow> roll_back m ?p; ret (Some e, p') }) ?R
      | Inr f \<Rightarrow> wp (record_placement m t ?p active f) ?R) w'"
    if "swapped_bound N ?p w'" "N \<le> fi_Inode (sf_Identity active)" for active w'
    by (rule wp_displaced_original [OF q]) (use that z lt [OF that(1)] in \<open>auto simp del: wp_bind intro!: record_placement_bound [OF q] roll\<close>)
  have act: "wp (active_candidate m ?p) (\<lambda>r. case r of Inl e \<Rightarrow> wp (ret (Some e, ?p)) ?R | Inr active \<Rightarrow>
      wp (on_result (displaced_original m ?p) (\<lambda>e. do { p' \<leftarrow> roll_back m ?p; ret (Some e, p') }) (record_placement m t ?p active)) ?R) w'"
    if "swapped_bound N ?p w'" for w'
    by (rule wp_active_candidate [OF q]) (use that disp rb [OF that] le [OF that] in \<open>auto simp del: wp_bind\<close>)
  have after: "wp (case inject m FailureAfterRename (pr_ordinal p) of Some e \<Rightarrow> ret (Some e, ?p) | None \<Rightarrow>
      on_result (active_candidate m ?p) (\<lambda>e. ret (Some e, ?p)) (\<lambda>active.
      on_result (displaced_original m ?p)
        (\<lambda>e. do { p' \<leftarrow> roll_back m ?p; ret (Some e, p') })
        (record_placement m t ?p active))) ?R (w\<lparr>w_step := n, w_fs := fs\<rparr>)" if "swapped p (w_fs w) fs" for n fs
  proof (cases "inject m FailureAfterRename (pr_ordinal p)")
    case None
    then show ?thesis using act [OF sb [OF that]] by (simp only: option.case wp_on_result)
  qed (use rb [OF sb [OF that]] in simp)
  show ?thesis unfolding activateCandidate_def Let_def wp_or_else
  proof (rule wp_fsync [OF q], goal_cases)
    case (2 n)
    show ?case
    proof (cases "pr_existed p")
      case True
      then show ?thesis using after r
        by (simp del: wp_bind wp_on_result) (rule wp_exchange [OF q], auto simp del: wp_bind wp_on_result)
    next
      case False
      then show ?thesis using after r
        by (simp del: wp_bind wp_on_result) (rule wp_noreplace [OF q], auto simp del: wp_bind wp_on_result)
    qed
  qed (use r in simp)
qed

end
