(* ===== verification/Workspace_Edit.thy ===== *)
theory Workspace_Edit
  imports Workspace_Rows
begin

text \<open>
  The files of an edit together: staging, activating and discarding all entries by induction on the
  entries, each step framed by the entries whose names are disjoint, then the abort, the finish and
  the whole run of a commit from its journal on.
\<close>

subsection \<open>All the entries\<close>

fun separate :: "preparedReplacement list \<Rightarrow> bool" where
  "separate [] = True"
| "separate (p # ps) = (slots p \<inter> all_slots ps = {} \<and> separate ps)"

definition goods :: "preparedReplacement list \<Rightarrow> filesystem \<Rightarrow> bool" where
  "goods ps fs \<longleftrightarrow> tidy fs \<and> (\<forall>p \<in> set ps. good p fs)"

definition frame :: "preparedReplacement list \<Rightarrow> world \<Rightarrow> world \<Rightarrow> bool" where
  "frame ps w w' \<longleftrightarrow> goods ps (w_fs w') \<and> away (all_slots ps) (w_fs w) (w_fs w') \<and> transaction_of w' = transaction_of w \<and> w_selection w' = w_selection w"

lemma goods_simps [simp]: "goods [] fs = tidy fs" "goods (p # ps) fs = (good p fs \<and> goods ps fs)"
  by (auto simp: goods_def)

lemma good_tidy: "good p fs \<Longrightarrow> tidy fs"
  by (simp add: good_def settled_def)

lemma confined_goods:
  assumes "confined p w w1" "goods ps (w_fs w)" "slots p \<inter> all_slots ps = {}"
  shows "goods ps (w_fs w1)"
proof -
  have g: "good p (w_fs w1)" and a: "away (all_slots [p]) (w_fs w) (w_fs w1)" using assms(1) by (simp_all add: confined_def)
  have "good q (w_fs w1)" if q: "q \<in> set ps" for q
  proof (rule good_transfer [OF _ _ a])
    show "good q (w_fs w)" using assms(2) q by (simp add: goods_def)
    show "slots q \<inter> all_slots [p] = {}" using assms(3) q by (auto simp: all_slots_def)
  qed (use g good_tidy in auto)
  then show ?thesis using good_tidy [OF g] by (simp add: goods_def)
qed

lemma frame_same: "goods ps (w_fs w) \<Longrightarrow> same_world w w' \<Longrightarrow> frame ps w w'"
  by (simp add: frame_def same_world_def)

lemma frame_trans: "frame ps w w1 \<Longrightarrow> frame ps w1 w2 \<Longrightarrow> frame ps w w2"
  using away_trans [of "all_slots ps" _ _ "all_slots ps"] by (auto simp: frame_def)

lemma frame_head:
  assumes "confined p w w1" "goods ps (w_fs w)" "slots p \<inter> all_slots ps = {}"
  shows "frame (p # ps) w w1"
  using assms confined_goods [OF assms] away_mono [of "slots p" "w_fs w" "w_fs w1"] by (auto simp: frame_def confined_def)

lemma frame_cons:
  assumes "confined p w w1" "frame ps w1 w2" "slots p \<inter> all_slots ps = {}"
  shows "frame (p # ps) w w2"
proof -
  have a: "away (all_slots ps) (w_fs w1) (w_fs w2)" and g: "goods ps (w_fs w2)" using assms(2) by (simp_all add: frame_def)
  have "good p (w_fs w2)"
    by (rule good_transfer [OF _ assms(3) a]) (use assms(1) g in \<open>auto simp: confined_def goods_def\<close>)
  moreover have "away (slots p \<union> all_slots ps) (w_fs w) (w_fs w2)"
    by (rule away_trans [OF _ a]) (use assms(1) in \<open>simp add: confined_def\<close>)
  ultimately show ?thesis using assms g by (simp add: frame_def confined_def)
qed

text \<open>What happens to the other entries while one is edited, and to one while the others are.\<close>

lemma others_old:
  assumes "confined p w w1" "slots p \<inter> all_slots ps = {}" "q \<in> set ps"
  shows "old_file q (w_fs w) (w_fs w1)" "staged_file m N q (w_fs w) \<Longrightarrow> staged_file m N q (w_fs w1)" "clean_slot q (w_fs w1) = clean_slot q (w_fs w)"
proof -
  have a: "away (slots p) (w_fs w) (w_fs w1)" using assms(1) by (simp add: confined_def)
  have d: "slots q \<inter> slots p = {}" using assms(2,3) by (auto simp: all_slots_def)
  show "old_file q (w_fs w) (w_fs w1)" "staged_file m N q (w_fs w) \<Longrightarrow> staged_file m N q (w_fs w1)" "clean_slot q (w_fs w1) = clean_slot q (w_fs w)"
    using statuses_away [OF a d] by auto
qed

lemma one_kept:
  assumes "frame ps w1 w2" "slots p \<inter> all_slots ps = {}"
  shows "old_file p (w_fs w1) (w_fs w2)" "new_file N p (w_fs w2) = new_file N p (w_fs w1)" "clean_slot p (w_fs w2) = clean_slot p (w_fs w1)"
    "staged_file m N p (w_fs w1) \<Longrightarrow> staged_file m N p (w_fs w2)"
  using statuses_away [OF _ assms(2)] assms(1) by (auto simp: frame_def)

lemma old_new: "old_file p fs fs' \<Longrightarrow> new_file N p fs \<Longrightarrow> new_file N p fs'"
  by (fastforce simp: old_file_def new_file_def)

subsection \<open>Staging all\<close>

definition staging :: "nat \<Rightarrow> TransactionManager \<Rightarrow> preparedReplacement list \<Rightarrow> world \<Rightarrow> (ws_error \<times> bool) option \<times> preparedReplacement list \<Rightarrow> world \<Rightarrow> bool" where
  "staging N m ps w = (\<lambda>(r, ps') w'. frame ps w w' \<and> list_all2 with_candidate ps ps' \<and> (\<forall>p \<in> set ps. old_file p (w_fs w) (w_fs w')) \<and>
     rows_bound N w' \<and> (r = None \<longrightarrow> (\<forall>p \<in> set ps'. staged_file m N p (w_fs w'))) \<and> (\<forall>e. r = Some (e, False) \<longrightarrow> ErrRecoveryRequired \<in> set e))"

lemma wp_stage_both:
  assumes q: "quiet m" and s: "settled p (w_fs w)" and r: "rows_bound N w" and n: "N \<le> fs_next (w_fs w)"
    and failed: "\<And>e p' w'. inside p w w' \<Longrightarrow> rows_bound N w' \<Longrightarrow> with_candidate p p' \<Longrightarrow> Q (Some e, p') w'"
    and staged: "\<And>p' w' k. inside p w w' \<Longrightarrow> rows_bound N w' \<Longrightarrow> with_candidate p p' \<Longrightarrow> N \<le> snd k \<Longrightarrow> names w' (stage_of p) = Some k \<Longrightarrow>
      names w' (trash_of p) = names w (trash_of p) \<Longrightarrow> candidate_file m p' k (w_fs w') \<Longrightarrow> Q (None, p') w'"
  shows "wp (stageCandidate m t p) Q w"
proof -
  have "wp (stageCandidate m t p) (\<lambda>x w'. rows_bound N w' \<longrightarrow> Q x w') w"
  proof (rule wp_stageCandidate [OF q s], goal_cases)
    case (1 e p' w')
    then show ?case using failed by blast
  next
    case (2 p' w' k)
    have "N \<le> snd k" using n 2(3) by simp
    with 2 show ?case using staged by blast
  qed
  from wp_and [OF this stageCandidate_bound [OF q s r n]] show ?thesis by (rule wp_mono) simp
qed

lemma wp_stage_all:
  assumes "quiet m" "separate ps" "goods ps (w_fs w)" "\<forall>p \<in> set ps. names w (trash_of p) = None" "rows_bound N w" "N \<le> fs_next (w_fs w)"
  shows "wp (stage_all m t index ps) (staging N m ps w) w"
  using assms(2-6)
proof (induction ps arbitrary: index w)
  case Nil
  then show ?case by (simp add: staging_def frame_def)
next
  case (Cons p ps)
  have g: "good p (w_fs w)" "goods ps (w_fs w)" and d: "slots p \<inter> all_slots ps = {}" "separate ps"
    and tr: "names w (trash_of p) = None" and rb: "rows_bound N w" "N \<le> fs_next (w_fs w)" using Cons.prems by simp_all
  have s: "settled p (w_fs w)" using g by (simp add: good_def)
  show ?case unfolding stage_all.simps wp_bind
  proof (rule wp_stage_both [OF assms(1) s rb], goal_cases)
    case (1 e p' w1)
    have c: "confined p w w1" by (rule inside_confined [OF g(1) 1(1)])
    have "old_file q (w_fs w) (w_fs w1)" if "q \<in> set (p # ps)" for q
      using that inside_old [OF g(1) 1(1)] others_old(1) [OF c d(1)] by auto
    with 1 frame_head [OF c g(2) d(1)] show ?case by (auto simp: staging_def list_all2_refl)
  next
    case (2 p' w1 k)
    have c: "confined p w w1" by (rule inside_confined [OF g(1) 2(1)])
    have o: "old_file q (w_fs w) (w_fs w1)" if "q \<in> set (p # ps)" for q
      using that inside_old [OF g(1) 2(1)] others_old(1) [OF c d(1)] by auto
    have names': "stage_of p' = stage_of p" "trash_of p' = trash_of p" using 2(3) same_slot_names by (auto simp: with_candidate_def)
    have st: "staged_file m N p' (w_fs w1)" using 2(4-7) tr by (simp add: staged_file_def names')
    have tr': "\<forall>q \<in> set ps. names w1 (trash_of q) = None"
    proof
      fix q assume q: "q \<in> set ps"
      have "trash_of q \<notin> slots p" using q d(1) by (auto simp: all_slots_def slots_def)
      with q c Cons.prems(3) show "names w1 (trash_of q) = None" by (auto simp: confined_def away_def)
    qed
    have IH: "wp (stage_all m t (Suc index) ps) (staging N m ps w1) w1"
      by (rule Cons.IH [OF d(2) confined_goods [OF c g(2) d(1)] tr' 2(2)]) (use c rb(2) in \<open>simp add: confined_def away_def\<close>)
    show ?case
    proof (cases "tm_injector m FailureAfterStage (int index)")
      case True
      with 2(2,3) o frame_head [OF c g(2) d(1)] show ?thesis by (auto simp: staging_def list_all2_refl)
    next
      case False
      have "staging N m (p # ps) w (r, p' # ps') w2" if "staging N m ps w1 (r, ps') w2" for r ps' w2
      proof -
        have f: "frame ps w1 w2" "list_all2 with_candidate ps ps'" using that by (simp_all add: staging_def)
        have "old_file q (w_fs w) (w_fs w2)" if "q \<in> set (p # ps)" for q
          using o [OF that] that one_kept(1) [OF f(1) d(1)] \<open>staging N m ps w1 (r, ps') w2\<close>
          by (auto simp: staging_def intro: old_trans)
        moreover have "staged_file m N p' (w_fs w2)"
          using one_kept(4) [of ps w1 w2 p' m] f(1) d(1) st slot_statuses(1) [OF 2(3)] by simp
        ultimately show ?thesis using that 2(3) frame_cons [OF c f(1) d(1)] by (auto simp: staging_def)
      qed
      then show ?thesis using False by (auto intro!: wp_mono [OF IH] split: prod.split)
    qed
  qed
qed

subsection \<open>Activating all\<close>

definition activations :: "nat \<Rightarrow> preparedReplacement list \<Rightarrow> bool \<Rightarrow> world \<Rightarrow> (ws_error \<times> bool) option \<times> preparedReplacement list \<Rightarrow> world \<Rightarrow> bool" where
  "activations N ps replaced w = (\<lambda>(r, ps') w'. frame ps w w' \<and> list_all2 same_slot ps ps' \<and> rows_bound N w' \<and>
     (\<forall>p \<in> set ps. old_file p (w_fs w) (w_fs w') \<or> new_file N p (w_fs w')) \<and>
     (r = None \<longrightarrow> (\<forall>p \<in> set ps. new_file N p (w_fs w') \<and> clean_slot p (w_fs w'))) \<and>
     (\<forall>e. r = Some (e, True) \<longrightarrow> \<not> replaced \<and> (\<forall>p \<in> set ps. old_file p (w_fs w) (w_fs w'))) \<and>
     (\<forall>e. r = Some (e, False) \<longrightarrow> ErrRecoveryRequired \<in> set e))"

text \<open>The targets that exist are older than the edit.\<close>

definition older :: "nat \<Rightarrow> preparedReplacement list \<Rightarrow> filesystem \<Rightarrow> bool" where
  "older N ps fs \<longleftrightarrow> (\<forall>p \<in> set ps. \<forall>k. fs_names fs (target_of p) = Some k \<longrightarrow> below N (snd k))"

lemma older_old: "older N ps fs \<Longrightarrow> \<forall>p \<in> set ps. old_file p fs fs' \<Longrightarrow> older N ps fs'"
  by (auto simp: older_def old_file_def)

lemma wp_activate_all:
  assumes "quiet m" "separate ps" "goods ps (w_fs w)" "\<forall>p \<in> set ps. staged_file m N p (w_fs w)" "rows_bound N w" "older N ps (w_fs w)"
  shows "wp (activate_all m t index replaced ps) (activations N ps replaced w) w"
  using assms(2-6)
proof (induction ps arbitrary: index replaced w)
  case Nil
  then show ?case by (simp add: activations_def frame_def)
next
  case (Cons p ps)
  have g: "good p (w_fs w)" "goods ps (w_fs w)" and d: "slots p \<inter> all_slots ps = {}" "separate ps"
    and st: "staged_file m N p (w_fs w)" using Cons.prems by simp_all
  have rb: "rows_bound N w" "\<And>k. names w (target_of p) = Some k \<Longrightarrow> below N (snd k)" using Cons.prems(4,5) by (simp_all add: older_def)
  show ?case
  proof (cases "tm_injector m FailureBeforeReplace (int index)")
    case True
    with Cons.prems show ?thesis by (auto simp: activations_def list_all2_refl frame_def)
  next
    case False
    have ac: "wp (activateCandidate m t p) (\<lambda>_ w'. rows_bound N w') w"
      by (rule activateCandidate_bound [OF assms(1) g(1) st rb(1)]) (rule rb(2))
    show ?thesis unfolding activate_all.simps if_not_P [OF False] wp_bind
    proof (rule wp_mono [OF wp_and [OF wp_activateCandidate [OF assms(1) g(1) st] ac]], goal_cases)
      case (1 rp w1)
      obtain r p' where rp: "rp = (r, p')" by force
      have c: "confined p w w1" and sl: "same_slot p p'" using 1 by (simp_all add: activation_def rp)
      have o: "old_file q (w_fs w) (w_fs w1)" if "q \<in> set ps" for q by (rule others_old(1) [OF c d(1) that])
      show ?case
      proof (cases r)
        case (Some e)
        with 1 rp o frame_head [OF c g(2) d(1)] sl show ?thesis by (auto simp: activations_def activation_def list_all2_refl)
      next
        case None
        then have n: "new_file N p (w_fs w1)" "clean_slot p (w_fs w1)" using 1 by (simp_all add: activation_def rp)
        have "\<forall>q \<in> set ps. staged_file m N q (w_fs w1)" using others_old(2) [OF c d(1)] Cons.prems(3) by auto
        moreover have "older N ps (w_fs w)" using Cons.prems(5) by (simp add: older_def)
        then have "older N ps (w_fs w1)" by (rule older_old) (use o in blast)
        ultimately have IH: "wp (activate_all m t (Suc index) True ps) (activations N ps True w1) w1"
          using conjunct2 [OF 1] by (intro Cons.IH [OF d(2) confined_goods [OF c g(2) d(1)]])
        have "activations N (p # ps) replaced w (r, p' # ps') w2" if a: "activations N ps True w1 (r, ps') w2" for r ps' w2
        proof -
          have f: "frame ps w1 w2" "list_all2 same_slot ps ps'" using a by (simp_all add: activations_def)
          have "new_file N p (w_fs w2)" "clean_slot p (w_fs w2)" using one_kept(2,3) [OF f(1) d(1)] n by simp_all
          moreover have "old_file q (w_fs w) (w_fs w2) \<or> new_file N q (w_fs w2)" if "q \<in> set ps" for q
            using a that o [OF that] by (auto simp: activations_def intro: old_trans)
          ultimately show ?thesis using a sl frame_cons [OF c f(1) d(1)] by (auto simp: activations_def)
        qed
        then show ?thesis by (auto simp: rp None intro!: wp_mono [OF IH] split: prod.split)
      qed
    qed
  qed
qed

subsection \<open>Discarding all\<close>

lemma wp_discard_entries:
  assumes "quiet m" "separate ps" "goods ps (w_fs w)"
  shows "wp (discard_entries m ps r0) (\<lambda>r w'. frame ps w w' \<and> (\<forall>p \<in> set ps. old_file p (w_fs w) (w_fs w')) \<and>
     (r = None \<longrightarrow> r0 = None \<and> (\<forall>p \<in> set ps. clean_slot p (w_fs w')))) w"
  using assms(2-3)
proof (induction ps arbitrary: r0 w)
  case Nil
  then show ?case by (simp add: frame_def)
next
  case (Cons p ps)
  have g: "good p (w_fs w)" "goods ps (w_fs w)" and d: "slots p \<inter> all_slots ps = {}" "separate ps" using Cons.prems by simp_all
  have s: "settled p (w_fs w)" using g by (simp add: good_def)
  show ?case unfolding discard_entries.simps wp_bind
  proof (rule wp_discard_entry [OF assms(1) s], goal_cases)
    case (1 r1 w1)
    have c: "confined p w w1" by (rule inside_confined [OF g(1) 1(1)])
    have o: "old_file q (w_fs w) (w_fs w1)" if "q \<in> set (p # ps)" for q
      using that inside_old [OF g(1) 1(1)] others_old(1) [OF c d(1)] by auto
    have cl: "r1 = None \<Longrightarrow> clean_slot p (w_fs w1)" using 1(2) by (simp add: clean_slot_def)
    show ?case
    proof (rule wp_mono [OF Cons.IH [OF d(2) confined_goods [OF c g(2) d(1)]]], goal_cases)
      case (1 r w2)
      then have f: "frame ps w1 w2" by simp
      have "old_file q (w_fs w) (w_fs w2)" if "q \<in> set (p # ps)" for q
        using o [OF that] that one_kept(1) [OF f d(1)] 1 by (auto intro: old_trans)
      with 1 frame_cons [OF c f d(1)] cl one_kept(3) [OF f d(1)] show ?case by (auto split: option.splits)
    qed
  qed
qed

subsection \<open>The commit\<close>

lemma slot_same:
  assumes "same_slot p p'"
  shows "slots p' = slots p" "good p' fs = good p fs" "old_file p' fs0 fs = old_file p fs0 fs" "new_file N p' fs = new_file N p fs"
    "clean_slot p' fs = clean_slot p fs"
  using assms same_slot_names [OF assms]
  by (auto simp: slots_def good_def proper_def settled_def owned_def old_file_def new_file_def clean_slot_def same_slot_def)

lemma same_slots_all:
  assumes "list_all2 same_slot ps ps'" "\<And>p p'. same_slot p p' \<Longrightarrow> P p' = P p"
  shows "(\<forall>p \<in> set ps'. P p) = (\<forall>p \<in> set ps. P p)"
  using assms(1) by (induction rule: list_all2_induct) (simp_all add: assms(2))

lemma same_slots:
  assumes "list_all2 same_slot ps ps'"
  shows "all_slots ps' = all_slots ps" "separate ps' = separate ps" "goods ps' fs = goods ps fs" "frame ps' w w' = frame ps w w'"
    "(\<forall>p \<in> set ps'. old_file p fs0 fs) = (\<forall>p \<in> set ps. old_file p fs0 fs)"
    "(\<forall>p \<in> set ps'. new_file N p fs) = (\<forall>p \<in> set ps. new_file N p fs)"
    "(\<forall>p \<in> set ps'. clean_slot p fs) = (\<forall>p \<in> set ps. clean_slot p fs)"
proof -
  show a: "all_slots ps' = all_slots ps" using assms by (induction rule: list_all2_induct) (simp_all add: slot_same)
  show g: "goods ps' fs = goods ps fs" for fs using assms by (induction rule: list_all2_induct) (simp_all add: slot_same)
  show "frame ps' w w' = frame ps w w'" by (simp add: frame_def a g)
  have "separate ps' = separate ps \<and> all_slots ps' = all_slots ps"
    using assms by (induction rule: list_all2_induct) (simp_all add: slot_same)
  then show "separate ps' = separate ps" ..
qed (rule same_slots_all [OF assms], simp add: slot_same)+

lemma candidates_slots: "list_all2 with_candidate ps ps' \<Longrightarrow> list_all2 same_slot ps ps'"
  by (erule list_all2_mono) (simp add: with_candidate_def)

lemma older_slots: "list_all2 same_slot ps ps' \<Longrightarrow> older N ps' fs = older N ps fs"
  unfolding older_def by (rule same_slots_all) (simp_all add: same_slot_names)

text \<open>Looking, and setting the phase, keep the rows of the journal.\<close>

definition still :: "world \<Rightarrow> world \<Rightarrow> bool" where
  "still w w' \<longleftrightarrow> same_world w w' \<and> jdb_files (w_journal w') = jdb_files (w_journal w)"

lemma still_step [simp]: "still w w" "still w (w\<lparr>w_step := n\<rparr>)"
  by (simp_all add: still_def)

lemma still_trans: "still w w' \<Longrightarrow> still w' w'' \<Longrightarrow> still w w''"
  by (simp add: still_def same_world_def)

lemma still_rows: "still w w' \<Longrightarrow> rows_bound N w' = rows_bound N w"
  by (simp add: still_def rows_bound_def)

lemma looks_still: "looks c \<Longrightarrow> (\<And>r w'. still w w' \<Longrightarrow> Q r w') \<Longrightarrow> wp c Q w"
  by (erule looks_wp) simp

lemma phase_still:
  assumes "quiet m" "\<And>r w'. still w w' \<Longrightarrow> Q r w'"
  shows "wp (SetPhase m t phase) Q w"
proof -
  have 1: "wp (SetPhase m t phase) (\<lambda>_ w'. same_world w w') w" by (rule records_same [OF records_updates(3) [OF assms(1)]])
  have 2: "wp (SetPhase m t phase) (\<lambda>_ w'. jdb_files (w_journal w') = jdb_files (w_journal w)) w" by (rule silent_wp [OF silent_SetPhase [OF assms(1)]])
  show ?thesis by (rule wp_mono [OF wp_and [OF 1 2]]) (simp add: assms(2) still_def)
qed

text \<open>The end of a transaction.\<close>

lemma wp_transact:
  assumes "quiet m" "\<And>e n. Q (Inl e) (w\<lparr>w_step := n\<rparr>)"
    and "\<And>n a w'. f (w\<lparr>w_step := n\<rparr>) = Inr (a, w') \<Longrightarrow> Q (Inr a) w' \<and> Q (Inl plain_error) w'"
  shows "wp (transact m f) Q w"
  unfolding transact_def wp_bind
  by (rule wp_callI [OF assms(1)]) (auto simp: assms(2) split: sum.splits prod.splits dest!: assms(3))

lemma wp_Clear_journal:
  assumes "quiet m"
  shows "wp (Clear_journal m t) (\<lambda>r w'. w_fs w' = w_fs w \<and> w_selection w' = w_selection w \<and>
     (transaction_of w' = transaction_of w \<or> transaction_of w' = None) \<and> (rows_bound N w \<longrightarrow> rows_bound N w')) w"
  unfolding Clear_journal_def
  by (auto intro!: wp_transact [OF assms]
      simp: on_journal_def delete_journal_def result_simps empty_journal_def transaction_of_def rows_bound_def split: if_splits)

lemma wp_FinalizeEdit:
  assumes "quiet m"
  shows "wp (FinalizeEdit m s t) (\<lambda>r w'. w_fs w' = w_fs w \<and>
     (r \<noteq> None \<and> w_selection w' = w_selection w \<and> transaction_of w' = transaction_of w \<or> w_selection w' = Some s \<and> transaction_of w' = None) \<and> (rows_bound N w \<longrightarrow> rows_bound N w')) w"
  unfolding FinalizeEdit_def
  by (auto intro!: wp_transact [OF assms] simp: finalize_statements_def delete_journal_def result_simps empty_journal_def transaction_of_def rows_bound_def
      split: if_splits)

definition committing :: "nat \<Rightarrow> preparedReplacement list \<Rightarrow> world \<Rightarrow> (ws_error, Selection) result \<Rightarrow> world \<Rightarrow> bool" where
  "committing N ps w r w' \<longleftrightarrow>
     rows_bound N w' \<and> goods ps (w_fs w') \<and> away (all_slots ps) (w_fs w) (w_fs w') \<and>
     (\<forall>p \<in> set ps. old_file p (w_fs w) (w_fs w') \<or> new_file N p (w_fs w')) \<and>
     (transaction_of w' = transaction_of w \<or> transaction_of w' = None \<and> (\<forall>p \<in> set ps. clean_slot p (w_fs w')) \<and>
        ((\<forall>p \<in> set ps. old_file p (w_fs w) (w_fs w')) \<or> (\<forall>p \<in> set ps. new_file N p (w_fs w')))) \<and>
     (w_selection w' = w_selection w \<or> (\<forall>p \<in> set ps. new_file N p (w_fs w'))) \<and>
     (case r of
        Inr s \<Rightarrow> (\<forall>p \<in> set ps. new_file N p (w_fs w') \<and> clean_slot p (w_fs w')) \<and> w_selection w' = Some s \<and> transaction_of w' = None
      | Inl e \<Rightarrow> ErrRecoveryRequired \<in> set e \<or> (\<forall>p \<in> set ps. old_file p (w_fs w) (w_fs w')))"

lemma wp_abort:
  assumes q: "quiet m" and sep: "separate ps" and f: "frame ps w w1" and o: "\<forall>p \<in> set ps. old_file p (w_fs w) (w_fs w1)"
    and ps': "list_all2 same_slot ps ps'" and rb: "rows_bound N w1"
  shows "wp (abortBeforeReplacement m journal ps' cause) (committing N ps w) w1"
proof -
  note eq = same_slots [OF ps']
  have sep': "separate ps'" and g': "goods ps' (w_fs w1)" using sep f by (simp_all add: eq frame_def)
  show ?thesis unfolding abortBeforeReplacement_def discardPrepared_def wp_on_error
  proof (rule wp_mono [OF wp_and [OF wp_discard_entries [OF q sep' g'] silent_rows [OF silent_discard_entries [OF q] rb]]], goal_cases)
    case (1 r w2)
    have f2: "frame ps w w2" using 1 f by (auto simp: eq intro: frame_trans)
    have o2: "\<forall>p \<in> set ps. old_file p (w_fs w) (w_fs w2)" using 1 o by (auto simp: eq intro: old_trans)
    have fin: "committing N ps w (Inl (b @ cause)) w'"
      if "w_fs w' = w_fs w2" "w_selection w' = w_selection w2" "transaction_of w' = transaction_of w2 \<or> transaction_of w' = None \<and> (\<forall>p \<in> set ps. clean_slot p (w_fs w2))" "rows_bound N w'"
      for b w' using that f2 o2 by (auto simp: committing_def frame_def)
    show ?case
    proof (cases r)
      case (Some e)
      then show ?thesis using fin [of w2 "[ErrRecoveryRequired]"] 1 by simp
    next
      case None
      then have "\<forall>p \<in> set ps. clean_slot p (w_fs w2)" using 1 by (simp add: eq)
      then have "committing N ps w (Inl cause) w'" "committing N ps w (Inl (ErrRecoveryRequired # cause)) w'"
        if "w_fs w' = w_fs w2" "w_selection w' = w_selection w2" "transaction_of w' = transaction_of w2 \<or> transaction_of w' = None" "rows_bound N w2 \<longrightarrow> rows_bound N w'" for w'
        using 1 fin [of w' "[]"] fin [of w' "[ErrRecoveryRequired]"] that by auto
      then show ?thesis unfolding None by (auto intro!: wp_mono [OF wp_Clear_journal [OF q, where N = N]] split: option.split)
    qed
  qed
qed

lemma wp_finish_edit:
  assumes q: "quiet m" and f: "frame ps w w1" and n: "\<forall>p \<in> set ps. new_file N p (w_fs w1) \<and> clean_slot p (w_fs w1)"
    and rb: "rows_bound N w1" and look: "looks inspection"
  shows "wp (on_error (SetPhase m t JournalFinalizing) (\<lambda>_. ret (Inl [ErrRecoveryRequired])) (
     case inject m FailureBeforeFinalize (-1) of Some _ \<Rightarrow> ret (Inl [ErrRecoveryRequired]) | None \<Rightarrow>
     on_result inspection (\<lambda>e. ret (Inl (ErrRecoveryRequired # e))) (\<lambda>selection.
     on_error (FinalizeEdit m selection t) (\<lambda>_. ret (Inl [ErrRecoveryRequired])) (ret (Inr selection))))) (committing N ps w) w1"
proof -
  have rec: "committing N ps w (Inl (ErrRecoveryRequired # e)) w'"
    if "w_fs w' = w_fs w1" "w_selection w' = w_selection w1 \<and> transaction_of w' = transaction_of w1 \<or> transaction_of w' = None" "rows_bound N w'" for e w'
    using that f n by (auto simp: committing_def frame_def)
  have same: "committing N ps w (Inl (ErrRecoveryRequired # e)) w'" if "still w1 w'" for e w'
    using that rec rb still_rows [OF that] by (simp add: still_def same_world_def)
  have fin: "wp (FinalizeEdit m s t) (\<lambda>r. case r of None \<Rightarrow> wp (ret (Inr s)) (committing N ps w) | Some e \<Rightarrow> wp (ret (Inl [ErrRecoveryRequired])) (committing N ps w)) w'"
    if w': "still w1 w'" for s w'
  proof (rule wp_mono [OF wp_FinalizeEdit [OF q, where N = N]], goal_cases)
    case (1 r w2)
    have fs: "w_fs w2 = w_fs w1" and rows: "rows_bound N w2" using 1 w' rb still_rows [OF w'] by (simp_all add: still_def same_world_def)
    have "committing N ps w (Inr s) w2" if "w_selection w2 = Some s" "transaction_of w2 = None"
      using that fs f n rows by (auto simp: committing_def frame_def)
    with 1 rec [OF fs _ rows] w' show ?case by (cases r) (auto simp: still_def same_world_def)
  qed
  show ?thesis unfolding wp_on_error
  proof (rule phase_still [OF q], goal_cases)
    case (1 r w2)
    have "wp inspection
       (\<lambda>r. case r of Inl e \<Rightarrow> wp (ret (Inl (ErrRecoveryRequired # e))) (committing N ps w)
          | Inr s \<Rightarrow> wp (on_error (FinalizeEdit m s t) (\<lambda>_. ret (Inl [ErrRecoveryRequired])) (ret (Inr s))) (committing N ps w)) w2"
    proof (rule looks_still [OF look], goal_cases)
      case (1 r w3)
      have w3: "still w1 w3" by (rule still_trans [OF \<open>still w1 w2\<close> 1])
      show ?case using same [OF w3] fin [OF w3] by (auto split: sum.split)
    qed
    then show ?case using same [OF 1] by (auto split: option.split)
  qed
qed

lemma wp_finish_commit:
  assumes "quiet m" "frame ps w w1" "\<forall>p \<in> set ps. new_file N p (w_fs w1) \<and> clean_slot p (w_fs w1)" "rows_bound N w1"
  shows "wp (finish_commit m plan t audit rs) (committing N ps w) w1"
  unfolding finish_commit_def by (rule wp_finish_edit [OF assms looks_inspectCommitted [OF assms(1)]])

lemma looks_authorize: "quiet m \<Longrightarrow> looks guard \<Longrightarrow> looks (authorize m lease plan guard audit rs prepared)"
  unfolding authorize_def Let_def by (intro looks_intros)

lemma wp_activate_commit:
  assumes q: "quiet m" and sep: "separate ps" and f: "frame ps w w1" and o: "\<forall>p \<in> set ps. old_file p (w_fs w) (w_fs w1)"
    and ps': "list_all2 same_slot ps ps'" and st: "\<forall>p \<in> set ps'. staged_file m N p (w_fs w1)"
    and rb: "rows_bound N w1" and old: "older N ps (w_fs w)"
  shows "wp (State_Monad.bind (activate_all m t 0 False ps') (\<lambda>(result, prepared). case result of
      Some (e, clean) \<Rightarrow> if clean then abortBeforeReplacement m journal prepared e else ret (Inl e)
    | None \<Rightarrow> finish_commit m plan t audit rs)) (committing N ps w) w1"
  unfolding wp_bind
proof -
  note eq = same_slots [OF ps']
  have sep': "separate ps'" and g': "goods ps' (w_fs w1)" using sep f by (simp_all add: eq frame_def)
  have old': "older N ps' (w_fs w1)" using older_old [OF old o] by (simp add: older_slots [OF ps'])
  show "wp (activate_all m t 0 False ps') (\<lambda>a. wp (case a of (result, prepared) \<Rightarrow> case result of
      Some (e, clean) \<Rightarrow> if clean then abortBeforeReplacement m journal prepared e else ret (Inl e)
    | None \<Rightarrow> finish_commit m plan t audit rs) (committing N ps w)) w1"
  proof (rule wp_mono [OF wp_activate_all [OF q sep' g' st rb old']], goal_cases)
    case (1 a w2)
    obtain r ps2 where a: "a = (r, ps2)" by force
    have f2: "frame ps w w2" using 1 f by (auto simp: a activations_def eq intro: frame_trans)
    have ps2: "list_all2 same_slot ps ps2"
      using ps' 1 by (auto simp: a activations_def same_slot_def intro: list_all2_trans [rotated 1, of same_slot ps ps' same_slot])
    have rb2: "rows_bound N w2" using 1 by (simp add: a activations_def)
    have mix: "\<forall>p \<in> set ps. old_file p (w_fs w) (w_fs w2) \<or> new_file N p (w_fs w2)"
      using 1 o same_slots_all [OF ps', of "\<lambda>p. old_file p (w_fs w1) (w_fs w2) \<or> new_file N p (w_fs w2)"]
      by (auto simp: a activations_def slot_same intro: old_trans)
    consider "r = None" | e where "r = Some (e, True)" | e where "r = Some (e, False)" by (metis (full_types) old.prod.exhaust option.exhaust)
    then show ?case
    proof cases
      case 1
      then have "\<forall>p \<in> set ps. new_file N p (w_fs w2) \<and> clean_slot p (w_fs w2)"
        using \<open>activations N ps' False w1 a w2\<close> eq(6) [of N "w_fs w2"] eq(7) [of "w_fs w2"] by (simp add: a activations_def ball_conj_distrib)
      with 1 show ?thesis by (simp add: a wp_finish_commit [OF q f2 _ rb2])
    next
      case (2 e)
      then have "\<forall>p \<in> set ps. old_file p (w_fs w) (w_fs w2)"
        using \<open>activations N ps' False w1 a w2\<close> o eq(5) by (auto simp: a activations_def intro: old_trans)
      with 2 show ?thesis by (simp add: a wp_abort [OF q sep f2 _ ps2 rb2])
    next
      case (3 e)
      then have "ErrRecoveryRequired \<in> set e" using \<open>activations N ps' False w1 a w2\<close> by (simp add: a activations_def)
      with 3 f2 mix rb2 show ?thesis by (simp add: a committing_def frame_def)
    qed
  qed
qed

lemma wp_run_commit:
  assumes q: "quiet m" and gu: "looks guard" and sep: "separate ps" and g: "goods ps (w_fs w)"
    and tr: "\<forall>p \<in> set ps. names w (trash_of p) = None"
    and rb: "rows_bound N w" "N \<le> fs_next (w_fs w)" "older N ps (w_fs w)"
  shows "wp (run_commit m lease plan guard t audit rs journal ps) (committing N ps w) w"
proof (cases "inject m FailureAfterJournal (-1)")
  case (Some e)
  then show ?thesis using g rb by (simp add: run_commit_def committing_def)
next
  case None
  show ?thesis unfolding run_commit_def None option.case wp_bind
  proof (rule wp_mono [OF wp_stage_all [OF q sep g tr rb(1,2)]], goal_cases)
    case (1 a w1)
    obtain r ps' where a: "a = (r, ps')" by force
    have f: "frame ps w w1" and ps': "list_all2 same_slot ps ps'" and o: "\<forall>p \<in> set ps. old_file p (w_fs w) (w_fs w1)"
      and rb1: "rows_bound N w1" using 1 by (simp_all add: a staging_def candidates_slots)
    have ab: "wp (abortBeforeReplacement m journal ps' e) (committing N ps w) w'" if "still w1 w'" for e w'
      using that f o rb1 still_rows [OF that, of N] by (intro wp_abort [OF q sep _ _ ps']) (auto simp: still_def same_world_def frame_def)
    have rec: "committing N ps w (Inl [ErrRecoveryRequired]) w'" if "still w1 w'" for w'
      using that f o rb1 still_rows [OF that, of N] by (auto simp: still_def same_world_def committing_def frame_def)
    show ?case
    proof (cases r)
      case (Some x)
      obtain e clean where x: "x = (e, clean)" by force
      have "committing N ps w (Inl e) w1" if "\<not> clean" using f o that 1 rb1 by (simp add: a Some x staging_def committing_def frame_def)
      then show ?thesis using ab [of w1 e] by (simp add: a Some x)
    next
      case None
      have st: "\<forall>p \<in> set ps'. staged_file m N p (w_fs w1)" using 1 by (simp add: a None staging_def)
      have go: "wp (State_Monad.bind (activate_all m t 0 False ps') (\<lambda>(result, prepared). case result of
            Some (e, clean) \<Rightarrow> if clean then abortBeforeReplacement m journal prepared e else ret (Inl e)
          | None \<Rightarrow> finish_commit m plan t audit rs)) (committing N ps w) w'" if "still w1 w'" for w'
        using that f o st rb1 still_rows [OF that, of N] rb(3) by (intro wp_activate_commit [OF q sep _ _ ps']) (auto simp: still_def same_world_def frame_def)
      have re: "wp (recheckSources m (cp_Sources plan) ps') Q w'" if "\<And>r w''. still w' w'' \<Longrightarrow> Q r w''" for Q w'
        by (rule looks_still [OF looks_recheckSources [OF q]]) (rule that)
      have au: "wp (authorize m lease plan guard audit rs ps') Q w'" if "\<And>r w''. still w' w'' \<Longrightarrow> Q r w''" for Q w'
        by (rule looks_still [OF looks_authorize [OF q gu]]) (rule that)
      have se: "wp (SetPhase m t phase) Q w'" if "\<And>r w''. still w' w'' \<Longrightarrow> Q r w''" for Q w' phase
        by (rule phase_still [OF q]) (rule that)
      show ?thesis
        by (auto simp: a None Let_def simp del: wp_bind intro!: re se au ab rec go split: option.split) (simp_all add: still_def same_world_def)
    qed
  qed
qed
end
