(* ===== verification/Workspace_Atomic.thy ===== *)
theory Workspace_Atomic
  imports Workspace_Edit
begin

text \<open>
  Atomicity of a commit: the names that \<open>prepareJournal\<close> gives to the entries are disjoint, so the run
  of the commit keeps every file outside the plan and leaves each file of the plan either as it was
  or with the whole new content, and all of them alike once the journal is gone.
\<close>

subsection \<open>The prepared entries\<close>

definition staging_name :: "bytes \<Rightarrow> bool" where
  "staging_name name \<longleftrightarrow> take 14 name = ''.acmemux-edit-''"

lemma staging_names: "staging_name (stage_basename t i)" "staging_name (cleanupBasename (stage_basename t i))"
  by (simp_all add: staging_name_def stage_basename_def cleanupBasename_def)

lemma undec_leading_zeros: "undec (replicate n (CHR ''0'') @ s) = undec s"
  by (induction n) (simp_all add: undec_def)

lemma stage_basename_eq [simp]: "stage_basename t i = stage_basename t j \<longleftrightarrow> i = j"
proof
  assume "stage_basename t i = stage_basename t j"
  then have "undec (pad3 (Itoa i)) = undec (pad3 (Itoa j))" by (simp add: stage_basename_def)
  then show "i = j" by (simp add: pad3_def undec_leading_zeros undec_Itoa)
qed simp

lemma cleanup_eq [simp]: "cleanupBasename a = cleanupBasename b \<longleftrightarrow> a = b"
  by (simp add: cleanupBasename_def)

lemma not_staging:
  assumes "\<not> staging_name b"
  shows "b \<noteq> stage_basename t i" "stage_basename t i \<noteq> b" "b \<noteq> cleanupBasename (stage_basename t i)" "cleanupBasename (stage_basename t i) \<noteq> b"
  using assms staging_names by auto

lemma stage_not_cleanup: "stage_basename t i \<noteq> cleanupBasename s"
proof
  assume "stage_basename t i = cleanupBasename s"
  then have "last (stage_basename t i) = last (cleanupBasename s)" by simp
  then have "last (Itoa i) = CHR ''e''" by (simp add: stage_basename_def pad3_def cleanupBasename_def)
  moreover have "is_digit (last (Itoa i))" using Itoa_digits [of i] by (simp add: list_all_iff)
  ultimately show False by (simp add: is_digit_def)
qed

definition entry_for :: "(bytes \<Rightarrow> key option) \<Rightarrow> bytes \<Rightarrow> nat \<Rightarrow> Replacement \<Rightarrow> preparedReplacement \<Rightarrow> bool" where
  "entry_for D t i r p \<longleftrightarrow> pr_replacement p = r \<and> D (Dir_abs (rp_Path r)) = Some (pr_parent p) \<and> pr_stage p = stage_basename t i \<and> pr_ordinal p = int i"

fun entries_for :: "(bytes \<Rightarrow> key option) \<Rightarrow> bytes \<Rightarrow> nat \<Rightarrow> Replacement list \<Rightarrow> preparedReplacement list \<Rightarrow> bool" where
  "entries_for D t i (r # rs) (p # ps) = (entry_for D t i r p \<and> entries_for D t (Suc i) rs ps)"
| "entries_for D t i [] [] = True"
| "entries_for D t i _ _ = False"

definition steady :: "TransactionManager \<Rightarrow> (bytes \<Rightarrow> key option) \<Rightarrow> bool" where
  "steady m D \<longleftrightarrow> (\<forall>n path. tm_directory m n path = D path)"

lemma wp_openReplacementParent:
  assumes "quiet m" "steady m D"
  shows "wp (openReplacementParent m target) (\<lambda>r w'. \<forall>d i. r = Inr (d, i) \<longrightarrow> D (Dir_abs target) = Some d) w"
proof -
  have op: "wp (open_directory m path) Q v" if "\<And>v. Q None v" "\<And>d v. D path = Some d \<Longrightarrow> Q (Some d) v" for path Q v
    unfolding open_directory_def using that assms(2)
    by (intro wp_callI [OF assms(1)]) (cases "D path"; auto simp: steady_def)+
  have st: "wp (fstat_directory m d) Q v" if "\<And>r v. Q r v" for d Q v
    by (rule looks_wp [OF looks_calls(6) [OF assms(1)]]) (rule that)
  have au: "wp (auditPath m path role reference rq) Q v" if "\<And>r v. Q r v" for path role reference rq Q v
    by (rule looks_wp [OF looks_audit [OF assms(1)]]) (rule that)
  show ?thesis unfolding openReplacementParent_def
    by (auto simp: Let_def intro!: au op st split: option.split)
qed

text \<open>The part of an entry that its journal row keeps.\<close>

definition plan_of :: "preparedReplacement \<Rightarrow> int \<times> bytes \<times> bytes" where
  "plan_of p = (pr_ordinal p, rp_Path (pr_replacement p), pr_stage p)"

lemma row_plan_of: "row_plan (journal_file_insert (journal_file_of p)) = plan_of p"
  by (simp add: row_plan_def plan_of_def journal_file_insert_def journal_file_of_def)

text \<open>The original that an entry expects was there before the edit.\<close>

definition original_below :: "nat \<Rightarrow> preparedReplacement \<Rightarrow> bool" where
  "original_below N p \<longleftrightarrow> below N (fi_Inode (sf_Identity (pr_original p)))"

definition sources_below :: "nat \<Rightarrow> SourceSet \<Rightarrow> bool" where
  "sources_below N sources \<longleftrightarrow>
     (\<forall>s \<in> set (ss_Configuration sources # ss_Dotenv sources). below N (fi_Inode (sf_Identity (so_Fingerprint s))))"

lemma sourceForPath_below: "sources_below N sources \<Longrightarrow> sourceForPath sources path = Some s \<Longrightarrow> below N (fi_Inode (sf_Identity (so_Fingerprint s)))"
  by (auto simp: sources_below_def sourceForPath_def find_Some_iff split: if_splits)

lemma wp_prepare_replacement:
  assumes q: "quiet m" and D: "steady m D" and N: "sources_below N sources"
  shows "wp (prepare_replacement m t sources i r) (\<lambda>x w'. \<forall>p. x = Inr p \<longrightarrow> entry_for D t i r p \<and> original_below N p) w"
proof -
  have mi: "wp (missingAt m d name) Q v" if "\<And>r v. Q r v" for d name Q v
    by (rule looks_wp [OF looks_missingAt [OF q]]) (rule that)
  show ?thesis unfolding prepare_replacement_def wp_on_result Let_def
    by (rule wp_mono [OF wp_openReplacementParent [OF q D]])
      (auto intro!: mi simp: entry_for_def original_below_def no_fingerprint_def no_identity_def sourceForPath_below [OF N] split: sum.split option.split)
qed

lemma wp_prepare_replacements:
  assumes q: "quiet m" and D: "steady m D" and N: "sources_below N sources"
  shows "wp (prepare_replacements m t sources i rs) (\<lambda>x w'. \<forall>ps. x = Inr ps \<longrightarrow> entries_for D t i rs ps \<and> list_all (original_below N) ps) w"
proof (induction rs arbitrary: i w)
  case (Cons r rs)
  show ?case unfolding prepare_replacements.simps wp_on_result
  proof (rule wp_mono [OF wp_prepare_replacement [OF q D N]], goal_cases)
    case (1 x w1)
    then show ?case by (auto split: sum.split intro!: wp_mono [OF Cons.IH])
  qed
qed simp

text \<open>The entries and their journal.\<close>

definition journaled :: "nat \<Rightarrow> (bytes \<Rightarrow> key option) \<Rightarrow> bytes \<Rightarrow> Replacement list \<Rightarrow> preparedReplacement list \<Rightarrow> Journal \<Rightarrow> bool" where
  "journaled N D t rs ps j \<longleftrightarrow> entries_for D t 0 rs ps \<and> list_all (original_below N) ps \<and>
     jo_TransactionID j = t \<and> jo_Files j = map journal_file_of ps"

lemma wp_prepareJournal:
  assumes q: "quiet m" and D: "steady m D" and N: "sources_below N sources"
  shows "wp (prepareJournal m t sources rs) (\<lambda>x w'. same_world w w' \<and> (\<forall>ps j. x = Inr (ps, j) \<longrightarrow> journaled N D t rs ps j)) w"
proof (rule wp_and)
  show "wp (prepareJournal m t sources rs) (\<lambda>x w'. same_world w w') w"
    by (rule looks_same [OF looks_prepareJournal [OF q]])
  show "wp (prepareJournal m t sources rs) (\<lambda>x w'. \<forall>ps j. x = Inr (ps, j) \<longrightarrow> journaled N D t rs ps j) w"
    unfolding prepareJournal_def now_def using q
    by (auto simp: Let_def journaled_def intro!: wp_mono [OF wp_prepare_replacements [OF q D N]] split: sum.split)
qed

subsection \<open>A file system that can be edited\<close>

text \<open>The directory entry of a replaced file.\<close>

definition target_name :: "(bytes \<Rightarrow> key option) \<Rightarrow> Replacement \<Rightarrow> key option \<times> bytes" where
  "target_name D r = (D (Dir_abs (rp_Path r)), Base (rp_Path r))"

definition unused :: "filesystem \<Rightarrow> bool" where
  "unused fs \<longleftrightarrow> (\<forall>d name. staging_name name \<longrightarrow> fs_names fs (d, name) = None)"

definition editable :: "(bytes \<Rightarrow> key option) \<Rightarrow> Replacement list \<Rightarrow> filesystem \<Rightarrow> bool" where
  "editable D rs fs \<longleftrightarrow> tidy fs \<and> unused fs \<and> distinct (map (target_name D) rs) \<and>
     (\<forall>r \<in> set rs. \<not> staging_name (Base (rp_Path r)) \<and>
        (\<forall>d. D (Dir_abs (rp_Path r)) = Some d \<longrightarrow> single (d, Base (rp_Path r)) fs))"

lemma entries_apart:
  assumes "entries_for D t j rs ps" "entry_for D t i r p" "i < j" "target_name D r \<notin> target_name D ` set rs"
    "\<forall>r \<in> set rs. \<not> staging_name (Base (rp_Path r))" "\<not> staging_name (Base (rp_Path r))"
  shows "slots p \<inter> all_slots ps = {}"
  using assms
proof (induction D t j rs ps rule: entries_for.induct)
  case (1 D t j s rs q qs)
  have "slots p \<inter> slots q = {}"
    using 1(2-) stage_not_cleanup [of t i "stage_basename t j"] stage_not_cleanup [of t j "stage_basename t i"]
    by (auto simp: slots_def target_of_def stage_of_def trash_of_def entry_for_def target_name_def not_staging)
  with 1 show ?case by auto
qed auto

lemma entries_separate:
  assumes "entries_for D t i rs ps" "distinct (map (target_name D) rs)" "\<forall>r \<in> set rs. \<not> staging_name (Base (rp_Path r))"
  shows "separate ps"
  using assms
proof (induction D t i rs ps rule: entries_for.induct)
  case (1 D t i r rs p ps)
  then have "slots p \<inter> all_slots ps = {}" by (intro entries_apart [of D t "Suc i" rs ps i r p]) auto
  with 1 show ?case by simp
qed auto

lemma entry_good:
  assumes "entry_for D t i r p" "editable D rs fs" "r \<in> set rs"
  shows "good p fs" "clean_slot p fs"
proof -
  have n: "fs_names fs (stage_of p) = None" "fs_names fs (trash_of p) = None"
    using assms staging_names by (auto simp: entry_for_def editable_def unused_def stage_of_def trash_of_def)
  then show "clean_slot p fs" by (simp add: clean_slot_def)
  have "proper p" using assms staging_names
    by (auto simp: proper_def entry_for_def editable_def target_of_def stage_of_def trash_of_def)
  with n assms show "good p fs" by (auto simp: good_def settled_def editable_def entry_for_def target_of_def)
qed

lemma entries_each:
  assumes "entries_for D t i rs ps"
  shows "\<forall>p \<in> set ps. \<exists>i. \<exists>r \<in> set rs. entry_for D t i r p" "\<forall>r \<in> set rs. \<exists>i. \<exists>p \<in> set ps. entry_for D t i r p"
  using assms by (induction D t i rs ps rule: entries_for.induct) (auto, blast+)

subsection \<open>The files of the plan\<close>

text \<open>The content of the file at a path, in a file system whose directories are \<open>D\<close>.\<close>

definition file_at :: "(bytes \<Rightarrow> key option) \<Rightarrow> filesystem \<Rightarrow> bytes \<Rightarrow> bytes option" where
  "file_at D fs path =
     Option.bind (D (Dir_abs path)) (\<lambda>d. Option.bind (fs_names fs (d, Base path)) (\<lambda>k. map_option in_content (fs_inodes fs k)))"

definition kept :: "(bytes \<Rightarrow> key option) \<Rightarrow> filesystem \<Rightarrow> filesystem \<Rightarrow> Replacement \<Rightarrow> bool" where
  "kept D fs fs' r \<longleftrightarrow> file_at D fs' (rp_Path r) = file_at D fs (rp_Path r)"

definition replaced :: "(bytes \<Rightarrow> key option) \<Rightarrow> filesystem \<Rightarrow> Replacement \<Rightarrow> bool" where
  "replaced D fs r \<longleftrightarrow> file_at D fs (rp_Path r) = Some (rp_Content r)"

text \<open>Every name that is neither a target nor a staging name keeps its inode as it was.\<close>

definition others_kept :: "(bytes \<Rightarrow> key option) \<Rightarrow> Replacement list \<Rightarrow> filesystem \<Rightarrow> filesystem \<Rightarrow> bool" where
  "others_kept D rs fs fs' \<longleftrightarrow> (\<forall>d name. \<not> staging_name name \<longrightarrow> (Some d, name) \<notin> target_name D ` set rs \<longrightarrow>
     fs_names fs' (d, name) = fs_names fs (d, name) \<and> (\<forall>k. fs_names fs (d, name) = Some k \<longrightarrow> fs_inodes fs' k = fs_inodes fs k))"

lemma entry_file:
  assumes "entry_for D t i r p"
  shows "old_file p fs fs' \<Longrightarrow> kept D fs fs' r" "new_file N p fs' \<Longrightarrow> replaced D fs' r"
  using assms
  by (cases "fs_names fs (target_of p)"; auto simp: kept_def replaced_def file_at_def old_file_def new_file_def entry_for_def target_of_def)+

lemma entries_file:
  assumes "entries_for D t i rs ps"
  shows "\<forall>p \<in> set ps. old_file p fs fs' \<Longrightarrow> \<forall>r \<in> set rs. kept D fs fs' r" "\<forall>p \<in> set ps. new_file N p fs' \<Longrightarrow> \<forall>r \<in> set rs. replaced D fs' r"
    "\<forall>p \<in> set ps. old_file p fs fs' \<or> new_file N p fs' \<Longrightarrow> \<forall>r \<in> set rs. kept D fs fs' r \<or> replaced D fs' r"
  using entries_each(2) [OF assms] entry_file by blast+

lemma entries_slots:
  assumes "entries_for D t i rs ps" "x \<in> all_slots ps"
  shows "staging_name (snd x) \<and> (\<exists>p \<in> set ps. x = stage_of p \<or> x = trash_of p) \<or> (Some (fst x), snd x) \<in> target_name D ` set rs"
proof -
  obtain p where p: "p \<in> set ps" "x \<in> slots p" using assms(2) by (auto simp: all_slots_def)
  obtain j r where r: "r \<in> set rs" "entry_for D t j r p" using entries_each(1) [OF assms(1)] p(1) by blast
  have "x = target_of p \<or> x = stage_of p \<or> x = trash_of p" using p(2) by (simp add: slots_def)
  then show ?thesis
  proof (elim disjE)
    assume "x = target_of p"
    then have "(Some (fst x), snd x) = target_name D r" using r(2) by (simp add: target_of_def entry_for_def target_name_def)
    with r(1) show ?thesis by blast
  qed (use p(1) r(2) staging_names in \<open>auto simp: stage_of_def trash_of_def entry_for_def\<close>)
qed

lemma entries_frame:
  assumes e: "entries_for D t i rs ps" and a: "away (all_slots ps) fs fs'"
  shows "others_kept D rs fs fs'" "unused fs \<Longrightarrow> \<forall>p \<in> set ps. clean_slot p fs' \<Longrightarrow> \<forall>r \<in> set rs. \<not> staging_name (Base (rp_Path r)) \<Longrightarrow> unused fs'"
proof -
  show "others_kept D rs fs fs'" unfolding others_kept_def
  proof (intro allI impI)
    fix d name assume "\<not> staging_name name" "(Some d, name) \<notin> target_name D ` set rs"
    then have "(d, name) \<notin> all_slots ps" using entries_slots [OF e, of "(d, name)"] by auto
    then show "fs_names fs' (d, name) = fs_names fs (d, name) \<and> (\<forall>k. fs_names fs (d, name) = Some k \<longrightarrow> fs_inodes fs' k = fs_inodes fs k)"
      using a by (simp add: away_def)
  qed
  assume u: "unused fs" and c: "\<forall>p \<in> set ps. clean_slot p fs'" and b: "\<forall>r \<in> set rs. \<not> staging_name (Base (rp_Path r))"
  show "unused fs'" unfolding unused_def
  proof (intro allI impI)
    fix d name assume s: "staging_name name"
    show "fs_names fs' (d, name) = None"
    proof (cases "(d, name) \<in> all_slots ps")
      case True
      then show ?thesis using entries_slots [OF e True] s b c by (auto simp: clean_slot_def target_name_def)
    next
      case False
      then show ?thesis using a u s by (simp add: away_def unused_def)
    qed
  qed
qed

text \<open>What a commit leaves, whatever fails.\<close>

definition committed :: "(bytes \<Rightarrow> key option) \<Rightarrow> Replacement list \<Rightarrow> world \<Rightarrow> (ws_error, Selection) result \<Rightarrow> world \<Rightarrow> bool" where
  "committed D rs w r w' \<longleftrightarrow>
     (\<forall>x \<in> set rs. kept D (w_fs w) (w_fs w') x \<or> replaced D (w_fs w') x) \<and> others_kept D rs (w_fs w) (w_fs w') \<and>
     (case r of
        Inr s \<Rightarrow> (\<forall>x \<in> set rs. replaced D (w_fs w') x) \<and> w_selection w' = Some s \<and> jdb_journal (w_journal w') = None
      | Inl e \<Rightarrow> ErrRecoveryRequired \<in> set e \<or> (\<forall>x \<in> set rs. kept D (w_fs w) (w_fs w') x)) \<and>
     (w_selection w' = w_selection w \<or> (\<forall>x \<in> set rs. replaced D (w_fs w') x)) \<and>
     (jdb_journal (w_journal w') = None \<longrightarrow> unused (w_fs w') \<and>
        ((\<forall>x \<in> set rs. kept D (w_fs w) (w_fs w') x) \<or> (\<forall>x \<in> set rs. replaced D (w_fs w') x)))"

lemma transaction_none: "transaction_of w = None \<longleftrightarrow> jdb_journal (w_journal w) = None"
  by (simp add: transaction_of_def)

lemma committing_committed:
  assumes e: "entries_for D t i rs ps" and ed: "editable D rs (w_fs w)" and c: "committing N ps w1 r w'"
    and w1: "w_fs w1 = w_fs w" "w_selection w1 = w_selection w" "transaction_of w1 \<noteq> None"
  shows "committed D rs w r w'"
proof -
  note ef = entries_file(1) [OF e, of "w_fs w" "w_fs w'"] entries_file(2) [OF e, of N "w_fs w'"] entries_file(3) [OF e, of "w_fs w" "w_fs w'" N]
  have a: "away (all_slots ps) (w_fs w) (w_fs w')" using c w1 by (simp add: committing_def)
  have u: "\<forall>p \<in> set ps. clean_slot p (w_fs w') \<Longrightarrow> unused (w_fs w')"
    using entries_frame(2) [OF e a] ed by (simp add: editable_def)
  have "transaction_of w' = None \<Longrightarrow> unused (w_fs w') \<and> ((\<forall>x \<in> set rs. kept D (w_fs w) (w_fs w') x) \<or> (\<forall>x \<in> set rs. replaced D (w_fs w') x))"
    using c w1 u ef(1,2) by (auto simp: committing_def)
  moreover have "case r of
        Inr s \<Rightarrow> (\<forall>x \<in> set rs. replaced D (w_fs w') x) \<and> w_selection w' = Some s \<and> jdb_journal (w_journal w') = None
      | Inl e \<Rightarrow> ErrRecoveryRequired \<in> set e \<or> (\<forall>x \<in> set rs. kept D (w_fs w) (w_fs w') x)"
    using c w1 ef(1,2) by (auto simp: committing_def transaction_none split: sum.splits)
  moreover have "w_selection w' = w_selection w \<or> (\<forall>x \<in> set rs. replaced D (w_fs w') x)"
    using c w1 ef(2) by (auto simp: committing_def)
  moreover have "\<forall>x \<in> set rs. kept D (w_fs w) (w_fs w') x \<or> replaced D (w_fs w') x"
    using c w1 ef(3) by (auto simp: committing_def)
  ultimately show ?thesis using entries_frame(1) [OF e a] by (simp add: committed_def transaction_none)
qed

lemma early_committed:
  assumes "editable D rs (w_fs w)" "w_fs w' = w_fs w" "w_selection w' = w_selection w"
  shows "committed D rs w (Inl e) w'"
  using assms by (simp add: committed_def kept_def others_kept_def editable_def)

text \<open>An edit whose journal is still there: its files are old or new, its slots are in order, and its rows
  tell original from candidate inodes.\<close>

definition pending :: "nat \<Rightarrow> (bytes \<Rightarrow> key option) \<Rightarrow> Replacement list \<Rightarrow> world \<Rightarrow> world \<Rightarrow> bool" where
  "pending N D rs w w' \<longleftrightarrow> (\<exists>t ps. entries_for D t 0 (sortReplacements rs) ps \<and> transaction_of w' = Some (t, map plan_of ps) \<and>
     separate ps \<and> goods ps (w_fs w') \<and> rows_bound N w' \<and> older N ps (w_fs w) \<and> away (all_slots ps) (w_fs w) (w_fs w') \<and>
     (\<forall>p \<in> set ps. old_file p (w_fs w) (w_fs w') \<or> new_file N p (w_fs w')))"

definition edited :: "nat \<Rightarrow> (bytes \<Rightarrow> key option) \<Rightarrow> Replacement list \<Rightarrow> world \<Rightarrow> (ws_error, Selection) result \<Rightarrow> world \<Rightarrow> bool" where
  "edited N D rs w r w' \<longleftrightarrow> committed D rs w r w' \<and>
     (jdb_journal (w_journal w) = None \<longrightarrow> jdb_journal (w_journal w') = None \<or> pending N D rs w w')"

lemma editable_sort: "editable D (sortReplacements rs) fs = editable D rs fs"
  by (simp add: editable_def sortReplacements_def distinct_map)

lemma committed_sort: "committed D (sortReplacements rs) = committed D rs"
  by (intro ext) (simp add: committed_def others_kept_def sortReplacements_def split: sum.split)

lemma early_edited:
  assumes "editable D rs (w_fs w)" "w_fs w' = w_fs w" "w_selection w' = w_selection w" "transaction_of w' = transaction_of w"
  shows "edited N D rs w (Inl e) w'"
  using early_committed [OF assms(1-3)] assms(4) by (simp add: edited_def flip: transaction_none)

lemma wp_journal_Create:
  assumes "quiet m"
  shows "wp (journal_Create m j) (\<lambda>r w'. w_fs w' = w_fs w \<and> w_selection w' = w_selection w \<and>
     (r \<noteq> None \<and> transaction_of w' = transaction_of w \<or>
      jdb_files (w_journal w') = map journal_file_insert (jo_Files j) \<and>
      transaction_of w' = Some (jo_TransactionID j, map (row_plan \<circ> journal_file_insert) (jo_Files j)))) w"
  unfolding journal_Create_def wp_bind
  by (rule wp_transact [OF assms])
    (auto simp: on_journal_def result_simps Create_journal_def transaction_of_def Let_def journal_insert_def split: if_splits)

lemma inserted_bound: "original_below N p \<Longrightarrow> row_bound N (journal_file_insert (journal_file_of p))"
  by (auto simp: row_bound_def original_below_def journal_file_insert_def journal_file_of_def identity_text_def dest: canonical_Itoa)

lemma editable_older:
  assumes "entries_for D t i rs ps" "editable D rs fs" "N = 0 \<or> N = fs_next fs"
  shows "older N ps fs"
  using assms(2,3) by (auto simp: older_def below_def editable_def tidy_def)

text \<open>From the journal on: a body that edits within the entries.\<close>

lemma wp_journaled:
  assumes q: "quiet m" and ed: "editable D rs (w_fs w)" and j: "journaled N D t (sortReplacements rs) ps j"
    and N: "N = 0 \<or> N = fs_next (w_fs w)"
    and w1: "w_fs w1 = w_fs w" "w_selection w1 = w_selection w" "transaction_of w1 = transaction_of w"
    and body: "\<And>w2. separate ps \<Longrightarrow> goods ps (w_fs w2) \<Longrightarrow> \<forall>p \<in> set ps. names w2 (trash_of p) = None \<Longrightarrow>
       rows_bound N w2 \<Longrightarrow> N \<le> fs_next (w_fs w2) \<Longrightarrow> older N ps (w_fs w2) \<Longrightarrow> wp body (committing N ps w2) w2"
  shows "wp (on_error (journal_Create m j) (\<lambda>e. ret (Inl e)) body) (edited N D rs w) w1"
proof -
  let ?rs = "sortReplacements rs"
  have ed': "editable D ?rs (w_fs w)" using ed by (simp add: editable_sort)
  have e: "entries_for D t 0 ?rs ps" and jt: "jo_TransactionID j = t" "jo_Files j = map journal_file_of ps"
    and ob: "list_all (original_below N) ps" using j by (simp_all add: journaled_def)
  have sep: "separate ps" by (rule entries_separate [OF e]) (use ed' in \<open>simp_all add: editable_def\<close>)
  have g: "goods ps (w_fs w)" and cl: "\<forall>p \<in> set ps. names w (trash_of p) = None"
    using entries_each(1) [OF e] entry_good [OF _ ed'] ed' by (auto simp: goods_def editable_def clean_slot_def)
  have old: "older N ps (w_fs w)" by (rule editable_older [OF e ed' N])
  have pend: "pending N D rs w w'"
    if "goods ps (w_fs w')" "away (all_slots ps) (w_fs w) (w_fs w')" "rows_bound N w'" "transaction_of w' = Some (t, map plan_of ps)"
      "\<forall>p \<in> set ps. old_file p (w_fs w) (w_fs w') \<or> new_file N p (w_fs w')" for w'
    using that e sep old unfolding pending_def by blast
  have created: "wp body (edited N D rs w) w2 \<and> edited N D rs w (Inl x) w2"
    if w2: "w_fs w2 = w_fs w" "w_selection w2 = w_selection w" "transaction_of w2 = Some (t, map plan_of ps)" "rows_bound N w2" for w2 x
  proof
    show "edited N D rs w (Inl x) w2"
      using early_committed [OF ed w2(1,2), of x] pend [of w2] w2 g by (simp add: edited_def)
    have "wp body (committing N ps w2) w2" by (rule body [OF sep]) (use w2 g cl old N in auto)
    then show "wp body (edited N D rs w) w2"
    proof (rule wp_mono, goal_cases)
      case (1 r w')
      have "committed D rs w r w'"
        using committing_committed [OF e ed' 1 w2(1,2)] w2(3) by (simp add: committed_sort)
      moreover have "pending N D rs w w'" if "transaction_of w' \<noteq> None" by (rule pend) (use 1 w2 that in \<open>auto simp: committing_def\<close>)
      ultimately show ?case unfolding edited_def transaction_none by blast
    qed
  qed
  show ?thesis unfolding wp_on_error
  proof (rule wp_mono [OF wp_journal_Create [OF q]], goal_cases)
    case (1 r w2)
    have same: "w_fs w2 = w_fs w" "w_selection w2 = w_selection w" using 1 w1 by simp_all
    consider "r \<noteq> None" "transaction_of w2 = transaction_of w"
      | "jdb_files (w_journal w2) = map (journal_file_insert \<circ> journal_file_of) ps" "transaction_of w2 = Some (t, map plan_of ps)"
      using 1 w1 jt by (auto simp: comp_def row_plan_of)
    then show ?case
    proof cases
      case 1
      then show ?thesis using early_edited [OF ed same 1(2)] by auto
    next
      case 2
      have "rows_bound N w2" using 2(1) ob by (simp add: rows_bound_def list_all_iff inserted_bound)
      from created [OF same 2(2) this] show ?thesis by (auto split: option.split)
    qed
  qed
qed

lemma wp_Commit:
  assumes q: "quiet m" and D: "steady m D" and gu: "\<And>g. guard = Some g \<Longrightarrow> looks g" and ed: "editable D (cp_Replacements plan) (w_fs w)"
    and N: "N = 0 \<or> N = fs_next (w_fs w)" "sources_below N (cp_Sources plan)"
  shows "wp (Commit m lease plan guard) (edited N D (cp_Replacements plan) w) w"
proof -
  let ?rs = "sortReplacements (cp_Replacements plan)" and ?C = "edited N D (cp_Replacements plan) w"
  have early: "?C (Inl e) w'" if "same_world w w'" for e w'
    by (rule early_edited [OF ed]) (use that in \<open>simp_all add: same_world_def\<close>)
  have prep: "wp (or_else (NewTransactionID m) (ret (Inl plain_error)) (\<lambda>t.
       on_result (prepareJournal m t (cp_Sources plan) ?rs) (\<lambda>e. ret (Inl e)) (\<lambda>(prepared, journal).
       on_error (journal_Create m journal) (\<lambda>e. ret (Inl e)) (
       run_commit m lease plan g t audit ?rs journal prepared)))) ?C w1"
    if g: "guard = Some g" and w1: "same_world w w1" for g audit w1
    unfolding wp_or_else
  proof (rule looks_same [OF looks_NewTransactionID [OF q]], goal_cases)
    case (1 t w2)
    then have w2: "same_world w w2" using w1 by (rule same_world_trans [rotated])
    show ?case
    proof (cases t)
      case (Some t)
      show ?thesis unfolding Some option.case wp_on_result
      proof (rule wp_mono [OF wp_prepareJournal [OF q D N(2)]], goal_cases)
        case (1 x w3)
        then have w3: "same_world w w3" using w2 by (blast intro: same_world_trans)
        have "wp (on_error (journal_Create m j) (\<lambda>e. ret (Inl e)) (run_commit m lease plan g t audit ?rs j ps)) ?C w3"
          if "x = Inr (ps, j)" for ps j
        proof (rule wp_journaled [OF q ed _ N(1)])
          show "journaled N D t ?rs ps j" using 1 that by blast
        qed (use w3 in \<open>auto simp: same_world_def intro: wp_run_commit [OF q gu [OF g]]\<close>)
        with early [OF w3] show ?case by (auto simp del: wp_on_error split: sum.split)
      qed
    qed (use early [OF w2] in simp)
  qed
  show ?thesis unfolding Commit_def Let_def without_journal_def wp_on_error
  proof (rule looks_same [OF looks_ready [OF q]], goal_cases)
    case (1 r w1)
    have "wp (AuditCandidate m lease (cp_Sources plan) (cp_CandidateConfiguration plan) (cp_Replacements plan))
       (\<lambda>r. case r of Inl e \<Rightarrow> wp (ret (Inl e)) ?C | Inr audit \<Rightarrow> wp (or_else (NewTransactionID m) (ret (Inl plain_error)) (\<lambda>t.
       on_result (prepareJournal m t (cp_Sources plan) ?rs) (\<lambda>e. ret (Inl e)) (\<lambda>(prepared, journal).
       on_error (journal_Create m journal) (\<lambda>e. ret (Inl e)) (
       run_commit m lease plan g t audit ?rs journal prepared)))) ?C) w2" if "guard = Some g" "same_world w w2" for g w2
      by (rule looks_same [OF looks_AuditCandidate [OF q]])
        (use that prep early same_world_trans [OF that(2)] in \<open>auto simp del: wp_or_else split: sum.split\<close>)
    with 1 early same_world_trans [OF 1] show ?case
      by (auto simp del: wp_or_else intro!: looks_same [OF looks_loads(1) [OF q]] split: option.split sum.split)
  qed
qed

end
