(* ===== verification/Workspace_Recovery.thy ===== *)
theory Workspace_Recovery
  imports Workspace_Commit Workspace_Fingerprint
begin

text \<open>
  Recovery of an interrupted native edit, \<open>src/internal/workspace/recovery_linux.go\<close>: what the files of
  a pending journal are, and the three explicit resolutions.  The guard and the validator are
  computations of the caller; a missing one is \<open>None\<close>.
\<close>

subsection \<open>Classification\<close>

text \<open>The staging or quarantine name in use and what it holds.\<close>

definition stage_at :: "TransactionManager \<Rightarrow> key \<Rightarrow> bytes \<Rightarrow> (ws_error, (bytes \<times> FileIdentity) option) result io" where
  "stage_at m parent stage =
     on_result (ownedStageBasename m parent stage) (\<lambda>e. ret (Inl e)) (\<lambda>owned.
       case owned of
         None \<Rightarrow> ret (Inr None)
       | Some basename \<Rightarrow>
           on_result (identityAt m parent basename) (\<lambda>e. ret (Inl e)) (\<lambda>i. ret (Inr (map_option (Pair basename) i))))"

definition stage_is :: "FileIdentity \<Rightarrow> (bytes \<times> FileIdentity) option \<Rightarrow> bool" where
  "stage_is expected stage \<longleftrightarrow> (case stage of None \<Rightarrow> False | Some (_, i) \<Rightarrow> samePlacement expected i)"

definition target_is_original :: "JournalFile \<Rightarrow> FileIdentity option \<Rightarrow> bool" where
  "target_is_original f target =
     originalPlacement (jf_Original f) (case target of None \<Rightarrow> no_identity | Some i \<Rightarrow> i) (target \<noteq> None)"

definition file_verdict :: "JournalFile \<Rightarrow> FileIdentity option \<Rightarrow> (bytes \<times> FileIdentity) option \<Rightarrow> RecoveryFileState" where
  "file_verdict f target stage =
     (let targetCandidate = (case target of None \<Rightarrow> False | Some i \<Rightarrow> samePlacement (jf_Candidate f) i);
          stageCandidate = stage_is (jf_Candidate f) stage;
          targetOriginal = target_is_original f target;
          stageOriginal = (fi_Exists (jf_Original f) \<and> stage_is (jf_Original f) stage) in
      if map_option fst stage = Some (cleanupBasename (jf_StageBasename f)) then RecoveryFileAmbiguous
      else if \<not> jf_CandidateReady f
      then (if stage = None \<and> targetOriginal \<and> \<not> jf_Applied f then RecoveryFileUnstaged else RecoveryFileAmbiguous)
      else if targetOriginal \<and> stage = None \<and> \<not> jf_Applied f then RecoveryFileUnstaged
      else if targetCandidate \<and> \<not> stageCandidate \<and> (stage = None \<or> stageOriginal) then RecoveryFileApplied
      else if targetOriginal \<and> stageCandidate \<and> \<not> jf_Applied f then RecoveryFileUnapplied
      else RecoveryFileAmbiguous)"

definition same_parent :: "JournalFile \<Rightarrow> FileIdentity \<Rightarrow> bool" where
  "same_parent f i \<longleftrightarrow> fi_Device i = fi_Device (jf_Parent f) \<and> fi_Inode i = fi_Inode (jf_Parent f)"

definition classifyRecoveryFile :: "TransactionManager \<Rightarrow> JournalFile \<Rightarrow> RecoveryFileState io" where
  "classifyRecoveryFile m f =
     or_else (ctx_err m) (ret RecoveryFileAmbiguous) (\<lambda>_.
     on_result (openReplacementParent m (jf_TargetPath f)) (\<lambda>_. ret RecoveryFileAmbiguous) (\<lambda>(parent, parentID).
       if \<not> same_parent f parentID then ret RecoveryFileAmbiguous
       else do {
         target \<leftarrow> identityAt m parent (Base (jf_TargetPath f));
         stage \<leftarrow> stage_at m parent (jf_StageBasename f);
         ret (case (target, stage) of (Inr target, Inr stage) \<Rightarrow> file_verdict f target stage | _ \<Rightarrow> RecoveryFileAmbiguous) }))"

fun classify_files :: "TransactionManager \<Rightarrow> JournalFile list \<Rightarrow> RecoveryFile list io" where
  "classify_files m [] = ret []"
| "classify_files m (f # fs) = do {
     state \<leftarrow> classifyRecoveryFile m f;
     files \<leftarrow> classify_files m fs;
     ret (\<lparr>rf_Ordinal = jf_Ordinal f, rf_Role = jf_Role f, rf_Path = jf_TargetPath f, rf_State = state\<rparr> # files) }"

definition recovery_state :: "RecoveryFile list \<Rightarrow> RecoveryState" where
  "recovery_state files =
     (let applied = length (filter (\<lambda>f. rf_State f = RecoveryFileApplied) files);
          unapplied = length (filter (\<lambda>f. rf_State f = RecoveryFileUnapplied \<or> rf_State f = RecoveryFileUnstaged) files);
          ambiguous = length (filter (\<lambda>f. rf_State f = RecoveryFileAmbiguous) files) in
      if ambiguous \<noteq> 0 then RecoveryAmbiguous
      else if applied = length files then RecoveryApplied
      else if unapplied = length files then RecoveryUnapplied
      else RecoveryPartial)"

definition InspectRecovery :: "TransactionManager \<Rightarrow> Lease \<Rightarrow> (ws_error, Recovery) result io" where
  "InspectRecovery m lease =
     on_error (manager_ready m lease) (\<lambda>e. ret (Inl e)) (
     on_result (journal_Load m) (\<lambda>e. ret (Inl e)) (\<lambda>journal. do {
       files \<leftarrow> classify_files m (jo_Files journal);
       ret (Inr \<lparr>re_TransactionID = jo_TransactionID journal, re_WorkingDirectory = jo_WorkingDirectory journal,
         re_ConfigurationPath = jo_ConfigurationPath journal, re_Bootstrap = jo_Bootstrap journal, re_Phase = jo_Phase journal,
         re_State = recovery_state files, re_Files = files\<rparr>) }))"

subsection \<open>Removing staging files\<close>

definition remove_stage :: "TransactionManager \<Rightarrow> bool \<Rightarrow> JournalFile \<Rightarrow> ws_error option io" where
  "remove_stage m allowOriginal f =
     or_else (ctx_err m) (ret (Some [ContextCanceled])) (\<lambda>_.
     on_result (openReplacementParent m (jf_TargetPath f)) (\<lambda>e. ret (Some e)) (\<lambda>(parent, parentID).
       if \<not> same_parent f parentID then ret (Some [ErrSourceChanged])
       else
         on_result (stage_at m parent (jf_StageBasename f)) (\<lambda>e. ret (Some e)) (\<lambda>stage.
         on_error
           (case stage of
              None \<Rightarrow> ret None
            | Some (basename, i) \<Rightarrow>
                (let candidate = (jf_CandidateReady f \<and> samePlacement (jf_Candidate f) i);
                     original = (allowOriginal \<and> fi_Exists (jf_Original f) \<and> samePlacement (jf_Original f) i) in
                 if \<not> candidate \<and> \<not> original then ret (Some [ErrSourceChanged])
                 else removeOwnedIdentityAt m parent basename (if original then jf_Original f else jf_Candidate f) (jf_Ordinal f)))
           (\<lambda>e. ret (Some e)) (
         or_else (syncDirectory m) (ret (Some plain_error)) (\<lambda>_.
         or_else (close_file m) (ret (Some plain_error)) (\<lambda>_. ret None))))))"

fun remove_stages :: "TransactionManager \<Rightarrow> bool \<Rightarrow> JournalFile list \<Rightarrow> ws_error option io" where
  "remove_stages m allowOriginal [] = ret None"
| "remove_stages m allowOriginal (f # fs) = on_error (remove_stage m allowOriginal f) (\<lambda>e. ret (Some e)) (remove_stages m allowOriginal fs)"

definition removeRecoveryStages :: "TransactionManager \<Rightarrow> Journal \<Rightarrow> bool \<Rightarrow> ws_error option io" where
  "removeRecoveryStages m journal allowOriginal = remove_stages m allowOriginal (jo_Files journal)"

subsection \<open>The current workspace\<close>

text \<open>A path that must be missing below a safe parent, observed twice.\<close>

definition auditMissingTarget ::
    "TransactionManager \<Rightarrow> bytes \<Rightarrow> PathRole \<Rightarrow> bytes \<Rightarrow> (ws_error, CandidatePath \<times> PathEvidence) result io" where
  "auditMissingTarget m target role reference =
     (if \<not> validateSelectedPath target then ret (Inl [ErrInvalidEdit])
      else do {
        parent \<leftarrow> auditPath m (Dir_abs target) RoleWorkspace [] directory_requirements;
        if \<not> safe_audit parent then ret (Inl [ErrInvalidEdit])
        else do {
          missing \<leftarrow> auditPath m target role reference regular_requirements;
          if pe_Exists (ap_evidence missing) \<or> pe_Type (ap_evidence missing) \<noteq> PathTypeMissing then ret (Inl [ErrSourceChanged])
          else do {
            confirmedParent \<leftarrow> auditPath m (Dir_abs target) RoleWorkspace [] directory_requirements;
            confirmedMissing \<leftarrow> auditPath m target role reference regular_requirements;
            if \<not> pe_Safe (ap_evidence confirmedParent) \<or> \<not> samePathPlacementEvidence (ap_evidence parent) (ap_evidence confirmedParent)
               \<or> pe_Exists (ap_evidence confirmedMissing) \<or> pe_Type (ap_evidence confirmedMissing) \<noteq> PathTypeMissing
               \<or> \<not> samePathAncestorEvidence (ap_evidence missing) (ap_evidence confirmedMissing)
            then ret (Inl [ErrSourceChanged])
            else ret (Inr (\<lparr>ca_Role = role, ca_Reference = reference, ca_Path = target, ca_Exists = False, ca_WillCreate = True,
                   ca_Evidence = ap_evidence missing\<rparr>, ap_evidence parent)) } } })"

text \<open>\<open>filepath.Join\<close> of a directory and a name.\<close>

definition Join_name :: "bytes \<Rightarrow> bytes \<Rightarrow> bytes" where
  "Join_name directory name = Clean_abs (directory @ [slash] @ name)"

text \<open>That no workspace is selected, as the creation of one requires.\<close>

definition without_selection :: "TransactionManager \<Rightarrow> (ws_error \<Rightarrow> 'a io) \<Rightarrow> 'a io \<Rightarrow> 'a io" where
  "without_selection m h k = do {
     r \<leftarrow> selection_Load m;
     case r of
       Inr _ \<Rightarrow> h [ErrSourceChanged]
     | Inl e \<Rightarrow> if ErrNoSelection \<notin> set e then h e else k }"

definition recovery_request :: "Journal \<Rightarrow> ConfigurationSource \<Rightarrow> Request" where
  "recovery_request journal source =
     \<lparr>rq_WorkingDirectory = jo_WorkingDirectory journal,
      rq_ConfigurationPath = (if source = ConfigurationExplicit then jo_ConfigurationPath journal else [])\<rparr>"

definition read_recovery_source ::
    "TransactionManager \<Rightarrow> Journal \<Rightarrow> ConfigurationSource \<Rightarrow> (ws_error, Selection \<times> SourceSet) result io" where
  "read_recovery_source m journal source =
     on_error
       (if source \<noteq> ConfigurationExplicit \<and> jo_Bootstrap journal \<and> source = ConfigurationConventionalYML
        then do {
          r \<leftarrow> auditMissingTarget m (Join_name (jo_WorkingDirectory journal) ''.lego.yaml'') RoleConfiguration [];
          ret (case r of Inl _ \<Rightarrow> Some [ErrRecoveryRequired] | Inr _ \<Rightarrow> None) }
        else ret None) (\<lambda>e. ret (Inl e)) (
     on_result (inspector_Inspect m (recovery_request journal source)) (\<lambda>_. ret (Inl [ErrRecoveryRequired])) (\<lambda>review.
       if \<not> rv_Adoptable review \<or> pe_Path (rv_Configuration review) \<noteq> jo_ConfigurationPath journal then ret (Inl [ErrRecoveryRequired])
       else do {
         t \<leftarrow> now m;
         let selection = \<lparr>sl_Review = review, sl_ReviewedAt = reviewed_at t review\<rparr> in
         on_result (snapshotSelection m selection) (\<lambda>e. ret (Inl e)) (\<lambda>sources. ret (Inr (selection, sources))) }))"

definition readRecoveryCurrent :: "TransactionManager \<Rightarrow> Journal \<Rightarrow> (ws_error, Selection \<times> SourceSet) result io" where
  "readRecoveryCurrent m journal =
     (if jo_Bootstrap journal then without_selection m (\<lambda>e. ret (Inl e)) else (\<lambda>k. k)) (
     if jo_ConfigurationSource journal = ConfigurationUnset
     then on_result (selection_Load m) (\<lambda>e. ret (Inl e)) (\<lambda>prior.
            read_recovery_source m journal (rv_ConfigurationSource (sl_Review prior)))
     else read_recovery_source m journal (jo_ConfigurationSource journal))"

subsection \<open>What a finalization may have changed\<close>

definition sameRecoveryPathUnlessTargeted :: "PathEvidence \<Rightarrow> PathEvidence \<Rightarrow> bytes list \<Rightarrow> bool" where
  "sameRecoveryPathUnlessTargeted prior current targets =
     (if pe_Path prior \<noteq> pe_Path current then False
      else if pe_Path prior \<in> set targets then samePathAncestorEvidence prior current
      else samePathPlacementEvidence prior current)"

text \<open>A Go map from paths to evidence, filled in order: the last entry of a path stays.\<close>

definition evidence_at :: "PathEvidence list \<Rightarrow> bytes \<Rightarrow> PathEvidence option" where
  "evidence_at es path = find (\<lambda>e. pe_Path e = path) (rev es)"

text \<open>One path that is a key of the map of earlier or of current dotenv files.\<close>

definition dotenv_boundary :: "bytes list \<Rightarrow> PathEvidence list \<Rightarrow> PathEvidence list \<Rightarrow> bytes \<Rightarrow> bool" where
  "dotenv_boundary targets prior current path =
     (case (evidence_at prior path, evidence_at current path) of
        (Some old, Some new) \<Rightarrow> if path \<in> set targets then samePathAncestorEvidence old new else samePathPlacementEvidence old new
      | _ \<Rightarrow> path \<in> set targets)"

definition samePreEditRecoveryBoundary :: "Review \<Rightarrow> Review \<Rightarrow> Journal \<Rightarrow> bool" where
  "samePreEditRecoveryBoundary prior current journal \<longleftrightarrow>
     rv_ConfigurationSource prior = rv_ConfigurationSource current \<and>
     samePathPlacementEvidence (rv_WorkingDirectory prior) (rv_WorkingDirectory current) \<and>
     samePathPlacementEvidence (rv_Storage prior) (rv_Storage current) \<and>
     samePathPlacementEvidenceSlice (rv_Webroots prior) (rv_Webroots current) \<and>
     (let targets = map jf_TargetPath (jo_Files journal) in
      sameRecoveryPathUnlessTargeted (rv_Configuration prior) (rv_Configuration current) targets \<and>
      list_all (dotenv_boundary targets (rv_DotenvFiles prior) (rv_DotenvFiles current)) (map pe_Path (rv_DotenvFiles prior)) \<and>
      list_all (dotenv_boundary targets (rv_DotenvFiles prior) (rv_DotenvFiles current)) (map pe_Path (rv_DotenvFiles current)))"

definition sameSourceSets :: "(bytes \<Rightarrow> bytes) \<Rightarrow> SourceSet \<Rightarrow> SourceSet \<Rightarrow> bool" where
  "sameSourceSets sha256 left right \<longleftrightarrow>
     length (ss_Dotenv left) = length (ss_Dotenv right) \<and>
     ReviewFingerprint sha256 (sl_Review (ss_Selection left)) = ReviewFingerprint sha256 (sl_Review (ss_Selection right)) \<and>
     sameSourceFingerprint (so_Fingerprint (ss_Configuration left)) (so_Fingerprint (ss_Configuration right)) \<and>
     list_all2 (\<lambda>l r. sameSourceFingerprint (so_Fingerprint l) (so_Fingerprint r)) (ss_Dotenv left) (ss_Dotenv right)"

subsection \<open>Resolutions\<close>

definition selected_result :: "Selection \<Rightarrow> RecoveryResult" where
  "selected_result selection = \<lparr>rr_Selection = Some selection, rr_SelectionPresent = True\<rparr>"

definition discardBootstrapRecovery ::
    "TransactionManager \<Rightarrow> Lease \<Rightarrow> Journal \<Rightarrow> ws_error option io \<Rightarrow> (ws_error, RecoveryResult) result io" where
  "discardBootstrapRecovery m lease journal guard =
     (let changed = (\<lambda>_. ret (Inl [ErrSourceChanged])) in
      without_selection m (\<lambda>e. ret (Inl e)) (
      on_error guard (\<lambda>e. ret (Inl e)) (
      on_result (InspectRecovery m lease) changed (\<lambda>fresh.
      if re_TransactionID fresh \<noteq> jo_TransactionID journal \<or> \<not> re_Bootstrap fresh \<or> re_State fresh \<noteq> RecoveryUnapplied then changed []
      else
        on_error (removeRecoveryStages m journal False) (\<lambda>e. ret (Inl (ErrRecoveryRequired # e))) (
        on_result (InspectRecovery m lease) changed (\<lambda>fresh.
        if re_TransactionID fresh \<noteq> jo_TransactionID journal \<or> re_State fresh \<noteq> RecoveryUnapplied then changed []
        else
          without_selection m (\<lambda>e. ret (Inl e)) (
          on_error (Clear_journal m (jo_TransactionID journal)) (\<lambda>_. ret (Inl [ErrRecoveryRequired])) (
          ret (Inr \<lparr>rr_Selection = None, rr_SelectionPresent = False\<rparr>)))))))))"

definition discard_unapplied ::
    "TransactionManager \<Rightarrow> Journal \<Rightarrow> ws_error option io \<Rightarrow> (ws_error, RecoveryResult) result io" where
  "discard_unapplied m journal guard =
     on_result (selection_Load m) (\<lambda>e. ret (Inl e)) (\<lambda>selection.
     on_result (inspector_Verify m (sl_Review selection)) (\<lambda>_. ret (Inl [ErrSourceChanged])) (\<lambda>_.
     on_error guard (\<lambda>e. ret (Inl e)) (
     on_error (removeRecoveryStages m journal False) (\<lambda>e. ret (Inl (ErrRecoveryRequired # e))) (
     on_result (inspector_Verify m (sl_Review selection)) (\<lambda>_. ret (Inl [ErrSourceChanged])) (\<lambda>_.
     on_error (Clear_journal m (jo_TransactionID journal)) (\<lambda>_. ret (Inl [ErrRecoveryRequired])) (
     ret (Inr (selected_result selection))))))))"

text \<open>The current files are read again and must still be the validated ones.\<close>

definition reread_current ::
    "TransactionManager \<Rightarrow> Journal \<Rightarrow> SourceSet \<Rightarrow> (ws_error, Selection) result io" where
  "reread_current m journal sources =
     on_result (readRecoveryCurrent m journal) (\<lambda>e. ret (Inl e)) (\<lambda>(selection, current).
       if \<not> sameSourceSets (tm_sha256 m) sources current then ret (Inl [ErrSourceChanged]) else ret (Inr selection))"

definition no_review :: Review where
  "no_review = \<lparr>rv_ConfigurationSource = ConfigurationUnset, rv_WorkingDirectory = no_evidence, rv_Configuration = no_evidence,
     rv_Storage = no_evidence, rv_DotenvFiles = [], rv_Webroots = [], rv_Diagnostics = [], rv_Adoptable = False,
     rv_ReviewedEvidenceSHA256 = [], rv_ObservedAt = zero_time\<rparr>"

text \<open>From the authorized reading of the current files to the end.\<close>

definition finish_current ::
    "TransactionManager \<Rightarrow> Lease \<Rightarrow> RecoveryResolution \<Rightarrow> Journal \<Rightarrow> Review \<Rightarrow> SourceSet \<Rightarrow> (ws_error, RecoveryResult) result io" where
  "finish_current m lease resolution journal prior sources =
     (let changed = (\<lambda>_. ret (Inl [ErrSourceChanged]));
          outside = (\<lambda>selection. resolution = ResolutionFinalizeApplied \<and> \<not> samePreEditRecoveryBoundary prior (sl_Review selection) journal) in
      on_error
        (if resolution = ResolutionFinalizeApplied
         then on_result (InspectRecovery m lease) (\<lambda>_. ret (Some [ErrSourceChanged])) (\<lambda>fresh.
                ret (fails_if (re_TransactionID fresh \<noteq> jo_TransactionID journal \<or> re_State fresh \<noteq> RecoveryApplied) [ErrSourceChanged]))
         else ret None) (\<lambda>e. ret (Inl e)) (
      on_result (journal_Load m) changed (\<lambda>freshJournal.
      if jo_TransactionID freshJournal \<noteq> jo_TransactionID journal then changed []
      else
        on_result (reread_current m journal sources) (\<lambda>e. ret (Inl e)) (\<lambda>guarded.
        if outside guarded then changed []
        else
          on_error (removeRecoveryStages m journal True) (\<lambda>e. ret (Inl (ErrRecoveryRequired # e))) (
          on_result (reread_current m journal sources) (\<lambda>e. ret (Inl e)) (\<lambda>final.
          if outside final then changed []
          else
            on_error (FinalizeEdit m final (jo_TransactionID journal)) (\<lambda>_. ret (Inl [ErrRecoveryRequired])) (
            ret (Inr (selected_result final)))))))))"

definition resolve_current ::
    "TransactionManager \<Rightarrow> Lease \<Rightarrow> RecoveryResolution \<Rightarrow> Journal \<Rightarrow> ws_error option io \<Rightarrow> (SourceSet \<Rightarrow> ws_error option io) option \<Rightarrow>
     (ws_error, RecoveryResult) result io" where
  "resolve_current m lease resolution journal guard validator =
     (case validator of None \<Rightarrow> ret (Inl [ErrInvalidEdit]) | Some validator \<Rightarrow>
      on_result (readRecoveryCurrent m journal) (\<lambda>e. ret (Inl e)) (\<lambda>(validated, sources).
      on_result (if jo_Bootstrap journal then ret (Inr no_review)
                 else on_result (selection_Load m) (\<lambda>e. ret (Inl e)) (\<lambda>prior. ret (Inr (sl_Review prior)))) (\<lambda>e. ret (Inl e)) (\<lambda>prior.
      if resolution = ResolutionFinalizeApplied \<and> \<not> samePreEditRecoveryBoundary prior (sl_Review validated) journal
      then ret (Inl [ErrSourceChanged])
      else
        on_error (validator sources) (\<lambda>e. ret (Inl e)) (
        on_result (reread_current m journal sources) (\<lambda>e. ret (Inl e)) (\<lambda>_.
        on_error guard (\<lambda>e. ret (Inl e)) (
        finish_current m lease resolution journal prior sources))))))"

definition ResolveRecovery ::
    "TransactionManager \<Rightarrow> Lease \<Rightarrow> RecoveryResolution \<Rightarrow> ws_error option io option \<Rightarrow> (SourceSet \<Rightarrow> ws_error option io) option \<Rightarrow>
     (ws_error, RecoveryResult) result io" where
  "ResolveRecovery m lease resolution guard validator =
     on_error (manager_ready m lease) (\<lambda>e. ret (Inl e)) (
     case guard of None \<Rightarrow> ret (Inl [ErrInvalidEdit]) | Some guard \<Rightarrow>
     on_result (InspectRecovery m lease) (\<lambda>e. ret (Inl e)) (\<lambda>recovery.
     on_result (journal_Load m) (\<lambda>_. ret (Inl [ErrSourceChanged])) (\<lambda>journal.
     if jo_TransactionID journal \<noteq> re_TransactionID recovery then ret (Inl [ErrSourceChanged])
     else
       (case resolution of
          ResolutionDiscardUnapplied \<Rightarrow>
            if re_State recovery \<noteq> RecoveryUnapplied then ret (Inl [ErrInvalidEdit])
            else if jo_Bootstrap journal then discardBootstrapRecovery m lease journal guard
            else discard_unapplied m journal guard
        | ResolutionFinalizeApplied \<Rightarrow>
            if re_State recovery \<noteq> RecoveryApplied \<or> jo_Bootstrap journal then ret (Inl [ErrInvalidEdit])
            else resolve_current m lease resolution journal guard validator
        | ResolutionAdoptCurrent \<Rightarrow>
            if re_State recovery = RecoveryUnapplied then ret (Inl [ErrInvalidEdit])
            else resolve_current m lease resolution journal guard validator
        | ResolutionOther _ \<Rightarrow> ret (Inl [ErrInvalidEdit])))))"

end
