(* ===== verification/Workspace_Resolution.thy ===== *)
theory Workspace_Resolution
  imports Workspace_Atomic Workspace_Recovery
begin

text \<open>
  What recovery does with a pending edit: the verdict on a file is the truth about its content, no
  resolution changes a target or any file outside the edit, and an edit is over only when its staging
  names are gone and its files are what the resolution says.
\<close>

subsection \<open>Recovery looks\<close>

lemma looks_stage_at [looks_intros]: "quiet m \<Longrightarrow> looks (stage_at m d stage)"
  unfolding stage_at_def by (auto intro!: looks_intros split: option.split)

lemma looks_classifyRecoveryFile [looks_intros]: "quiet m \<Longrightarrow> looks (classifyRecoveryFile m f)"
  unfolding classifyRecoveryFile_def by (auto intro!: looks_intros)

lemma looks_classify_files [looks_intros]: "quiet m \<Longrightarrow> looks (classify_files m fs)"
  by (induction fs) (auto intro!: looks_intros)

lemma looks_InspectRecovery [looks_intros]: "quiet m \<Longrightarrow> looks (InspectRecovery m lease)"
  unfolding InspectRecovery_def by (auto intro!: looks_intros)

lemma looks_auditMissingTarget [looks_intros]: "quiet m \<Longrightarrow> looks (auditMissingTarget m target role reference)"
  unfolding auditMissingTarget_def by (auto intro!: looks_intros)

lemma looks_without_selection [looks_intros]:
  "quiet m \<Longrightarrow> (\<And>e. looks (h e)) \<Longrightarrow> looks k \<Longrightarrow> looks (without_selection m h k)"
  unfolding without_selection_def by (auto intro!: looks_intros split: sum.split)

lemma looks_read_recovery_source [looks_intros]: "quiet m \<Longrightarrow> looks (read_recovery_source m journal source)"
  unfolding read_recovery_source_def Let_def by (auto intro!: looks_intros)

lemma looks_readRecoveryCurrent [looks_intros]: "quiet m \<Longrightarrow> looks (readRecoveryCurrent m journal)"
  unfolding readRecoveryCurrent_def by (auto intro!: looks_intros)

lemma looks_reread_current [looks_intros]: "quiet m \<Longrightarrow> looks (reread_current m journal sources)"
  unfolding reread_current_def by (auto intro!: looks_intros)

subsection \<open>The loaded journal\<close>

text \<open>A journal file that belongs to an entry.\<close>

definition matches :: "nat \<Rightarrow> preparedReplacement \<Rightarrow> JournalFile \<Rightarrow> bool" where
  "matches N p f \<longleftrightarrow> jf_TargetPath f = rp_Path (pr_replacement p) \<and> jf_StageBasename f = pr_stage p \<and>
     below N (fi_Inode (jf_Original f)) \<and> (jf_CandidateReady f \<longrightarrow> N \<le> fi_Inode (jf_Candidate f))"

lemma persistedIdentity_inode: "persistedIdentity e c = Some i \<Longrightarrow> canonicalUint64 (ic_inode c) = Some (fi_Inode i)"
  by (auto simp: persistedIdentity_def bind_eq_Some_conv Let_def split: if_splits)

lemma persisted_matches:
  assumes "persisted_file r = Some f" "row_bound N r" "row_plan r = plan_of p"
  shows "matches N p f"
  using assms
  by (auto simp: persisted_file_def bind_eq_Some_conv matches_def row_bound_def row_plan_def plan_of_def storedBoolean_def
      dest!: persistedIdentity_inode split: if_splits)

lemma load_files_rows: "load_files index rows = Some fs \<Longrightarrow> list_all2 (\<lambda>r f. persisted_file r = Some f) rows fs"
  by (induction index rows arbitrary: fs rule: load_files.induct) (auto simp: bind_eq_Some_conv split: if_splits)

lemma entries_ordinals: "entries_for D t i rs ps \<Longrightarrow> map pr_ordinal ps = map int [i..<i + length ps]"
  by (induction D t i rs ps rule: entries_for.induct) (auto simp: entry_for_def upt_conv_Cons simp del: upt_Suc)

lemma rows_sorted:
  assumes "entries_for D t 0 rs ps" "map row_plan rows = map plan_of ps"
  shows "sort_key fr_ordinal rows = rows"
proof -
  have "map fr_ordinal rows = map fst (map row_plan rows)" by (simp add: row_plan_def)
  also have "\<dots> = map pr_ordinal ps" by (simp add: assms(2) plan_of_def)
  also have "\<dots> = map int [0..<length ps]" using entries_ordinals [OF assms(1)] by simp
  finally have "sorted (map fr_ordinal rows)" by (simp add: sorted_map sorted_wrt_upt)
  then show ?thesis by (rule sort_key_id_if_sorted)
qed

lemma loaded_journal:
  assumes e: "entries_for D t 0 rs ps" and t: "transaction_of w = Some (t, map plan_of ps)" and rb: "rows_bound N w"
    and l: "Load_journal euid (w_journal w) = Inr j"
  shows "jo_TransactionID j = t" "list_all2 (matches N) ps (jo_Files j)"
proof -
  let ?rows = "jdb_files (w_journal w)"
  obtain row where row: "jdb_journal (w_journal w) = Some row" "jr_transaction_id row = t" and plans: "map row_plan ?rows = map plan_of ps"
    using t by (auto simp: transaction_of_def)
  have files: "jo_TransactionID j = t" "load_files 0 ?rows = Some (jo_Files j)"
    using l row rows_sorted [OF e plans] by (auto simp: Load_journal_def Let_def split: option.splits if_splits)
  show "jo_TransactionID j = t" by (rule files)
  have "list_all2 (\<lambda>p r. row_plan r = plan_of p) ps ?rows"
    using plans by (auto simp: list_all2_conv_all_nth dest: map_eq_imp_length_eq) (metis nth_map map_eq_imp_length_eq)
  moreover have "list_all2 (\<lambda>r f. persisted_file r = Some f \<and> row_bound N r) ?rows (jo_Files j)"
    using load_files_rows [OF files(2)] rb by (auto simp: rows_bound_def list_all_length list_all2_conv_all_nth)
  ultimately show "list_all2 (matches N) ps (jo_Files j)"
    by (rule list_all2_trans [rotated 1]) (auto intro: persisted_matches)
qed

subsection \<open>The verdict on a file\<close>

lemma verdict_applied:
  "file_verdict f target stage = RecoveryFileApplied \<Longrightarrow> jf_CandidateReady f \<and> (\<exists>i. target = Some i \<and> fi_Inode i = fi_Inode (jf_Candidate f))"
  by (auto simp: file_verdict_def Let_def samePlacement_def split: if_splits option.splits)

lemma verdict_original:
  "file_verdict f target stage \<in> {RecoveryFileUnstaged, RecoveryFileUnapplied} \<Longrightarrow> target = Some i \<Longrightarrow> fi_Inode i = fi_Inode (jf_Original f)"
  by (auto simp: file_verdict_def Let_def target_is_original_def originalPlacement_def samePlacement_def split: if_splits option.splits)

lemma wp_identityAt_tidy:
  assumes "quiet m" "tidy (w_fs w)" "\<And>n e. Q (Inl e) (w\<lparr>w_step := n\<rparr>)" "\<And>n. names w (d, name) = None \<Longrightarrow> Q (Inr None) (w\<lparr>w_step := n\<rparr>)"
    and "\<And>n k i. names w (d, name) = Some k \<Longrightarrow> Q (Inr (Some (identity_of k i))) (w\<lparr>w_step := n\<rparr>)"
  shows "wp (identityAt m d name) Q w"
  unfolding identityAt_def wp_or_else
proof (rule wp_fstatat [OF assms(1)], goal_cases)
  case (1 n)
  then show ?case using assms(3) by simp
next
  case (2 n a)
  show ?case
  proof (cases "names w (d, name)")
    case None
    with 2 show ?thesis using assms(4) by (auto simp: stat_name_def)
  next
    case (Some k)
    then obtain i where "fs_inodes (w_fs w) k = Some i" using assms(2) unfolding tidy_def by blast
    with Some 2 show ?thesis using assms(3) assms(5) [OF Some] by (auto simp: stat_name_def)
  qed
qed

text \<open>Which side of the bound the inode of the target is on.\<close>

definition sided :: "nat \<Rightarrow> preparedReplacement \<Rightarrow> world \<Rightarrow> RecoveryFileState \<Rightarrow> bool" where
  "sided N p w s \<longleftrightarrow> (s = RecoveryFileApplied \<longrightarrow> (\<exists>k. names w (target_of p) = Some k \<and> N \<le> snd k)) \<and>
     (s \<in> {RecoveryFileUnstaged, RecoveryFileUnapplied} \<longrightarrow> (\<forall>k. names w (target_of p) = Some k \<longrightarrow> below N (snd k)))"

lemma sided_ambiguous [simp]: "sided N p w RecoveryFileAmbiguous"
  by (simp add: sided_def)

lemma sided_step [simp]: "sided N p (w\<lparr>w_step := n\<rparr>) s = sided N p w s"
  by (simp add: sided_def)

definition located :: "(bytes \<Rightarrow> key option) \<Rightarrow> preparedReplacement \<Rightarrow> bool" where
  "located D p \<longleftrightarrow> D (Dir_abs (rp_Path (pr_replacement p))) = Some (pr_parent p)"

lemma wp_open_parent:
  assumes q: "quiet m" and D: "steady m D" and p: "located D p" "jf_TargetPath f = rp_Path (pr_replacement p)"
    and e: "\<And>n e. Q (Inl e) (w\<lparr>w_step := n\<rparr>)" and s: "\<And>n i. Q (Inr (pr_parent p, i)) (w\<lparr>w_step := n\<rparr>)"
  shows "wp (openReplacementParent m (jf_TargetPath f)) Q w"
proof -
  have 1: "wp (openReplacementParent m (jf_TargetPath f)) (\<lambda>_ w'. \<exists>n. w' = w\<lparr>w_step := n\<rparr>) w"
    by (rule looks_wp [OF looks_openReplacementParent [OF q]]) blast
  show ?thesis
  proof (rule wp_mono [OF wp_and [OF 1 wp_openReplacementParent [OF q D]]], goal_cases)
    case (1 r w')
    then obtain n where w': "w' = w\<lparr>w_step := n\<rparr>" by blast
    show ?case
    proof (cases r)
      case (Inr x)
      obtain d i where x: "x = (d, i)" by (cases x)
      have "D (Dir_abs (jf_TargetPath f)) = Some d" using 1 Inr x by blast
      then show ?thesis using p s by (simp add: located_def Inr x w')
    qed (simp add: w' e)
  qed
qed

lemma wp_classifyRecoveryFile:
  assumes q: "quiet m" and D: "steady m D" and p: "located D p" and t: "tidy (w_fs w)" and f: "matches N p f"
  shows "wp (classifyRecoveryFile m f) (\<lambda>s w'. still w w' \<and> sided N p w s) w"
proof -
  have f': "jf_TargetPath f = rp_Path (pr_replacement p)" using f by (simp add: matches_def)
  have st: "wp (stage_at m d stage) Q w'" if "\<And>r n. Q r (w'\<lparr>w_step := n\<rparr>)" for d stage Q w'
    by (rule looks_wp [OF looks_stage_at [OF q]]) (rule that)
  have v: "sided N p w (file_verdict f target stage)"
    if "\<And>i. target = Some i \<Longrightarrow> \<exists>k. names w (target_of p) = Some k \<and> fi_Inode i = snd k" "target = None \<Longrightarrow> names w (target_of p) = None" for target stage
    using that verdict_applied [of f target stage] verdict_original [of f target stage] f
    by (cases target) (auto simp: sided_def matches_def)
  have "wp (do { target \<leftarrow> identityAt m (pr_parent p) (Base (jf_TargetPath f)); stage \<leftarrow> stage_at m (pr_parent p) (jf_StageBasename f);
      ret (case (target, stage) of (Inr target, Inr stage) \<Rightarrow> file_verdict f target stage | _ \<Rightarrow> RecoveryFileAmbiguous) })
        (\<lambda>s w'. still w w' \<and> sided N p w s) (w\<lparr>w_step := n\<rparr>)" for n
    unfolding wp_bind by (rule wp_identityAt_tidy [OF q])
      (auto intro!: st v simp: t f' target_of_def identity_of_def split: sum.split)
  then show ?thesis unfolding classifyRecoveryFile_def wp_or_else
    by (auto simp del: wp_bind intro!: wp_fsync [OF q] wp_open_parent [OF q D p f'])
qed

subsection \<open>Removing the staging files\<close>

text \<open>At most one of the two staging names is in use, and it is the given one.\<close>

definition sole :: "preparedReplacement \<Rightarrow> bytes \<Rightarrow> world \<Rightarrow> bool" where
  "sole p b w \<longleftrightarrow> own_name p b \<and> (\<forall>x \<in> {stage_of p, trash_of p}. x \<noteq> (pr_parent p, b) \<longrightarrow> names w x = None)"

lemma sole_step [simp]: "sole p b (w\<lparr>w_step := n\<rparr>) = sole p b w"
  by (simp add: sole_def)

lemma wp_stage_at:
  assumes q: "quiet m" and t: "tidy (w_fs w)" and e: "\<And>n e. Q (Inl e) (w\<lparr>w_step := n\<rparr>)"
    and none: "\<And>n. clean_slot p (w_fs w) \<Longrightarrow> Q (Inr None) (w\<lparr>w_step := n\<rparr>)"
    and some: "\<And>n b i. sole p b w \<Longrightarrow> Q (Inr (Some (b, i))) (w\<lparr>w_step := n\<rparr>)"
  shows "wp (stage_at m (pr_parent p) (pr_stage p)) Q w"
  unfolding stage_at_def wp_on_result
proof (rule wp_ownedStageBasename [OF q t], goal_cases)
  case (1 n e)
  then show ?case using e by simp
next
  case (2 n)
  then show ?case using none by (simp add: clean_slot_def stage_of_def trash_of_def)
next
  case (3 n)
  then show ?case
    by (auto intro!: wp_identityAt_tidy [OF q] some e simp: t sole_def own_name_def stage_of_def trash_of_def)
next
  case (4 n)
  then show ?case
    by (auto intro!: wp_identityAt_tidy [OF q] some e simp: t sole_def own_name_def stage_of_def trash_of_def)
qed

lemma wp_remove_stage:
  assumes q: "quiet m" and D: "steady m D" and p: "located D p" and s: "settled p (w_fs w)" and f: "matches N p f"
    and Q: "\<And>r w'. inside p w w' \<Longrightarrow> (r = None \<Longrightarrow> clean_slot p (w_fs w')) \<Longrightarrow> Q r w'"
  shows "wp (remove_stage m allowOriginal f) Q w"
proof -
  have f': "jf_TargetPath f = rp_Path (pr_replacement p)" "jf_StageBasename f = pr_stage p" using f by (simp_all add: matches_def)
  have t: "tidy (w_fs w)" using s by (simp add: settled_def)
  have fail: "Q (Some e) (w\<lparr>w_step := n\<rparr>)" for e n using s by (intro Q) simp_all
  have sync: "wp (syncDirectory m) (\<lambda>r. case r of None \<Rightarrow> wp (ret (Some plain_error)) Q | Some _ \<Rightarrow>
      wp (or_else (close_file m) (ret (Some plain_error)) (\<lambda>_. ret None)) Q) w'"
    if "inside p w w'" "clean_slot p (w_fs w')" for w'
    using that by (auto intro!: wp_fsync [OF q] Q simp: inside_def)
  have rm: "wp (removeOwnedIdentityAt m (pr_parent p) b expected ordinal) (\<lambda>r. case r of None \<Rightarrow>
      wp (or_else (syncDirectory m) (ret (Some plain_error)) (\<lambda>_. or_else (close_file m) (ret (Some plain_error)) (\<lambda>_. ret None))) Q
      | Some e \<Rightarrow> wp (ret (Some e)) Q) (w\<lparr>w_step := n\<rparr>)"
    if b: "sole p b w" for b expected ordinal n
  proof (rule wp_removeOwnedIdentityAt [OF q], goal_cases)
    case 1
    show ?case using s by simp
  next
    case 2
    show ?case using b by (simp add: sole_def)
  next
    case (3 r w')
    have i: "inside p w w'" using 3(1) s by (simp add: inside_def)
    have "clean_slot p (w_fs w')" if r: "r = None"
    proof -
      have "names w' x = None" if x: "x \<in> {stage_of p, trash_of p}" for x
        using 3(2) [OF r] b x unfolding gone_def sole_def by (cases "x = (pr_parent p, b)") auto
      then show ?thesis by (simp add: clean_slot_def)
    qed
    with i show ?case by (cases r) (auto intro: Q sync)
  qed
  show ?thesis unfolding remove_stage_def f'(2)
    by (auto intro!: wp_fsync [OF q] wp_open_parent [OF q D p f'(1)] wp_stage_at [OF q] fail rm [simplified] sync [simplified] simp: t s Let_def split: option.split)
qed

lemma wp_remove_stages:
  assumes q: "quiet m" and D: "steady m D" and "list_all2 (matches N) ps fs" "\<forall>p \<in> set ps. located D p" "separate ps" "goods ps (w_fs w)"
  shows "wp (remove_stages m allowOriginal fs) (\<lambda>r w'. frame ps w w' \<and> (\<forall>p \<in> set ps. old_file p (w_fs w) (w_fs w')) \<and>
     (r = None \<longrightarrow> (\<forall>p \<in> set ps. clean_slot p (w_fs w')))) w"
  using assms(3-)
proof (induction ps fs arbitrary: w rule: list_all2_induct)
  case Nil
  then show ?case by (simp add: frame_def)
next
  case (Cons p ps f fs)
  have g: "good p (w_fs w)" "goods ps (w_fs w)" and d: "slots p \<inter> all_slots ps = {}" "separate ps" and l: "located D p" using Cons.prems by simp_all
  have s: "settled p (w_fs w)" using g by (simp add: good_def)
  show ?case unfolding remove_stages.simps wp_on_error
  proof (rule wp_remove_stage [OF q D l s Cons.hyps(1)], goal_cases)
    case (1 r1 w1)
    have c: "confined p w w1" by (rule inside_confined [OF g(1) 1(1)])
    have o: "old_file q (w_fs w) (w_fs w1)" if "q \<in> set (p # ps)" for q
      using that inside_old [OF g(1) 1(1)] others_old(1) [OF c d(1)] by auto
    show ?case
    proof (cases r1)
      case (Some e)
      with o frame_head [OF c g(2) d(1)] show ?thesis by simp
    next
      case None
      have IH: "wp (remove_stages m allowOriginal fs) (\<lambda>r w'. frame ps w1 w' \<and> (\<forall>p \<in> set ps. old_file p (w_fs w1) (w_fs w')) \<and>
         (r = None \<longrightarrow> (\<forall>p \<in> set ps. clean_slot p (w_fs w')))) w1"
        by (rule Cons.IH [OF _ d(2) confined_goods [OF c g(2) d(1)]]) (use Cons.prems in simp)
      show ?thesis unfolding None option.case
      proof (rule wp_mono [OF IH], goal_cases)
        case (1 r w2)
        then have fr: "frame ps w1 w2" by simp
        have "old_file q (w_fs w) (w_fs w2)" if "q \<in> set (p # ps)" for q
          using o [OF that] that one_kept(1) [OF fr d(1)] 1 by (auto intro: old_trans)
        moreover have "clean_slot p (w_fs w2)" using one_kept(3) [OF fr d(1)] \<open>r1 = None \<Longrightarrow> clean_slot p (w_fs w1)\<close> None by simp
        ultimately show ?case using 1 frame_cons [OF c fr d(1)] by auto
      qed
    qed
  qed
qed

lemma silent_remove_stages [silent_intros]: "quiet m \<Longrightarrow> silent (remove_stages m allowOriginal fs)"
proof (induction fs)
  case (Cons f fs)
  have "silent (openReplacementParent m target)" "silent (stage_at m d stage)" for target d stage
    using Cons.prems by (auto intro!: looks_silent looks_intros)
  then have "silent (remove_stage m allowOriginal f)" using Cons.prems
    unfolding remove_stage_def Let_def by (auto intro!: silent_intros split: option.split)
  then show ?case using Cons by (auto intro!: silent_intros)
qed (auto intro!: silent_intros)

subsection \<open>A pending edit\<close>

definition held :: "nat \<Rightarrow> (bytes \<Rightarrow> key option) \<Rightarrow> bytes \<Rightarrow> preparedReplacement list \<Rightarrow> world \<Rightarrow> world \<Rightarrow> bool" where
  "held N D t ps w0 w \<longleftrightarrow> 0 < N \<and> (\<exists>rs. entries_for D t 0 rs ps) \<and> transaction_of w = Some (t, map plan_of ps) \<and>
     separate ps \<and> goods ps (w_fs w) \<and> rows_bound N w \<and> older N ps (w_fs w0) \<and>
     (\<forall>p \<in> set ps. old_file p (w_fs w0) (w_fs w) \<or> new_file N p (w_fs w))"

lemma entries_located: "entries_for D t i rs ps \<Longrightarrow> \<forall>p \<in> set ps. located D p"
  by (induction D t i rs ps rule: entries_for.induct) (auto simp: entry_for_def located_def)

text \<open>What a review of the pending edit may say of its files.\<close>

definition file_truth :: "nat \<Rightarrow> world \<Rightarrow> world \<Rightarrow> preparedReplacement \<Rightarrow> RecoveryFile \<Rightarrow> bool" where
  "file_truth N w0 w p f \<longleftrightarrow> rf_Path f = rp_Path (pr_replacement p) \<and>
     (rf_State f = RecoveryFileApplied \<longrightarrow> new_file N p (w_fs w)) \<and>
     (rf_State f \<in> {RecoveryFileUnstaged, RecoveryFileUnapplied} \<longrightarrow> old_file p (w_fs w0) (w_fs w))"

definition verdict :: "nat \<Rightarrow> preparedReplacement list \<Rightarrow> world \<Rightarrow> world \<Rightarrow> Recovery \<Rightarrow> bool" where
  "verdict N ps w0 w rec \<longleftrightarrow> list_all2 (file_truth N w0 w) ps (re_Files rec) \<and>
     (re_State rec = RecoveryApplied \<longrightarrow> (\<forall>p \<in> set ps. new_file N p (w_fs w))) \<and>
     (re_State rec = RecoveryUnapplied \<longrightarrow> (\<forall>p \<in> set ps. old_file p (w_fs w0) (w_fs w)))"

lemma length_filter_all: "length (filter P xs) = length xs \<Longrightarrow> \<forall>x \<in> set xs. P x"
  by (metis filter_True length_filter_less less_irrefl)

lemma recovery_state_files:
  "recovery_state fs = RecoveryApplied \<Longrightarrow> \<forall>f \<in> set fs. rf_State f = RecoveryFileApplied"
  "recovery_state fs = RecoveryUnapplied \<Longrightarrow> \<forall>f \<in> set fs. rf_State f \<in> {RecoveryFileUnstaged, RecoveryFileUnapplied}"
proof -
  assume "recovery_state fs = RecoveryApplied"
  then have "length (filter (\<lambda>f. rf_State f = RecoveryFileApplied) fs) = length fs"
    unfolding recovery_state_def Let_def by (simp split: if_split_asm)
  then show "\<forall>f \<in> set fs. rf_State f = RecoveryFileApplied" by (rule length_filter_all)
next
  assume "recovery_state fs = RecoveryUnapplied"
  then have "length (filter (\<lambda>f. rf_State f = RecoveryFileUnapplied \<or> rf_State f = RecoveryFileUnstaged) fs) = length fs"
    unfolding recovery_state_def Let_def by (simp split: if_split_asm)
  from length_filter_all [OF this] show "\<forall>f \<in> set fs. rf_State f \<in> {RecoveryFileUnstaged, RecoveryFileUnapplied}" by blast
qed

lemma state_verdict:
  assumes "list_all2 (file_truth N w0 w) ps fs" "re_Files rec = fs" "re_State rec = recovery_state fs"
  shows "verdict N ps w0 w rec"
proof -
  have "\<exists>f \<in> set fs. file_truth N w0 w p f" if "p \<in> set ps" for p
    using assms(1) that by (metis in_set_conv_nth list_all2_conv_all_nth)
  then have "(\<forall>f \<in> set fs. rf_State f = RecoveryFileApplied) \<Longrightarrow> p \<in> set ps \<Longrightarrow> new_file N p (w_fs w)"
    "(\<forall>f \<in> set fs. rf_State f \<in> {RecoveryFileUnstaged, RecoveryFileUnapplied}) \<Longrightarrow> p \<in> set ps \<Longrightarrow> old_file p (w_fs w0) (w_fs w)" for p
    unfolding file_truth_def by blast+
  then show ?thesis using assms recovery_state_files [of fs] by (simp add: verdict_def)
qed

lemma sided_truth:
  assumes "held N D t ps w0 w" "p \<in> set ps" "sided N p w (rf_State f)" "rf_Path f = rp_Path (pr_replacement p)"
  shows "file_truth N w0 w p f"
proof -
  have N: "0 < N" "old_file p (w_fs w0) (w_fs w) \<or> new_file N p (w_fs w)" using assms(1,2) by (auto simp: held_def)
  have o: "old_file p (w_fs w0) (w_fs w) \<Longrightarrow> names w (target_of p) = Some k \<Longrightarrow> snd k < N" for k
    using assms(1,2) N(1) unfolding held_def older_def old_file_def below_def by (metis less_irrefl)
  have n: "new_file N p (w_fs w) \<Longrightarrow> \<exists>k. names w (target_of p) = Some k \<and> N \<le> snd k" by (auto simp: new_file_def)
  show ?thesis using N o n assms(3,4) unfolding file_truth_def sided_def below_def by (metis less_irrefl not_less)
qed

lemma wp_classify_files:
  assumes q: "quiet m" and D: "steady m D" and "list_all2 (matches N) ps fs" "\<forall>p \<in> set ps. located D p" "tidy (w_fs w)"
  shows "wp (classify_files m fs) (\<lambda>rs w'. still w w' \<and> list_all2 (\<lambda>p r. rf_Path r = rp_Path (pr_replacement p) \<and> sided N p w (rf_State r)) ps rs) w"
  using assms(3-)
proof (induction ps fs arbitrary: w rule: list_all2_induct)
  case (Cons p ps f fs)
  have path: "jf_TargetPath f = rp_Path (pr_replacement p)" using Cons.hyps(1) by (simp add: matches_def)
  show ?case unfolding classify_files.simps wp_bind
  proof (rule wp_mono [OF wp_classifyRecoveryFile [OF q D _ _ Cons.hyps(1)]], goal_cases)
    case (3 s w1)
    have w1: "w_fs w1 = w_fs w" using 3 by (simp add: still_def same_world_def)
    have s1: "sided N q w1 = sided N q w" for q by (intro ext) (simp add: sided_def w1)
    show ?case
      by (rule wp_mono [OF Cons.IH]) (use Cons.prems 3 in \<open>auto simp: w1 s1 path intro: still_trans\<close>)
  qed (use Cons.prems in simp_all)
qed simp

lemma wp_journal_Load:
  assumes "quiet m"
  shows "wp (journal_Load m) (\<lambda>r w'. still w w' \<and> (\<forall>j. r = Inr j \<longrightarrow> Load_journal (tm_euid m) (w_journal w) = Inr j)) w"
  unfolding journal_Load_def query_def wp_bind by (rule wp_callI [OF assms]) auto

lemma held_matches:
  assumes "held N D t ps w0 w" "Load_journal euid (w_journal w) = Inr j"
  shows "jo_TransactionID j = t" "list_all2 (matches N) ps (jo_Files j)"
  using assms loaded_journal [of D t _ ps w N euid j] by (auto simp: held_def)

lemma held_facts:
  assumes "held N D t ps w0 w"
  shows "\<forall>p \<in> set ps. located D p" "tidy (w_fs w)" "separate ps" "goods ps (w_fs w)" "rows_bound N w"
  using assms entries_located by (auto simp: held_def goods_def)

lemma wp_InspectRecovery:
  assumes q: "quiet m" and D: "steady m D" and h: "held N D t ps w0 w"
  shows "wp (InspectRecovery m lease) (\<lambda>r w'. still w w' \<and> (\<forall>rec. r = Inr rec \<longrightarrow> verdict N ps w0 w rec)) w"
proof -
  have files: "wp (do { files \<leftarrow> classify_files m (jo_Files j); ret (Inr (f files)) }) (\<lambda>r w'. still w w' \<and> (\<forall>rec. r = Inr rec \<longrightarrow> verdict N ps w0 w rec)) w1"
    if w1: "still w w1" and j: "Load_journal (tm_euid m) (w_journal w) = Inr j" and f: "\<And>fs. re_Files (f fs) = fs \<and> re_State (f fs) = recovery_state fs"
    for j w1 and f :: "RecoveryFile list \<Rightarrow> Recovery"
  proof -
    have fs: "w_fs w1 = w_fs w" using w1 by (simp add: still_def same_world_def)
    have s: "sided N p w1 x = sided N p w x" for p x by (simp add: sided_def fs)
    have "list_all2 (file_truth N w0 w) ps rs"
      if "list_all2 (\<lambda>p r. rf_Path r = rp_Path (pr_replacement p) \<and> sided N p w (rf_State r)) ps rs" for rs
      using that sided_truth [OF h] by (auto simp: list_all2_conv_all_nth)
    then show ?thesis unfolding wp_bind
      by (intro wp_mono [OF wp_classify_files [OF q D held_matches(2) [OF h j] held_facts(1) [OF h]]])
        (use held_facts(2) [OF h] f w1 in \<open>auto simp: fs s intro!: state_verdict intro: still_trans\<close>)
  qed
  show ?thesis unfolding InspectRecovery_def wp_on_error wp_on_result
  proof (rule looks_wp [OF looks_ready [OF q]], goal_cases)
    case (1 r n)
    show ?case
    proof (cases r)
      case None
      show ?thesis unfolding None option.case
      proof (rule wp_mono [OF wp_journal_Load [OF q]], goal_cases)
        case (1 r w1)
        then have w1: "still w w1" by (blast intro: still_trans still_step)
        show ?case
        proof (cases r)
          case (Inr j)
          then have "Load_journal (tm_euid m) (w_journal w) = Inr j" using 1 by simp
          then show ?thesis unfolding Inr sum.case by (intro files [OF w1]) simp_all
        qed (simp add: w1)
      qed
    qed simp
  qed
qed

end
