(* ===== verification/Workspace_Resolve.thy ===== *)
theory Workspace_Resolve
  imports Workspace_Resolution
begin

text \<open>
  The three resolutions of a pending edit from start to end, and any number of them one after the
  other: the targets stay as recovery found them, and the journal goes only with the staging files.
\<close>

subsection \<open>While a resolution runs\<close>

text \<open>Every target is as it was and the edit is still pending; with the flag, no staging name is left.\<close>

definition calm :: "bool \<Rightarrow> nat \<Rightarrow> preparedReplacement list \<Rightarrow> world \<Rightarrow> world \<Rightarrow> bool" where
  "calm b N ps w w' \<longleftrightarrow> frame ps w w' \<and> (\<forall>p \<in> set ps. old_file p (w_fs w) (w_fs w')) \<and> rows_bound N w' \<and>
     (b \<longrightarrow> (\<forall>p \<in> set ps. clean_slot p (w_fs w')))"

lemma calm_start: "held N D t ps w0 w \<Longrightarrow> calm False N ps w w"
  by (auto simp: calm_def frame_def held_def)

lemma calm_still: "calm b N ps w w1 \<Longrightarrow> still w1 w2 \<Longrightarrow> calm b N ps w w2"
  using still_rows [of w1 w2 N] by (auto simp: calm_def frame_def still_def same_world_def)

lemma calm_looks: "looks c \<Longrightarrow> calm b N ps w w1 \<Longrightarrow> (\<And>r w2. calm b N ps w w2 \<Longrightarrow> Q r w2) \<Longrightarrow> wp c Q w1"
  by (rule looks_still) (auto intro: calm_still)

lemma calm_held:
  assumes h: "held N D t ps w0 w" and c: "calm b N ps w w1"
  shows "held N D t ps w0 w1"
proof -
  have "old_file p (w_fs w0) (w_fs w1) \<or> new_file N p (w_fs w1)" if "p \<in> set ps" for p
    using h c that by (auto simp: held_def calm_def intro: old_trans old_new)
  with h c show ?thesis by (auto simp: held_def calm_def frame_def)
qed

text \<open>What a resolution has established when the journal is gone.\<close>

definition outcome :: "RecoveryResolution \<Rightarrow> nat \<Rightarrow> preparedReplacement list \<Rightarrow> world \<Rightarrow> world \<Rightarrow> world \<Rightarrow> bool" where
  "outcome res N ps w0 w w' \<longleftrightarrow> (\<forall>p \<in> set ps. clean_slot p (w_fs w')) \<and>
     (res = ResolutionDiscardUnapplied \<longrightarrow> (\<forall>p \<in> set ps. old_file p (w_fs w0) (w_fs w')) \<and> w_selection w' = w_selection w) \<and>
     (res = ResolutionFinalizeApplied \<longrightarrow> (\<forall>p \<in> set ps. new_file N p (w_fs w')))"

definition resolving :: "RecoveryResolution \<Rightarrow> nat \<Rightarrow> preparedReplacement list \<Rightarrow> world \<Rightarrow> world \<Rightarrow> (ws_error, RecoveryResult) result \<Rightarrow> world \<Rightarrow> bool" where
  "resolving res N ps w0 w r w' \<longleftrightarrow>
     goods ps (w_fs w') \<and> away (all_slots ps) (w_fs w) (w_fs w') \<and> (\<forall>p \<in> set ps. old_file p (w_fs w) (w_fs w')) \<and> rows_bound N w' \<and>
     (transaction_of w' = transaction_of w \<and> w_selection w' = w_selection w \<or> transaction_of w' = None \<and> outcome res N ps w0 w w') \<and>
     (\<forall>x. r = Inr x \<longrightarrow> transaction_of w' = None \<and> outcome res N ps w0 w w' \<and> w_selection w' = rr_Selection x)"

lemma resolving_calm [intro]: "calm b N ps w w' \<Longrightarrow> resolving res N ps w0 w (Inl e) w'"
  by (auto simp: calm_def resolving_def frame_def)

lemma resolving_done:
  assumes "calm True N ps w w1" "w_fs w' = w_fs w1" "rows_bound N w'" "transaction_of w' = None"
    and "res = ResolutionDiscardUnapplied \<Longrightarrow> \<forall>p \<in> set ps. old_file p (w_fs w0) (w_fs w)"
    and "res = ResolutionDiscardUnapplied \<Longrightarrow> w_selection w' = w_selection w"
    and "res = ResolutionFinalizeApplied \<Longrightarrow> \<forall>p \<in> set ps. new_file N p (w_fs w)"
    and "\<And>x. r = Inr x \<Longrightarrow> w_selection w' = rr_Selection x"
  shows "resolving res N ps w0 w r w'"
proof -
  have c: "frame ps w w1" "\<forall>p \<in> set ps. old_file p (w_fs w) (w_fs w1)" "\<forall>p \<in> set ps. clean_slot p (w_fs w1)"
    using assms(1) by (simp_all add: calm_def)
  have "outcome res N ps w0 w w'" using assms(2,5-7) c by (auto simp: outcome_def intro: old_trans old_new)
  with assms c show ?thesis by (auto simp: resolving_def frame_def)
qed

subsection \<open>The steps of a resolution\<close>

lemma wp_removeRecoveryStages:
  assumes q: "quiet m" and D: "steady m D" and h: "held N D t ps w0 w" and j: "list_all2 (matches N) ps (jo_Files j)" and c: "calm b N ps w w1"
    and e: "\<And>e w2. calm False N ps w w2 \<Longrightarrow> Q (Some e) w2" and n: "\<And>w2. calm True N ps w w2 \<Longrightarrow> Q None w2"
  shows "wp (removeRecoveryStages m j allowOriginal) Q w1"
proof -
  have f: "held N D t ps w0 w1" by (rule calm_held [OF h c])
  note hf = held_facts [OF f]
  have 1: "wp (remove_stages m allowOriginal (jo_Files j)) (\<lambda>_ w'. rows_bound N w') w1"
    by (rule silent_rows [OF silent_remove_stages [OF q] hf(5)])
  show ?thesis unfolding removeRecoveryStages_def
  proof (rule wp_mono [OF wp_and [OF wp_remove_stages [OF q D j hf(1,3,4)] 1]], goal_cases)
    case (1 r w2)
    have "frame ps w w2" "\<forall>p \<in> set ps. old_file p (w_fs w) (w_fs w2)"
      using 1 c by (auto simp: calm_def intro: frame_trans old_trans)
    with 1 show ?case by (cases r) (auto intro!: e n simp: calm_def)
  qed
qed

lemma wp_Clear_journal_done:
  assumes "quiet m"
  shows "wp (Clear_journal m t) (\<lambda>r w'. r = None \<longrightarrow> transaction_of w' = None) w"
  unfolding Clear_journal_def
  by (auto intro!: wp_transact [OF assms]
      simp: on_journal_def delete_journal_def result_simps requireOneRow_def fails_if_def empty_journal_def transaction_of_def split: if_splits)

lemma wp_clear:
  assumes q: "quiet m" and c: "calm True N ps w w1" and o: "\<forall>p \<in> set ps. old_file p (w_fs w0) (w_fs w)"
    and s: "\<And>x. r = Inr x \<Longrightarrow> w_selection w = rr_Selection x"
  shows "wp (on_error (Clear_journal m t) (\<lambda>_. ret (Inl [ErrRecoveryRequired])) (ret r)) (resolving ResolutionDiscardUnapplied N ps w0 w) w1"
  unfolding wp_on_error
proof (rule wp_mono [OF wp_and [OF wp_Clear_journal [OF q, where N = N] wp_Clear_journal_done [OF q]]], goal_cases)
  case (1 x w2)
  have w2: "w_fs w2 = w_fs w1" "rows_bound N w2" "w_selection w2 = w_selection w"
    using 1 c by (auto simp: calm_def frame_def)
  have d: "resolving ResolutionDiscardUnapplied N ps w0 w r' w2" if "transaction_of w2 = None" "\<And>x. r' = Inr x \<Longrightarrow> w_selection w = rr_Selection x" for r'
    by (rule resolving_done [OF c w2(1,2) that(1)]) (use o w2 that in auto)
  have "resolving ResolutionDiscardUnapplied N ps w0 w (Inl e) w2" if "transaction_of w2 = transaction_of w1" for e
    using c w2 that by (auto simp: calm_def resolving_def frame_def)
  with 1 d [of r] d [of "Inl [ErrRecoveryRequired]"] s show ?case by (auto split: option.split)
qed

lemma wp_finalize:
  assumes q: "quiet m" and c: "calm True N ps w w1" and res: "res \<noteq> ResolutionDiscardUnapplied"
    and n: "res = ResolutionFinalizeApplied \<Longrightarrow> \<forall>p \<in> set ps. new_file N p (w_fs w)"
  shows "wp (on_error (FinalizeEdit m s t) (\<lambda>_. ret (Inl [ErrRecoveryRequired])) (ret (Inr (selected_result s)))) (resolving res N ps w0 w) w1"
  unfolding wp_on_error
proof (rule wp_mono [OF wp_FinalizeEdit [OF q, where N = N]], goal_cases)
  case (1 x w2)
  have w2: "w_fs w2 = w_fs w1" "rows_bound N w2" using 1 c by (auto simp: calm_def frame_def)
  have d: "resolving res N ps w0 w r' w2" if "transaction_of w2 = None" "\<And>x. r' = Inr x \<Longrightarrow> w_selection w2 = rr_Selection x" for r'
    by (rule resolving_done [OF c w2(1,2) that(1)]) (use res n that in auto)
  have "resolving res N ps w0 w (Inl e) w2" if "transaction_of w2 = transaction_of w1" "w_selection w2 = w_selection w1" for e
    using c w2 that by (auto simp: calm_def resolving_def frame_def)
  with 1 d [of "Inr (selected_result s)"] d [of "Inl [ErrRecoveryRequired]"] show ?case by (auto simp: selected_result_def split: option.split)
qed

text \<open>What is selected, as seen while a resolution runs.\<close>

lemma wp_selection_calm:
  assumes q: "quiet m" and c: "calm b N ps w w1"
    and "\<And>e w2. calm b N ps w w2 \<Longrightarrow> (ErrNoSelection \<in> set e \<Longrightarrow> w_selection w = None) \<Longrightarrow> Q (Inl e) w2"
    and "\<And>s w2. calm b N ps w w2 \<Longrightarrow> w_selection w = Some s \<Longrightarrow> Q (Inr s) w2"
  shows "wp (selection_Load m) Q w1"
proof -
  have s: "w_selection w1 = w_selection w" using c by (simp add: calm_def frame_def)
  have c': "calm b N ps w (w1\<lparr>w_step := n\<rparr>)" for n by (rule calm_still [OF c]) simp
  show ?thesis unfolding selection_Load_def query_def wp_bind
    by (rule wp_callI [OF q]) (auto simp: s intro!: assms(3,4) c' split: option.split)
qed

lemma wp_without_selection:
  assumes q: "quiet m" and c: "calm b N ps w w1" and "\<And>e w2. calm b N ps w w2 \<Longrightarrow> wp (h e) Q w2"
    and "\<And>w2. calm b N ps w w2 \<Longrightarrow> w_selection w = None \<Longrightarrow> wp k Q w2"
  shows "wp (without_selection m h k) Q w1"
  unfolding without_selection_def wp_bind
  by (rule wp_selection_calm [OF q c]) (auto intro: assms(3,4))

subsection \<open>The resolutions\<close>

lemma calm_result:
  assumes "looks c" "calm b N ps w w1" "\<And>a w2. calm b N ps w w2 \<Longrightarrow> wp (g a) (resolving res N ps w0 w) w2"
  shows "wp (on_result c (\<lambda>e. ret (Inl (k e))) g) (resolving res N ps w0 w) w1"
  unfolding wp_on_result by (rule calm_looks [OF assms(1,2)]) (auto intro: assms(3) split: sum.split)

lemma calm_error:
  assumes "looks c" "calm b N ps w w1" "\<And>w2. calm b N ps w w2 \<Longrightarrow> wp g (resolving res N ps w0 w) w2"
  shows "wp (on_error c (\<lambda>e. ret (Inl (k e))) g) (resolving res N ps w0 w) w1"
  unfolding wp_on_error by (rule calm_looks [OF assms(1,2)]) (auto intro: assms(3) split: option.split)

lemma calm_remove:
  assumes "quiet m" "steady m D" "held N D t ps w0 w" "list_all2 (matches N) ps (jo_Files j)" "calm b N ps w w1"
    "\<And>w2. calm True N ps w w2 \<Longrightarrow> wp g (resolving res N ps w0 w) w2"
  shows "wp (on_error (removeRecoveryStages m j allowOriginal) (\<lambda>e. ret (Inl (k e))) g) (resolving res N ps w0 w) w1"
  unfolding wp_on_error by (rule wp_removeRecoveryStages [OF assms(1-5)]) (auto intro: assms(6))

lemma wp_discard_unapplied:
  assumes q: "quiet m" and D: "steady m D" and h: "held N D t ps w0 w" and j: "list_all2 (matches N) ps (jo_Files j)"
    and gu: "looks guard" and c: "calm False N ps w w1" and o: "\<forall>p \<in> set ps. old_file p (w_fs w0) (w_fs w)"
  shows "wp (discard_unapplied m j guard) (resolving ResolutionDiscardUnapplied N ps w0 w) w1"
  unfolding discard_unapplied_def wp_on_result [of "selection_Load m"]
proof (rule wp_selection_calm [OF q c], goal_cases)
  case (2 s w2)
  have "wp (on_error (Clear_journal m i) (\<lambda>_. ret (Inl [ErrRecoveryRequired])) (ret (Inr (selected_result s)))) (resolving ResolutionDiscardUnapplied N ps w0 w) w3"
    if "calm True N ps w w3" for i w3 by (rule wp_clear [OF q that o]) (simp add: 2(2) selected_result_def)
  with 2(1) show ?case unfolding sum.case
    by (intro calm_result [OF looks_inspector(1) [OF q]] calm_error [OF gu] calm_remove [OF q D h j])
qed auto

lemma wp_discardBootstrapRecovery:
  assumes q: "quiet m" and D: "steady m D" and h: "held N D t ps w0 w" and j: "list_all2 (matches N) ps (jo_Files j)"
    and gu: "looks guard" and c: "calm False N ps w w1" and o: "\<forall>p \<in> set ps. old_file p (w_fs w0) (w_fs w)"
  shows "wp (discardBootstrapRecovery m lease j guard) (resolving ResolutionDiscardUnapplied N ps w0 w) w1"
  unfolding discardBootstrapRecovery_def Let_def
proof (rule wp_without_selection [OF q c], goal_cases)
  case (2 w2)
  have cl: "wp (on_error (Clear_journal m i) (\<lambda>_. ret (Inl [ErrRecoveryRequired])) (ret (Inr \<lparr>rr_Selection = None, rr_SelectionPresent = False\<rparr>)))
     (resolving ResolutionDiscardUnapplied N ps w0 w) w3" if "calm True N ps w w3" for i w3
    by (rule wp_clear [OF q that o]) (simp add: 2(2))
  have "wp (without_selection m (\<lambda>e. ret (Inl e)) (on_error (Clear_journal m i) (\<lambda>_. ret (Inl [ErrRecoveryRequired]))
      (ret (Inr \<lparr>rr_Selection = None, rr_SelectionPresent = False\<rparr>)))) (resolving ResolutionDiscardUnapplied N ps w0 w) w3" if "calm True N ps w w3" for i w3
    by (rule wp_without_selection [OF q that]) (auto intro: cl simp del: wp_on_error)
  with 2(1) show ?case
    by (intro calm_error [OF gu] calm_result [OF looks_InspectRecovery [OF q]] calm_remove [OF q D h j])
      (auto simp del: wp_on_error wp_on_result intro!: calm_result [OF looks_InspectRecovery [OF q]] calm_remove [OF q D h j] split: if_splits)
qed auto

lemma wp_finish_current:
  assumes q: "quiet m" and D: "steady m D" and h: "held N D t ps w0 w" and j: "list_all2 (matches N) ps (jo_Files j)" and c: "calm False N ps w w1"
    and res: "res \<noteq> ResolutionDiscardUnapplied" and n: "res = ResolutionFinalizeApplied \<Longrightarrow> \<forall>p \<in> set ps. new_file N p (w_fs w)"
  shows "wp (finish_current m lease res j prior sources) (resolving res N ps w0 w) w1"
proof -
  have l: "looks (if res = ResolutionFinalizeApplied
         then on_result (InspectRecovery m lease) (\<lambda>_. ret (Some [ErrSourceChanged])) (\<lambda>fresh.
                ret (fails_if (re_TransactionID fresh \<noteq> jo_TransactionID j \<or> re_State fresh \<noteq> RecoveryApplied) [ErrSourceChanged]))
         else ret None)" using q by (auto intro!: looks_intros)
  have fin: "wp (if P then ret (Inl [ErrSourceChanged]) else on_error (FinalizeEdit m s i) (\<lambda>_. ret (Inl [ErrRecoveryRequired])) (ret (Inr (selected_result s))))
      (resolving res N ps w0 w) w2" if "calm True N ps w w2" for P s i w2
    using wp_finalize [OF q that res n] resolving_calm [OF that] by (cases P) (simp_all del: wp_on_error)
  have rm: "wp (if P then ret (Inl [ErrSourceChanged]) else on_error (removeRecoveryStages m j True) (\<lambda>e. ret (Inl (ErrRecoveryRequired # e)))
      (on_result (reread_current m j sources) (\<lambda>e. ret (Inl e)) (\<lambda>final. if P' final then ret (Inl [ErrSourceChanged]) else
        on_error (FinalizeEdit m final i) (\<lambda>_. ret (Inl [ErrRecoveryRequired])) (ret (Inr (selected_result final))))))
      (resolving res N ps w0 w) w2" if "calm False N ps w w2" for P P' i w2
  proof (cases P)
    case False
    show ?thesis unfolding if_not_P [OF False] by (intro calm_remove [OF q D h j that] calm_result [OF looks_reread_current [OF q]] fin)
  qed (use resolving_calm [OF that] in simp)
  have re: "wp (if P then ret (Inl [ErrSourceChanged]) else on_result (reread_current m j sources) (\<lambda>e. ret (Inl e)) g) (resolving res N ps w0 w) w2"
    if "calm False N ps w w2" "\<And>a w3. calm False N ps w w3 \<Longrightarrow> wp (g a) (resolving res N ps w0 w) w3" for P g w2
    using calm_result [OF looks_reread_current [OF q] that] resolving_calm [OF that(1)] by (cases P) (simp_all del: wp_on_result)
  show ?thesis unfolding finish_current_def Let_def
    by (intro calm_error [OF l c] calm_result [OF looks_loads(1) [OF q]] re rm)
qed

lemma wp_resolve_current:
  assumes q: "quiet m" and D: "steady m D" and h: "held N D t ps w0 w" and j: "list_all2 (matches N) ps (jo_Files j)" and c: "calm False N ps w w1"
    and gu: "looks guard" "\<And>v s. validator = Some v \<Longrightarrow> looks (v s)"
    and res: "res \<noteq> ResolutionDiscardUnapplied" and n: "res = ResolutionFinalizeApplied \<Longrightarrow> \<forall>p \<in> set ps. new_file N p (w_fs w)"
  shows "wp (resolve_current m lease res j guard validator) (resolving res N ps w0 w) w1"
proof (cases validator)
  case (Some v)
  have p: "looks (if jo_Bootstrap j then ret (Inr no_review)
                 else on_result (selection_Load m) (\<lambda>e. ret (Inl e)) (\<lambda>prior. ret (Inr (sl_Review prior))))" using q by (auto intro!: looks_intros)
  show ?thesis unfolding resolve_current_def Some option.case
  proof (rule calm_result [OF looks_readRecoveryCurrent [OF q] c], goal_cases)
    case (1 a w2)
    obtain validated sources where a: "a = (validated, sources)" by (cases a)
    show ?case unfolding a prod.case
      by (rule calm_result [OF p 1])
        (auto simp del: wp_on_error wp_on_result
          intro!: calm_error [OF gu(2) [OF Some]] calm_result [OF looks_reread_current [OF q]] calm_error [OF gu(1)]
            wp_finish_current [OF q D h j _ res n])
  qed
qed (use c in \<open>auto simp: resolve_current_def\<close>)

lemma wp_ResolveRecovery:
  assumes q: "quiet m" and D: "steady m D" and h: "held N D t ps w0 w"
    and gu: "\<And>g. guard = Some g \<Longrightarrow> looks g" "\<And>v s. validator = Some v \<Longrightarrow> looks (v s)"
  shows "wp (ResolveRecovery m lease res guard validator) (resolving res N ps w0 w) w"
proof -
  have c: "calm False N ps w w" by (rule calm_start [OF h])
  let ?body = "\<lambda>g recovery journal. if jo_TransactionID journal \<noteq> re_TransactionID recovery then ret (Inl [ErrSourceChanged])
     else
       (case res of
          ResolutionDiscardUnapplied \<Rightarrow>
            if re_State recovery \<noteq> RecoveryUnapplied then ret (Inl [ErrInvalidEdit])
            else if jo_Bootstrap journal then discardBootstrapRecovery m lease journal g
            else discard_unapplied m journal g
        | ResolutionFinalizeApplied \<Rightarrow>
            if re_State recovery \<noteq> RecoveryApplied \<or> jo_Bootstrap journal then ret (Inl [ErrInvalidEdit])
            else resolve_current m lease res journal g validator
        | ResolutionAdoptCurrent \<Rightarrow>
            if re_State recovery = RecoveryUnapplied then ret (Inl [ErrInvalidEdit])
            else resolve_current m lease res journal g validator
        | ResolutionOther _ \<Rightarrow> ret (Inl [ErrInvalidEdit]))"
  have body: "wp (?body g recovery j) (resolving res N ps w0 w) w1"
    if g: "guard = Some g" and v: "verdict N ps w0 w recovery" and j: "list_all2 (matches N) ps (jo_Files j)" and w1: "calm False N ps w w1" for g recovery j w1
  proof -
    have cur: "wp (resolve_current m lease res j g validator) (resolving res N ps w0 w) w1"
      if "res \<noteq> ResolutionDiscardUnapplied" "res = ResolutionFinalizeApplied \<Longrightarrow> \<forall>p \<in> set ps. new_file N p (w_fs w)"
      by (rule wp_resolve_current [OF q D h j w1 gu(1) [OF g]]) (use gu(2) that in auto)
    show ?thesis using v w1 cur
      by (cases res) (auto simp: verdict_def intro!: wp_discard_unapplied [OF q D h j gu(1) [OF g]] wp_discardBootstrapRecovery [OF q D h j gu(1) [OF g]])
  qed
  have load: "wp (on_result (journal_Load m) (\<lambda>_. ret (Inl [ErrSourceChanged])) (?body g recovery)) (resolving res N ps w0 w) w1"
    if g: "guard = Some g" and v: "verdict N ps w0 w recovery" and w1: "calm False N ps w w1" for g recovery w1
    unfolding wp_on_result [of "journal_Load m"]
  proof (rule wp_mono [OF wp_journal_Load [OF q]], goal_cases)
    case (1 r w2)
    have w2: "calm False N ps w w2" using calm_still [OF w1] 1 by blast
    show ?case
    proof (cases r)
      case (Inr j)
      have "list_all2 (matches N) ps (jo_Files j)"
        by (rule held_matches(2) [OF calm_held [OF h w1], of "tm_euid m"]) (use 1 Inr in simp)
      from body [OF g v this w2] show ?thesis unfolding Inr sum.case .
    qed (use w2 in auto)
  qed
  have main: "wp (on_result (InspectRecovery m lease) (\<lambda>e. ret (Inl e)) (\<lambda>recovery.
     on_result (journal_Load m) (\<lambda>_. ret (Inl [ErrSourceChanged])) (?body g recovery))) (resolving res N ps w0 w) (w\<lparr>w_step := n\<rparr>)"
    if g: "guard = Some g" for g n
    unfolding wp_on_result [of "InspectRecovery m lease"]
  proof (rule wp_mono [OF wp_InspectRecovery [OF q D calm_held [OF h calm_still [OF c]]]], goal_cases)
    case 1
    show ?case by simp
  next
    case (2 r w2)
    have w2: "calm False N ps w w2" by (rule calm_still [OF c]) (use 2 in \<open>auto intro: still_trans still_step\<close>)
    show ?case
    proof (cases r)
      case (Inr recovery)
      have "verdict N ps w0 w recovery" using 2 Inr by (simp add: verdict_def file_truth_def cong: list.rel_cong)
      from load [OF g this w2] show ?thesis unfolding Inr sum.case .
    qed (use w2 in auto)
  qed
  have step: "calm False N ps w (w\<lparr>w_step := n\<rparr>)" for n by (rule calm_still [OF c]) simp
  show ?thesis unfolding ResolveRecovery_def wp_on_error
    by (rule looks_wp [OF looks_ready [OF q]]) (use main step in \<open>auto simp del: wp_on_result split: option.split\<close>)
qed

subsection \<open>An interrupted edit and its recovery\<close>

lemma pending_held:
  assumes "pending N D rs w0 w" "0 < N"
  obtains t ps where "held N D t ps w0 w" "entries_for D t 0 (sortReplacements rs) ps" "away (all_slots ps) (w_fs w0) (w_fs w)"
  using assms unfolding pending_def held_def by blast

lemma sorted_set [simp]: "set (sortReplacements rs) = set rs"
  by (simp add: sortReplacements_def)

lemma held_pending:
  assumes "held N D t ps w0 w" "entries_for D t 0 (sortReplacements rs) ps" "away (all_slots ps) (w_fs w0) (w_fs w)"
  shows "pending N D rs w0 w"
  using assms unfolding pending_def held_def by blast

text \<open>What one resolution leaves of the files of an edit that began in \<open>w0\<close>.\<close>

definition resolved :: "RecoveryResolution \<Rightarrow> nat \<Rightarrow> (bytes \<Rightarrow> key option) \<Rightarrow> Replacement list \<Rightarrow> world \<Rightarrow> world \<Rightarrow> (ws_error, RecoveryResult) result \<Rightarrow> world \<Rightarrow> bool" where
  "resolved res N D rs w0 w r w' \<longleftrightarrow>
     (\<forall>x \<in> set rs. kept D (w_fs w) (w_fs w') x) \<and> others_kept D rs (w_fs w0) (w_fs w') \<and>
     (jdb_journal (w_journal w') \<noteq> None \<longrightarrow> pending N D rs w0 w' \<and> w_selection w' = w_selection w) \<and>
     (jdb_journal (w_journal w') = None \<longrightarrow> unused (w_fs w') \<and>
        (res = ResolutionDiscardUnapplied \<longrightarrow> (\<forall>x \<in> set rs. kept D (w_fs w0) (w_fs w') x) \<and> w_selection w' = w_selection w) \<and>
        (res = ResolutionFinalizeApplied \<longrightarrow> (\<forall>x \<in> set rs. replaced D (w_fs w') x))) \<and>
     (\<forall>x. r = Inr x \<longrightarrow> jdb_journal (w_journal w') = None \<and> w_selection w' = rr_Selection x)"

lemma resolving_resolved:
  assumes h: "held N D t ps w0 w" and e: "entries_for D t 0 (sortReplacements rs) ps" and a: "away (all_slots ps) (w_fs w0) (w_fs w)"
    and ed: "editable D rs (w_fs w0)" and r: "resolving res N ps w0 w r w'"
  shows "resolved res N D rs w0 w r w'"
proof -
  have a': "away (all_slots ps) (w_fs w0) (w_fs w')" using away_trans [OF a, of "all_slots ps" "w_fs w'"] r by (simp add: resolving_def)
  have o: "\<forall>p \<in> set ps. old_file p (w_fs w) (w_fs w')" using r by (simp add: resolving_def)
  have k: "\<forall>x \<in> set rs. kept D (w_fs w) (w_fs w') x" using entries_file(1) [OF e o] by simp
  have u: "\<forall>p \<in> set ps. clean_slot p (w_fs w') \<Longrightarrow> unused (w_fs w')"
    using entries_frame(2) [OF e a'] ed by (simp add: editable_def)
  have f: "\<forall>p \<in> set ps. old_file p (w_fs w0) (w_fs w') \<Longrightarrow> \<forall>x \<in> set rs. kept D (w_fs w0) (w_fs w') x"
    "\<forall>p \<in> set ps. new_file N p (w_fs w') \<Longrightarrow> \<forall>x \<in> set rs. replaced D (w_fs w') x"
    using entries_file(1,2) [OF e] by simp_all
  have d: "outcome res N ps w0 w w'" if "transaction_of w' = None" using r h that by (auto simp: resolving_def held_def)
  have p: "pending N D rs w0 w'" "w_selection w' = w_selection w" if "transaction_of w' \<noteq> None"
  proof -
    have t: "transaction_of w' = transaction_of w" "w_selection w' = w_selection w" using r that by (auto simp: resolving_def)
    have "calm False N ps w w'" using r t by (simp add: resolving_def calm_def frame_def)
    from held_pending [OF calm_held [OF h this] e a'] t show "pending N D rs w0 w'" "w_selection w' = w_selection w" by simp_all
  qed
  have x: "\<forall>x. r = Inr x \<longrightarrow> transaction_of w' = None \<and> w_selection w' = rr_Selection x" using r by (simp add: resolving_def)
  have ok: "others_kept D rs (w_fs w0) (w_fs w')" using entries_frame(1) [OF e a'] by (simp add: others_kept_def)
  show ?thesis unfolding resolved_def using k ok p d u f x by (auto simp: outcome_def simp flip: transaction_none)
qed

lemma wp_ResolveRecovery_pending:
  assumes q: "quiet m" and D: "steady m D" and p: "pending N D rs w0 w" "0 < N" and ed: "editable D rs (w_fs w0)"
    and gu: "\<And>g. guard = Some g \<Longrightarrow> looks g" "\<And>v s. validator = Some v \<Longrightarrow> looks (v s)"
  shows "wp (ResolveRecovery m lease res guard validator) (resolved res N D rs w0 w) w"
proof (rule pending_held [OF p])
  fix t ps assume h: "held N D t ps w0 w" "entries_for D t 0 (sortReplacements rs) ps" "away (all_slots ps) (w_fs w0) (w_fs w)"
  show ?thesis
    by (rule wp_mono [OF wp_ResolveRecovery [OF q D h(1), where guard = guard and validator = validator]])
      (use gu resolving_resolved [OF h ed] in auto)
qed

text \<open>Without a journal a resolution fails and changes nothing.\<close>

lemma wp_InspectRecovery_none:
  assumes q: "quiet m" and n: "jdb_journal (w_journal w) = None" and Q: "\<And>e k. Q (Inl e) (w\<lparr>w_step := k\<rparr>)"
  shows "wp (InspectRecovery m lease) Q w"
  unfolding InspectRecovery_def wp_on_error
  by (rule looks_wp [OF looks_ready [OF q]])
    (auto simp: journal_Load_def query_def n Load_journal_def intro!: wp_callI [OF q] Q split: option.split)

lemma wp_ResolveRecovery_none:
  assumes q: "quiet m" and n: "jdb_journal (w_journal w) = None"
  shows "wp (ResolveRecovery m lease res guard validator) (\<lambda>r w'. (\<exists>k. w' = w\<lparr>w_step := k\<rparr>) \<and> isl r) w"
  unfolding ResolveRecovery_def wp_on_error
  by (rule looks_wp [OF looks_ready [OF q]]) (auto simp: n intro!: wp_InspectRecovery_none [OF q] split: option.split)

text \<open>A resolution that an administrator tries, by any process of the program.\<close>

record attempt =
  at_manager :: TransactionManager
  at_lease :: Lease
  at_resolution :: RecoveryResolution
  at_guard :: "ws_error option io option"
  at_validator :: "(SourceSet \<Rightarrow> ws_error option io) option"

definition attempt_recovery :: "attempt \<Rightarrow> (ws_error, RecoveryResult) result io" where
  "attempt_recovery a = ResolveRecovery (at_manager a) (at_lease a) (at_resolution a) (at_guard a) (at_validator a)"

definition attempts :: "attempt list \<Rightarrow> world \<Rightarrow> world" where
  "attempts = fold (\<lambda>a w. snd (run_state (attempt_recovery a) w))"

definition undisturbed :: "(bytes \<Rightarrow> key option) \<Rightarrow> attempt \<Rightarrow> bool" where
  "undisturbed D a \<longleftrightarrow> quiet (at_manager a) \<and> steady (at_manager a) D \<and> (\<forall>g. at_guard a = Some g \<longrightarrow> looks g) \<and>
     (\<forall>v s. at_validator a = Some v \<longrightarrow> looks (v s))"

text \<open>An edit that began in \<open>w0\<close>, whose targets are as in \<open>w1\<close>.\<close>

definition recovering :: "nat \<Rightarrow> (bytes \<Rightarrow> key option) \<Rightarrow> Replacement list \<Rightarrow> world \<Rightarrow> world \<Rightarrow> world \<Rightarrow> bool" where
  "recovering N D rs w0 w1 w \<longleftrightarrow> (jdb_journal (w_journal w) = None \<and> unused (w_fs w) \<or> pending N D rs w0 w) \<and>
     (\<forall>x \<in> set rs. kept D (w_fs w1) (w_fs w) x) \<and> others_kept D rs (w_fs w0) (w_fs w)"

lemma attempt_recovering:
  assumes r: "recovering N D rs w0 w1 w" and N: "0 < N" and ed: "editable D rs (w_fs w0)" and a: "undisturbed D a"
    and run: "run_state (attempt_recovery a) w = (r, w')"
  shows "recovering N D rs w0 w1 w'" "jdb_journal (w_journal w) \<noteq> None \<Longrightarrow> resolved (at_resolution a) N D rs w0 w r w'"
    "jdb_journal (w_journal w) = None \<Longrightarrow> isl r \<and> w_fs w' = w_fs w"
proof -
  have res: "resolved (at_resolution a) N D rs w0 w r w'" if "jdb_journal (w_journal w) \<noteq> None"
  proof -
    have p: "pending N D rs w0 w" using r that by (simp add: recovering_def)
    have "wp (attempt_recovery a) (resolved (at_resolution a) N D rs w0 w) w" unfolding attempt_recovery_def
      by (rule wp_ResolveRecovery_pending [OF _ _ p N ed]) (use a in \<open>auto simp: undisturbed_def\<close>)
    with run show ?thesis by (simp add: wp_def)
  qed
  have none: "(\<exists>k. w' = w\<lparr>w_step := k\<rparr>) \<and> isl r" if n: "jdb_journal (w_journal w) = None"
  proof -
    have "wp (attempt_recovery a) (\<lambda>r w'. (\<exists>k. w' = w\<lparr>w_step := k\<rparr>) \<and> isl r) w" unfolding attempt_recovery_def
      by (rule wp_ResolveRecovery_none [OF _ n]) (use a in \<open>simp add: undisturbed_def\<close>)
    with run show ?thesis by (simp add: wp_def)
  qed
  show "recovering N D rs w0 w1 w'"
  proof (cases "jdb_journal (w_journal w) = None")
    case True
    from none [OF True] obtain k where w': "w' = w\<lparr>w_step := k\<rparr>" by blast
    have "\<not> pending N D rs w0 w" using True by (auto simp: pending_def transaction_of_def)
    with r True show ?thesis by (simp add: recovering_def w')
  next
    case False
    from res [OF False] r show ?thesis by (auto simp: recovering_def resolved_def kept_def)
  qed
  show "jdb_journal (w_journal w) \<noteq> None \<Longrightarrow> resolved (at_resolution a) N D rs w0 w r w'" by (rule res)
  show "jdb_journal (w_journal w) = None \<Longrightarrow> isl r \<and> w_fs w' = w_fs w" using none by auto
qed

lemma attempts_recovering:
  assumes "recovering N D rs w0 w1 w" "0 < N" "editable D rs (w_fs w0)" "\<forall>a \<in> set as. undisturbed D a"
  shows "recovering N D rs w0 w1 (attempts as w)"
  using assms
proof (induction as arbitrary: w)
  case (Cons a as)
  obtain r w' where run: "run_state (attempt_recovery a) w = (r, w')" by force
  have "recovering N D rs w0 w1 w'" by (rule attempt_recovering(1) [OF Cons.prems(1-3) _ run]) (use Cons.prems in simp)
  from Cons.IH [OF this] Cons.prems show ?case by (simp add: attempts_def run)
qed (simp add: attempts_def)

lemma edited_recovering:
  assumes "edited N D rs w0 r w" "jdb_journal (w_journal w0) = None"
  shows "recovering N D rs w0 w w"
  using assms by (auto simp: edited_def committed_def recovering_def kept_def)

text \<open>The truth of a review of the pending edit, in terms of its files.\<close>

lemma wp_InspectRecovery_pending:
  assumes q: "quiet m" and D: "steady m D" and p: "pending N D rs w0 w" "0 < N"
  shows "wp (InspectRecovery m lease) (\<lambda>r w'. (\<forall>rec. r = Inr rec \<longrightarrow>
     (\<forall>x \<in> set rs. \<exists>f \<in> set (re_Files rec). rf_Path f = rp_Path x \<and> (rf_State f = RecoveryFileApplied \<longrightarrow> replaced D (w_fs w) x) \<and>
        (rf_State f \<in> {RecoveryFileUnstaged, RecoveryFileUnapplied} \<longrightarrow> kept D (w_fs w0) (w_fs w) x)) \<and>
     (re_State rec = RecoveryApplied \<longrightarrow> (\<forall>x \<in> set rs. replaced D (w_fs w) x)) \<and>
     (re_State rec = RecoveryUnapplied \<longrightarrow> (\<forall>x \<in> set rs. kept D (w_fs w0) (w_fs w) x))) \<and> still w w') w"
proof (rule pending_held [OF p])
  fix t ps assume h: "held N D t ps w0 w" and e: "entries_for D t 0 (sortReplacements rs) ps"
  show ?thesis
  proof (rule wp_mono [OF wp_InspectRecovery [OF q D h]], intro conjI allI impI ballI, goal_cases)
    case (1 r w' rec x)
    obtain i p where p: "p \<in> set ps" "entry_for D t i x p" using entries_each(2) [OF e] 1(3) by auto
    have "list_all2 (file_truth N w0 w) ps (re_Files rec)" using 1(1,2) by (simp add: verdict_def)
    then obtain f where f: "f \<in> set (re_Files rec)" "file_truth N w0 w p f" using p(1) by (metis in_set_conv_nth list_all2_conv_all_nth)
    have "rf_Path f = rp_Path x" using f(2) p(2) by (simp add: file_truth_def entry_for_def)
    with f entry_file [OF p(2)] show ?case unfolding file_truth_def by blast
  next
    case (2 r w' rec x)
    then show ?case using entries_file(2) [OF e, of N "w_fs w"] by (auto simp: verdict_def)
  next
    case (3 r w' rec x)
    then show ?case using entries_file(1) [OF e, of "w_fs w0" "w_fs w"] by (auto simp: verdict_def)
  qed blast
qed

end
