(* ===== verification/Workspace_Bootstrap.thy ===== *)
theory Workspace_Bootstrap
  imports Workspace_Recovery
begin

text \<open>
  The creation of a missing workspace, \<open>src/internal/workspace/bootstrap_linux.go\<close>: the audit that every
  target is missing below a safe directory, the journal of the creation, its authorization, and the
  inspection of what was created.  Staging and activation are those of an edit.
\<close>

subsection \<open>Audit\<close>

record BootstrapRequest =
  br_WorkingDirectory :: bytes
  br_ConfigurationPath :: bytes

record BootstrapPlan =
  bp_Request :: BootstrapRequest
  bp_CandidateConfiguration :: bytes
  bp_Replacements :: "Replacement list"

fun check_bootstrap_replacements :: "bytes \<Rightarrow> bytes \<Rightarrow> bytes list \<Rightarrow> Replacement list \<Rightarrow> bool" where
  "check_bootstrap_replacements configurationPath candidate seen [] = True"
| "check_bootstrap_replacements configurationPath candidate seen (r # rs) =
     (if rp_Role r \<noteq> RoleConfiguration \<and> rp_Role r \<noteq> RoleDotenv then False
      else if \<not> validateSelectedPath (rp_Path r) then False
      else if rp_Role r = RoleConfiguration \<and> (rp_Path r \<noteq> configurationPath \<or> rp_Content r \<noteq> candidate) then False
      else if int (length (rp_Content r)) > maximumFileLimit (rp_Role r) then False
      else if rp_Path r \<in> set seen then False
      else check_bootstrap_replacements configurationPath candidate (rp_Path r # seen) rs)"

definition validateBootstrapReplacements :: "bytes \<Rightarrow> bytes \<Rightarrow> Replacement list \<Rightarrow> bool" where
  "validateBootstrapReplacements configurationPath candidate replacements \<longleftrightarrow>
     replacements \<noteq> [] \<and> length replacements \<le> 257 \<and> check_bootstrap_replacements configurationPath candidate [] replacements \<and>
     length (filter (\<lambda>r. rp_Role r = RoleConfiguration) replacements) = 1"

text \<open>The referenced dotenv files: each one is a planned replacement that was not used before.\<close>

fun audit_bootstrap_dotenvs ::
    "TransactionManager \<Rightarrow> Replacement list \<Rightarrow> nativeReference list \<Rightarrow> (ws_error, CandidatePath list \<times> Replacement list) result io" where
  "audit_bootstrap_dotenvs m remaining [] = ret (Inr ([], remaining))"
| "audit_bootstrap_dotenvs m remaining (reference # rest) =
     (case find (\<lambda>r. rp_Path r = nr_resolved reference) remaining of
        None \<Rightarrow> ret (Inl [ErrInvalidEdit])
      | Some r \<Rightarrow>
          if rp_Role r \<noteq> RoleDotenv then ret (Inl [ErrInvalidEdit])
          else
            on_result (auditMissingTarget m (nr_resolved reference) RoleDotenv (nr_raw reference)) (\<lambda>e. ret (Inl e)) (\<lambda>(path, _).
            on_result (audit_bootstrap_dotenvs m (filter (\<lambda>r. rp_Path r \<noteq> nr_resolved reference) remaining) rest) (\<lambda>e. ret (Inl e)) (\<lambda>(paths, remaining).
            ret (Inr (path # paths, remaining)))))"

fun audit_bootstrap_webroots :: "TransactionManager \<Rightarrow> nativeReference list \<Rightarrow> (ws_error, PathEvidence list) result io" where
  "audit_bootstrap_webroots m [] = ret (Inr [])"
| "audit_bootstrap_webroots m (reference # rest) = do {
     path \<leftarrow> auditPath m (nr_resolved reference) RoleWebroot (nr_raw reference) directory_requirements;
     if \<not> safe_audit path then ret (Inl [ErrInvalidEdit])
     else on_result (audit_bootstrap_webroots m rest) (\<lambda>e. ret (Inl e)) (\<lambda>es. ret (Inr (ap_evidence path # es))) }"

definition no_candidate_path :: CandidatePath where
  "no_candidate_path = \<lparr>ca_Role = RoleOther [], ca_Reference = [], ca_Path = [], ca_Exists = False, ca_WillCreate = False, ca_Evidence = no_evidence\<rparr>"

text \<open>The references of the candidate, for an audited configuration target.\<close>

definition audit_bootstrap_references ::
    "TransactionManager \<Rightarrow> BootstrapRequest \<Rightarrow> bytes \<Rightarrow> bytes \<Rightarrow> Replacement list \<Rightarrow> BootstrapAudit \<Rightarrow> (ws_error, BootstrapAudit) result io" where
  "audit_bootstrap_references m request configurationPath candidate replacements audit =
     (if \<not> validateBootstrapReplacements configurationPath candidate replacements then ret (Inl [ErrInvalidEdit])
      else
        (let (references, diagnostics) = tm_references m candidate configurationPath (br_WorkingDirectory request) in
         if hasBlockingDiagnostics diagnostics then ret (Inl [ErrInvalidEdit])
         else do {
           storage \<leftarrow> auditPath m (nr_resolved (nr_storage references)) RoleStorage (nr_raw (nr_storage references)) storage_requirements;
           if \<not> safe_audit storage then ret (Inl [ErrInvalidEdit])
           else
             on_result (audit_bootstrap_dotenvs m replacements (nr_dotenv references)) (\<lambda>e. ret (Inl e)) (\<lambda>(dotenv, remaining).
             if list_ex (\<lambda>r. rp_Path r \<noteq> configurationPath) remaining then ret (Inl [ErrInvalidEdit])
             else
               on_result (audit_bootstrap_webroots m (nr_webroots references)) (\<lambda>e. ret (Inl e)) (\<lambda>webroots.
               ret (Inr (audit\<lparr>ba_Storage := ap_evidence storage, ba_Dotenv := dotenv, ba_Webroots := webroots\<rparr>)))) }))"

text \<open>The configuration target: an explicit path, or the conventional one while the other conventional
  name is missing.\<close>

definition audit_bootstrap_target ::
    "TransactionManager \<Rightarrow> BootstrapRequest \<Rightarrow> bytes \<Rightarrow> Replacement list \<Rightarrow> PathEvidence \<Rightarrow> (ws_error, BootstrapAudit) result io" where
  "audit_bootstrap_target m request candidate replacements working =
     (let explicit = (br_ConfigurationPath request \<noteq> []);
          configurationPath = (if explicit then br_ConfigurationPath request else Join_name (br_WorkingDirectory request) ''.lego.yml'') in
      on_result
        (if explicit then ret (Inr no_candidate_path)
         else
           on_result (auditMissingTarget m (Join_name (br_WorkingDirectory request) ''.lego.yaml'') RoleConfiguration [])
             (\<lambda>_. ret (Inl [ErrSourceChanged])) (\<lambda>(missing, _).
             if pe_Type (ca_Evidence missing) \<noteq> PathTypeMissing then ret (Inl [ErrSourceChanged]) else ret (Inr missing)))
        (\<lambda>e. ret (Inl e)) (\<lambda>alternate.
      on_result (auditMissingTarget m configurationPath RoleConfiguration []) (\<lambda>e. ret (Inl e)) (\<lambda>(configuration, parent).
      audit_bootstrap_references m request configurationPath candidate replacements
        \<lparr>ba_ConfigurationSource = (if explicit then ConfigurationExplicit else ConfigurationConventionalYML),
         ba_WorkingDirectory = working, ba_Configuration = configuration, ba_AlternateConfiguration = alternate,
         ba_ConfigurationParent = parent, ba_Storage = no_evidence, ba_Dotenv = [], ba_Webroots = []\<rparr>)))"

definition bootstrap_journal :: "TransactionManager \<Rightarrow> bool \<Rightarrow> ws_error option io" where
  "bootstrap_journal m journalExpected = do {
     r \<leftarrow> journal_Load m;
     ret (case r of
            Inr _ \<Rightarrow> fails_if (\<not> journalExpected) [ErrRecoveryRequired]
          | Inl e \<Rightarrow> if ErrNoEditJournal \<notin> set e then Some e else fails_if journalExpected [ErrSourceChanged]) }"

definition auditBootstrap ::
    "TransactionManager \<Rightarrow> BootstrapRequest \<Rightarrow> bytes \<Rightarrow> Replacement list \<Rightarrow> bool \<Rightarrow> (ws_error, BootstrapAudit) result io" where
  "auditBootstrap m request candidate replacements journalExpected =
     without_selection m (\<lambda>e. ret (Inl e)) (
     on_error (bootstrap_journal m journalExpected) (\<lambda>e. ret (Inl e)) (
     if \<not> validateSelectedPath (br_WorkingDirectory request)
        \<or> br_ConfigurationPath request \<noteq> [] \<and> \<not> validateSelectedPath (br_ConfigurationPath request) then ret (Inl plain_error)
     else if candidate = [] \<or> int (length candidate) > tm_MaxConfigurationBytes m then ret (Inl [ErrInvalidEdit])
     else do {
       working \<leftarrow> auditPath m (br_WorkingDirectory request) RoleWorkingDirectory [] working_requirements;
       if \<not> safe_audit working then ret (Inl [ErrInvalidEdit])
       else do {
         confirmation \<leftarrow> auditPath m (br_WorkingDirectory request) RoleWorkingDirectory [] working_requirements;
         if \<not> pe_Safe (ap_evidence confirmation) \<or> \<not> samePathPlacementEvidence (ap_evidence working) (ap_evidence confirmation)
         then ret (Inl [ErrSourceChanged])
         else audit_bootstrap_target m request candidate replacements (ap_evidence working) } }))"

definition AuditBootstrap ::
    "TransactionManager \<Rightarrow> Lease \<Rightarrow> BootstrapRequest \<Rightarrow> bytes \<Rightarrow> Replacement list \<Rightarrow> (ws_error, BootstrapAudit) result io" where
  "AuditBootstrap m lease request candidate replacements =
     on_error (manager_ready m lease) (\<lambda>e. ret (Inl e)) (auditBootstrap m request candidate replacements False)"

subsection \<open>Journal\<close>

definition prepare_creation ::
    "TransactionManager \<Rightarrow> bytes \<Rightarrow> nat \<Rightarrow> Replacement \<Rightarrow> (ws_error, preparedReplacement) result io" where
  "prepare_creation m transactionID index r =
     on_result (openReplacementParent m (rp_Path r)) (\<lambda>e. ret (Inl e)) (\<lambda>(parent, parentID). do {
       let stage = stage_basename transactionID index;
       stageMissing \<leftarrow> missingAt m parent stage;
       cleanupMissing \<leftarrow> missingAt m parent (cleanupBasename stage);
       targetMissing \<leftarrow> missingAt m parent (Base (rp_Path r));
       if stageMissing \<noteq> Some True \<or> cleanupMissing \<noteq> Some True \<or> targetMissing \<noteq> Some True then ret (Inl [ErrSourceChanged])
       else ret (Inr \<lparr>pr_replacement = r, pr_ordinal = int index, pr_parent = parent, pr_parentID = parentID,
                  pr_stage = stage, pr_original = no_fingerprint, pr_candidate = no_fingerprint,
                  pr_existed = False, pr_activated = False, pr_cleanupUncertain = False\<rparr>) })"

fun prepare_creations ::
    "TransactionManager \<Rightarrow> bytes \<Rightarrow> nat \<Rightarrow> Replacement list \<Rightarrow> (ws_error, preparedReplacement list) result io" where
  "prepare_creations m transactionID index [] = ret (Inr [])"
| "prepare_creations m transactionID index (r # rs) =
     on_result (prepare_creation m transactionID index r) (\<lambda>e. ret (Inl e)) (\<lambda>p.
     on_result (prepare_creations m transactionID (Suc index) rs) (\<lambda>e. ret (Inl e)) (\<lambda>ps. ret (Inr (p # ps))))"

definition prepareBootstrapJournal ::
    "TransactionManager \<Rightarrow> bytes \<Rightarrow> BootstrapAudit \<Rightarrow> Replacement list \<Rightarrow> (ws_error, preparedReplacement list \<times> Journal) result io" where
  "prepareBootstrapJournal m transactionID audit replacements = do {
     createdAt \<leftarrow> now m;
     on_result (prepare_creations m transactionID 0 replacements) (\<lambda>e. ret (Inl e)) (\<lambda>prepared.
       if IsZero createdAt then ret (Inl plain_error)
       else ret (Inr (prepared,
            \<lparr>jo_TransactionID = transactionID, jo_Phase = JournalStaging,
             jo_WorkingDirectory = pe_Path (ba_WorkingDirectory audit), jo_ConfigurationPath = ca_Path (ba_Configuration audit),
             jo_Bootstrap = True, jo_ConfigurationSource = ba_ConfigurationSource audit, jo_CreatedAt = to_UTC createdAt,
             jo_Files = map journal_file_of prepared\<rparr>))) }"

definition recheckBootstrap ::
    "TransactionManager \<Rightarrow> BootstrapRequest \<Rightarrow> bytes \<Rightarrow> Replacement list \<Rightarrow> BootstrapAudit \<Rightarrow> preparedReplacement list \<Rightarrow> ws_error option io" where
  "recheckBootstrap m request candidate replacements reviewed prepared =
     on_result (auditBootstrap m request candidate replacements True) (\<lambda>_. ret (Some [ErrSourceChanged])) (\<lambda>current.
     if BootstrapFingerprint (tm_sha256 m) current \<noteq> BootstrapFingerprint (tm_sha256 m) reviewed then ret (Some [ErrSourceChanged])
     else recheck_entries m prepared)"

subsection \<open>What was created\<close>

fun created_dotenvs ::
    "TransactionManager \<Rightarrow> CandidatePath list \<Rightarrow> PathEvidence list \<Rightarrow> SourceFile list \<Rightarrow> Replacement list \<Rightarrow> (ws_error, Replacement list) result" where
  "created_dotenvs m expected evidence [] remaining = Inr remaining"
| "created_dotenvs m (x # xs) (e # es) (source # rest) remaining =
     (if ca_Path x \<noteq> so_Path source \<or> \<not> samePathAncestorEvidence (ca_Evidence x) e then Inl [ErrSourceChanged]
      else
        (case find (\<lambda>r. rp_Path r = so_Path source) remaining of
           None \<Rightarrow> Inl plain_error
         | Some r \<Rightarrow>
             if rp_Role r \<noteq> RoleDotenv \<or> sf_SHA256 (so_Fingerprint source) \<noteq> tm_sha256 m (rp_Content r) then Inl plain_error
             else created_dotenvs m xs es rest (filter (\<lambda>r. rp_Path r \<noteq> so_Path source) remaining)))"
| "created_dotenvs m _ _ (source # rest) remaining = Inl [ErrSourceChanged]"

text \<open>The fresh snapshot holds exactly the created files.\<close>

definition created_sources ::
    "TransactionManager \<Rightarrow> BootstrapAudit \<Rightarrow> Review \<Rightarrow> bytes \<Rightarrow> Replacement list \<Rightarrow> SourceSet \<Rightarrow> ws_error option" where
  "created_sources m audit review candidate replacements sources =
     (let configuration = ss_Configuration sources in
      case find (\<lambda>r. rp_Path r = so_Path configuration) replacements of
        None \<Rightarrow> Some plain_error
      | Some r \<Rightarrow>
          if rp_Role r \<noteq> RoleConfiguration \<or> rp_Content r \<noteq> candidate \<or> sf_SHA256 (so_Fingerprint configuration) \<noteq> tm_sha256 m candidate
          then Some plain_error
          else
            (case created_dotenvs m (ba_Dotenv audit) (rv_DotenvFiles review) (ss_Dotenv sources)
                    (filter (\<lambda>r. rp_Path r \<noteq> so_Path configuration) replacements) of
               Inl e \<Rightarrow> Some e
             | Inr remaining \<Rightarrow> fails_if (remaining \<noteq> []) plain_error))"

definition inspect_created ::
    "TransactionManager \<Rightarrow> BootstrapRequest \<Rightarrow> BootstrapAudit \<Rightarrow> bytes \<Rightarrow> Replacement list \<Rightarrow> (ws_error, Selection) result io" where
  "inspect_created m request audit candidate replacements =
     on_result (inspector_Inspect m \<lparr>rq_WorkingDirectory = br_WorkingDirectory request,
         rq_ConfigurationPath = (if ba_ConfigurationSource audit = ConfigurationExplicit then ca_Path (ba_Configuration audit) else [])\<rparr>)
       (\<lambda>_. ret (Inl plain_error)) (\<lambda>review.
       if \<not> rv_Adoptable review \<or> pe_Path (rv_Configuration review) \<noteq> ca_Path (ba_Configuration audit) then ret (Inl plain_error)
       else if \<not> samePathPlacementEvidence (ba_WorkingDirectory audit) (rv_WorkingDirectory review)
          \<or> \<not> samePathAncestorEvidence (ca_Evidence (ba_Configuration audit)) (rv_Configuration review)
          \<or> \<not> samePathPlacementEvidence (ba_Storage audit) (rv_Storage review)
          \<or> \<not> samePathPlacementEvidenceSlice (ba_Webroots audit) (rv_Webroots review)
          \<or> length (ba_Dotenv audit) \<noteq> length (rv_DotenvFiles review) then ret (Inl [ErrSourceChanged])
       else do {
         t \<leftarrow> now m;
         let selection = \<lparr>sl_Review = review, sl_ReviewedAt = reviewed_at t review\<rparr> in
         on_result (snapshotSelection m selection) (\<lambda>e. ret (Inl e)) (\<lambda>sources.
         ret (case created_sources m audit review candidate replacements sources of Some e \<Rightarrow> Inl e | None \<Rightarrow> Inr selection)) })"

definition inspectBootstrapCommitted ::
    "TransactionManager \<Rightarrow> BootstrapRequest \<Rightarrow> BootstrapAudit \<Rightarrow> bytes \<Rightarrow> Replacement list \<Rightarrow> (ws_error, Selection) result io" where
  "inspectBootstrapCommitted m request audit candidate replacements =
     without_selection m (\<lambda>e. ret (Inl e)) (
     on_error
       (if ba_ConfigurationSource audit = ConfigurationConventionalYML
        then on_result (auditMissingTarget m (Join_name (br_WorkingDirectory request) ''.lego.yaml'') RoleConfiguration [])
               (\<lambda>_. ret (Some [ErrSourceChanged])) (\<lambda>(alternate, _).
               ret (fails_if (\<not> samePathAncestorEvidence (ca_Evidence (ba_AlternateConfiguration audit)) (ca_Evidence alternate)) [ErrSourceChanged]))
        else ret None) (\<lambda>e. ret (Inl e)) (
     inspect_created m request audit candidate replacements))"

subsection \<open>Bootstrap\<close>

definition finish_bootstrap ::
    "TransactionManager \<Rightarrow> BootstrapPlan \<Rightarrow> bytes \<Rightarrow> BootstrapAudit \<Rightarrow> Replacement list \<Rightarrow> (ws_error, Selection) result io" where
  "finish_bootstrap m plan transactionID audit replacements =
     on_error (SetPhase m transactionID JournalFinalizing) (\<lambda>_. ret (Inl [ErrRecoveryRequired])) (
     case inject m FailureBeforeFinalize (-1) of Some _ \<Rightarrow> ret (Inl [ErrRecoveryRequired]) | None \<Rightarrow>
     on_result (inspectBootstrapCommitted m (bp_Request plan) audit (bp_CandidateConfiguration plan) replacements)
       (\<lambda>e. ret (Inl (ErrRecoveryRequired # e))) (\<lambda>selection.
     on_error (FinalizeEdit m selection transactionID) (\<lambda>_. ret (Inl [ErrRecoveryRequired])) (ret (Inr selection))))"

text \<open>From the journaled plan on; a failed activation always leaves the journal.\<close>

definition run_bootstrap ::
    "TransactionManager \<Rightarrow> BootstrapPlan \<Rightarrow> ws_error option io \<Rightarrow> bytes \<Rightarrow> BootstrapAudit \<Rightarrow> Replacement list \<Rightarrow>
     Journal \<Rightarrow> preparedReplacement list \<Rightarrow> (ws_error, Selection) result io" where
  "run_bootstrap m plan guard transactionID audit replacements journal prepared =
     (case inject m FailureAfterJournal (-1) of Some _ \<Rightarrow> ret (Inl [ErrRecoveryRequired]) | None \<Rightarrow> do {
        (result, prepared) \<leftarrow> stage_all m transactionID 0 prepared;
        let abort = abortBeforeReplacement m journal prepared;
            recheck = recheckBootstrap m (bp_Request plan) (bp_CandidateConfiguration plan) replacements audit prepared in
        case result of
          Some (e, clean) \<Rightarrow> if clean then abort e else ret (Inl e)
        | None \<Rightarrow>
            on_error recheck abort (
            on_error (SetPhase m transactionID JournalPrepared) abort (
            case inject m FailureAfterPrepared (-1) of Some _ \<Rightarrow> ret (Inl [ErrRecoveryRequired]) | None \<Rightarrow>
            on_error (SetPhase m transactionID JournalReplacing) abort (
            on_error guard abort (
            on_error recheck abort (do {
              (result, prepared) \<leftarrow> activate_all m transactionID 0 True prepared;
              case result of
                Some (e, _) \<Rightarrow> ret (Inl e)
              | None \<Rightarrow> finish_bootstrap m plan transactionID audit replacements }))))) })"

definition Bootstrap ::
    "TransactionManager \<Rightarrow> Lease \<Rightarrow> BootstrapPlan \<Rightarrow> ws_error option io option \<Rightarrow> (ws_error, Selection) result io" where
  "Bootstrap m lease plan guard =
     on_error (manager_ready m lease) (\<lambda>e. ret (Inl e)) (
     case guard of None \<Rightarrow> ret (Inl [ErrInvalidEdit]) | Some guard \<Rightarrow>
     on_result (auditBootstrap m (bp_Request plan) (bp_CandidateConfiguration plan) (bp_Replacements plan) False)
       (\<lambda>e. ret (Inl e)) (\<lambda>audit.
     let replacements = sortReplacements (bp_Replacements plan) in
     or_else (NewTransactionID m) (ret (Inl plain_error)) (\<lambda>transactionID.
     on_result (prepareBootstrapJournal m transactionID audit replacements) (\<lambda>e. ret (Inl e)) (\<lambda>(prepared, journal).
     on_error (journal_Create m journal) (\<lambda>e. ret (Inl e)) (
     run_bootstrap m plan guard transactionID audit replacements journal prepared)))))"

end
