(* ===== verification/Workspace_Creation.thy ===== *)
theory Workspace_Creation
  imports Workspace_Resolve Workspace_Bootstrap
begin

text \<open>
  The creation of a workspace is atomic in the same sense as an edit, and an interrupted creation is a
  pending edit, so that the facts about recovery hold for it as well.
\<close>

subsection \<open>The audit looks\<close>

lemma looks_audit_bootstrap_dotenvs [looks_intros]: "quiet m \<Longrightarrow> looks (audit_bootstrap_dotenvs m remaining refs)"
  by (induction refs arbitrary: remaining) (auto intro!: looks_intros split: option.split)

lemma looks_audit_bootstrap_webroots [looks_intros]: "quiet m \<Longrightarrow> looks (audit_bootstrap_webroots m refs)"
  by (induction refs) (auto intro!: looks_intros)

lemma looks_audit_bootstrap_references [looks_intros]:
  "quiet m \<Longrightarrow> looks (audit_bootstrap_references m request path candidate rs audit)"
  unfolding audit_bootstrap_references_def Let_def by (auto intro!: looks_intros split: prod.split)

lemma looks_audit_bootstrap_target [looks_intros]: "quiet m \<Longrightarrow> looks (audit_bootstrap_target m request candidate rs working)"
  unfolding audit_bootstrap_target_def Let_def by (auto intro!: looks_intros)

lemma looks_auditBootstrap [looks_intros]: "quiet m \<Longrightarrow> looks (auditBootstrap m request candidate rs expected)"
  unfolding auditBootstrap_def bootstrap_journal_def by (auto intro!: looks_intros)

lemma looks_prepareBootstrapJournal [looks_intros]: "quiet m \<Longrightarrow> looks (prepareBootstrapJournal m t audit rs)"
proof -
  assume q: "quiet m"
  then have "looks (prepare_creations m t i rs)" for i
    by (induction rs arbitrary: i) (auto simp: prepare_creation_def Let_def intro!: looks_intros)
  with q show ?thesis unfolding prepareBootstrapJournal_def by (auto intro!: looks_intros)
qed

lemma looks_recheckBootstrap [looks_intros]: "quiet m \<Longrightarrow> looks (recheckBootstrap m request candidate rs audit ps)"
  unfolding recheckBootstrap_def by (auto intro!: looks_intros)

lemma looks_inspectBootstrapCommitted [looks_intros]: "quiet m \<Longrightarrow> looks (inspectBootstrapCommitted m request audit candidate rs)"
  unfolding inspectBootstrapCommitted_def inspect_created_def Let_def by (auto intro!: looks_intros)

subsection \<open>The prepared creation\<close>

text \<open>A target that is already there, and entries whose targets are not.\<close>

definition occupied :: "(bytes \<Rightarrow> key option) \<Rightarrow> Replacement list \<Rightarrow> filesystem \<Rightarrow> bool" where
  "occupied D rs fs \<longleftrightarrow> (\<exists>r \<in> set rs. \<exists>d. D (Dir_abs (rp_Path r)) = Some d \<and> fs_names fs (d, Base (rp_Path r)) \<noteq> None)"

definition vacant :: "filesystem \<Rightarrow> preparedReplacement list \<Rightarrow> bool" where
  "vacant fs ps \<longleftrightarrow> list_all (\<lambda>p. fs_names fs (target_of p) = None) ps"

lemma vacant_entries: "entries_for D t i rs ps \<Longrightarrow> vacant fs ps \<Longrightarrow> \<not> occupied D rs fs"
proof (induction D t i rs ps rule: entries_for.induct)
  case (1 D t i r rs p ps)
  then show ?case by (auto simp: vacant_def occupied_def entry_for_def target_of_def)
qed (simp_all add: occupied_def)

lemma wp_prepare_creation:
  assumes q: "quiet m" and D: "steady m D" and t: "tidy (w_fs w)"
  shows "wp (prepare_creation m i n r) (\<lambda>x w'. still w w' \<and> (\<forall>p. x = Inr p \<longrightarrow> entry_for D i n r p \<and> original_below N p \<and> names w (target_of p) = None)) w"
proof -
  have mi: "wp (missingAt m d name) Q v" if "still w v" "\<And>r v'. still w v' \<Longrightarrow> (r = Some True \<Longrightarrow> names w (d, name) = None) \<Longrightarrow> Q r v'" for d name Q v
    by (rule wp_missingAt [OF q])
      (use that t in \<open>auto simp: still_def same_world_def intro!: that(2) intro: still_trans still_step\<close>)
  have op: "wp (openReplacementParent m target) (\<lambda>r w'. still w w' \<and> (\<forall>d i. r = Inr (d, i) \<longrightarrow> D (Dir_abs target) = Some d)) w" for target
    by (rule wp_and [OF looks_still [OF looks_openReplacementParent [OF q]] wp_openReplacementParent [OF q D]])
  show ?thesis unfolding prepare_creation_def wp_on_result Let_def
    by (rule wp_mono [OF op])
      (auto intro!: mi simp: entry_for_def original_below_def no_fingerprint_def no_identity_def target_of_def split: sum.split)
qed

lemma wp_prepare_creations:
  assumes q: "quiet m" and D: "steady m D" and "tidy (w_fs w)"
  shows "wp (prepare_creations m t i rs) (\<lambda>x w'. still w w' \<and> (\<forall>ps. x = Inr ps \<longrightarrow> entries_for D t i rs ps \<and> list_all (original_below N) ps \<and> vacant (w_fs w) ps)) w"
  using assms(3)
proof (induction rs arbitrary: i w)
  case (Cons r rs)
  show ?case unfolding prepare_creations.simps wp_on_result
  proof (rule wp_mono [OF wp_prepare_creation [OF q D Cons.prems, where N = N]], goal_cases)
    case (1 x w1)
    have fs: "w_fs w1 = w_fs w" using 1 by (simp add: still_def same_world_def)
    show ?case
    proof (cases x)
      case (Inr p)
      have "wp (prepare_creations m t (Suc i) rs) (\<lambda>x w'. still w1 w' \<and>
         (\<forall>ps. x = Inr ps \<longrightarrow> entries_for D t (Suc i) rs ps \<and> list_all (original_below N) ps \<and> vacant (w_fs w) ps)) w1"
        using Cons.IH [of w1 "Suc i"] Cons.prems by (simp add: fs)
      then show ?thesis unfolding Inr sum.case
        by (rule wp_mono) (use 1 Inr in \<open>auto simp: vacant_def intro: still_trans split: sum.split\<close>)
    qed (use 1 in simp)
  qed
qed (simp add: vacant_def)

lemma wp_prepareBootstrapJournal:
  assumes q: "quiet m" and D: "steady m D" and "tidy (w_fs w)"
  shows "wp (prepareBootstrapJournal m t audit rs) (\<lambda>x w'. same_world w w' \<and> (\<forall>ps j. x = Inr (ps, j) \<longrightarrow> journaled N D t rs ps j \<and> \<not> occupied D rs (w_fs w))) w"
proof -
  have pc: "wp (prepare_creations m t 0 rs) (\<lambda>x w'. same_world w w' \<and> (\<forall>ps. x = Inr ps \<longrightarrow> entries_for D t 0 rs ps \<and> list_all (original_below N) ps \<and> \<not> occupied D rs (w_fs w)))
      (w\<lparr>w_step := n\<rparr>)" for n
    by (rule wp_mono [OF wp_prepare_creations [OF q D, where N = N]])
      (use assms(3) vacant_entries in \<open>auto simp: still_def same_world_def\<close>)
  show ?thesis unfolding prepareBootstrapJournal_def now_def using q
    by (auto simp: journaled_def intro!: wp_mono [OF pc] split: sum.split)
qed

subsection \<open>The creation\<close>

lemma wp_activate_bootstrap:
  assumes q: "quiet m" and sep: "separate ps" and f: "frame ps w w1" and o: "\<forall>p \<in> set ps. old_file p (w_fs w) (w_fs w1)"
    and ps': "list_all2 same_slot ps ps'" and st: "\<forall>p \<in> set ps'. staged_file m N p (w_fs w1)"
    and rb: "rows_bound N w1" and old: "older N ps (w_fs w)"
  shows "wp (State_Monad.bind (activate_all m t 0 True ps') (\<lambda>(result, prepared). case result of
      Some (e, _) \<Rightarrow> ret (Inl e) | None \<Rightarrow> finish_bootstrap m plan t audit rs)) (committing N ps w) w1"
  unfolding wp_bind
proof -
  note eq = same_slots [OF ps']
  have sep': "separate ps'" and g': "goods ps' (w_fs w1)" using sep f by (simp_all add: eq frame_def)
  have old': "older N ps' (w_fs w1)" using older_old [OF old o] by (simp add: older_slots [OF ps'])
  show "wp (activate_all m t 0 True ps') (\<lambda>a. wp (case a of (result, prepared) \<Rightarrow> case result of
      Some (e, _) \<Rightarrow> ret (Inl e) | None \<Rightarrow> finish_bootstrap m plan t audit rs) (committing N ps w)) w1"
  proof (rule wp_mono [OF wp_activate_all [OF q sep' g' st rb old']], goal_cases)
    case (1 a w2)
    obtain r ps2 where a: "a = (r, ps2)" by force
    have f2: "frame ps w w2" using 1 f by (auto simp: a activations_def eq intro: frame_trans)
    have rb2: "rows_bound N w2" using 1 by (simp add: a activations_def)
    have mix: "\<forall>p \<in> set ps. old_file p (w_fs w) (w_fs w2) \<or> new_file N p (w_fs w2)"
      using 1 o same_slots_all [OF ps', of "\<lambda>p. old_file p (w_fs w1) (w_fs w2) \<or> new_file N p (w_fs w2)"]
      by (auto simp: a activations_def slot_same intro: old_trans)
    show ?case
    proof (cases r)
      case None
      then have "\<forall>p \<in> set ps. new_file N p (w_fs w2) \<and> clean_slot p (w_fs w2)"
        using 1 eq(6) [of N "w_fs w2"] eq(7) [of "w_fs w2"] by (simp add: a activations_def ball_conj_distrib)
      from wp_finish_edit [OF q f2 this rb2 looks_inspectBootstrapCommitted [OF q]] show ?thesis
        by (simp add: a None finish_bootstrap_def del: wp_on_error)
    next
      case (Some x)
      obtain e b where x: "x = (e, b)" by (cases x)
      have "\<not> b" using 1 by (cases b) (simp_all add: a Some x activations_def)
      then have "ErrRecoveryRequired \<in> set e" using 1 by (simp add: a Some x activations_def)
      with f2 mix rb2 show ?thesis by (simp add: a Some x committing_def frame_def)
    qed
  qed
qed

lemma wp_run_bootstrap:
  assumes q: "quiet m" and gu: "looks guard" and sep: "separate ps" and g: "goods ps (w_fs w)"
    and tr: "\<forall>p \<in> set ps. names w (trash_of p) = None"
    and rb: "rows_bound N w" "N \<le> fs_next (w_fs w)" "older N ps (w_fs w)"
  shows "wp (run_bootstrap m plan guard t audit rs journal ps) (committing N ps w) w"
proof (cases "inject m FailureAfterJournal (-1)")
  case (Some e)
  then show ?thesis using g rb by (simp add: run_bootstrap_def committing_def)
next
  case None
  show ?thesis unfolding run_bootstrap_def None option.case wp_bind
  proof (rule wp_mono [OF wp_stage_all [OF q sep g tr rb(1,2)]], goal_cases)
    case (1 a w1)
    obtain r ps' where a: "a = (r, ps')" by force
    have f: "frame ps w w1" and ps': "list_all2 same_slot ps ps'" and o: "\<forall>p \<in> set ps. old_file p (w_fs w) (w_fs w1)"
      and rb1: "rows_bound N w1" using 1 by (simp_all add: a staging_def candidates_slots)
    have ab: "wp (abortBeforeReplacement m journal ps' e) (committing N ps w) w'" if "still w1 w'" for e w'
      using that f o rb1 still_rows [OF that, of N] by (intro wp_abort [OF q sep _ _ ps']) (auto simp: still_def same_world_def frame_def)
    have rec: "committing N ps w (Inl [ErrRecoveryRequired]) w'" if "still w1 w'" for w'
      using that f o rb1 still_rows [OF that, of N] by (auto simp: still_def same_world_def committing_def frame_def)
    show ?case
    proof (cases r)
      case (Some x)
      obtain e clean where x: "x = (e, clean)" by force
      have "committing N ps w (Inl e) w1" if "\<not> clean" using f o that 1 rb1 by (simp add: a Some x staging_def committing_def frame_def)
      then show ?thesis using ab [of w1 e] by (simp add: a Some x Let_def)
    next
      case None
      have st: "\<forall>p \<in> set ps'. staged_file m N p (w_fs w1)" using 1 by (simp add: a None staging_def)
      have go: "wp (State_Monad.bind (activate_all m t 0 True ps') (\<lambda>(result, prepared). case result of
            Some (e, _) \<Rightarrow> ret (Inl e) | None \<Rightarrow> finish_bootstrap m plan t audit rs)) (committing N ps w) w'" if "still w1 w'" for w'
        using that f o st rb1 still_rows [OF that, of N] rb(3) by (intro wp_activate_bootstrap [OF q sep _ _ ps']) (auto simp: still_def same_world_def frame_def)
      have re: "wp (recheckBootstrap m (bp_Request plan) (bp_CandidateConfiguration plan) rs audit ps') Q w'" if "\<And>r w''. still w' w'' \<Longrightarrow> Q r w''" for Q w'
        by (rule looks_still [OF looks_recheckBootstrap [OF q]]) (rule that)
      have gd: "wp guard Q w'" if "\<And>r w''. still w' w'' \<Longrightarrow> Q r w''" for Q w'
        by (rule looks_still [OF gu]) (rule that)
      have se: "wp (SetPhase m t phase) Q w'" if "\<And>r w''. still w' w'' \<Longrightarrow> Q r w''" for Q w' phase
        by (rule phase_still [OF q]) (rule that)
      show ?thesis
        by (auto simp: a None Let_def simp del: wp_bind intro!: re se gd ab rec go split: option.split) (simp_all add: still_def same_world_def)
    qed
  qed
qed

definition creating :: "nat \<Rightarrow> (bytes \<Rightarrow> key option) \<Rightarrow> Replacement list \<Rightarrow> world \<Rightarrow> (ws_error, Selection) result \<Rightarrow> world \<Rightarrow> bool" where
  "creating N D rs w r w' \<longleftrightarrow> edited N D rs w r w' \<and> (occupied D rs (w_fs w) \<longrightarrow> isl r \<and> w_fs w' = w_fs w)"

lemma wp_Bootstrap:
  assumes q: "quiet m" and D: "steady m D" and gu: "\<And>g. guard = Some g \<Longrightarrow> looks g" and ed: "editable D (bp_Replacements plan) (w_fs w)"
    and N: "N = 0 \<or> N = fs_next (w_fs w)"
  shows "wp (Bootstrap m lease plan guard) (creating N D (bp_Replacements plan) w) w"
proof -
  let ?rs = "sortReplacements (bp_Replacements plan)" and ?C = "creating N D (bp_Replacements plan) w"
  have early: "?C (Inl e) w'" if "same_world w w'" for e w'
    using early_edited [OF ed, of w' N e] that by (simp add: creating_def same_world_def)
  have prep: "wp (or_else (NewTransactionID m) (ret (Inl plain_error)) (\<lambda>t.
       on_result (prepareBootstrapJournal m t audit ?rs) (\<lambda>e. ret (Inl e)) (\<lambda>(prepared, journal).
       on_error (journal_Create m journal) (\<lambda>e. ret (Inl e)) (
       run_bootstrap m plan g t audit ?rs journal prepared)))) ?C w1"
    if g: "guard = Some g" and w1: "same_world w w1" for g audit w1
    unfolding wp_or_else
  proof (rule looks_same [OF looks_NewTransactionID [OF q]], goal_cases)
    case (1 t w2)
    then have w2: "same_world w w2" using w1 by (rule same_world_trans [rotated])
    have t2: "tidy (w_fs w2)" "w_fs w2 = w_fs w" using w2 ed by (simp_all add: same_world_def editable_def)
    show ?case
    proof (cases t)
      case (Some t)
      show ?thesis unfolding Some option.case wp_on_result
      proof (rule wp_mono [OF wp_prepareBootstrapJournal [OF q D t2(1), where N = N]], goal_cases)
        case (1 x w3)
        then have w3: "same_world w w3" using w2 by (blast intro: same_world_trans)
        have "wp (on_error (journal_Create m j) (\<lambda>e. ret (Inl e)) (run_bootstrap m plan g t audit ?rs j ps)) ?C w3"
          if x: "x = Inr (ps, j)" for ps j
        proof (rule wp_mono [OF wp_journaled [OF q ed _ N]])
          show "journaled N D t ?rs ps j" using 1 x by blast
          have "\<not> occupied D (bp_Replacements plan) (w_fs w)" using 1 x t2(2) by (simp add: occupied_def)
          then show "edited N D (bp_Replacements plan) w r w' \<Longrightarrow> ?C r w'" for r w' by (simp add: creating_def)
        qed (use w3 in \<open>auto simp: same_world_def intro: wp_run_bootstrap [OF q gu [OF g]]\<close>)
        with early [OF w3] show ?case by (auto simp del: wp_on_error split: sum.split)
      qed
    qed (use early [OF w2] in simp)
  qed
  show ?thesis unfolding Bootstrap_def Let_def wp_on_error
  proof (rule looks_same [OF looks_ready [OF q]], goal_cases)
    case (1 r w1)
    have "wp (auditBootstrap m (bp_Request plan) (bp_CandidateConfiguration plan) (bp_Replacements plan) False)
       (\<lambda>r. case r of Inl e \<Rightarrow> wp (ret (Inl e)) ?C | Inr audit \<Rightarrow> wp (or_else (NewTransactionID m) (ret (Inl plain_error)) (\<lambda>t.
       on_result (prepareBootstrapJournal m t audit ?rs) (\<lambda>e. ret (Inl e)) (\<lambda>(prepared, journal).
       on_error (journal_Create m journal) (\<lambda>e. ret (Inl e)) (
       run_bootstrap m plan g t audit ?rs journal prepared)))) ?C) w1" if "guard = Some g" for g
      by (rule looks_same [OF looks_auditBootstrap [OF q]])
        (use that prep early same_world_trans [OF 1] in \<open>auto simp del: wp_or_else split: sum.split\<close>)
    with 1 early show ?case by (auto simp del: wp_or_else split: option.split)
  qed
qed

end
