(* ===== verification/Workspace_Properties.thy ===== *)
theory Workspace_Properties
  imports Workspace_Creation
begin

text \<open>
  The properties of native edits, with a small workspace on which their hypotheses hold: a directory
  with a configuration and one dotenv file, and a plan that replaces the dotenv file.
\<close>

subsection \<open>A workspace with one dotenv file\<close>

definition example_file_time :: gotime where "example_file_time = utc_instant 1000000000"

definition example_old_dotenv :: bytes where "example_old_dotenv = ''A=1''"
definition example_new_dotenv :: bytes where "example_new_dotenv = ''A=22''"
definition example_yaml :: bytes where "example_yaml = ''x: 1''"

definition example_inode :: "bytes \<Rightarrow> inode" where
  "example_inode s = \<lparr>in_content = s, in_mode = 0x8180, in_uid = 5, in_gid = 5, in_nlink = 1, in_mtime = example_file_time, in_ctime = example_file_time\<rparr>"

definition example_files :: filesystem where
  "example_files = \<lparr>fs_names = [((1, 2), ''.env'') \<mapsto> (1, 7), ((1, 2), ''.lego.yml'') \<mapsto> (1, 8)],
     fs_inodes = [(1, 7) \<mapsto> example_inode example_old_dotenv, (1, 8) \<mapsto> example_inode example_yaml], fs_next = 10\<rparr>"

definition example_edit_world :: world where
  "example_edit_world = \<lparr>w_fs = example_files, w_journal = empty_journal, w_selection = None, w_step = 0\<rparr>"

definition example_directory :: "bytes \<Rightarrow> key option" where
  "example_directory path = (if path = ''/w'' then Some (1, 2) else None)"

definition example_evidence :: "bytes \<Rightarrow> PathRole \<Rightarrow> bytes \<Rightarrow> PathEvidence" where
  "example_evidence path role reference = no_evidence\<lparr>pe_Role := role, pe_Reference := reference, pe_Path := path, pe_Exists := True,
     pe_Type := (if path = ''/w'' \<or> path = ''/s'' then PathTypeDirectory else PathTypeRegular), pe_Device := 1, pe_Inode := 2, pe_Safe := True\<rparr>"

definition example_review :: Review where
  "example_review = \<lparr>rv_ConfigurationSource = ConfigurationConventionalYML,
     rv_WorkingDirectory = example_evidence ''/w'' RoleWorkingDirectory [], rv_Configuration = example_evidence ''/w/.lego.yml'' RoleConfiguration [],
     rv_Storage = example_evidence ''/s'' RoleStorage ''/s'', rv_DotenvFiles = [example_evidence ''/w/.env'' RoleDotenv ''.env''], rv_Webroots = [],
     rv_Diagnostics = [], rv_Adoptable = True, rv_ReviewedEvidenceSHA256 = [], rv_ObservedAt = example_file_time\<rparr>"

definition example_source :: "PathRole \<Rightarrow> bytes \<Rightarrow> bytes \<Rightarrow> nat \<Rightarrow> bytes \<Rightarrow> SourceFile" where
  "example_source role path reference i s = \<lparr>so_Role = role, so_Path = path, so_Reference = reference, so_Content = s,
     so_Fingerprint = \<lparr>sf_Path = path, sf_Identity = identity_of (1, i) (example_inode s), sf_SHA256 = s\<rparr>\<rparr>"

definition example_sources :: SourceSet where
  "example_sources = \<lparr>ss_Selection = \<lparr>sl_Review = example_review, sl_ReviewedAt = example_file_time\<rparr>,
     ss_Configuration = example_source RoleConfiguration ''/w/.lego.yml'' [] 8 example_yaml,
     ss_Dotenv = [example_source RoleDotenv ''/w/.env'' ''.env'' 7 example_old_dotenv], ss_closed = False\<rparr>"

definition example_edit :: CommitPlan where
  "example_edit = \<lparr>cp_Sources = example_sources, cp_CandidateConfiguration = example_yaml,
     cp_Replacements = [\<lparr>rp_Role = RoleDotenv, rp_Path = ''/w/.env'', rp_Content = example_new_dotenv\<rparr>]\<rparr>"

definition example_manager :: "(nat \<Rightarrow> fault) \<Rightarrow> TransactionManager" where
  "example_manager fault = \<lparr>tm_coordinator = 0, tm_injector = (\<lambda>_ _. False), tm_euid = 5, tm_sha256 = (\<lambda>s. s), tm_MaxConfigurationBytes = 100,
     tm_fault = fault, tm_interfere = (\<lambda>_ fs. fs), tm_time = (\<lambda>_. example_file_time), tm_random = (\<lambda>_. Some (replicate 16 (CHR 0x00))),
     tm_newgid = (\<lambda>_. 5), tm_directory = (\<lambda>_. example_directory),
     tm_dirstat = (\<lambda>_ _. no_identity),
     tm_audit = (\<lambda>n path role reference _. \<lparr>ap_evidence = example_evidence path role reference, ap_diagnostics = [],
        ap_file = (if path = ''/w/.env'' then Some (1, if n < 100 then 7 else 10) else Some (1, 8))\<rparr>),
     tm_references = (\<lambda>_ _ _. (\<lparr>nr_storage = \<lparr>nr_raw = ''/s'', nr_resolved = ''/s''\<rparr>, nr_dotenv = [\<lparr>nr_raw = ''.env'', nr_resolved = ''/w/.env''\<rparr>], nr_webroots = []\<rparr>, [])),
     tm_inspect = (\<lambda>_ _. Inr example_review), tm_verify = (\<lambda>_ review. Inr review), tm_validateSelection = (\<lambda>_. True)\<rparr>"

definition example_lease :: Lease where
  "example_lease = \<lparr>le_coordinator = 0, le_released = False, le_file = True\<rparr>"

lemma example_quiet: "quiet (example_manager fault)"
  by (simp add: quiet_def example_manager_def)

lemma example_steady: "steady (example_manager fault) example_directory"
  by (simp add: steady_def example_manager_def)

lemma example_editable: "editable example_directory (cp_Replacements example_edit) (w_fs example_edit_world)"
proof -
  have d: "Dir_abs ''/w/.env'' = ''/w''" "Base ''/w/.env'' = ''.env''" by code_simp+
  have u: "unused example_files" by (auto simp: unused_def staging_name_def example_files_def)
  have t: "tidy example_files" by (auto simp: tidy_def example_files_def split: if_splits)
  have s: "single ((1, 2), ''.env'') example_files" by (auto simp: single_def example_files_def split: if_splits)
  show ?thesis using u t s by (simp add: editable_def example_edit_def example_edit_world_def d staging_name_def example_directory_def)
qed

subsection \<open>Atomicity\<close>

text \<open>C2: A commit of a native edit is atomic whatever fails and wherever it stops.  For every answer of
  the operating system and of the database (each call may work, be refused, take effect and still report an
  error unless it is a rename, or write a part; a process that dies is one whose later calls are all refused),
  while no other process writes: every replaced file holds its previous content or the whole new content, and
  every other file is untouched; a success means that all files are new, the journal is gone and the returned
  selection is recorded; an error that does not ask for recovery means that all files are as before; and
  whenever no journal is left, no staging file is left either and the files are all old or all new.\<close>

theorem commit_is_atomic:
  assumes "quiet m" "steady m D" "\<And>g. guard = Some g \<Longrightarrow> looks g"
    and "editable D (cp_Replacements plan) (w_fs w)"
    and "run_state (Commit m lease plan guard) w = (result, w')"
  defines "old \<equiv> \<lambda>r. file_at D (w_fs w') (rp_Path r) = file_at D (w_fs w) (rp_Path r)"
    and "new \<equiv> \<lambda>r. file_at D (w_fs w') (rp_Path r) = Some (rp_Content r)"
    and "plan_files \<equiv> set (cp_Replacements plan)"
  shows "(\<forall>r \<in> plan_files. old r \<or> new r) \<and> others_kept D (cp_Replacements plan) (w_fs w) (w_fs w') \<and>
    (case result of
       Inr selection \<Rightarrow> (\<forall>r \<in> plan_files. new r) \<and> w_selection w' = Some selection \<and> jdb_journal (w_journal w') = None
     | Inl e \<Rightarrow> ErrRecoveryRequired \<in> set e \<or> (\<forall>r \<in> plan_files. old r)) \<and>
    (w_selection w' = w_selection w \<or> (\<forall>r \<in> plan_files. new r)) \<and>
    (jdb_journal (w_journal w') = None \<longrightarrow> unused (w_fs w') \<and> ((\<forall>r \<in> plan_files. old r) \<or> (\<forall>r \<in> plan_files. new r)))"
proof -
  have "committed D (cp_Replacements plan) w result w'"
    using wp_Commit [where guard = guard and lease = lease and N = 0, OF assms(1,2) assms(3) assms(4)] assms(5)
    by (simp add: wp_def edited_def sources_below_def)
  then show ?thesis unfolding committed_def kept_def replaced_def old_def new_def plan_files_def .
qed

theorem commit_is_atomic_witness:
  "\<forall>fault. \<exists>result w'. run_state (Commit (example_manager fault) example_lease example_edit (Some (ret None))) example_edit_world = (result, w') \<and>
     file_at example_directory (w_fs w') ''/w/.env'' \<in> {Some example_old_dotenv, Some example_new_dotenv}"
proof
  fix fault
  obtain result w' where run: "run_state (Commit (example_manager fault) example_lease example_edit (Some (ret None))) example_edit_world = (result, w')"
    by force
  have g: "\<And>g. Some (ret None) = Some g \<Longrightarrow> looks g" by (auto intro: looks_ret)
  have d: "Dir_abs ''/w/.env'' = ''/w''" "Base ''/w/.env'' = ''.env''" by code_simp+
  have old: "file_at example_directory (w_fs example_edit_world) ''/w/.env'' = Some example_old_dotenv"
    by (simp add: file_at_def d example_directory_def example_edit_world_def example_files_def example_inode_def)
  show "\<exists>result w'. run_state (Commit (example_manager fault) example_lease example_edit (Some (ret None))) example_edit_world = (result, w') \<and>
     file_at example_directory (w_fs w') ''/w/.env'' \<in> {Some example_old_dotenv, Some example_new_dotenv}"
    using commit_is_atomic [OF example_quiet example_steady g example_editable run] old run
    by (auto simp: example_edit_def)
qed

subsection \<open>Creation\<close>

definition example_creation :: BootstrapPlan where
  "example_creation = \<lparr>bp_Request = \<lparr>br_WorkingDirectory = ''/w'', br_ConfigurationPath = ''/w/.env''\<rparr>, bp_CandidateConfiguration = example_new_dotenv,
     bp_Replacements = [\<lparr>rp_Role = RoleConfiguration, rp_Path = ''/w/.env'', rp_Content = example_new_dotenv\<rparr>]\<rparr>"

lemma example_creatable: "editable example_directory (bp_Replacements example_creation) (w_fs example_edit_world)"
  using example_editable by (simp add: editable_def example_creation_def example_edit_def target_name_def)

definition example_new_workspace :: BootstrapPlan where
  "example_new_workspace = \<lparr>bp_Request = \<lparr>br_WorkingDirectory = ''/w'', br_ConfigurationPath = ''/w/a.yml''\<rparr>, bp_CandidateConfiguration = example_yaml,
     bp_Replacements = [\<lparr>rp_Role = RoleConfiguration, rp_Path = ''/w/a.yml'', rp_Content = example_yaml\<rparr>]\<rparr>"

lemma example_new_creatable: "editable example_directory (bp_Replacements example_new_workspace) (w_fs example_edit_world)"
proof -
  have d: "Dir_abs ''/w/a.yml'' = ''/w''" "Base ''/w/a.yml'' = ''a.yml''" by code_simp+
  have s: "single ((1, 2), ''a.yml'') example_files" by (auto simp: single_def example_files_def split: if_splits)
  show ?thesis using example_editable s
    by (simp add: editable_def example_new_workspace_def example_edit_world_def d staging_name_def example_directory_def)
qed

text \<open>C11: The creation of a workspace is atomic in the sense of a commit, and it never overwrites a
  file: when a file of the plan is already there, the creation fails and the file system stays as it is.\<close>

theorem creation_is_atomic:
  assumes "quiet m" "steady m D" "\<And>g. guard = Some g \<Longrightarrow> looks g"
    and "editable D (bp_Replacements plan) (w_fs w)"
    and "run_state (Bootstrap m lease plan guard) w = (result, w')"
  defines "old \<equiv> \<lambda>r. file_at D (w_fs w') (rp_Path r) = file_at D (w_fs w) (rp_Path r)"
    and "new \<equiv> \<lambda>r. file_at D (w_fs w') (rp_Path r) = Some (rp_Content r)"
    and "plan_files \<equiv> set (bp_Replacements plan)"
  shows "((\<forall>r \<in> plan_files. old r \<or> new r) \<and> others_kept D (bp_Replacements plan) (w_fs w) (w_fs w') \<and>
    (case result of
       Inr selection \<Rightarrow> (\<forall>r \<in> plan_files. new r) \<and> w_selection w' = Some selection \<and> jdb_journal (w_journal w') = None
     | Inl e \<Rightarrow> ErrRecoveryRequired \<in> set e \<or> (\<forall>r \<in> plan_files. old r)) \<and>
    (w_selection w' = w_selection w \<or> (\<forall>r \<in> plan_files. new r)) \<and>
    (jdb_journal (w_journal w') = None \<longrightarrow> unused (w_fs w') \<and> ((\<forall>r \<in> plan_files. old r) \<or> (\<forall>r \<in> plan_files. new r)))) \<and>
    ((\<exists>r \<in> plan_files. file_at D (w_fs w) (rp_Path r) \<noteq> None) \<longrightarrow> isl result \<and> w_fs w' = w_fs w)"
proof
  have c: "creating 0 D (bp_Replacements plan) w result w'"
    using wp_Bootstrap [where guard = guard and lease = lease and N = 0, OF assms(1,2) assms(3) assms(4)] assms(5) by (simp add: wp_def)
  then have "committed D (bp_Replacements plan) w result w'" by (simp add: creating_def edited_def)
  then show "(\<forall>r \<in> plan_files. old r \<or> new r) \<and> others_kept D (bp_Replacements plan) (w_fs w) (w_fs w') \<and>
    (case result of
       Inr selection \<Rightarrow> (\<forall>r \<in> plan_files. new r) \<and> w_selection w' = Some selection \<and> jdb_journal (w_journal w') = None
     | Inl e \<Rightarrow> ErrRecoveryRequired \<in> set e \<or> (\<forall>r \<in> plan_files. old r)) \<and>
    (w_selection w' = w_selection w \<or> (\<forall>r \<in> plan_files. new r)) \<and>
    (jdb_journal (w_journal w') = None \<longrightarrow> unused (w_fs w') \<and> ((\<forall>r \<in> plan_files. old r) \<or> (\<forall>r \<in> plan_files. new r)))"
    unfolding committed_def kept_def replaced_def old_def new_def plan_files_def .
  have "occupied D (bp_Replacements plan) (w_fs w)" if "\<exists>r \<in> plan_files. file_at D (w_fs w) (rp_Path r) \<noteq> None"
    using that unfolding occupied_def file_at_def plan_files_def by (auto simp: bind_eq_Some_conv) blast
  with c show "(\<exists>r \<in> plan_files. file_at D (w_fs w) (rp_Path r) \<noteq> None) \<longrightarrow> isl result \<and> w_fs w' = w_fs w"
    by (simp add: creating_def)
qed

theorem creation_is_atomic_witness:
  "\<forall>fault. \<exists>result w'. run_state (Bootstrap (example_manager fault) example_lease example_creation (Some (ret None))) example_edit_world = (result, w') \<and>
     isl result \<and> file_at example_directory (w_fs w') ''/w/.env'' = Some example_old_dotenv"
proof
  fix fault
  obtain result w' where run: "run_state (Bootstrap (example_manager fault) example_lease example_creation (Some (ret None))) example_edit_world = (result, w')"
    by force
  have g: "\<And>g. Some (ret None) = Some g \<Longrightarrow> looks g" by (auto intro: looks_ret)
  have d: "Dir_abs ''/w/.env'' = ''/w''" "Base ''/w/.env'' = ''.env''" by code_simp+
  have old: "file_at example_directory (w_fs example_edit_world) ''/w/.env'' = Some example_old_dotenv"
    by (simp add: file_at_def d example_directory_def example_edit_world_def example_files_def example_inode_def)
  show "\<exists>result w'. run_state (Bootstrap (example_manager fault) example_lease example_creation (Some (ret None))) example_edit_world = (result, w') \<and>
     isl result \<and> file_at example_directory (w_fs w') ''/w/.env'' = Some example_old_dotenv"
    using creation_is_atomic [OF example_quiet example_steady g example_creatable run] old run
    by (auto simp: example_creation_def)
qed

subsection \<open>Recovery\<close>

text \<open>An edit that was interrupted, and any number of resolutions that did not finish it.\<close>

lemma commit_edited:
  assumes "quiet m0" "steady m0 D" "\<And>g. guard0 = Some g \<Longrightarrow> looks g" "editable D (cp_Replacements plan) (w_fs w)"
    and "sources_below (fs_next (w_fs w)) (cp_Sources plan)" "run_state (Commit m0 lease0 plan guard0) w = (r0, w1)"
  shows "edited (fs_next (w_fs w)) D (cp_Replacements plan) w r0 w1"
  using wp_Commit [where guard = guard0 and lease = lease0 and N = "fs_next (w_fs w)", OF assms(1,2) assms(3) assms(4) _ assms(5)] assms(6)
  by (simp add: wp_def)

lemma creation_edited:
  assumes "quiet m0" "steady m0 D" "\<And>g. guard0 = Some g \<Longrightarrow> looks g" "editable D (bp_Replacements plan) (w_fs w)"
    and "run_state (Bootstrap m0 lease0 plan guard0) w = (r0, w1)"
  shows "edited (fs_next (w_fs w)) D (bp_Replacements plan) w r0 w1"
  using wp_Bootstrap [where guard = guard0 and lease = lease0 and N = "fs_next (w_fs w)", OF assms(1,2) assms(3) assms(4)] assms(5)
  by (simp add: wp_def creating_def)

lemma recovery_verdict:
  assumes e: "edited (fs_next (w_fs w)) D rs w r0 w1" "editable D rs (w_fs w)" "jdb_journal (w_journal w) = None" "0 < fs_next (w_fs w)"
    and u: "\<forall>a \<in> set earlier. undisturbed D a" and q: "quiet m" "steady m D"
    and run: "run_state (InspectRecovery m lease) (attempts earlier w1) = (result, w')"
  shows "w_fs w' = w_fs (attempts earlier w1) \<and> (case result of Inl _ \<Rightarrow> True | Inr recovery \<Rightarrow>
    (\<forall>r \<in> set rs. \<exists>f \<in> set (re_Files recovery). rf_Path f = rp_Path r \<and> (rf_State f = RecoveryFileApplied \<longrightarrow> replaced D (w_fs w') r) \<and>
       (rf_State f \<in> {RecoveryFileUnstaged, RecoveryFileUnapplied} \<longrightarrow> kept D (w_fs w) (w_fs w') r)) \<and>
    (re_State recovery = RecoveryApplied \<longrightarrow> (\<forall>r \<in> set rs. replaced D (w_fs w') r)) \<and>
    (re_State recovery = RecoveryUnapplied \<longrightarrow> (\<forall>r \<in> set rs. kept D (w_fs w) (w_fs w') r)))"
proof -
  let ?w = "attempts earlier w1"
  have r: "recovering (fs_next (w_fs w)) D rs w w1 ?w" by (rule attempts_recovering [OF edited_recovering [OF e(1,3)] e(4,2) u])
  show ?thesis
  proof (cases "jdb_journal (w_journal ?w) = None")
    case True
    have "wp (InspectRecovery m lease) (\<lambda>r w'. isl r \<and> w_fs w' = w_fs ?w) ?w"
      by (rule wp_InspectRecovery_none [OF q(1) True]) simp
    with run show ?thesis by (auto simp: wp_def split: sum.split)
  next
    case False
    then have "pending (fs_next (w_fs w)) D rs w ?w" using r by (auto simp: recovering_def)
    from wp_InspectRecovery_pending [OF q this e(4), of lease] run
    show ?thesis unfolding wp_def by (auto simp: still_def same_world_def split: sum.split)
  qed
qed

lemma resolution_settles:
  assumes e: "edited (fs_next (w_fs w)) D rs w r0 w1" "editable D rs (w_fs w)" "jdb_journal (w_journal w) = None" "0 < fs_next (w_fs w)"
    and u: "\<forall>a \<in> set earlier. undisturbed D a"
    and q: "quiet m" "steady m D" "\<And>g. guard = Some g \<Longrightarrow> looks g" "\<forall>v s. validator = Some v \<longrightarrow> looks (v s)"
    and res: "run_state (ResolveRecovery m lease resolution guard validator) (attempts earlier w1) = (result, w')"
  shows "(\<forall>r \<in> set rs. kept D (w_fs w1) (w_fs w') r \<and> (kept D (w_fs w) (w_fs w') r \<or> replaced D (w_fs w') r)) \<and>
    others_kept D rs (w_fs w) (w_fs w') \<and>
    (case result of Inl _ \<Rightarrow> True | Inr x \<Rightarrow>
       jdb_journal (w_journal w') = None \<and> unused (w_fs w') \<and> w_selection w' = rr_Selection x \<and>
       (resolution = ResolutionDiscardUnapplied \<longrightarrow> (\<forall>r \<in> set rs. kept D (w_fs w) (w_fs w') r)) \<and>
       (resolution = ResolutionFinalizeApplied \<longrightarrow> (\<forall>r \<in> set rs. replaced D (w_fs w') r)))"
proof -
  let ?w = "attempts earlier w1" and ?N = "fs_next (w_fs w)"
    and ?a = "\<lparr>at_manager = m, at_lease = lease, at_resolution = resolution, at_guard = guard, at_validator = validator\<rparr>"
  have r: "recovering ?N D rs w w1 ?w" by (rule attempts_recovering [OF edited_recovering [OF e(1,3)] e(4,2) u])
  have u: "undisturbed D ?a" using q by (simp add: undisturbed_def)
  have run: "run_state (attempt_recovery ?a) ?w = (result, w')" using res by (simp add: attempt_recovery_def)
  note after = attempt_recovering [OF r e(4,2) u run]
  have mix: "\<forall>r \<in> set rs. kept D (w_fs w) (w_fs w1) r \<or> replaced D (w_fs w1) r" using e(1) by (simp add: edited_def committed_def)
  have same: "\<forall>r \<in> set rs. kept D (w_fs w1) (w_fs w') r" "others_kept D rs (w_fs w) (w_fs w')"
    using after(1) by (simp_all add: recovering_def)
  have "case result of Inl _ \<Rightarrow> True | Inr x \<Rightarrow> resolved resolution ?N D rs w ?w (Inr x) w'"
    using after(2,3) by (cases "jdb_journal (w_journal ?w) = None") (auto split: sum.split)
  with same mix show ?thesis by (auto simp: resolved_def kept_def replaced_def split: sum.splits)
qed

text \<open>C3: What recovery says about an interrupted edit is true.  After a commit that stopped anywhere and
  any number of resolutions that stopped anywhere, a review of the pending edit changes nothing and
  reports every file of the plan; a file reported as applied holds the whole new content, a file reported
  as unapplied or unstaged holds its content from before the edit; hence an edit reported as applied has
  replaced all its files and one reported as unapplied has replaced none.  The edit began without a journal,
  and the inode numbers of its sources were already given out.\<close>

theorem recovery_verdict_is_true:
  assumes "quiet m0" "steady m0 D" "\<And>g. guard0 = Some g \<Longrightarrow> looks g" "editable D (cp_Replacements plan) (w_fs w)"
    and "jdb_journal (w_journal w) = None" "0 < fs_next (w_fs w)" "sources_below (fs_next (w_fs w)) (cp_Sources plan)"
    and "run_state (Commit m0 lease0 plan guard0) w = (r0, w1)" "\<forall>a \<in> set earlier. undisturbed D a"
    and "quiet m" "steady m D" "run_state (InspectRecovery m lease) (attempts earlier w1) = (result, w')"
  defines "old \<equiv> \<lambda>r. file_at D (w_fs w') (rp_Path r) = file_at D (w_fs w) (rp_Path r)"
    and "new \<equiv> \<lambda>r. file_at D (w_fs w') (rp_Path r) = Some (rp_Content r)"
    and "plan_files \<equiv> set (cp_Replacements plan)"
  shows "w_fs w' = w_fs (attempts earlier w1) \<and> (case result of Inl _ \<Rightarrow> True | Inr recovery \<Rightarrow>
    (\<forall>r \<in> plan_files. \<exists>f \<in> set (re_Files recovery). rf_Path f = rp_Path r \<and> (rf_State f = RecoveryFileApplied \<longrightarrow> new r) \<and>
       (rf_State f \<in> {RecoveryFileUnstaged, RecoveryFileUnapplied} \<longrightarrow> old r)) \<and>
    (re_State recovery = RecoveryApplied \<longrightarrow> (\<forall>r \<in> plan_files. new r)) \<and>
    (re_State recovery = RecoveryUnapplied \<longrightarrow> (\<forall>r \<in> plan_files. old r)))"
  using recovery_verdict [OF commit_edited [OF assms(1,2) assms(3) assms(4,7,8)] assms(4-6,9-12)]
  unfolding old_def new_def plan_files_def kept_def replaced_def .

text \<open>C4: Recovery settles an interrupted edit without touching its files.  After a commit that stopped
  anywhere and any number of resolutions that stopped anywhere, a resolution leaves every file of the
  plan as the commit left it, old or new, and every other file as it was; when it succeeds, the journal and all
  staging files are gone and the returned selection is the recorded one; a successful discard means that
  every file is as before the edit, a successful finalization that every file is new.\<close>

theorem recovery_settles_edit:
  assumes "quiet m0" "steady m0 D" "\<And>g. guard0 = Some g \<Longrightarrow> looks g" "editable D (cp_Replacements plan) (w_fs w)"
    and "jdb_journal (w_journal w) = None" "0 < fs_next (w_fs w)" "sources_below (fs_next (w_fs w)) (cp_Sources plan)"
    and "run_state (Commit m0 lease0 plan guard0) w = (r0, w1)" "\<forall>a \<in> set earlier. undisturbed D a"
    and "quiet m" "steady m D" "\<And>g. guard = Some g \<Longrightarrow> looks g" "\<forall>v s. validator = Some v \<longrightarrow> looks (v s)"
    and "run_state (ResolveRecovery m lease resolution guard validator) (attempts earlier w1) = (result, w')"
  defines "old \<equiv> \<lambda>r. file_at D (w_fs w') (rp_Path r) = file_at D (w_fs w) (rp_Path r)"
    and "new \<equiv> \<lambda>r. file_at D (w_fs w') (rp_Path r) = Some (rp_Content r)"
    and "plan_files \<equiv> set (cp_Replacements plan)"
  shows "(\<forall>r \<in> plan_files. file_at D (w_fs w') (rp_Path r) = file_at D (w_fs w1) (rp_Path r) \<and> (old r \<or> new r)) \<and>
    others_kept D (cp_Replacements plan) (w_fs w) (w_fs w') \<and>
    (case result of Inl _ \<Rightarrow> True | Inr x \<Rightarrow>
       jdb_journal (w_journal w') = None \<and> unused (w_fs w') \<and> w_selection w' = rr_Selection x \<and>
       (resolution = ResolutionDiscardUnapplied \<longrightarrow> (\<forall>r \<in> plan_files. old r)) \<and>
       (resolution = ResolutionFinalizeApplied \<longrightarrow> (\<forall>r \<in> plan_files. new r)))"
  using resolution_settles [OF commit_edited [OF assms(1,2) assms(3) assms(4,7,8)] assms(4-6,9-11) assms(12) assms(13,14)]
  unfolding old_def new_def plan_files_def kept_def replaced_def .



lemma example_recoverable:
  "jdb_journal (w_journal example_edit_world) = None" "0 < fs_next (w_fs example_edit_world)"
  "sources_below (fs_next (w_fs example_edit_world)) (cp_Sources example_edit)"
  by (simp_all add: example_edit_world_def example_files_def empty_journal_def sources_below_def below_def example_edit_def
      example_sources_def example_source_def identity_of_def)

definition example_attempt :: "(nat \<Rightarrow> fault) \<Rightarrow> attempt" where
  "example_attempt fault = \<lparr>at_manager = example_manager fault, at_lease = example_lease, at_resolution = ResolutionDiscardUnapplied,
     at_guard = Some (ret None), at_validator = None\<rparr>"

lemma example_undisturbed: "\<forall>a \<in> set [example_attempt fault]. undisturbed example_directory a"
  by (simp add: undisturbed_def example_attempt_def example_quiet example_steady looks_ret)

theorem recovery_verdict_is_true_witness:
  "\<forall>fault. \<exists>r0 w1 result w'. run_state (Commit (example_manager fault) example_lease example_edit (Some (ret None))) example_edit_world = (r0, w1) \<and>
     run_state (InspectRecovery (example_manager (\<lambda>_. Works)) example_lease) (attempts [example_attempt fault] w1) = (result, w') \<and>
     (case result of Inl _ \<Rightarrow> True | Inr recovery \<Rightarrow>
        (re_State recovery = RecoveryApplied \<longrightarrow> file_at example_directory (w_fs w') ''/w/.env'' = Some example_new_dotenv) \<and>
        (re_State recovery = RecoveryUnapplied \<longrightarrow> file_at example_directory (w_fs w') ''/w/.env'' = Some example_old_dotenv))"
proof
  fix fault
  obtain r0 w1 where run: "run_state (Commit (example_manager fault) example_lease example_edit (Some (ret None))) example_edit_world = (r0, w1)"
    by force
  obtain result w' where look: "run_state (InspectRecovery (example_manager (\<lambda>_. Works)) example_lease) (attempts [example_attempt fault] w1) = (result, w')"
    by force
  have g: "\<And>g. Some (ret None) = Some g \<Longrightarrow> looks g" by (auto intro: looks_ret)
  have d: "Dir_abs ''/w/.env'' = ''/w''" "Base ''/w/.env'' = ''.env''" by code_simp+
  have old: "file_at example_directory (w_fs example_edit_world) ''/w/.env'' = Some example_old_dotenv"
    by (simp add: file_at_def d example_directory_def example_edit_world_def example_files_def example_inode_def)
  have p: "set (cp_Replacements example_edit) = {\<lparr>rp_Role = RoleDotenv, rp_Path = ''/w/.env'', rp_Content = example_new_dotenv\<rparr>}"
    by (simp add: example_edit_def)
  show "\<exists>r0 w1 result w'. run_state (Commit (example_manager fault) example_lease example_edit (Some (ret None))) example_edit_world = (r0, w1) \<and>
     run_state (InspectRecovery (example_manager (\<lambda>_. Works)) example_lease) (attempts [example_attempt fault] w1) = (result, w') \<and>
     (case result of Inl _ \<Rightarrow> True | Inr recovery \<Rightarrow>
        (re_State recovery = RecoveryApplied \<longrightarrow> file_at example_directory (w_fs w') ''/w/.env'' = Some example_new_dotenv) \<and>
        (re_State recovery = RecoveryUnapplied \<longrightarrow> file_at example_directory (w_fs w') ''/w/.env'' = Some example_old_dotenv))"
    using recovery_verdict_is_true [OF example_quiet example_steady g example_editable example_recoverable run example_undisturbed example_quiet example_steady look]
      run look by (auto simp: p old split: sum.splits)
qed

theorem recovery_settles_edit_witness:
  "\<forall>fault. \<exists>r0 w1 result w'. run_state (Commit (example_manager fault) example_lease example_edit (Some (ret None))) example_edit_world = (r0, w1) \<and>
     run_state (ResolveRecovery (example_manager fault) example_lease ResolutionDiscardUnapplied (Some (ret None)) None)
       (attempts [example_attempt fault] w1) = (result, w') \<and>
     file_at example_directory (w_fs w') ''/w/.env'' = file_at example_directory (w_fs w1) ''/w/.env''"
proof
  fix fault
  obtain r0 w1 where run: "run_state (Commit (example_manager fault) example_lease example_edit (Some (ret None))) example_edit_world = (r0, w1)"
    by force
  obtain result w' where resolve: "run_state (ResolveRecovery (example_manager fault) example_lease ResolutionDiscardUnapplied (Some (ret None)) None)
       (attempts [example_attempt fault] w1) = (result, w')" by force
  have g: "\<And>g. Some (ret None) = Some g \<Longrightarrow> looks g" by (auto intro: looks_ret)
  have v: "\<forall>v s. None = Some v \<longrightarrow> looks (v s)" by simp
  show "\<exists>r0 w1 result w'. run_state (Commit (example_manager fault) example_lease example_edit (Some (ret None))) example_edit_world = (r0, w1) \<and>
     run_state (ResolveRecovery (example_manager fault) example_lease ResolutionDiscardUnapplied (Some (ret None)) None)
       (attempts [example_attempt fault] w1) = (result, w') \<and>
     file_at example_directory (w_fs w') ''/w/.env'' = file_at example_directory (w_fs w1) ''/w/.env''"
    using recovery_settles_edit [where guard0 = "Some (ret None)" and guard = "Some (ret None)" and validator = None,
        OF example_quiet example_steady g example_editable example_recoverable run example_undisturbed example_quiet example_steady g v resolve] run resolve
    by (auto simp: example_edit_def)
qed

end
