(* ===== verification/Spec2Isabelle.thy ===== *)
theory Spec2Isabelle
  imports Jobs_Spec Sched_Properties Broker_Properties Operation_Service Identity_Properties
    Dotenv_Properties Workspace_Properties
begin

text \<open>
  AcmeMux supervises an ACME client (lego) on one host: an administrator reviews and starts
  operations, a scheduler starts them daily, and a durable worker executes one at a time.
\<close>

end
